(* ===== verification/Prelude.thy ===== *)
theory Prelude
  imports Main "HOL-Library.AList"
begin

text \<open>
  What every theory of the development shares: the collections of simplification rules,
  Go's error values with \<open>errors.Is\<close> and \<open>errors.As\<close>, the result shape of
  \<open>Engine.Process\<close>, and generic lemmas on finite maps and lists.

  Go's \<open>int\<close> and \<open>int64\<close> are \<open>int\<close>: every quantity the modelled code adds up
  (slots, tokens, weights, Unix seconds, token counts) stays far below \<open>2^63\<close> for any
  configuration the code accepts, and no modelled branch depends on wrap-around.
\<close>

named_theorems view_simps \<open>what each Redis command or script does to the abstract view\<close>
named_theorems engine_simps \<open>unfolding rules of the engines' entry points\<close>

section \<open>Errors\<close>

text \<open>
  An \<open>http.Header\<close> is a list of keys with their values; a nil header is the empty list.
\<close>

type_synonym http_header = "(string \<times> string list) list"

text \<open>
  The error values of the gateway. \<open>Sentinel\<close> is a package-level \<open>errors.New\<close>
  variable, compared by identity (here: by its Go name); \<open>Plain\<close> is an error with no
  wrapped error; \<open>Wrap\<close> is \<open>fmt.Errorf\<close> with \<open>%w\<close> verbs or \<open>errors.Join\<close>;
  \<open>UpstreamResp\<close> and \<open>UpstreamHTTP\<close> are the error structs of
  \<open>errutils/upstream_error.go\<close>, and \<open>Handler\<close> is \<open>errutils.HandlerError\<close>
  (wrapped error, status, message, type, param, code, header). \<open>WithAction\<close> is the rule engine's
  \<open>ErrWithAction\<close>, which keeps its error but does not unwrap to it.
\<close>

datatype err =
    Sentinel string
  | Plain string
  | Wrap string "err list"
  | UpstreamResp int http_header string
  | UpstreamHTTP err int
  | Handler "err option" int string string "string option" string http_header
  | WithAction string err
text \<open>\<open>errors.Is(err, target)\<close> for a sentinel target.\<close>

fun errors_is :: "err \<Rightarrow> string \<Rightarrow> bool" where
  "errors_is (Sentinel s) t = (s = t)"
| "errors_is (Plain _) t = False"
| "errors_is (Wrap _ es) t = list_ex (\<lambda>e. errors_is e t) es"
| "errors_is (UpstreamResp _ _ _) t = False"
| "errors_is (UpstreamHTTP e _) t = errors_is e t"
| "errors_is (WithAction _ _) t = False"
| "errors_is (Handler None _ _ _ _ _ _) t = False"
| "errors_is (Handler (Some e) _ _ _ _ _ _) t = errors_is e t"

text \<open>
  \<open>errors.As(err, &target)\<close>: the first error of the tree, in pre-order, that
  \<open>sel\<close> accepts.
\<close>

fun errors_as :: "(err \<Rightarrow> 'a option) \<Rightarrow> err \<Rightarrow> 'a option"
and errors_as_list :: "(err \<Rightarrow> 'a option) \<Rightarrow> err list \<Rightarrow> 'a option" where
  "errors_as sel e =
     (case sel e of Some x \<Rightarrow> Some x
      | None \<Rightarrow>
         (case e of
            Wrap _ es \<Rightarrow> errors_as_list sel es
          | UpstreamHTTP e' _ \<Rightarrow> errors_as sel e'
          | Handler (Some e') _ _ _ _ _ _ \<Rightarrow> errors_as sel e'
          | _ \<Rightarrow> None))"
| "errors_as_list sel [] = None"
| "errors_as_list sel (e # es) =
     (case errors_as sel e of Some x \<Rightarrow> Some x | None \<Rightarrow> errors_as_list sel es)"

section \<open>Engines\<close>

text \<open>
  \<open>Process\<close> returns Go's pair \<open>(*Response, error)\<close>, each of which may be nil, and it
  may change the world it runs in (Redis, metadata, other backends' state). An engine is
  a function of the request and the world; the next engine of a chain is an argument.
\<close>

type_synonym 'rs go_result = "'rs option \<times> err option"

type_synonym ('w, 'rq, 'rs) engine = "'rq \<Rightarrow> 'w \<Rightarrow> 'rs go_result \<times> 'w"

text \<open>A nil dereference or a call of a method of a nil interface panics.\<close>

datatype 'r outcome = Panicked | Returned 'r

section \<open>Finite maps\<close>

lemma card_dom_upd_le:
  "finite (dom m) \<Longrightarrow> card (dom (m(k \<mapsto> v))) \<le> Suc (card (dom m))"
  by (simp add: card_insert_if)

lemma card_dom_upd_new [simp]:
  "finite (dom m) \<Longrightarrow> k \<notin> dom m \<Longrightarrow> card (dom (m(k \<mapsto> v))) = Suc (card (dom m))"
  by simp

lemma card_dom_upd_old:
  "k \<in> dom m \<Longrightarrow> dom (m(k \<mapsto> v)) = dom m"
  by auto

lemma dom_restrict_le: "dom (m |` A) \<subseteq> dom m"
  by (auto simp: restrict_map_def split: if_splits)

lemma card_dom_restrict_le: "finite (dom m) \<Longrightarrow> card (dom (m |` A)) \<le> card (dom m)"
  by (rule card_mono) (auto intro: dom_restrict_le)

end
