(* ===== verification/Binary64.thy ===== *)
theory Binary64
  imports Complex_Main Prelude
begin

text \<open>
  The 64-bit floating point numbers of Go's \<open>float64\<close> and Lua's \<open>number\<close>, as far
  as the limiters and load balancers use them: a float is the rational number it denotes,
  and each operation rounds the exact result to 53 significant bits, ties to even. The
  operands that occur (token counts, limits, seconds, ratios of them) are far from the
  overflow and subnormal ranges, which are not modelled.

  The locale \<open>rounding\<close> states the laws the clients need of the rounding function
  (monotone, exact on 53-bit integers, relative error at most \<open>2^-53\<close>), and the
  theory ends with its interpretation on \<open>f64\<close>.
\<close>

section \<open>Rounding to 53 bits\<close>

definition round_half_even :: "rat \<Rightarrow> int" where
  "round_half_even x =
     (let f = \<lfloor>x\<rfloor>; r = x - of_int f in
      if r < 1/2 then f else if 1/2 < r then f + 1
      else if even f then f else f + 1)"

text \<open>
  The binary exponent of a positive rational, by search from the exponents of numerator
  and denominator: \<open>2 ^ k \<le> x < 2 ^ (k + 1)\<close>.
\<close>

fun bits :: "nat \<Rightarrow> nat" where
  "bits n = (if n = 0 then 0 else Suc (bits (n div 2)))"

declare bits.simps [simp del]

definition pow2 :: "int \<Rightarrow> rat" where
  "pow2 k = (if 0 \<le> k then 2 ^ nat k else 1 / 2 ^ nat (- k))"

definition ilog2 :: "rat \<Rightarrow> int" where
  "ilog2 x =
     (let (p, q) = quotient_of x;
          k = int (bits (nat p)) - int (bits (nat q))
      in if pow2 k \<le> x then k else k - 1)"

definition f64_pos :: "rat \<Rightarrow> rat" where
  "f64_pos x = (let e = ilog2 x - 52 in of_int (round_half_even (x / pow2 e)) * pow2 e)"

definition f64 :: "rat \<Rightarrow> rat" where
  "f64 x = (if x = 0 then 0 else if 0 < x then f64_pos x else - f64_pos (- x))"

definition fmul :: "rat \<Rightarrow> rat \<Rightarrow> rat" where
  "fmul a b = f64 (a * b)"

definition fdiv :: "rat \<Rightarrow> rat \<Rightarrow> rat" where
  "fdiv a b = f64 (a / b)"

definition fadd :: "rat \<Rightarrow> rat \<Rightarrow> rat" where
  "fadd a b = f64 (a + b)"

text \<open>Go's conversion \<open>int64(x)\<close> truncates towards zero.\<close>

definition trunc64 :: "rat \<Rightarrow> int" where
  "trunc64 x = (if 0 \<le> x then \<lfloor>x\<rfloor> else \<lceil>x\<rceil>)"

section \<open>Properties of the rounding\<close>

lemma pow2_pos [simp]: "0 < pow2 k" "pow2 k \<noteq> 0" "0 \<le> pow2 k"
  by (simp_all add: pow2_def)

lemma pow2_add: "pow2 (a + b) = pow2 a * pow2 b"
proof -
  have eq: "pow2 k = 2 powi k" for k
    by (simp add: pow2_def power_int_def inverse_eq_divide power_one_over)
  show ?thesis by (simp add: eq power_int_add)
qed

lemma pow2_simps [simp]: "pow2 0 = 1" "pow2 1 = 2"
  by (simp_all add: pow2_def)

lemma pow2_mono: "a \<le> b \<Longrightarrow> pow2 a \<le> pow2 b"
proof -
  assume "a \<le> b"
  then have "pow2 b = pow2 a * 2 ^ nat (b - a)"
    using pow2_add [of a "b - a"] by (simp add: pow2_def)
  then show ?thesis by simp
qed

lemma pow2_less_iff: "pow2 a < pow2 b \<longleftrightarrow> a < b"
proof
  assume "pow2 a < pow2 b"
  then show "a < b" using pow2_mono [of b a] by force
next
  assume "a < b"
  then have "pow2 (a + 1) \<le> pow2 b" by (intro pow2_mono) simp
  moreover have "pow2 a < pow2 (a + 1)" by (simp add: pow2_add)
  ultimately show "pow2 a < pow2 b" by simp
qed

lemma bits_small [simp]: "bits 0 = 0" "bits (Suc 0) = 1"
  by (simp_all add: bits.simps)

lemma bits_bounds: "0 < n \<Longrightarrow> 2 ^ (bits n - 1) \<le> n \<and> n < 2 ^ bits n \<and> 0 < bits n"
proof (induction n rule: bits.induct)
  case (1 n)
  show ?case
  proof (cases "n div 2 = 0")
    case True
    with 1 have "n = 1" by simp
    then show ?thesis by simp
  next
    case False
    with 1 have IH: "2 ^ (bits (n div 2) - 1) \<le> n div 2" "n div 2 < 2 ^ bits (n div 2)"
      "0 < bits (n div 2)" by simp_all
    have b: "bits n = Suc (bits (n div 2))" using "1.prems" by (simp add: bits.simps [of n])
    have "(2::nat) ^ bits (n div 2) = 2 * 2 ^ (bits (n div 2) - 1)"
      using IH(3) by (cases "bits (n div 2)") auto
    moreover have "2 * (n div 2) \<le> n" "n < 2 * (n div 2) + 2" by simp_all
    ultimately show ?thesis using IH b by simp linarith
  qed
qed

lemma ilog2_bounds:
  assumes "0 < x"
  shows "pow2 (ilog2 x) \<le> x" "x < pow2 (ilog2 x + 1)"
proof -
  obtain p q where pq: "quotient_of x = (p, q)" by (cases "quotient_of x")
  have q: "0 < q" using quotient_of_denom_pos [OF pq] .
  have x: "x = of_int p / of_int q" using quotient_of_div [OF pq] .
  have p: "0 < p" using assms q x by (simp add: zero_less_divide_iff)
  define a b where "a = bits (nat p)" and "b = bits (nat q)"
  have a: "2 ^ (a - 1) \<le> nat p" "nat p < 2 ^ a" "0 < a"
    using bits_bounds [of "nat p"] p by (auto simp: a_def)
  have b: "2 ^ (b - 1) \<le> nat q" "nat q < 2 ^ b" "0 < b"
    using bits_bounds [of "nat q"] q by (auto simp: b_def)
  have pn: "(of_int p :: rat) = of_nat (nat p)" and qn: "(of_int q :: rat) = of_nat (nat q)"
    using p q by simp_all
  have up: "of_nat m < pow2 (int k)" if "m < 2 ^ k" for m k :: nat
    using that by (simp add: pow2_def)
  have lo: "pow2 (int k - 1) \<le> of_nat m" if "2 ^ (k - 1) \<le> m" "0 < k" for m k :: nat
  proof -
    have "pow2 (int k - 1) = 2 ^ (k - 1)" using that(2) by (simp add: pow2_def nat_diff_distrib)
    also have "\<dots> = of_nat (2 ^ (k - 1))" by simp
    also have "\<dots> \<le> of_nat m" using that(1) of_nat_le_iff by blast
    finally show ?thesis .
  qed
  have P: "pow2 (int a - 1) \<le> of_int p" "of_int p < pow2 (int a)"
    using lo [OF a(1) a(3)] up [OF a(2)] by (simp_all add: pn del: of_nat_nat)
  have Q: "pow2 (int b - 1) \<le> of_int q" "of_int q < pow2 (int b)"
    using lo [OF b(1) b(3)] up [OF b(2)] by (simp_all add: qn del: of_nat_nat)
  define k where "k = int a - int b"
  have "x < pow2 (int a) / pow2 (int b - 1)"
    unfolding x using P Q p q by (intro frac_less) simp_all
  also have "\<dots> = pow2 (k + 1)"
    using pow2_add [of "int b - 1" "k + 1"] by (simp add: k_def field_simps)
  finally have hi: "x < pow2 (k + 1)" .
  have "pow2 (int a - 1) / pow2 (int b) < x"
    unfolding x using P Q p q by (intro frac_less2) simp_all
  moreover have "pow2 (int a - 1) / pow2 (int b) = pow2 (k - 1)"
    using pow2_add [of "int b" "k - 1"] by (simp add: k_def field_simps)
  ultimately have lo': "pow2 (k - 1) \<le> x" by simp
  have "ilog2 x = (if pow2 k \<le> x then k else k - 1)"
    by (simp add: ilog2_def pq a_def b_def k_def Let_def)
  then show "pow2 (ilog2 x) \<le> x" "x < pow2 (ilog2 x + 1)"
    using hi lo' by (auto split: if_splits)
qed

lemma ilog2_mono: "0 < x \<Longrightarrow> x \<le> y \<Longrightarrow> ilog2 x \<le> ilog2 y"
  using ilog2_bounds(1) [of x] ilog2_bounds(2) [of y] pow2_less_iff [of "ilog2 x" "ilog2 y + 1"]
  by force

lemma round_half_even_cases:
  "round_half_even x = \<lfloor>x\<rfloor> \<and> x - of_int \<lfloor>x\<rfloor> \<le> 1/2
   \<or> round_half_even x = \<lfloor>x\<rfloor> + 1 \<and> 1/2 \<le> x - of_int \<lfloor>x\<rfloor>"
  by (auto simp: round_half_even_def Let_def)

lemma round_half_even_err: "\<bar>of_int (round_half_even x) - x\<bar> \<le> 1/2"
  using round_half_even_cases [of x] floor_correct [of x]
  by (auto simp: abs_le_iff)

lemma round_half_even_of_int [simp]: "round_half_even (of_int n) = n"
  by (simp add: round_half_even_def)

lemma round_half_even_mono: "x \<le> y \<Longrightarrow> round_half_even x \<le> round_half_even y"
proof -
  assume le: "x \<le> y"
  then have f: "\<lfloor>x\<rfloor> \<le> \<lfloor>y\<rfloor>" by (rule floor_mono)
  show ?thesis
  proof (cases "\<lfloor>x\<rfloor> = \<lfloor>y\<rfloor>")
    case True
    with le show ?thesis by (auto simp: round_half_even_def Let_def)
  next
    case False
    then have "\<lfloor>x\<rfloor> + 1 \<le> \<lfloor>y\<rfloor>" using f by simp
    then show ?thesis
      using round_half_even_cases [of x] round_half_even_cases [of y] by auto
  qed
qed

lemma f64_pos_bounds:
  assumes "0 < x"
  shows "pow2 (ilog2 x) \<le> f64_pos x" "f64_pos x \<le> pow2 (ilog2 x + 1)"
proof -
  define e where "e = ilog2 x - 52"
  have lo: "pow2 52 \<le> x / pow2 e"
    using ilog2_bounds(1) [OF assms] pow2_add [of 52 e] by (simp add: e_def field_simps)
  have hi: "x / pow2 e \<le> pow2 53"
    using ilog2_bounds(2) [OF assms] pow2_add [of 53 e]
    by (simp add: e_def field_simps less_imp_le)
  have c: "pow2 52 = of_int (2 ^ 52)" "pow2 53 = of_int (2 ^ 53)" by (simp_all add: pow2_def)
  have "2 ^ 52 \<le> round_half_even (x / pow2 e)"
    using round_half_even_mono [OF lo] unfolding c round_half_even_of_int .
  then have l: "pow2 52 \<le> of_int (round_half_even (x / pow2 e))" unfolding c by (simp only: of_int_le_iff)
  have "round_half_even (x / pow2 e) \<le> 2 ^ 53"
    using round_half_even_mono [OF hi] unfolding c round_half_even_of_int .
  then have h: "of_int (round_half_even (x / pow2 e)) \<le> pow2 53" unfolding c by (simp only: of_int_le_iff)
  have f: "f64_pos x = of_int (round_half_even (x / pow2 e)) * pow2 e"
    by (simp add: f64_pos_def Let_def e_def)
  have "pow2 (ilog2 x) = pow2 52 * pow2 e" using pow2_add [of 52 e] by (simp add: e_def)
  also have "\<dots> \<le> f64_pos x" unfolding f by (intro mult_right_mono l) simp
  finally show "pow2 (ilog2 x) \<le> f64_pos x" .
  have "f64_pos x \<le> pow2 53 * pow2 e" unfolding f by (intro mult_right_mono h) simp
  also have "\<dots> = pow2 (ilog2 x + 1)" using pow2_add [of 53 e] by (simp add: e_def add.commute)
  finally show "f64_pos x \<le> pow2 (ilog2 x + 1)" .
qed

lemma f64_pos_mono:
  assumes "0 < x" "x \<le> y"
  shows "f64_pos x \<le> f64_pos y"
proof (cases "ilog2 x = ilog2 y")
  case True
  have "x / pow2 (ilog2 y - 52) \<le> y / pow2 (ilog2 y - 52)"
    using assms(2) by (rule divide_right_mono) simp
  then show ?thesis
    using True round_half_even_mono by (simp add: f64_pos_def Let_def)
next
  case False
  then have "ilog2 x + 1 \<le> ilog2 y" using ilog2_mono [OF assms] by simp
  then have "pow2 (ilog2 x + 1) \<le> pow2 (ilog2 y)" by (rule pow2_mono)
  then show ?thesis
    using f64_pos_bounds(2) [OF assms(1)] f64_pos_bounds(1) [of y] assms by simp
qed

lemma f64_pos_pos: "0 < x \<Longrightarrow> 0 < f64_pos x"
  using f64_pos_bounds(1) [of x] pow2_pos(1) [of "ilog2 x"] by linarith

lemma f64_mono: "x \<le> y \<Longrightarrow> f64 x \<le> f64 y"
  using f64_pos_mono [of x y] f64_pos_mono [of "- y" "- x"] f64_pos_pos [of y] f64_pos_pos [of "- x"]
  by (auto simp: f64_def)

lemma f64_0 [simp]: "f64 0 = 0"
  by (simp add: f64_def)

lemma f64_nonneg: "0 \<le> x \<Longrightarrow> 0 \<le> f64 x"
  using f64_mono [of 0 x] by simp

lemma f64_err: "0 \<le> x \<Longrightarrow> \<bar>f64 x - x\<bar> \<le> x / 2 ^ 53"
proof (cases "x = 0")
  case False
  assume "0 \<le> x"
  with False have x: "0 < x" by simp
  define e where "e = ilog2 x - 52"
  have f: "f64 x = of_int (round_half_even (x / pow2 e)) * pow2 e"
    using x by (simp add: f64_def f64_pos_def Let_def e_def)
  have "f64 x - x = (of_int (round_half_even (x / pow2 e)) - x / pow2 e) * pow2 e"
    by (simp add: f field_simps)
  then have "\<bar>f64 x - x\<bar> = \<bar>of_int (round_half_even (x / pow2 e)) - x / pow2 e\<bar> * pow2 e"
    by (simp add: abs_mult)
  also have "\<dots> \<le> 1 / 2 * pow2 e"
    by (intro mult_right_mono round_half_even_err) simp
  also have "\<dots> \<le> x / 2 ^ 53"
    using ilog2_bounds(1) [OF x] pow2_add [of 52 e] by (simp add: e_def pow2_def field_simps)
  finally show ?thesis .
qed simp

lemma f64_exact:
  assumes "\<bar>n\<bar> < 2 ^ 53"
  shows "f64 (of_int n) = of_int n"
proof -
  have pos: "f64_pos (of_int n) = of_int n" if n: "0 < n" "n < 2 ^ 53" for n :: int
  proof -
    define e where "e = ilog2 (of_int n) - 52"
    have "pow2 (ilog2 (of_int n)) < pow2 53"
      using ilog2_bounds(1) [of "of_int n"] n by (simp add: pow2_def)
    then have e: "e \<le> 0" by (simp add: e_def pow2_less_iff)
    have "1 / pow2 e = pow2 (- e)" using pow2_add [of e "- e"] by (simp add: field_simps)
    then have "of_int n / pow2 e = of_int n * pow2 (- e)" by (simp add: field_simps)
    also have "\<dots> = of_int (n * 2 ^ nat (- e))" using e by (simp add: pow2_def)
    finally have "round_half_even (of_int n / pow2 e) = n * 2 ^ nat (- e)"
      using round_half_even_of_int by metis
    then have "f64_pos (of_int n) = of_int (n * 2 ^ nat (- e)) * pow2 e"
      by (simp add: f64_pos_def Let_def e_def)
    also have "\<dots> = of_int n * (pow2 (- e) * pow2 e)" using e by (simp add: pow2_def)
    finally show ?thesis using pow2_add [of "- e" e] by simp
  qed
  show ?thesis
    using assms pos [of n] pos [of "- n"] by (cases "n = 0") (auto simp: f64_def)
qed

section \<open>The laws clients rely on\<close>

locale rounding =
  fixes rnd :: "rat \<Rightarrow> rat"
  assumes mono: "x \<le> y \<Longrightarrow> rnd x \<le> rnd y"
    and exact: "\<bar>n\<bar> < 2 ^ 53 \<Longrightarrow> rnd (of_int n) = of_int n"
    and err: "0 \<le> x \<Longrightarrow> \<bar>rnd x - x\<bar> \<le> x / 2 ^ 53"
begin

lemma zero: "rnd 0 = 0"
  using exact [of 0] by simp

lemma nonneg: "0 \<le> x \<Longrightarrow> 0 \<le> rnd x"
  using mono [of 0 x] zero by simp

lemma upper: "0 \<le> x \<Longrightarrow> rnd x \<le> (1 + 1 / 2 ^ 53) * x"
  using abs_le_D1 [OF err [of x]] by (simp add: algebra_simps)

lemma lower: "0 \<le> x \<Longrightarrow> (1 - 1 / 2 ^ 53) * x \<le> rnd x"
  using abs_le_D2 [OF err [of x]] by (simp add: algebra_simps)

lemma ge_int: "of_int n \<le> x \<Longrightarrow> \<bar>n\<bar> < 2 ^ 53 \<Longrightarrow> of_int n \<le> rnd x"
  using mono [of "of_int n" x] exact by simp

lemma floor_ge: "of_int n \<le> x \<Longrightarrow> \<bar>n\<bar> < 2 ^ 53 \<Longrightarrow> n \<le> \<lfloor>rnd x\<rfloor>"
  using ge_int by (simp add: le_floor_iff)

lemma floor_nonneg: "0 \<le> x \<Longrightarrow> 0 \<le> \<lfloor>rnd x\<rfloor>"
  using nonneg by simp

end

interpretation b64: rounding f64
  by unfold_locales (rule f64_mono f64_exact f64_err, assumption)+

end
