(* ===== verification/Core.thy ===== *)
theory Core
  imports Prelude "HOL-Library.Signed_Division" Binary64
begin

text \<open>
  The parts of \<open>pkg/octollm/request.go\<close> the engines are written against: context
  values, request metadata, responses and the \<open>OnClose\<close> callbacks of bodies and
  streams, and the durations of Go's \<open>time\<close> package.
\<close>

section \<open>Context values and metadata\<close>

text \<open>
  A context maps typed keys to dynamically typed values. Go tells keys of different
  packages apart by their type; here the constructor does.
\<close>

datatype ctx_key = LimiterKey string | CoreKey string

datatype ctx_val = CtxStr string | CtxBool bool | CtxOther

type_synonym ctx = "ctx_key \<rightharpoonup> ctx_val"

definition with_value :: "ctx \<Rightarrow> ctx_key \<Rightarrow> ctx_val \<Rightarrow> ctx" where
  "with_value c k v = c(k \<mapsto> v)"

text \<open>
  The metadata of a request is one \<open>*sync.Map\<close>, shared by every request that
  \<open>WithContext\<close> derives from it; \<open>None\<close> is the nil pointer.
\<close>

datatype meta_val = MetaInt int | MetaStr string | MetaBool bool | MetaOther

type_synonym metadata = "(string \<rightharpoonup> meta_val) option"

fun GetMetadataValue :: "metadata \<Rightarrow> string \<Rightarrow> meta_val option" where
  "GetMetadataValue None k = None"
| "GetMetadataValue (Some m) k = m k"

fun SetMetadataValue :: "metadata \<Rightarrow> string \<Rightarrow> meta_val \<Rightarrow> metadata" where
  "SetMetadataValue None k v = Some [k \<mapsto> v]"
| "SetMetadataValue (Some m) k v = Some (m(k \<mapsto> v))"

lemma GetMetadataValue_Set [simp]:
  "GetMetadataValue (SetMetadataValue m k v) k' = (if k' = k then Some v else GetMetadataValue m k')"
  by (cases m) auto

text \<open>The request as the limiters see it; an engine's world \<open>color_world\<close> holds the Redis
  server and the metadata that every copy of the request shares.\<close>

record request =
  req_ctx :: ctx

definition WithContext :: "'z request_scheme \<Rightarrow> ctx \<Rightarrow> 'z request_scheme" where
  "WithContext u c = u\<lparr>req_ctx := c\<rparr>"

record 'w color_world =
  cw_redis :: 'w
  cw_meta :: metadata

section \<open>Responses and close callbacks\<close>

text \<open>
  A \<open>UnifiedBody\<close> or \<open>StreamChan\<close> as the engines that hold resources see it: its
  payload and its \<open>closeFunc\<close>, the callbacks in the order in which \<open>Close\<close> runs
  them (\<open>[]\<close> is the nil \<open>closeFunc\<close>). A lease release names the member and its keys.
\<close>

datatype close_action = ReleaseLease string "string list" | OtherClose string

record 'x closer =
  payload :: 'x
  close_func :: "close_action list"

text \<open>\<open>OnClose\<close>: the previous callbacks run first, then the new one.\<close>

definition OnClose :: "close_action \<Rightarrow> 'x closer \<Rightarrow> 'x closer" where
  "OnClose a c =
     (if close_func c = [] then c\<lparr>close_func := [a]\<rparr>
      else c\<lparr>close_func := close_func c @ [a]\<rparr>)"

lemma OnClose_simps [simp]:
  "close_func (OnClose a c) = close_func c @ [a]" "payload (OnClose a c) = payload c"
  by (simp_all add: OnClose_def)

record ('b, 's) response =
  resp_status :: int
  resp_header :: http_header
  resp_body :: "'b closer option"
  resp_stream :: "'s closer option"

text \<open>The callbacks that closing the response runs: the handler closes the stream if there
  is one, else the body.\<close>

definition response_closers :: "('b, 's) response \<Rightarrow> close_action list" where
  "response_closers r =
     (case resp_stream r of Some st \<Rightarrow> close_func st
      | None \<Rightarrow> (case resp_body r of Some b \<Rightarrow> close_func b | None \<Rightarrow> []))"

section \<open>Durations\<close>

text \<open>A \<open>time.Duration\<close> is its count of nanoseconds.\<close>

abbreviation second :: int where
  "second \<equiv> 1000000000"

definition duration_seconds :: "int \<Rightarrow> rat" where
  "duration_seconds d =
     fadd (of_int (d sdiv second)) (fdiv (of_int (d smod second)) (of_int second))"

text \<open>\<open>int64(d.Seconds())\<close>.\<close>

definition whole_seconds :: "int \<Rightarrow> int" where
  "whole_seconds d = trunc64 (duration_seconds d)"

lemma duration_seconds_whole:
  assumes "\<bar>n\<bar> < 2 ^ 53"
  shows "duration_seconds (n * second) = of_int n"
proof -
  have "n * second sdiv second = n" "n * second smod second = 0"
    by (simp_all add: signed_divide_int_def signed_modulo_int_def sgn_mult abs_mult)
       (simp_all add: sgn_if)
  then show ?thesis
    using f64_exact [OF assms] by (simp add: duration_seconds_def fadd_def fdiv_def)
qed

lemma whole_seconds_whole [simp]: "\<bar>n\<bar> < 2 ^ 53 \<Longrightarrow> whole_seconds (n * second) = n"
  by (simp add: whole_seconds_def duration_seconds_whole trunc64_def del: of_int_mult)

lemma duration_seconds_pos:
  assumes "0 < d"
  shows "0 < duration_seconds d"
proof -
  define q m where "q = d sdiv second" and "m = d smod second"
  have qm: "q = d div second" "m = d mod second"
    using assms by (simp_all add: q_def m_def signed_divide_int_def signed_modulo_int_def sgn_if)
  have d: "d = q * second + m" "0 \<le> q" "0 \<le> m" using assms by (simp_all add: qm pos_imp_zdiv_nonneg_iff)
  have fm: "0 \<le> fdiv (of_int m) (of_int second)"
    unfolding fdiv_def using d by (intro f64_nonneg) simp
  have "0 < of_int q + fdiv (of_int m) (of_int second)"
  proof (cases "q = 0")
    case True
    with d assms have "0 < (of_int m / of_int second :: rat)" by simp
    then show ?thesis using True f64_pos_pos by (simp add: fdiv_def f64_def)
  next
    case False
    with d fm show ?thesis by (simp add: add_pos_nonneg)
  qed
  then show ?thesis
    using f64_pos_pos by (simp add: duration_seconds_def fadd_def q_def m_def f64_def)
qed

lemma duration_seconds_le:
  assumes "0 < d" "d < 2 ^ 63"
  shows "duration_seconds d \<le> 2 ^ 52"
proof -
  define q m where "q = d sdiv second" and "m = d smod second"
  have qm: "q = d div second" "m = d mod second"
    using assms by (simp_all add: q_def m_def signed_divide_int_def signed_modulo_int_def sgn_if)
  have q: "q \<le> 2 ^ 34" using assms(2) by (simp add: qm)
  have m: "(of_int m / of_int second :: rat) \<le> of_int 1" by (simp add: qm)
  have "fdiv (of_int m) (of_int second) \<le> f64 (of_int 1)"
    unfolding fdiv_def by (rule f64_mono [OF m])
  then have "fdiv (of_int m) (of_int second) \<le> 1" using f64_exact [of 1] by simp
  with q have le: "of_int q + fdiv (of_int m) (of_int second) \<le> of_int (2 ^ 34 + 1)"
    by simp
  have "duration_seconds d \<le> f64 (of_int (2 ^ 34 + 1))"
    unfolding duration_seconds_def fadd_def q_def [symmetric] m_def [symmetric] by (rule f64_mono [OF le])
  also have "\<dots> = of_int (2 ^ 34 + 1)" by (rule f64_exact) simp
  finally show ?thesis by simp
qed

end
