(* ===== verification/ColorPriority.thy ===== *)
theory ColorPriority
  imports Core
begin

text \<open>
  What the color engines of \<open>pkg/engines/limiter\<close> share: the priority a marker leaves in
  the context for a limiter of the same namespace (\<open>constant.go\<close>,
  \<open>setPriorityToContext\<close>, \<open>getPriorityFromContext\<close>), the colors recorded in the
  request metadata (\<open>color_metadata.go\<close>) and the tier limits built from the
  configuration.
\<close>

section \<open>Decimal numbers of \<open>fmt\<close>\<close>

text \<open>\<open>Sprintf("%d", n)\<close>.\<close>

fun dec_nat :: "nat \<Rightarrow> string" where
  "dec_nat n = (if n < 10 then [char_of (48 + n)]
                else dec_nat (n div 10) @ [char_of (48 + n mod 10)])"

declare dec_nat.simps [simp del]

definition dec_int :: "int \<Rightarrow> string" where
  "dec_int i = (if i < 0 then ''-'' @ dec_nat (nat (- i)) else dec_nat (nat i))"

text \<open>
  \<open>Sscanf\<close> of \<open>%d\<close> into an \<open>int\<close>: blanks, an optional sign, at least one digit, the
  value within 64 bits; the rest of the input is ignored.
\<close>

definition is_digit :: "char \<Rightarrow> bool" where
  "is_digit c \<longleftrightarrow> 48 \<le> (of_char c :: nat) \<and> (of_char c :: nat) \<le> 57"

definition dec_value :: "string \<Rightarrow> nat" where
  "dec_value ds = foldl (\<lambda>a c. 10 * a + (of_char c - 48)) 0 ds"

definition scan_int :: "string \<Rightarrow> int option" where
  "scan_int s =
     (let s1 = dropWhile (\<lambda>c. c \<in> {CHR '' '', CHR 0x09, CHR 0x0B, CHR 0x0C, CHR 0x0D}) s;
          neg = (s1 \<noteq> [] \<and> hd s1 = CHR ''-'');
          s2 = (if s1 \<noteq> [] \<and> hd s1 \<in> {CHR ''-'', CHR ''+''} then tl s1 else s1);
          ds = takeWhile is_digit s2;
          v = (if neg then - int (dec_value ds) else int (dec_value ds))
      in if ds = [] then None
         else if - (2 ^ 63) \<le> v \<and> v < 2 ^ 63 then Some v else None)"

lemma of_char_digit: "d < 10 \<Longrightarrow> of_char (char_of (48 + d)) = 48 + d" for d :: nat
  by simp

lemma dec_nat_digits: "\<forall>c\<in>set (dec_nat n). is_digit c"
proof (induction n rule: dec_nat.induct)
  case (1 n)
  then show ?case by (subst dec_nat.simps) (auto simp: is_digit_def)
qed

lemma dec_nat_nonempty [simp]: "dec_nat n \<noteq> []"
  by (subst dec_nat.simps) simp

lemma dec_value_nat [simp]: "dec_value (dec_nat n) = n"
proof (induction n rule: dec_nat.induct)
  case (1 n)
  show ?case
  proof (cases "n < 10")
    case True then show ?thesis by (subst dec_nat.simps) (simp add: dec_value_def)
  next
    case False
    then have "dec_value (dec_nat n) = 10 * dec_value (dec_nat (n div 10)) + n mod 10"
      by (subst dec_nat.simps) (simp add: dec_value_def)
    also have "\<dots> = n" using 1 False by simp
    finally show ?thesis .
  qed
qed

lemma dec_nat_inject [simp]: "dec_nat m = dec_nat n \<longleftrightarrow> m = n"
  by (metis dec_value_nat)

lemma digit_not_special:
  "is_digit c \<Longrightarrow> c \<notin> {CHR '' '', CHR 0x09, CHR 0x0B, CHR 0x0C, CHR 0x0D} \<and> c \<notin> {CHR ''-'', CHR ''+''}"
  by (auto simp: is_digit_def)

lemma scan_int_dec:
  assumes "- (2 ^ 63) \<le> i" "i < 2 ^ 63"
  shows "scan_int (dec_int i) = Some i"
proof -
  have tw: "takeWhile is_digit (dec_nat n) = dec_nat n" for n
    using dec_nat_digits by (simp add: takeWhile_eq_all_conv)
  obtain c cs where c: "dec_nat (nat i) = c # cs" "is_digit c"
    using dec_nat_nonempty dec_nat_digits by (metis list.exhaust list.set_intros(1))
  show ?thesis
  proof (cases "i < 0")
    case True
    then show ?thesis using assms by (simp add: scan_int_def dec_int_def tw)
  next
    case False
    have dw: "dropWhile (\<lambda>c. c \<in> {CHR '' '', CHR 0x09, CHR 0x0B, CHR 0x0C, CHR 0x0D}) (dec_nat (nat i))
        = dec_nat (nat i)"
      using c digit_not_special by auto
    have hd: "hd (dec_nat (nat i)) \<notin> {CHR ''-'', CHR ''+''}"
      using c digit_not_special by auto
    show ?thesis using assms False hd
      by (simp add: scan_int_def dec_int_def dw tw del: insert_iff)
         simp
  qed
qed

section \<open>The priority in the context\<close>

definition ContextKeyPriority :: string where
  "ContextKeyPriority = ''priority_key''"

definition ContextValuePrefixPriority :: string where
  "ContextValuePrefixPriority = ''priority_value_prefix''"

definition priority_key :: "string \<Rightarrow> ctx_key" where
  "priority_key nameSpace = LimiterKey (nameSpace @ '':'' @ ContextKeyPriority)"

definition setPriorityToContext :: "string \<Rightarrow> ctx \<Rightarrow> int \<Rightarrow> ctx" where
  "setPriorityToContext nameSpace c priority =
     with_value c (priority_key nameSpace) (CtxStr (ContextValuePrefixPriority @ dec_int priority))"

text \<open>\<open>Sscanf\<close> with a literal prefix: the input must start with it.\<close>

definition getPriorityFromContext :: "string \<Rightarrow> ctx \<Rightarrow> int option" where
  "getPriorityFromContext nameSpace c =
     (case c (priority_key nameSpace) of
        Some (CtxStr s) \<Rightarrow>
          (let n = length ContextValuePrefixPriority
           in if take n s = ContextValuePrefixPriority then scan_int (drop n s) else None)
      | _ \<Rightarrow> None)"

lemma getPriority_set [simp]:
  "- (2 ^ 63) \<le> p \<Longrightarrow> p < 2 ^ 63 \<Longrightarrow>
     getPriorityFromContext ns (setPriorityToContext ns c p) = Some p"
  by (simp add: getPriorityFromContext_def setPriorityToContext_def with_value_def Let_def scan_int_dec)

lemma getPriority_set_other [simp]:
  "ns' \<noteq> ns \<Longrightarrow> getPriorityFromContext ns' (setPriorityToContext ns c p) = getPriorityFromContext ns' c"
  by (simp add: getPriorityFromContext_def setPriorityToContext_def with_value_def priority_key_def)

section \<open>Colors in the metadata\<close>

abbreviation ColorActionAllow :: string where "ColorActionAllow \<equiv> ''allow''"
abbreviation ColorActionDeny :: string where "ColorActionDeny \<equiv> ''deny''"

abbreviation markerPriorityMetadataKey :: string where
  "markerPriorityMetadataKey \<equiv> ''limiter.markerPriorityMetadataKey''"
abbreviation markerActionMetadataKey :: string where
  "markerActionMetadataKey \<equiv> ''limiter.markerActionMetadataKey''"
abbreviation limiterPriorityMetadataKey :: string where
  "limiterPriorityMetadataKey \<equiv> ''limiter.limiterPriorityMetadataKey''"
abbreviation limiterActionMetadataKey :: string where
  "limiterActionMetadataKey \<equiv> ''limiter.limiterActionMetadataKey''"

text \<open>The argument is the request's metadata, \<open>None\<close> for a nil request; the result is
  \<open>None\<close> where the second value of the Go function is false.\<close>

definition getColorPriority :: "metadata option \<Rightarrow> string \<Rightarrow> int option" where
  "getColorPriority req key =
     (case req of None \<Rightarrow> None
      | Some md \<Rightarrow> (case GetMetadataValue md key of Some (MetaInt p) \<Rightarrow> Some p | _ \<Rightarrow> None))"

definition getColorAction :: "metadata option \<Rightarrow> string \<Rightarrow> string option" where
  "getColorAction req key =
     (case req of None \<Rightarrow> None
      | Some md \<Rightarrow> (case GetMetadataValue md key of
          Some (MetaStr s) \<Rightarrow> if s = '''' then None else Some s | _ \<Rightarrow> None))"

definition GetMarkerPriority :: "metadata option \<Rightarrow> int option" where
  "GetMarkerPriority req = getColorPriority req markerPriorityMetadataKey"

definition GetMarkerAction :: "metadata option \<Rightarrow> string option" where
  "GetMarkerAction req = getColorAction req markerActionMetadataKey"

definition GetLimiterPriority :: "metadata option \<Rightarrow> int option" where
  "GetLimiterPriority req = getColorPriority req limiterPriorityMetadataKey"

definition GetLimiterAction :: "metadata option \<Rightarrow> string option" where
  "GetLimiterAction req = getColorAction req limiterActionMetadataKey"

definition setMarkerColor :: "metadata option \<Rightarrow> int \<Rightarrow> string \<Rightarrow> metadata option" where
  "setMarkerColor req priority action =
     (case req of None \<Rightarrow> None
      | Some md \<Rightarrow> Some (SetMetadataValue (SetMetadataValue md markerPriorityMetadataKey (MetaInt priority))
                          markerActionMetadataKey (MetaStr action)))"

definition setLimiterColor :: "metadata option \<Rightarrow> int \<Rightarrow> string \<Rightarrow> metadata option" where
  "setLimiterColor req priority action =
     (case req of None \<Rightarrow> None
      | Some md \<Rightarrow> Some (SetMetadataValue (SetMetadataValue md limiterPriorityMetadataKey (MetaInt priority))
                          limiterActionMetadataKey (MetaStr action)))"

definition recordMarkerAllow :: "metadata option \<Rightarrow> int \<Rightarrow> metadata option" where
  "recordMarkerAllow req p = setMarkerColor req p ColorActionAllow"

definition recordMarkerDeny :: "metadata option \<Rightarrow> int \<Rightarrow> metadata option" where
  "recordMarkerDeny req p = setMarkerColor req p ColorActionDeny"

definition recordLimiterAllow :: "metadata option \<Rightarrow> int \<Rightarrow> metadata option" where
  "recordLimiterAllow req p = setLimiterColor req p ColorActionAllow"

definition recordLimiterDeny :: "metadata option \<Rightarrow> int \<Rightarrow> metadata option" where
  "recordLimiterDeny req p = setLimiterColor req p ColorActionDeny"

lemmas color_defs =
  GetMarkerPriority_def GetMarkerAction_def GetLimiterPriority_def GetLimiterAction_def
  getColorPriority_def getColorAction_def setMarkerColor_def setLimiterColor_def
  recordMarkerAllow_def recordMarkerDeny_def recordLimiterAllow_def recordLimiterDeny_def

text \<open>What is recorded is read back, and the two pairs of keys do not interfere.\<close>

lemma color_roundtrip [simp]:
  "GetMarkerPriority (setMarkerColor (Some md) p a) = Some p"
  "a \<noteq> '''' \<Longrightarrow> GetMarkerAction (setMarkerColor (Some md) p a) = Some a"
  "GetLimiterPriority (setLimiterColor (Some md) p a) = Some p"
  "a \<noteq> '''' \<Longrightarrow> GetLimiterAction (setLimiterColor (Some md) p a) = Some a"
  "GetMarkerPriority (setLimiterColor req p a) = GetMarkerPriority req"
  "GetMarkerAction (setLimiterColor req p a) = GetMarkerAction req"
  "GetLimiterPriority (setMarkerColor req p a) = GetLimiterPriority req"
  "GetLimiterAction (setMarkerColor req p a) = GetLimiterAction req"
  by (cases req; simp add: color_defs)+

text \<open>The recorders as updates of the world of a request that is not nil.\<close>

definition with_color :: "(metadata option \<Rightarrow> int \<Rightarrow> metadata option) \<Rightarrow> int \<Rightarrow> 'w color_world \<Rightarrow> 'w color_world" where
  "with_color rec p w = w\<lparr>cw_meta := (case rec (Some (cw_meta w)) p of Some md \<Rightarrow> md | None \<Rightarrow> cw_meta w)\<rparr>"

lemma with_color_simps [simp]:
  "cw_redis (with_color rec p w) = cw_redis w"
  "GetMarkerPriority (Some (cw_meta (with_color recordMarkerAllow p w))) = Some p"
  "GetMarkerAction (Some (cw_meta (with_color recordMarkerAllow p w))) = Some ColorActionAllow"
  "GetMarkerPriority (Some (cw_meta (with_color recordMarkerDeny p w))) = Some p"
  "GetMarkerAction (Some (cw_meta (with_color recordMarkerDeny p w))) = Some ColorActionDeny"
  "GetLimiterPriority (Some (cw_meta (with_color recordLimiterAllow p w))) = Some p"
  "GetLimiterAction (Some (cw_meta (with_color recordLimiterAllow p w))) = Some ColorActionAllow"
  "GetLimiterPriority (Some (cw_meta (with_color recordLimiterDeny p w))) = Some p"
  "GetLimiterAction (Some (cw_meta (with_color recordLimiterDeny p w))) = Some ColorActionDeny"
  by (simp_all add: with_color_def color_defs)

section \<open>Tier limits\<close>

abbreviation ErrRateLimitReached :: err where
  "ErrRateLimitReached \<equiv> Sentinel ''ErrRateLimitReached''"

text \<open>\<open>Sprintf("%s:tier_%d", key, i)\<close>.\<close>

definition tier_key :: "string \<Rightarrow> nat \<Rightarrow> string" where
  "tier_key key i = key @ '':tier_'' @ dec_nat i"

lemma tier_key_inject [simp]: "tier_key key i = tier_key key j \<longleftrightarrow> i = j"
  by (simp add: tier_key_def)

definition tier_val :: "'v \<Rightarrow> string \<Rightarrow> 'v list \<Rightarrow> string \<Rightarrow> 'v" where
  "tier_val d key xs k =
     (case map_of (zip (map (tier_key key) [0..<length xs]) xs) k of Some c \<Rightarrow> c | None \<Rightarrow> d)"

lemma tier_val_key [simp]: "i < length xs \<Longrightarrow> tier_val d key xs (tier_key key i) = xs ! i"
proof -
  assume i: "i < length xs"
  have d: "distinct (map (tier_key key) [0..<length xs])"
    by (simp add: distinct_map inj_on_def)
  have "map_of (zip (map (tier_key key) [0..<length xs]) xs) (map (tier_key key) [0..<length xs] ! i)
      = Some (xs ! i)"
    by (rule map_of_zip_nth) (use d i in auto)
  then show ?thesis using i by (simp add: tier_val_def)
qed

lemma tier_val_cases:
  "(\<exists>i<length xs. k = tier_key key i \<and> tier_val d key xs k = xs ! i) \<or>
   ((\<forall>i. i < length xs \<longrightarrow> k \<noteq> tier_key key i) \<and> tier_val d key xs k = d)"
proof (cases "\<exists>i<length xs. k = tier_key key i")
  case False
  then have "k \<notin> set (map fst (zip (map (tier_key key) [0..<length xs]) xs))"
    by (subst map_fst_zip) auto
  then have "map_of (zip (map (tier_key key) [0..<length xs]) xs) k = None"
    unfolding map_of_eq_None_iff list.set_map .
  then have "tier_val d key xs k = d" by (simp only: tier_val_def option.case)
  with False show ?thesis by blast
next
  case True
  then obtain i where "i < length xs" "k = tier_key key i" by blast
  then show ?thesis by (intro disjI1 exI [of _ i]) simp
qed

abbreviation tier_cap :: "string \<Rightarrow> int list \<Rightarrow> string \<Rightarrow> int" where
  "tier_cap \<equiv> tier_val 0"

lemmas tier_cap_key = tier_val_key [where d = "0 :: int"]

lemma tier_cap_nonneg: "(\<And>x. x \<in> set rates \<Longrightarrow> 0 \<le> x) \<Longrightarrow> 0 \<le> tier_cap key rates k"
  by (auto simp: tier_val_def split: option.splits dest!: map_of_SomeD set_zip_rightD)

text \<open>Negative caps become 0; tier 0 is the total, or the sum of the bands without one.\<close>

definition buildTotalPlusPerPriorityLimits :: "int \<Rightarrow> int list \<Rightarrow> int list" where
  "buildTotalPlusPerPriorityLimits totalConcurrency per =
     (let clamped = map (\<lambda>v. if v < 0 then 0 else v) per
      in if clamped = [] then (if totalConcurrency \<le> 0 then [] else [totalConcurrency])
         else if totalConcurrency > 0 then totalConcurrency # clamped
         else foldl (+) 0 clamped # clamped)"

text \<open>The loop keeps the rates up to the first one that increases (decreases).\<close>

fun keep_while :: "(int \<Rightarrow> int \<Rightarrow> bool) \<Rightarrow> int list \<Rightarrow> int list" where
  "keep_while ok (x # y # ys) = (if ok x y then x # keep_while ok (y # ys) else [x])"
| "keep_while ok xs = xs"

definition filterDecreasingRates :: "int list \<Rightarrow> int list \<times> bool" where
  "filterDecreasingRates rates =
     (let filtered = keep_while (\<lambda>prev r. r \<le> prev) rates
      in (filtered, length filtered < length rates))"

definition filterIncreasingRates :: "int list \<Rightarrow> int list \<times> bool" where
  "filterIncreasingRates rates =
     (let filtered = keep_while (\<lambda>prev r. prev \<le> r) rates
      in (filtered, length filtered < length rates))"

definition normalizeConcurrencyMarkerRates :: "int list \<Rightarrow> int list \<times> bool" where
  "normalizeConcurrencyMarkerRates rates =
     (map (\<lambda>v. if v < 0 then 0 else v) rates, list_ex (\<lambda>v. v < 0) rates)"

lemma foldl_plus_sum_list: "foldl (+) a xs = a + sum_list xs" for a :: int
  by (induction xs arbitrary: a) auto

lemma build_limits_nonneg: "x \<in> set (buildTotalPlusPerPriorityLimits t per) \<Longrightarrow> 0 \<le> x"
  by (auto simp: buildTotalPlusPerPriorityLimits_def Let_def foldl_plus_sum_list
      split: if_splits intro!: sum_list_nonneg)

lemma build_limits_Nil:
  "buildTotalPlusPerPriorityLimits t per = [] \<longleftrightarrow> t \<le> 0 \<and> per = []"
  by (simp add: buildTotalPlusPerPriorityLimits_def Let_def)

lemma keep_while_prefix:
  "\<exists>ys. xs = keep_while ok xs @ ys \<and>
     (ys \<noteq> [] \<longrightarrow> keep_while ok xs \<noteq> [] \<and> \<not> ok (last (keep_while ok xs)) (hd ys))"
proof (induction ok xs rule: keep_while.induct)
  case (1 ok x y ys)
  show ?case
  proof (cases "ok x y")
    case True
    with 1 obtain zs where zs: "y # ys = keep_while ok (y # ys) @ zs"
      "zs \<noteq> [] \<longrightarrow> keep_while ok (y # ys) \<noteq> [] \<and> \<not> ok (last (keep_while ok (y # ys))) (hd zs)" by blast
    have "x # y # ys = keep_while ok (x # y # ys) @ zs" using zs(1) True by simp
    moreover have "zs \<noteq> [] \<longrightarrow> keep_while ok (x # y # ys) \<noteq> []
        \<and> \<not> ok (last (keep_while ok (x # y # ys))) (hd zs)" using zs(2) True by simp
    ultimately show ?thesis by blast
  qed auto
qed auto

lemma keep_while_hd: "xs \<noteq> [] \<Longrightarrow> keep_while ok xs \<noteq> [] \<and> hd (keep_while ok xs) = hd xs"
  by (induction ok xs rule: keep_while.induct) auto

lemma keep_while_sorted:
  "transp ok \<Longrightarrow> sorted_wrt ok (keep_while ok xs)"
proof (induction ok xs rule: keep_while.induct)
  case (1 ok x y ys)
  show ?case
  proof (cases "ok x y")
    case True
    with 1 have s: "sorted_wrt ok (keep_while ok (y # ys))" by simp
    have "ok x z" if "z \<in> set (keep_while ok (y # ys))" for z
    proof -
      obtain zs where k: "keep_while ok (y # ys) = y # zs"
        using keep_while_hd [of "y # ys" ok] by (cases "keep_while ok (y # ys)") auto
      with s that True \<open>transp ok\<close> show ?thesis by (auto elim: transpE)
    qed
    with s True show ?thesis by simp
  qed auto
qed auto

text \<open>The tier a priority maps to, with \<open>n\<close> tiers.\<close>

definition color_tier :: "nat \<Rightarrow> int \<Rightarrow> nat" where
  "color_tier n priority =
     (let maxSupportedPriority = int n - 1
      in nat (if maxSupportedPriority \<le> priority then 0
              else if 0 \<le> priority then int n - 1 - priority
              else int n - 1))"

lemma color_tier_less: "0 < n \<Longrightarrow> color_tier n p < n"
  by (auto simp: color_tier_def Let_def)

end
