(* ===== verification/RedisZset.thy ===== *)
theory RedisZset
  imports Core
begin

text \<open>
  The interface to the sorted sets of the Redis server. Redis is not part of the
  repository: its commands are the fields of a record that every definition using them
  takes as an argument, over an arbitrary server state \<open>'w\<close>. The locale
  \<open>redis_zset\<close> states the documented behaviour of the commands through a view of the
  server state (key to member to score), and \<open>ref_zset\<close> is a reference implementation
  of them, on which the locale is interpreted and witnesses are evaluated.
\<close>

section \<open>Commands\<close>

text \<open>Scores are the Unix seconds the code stores; \<open>ZRANGEBYSCORE\<close> bounds are inclusive.\<close>

record 'w zset_ops =
  ZREMRANGEBYSCORE :: "string \<Rightarrow> int \<Rightarrow> int \<Rightarrow> 'w \<Rightarrow> 'w"
  ZCARD :: "string \<Rightarrow> 'w \<Rightarrow> int"
  ZADD :: "string \<Rightarrow> int \<Rightarrow> string \<Rightarrow> 'w \<Rightarrow> 'w"
  ZREM :: "string \<Rightarrow> string \<Rightarrow> 'w \<Rightarrow> 'w"
  ZSCORE :: "string \<Rightarrow> string \<Rightarrow> 'w \<Rightarrow> int option"
  EXPIRE :: "string \<Rightarrow> int \<Rightarrow> 'w \<Rightarrow> 'w"

text \<open>
  What the client sees of one script call: the reply, or an error, in which case the
  script may or may not have run on the server. Scripts are atomic.
\<close>

datatype net = Delivered | LostRequest | LostReply

definition run_script :: "net \<Rightarrow> ('w \<Rightarrow> 'r \<times> 'w) \<Rightarrow> 'w \<Rightarrow> (err + 'r) \<times> 'w" where
  "run_script n script w =
     (case n of
        Delivered \<Rightarrow> (let (r, w') = script w in (Inr r, w'))
      | LostRequest \<Rightarrow> (Inl (Plain ''redis: connection error''), w)
      | LostReply \<Rightarrow> (Inl (Plain ''redis: connection error''), snd (script w)))"

lemma run_script_simps [simp]:
  "run_script Delivered script w = (Inr (fst (script w)), snd (script w))"
  "run_script LostRequest script w = (Inl (Plain ''redis: connection error''), w)"
  "run_script LostReply script w = (Inl (Plain ''redis: connection error''), snd (script w))"
  by (simp_all add: run_script_def split: prod.splits)

lemma snd_run_script: "snd (run_script n script w) = (if n = LostRequest then w else snd (script w))"
  by (cases n) auto

section \<open>Documented behaviour\<close>

type_synonym pool = "string \<Rightarrow> (string \<rightharpoonup> int)"

text \<open>Dropping the members with a score in \<open>[0, e]\<close> from the sets of the keys \<open>A\<close>.\<close>

definition purge :: "int \<Rightarrow> string list \<Rightarrow> pool \<Rightarrow> pool" where
  "purge e A P = (\<lambda>k. if k \<in> set A
     then (\<lambda>m. case P k m of None \<Rightarrow> None | Some s \<Rightarrow> if 0 \<le> s \<and> s \<le> e then None else Some s)
     else P k)"

definition enter :: "int \<Rightarrow> string list \<Rightarrow> string \<Rightarrow> pool \<Rightarrow> pool" where
  "enter now K m P = (\<lambda>k. if k \<in> set K then (P k)(m \<mapsto> now) else P k)"

definition leave :: "string list \<Rightarrow> string \<Rightarrow> pool \<Rightarrow> pool" where
  "leave K m P = (\<lambda>k. if k \<in> set K then (P k)(m := None) else P k)"

locale redis_zset =
  fixes R :: "'w zset_ops"
    and view :: "'w \<Rightarrow> pool"
  assumes finite_view [simp]: "finite (dom (view w k))"
    and ZCARD_view [view_simps]: "ZCARD R k w = int (card (dom (view w k)))"
    and ZREMRANGEBYSCORE_view [view_simps]: "view (ZREMRANGEBYSCORE R k 0 e w) = purge e [k] (view w)"
    and ZADD_view [view_simps]: "view (ZADD R k s m w) = enter s [k] m (view w)"
    and ZREM_view [view_simps]: "view (ZREM R k m w) = leave [k] m (view w)"
    and ZSCORE_view [view_simps]: "ZSCORE R k m w = view w k m"
    and EXPIRE_view [view_simps]: "0 < t \<Longrightarrow> view (EXPIRE R k t w) = view w"

section \<open>Lemmas on the abstract operations\<close>

lemma purge_Nil [simp]: "purge e [] P = P"
  by (simp add: purge_def)

lemma purge_purge: "purge e A (purge e B P) = purge e (A @ B) P"
  by (auto simp: purge_def fun_eq_iff split: option.splits)

lemma purge_cong: "set A = set B \<Longrightarrow> purge e A P = purge e B P"
  by (simp add: purge_def)

lemma purge_Cons: "purge e A (purge e [k] P) = purge e (k # A) P"
  by (auto simp: purge_purge intro: purge_cong)

lemma enter_enter: "enter t A m (enter t B m P) = enter t (A @ B) m P"
  by (auto simp: enter_def fun_eq_iff)

lemma enter_cong: "set A = set B \<Longrightarrow> enter t A m P = enter t B m P"
  by (simp add: enter_def)

lemma leave_leave: "leave A m (leave B m P) = leave (A @ B) m P"
  by (auto simp: leave_def fun_eq_iff)

lemma leave_cong: "set A = set B \<Longrightarrow> leave A m P = leave B m P"
  by (simp add: leave_def)

lemma dom_purge: "dom (purge e A P k) \<subseteq> dom (P k)"
  by (auto simp: purge_def split: option.splits if_splits)

lemma purge_Some:
  "purge e A P k m = Some s \<longleftrightarrow> P k m = Some s \<and> (k \<in> set A \<longrightarrow> s < 0 \<or> e < s)"
  by (auto simp: purge_def split: option.splits)

lemma finite_purge: "finite (dom (P k)) \<Longrightarrow> finite (dom (purge e A P k))"
  by (rule finite_subset [OF dom_purge])

lemma card_purge: "finite (dom (P k)) \<Longrightarrow> card (dom (purge e A P k)) \<le> card (dom (P k))"
  by (rule card_mono [OF _ dom_purge])

lemma dom_enter: "dom (enter t K m P k) = (if k \<in> set K then insert m (dom (P k)) else dom (P k))"
  by (simp add: enter_def)

lemma dom_leave: "dom (leave K m P k) = (if k \<in> set K then dom (P k) - {m} else dom (P k))"
  by (simp add: leave_def)

section \<open>Reference implementation\<close>

text \<open>The server state of the reference implementation: each key's members with scores.\<close>

type_synonym zdb = "string \<Rightarrow> (string \<times> int) list"

definition ref_zset :: "zdb zset_ops" where
  "ref_zset = \<lparr>
     ZREMRANGEBYSCORE = (\<lambda>k lo hi d. d(k := filter (\<lambda>(m, s). \<not> (lo \<le> s \<and> s \<le> hi))
                                         (AList.clearjunk (d k)))),
     ZCARD = (\<lambda>k d. int (length (AList.clearjunk (d k)))),
     ZADD = (\<lambda>k s m d. d(k := AList.update m s (d k))),
     ZREM = (\<lambda>k m d. d(k := AList.delete m (d k))),
     ZSCORE = (\<lambda>k m d. map_of (d k) m),
     EXPIRE = (\<lambda>k t d. d) \<rparr>"

definition ref_view :: "zdb \<Rightarrow> pool" where
  "ref_view d k = map_of (d k)"

lemma map_of_filter_clearjunk:
  "map_of (filter P (AList.clearjunk xs)) m =
     (case map_of xs m of None \<Rightarrow> None | Some s \<Rightarrow> if P (m, s) then Some s else None)"
proof -
  have "distinct (map fst ys) \<Longrightarrow> map_of (filter P ys) m =
      (case map_of ys m of None \<Rightarrow> None | Some s \<Rightarrow> if P (m, s) then Some s else None)" for ys
    by (induction ys) (auto simp: map_of_eq_None_iff split: option.splits intro: rev_image_eqI)
  from this [OF distinct_clearjunk] show ?thesis by (simp add: map_of_clearjunk)
qed

lemma card_dom_map_of: "card (dom (map_of xs)) = length (AList.clearjunk xs)"
proof -
  have "dom (map_of xs) = set (map fst (AList.clearjunk xs))"
    by (metis map_of_clearjunk dom_map_of_conv_image_fst list.set_map)
  then show ?thesis
    by (metis distinct_card distinct_clearjunk length_map)
qed

interpretation ref: redis_zset ref_zset ref_view
  by unfold_locales
    (auto simp: ref_zset_def ref_view_def purge_def enter_def leave_def fun_eq_iff finite_dom_map_of
      card_dom_map_of map_of_filter_clearjunk update_conv delete_conv split: option.splits)

end
