(* ===== verification/LeasePool.thy ===== *)
theory LeasePool
  imports RedisZset
begin

text \<open>
  Many gateway processes share one set of leases in Redis: they acquire, renew and
  release members with atomic scripts, replies get lost, the clock advances and idle keys
  expire. This theory holds that protocol: the abstract pool of leases and its
  transitions (\<open>pool_step\<close>), its safety invariant, the interface every
  concurrency-limiting engine offers to it (\<open>lease_api\<close>), the transitions of the
  gateways through that interface (\<open>gateway_step\<close>) and, in the locale
  \<open>lease_engine\<close>, the simulation between the two. The three engines (concurrency limiter,
  concurrency color limiter, concurrency color marker) are interpretations of the locale.
\<close>

section \<open>The abstract pool\<close>

text \<open>
  A holder is a request in flight: its member id is mapped to the keys it entered and the
  time of its last acknowledged acquisition or renewal. \<open>touched\<close> is the time of the
  last \<open>EXPIRE k 3600\<close>.
\<close>

record lease_pool =
  slots :: pool
  clock :: int
  holders :: "string \<rightharpoonup> string list \<times> int"
  touched :: "string \<Rightarrow> int"

definition stamp :: "string list \<Rightarrow> int \<Rightarrow> (string \<Rightarrow> int) \<Rightarrow> string \<Rightarrow> int" where
  "stamp K t f = (\<lambda>k. if k \<in> set K then t else f k)"

definition fresh_member :: "string \<Rightarrow> lease_pool \<Rightarrow> bool" where
  "fresh_member m s \<longleftrightarrow> m \<notin> dom (holders s) \<and> (\<forall>k. m \<notin> dom (slots s k))"

inductive pool_step :: "(string \<Rightarrow> int) \<Rightarrow> int \<Rightarrow> lease_pool \<Rightarrow> lease_pool \<Rightarrow> bool"
  for cap T where
  tick: "clock s \<le> t \<Longrightarrow> pool_step cap T s (s\<lparr>clock := t\<rparr>)"
| idle: "pool_step cap T s s"
| reject: "pool_step cap T s (s\<lparr>slots := purge (clock s - T) A (slots s)\<rparr>)"
| admit: "fresh_member m s \<Longrightarrow> P = purge (clock s - T) A (slots s) \<Longrightarrow> set K \<subseteq> set A \<Longrightarrow>
    (\<And>k. k \<in> set K \<Longrightarrow> int (card (dom (P k))) < cap k) \<Longrightarrow>
    hs = holders s \<or> hs = (holders s)(m \<mapsto> (K, clock s)) \<Longrightarrow>
    pool_step cap T s (s\<lparr>slots := enter (clock s) K m P, holders := hs,
                         touched := stamp K (clock s) (touched s)\<rparr>)"
| renew: "holders s m = Some (K, t) \<Longrightarrow> (\<And>k. k \<in> set K \<Longrightarrow> m \<in> dom (slots s k)) \<Longrightarrow>
    t' = t \<or> t' = clock s \<Longrightarrow>
    pool_step cap T s (s\<lparr>slots := enter (clock s) K m (slots s),
                         holders := (holders s)(m \<mapsto> (K, t')),
                         touched := stamp K (clock s) (touched s)\<rparr>)"
| release: "holders s m = Some (K, t) \<Longrightarrow> P = slots s \<or> P = leave K m (slots s) \<Longrightarrow>
    pool_step cap T s (s\<lparr>slots := P, holders := (holders s)(m := None)\<rparr>)"
| key_expiry: "touched s k + 3600 \<le> clock s \<Longrightarrow>
    pool_step cap T s (s\<lparr>slots := (slots s)(k := Map.empty)\<rparr>)"

inductive_cases pool_stepE: "pool_step cap T s s'"

text \<open>
  The invariant: no set outgrows its limit, scores are not newer than the last
  \<open>EXPIRE\<close>, no time lies in the future, and a holder refreshed less than \<open>T\<close> seconds
  ago still has its members.
\<close>

definition live :: "int \<Rightarrow> lease_pool \<Rightarrow> string \<Rightarrow> string list \<Rightarrow> int \<Rightarrow> bool" where
  "live T s m K t \<longleftrightarrow> holders s m = Some (K, t) \<and> clock s - T < t"

definition pool_inv :: "(string \<Rightarrow> int) \<Rightarrow> int \<Rightarrow> lease_pool \<Rightarrow> bool" where
  "pool_inv cap T s \<longleftrightarrow>
     (\<forall>k. finite (dom (slots s k)) \<and> int (card (dom (slots s k))) \<le> cap k) \<and>
     (\<forall>k m t. slots s k m = Some t \<longrightarrow> t \<le> touched s k) \<and>
     (\<forall>k. touched s k \<le> clock s) \<and>
     (\<forall>m K t. live T s m K t \<longrightarrow> (\<forall>k\<in>set K. \<exists>t'. slots s k m = Some t' \<and> t \<le> t'))"

lemma pool_invI:
  assumes "\<And>k. finite (dom (slots s k))" "\<And>k. int (card (dom (slots s k))) \<le> cap k"
    "\<And>k m t. slots s k m = Some t \<Longrightarrow> t \<le> touched s k" "\<And>k. touched s k \<le> clock s"
    "\<And>m K t k. live T s m K t \<Longrightarrow> k \<in> set K \<Longrightarrow> \<exists>t'. slots s k m = Some t' \<and> t \<le> t'"
  shows "pool_inv cap T s"
  using assms by (auto simp: pool_inv_def)

lemma pool_invD:
  assumes "pool_inv cap T s"
  shows "finite (dom (slots s k))" "int (card (dom (slots s k))) \<le> cap k"
    "slots s k m = Some t \<Longrightarrow> t \<le> touched s k" "touched s k \<le> clock s"
    "live T s m K t \<Longrightarrow> k \<in> set K \<Longrightarrow> \<exists>t'. slots s k m = Some t' \<and> t \<le> t'"
  using assms by (auto simp: pool_inv_def)

lemma card_enter_le:
  assumes "finite (dom (P k))" "k \<in> set K \<Longrightarrow> int (card (dom (P k))) < l" "int (card (dom (P k))) \<le> l"
  shows "int (card (dom (enter t K m P k))) \<le> l"
  using assms by (auto simp: dom_enter card_insert_if)

lemma purge_inv:
  assumes "pool_inv cap T s"
  shows "pool_inv cap T (s\<lparr>slots := purge (clock s - T) A (slots s)\<rparr>)"
proof (rule pool_invI; simp)
  fix k show "finite (dom (purge (clock s - T) A (slots s) k))"
    by (intro finite_purge pool_invD(1) [OF assms])
  show "int (card (dom (purge (clock s - T) A (slots s) k))) \<le> cap k"
    using card_purge [of "slots s" k] pool_invD(1,2) [OF assms, of k] by (meson of_nat_mono order_trans)
next
  fix k m t assume "purge (clock s - T) A (slots s) k m = Some t"
  then show "t \<le> touched s k" using pool_invD(3) [OF assms, of k m t] by (simp add: purge_Some)
next
  fix k show "touched s k \<le> clock s" using pool_invD(4) [OF assms] .
next
  fix m K t k
  assume l: "live T (s\<lparr>slots := purge (clock s - T) A (slots s)\<rparr>) m K t" and k: "k \<in> set K"
  then obtain t' where "slots s k m = Some t'" "t \<le> t'"
    using pool_invD(5) [OF assms, of m K t k] by (auto simp: live_def)
  with l show "\<exists>t'. purge (clock s - T) A (slots s) k m = Some t' \<and> t \<le> t'"
    by (auto simp: purge_Some live_def)
qed

lemma admit_inv:
  assumes inv: "pool_inv cap T s" and m: "fresh_member m s"
    and cap: "\<And>k. k \<in> set K \<Longrightarrow> int (card (dom (slots s k))) < cap k"
    and hs: "hs = holders s \<or> hs = (holders s)(m \<mapsto> (K, clock s))"
  shows "pool_inv cap T (s\<lparr>slots := enter (clock s) K m (slots s), holders := hs,
           touched := stamp K (clock s) (touched s)\<rparr>)" (is "pool_inv cap T ?s")
proof (rule pool_invI; simp)
  fix k show "finite (dom (enter (clock s) K m (slots s) k))"
    using pool_invD(1) [OF inv] by (simp add: dom_enter)
  show "int (card (dom (enter (clock s) K m (slots s) k))) \<le> cap k"
    using pool_invD(1,2) [OF inv] cap by (intro card_enter_le) auto
next
  fix k m' t assume "enter (clock s) K m (slots s) k m' = Some t"
  then show "t \<le> stamp K (clock s) (touched s) k"
    using pool_invD(3) [OF inv, of k m' t] pool_invD(4) [OF inv, of k]
    by (auto simp: enter_def stamp_def split: if_splits)
next
  fix k show "stamp K (clock s) (touched s) k \<le> clock s"
    using pool_invD(4) [OF inv] by (simp add: stamp_def)
next
  fix m' K' t k
  assume l: "live T ?s m' K' t" and k: "k \<in> set K'"
  show "\<exists>t'. enter (clock s) K m (slots s) k m' = Some t' \<and> t \<le> t'"
  proof (cases "m' = m")
    case True
    with l m hs have "K' = K" "t = clock s"
      by (auto simp: live_def fresh_member_def split: if_splits)
    with True k show ?thesis by (simp add: enter_def)
  next
    case False
    with l hs have "live T s m' K' t" by (auto simp: live_def split: if_splits)
    from pool_invD(5) [OF inv this k] False show ?thesis by (auto simp: enter_def)
  qed
qed

lemma renew_inv:
  assumes inv: "pool_inv cap T s" and h: "holders s m = Some (K, t)"
    and mem: "\<And>k. k \<in> set K \<Longrightarrow> m \<in> dom (slots s k)" and t': "t' = t \<or> t' = clock s"
  shows "pool_inv cap T (s\<lparr>slots := enter (clock s) K m (slots s),
           holders := (holders s)(m \<mapsto> (K, t')), touched := stamp K (clock s) (touched s)\<rparr>)"
    (is "pool_inv cap T ?s")
proof (rule pool_invI; simp)
  fix k
  have d: "dom (enter (clock s) K m (slots s) k) = dom (slots s k)"
    using mem by (auto simp: dom_enter)
  show "finite (dom (enter (clock s) K m (slots s) k))"
    "int (card (dom (enter (clock s) K m (slots s) k))) \<le> cap k"
    using pool_invD(1,2) [OF inv] by (simp_all add: d)
next
  fix k m' t assume "enter (clock s) K m (slots s) k m' = Some t"
  then show "t \<le> stamp K (clock s) (touched s) k"
    using pool_invD(3) [OF inv, of k m' t] pool_invD(4) [OF inv, of k]
    by (auto simp: enter_def stamp_def split: if_splits)
next
  fix k show "stamp K (clock s) (touched s) k \<le> clock s"
    using pool_invD(4) [OF inv] by (simp add: stamp_def)
next
  fix m' K' u k
  assume l: "live T ?s m' K' u" and k: "k \<in> set K'"
  show "\<exists>t'. enter (clock s) K m (slots s) k m' = Some t' \<and> u \<le> t'"
  proof (cases "m' = m")
    case True
    have "t \<le> clock s \<or> \<not> clock s - T < t"
    proof (cases "clock s - T < t")
      case live: True
      from l True have "K' = K" by (auto simp: live_def)
      with live h have "live T s m K t" by (simp add: live_def)
      from pool_invD(5) [OF inv this, of k] k \<open>K' = K\<close> obtain v where
        "slots s k m = Some v" "t \<le> v" by auto
      then show ?thesis using pool_invD(3,4) [OF inv] by (meson order_trans)
    qed simp
    with True l t' k show ?thesis by (auto simp: live_def enter_def)
  next
    case False
    with l have "live T s m' K' u" by (auto simp: live_def)
    from pool_invD(5) [OF inv this k] False show ?thesis by (auto simp: enter_def)
  qed
qed

lemma release_inv:
  assumes inv: "pool_inv cap T s" and P: "P = slots s \<or> P = leave K m (slots s)"
  shows "pool_inv cap T (s\<lparr>slots := P, holders := (holders s)(m := None)\<rparr>)"
proof (rule pool_invI; simp)
  fix k
  have d: "dom (P k) \<subseteq> dom (slots s k)" using P by (auto simp: dom_leave leave_def split: if_splits)
  show "finite (dom (P k))" using finite_subset [OF d] pool_invD(1) [OF inv] .
  show "int (card (dom (P k))) \<le> cap k"
    using card_mono [OF pool_invD(1) [OF inv] d] pool_invD(2) [OF inv, of k] by simp
next
  fix k m' t assume "P k m' = Some t"
  then have "slots s k m' = Some t" using P by (auto simp: leave_def split: if_splits)
  then show "t \<le> touched s k" using pool_invD(3) [OF inv] by blast
next
  fix k show "touched s k \<le> clock s" using pool_invD(4) [OF inv] .
next
  fix m' K' t k
  assume l: "live T (s\<lparr>slots := P, holders := (holders s)(m := None)\<rparr>) m' K' t" and k: "k \<in> set K'"
  then have "live T s m' K' t" and "m' \<noteq> m" by (auto simp: live_def split: if_splits)
  with pool_invD(5) [OF inv _ k] P show "\<exists>t'. P k m' = Some t' \<and> t \<le> t'"
    by (auto simp: leave_def)
qed

lemma key_expiry_inv:
  assumes inv: "pool_inv cap T s" and T: "T \<le> 3600" and exp: "touched s k + 3600 \<le> clock s"
    and pos: "0 \<le> cap k"
  shows "pool_inv cap T (s\<lparr>slots := (slots s)(k := Map.empty)\<rparr>)"
proof (rule pool_invI, goal_cases)
  case (1 k')
  then show ?case using pool_invD(1) [OF inv] by simp
next
  case (2 k')
  then show ?case using pool_invD(2) [OF inv, of k'] pos by simp
next
  case (3 k' m t)
  then show ?case using pool_invD(3) [OF inv, of k' m t] by (auto split: if_splits)
next
  case (4 k')
  then show ?case using pool_invD(4) [OF inv] by simp
next
  case (5 m K t k')
  then have ls: "live T s m K t" by (simp add: live_def)
  from pool_invD(5) [OF inv this 5(2)] obtain t' where t': "slots s k' m = Some t'" "t \<le> t'"
    by blast
  have "k' \<noteq> k"
    using pool_invD(3) [OF inv t'(1)] t'(2) ls T exp by (auto simp: live_def)
  with t' show ?case by auto
qed

lemma tick_inv:
  "pool_inv cap T s \<Longrightarrow> clock s \<le> t \<Longrightarrow> pool_inv cap T (s\<lparr>clock := t\<rparr>)"
  by (auto simp: pool_inv_def live_def intro: order_trans)

lemma pool_step_inv:
  assumes "pool_step cap T s s'" "pool_inv cap T s" "T \<le> 3600" "\<And>k. 0 \<le> cap k"
  shows "pool_inv cap T s'"
  using assms
proof (induction rule: pool_step.induct)
  case (tick s t) then show ?case by (simp add: tick_inv)
next
  case (reject s A) then show ?case by (simp add: purge_inv)
next
  case (admit m s P A K hs)
  from purge_inv [OF admit.prems(1), of A]
  have "pool_inv cap T (s\<lparr>slots := P\<rparr>)" using admit.hyps(2) by simp
  moreover have "fresh_member m (s\<lparr>slots := P\<rparr>)"
    using admit.hyps(1,2) by (auto simp: fresh_member_def domIff purge_def)
  ultimately have "pool_inv cap T ((s\<lparr>slots := P\<rparr>)\<lparr>slots := enter (clock (s\<lparr>slots := P\<rparr>)) K m (slots (s\<lparr>slots := P\<rparr>)),
     holders := hs, touched := stamp K (clock (s\<lparr>slots := P\<rparr>)) (touched (s\<lparr>slots := P\<rparr>))\<rparr>)"
    by (rule admit_inv) (use admit.hyps in auto)
  then show ?case by simp
next
  case (renew s m K t t') then show ?case by (intro renew_inv) auto
next
  case (release s m K t P) then show ?case by (intro release_inv) auto
next
  case (key_expiry s k) then show ?case by (intro key_expiry_inv) auto
qed simp

text \<open>The holders refreshed less than \<open>T\<close> seconds ago that occupy a slot of \<open>k\<close>.\<close>

definition live_on :: "int \<Rightarrow> lease_pool \<Rightarrow> string \<Rightarrow> string set" where
  "live_on T s k = {m. \<exists>K t. live T s m K t \<and> k \<in> set K}"

lemma live_on_bound: "pool_inv cap T s \<Longrightarrow> finite (live_on T s k) \<and> int (card (live_on T s k)) \<le> cap k"
proof -
  assume inv: "pool_inv cap T s"
  have sub: "live_on T s k \<subseteq> dom (slots s k)"
    using pool_invD(5) [OF inv] by (fastforce simp: live_on_def)
  show ?thesis
    using finite_subset [OF sub pool_invD(1) [OF inv]] card_mono [OF pool_invD(1) [OF inv] sub]
      pool_invD(2) [OF inv, of k] by simp
qed

section \<open>Gateways\<close>

text \<open>
  What a concurrency-limiting engine offers: \<open>api_allow\<close> is its \<open>allow\<close> at a time with
  a fresh member id (\<open>Inr None\<close> passes through, \<open>Inr (Some K)\<close> holds the keys
  \<open>K\<close>), \<open>api_renew\<close> one tick of the renewal goroutine, \<open>api_done\<close> the release
  callback. The argument \<open>'a\<close> is what a request chooses (its priority, the resolved
  limits).
\<close>

datatype renew_outcome = RenewError | RenewMissing | Renewed

record ('a, 'w) lease_api =
  api_allow :: "'a \<Rightarrow> int \<Rightarrow> string \<Rightarrow> net \<Rightarrow> 'w \<Rightarrow> (err + string list option) \<times> 'w"
  api_renew :: "int \<Rightarrow> string \<Rightarrow> string list \<Rightarrow> net \<Rightarrow> 'w \<Rightarrow> renew_outcome \<times> 'w"
  api_done :: "string \<Rightarrow> string list \<Rightarrow> net \<Rightarrow> 'w \<Rightarrow> 'w"

record 'w gateways =
  server :: 'w
  g_clock :: int
  g_holders :: "string \<rightharpoonup> string list \<times> int"
  g_touched :: "string \<Rightarrow> int"

definition abs_pool :: "('w \<Rightarrow> pool) \<Rightarrow> 'w gateways \<Rightarrow> lease_pool" where
  "abs_pool view s = \<lparr>slots = view (server s), clock = g_clock s, holders = g_holders s,
     touched = g_touched s\<rparr>"

text \<open>
  The transitions: the clock advances; a request calls \<open>allow\<close> with a member id never
  seen before (a version 4 UUID) and, when it is told it holds a lease, becomes a holder;
  the renewal goroutine of a holder ticks; a holder is done; Redis drops a key 3600
  seconds after its last \<open>EXPIRE\<close>.
\<close>

definition note_touch :: "('w \<Rightarrow> pool) \<Rightarrow> int \<Rightarrow> string \<Rightarrow> 'w \<Rightarrow> (string \<Rightarrow> int) \<Rightarrow> string \<Rightarrow> int" where
  "note_touch view t m w' f = (\<lambda>k. if view w' k m = Some t then t else f k)"

definition after_allow ::
  "('w \<Rightarrow> pool) \<Rightarrow> ('a, 'w) lease_api \<Rightarrow> 'a \<Rightarrow> string \<Rightarrow> net \<Rightarrow> 'w gateways \<Rightarrow> 'w gateways" where
  "after_allow view api a m n s =
     (let (r, w') = api_allow api a (g_clock s) m n (server s)
      in s\<lparr>server := w',
           g_holders := (case r of Inr (Some K) \<Rightarrow> (g_holders s)(m \<mapsto> (K, g_clock s)) | _ \<Rightarrow> g_holders s),
           g_touched := note_touch view (g_clock s) m w' (g_touched s)\<rparr>)"

definition after_renew ::
  "('w \<Rightarrow> pool) \<Rightarrow> ('a, 'w) lease_api \<Rightarrow> string \<Rightarrow> string list \<Rightarrow> int \<Rightarrow> net \<Rightarrow> 'w gateways \<Rightarrow> 'w gateways" where
  "after_renew view api m K t n s =
     (let (r, w') = api_renew api (g_clock s) m K n (server s)
      in s\<lparr>server := w',
           g_holders := (g_holders s)(m \<mapsto> (K, if r = Renewed then g_clock s else t)),
           g_touched := note_touch view (g_clock s) m w' (g_touched s)\<rparr>)"

definition after_done ::
  "('a, 'w) lease_api \<Rightarrow> string \<Rightarrow> string list \<Rightarrow> net \<Rightarrow> 'w gateways \<Rightarrow> 'w gateways" where
  "after_done api m K n s =
     s\<lparr>server := api_done api m K n (server s), g_holders := (g_holders s)(m := None)\<rparr>"

inductive gateway_step ::
  "('w \<Rightarrow> pool) \<Rightarrow> ('a, 'w) lease_api \<Rightarrow> 'w gateways \<Rightarrow> 'w gateways \<Rightarrow> bool"
  for view api where
  g_tick: "g_clock s \<le> t \<Longrightarrow> gateway_step view api s (s\<lparr>g_clock := t\<rparr>)"
| g_allow: "fresh_member m (abs_pool view s) \<Longrightarrow>
    gateway_step view api s (after_allow view api a m n s)"
| g_renew: "g_holders s m = Some (K, t) \<Longrightarrow>
    gateway_step view api s (after_renew view api m K t n s)"
| g_done: "g_holders s m = Some (K, t) \<Longrightarrow>
    gateway_step view api s (after_done api m K n s)"
| g_expiry: "g_touched s k + 3600 \<le> g_clock s \<Longrightarrow> view w' = (view (server s))(k := Map.empty) \<Longrightarrow>
    gateway_step view api s (s\<lparr>server := w'\<rparr>)"

inductive gateway_reach ::
  "('w \<Rightarrow> pool) \<Rightarrow> ('a, 'w) lease_api \<Rightarrow> 'w gateways \<Rightarrow> bool"
  for view api where
  g_start: "view w = (\<lambda>k. Map.empty) \<Longrightarrow>
    gateway_reach view api \<lparr>server = w, g_clock = t0, g_holders = Map.empty, g_touched = (\<lambda>_. t0)\<rparr>"
| g_next: "gateway_reach view api s \<Longrightarrow> gateway_step view api s s' \<Longrightarrow> gateway_reach view api s'"

section \<open>The contract of an engine and the simulation\<close>

lemma enter_Nil [simp]: "enter t [] m P = P"
  by (simp add: enter_def)

lemma stamp_Nil [simp]: "stamp [] t f = f"
  by (simp add: stamp_def)

lemma note_touch_enter:
  assumes inv: "pool_inv cap T (abs_pool view s)" and w': "view w' = enter (g_clock s) K m P"
    and P: "\<And>k x. P k m = Some x \<Longrightarrow> view (server s) k m = Some x"
  shows "note_touch view (g_clock s) m w' (g_touched s) = stamp K (g_clock s) (g_touched s)"
proof
  fix k
  show "note_touch view (g_clock s) m w' (g_touched s) k = stamp K (g_clock s) (g_touched s) k"
  proof (cases "k \<in> set K")
    case False
    have "g_touched s k = g_clock s" if "P k m = Some (g_clock s)"
      using pool_invD(3) [OF inv, of k m "g_clock s"] pool_invD(4) [OF inv, of k] P [OF that]
      by (simp add: abs_pool_def)
    with False show ?thesis by (auto simp: note_touch_def stamp_def w' enter_def)
  qed (simp add: note_touch_def stamp_def w' enter_def)
qed

text \<open>
  \<open>cap k\<close> bounds the slots of the key \<open>k\<close>, \<open>T\<close> is the expiry of a member in
  seconds, and \<open>is_lease K\<close> describes the key lists the engine hands out.
\<close>

locale lease_engine = redis_zset R view
  for R :: "'w zset_ops" and view :: "'w \<Rightarrow> pool" +
  fixes api :: "('a, 'w) lease_api"
    and cap :: "string \<Rightarrow> int"
    and T :: int
    and is_lease :: "string list \<Rightarrow> bool"
  assumes cap_nonneg: "0 \<le> cap k"
    and expiry_bound: "T \<le> 3600"
    and allow_refines:
      "\<And>a now m n w r w'. api_allow api a now m n w = (r, w') \<Longrightarrow> \<exists>A K. set K \<subseteq> set A \<and>
         (\<forall>k\<in>set K. int (card (dom (purge (now - T) A (view w) k))) < cap k) \<and>
         view w' = enter now K m (purge (now - T) A (view w)) \<and>
         (case r of Inr (Some K') \<Rightarrow> K' = K \<and> is_lease K | Inr None \<Rightarrow> K = [] | Inl e \<Rightarrow> True)"
    and renew_refines:
      "\<And>now m K n w r w'. api_renew api now m K n w = (r, w') \<Longrightarrow> is_lease K \<Longrightarrow>
         view w' = view w \<and> r \<noteq> Renewed \<or>
         (\<forall>k\<in>set K. m \<in> dom (view w k)) \<and> view w' = enter now K m (view w) \<and> r \<noteq> RenewMissing"
    and done_refines:
      "\<And>m K n w. is_lease K \<Longrightarrow> view (api_done api m K n w) = view w \<or>
         view (api_done api m K n w) = leave K m (view w)"
begin

definition leases_ok :: "'w gateways \<Rightarrow> bool" where
  "leases_ok s \<longleftrightarrow> (\<forall>m K t. g_holders s m = Some (K, t) \<longrightarrow> is_lease K)"

lemma allow_simulation:
  assumes inv: "pool_inv cap T (abs_pool view s)" and m: "fresh_member m (abs_pool view s)"
  shows "pool_step cap T (abs_pool view s) (abs_pool view (after_allow view api a m n s))"
proof -
  obtain r w' where r: "api_allow api a (g_clock s) m n (server s) = (r, w')" by fastforce
  from allow_refines [OF r] obtain A K where AK: "set K \<subseteq> set A"
    "\<forall>k\<in>set K. int (card (dom (purge (g_clock s - T) A (view (server s)) k))) < cap k"
    "view w' = enter (g_clock s) K m (purge (g_clock s - T) A (view (server s)))"
    "case r of Inr (Some K') \<Rightarrow> K' = K \<and> is_lease K | Inr None \<Rightarrow> K = [] | Inl e \<Rightarrow> True"
    by blast
  have t: "note_touch view (g_clock s) m w' (g_touched s) = stamp K (g_clock s) (g_touched s)"
    by (rule note_touch_enter [OF inv AK(3)]) (simp add: purge_Some)
  have "pool_step cap T (abs_pool view s) ((abs_pool view s)\<lparr>
      slots := enter (clock (abs_pool view s)) K m (purge (g_clock s - T) A (view (server s))),
      holders := (case r of Inr (Some K) \<Rightarrow> (g_holders s)(m \<mapsto> (K, g_clock s)) | _ \<Rightarrow> g_holders s),
      touched := stamp K (clock (abs_pool view s)) (touched (abs_pool view s))\<rparr>)"
    by (rule pool_step.admit [OF m _ AK(1)])
      (use AK(2,4) in \<open>auto simp: abs_pool_def split: sum.splits option.splits\<close>)
  then show ?thesis by (simp add: abs_pool_def AK(3) t after_allow_def r)
qed

lemma renew_simulation:
  assumes inv: "pool_inv cap T (abs_pool view s)" and h: "g_holders s m = Some (K, t)" "is_lease K"
  shows "pool_step cap T (abs_pool view s) (abs_pool view (after_renew view api m K t n s))"
proof -
  obtain r w' where r: "api_renew api (g_clock s) m K n (server s) = (r, w')" by fastforce
  show ?thesis
    using renew_refines [OF r h(2)]
  proof (elim disjE conjE)
    assume w': "view w' = view (server s)" and ne: "r \<noteq> Renewed"
    have "note_touch view (g_clock s) m w' (g_touched s) = stamp [] (g_clock s) (g_touched s)"
      by (rule note_touch_enter [OF inv]) (simp_all add: w')
    moreover have "(g_holders s)(m \<mapsto> (K, t)) = g_holders s" using h by (simp add: fun_upd_idem)
    ultimately show ?thesis
      using pool_step.idle [of cap T "abs_pool view s"] w' ne
      by (simp add: abs_pool_def after_renew_def r)
  next
    assume mem: "\<forall>k\<in>set K. m \<in> dom (view (server s) k)"
      and w': "view w' = enter (g_clock s) K m (view (server s))" and ne: "r \<noteq> RenewMissing"
    have "note_touch view (g_clock s) m w' (g_touched s) = stamp K (g_clock s) (g_touched s)"
      by (rule note_touch_enter [OF inv w']) simp
    moreover have "pool_step cap T (abs_pool view s) ((abs_pool view s)\<lparr>
        slots := enter (clock (abs_pool view s)) K m (slots (abs_pool view s)),
        holders := (holders (abs_pool view s))(m \<mapsto> (K, if r = Renewed then g_clock s else t)),
        touched := stamp K (clock (abs_pool view s)) (touched (abs_pool view s))\<rparr>)"
      by (rule pool_step.renew) (use h mem in \<open>auto simp: abs_pool_def\<close>)
    ultimately show ?thesis using w' by (simp add: abs_pool_def after_renew_def r)
  qed
qed

lemma done_simulation:
  assumes h: "g_holders s m = Some (K, t)" "is_lease K"
  shows "pool_step cap T (abs_pool view s) (abs_pool view (after_done api m K n s))"
  using pool_step.release [of "abs_pool view s" m K t "view (api_done api m K n (server s))" cap T]
    done_refines [OF h(2), of m n "server s"] h by (auto simp: abs_pool_def after_done_def)

lemma leases_ok_step:
  assumes "gateway_step view api s s'" "leases_ok s"
  shows "leases_ok s'"
  using assms
proof (induction rule: gateway_step.induct)
  case (g_allow m s a n)
  obtain r w' where r: "api_allow api a (g_clock s) m n (server s) = (r, w')" by fastforce
  show ?case
    using g_allow allow_refines [OF r]
    by (auto simp: after_allow_def r leases_ok_def split: sum.splits option.splits if_splits)
qed (auto simp: leases_ok_def after_renew_def after_done_def split: prod.splits if_splits)

theorem gateway_simulation:
  assumes "gateway_step view api s s'" "pool_inv cap T (abs_pool view s)" "leases_ok s"
  shows "pool_step cap T (abs_pool view s) (abs_pool view s')"
  using assms
proof (induction rule: gateway_step.induct)
  case (g_tick s t)
  then show ?case using pool_step.tick [of "abs_pool view s" t cap T]
    by (simp add: abs_pool_def)
next
  case (g_allow m s a n)
  then show ?case by (intro allow_simulation)
next
  case (g_renew s m K t n)
  then show ?case by (intro renew_simulation) (auto simp: leases_ok_def)
next
  case (g_done s m K t n)
  then show ?case by (intro done_simulation) (auto simp: leases_ok_def)
next
  case (g_expiry s k w')
  then show ?case using pool_step.key_expiry [of "abs_pool view s" k cap T]
    by (simp add: abs_pool_def)
qed

theorem reachable_inv:
  "gateway_reach view api s \<Longrightarrow> pool_inv cap T (abs_pool view s) \<and> leases_ok s"
proof (induction rule: gateway_reach.induct)
  case (g_start w t0)
  then show ?case
    by (auto simp: pool_inv_def abs_pool_def live_def leases_ok_def cap_nonneg)
next
  case (g_next s s')
  then have inv: "pool_inv cap T (abs_pool view s)"
    and sim: "pool_step cap T (abs_pool view s) (abs_pool view s')" "leases_ok s'"
    using gateway_simulation leases_ok_step by blast+
  show ?case using pool_step_inv [OF sim(1) inv expiry_bound cap_nonneg] sim(2) by blast
qed

text \<open>No more than \<open>cap k\<close> requests with a live lease occupy the key \<open>k\<close>.\<close>

theorem live_bound:
  "gateway_reach view api s \<Longrightarrow>
     finite (live_on T (abs_pool view s) k) \<and> int (card (live_on T (abs_pool view s) k)) \<le> cap k"
  using reachable_inv live_on_bound by blast

theorem slots_bound:
  "gateway_reach view api s \<Longrightarrow> int (card (dom (view (server s) k))) \<le> cap k"
  using reachable_inv [of s] by (auto simp: pool_inv_def abs_pool_def)

end

end
