(* ===== verification/ConcurrencyLimiter.thy ===== *)
theory ConcurrencyLimiter
  imports LeasePool
begin

text \<open>
  \<open>pkg/engines/limiter/concurrency_limiter.go\<close>: a limit on the requests in flight, kept
  as a Redis sorted set of member ids scored by the time of their last renewal.
\<close>

section \<open>Scripts\<close>

definition simpleAcquireLuaScript ::
  "'w zset_ops \<Rightarrow> string \<Rightarrow> int \<Rightarrow> int \<Rightarrow> int \<Rightarrow> string \<Rightarrow> 'w \<Rightarrow> int list \<times> 'w" where
  "simpleAcquireLuaScript R key concurrency nowUnix expireBefore memberID w =
     (let w1 = ZREMRANGEBYSCORE R key 0 expireBefore w;
          currentCount = ZCARD R key w1
      in if currentCount < concurrency
         then ([1, currentCount + 1], EXPIRE R key 3600 (ZADD R key nowUnix memberID w1))
         else ([0, currentCount], w1))"

definition simpleReleaseLuaScript ::
  "'w zset_ops \<Rightarrow> string \<Rightarrow> string \<Rightarrow> 'w \<Rightarrow> int list \<times> 'w" where
  "simpleReleaseLuaScript R key memberID w = ([1], ZREM R key memberID w)"

definition simpleRenewLuaScript ::
  "'w zset_ops \<Rightarrow> string \<Rightarrow> int \<Rightarrow> string \<Rightarrow> 'w \<Rightarrow> int list \<times> 'w" where
  "simpleRenewLuaScript R key nowUnix memberID w =
     (if ZSCORE R key memberID w \<noteq> None
      then ([1], EXPIRE R key 3600 (ZADD R key nowUnix memberID w))
      else ([0], w))"

section \<open>The engine\<close>

text \<open>\<open>cl_scripts\<close> is false when the script fields are nil.\<close>

record conc_limiter =
  cl_key :: string
  cl_concurrency :: int
  cl_timeout :: int
  cl_scripts :: bool

definition NewConcurrencyLimiterEngine ::
  "string \<Rightarrow> int \<Rightarrow> int \<Rightarrow> bool \<Rightarrow> err + conc_limiter" where
  "NewConcurrencyLimiterEngine key concurrency timeout nextIsNil =
     (if nextIsNil then Inl (Plain ''next engine must not be nil'')
      else if concurrency \<le> 0
      then Inr \<lparr>cl_key = key, cl_concurrency = 0, cl_timeout = 0, cl_scripts = False\<rparr>
      else if timeout \<le> 0 then Inl (Plain ''timeout must be positive'')
      else Inr \<lparr>cl_key = key, cl_concurrency = concurrency, cl_timeout = timeout,
                cl_scripts = True\<rparr>)"

abbreviation ErrConcurrencyLimitReached :: err where
  "ErrConcurrencyLimitReached \<equiv> Sentinel ''ErrConcurrencyLimitReached''"

text \<open>
  \<open>allow\<close>: the error, or the keys the returned \<open>done\<close> releases (\<open>None\<close> for the
  \<open>done\<close> that does nothing).
\<close>

definition conc_allow ::
  "'w zset_ops \<Rightarrow> conc_limiter \<Rightarrow> int \<Rightarrow> string \<Rightarrow> net \<Rightarrow> 'w \<Rightarrow> (err + string list option) \<times> 'w" where
  "conc_allow R e nowUnix memberID n w =
     (if cl_concurrency e \<le> 0 \<or> \<not> cl_scripts e then (Inr None, w)
      else
        let expireBefore = nowUnix - whole_seconds (cl_timeout e);
            (res, w') = run_script n
              (simpleAcquireLuaScript R (cl_key e) (cl_concurrency e) nowUnix expireBefore memberID) w
        in case res of
             Inl er \<Rightarrow> (Inl (Wrap ''acquire script error'' [er]), w')
           | Inr results \<Rightarrow>
               if length results \<noteq> 2 then (Inl (Plain ''unexpected script result format''), w')
               else if results ! 0 = 0 then (Inl ErrConcurrencyLimitReached, w')
               else (Inr (Some [cl_key e]), w'))"

text \<open>The release part of \<open>done\<close>; its error is only logged.\<close>

definition conc_done :: "'w zset_ops \<Rightarrow> conc_limiter \<Rightarrow> string \<Rightarrow> net \<Rightarrow> 'w \<Rightarrow> 'w" where
  "conc_done R e memberID n w =
     snd (run_script n (simpleReleaseLuaScript R (cl_key e) memberID) w)"

text \<open>
  One tick of the renewal goroutine: \<open>RenewMissing\<close> ends it, an error or a malformed
  result only skips the tick.
\<close>

definition conc_renew ::
  "'w zset_ops \<Rightarrow> conc_limiter \<Rightarrow> int \<Rightarrow> string \<Rightarrow> net \<Rightarrow> 'w \<Rightarrow> renew_outcome \<times> 'w" where
  "conc_renew R e nowUnix memberID n w =
     (let (res, w') = run_script n (simpleRenewLuaScript R (cl_key e) nowUnix memberID) w
      in case res of
           Inl er \<Rightarrow> (RenewError, w')
         | Inr results \<Rightarrow>
             if length results \<noteq> 1 then (RenewError, w')
             else if results ! 0 = 0 then (RenewMissing, w')
             else (Renewed, w'))"

text \<open>
  What every engine holding a lease does with the next engine's answer: release at once
  on an error, a nil response or a response with neither stream nor body, else hand the
  release to \<open>OnClose\<close> of the stream or the body.
\<close>

definition release_action :: "(string \<times> string list) option \<Rightarrow> close_action" where
  "release_action lease =
     (case lease of None \<Rightarrow> OtherClose ''noop'' | Some (m, K) \<Rightarrow> ReleaseLease m K)"

definition settle ::
  "(string \<times> string list) option \<Rightarrow> ('w \<Rightarrow> 'w) \<Rightarrow> ('b, 's) response go_result \<Rightarrow> 'w
    \<Rightarrow> ('b, 's) response go_result \<times> 'w" where
  "settle lease release out w =
     (case out of
        (Some r, None) \<Rightarrow>
          (case resp_stream r of
             Some st \<Rightarrow> ((Some (r\<lparr>resp_stream := Some (OnClose (release_action lease) st)\<rparr>), None), w)
           | None \<Rightarrow>
              (case resp_body r of
                 Some b \<Rightarrow> ((Some (r\<lparr>resp_body := Some (OnClose (release_action lease) b)\<rparr>), None), w)
               | None \<Rightarrow> ((Some r, None), release w)))
      | _ \<Rightarrow> (out, release w))"

definition conc_process ::
  "'w zset_ops \<Rightarrow> conc_limiter \<Rightarrow> int \<Rightarrow> string \<Rightarrow> net \<Rightarrow> net \<Rightarrow> ('w, 'rq, ('b, 's) response) engine
    \<Rightarrow> ('w, 'rq, ('b, 's) response) engine" where
  "conc_process R e nowUnix memberID n1 n2 next req w =
     (case conc_allow R e nowUnix memberID n1 w of
        (Inl er, w1) \<Rightarrow> ((None, Some er), w1)
      | (Inr lease, w1) \<Rightarrow>
          (let (out, w2) = next req w1
           in settle (map_option (Pair memberID) lease)
                (\<lambda>w. case lease of None \<Rightarrow> w | Some K \<Rightarrow> conc_done R e memberID n2 w) out w2))"

section \<open>What the scripts do to the pool\<close>

context redis_zset
begin

lemma simpleAcquire_pool:
  "view (snd (simpleAcquireLuaScript R key c now eb m w)) =
     (let P = purge eb [key] (view w)
      in if int (card (dom (P key))) < c then enter now [key] m P else P)"
  by (simp add: simpleAcquireLuaScript_def Let_def view_simps)

lemma simpleAcquire_reply:
  "fst (simpleAcquireLuaScript R key c now eb m w) =
     (let N = int (card (dom (purge eb [key] (view w) key)))
      in if N < c then [1, N + 1] else [0, N])"
  by (simp add: simpleAcquireLuaScript_def Let_def view_simps)

lemma simpleRelease_pool: "view (snd (simpleReleaseLuaScript R key m w)) = leave [key] m (view w)"
  by (simp add: simpleReleaseLuaScript_def view_simps)

lemma simpleRenew_pool:
  "view (snd (simpleRenewLuaScript R key now m w)) =
     (if m \<in> dom (view w key) then enter now [key] m (view w) else view w)"
  "fst (simpleRenewLuaScript R key now m w) = (if m \<in> dom (view w key) then [1] else [0])"
  by (auto simp: simpleRenewLuaScript_def view_simps)

text \<open>The whole decision of \<open>allow\<close>, on every branch.\<close>

lemma conc_allow_cases:
  assumes "0 < cl_concurrency e" "cl_scripts e"
  defines "eb \<equiv> \<lambda>now. now - whole_seconds (cl_timeout e)"
  shows "conc_allow R e now m Delivered w =
     (let N = int (card (dom (purge (eb now) [cl_key e] (view w) (cl_key e))));
          w' = snd (simpleAcquireLuaScript R (cl_key e) (cl_concurrency e) now (eb now) m w)
      in (if N < cl_concurrency e then Inr (Some [cl_key e]) else Inl ErrConcurrencyLimitReached, w'))"
    "conc_allow R e now m LostRequest w =
     (Inl (Wrap ''acquire script error'' [Plain ''redis: connection error'']), w)"
    "conc_allow R e now m LostReply w =
     (Inl (Wrap ''acquire script error'' [Plain ''redis: connection error'']),
      snd (simpleAcquireLuaScript R (cl_key e) (cl_concurrency e) now (eb now) m w))"
  using assms by (simp_all add: conc_allow_def Let_def simpleAcquire_reply)

end

definition conc_api :: "'w zset_ops \<Rightarrow> conc_limiter \<Rightarrow> (unit, 'w) lease_api" where
  "conc_api R e = \<lparr>
     api_allow = (\<lambda>_. conc_allow R e),
     api_renew = (\<lambda>now m K. conc_renew R e now m),
     api_done = (\<lambda>m K. conc_done R e m)\<rparr>"

text \<open>An enabled limiter whose timeout is at most the 3600 seconds of its keys' expiry.\<close>

locale enabled_limiter = redis_zset R view
  for R :: "'w zset_ops" and view :: "'w \<Rightarrow> pool" +
  fixes e :: conc_limiter
  assumes enabled: "0 < cl_concurrency e" "cl_scripts e"
    and timeout: "whole_seconds (cl_timeout e) \<le> 3600"

sublocale enabled_limiter \<subseteq> conc: lease_engine R view "conc_api R e"
    "\<lambda>k. if k = cl_key e then cl_concurrency e else 0" "whole_seconds (cl_timeout e)"
    "\<lambda>K. K = [cl_key e]"
proof (unfold_locales, goal_cases)
  case (1 k)
  then show ?case using enabled by simp
next
  case 2
  then show ?case by (rule timeout)
next
  case (3 a now m n w r w')
  let ?P = "purge (now - whole_seconds (cl_timeout e)) [cl_key e] (view w)"
  consider "n = LostRequest" | "n \<noteq> LostRequest" "int (card (dom (?P (cl_key e)))) < cl_concurrency e"
    | "n \<noteq> LostRequest" "\<not> int (card (dom (?P (cl_key e)))) < cl_concurrency e" by blast
  then show ?case
  proof cases
    case 1
    with 3 show ?thesis
      by (intro exI [of _ "[]"]) (auto simp: conc_api_def conc_allow_cases [OF enabled])
  next
    case 2
    with 3 show ?thesis
      by (intro exI [of _ "[cl_key e]"], cases n)
        (auto simp: conc_api_def conc_allow_cases [OF enabled] simpleAcquire_pool Let_def)
  next
    case nofree: 3
    with 3 show ?thesis
      by (intro exI [of _ "[cl_key e]"] exI [of _ "[]"], cases n)
        (auto simp: conc_api_def conc_allow_cases [OF enabled] simpleAcquire_pool Let_def)
  qed
next
  case (4 now m K n w r w')
  then show ?case
    by (cases n) (auto simp: conc_api_def conc_renew_def simpleRenew_pool split: if_splits)
next
  case (5 m K n w)
  then show ?case
    by (cases n) (auto simp: conc_api_def conc_done_def simpleRelease_pool)
qed

context enabled_limiter
begin

lemma conc_bound:
  assumes "gateway_reach view (conc_api R e) s"
  shows "finite (live_on (whole_seconds (cl_timeout e)) (abs_pool view s) (cl_key e))"
    "int (card (live_on (whole_seconds (cl_timeout e)) (abs_pool view s) (cl_key e))) \<le> cl_concurrency e"
    "int (card (dom (view (server s) (cl_key e)))) \<le> cl_concurrency e"
  using conc.live_bound [OF assms, of "cl_key e"] conc.slots_bound [OF assms, of "cl_key e"] by auto

end

lemma NewConcurrencyLimiterEngine_enabled:
  "NewConcurrencyLimiterEngine key c timeout nil = Inr e \<Longrightarrow> 0 < c \<Longrightarrow>
     e = \<lparr>cl_key = key, cl_concurrency = c, cl_timeout = timeout, cl_scripts = True\<rparr> \<and> 0 < timeout"
  by (auto simp: NewConcurrencyLimiterEngine_def split: if_splits)

section \<open>Properties\<close>

text \<open>C1: Whatever the interleaving of acquisitions, renewals, releases, lost replies, clock
  advances and key expiry over any number of gateways sharing the key, at most
  \<open>concurrency\<close> requests hold a lease refreshed within the timeout, and the set never
  holds more members than that.\<close>

theorem concurrency_never_exceeded:
  assumes "redis_zset R view"
    and "NewConcurrencyLimiterEngine key c timeout False = Inr e" and "0 < c"
    and "whole_seconds timeout \<le> 3600"
    and "gateway_reach view (conc_api R e) s"
  shows "finite (live_on (whole_seconds timeout) (abs_pool view s) key) \<and>
    int (card (live_on (whole_seconds timeout) (abs_pool view s) key)) \<le> c \<and>
    int (card (dom (view (server s) key))) \<le> c"
proof (intro conjI)
  have e: "e = \<lparr>cl_key = key, cl_concurrency = c, cl_timeout = timeout, cl_scripts = True\<rparr>"
    using NewConcurrencyLimiterEngine_enabled assms(2,3) by blast
  have "enabled_limiter R view e"
    using assms(1,3,4) by (simp add: enabled_limiter_def enabled_limiter_axioms_def e)
  from enabled_limiter.conc_bound [OF this assms(5)] show
    "finite (live_on (whole_seconds timeout) (abs_pool view s) key)"
    "int (card (live_on (whole_seconds timeout) (abs_pool view s) key)) \<le> c"
    "int (card (dom (view (server s) key))) \<le> c"
    by (simp_all add: e)
qed

text \<open>A limiter with one slot and a timeout of 120 seconds, and the state of the gateways
  after one request has been admitted at time 1000.\<close>

definition demo_limiter :: conc_limiter where
  "demo_limiter = \<lparr>cl_key = ''k'', cl_concurrency = 1, cl_timeout = 120 * second, cl_scripts = True\<rparr>"

interpretation demo_conc: enabled_limiter ref_zset ref_view demo_limiter
  by unfold_locales (use whole_seconds_whole [of 120] in \<open>simp_all add: demo_limiter_def\<close>)

definition demo_start :: "zdb gateways" where
  "demo_start = \<lparr>server = (\<lambda>_. []), g_clock = 1000, g_holders = Map.empty, g_touched = (\<lambda>_. 1000)\<rparr>"

definition demo_state :: "zdb gateways" where
  "demo_state = after_allow ref_view (conc_api ref_zset demo_limiter) () ''a'' Delivered demo_start"

lemma demo_reach: "gateway_reach ref_view (conc_api ref_zset demo_limiter) demo_state"
proof -
  have "gateway_reach ref_view (conc_api ref_zset demo_limiter) demo_start"
    unfolding demo_start_def by (rule g_start) (simp add: ref_view_def fun_eq_iff)
  then show ?thesis
    unfolding demo_state_def
    by (rule g_next [OF _ g_allow]) (simp add: fresh_member_def abs_pool_def demo_start_def ref_view_def)
qed

lemma demo_holds: "g_holders demo_state ''a'' = Some ([''k''], 1000)"
  by (simp add: demo_state_def after_allow_def demo_start_def conc_api_def conc_allow_def
      demo_limiter_def simpleAcquireLuaScript_def ref_zset_def)

theorem concurrency_never_exceeded_witness:
  "g_holders demo_state ''a'' \<noteq> None \<and>
   int (card (live_on 120 (abs_pool ref_view demo_state) ''k'')) \<le> 1"
proof -
  have N: "NewConcurrencyLimiterEngine ''k'' 1 (120 * second) False = Inr demo_limiter"
    by (simp add: NewConcurrencyLimiterEngine_def demo_limiter_def)
  have T: "whole_seconds (120 * second) = 120" by (rule whole_seconds_whole) simp
  then show ?thesis
    using concurrency_never_exceeded [OF ref.redis_zset_axioms N _ _ demo_reach]
    by (simp add: T demo_holds)
qed

text \<open>The period of the renewal ticker, \<open>time.NewTicker(1 * time.Minute)\<close>, in seconds.\<close>

definition renewal_period :: int where
  "renewal_period = 60"



text \<open>Closing a response: the callbacks run in order; those of other engines do not touch
  this engine's state.\<close>

definition run_closers ::
  "(string \<Rightarrow> string list \<Rightarrow> 'w \<Rightarrow> 'w) \<Rightarrow> close_action list \<Rightarrow> 'w \<Rightarrow> 'w" where
  "run_closers rel as w =
     fold (\<lambda>a w. case a of ReleaseLease m K \<Rightarrow> rel m K w | OtherClose _ \<Rightarrow> w) as w"

text \<open>Whoever calls \<open>settle\<close>: the release has either run, or closing the response runs it
  last, after every callback that was already registered.\<close>

lemma settle_once:
  assumes "settle lease release (resp, er) w = ((resp', er'), w')"
  shows "er' = er"
    and "(resp' = resp \<and> w' = release w) \<or>
         (\<exists>r r'. resp = Some r \<and> er = None \<and> resp' = Some r' \<and> w' = w \<and>
            resp_status r' = resp_status r \<and> resp_header r' = resp_header r \<and>
            response_closers r' = response_closers r @ [release_action lease])"
proof -
  consider "er \<noteq> None \<or> resp = None"
    | r where "er = None" "resp = Some r" "resp_stream r = None" "resp_body r = None"
    | r st where "er = None" "resp = Some r" "resp_stream r = Some st"
    | r b where "er = None" "resp = Some r" "resp_stream r = None" "resp_body r = Some b"
    by (metis not_Some_eq)
  then have "er' = er \<and> ((resp' = resp \<and> w' = release w) \<or>
         (\<exists>r r'. resp = Some r \<and> er = None \<and> resp' = Some r' \<and> w' = w \<and>
            resp_status r' = resp_status r \<and> resp_header r' = resp_header r \<and>
            response_closers r' = response_closers r @ [release_action lease]))"
  proof cases
    case 1
    with assms show ?thesis by (auto simp: settle_def split: option.splits)
  next
    case (2 r)
    with assms show ?thesis by (simp add: settle_def)
  next
    case (3 r st)
    with assms have "resp' = Some (r\<lparr>resp_stream := Some (OnClose (release_action lease) st)\<rparr>)"
      "er' = None" "w' = w" by (simp_all add: settle_def)
    with 3 show ?thesis by (simp add: response_closers_def)
  next
    case (4 r b)
    with assms have "resp' = Some (r\<lparr>resp_body := Some (OnClose (release_action lease) b)\<rparr>)"
      "er' = None" "w' = w" by (simp_all add: settle_def)
    with 4 show ?thesis by (simp add: response_closers_def)
  qed
  then show "er' = er"
    and "(resp' = resp \<and> w' = release w) \<or>
         (\<exists>r r'. resp = Some r \<and> er = None \<and> resp' = Some r' \<and> w' = w \<and>
            resp_status r' = resp_status r \<and> resp_header r' = resp_header r \<and>
            response_closers r' = response_closers r @ [release_action lease])"
    by blast+
qed



end
