(* ===== verification/ConcurrencyColorLimiter.thy ===== *)
theory ConcurrencyColorLimiter
  imports ColorPriority ConcurrencyLimiter
begin

text \<open>
  \<open>pkg/engines/limiter/concurrency_color_limiter.go\<close>: a concurrency limit per priority
  band. A request of the highest priority takes a slot of tier 0; any other takes a slot
  of its own tier and one of tier 0, of which it leaves as many free as its tier number.
\<close>

section \<open>Scripts\<close>

definition acquireSingleLuaScript ::
  "'w zset_ops \<Rightarrow> string \<Rightarrow> int \<Rightarrow> int \<Rightarrow> int \<Rightarrow> string \<Rightarrow> 'w \<Rightarrow> int list \<times> 'w" where
  "acquireSingleLuaScript R key concurrency nowUnix expireBefore memberID w =
     (let w1 = ZREMRANGEBYSCORE R key 0 expireBefore w;
          currentCount = ZCARD R key w1
      in if currentCount < concurrency
         then ([1, currentCount + 1], EXPIRE R key 3600 (ZADD R key nowUnix memberID w1))
         else ([0, currentCount], w1))"

definition acquireLuaScript ::
  "'w zset_ops \<Rightarrow> string \<Rightarrow> string \<Rightarrow> int \<Rightarrow> int \<Rightarrow> int \<Rightarrow> int \<Rightarrow> string \<Rightarrow> int \<Rightarrow> 'w \<Rightarrow> int list \<times> 'w" where
  "acquireLuaScript R ownKey tier0Key ownLimit tier0Limit nowUnix expireBefore memberID reservedSlots w =
     (let w1 = ZREMRANGEBYSCORE R ownKey 0 expireBefore w;
          w2 = ZREMRANGEBYSCORE R tier0Key 0 expireBefore w1;
          ownCount = ZCARD R ownKey w2;
          tier0Count = ZCARD R tier0Key w2
      in if ownCount < ownLimit \<and> tier0Count < tier0Limit - reservedSlots
         then ([1, ownCount + 1, tier0Count + 1],
               EXPIRE R tier0Key 3600 (EXPIRE R ownKey 3600
                 (ZADD R tier0Key nowUnix memberID (ZADD R ownKey nowUnix memberID w2))))
         else ([0, ownCount, tier0Count], w2))"

definition releaseSingleLuaScript ::
  "'w zset_ops \<Rightarrow> string \<Rightarrow> string \<Rightarrow> 'w \<Rightarrow> int list \<times> 'w" where
  "releaseSingleLuaScript R key memberID w = ([1], ZREM R key memberID w)"

definition releaseLuaScript ::
  "'w zset_ops \<Rightarrow> string \<Rightarrow> string \<Rightarrow> string \<Rightarrow> 'w \<Rightarrow> int list \<times> 'w" where
  "releaseLuaScript R ownKey tier0Key memberID w =
     ([1], ZREM R tier0Key memberID (ZREM R ownKey memberID w))"

definition renewSingleLuaScript ::
  "'w zset_ops \<Rightarrow> string \<Rightarrow> int \<Rightarrow> string \<Rightarrow> 'w \<Rightarrow> int list \<times> 'w" where
  "renewSingleLuaScript R key nowUnix memberID w =
     (if ZSCORE R key memberID w \<noteq> None
      then ([1], EXPIRE R key 3600 (ZADD R key nowUnix memberID w))
      else ([0], w))"

definition renewLuaScript ::
  "'w zset_ops \<Rightarrow> string \<Rightarrow> string \<Rightarrow> int \<Rightarrow> string \<Rightarrow> 'w \<Rightarrow> int list \<times> 'w" where
  "renewLuaScript R ownKey tier0Key nowUnix memberID w =
     (if ZSCORE R ownKey memberID w \<noteq> None \<and> ZSCORE R tier0Key memberID w \<noteq> None
      then ([1], EXPIRE R tier0Key 3600 (EXPIRE R ownKey 3600
                   (ZADD R tier0Key nowUnix memberID (ZADD R ownKey nowUnix memberID w))))
      else ([0], w))"

section \<open>The engine\<close>

text \<open>\<open>ccl_scripts\<close> is false when the script fields are nil. \<open>ratesFunc\<close> is the
  caller's, a function of the request.\<close>

record 'rq color_limiter =
  ccl_key :: string
  ccl_rates :: "('rq \<Rightarrow> err + int list) option"
  ccl_timeout :: int
  ccl_nameSpace :: string
  ccl_scripts :: bool

definition NewConcurrencyColorLimiterEngineWithRatesFunc ::
  "bool \<Rightarrow> string \<Rightarrow> int \<Rightarrow> string \<Rightarrow> ('rq \<Rightarrow> err + int list) option \<Rightarrow> err + 'rq color_limiter" where
  "NewConcurrencyColorLimiterEngineWithRatesFunc redisIsNil key timeout nameSpace ratesFunc =
     (case ratesFunc of
        None \<Rightarrow> Inr \<lparr>ccl_key = key, ccl_rates = None, ccl_timeout = timeout,
                     ccl_nameSpace = nameSpace, ccl_scripts = False\<rparr>
      | Some f \<Rightarrow>
          if timeout \<le> 0 then Inl (Plain ''timeout must be positive'')
          else if redisIsNil then Inl (Plain ''redisClient must be provided'')
          else Inr \<lparr>ccl_key = key, ccl_rates = Some f, ccl_timeout = timeout,
                    ccl_nameSpace = nameSpace, ccl_scripts = True\<rparr>)"

definition NewConcurrencyColorLimiterEngine ::
  "bool \<Rightarrow> string \<Rightarrow> int \<Rightarrow> int list \<Rightarrow> int \<Rightarrow> string \<Rightarrow> err + 'rq color_limiter" where
  "NewConcurrencyColorLimiterEngine redisIsNil key totalConcurrency perPriorityRates timeout nameSpace =
     (let rates = buildTotalPlusPerPriorityLimits totalConcurrency perPriorityRates
      in if rates = []
         then NewConcurrencyColorLimiterEngineWithRatesFunc redisIsNil key timeout nameSpace None
         else NewConcurrencyColorLimiterEngineWithRatesFunc redisIsNil key timeout nameSpace
                (Some (\<lambda>_. Inr rates)))"

text \<open>The priority of a request: 0 without one in the context.\<close>

definition ccl_priority :: "'z request_scheme color_limiter \<Rightarrow> 'z request_scheme \<Rightarrow> int" where
  "ccl_priority e req =
     (case getPriorityFromContext (ccl_nameSpace e) (req_ctx req) of Some p \<Rightarrow> p | None \<Rightarrow> 0)"

text \<open>
  \<open>allow\<close>: the keys its \<open>done\<close> releases (\<open>None\<close> for the \<open>done\<close> that does
  nothing), the priority and the error.
\<close>

definition ccl_allow ::
  "'w zset_ops \<Rightarrow> 'z request_scheme color_limiter \<Rightarrow> 'z request_scheme \<Rightarrow> int \<Rightarrow> string \<Rightarrow> net \<Rightarrow> 'w
    \<Rightarrow> (string list option \<times> int \<times> err option) \<times> 'w" where
  "ccl_allow R e req nowUnix memberID n w =
     (case ccl_rates e of
        None \<Rightarrow> ((None, 0, None), w)
      | Some ratesFunc \<Rightarrow>
     (case ratesFunc req of
        Inl er \<Rightarrow> ((None, 0, Some er), w)
      | Inr rates \<Rightarrow>
     (if rates = [] \<or> \<not> ccl_scripts e then ((None, 0, None), w)
      else
        let priority = ccl_priority e req;
            expireBefore = nowUnix - whole_seconds (ccl_timeout e);
            tierIdx = color_tier (length rates) priority;
            tier0Key = tier_key (ccl_key e) 0;
            ownKey = tier_key (ccl_key e) tierIdx
        in if tierIdx = 0
           then (let (res, w') = run_script n
                   (acquireSingleLuaScript R tier0Key (rates ! 0) nowUnix expireBefore memberID) w
                 in case res of
                      Inl er \<Rightarrow> ((None, 0, Some (Wrap ''acquire script error'' [er])), w')
                    | Inr results \<Rightarrow>
                        if length results \<noteq> 2
                        then ((None, 0, Some (Plain ''unexpected script result format'')), w')
                        else if results ! 0 = 0
                        then ((None, priority, Some ErrRateLimitReached), w')
                        else ((Some [tier0Key], priority, None), w'))
           else (let (res, w') = run_script n
                   (acquireLuaScript R ownKey tier0Key (rates ! tierIdx) (rates ! 0) nowUnix expireBefore
                      memberID (int tierIdx)) w
                 in case res of
                      Inl er \<Rightarrow> ((None, 0, Some (Wrap ''acquire script error'' [er])), w')
                    | Inr results \<Rightarrow>
                        if length results \<noteq> 3
                        then ((None, 0, Some (Plain ''unexpected script result format'')), w')
                        else if results ! 0 = 0
                        then ((None, priority, Some ErrRateLimitReached), w')
                        else ((Some [ownKey, tier0Key], priority, None), w')))))"

text \<open>The release in \<open>done\<close> and one tick of \<open>renewMemberSingle\<close> or
  \<open>renewMemberDual\<close>, by the number of keys held.\<close>

fun ccl_done :: "'w zset_ops \<Rightarrow> string \<Rightarrow> string list \<Rightarrow> net \<Rightarrow> 'w \<Rightarrow> 'w" where
  "ccl_done R memberID [key] n w = snd (run_script n (releaseSingleLuaScript R key memberID) w)"
| "ccl_done R memberID [ownKey, tier0Key] n w =
     snd (run_script n (releaseLuaScript R ownKey tier0Key memberID) w)"
| "ccl_done R memberID _ n w = w"

definition renew_result :: "(err + int list) \<times> 'w \<Rightarrow> renew_outcome \<times> 'w" where
  "renew_result r =
     (case r of
        (Inl er, w') \<Rightarrow> (RenewError, w')
      | (Inr results, w') \<Rightarrow>
          if length results \<noteq> 1 then (RenewError, w')
          else if results ! 0 = 0 then (RenewMissing, w')
          else (Renewed, w'))"

definition ccl_renewMemberSingle ::
  "'w zset_ops \<Rightarrow> int \<Rightarrow> string \<Rightarrow> string \<Rightarrow> net \<Rightarrow> 'w \<Rightarrow> renew_outcome \<times> 'w" where
  "ccl_renewMemberSingle R nowUnix memberID key n w =
     renew_result (run_script n (renewSingleLuaScript R key nowUnix memberID) w)"

definition ccl_renewMemberDual ::
  "'w zset_ops \<Rightarrow> int \<Rightarrow> string \<Rightarrow> string \<Rightarrow> string \<Rightarrow> net \<Rightarrow> 'w \<Rightarrow> renew_outcome \<times> 'w" where
  "ccl_renewMemberDual R nowUnix memberID ownKey tier0Key n w =
     renew_result (run_script n (renewLuaScript R ownKey tier0Key nowUnix memberID) w)"

fun ccl_renew :: "'w zset_ops \<Rightarrow> int \<Rightarrow> string \<Rightarrow> string list \<Rightarrow> net \<Rightarrow> 'w \<Rightarrow> renew_outcome \<times> 'w" where
  "ccl_renew R now m [key] n w = ccl_renewMemberSingle R now m key n w"
| "ccl_renew R now m [ownKey, tier0Key] n w = ccl_renewMemberDual R now m ownKey tier0Key n w"
| "ccl_renew R now m _ n w = (RenewError, w)"

definition ccl_process ::
  "'w zset_ops \<Rightarrow> 'z request_scheme color_limiter \<Rightarrow> int \<Rightarrow> string \<Rightarrow> net \<Rightarrow> net
    \<Rightarrow> ('w color_world, 'z request_scheme, ('b, 's) response) engine
    \<Rightarrow> ('w color_world, 'z request_scheme, ('b, 's) response) engine" where
  "ccl_process R e nowUnix memberID n1 n2 next req w =
     (let ((lease, priority, er), r1) = ccl_allow R e req nowUnix memberID n1 (cw_redis w);
          w1 = w\<lparr>cw_redis := r1\<rparr>
      in case er of
           Some er \<Rightarrow>
             ((None, Some er),
              if errors_is er ''ErrRateLimitReached'' then with_color recordLimiterDeny priority w1 else w1)
         | None \<Rightarrow>
             (let (out, w2) = next req (with_color recordLimiterAllow priority w1)
              in settle (map_option (Pair memberID) lease)
                   (\<lambda>w. case lease of None \<Rightarrow> w
                        | Some K \<Rightarrow> w\<lparr>cw_redis := ccl_done R memberID K n2 (cw_redis w)\<rparr>) out w2))"

section \<open>What the scripts do to the pool\<close>

lemma single_scripts:
  "acquireSingleLuaScript = simpleAcquireLuaScript"
  "releaseSingleLuaScript = simpleReleaseLuaScript"
  "renewSingleLuaScript = simpleRenewLuaScript"
  by (simp_all add: fun_eq_iff acquireSingleLuaScript_def simpleAcquireLuaScript_def
      releaseSingleLuaScript_def simpleReleaseLuaScript_def renewSingleLuaScript_def simpleRenewLuaScript_def)

text \<open>The decision of \<open>allow\<close> for a request whose tier limits are \<open>rates\<close>.\<close>

definition tier_pool :: "('w \<Rightarrow> pool) \<Rightarrow> 'z request_scheme color_limiter \<Rightarrow> int \<Rightarrow> nat \<Rightarrow> 'w \<Rightarrow> pool" where
  "tier_pool view e now i w =
     purge (now - whole_seconds (ccl_timeout e)) [tier_key (ccl_key e) i, tier_key (ccl_key e) 0] (view w)"

definition tier_free :: "('w \<Rightarrow> pool) \<Rightarrow> 'z request_scheme color_limiter \<Rightarrow> int list \<Rightarrow> int \<Rightarrow> nat \<Rightarrow> 'w \<Rightarrow> bool" where
  "tier_free view e rates now i w \<longleftrightarrow>
     int (card (dom (tier_pool view e now i w (tier_key (ccl_key e) i)))) < rates ! i \<and>
     int (card (dom (tier_pool view e now i w (tier_key (ccl_key e) 0)))) < rates ! 0 - int i"

definition tier_lease :: "'z request_scheme color_limiter \<Rightarrow> nat \<Rightarrow> string list" where
  "tier_lease e i = (if i = 0 then [tier_key (ccl_key e) 0]
                     else [tier_key (ccl_key e) i, tier_key (ccl_key e) 0])"

lemma purge_twice [simp]: "purge e [k, k] P = purge e [k] P"
  by (rule purge_cong) simp

context redis_zset
begin

lemma acquire_pool:
  "view (snd (acquireLuaScript R own k0 l l0 now eb m res w)) =
     (let P = purge eb [own, k0] (view w)
      in if int (card (dom (P own))) < l \<and> int (card (dom (P k0))) < l0 - res
         then enter now [own, k0] m P else P)"
proof -
  have "purge eb [k0] (purge eb [own] P) = purge eb [own, k0] P"
    "enter now [k0] m (enter now [own] m P) = enter now [own, k0] m P" for P
    by (auto simp: purge_purge enter_enter intro: purge_cong enter_cong)
  then show ?thesis by (simp add: acquireLuaScript_def Let_def view_simps)
qed

lemma acquire_reply:
  "fst (acquireLuaScript R own k0 l l0 now eb m res w) =
     (let P = purge eb [own, k0] (view w); N = int (card (dom (P own))); N0 = int (card (dom (P k0)))
      in if N < l \<and> N0 < l0 - res then [1, N + 1, N0 + 1] else [0, N, N0])"
proof -
  have "purge eb [k0] (purge eb [own] P) = purge eb [own, k0] P" for P
    by (auto simp: purge_purge intro: purge_cong)
  then show ?thesis by (simp add: acquireLuaScript_def Let_def view_simps)
qed

lemma release_pool: "view (snd (releaseLuaScript R own k0 m w)) = leave [own, k0] m (view w)"
  by (auto simp: releaseLuaScript_def view_simps leave_leave intro: leave_cong)

lemma renew_pool:
  "view (snd (renewLuaScript R own k0 now m w)) =
     (if m \<in> dom (view w own) \<and> m \<in> dom (view w k0) then enter now [own, k0] m (view w) else view w)"
  "fst (renewLuaScript R own k0 now m w) =
     (if m \<in> dom (view w own) \<and> m \<in> dom (view w k0) then [1] else [0])"
proof -
  have "enter now [k0] m (enter now [own] m P) = enter now [own, k0] m P" for P
    by (auto simp: enter_enter intro: enter_cong)
  then show "view (snd (renewLuaScript R own k0 now m w)) =
     (if m \<in> dom (view w own) \<and> m \<in> dom (view w k0) then enter now [own, k0] m (view w) else view w)"
    "fst (renewLuaScript R own k0 now m w) =
     (if m \<in> dom (view w own) \<and> m \<in> dom (view w k0) then [1] else [0])"
    by (auto simp: renewLuaScript_def view_simps)
qed

lemma tier_pool_0:
  "tier_pool view e now 0 w = purge (now - whole_seconds (ccl_timeout e)) [tier_key (ccl_key e) 0] (view w)"
  by (simp add: tier_pool_def)

lemma ccl_allow_world:
  assumes "ccl_rates e = Some f" "f req = Inr rates" "rates \<noteq> []" "ccl_scripts e"
  defines "i \<equiv> color_tier (length rates) (ccl_priority e req)"
  shows "view (snd (ccl_allow R e req now m n w)) =
     (if n = LostRequest then view w
      else if tier_free view e rates now i w then enter now (tier_lease e i) m (tier_pool view e now i w)
      else tier_pool view e now i w)"
  using assms(1-4)
  by (cases n) (auto simp: ccl_allow_def i_def [symmetric] Let_def single_scripts simpleAcquire_pool
      acquire_pool tier_free_def tier_lease_def simpleAcquire_reply acquire_reply tier_pool_def)

lemma ccl_allow_result:
  assumes "ccl_rates e = Some f" "f req = Inr rates" "rates \<noteq> []" "ccl_scripts e"
  defines "i \<equiv> color_tier (length rates) (ccl_priority e req)"
  shows "fst (ccl_allow R e req now m n w) =
     (if n \<noteq> Delivered
      then (None, 0, Some (Wrap ''acquire script error'' [Plain ''redis: connection error'']))
      else if tier_free view e rates now i w then (Some (tier_lease e i), ccl_priority e req, None)
      else (None, ccl_priority e req, Some ErrRateLimitReached))"
  using assms(1-4)
  by (cases n) (auto simp: ccl_allow_def i_def [symmetric] Let_def single_scripts simpleAcquire_reply
      acquire_reply tier_free_def tier_lease_def tier_pool_def)

end

section \<open>The engine as a lease engine\<close>

definition ccl_api :: "'w zset_ops \<Rightarrow> 'z request_scheme color_limiter \<Rightarrow> ('z request_scheme, 'w) lease_api" where
  "ccl_api R e = \<lparr>
     api_allow = (\<lambda>req now m n w.
       (case ccl_allow R e req now m n w of
          ((lease, p, er), w') \<Rightarrow> ((case er of Some x \<Rightarrow> Inl x | None \<Rightarrow> Inr lease), w'))),
     api_renew = (\<lambda>now m K. ccl_renew R now m K),
     api_done = (\<lambda>m K. ccl_done R m K)\<rparr>"

text \<open>A limiter with static tier limits.\<close>

locale static_color_limiter = redis_zset R view
  for R :: "'w zset_ops" and view :: "'w \<Rightarrow> pool" +
  fixes e :: "'z request_scheme color_limiter"
    and rates :: "int list"
  assumes static: "ccl_rates e = Some (\<lambda>_. Inr rates)" "rates \<noteq> []" "ccl_scripts e"
    and caps: "\<And>x. x \<in> set rates \<Longrightarrow> 0 \<le> x"
    and timeout: "whole_seconds (ccl_timeout e) \<le> 3600"

sublocale static_color_limiter \<subseteq> color: lease_engine R view "ccl_api R e"
    "tier_cap (ccl_key e) rates" "whole_seconds (ccl_timeout e)"
    "\<lambda>K. \<exists>i<length rates. K = tier_lease e i"
proof (unfold_locales, goal_cases)
  case (1 k)
  then show ?case using caps by (rule tier_cap_nonneg)
next
  case 2
  then show ?case by (rule timeout)
next
  case (3 req now m n w r w')
  define i where "i = color_tier (length rates) (ccl_priority e req)"
  have i: "i < length rates" using static(2) by (simp add: i_def color_tier_less)
  note world = ccl_allow_world [OF static(1) refl static(2,3), of req now m n w, folded i_def]
    and res = ccl_allow_result [OF static(1) refl static(2,3), of req now m n w, folded i_def]
  have w': "w' = snd (ccl_allow R e req now m n w)"
    and r: "r = (case fst (ccl_allow R e req now m n w) of (lease, p, er) \<Rightarrow>
      (case er of Some x \<Rightarrow> Inl x | None \<Rightarrow> Inr lease))"
    using 3 by (auto simp: ccl_api_def split: prod.splits)
  consider "n = LostRequest" | "n \<noteq> LostRequest" "tier_free view e rates now i w"
    | "n \<noteq> LostRequest" "\<not> tier_free view e rates now i w" by blast
  then show ?case
  proof cases
    case 1
    then show ?thesis unfolding w' r world res by (intro exI [of _ "[]"]) simp
  next
    case 2
    have "\<forall>k\<in>set (tier_lease e i). int (card (dom (tier_pool view e now i w k))) < tier_cap (ccl_key e) rates k"
      using 2(2) i tier_cap_key [of 0 rates "ccl_key e"] static(2)
      by (auto simp: tier_lease_def tier_free_def)
    then show ?thesis using 2 i unfolding w' r world res
      by (intro exI [of _ "[tier_key (ccl_key e) i, tier_key (ccl_key e) 0]"] exI [of _ "tier_lease e i"])
        (auto simp: tier_pool_def tier_lease_def)
  next
    case 3
    then show ?thesis unfolding w' r world res
      by (intro exI [of _ "[tier_key (ccl_key e) i, tier_key (ccl_key e) 0]"] exI [of _ "[]"])
        (auto simp: tier_pool_def)
  qed
next
  case (4 now m K n w r w')
  then obtain i where "K = tier_lease e i" by blast
  with 4 show ?case
    by (cases n) (auto simp: ccl_api_def tier_lease_def ccl_renewMemberSingle_def ccl_renewMemberDual_def
        renew_result_def single_scripts simpleRenew_pool renew_pool split: if_splits)
next
  case (5 m K n w)
  then obtain i where "K = tier_lease e i" by blast
  then show ?case
    by (cases n) (auto simp: ccl_api_def tier_lease_def single_scripts simpleRelease_pool release_pool)
qed

context static_color_limiter
begin

lemma tier_bound:
  assumes "gateway_reach view (ccl_api R e) s" "i < length rates"
  shows "finite (live_on (whole_seconds (ccl_timeout e)) (abs_pool view s) (tier_key (ccl_key e) i))"
    "int (card (live_on (whole_seconds (ccl_timeout e)) (abs_pool view s) (tier_key (ccl_key e) i))) \<le> rates ! i"
    "int (card (dom (view (server s) (tier_key (ccl_key e) i)))) \<le> rates ! i"
  using color.live_bound [OF assms(1), of "tier_key (ccl_key e) i"]
    color.slots_bound [OF assms(1), of "tier_key (ccl_key e) i"] assms(2) by auto

end

section \<open>Properties\<close>

lemma NewConcurrencyColorLimiterEngine_static:
  assumes "NewConcurrencyColorLimiterEngine False key c per timeout ns = Inr e"
    and "0 < c \<or> per \<noteq> []"
  shows "e = \<lparr>ccl_key = key, ccl_rates = Some (\<lambda>_. Inr (buildTotalPlusPerPriorityLimits c per)),
              ccl_timeout = timeout, ccl_nameSpace = ns, ccl_scripts = True\<rparr>"
    and "buildTotalPlusPerPriorityLimits c per \<noteq> []"
proof -
  show ne: "buildTotalPlusPerPriorityLimits c per \<noteq> []"
    using assms(2) by (auto simp: build_limits_Nil)
  show "e = \<lparr>ccl_key = key, ccl_rates = Some (\<lambda>_. Inr (buildTotalPlusPerPriorityLimits c per)),
              ccl_timeout = timeout, ccl_nameSpace = ns, ccl_scripts = True\<rparr>"
    using assms(1) ne by (simp add: NewConcurrencyColorLimiterEngine_def
        NewConcurrencyColorLimiterEngineWithRatesFunc_def split: if_splits)
qed

lemma NewConcurrencyColorLimiterEngine_locale:
  assumes "redis_zset R view" "NewConcurrencyColorLimiterEngine False key c per timeout ns = Inr e"
    "0 < c \<or> per \<noteq> []" "whole_seconds timeout \<le> 3600"
  shows "static_color_limiter R view e (buildTotalPlusPerPriorityLimits c per)"
  using assms(1,4) NewConcurrencyColorLimiterEngine_static [OF assms(2,3)] build_limits_nonneg
  by (auto simp: static_color_limiter_def static_color_limiter_axioms_def)

text \<open>C4: Whatever the interleaving over any number of gateways, no tier holds more members
  than its limit: tier 0 at most the total (or the sum of the bands without one), each band at
  most its own cap; the same bound holds for the requests with a live lease.\<close>

theorem color_tiers_never_exceeded:
  assumes "redis_zset R view"
    and "NewConcurrencyColorLimiterEngine False key c per timeout ns = Inr e"
    and "0 < c \<or> per \<noteq> []" and "whole_seconds timeout \<le> 3600"
    and "gateway_reach view (ccl_api R e) s"
    and "i < length (buildTotalPlusPerPriorityLimits c per)"
  shows "int (card (dom (view (server s) (tier_key key i)))) \<le> buildTotalPlusPerPriorityLimits c per ! i \<and>
    int (card (live_on (whole_seconds timeout) (abs_pool view s) (tier_key key i)))
           \<le> buildTotalPlusPerPriorityLimits c per ! i"
proof (intro conjI)
  have e: "ccl_key e = key" "ccl_timeout e = timeout"
    using NewConcurrencyColorLimiterEngine_static [OF assms(2,3)] by simp_all
  note b = static_color_limiter.tier_bound
    [OF NewConcurrencyColorLimiterEngine_locale [OF assms(1,2,3,4)] assms(5,6), unfolded e]
  show "int (card (dom (view (server s) (tier_key key i)))) \<le> buildTotalPlusPerPriorityLimits c per ! i"
    by (rule b(3))
  show "int (card (live_on (whole_seconds timeout) (abs_pool view s) (tier_key key i)))
           \<le> buildTotalPlusPerPriorityLimits c per ! i"
    by (rule b(2))
qed

text \<open>A limiter for two bands of two and one requests, total three.\<close>

definition demo_color :: "request color_limiter" where
  "demo_color = \<lparr>ccl_key = ''k'', ccl_rates = Some (\<lambda>_. Inr [3, 2, 1]), ccl_timeout = 120 * second,
     ccl_nameSpace = ''ns'', ccl_scripts = True\<rparr>"

lemma demo_color_new:
  "NewConcurrencyColorLimiterEngine False ''k'' 0 [2, 1] (120 * second) ''ns'' = Inr demo_color"
  "buildTotalPlusPerPriorityLimits 0 [2, 1] = [3, 2, 1]"
  by (simp_all add: NewConcurrencyColorLimiterEngine_def demo_color_def
      NewConcurrencyColorLimiterEngineWithRatesFunc_def buildTotalPlusPerPriorityLimits_def)

lemma whole_120 [simp]: "whole_seconds 120000000000 = 120"
  using whole_seconds_whole [of 120] by simp

interpretation demo_ccl: static_color_limiter ref_zset ref_view demo_color "[3, 2, 1]"
  by unfold_locales (auto simp: demo_color_def)

definition demo_color_state :: "zdb gateways" where
  "demo_color_state = after_allow ref_view (ccl_api ref_zset demo_color)
     \<lparr>req_ctx = setPriorityToContext ''ns'' Map.empty 1\<rparr> ''a'' Delivered demo_start"

lemma demo_color_reach: "gateway_reach ref_view (ccl_api ref_zset demo_color) demo_color_state"
proof -
  have "gateway_reach ref_view (ccl_api ref_zset demo_color) demo_start"
    unfolding demo_start_def by (rule g_start) (simp add: ref_view_def fun_eq_iff)
  then show ?thesis
    unfolding demo_color_state_def
    by (rule g_next [OF _ g_allow]) (simp add: fresh_member_def abs_pool_def demo_start_def ref_view_def)
qed

lemma demo_color_fields [simp]:
  "ccl_key demo_color = ''k''" "ccl_rates demo_color = Some (\<lambda>_. Inr [3, 2, 1])"
  "whole_seconds (ccl_timeout demo_color) = 120" "ccl_nameSpace demo_color = ''ns''" "ccl_scripts demo_color"
  by (simp_all add: demo_color_def)

lemma demo_color_priority:
  "ccl_priority demo_color \<lparr>req_ctx = setPriorityToContext ''ns'' Map.empty 1\<rparr> = 1"
  by (simp add: ccl_priority_def)

lemma demo_color_allow:
  "ccl_allow ref_zset demo_color \<lparr>req_ctx = setPriorityToContext ''ns'' Map.empty 1\<rparr> 1000 ''a'' Delivered (\<lambda>_. [])
   = ((Some [tier_key ''k'' (Suc 0), tier_key ''k'' 0], 1, None),
      (\<lambda>_. [])(tier_key ''k'' (Suc 0) := [(''a'', 1000)], tier_key ''k'' 0 := [(''a'', 1000)]))"
proof -
  have t: "color_tier (Suc (Suc (Suc 0))) 1 = Suc 0" by (simp add: color_tier_def)
  have "acquireLuaScript ref_zset (tier_key ''k'' (Suc 0)) (tier_key ''k'' 0) 2 3 1000 880 ''a'' 1 (\<lambda>_. []) =
    ([1, 1, 1], (\<lambda>_. [])(tier_key ''k'' (Suc 0) := [(''a'', 1000)], tier_key ''k'' 0 := [(''a'', 1000)]))"
    by (simp add: acquireLuaScript_def ref_zset_def fun_eq_iff)
  then show ?thesis
    by (simp add: ccl_allow_def demo_color_priority t Let_def)
qed

lemma demo_color_slots:
  "server demo_color_state = (\<lambda>_. [])(tier_key ''k'' (Suc 0) := [(''a'', 1000)], tier_key ''k'' 0 := [(''a'', 1000)])"
  by (simp add: demo_color_state_def after_allow_def demo_start_def ccl_api_def demo_color_allow)

theorem color_tiers_never_exceeded_witness:
  "ref_view (server demo_color_state) (tier_key ''k'' 1) ''a'' = Some 1000 \<and>
   int (card (dom (ref_view (server demo_color_state) (tier_key ''k'' 1)))) \<le> 2"
  using color_tiers_never_exceeded [THEN conjunct1, OF ref.redis_zset_axioms demo_color_new(1) _ _ demo_color_reach, of 1]
  by (simp add: demo_color_new(2) demo_color_slots ref_view_def del: dec_nat_inject)

text \<open>A sequence of requests, each with its time and member id.\<close>

fun allow_all ::
  "'w zset_ops \<Rightarrow> 'z request_scheme color_limiter \<Rightarrow> ('z request_scheme \<times> int \<times> string) list \<Rightarrow> 'w
    \<Rightarrow> (string list option \<times> int \<times> err option) list \<times> 'w" where
  "allow_all R e [] w = ([], w)"
| "allow_all R e ((req, now, m) # rs) w =
     (let (r, w1) = ccl_allow R e req now m Delivered w; (out, w2) = allow_all R e rs w1
      in (r # out, w2))"

context static_color_limiter
begin

abbreviation count0 :: "'w \<Rightarrow> int" where
  "count0 w \<equiv> int (card (dom (view w (tier_key (ccl_key e) 0))))"

lemma tier_pool_count0:
  "int (card (dom (tier_pool view e now i w (tier_key (ccl_key e) 0)))) \<le> count0 w"
  by (simp add: tier_pool_def card_purge)

lemma high_priority_admitted:
  assumes "int (length rates) - 1 \<le> ccl_priority e req" "count0 w < rates ! 0"
  shows "fst (ccl_allow R e req now m Delivered w)
           = (Some [tier_key (ccl_key e) 0], ccl_priority e req, None)"
    and "count0 (snd (ccl_allow R e req now m Delivered w)) \<le> count0 w + 1"
proof -
  let ?k = "tier_key (ccl_key e) 0"
  have t: "color_tier (length rates) (ccl_priority e req) = 0"
    using assms(1) by (simp add: color_tier_def)
  have f: "tier_free view e rates now 0 w"
    using tier_pool_count0 [of now 0 w] assms(2) by (simp add: tier_free_def)
  show "fst (ccl_allow R e req now m Delivered w) = (Some [?k], ccl_priority e req, None)"
    using f by (simp add: ccl_allow_result [OF static(1) refl static(2,3)] t tier_lease_def)
  have "finite (dom (tier_pool view e now 0 w ?k))"
    by (simp add: tier_pool_def finite_purge)
  then show "count0 (snd (ccl_allow R e req now m Delivered w)) \<le> count0 w + 1"
    using f tier_pool_count0 [of now 0 w]
    by (simp add: ccl_allow_world [OF static(1) refl static(2,3)] t tier_lease_def dom_enter card_insert_if)
qed

lemma low_priority_leaves_room:
  assumes "ccl_allow R e req now m Delivered w = ((Some K, p, None), w')"
  shows "count0 w' \<le> rates ! 0 - int (color_tier (length rates) (ccl_priority e req)) + (if K = [] then 1 else 0)"
proof -
  let ?k = "tier_key (ccl_key e) 0" and ?i = "color_tier (length rates) (ccl_priority e req)"
  have f: "tier_free view e rates now ?i w"
    using assms ccl_allow_result [OF static(1) refl static(2,3), of req now m Delivered w]
    by (simp split: if_splits)
  have "finite (dom (tier_pool view e now ?i w ?k))"
    by (simp add: tier_pool_def finite_purge)
  then show ?thesis
    using f assms ccl_allow_world [OF static(1) refl static(2,3), of req now m Delivered w]
    by (simp add: tier_lease_def dom_enter card_insert_if tier_free_def split: if_splits)
qed

lemma high_priority_sequence:
  assumes "\<forall>(r, t, m)\<in>set rs. int (length rates) - 1 \<le> ccl_priority e r"
    and "count0 w + int (length rs) \<le> rates ! 0"
  shows "\<forall>(lease, p, er)\<in>set (fst (allow_all R e rs w)). er = None"
  using assms
proof (induction rs arbitrary: w)
  case (Cons a rs)
  obtain r t m where a: "a = (r, t, m)" by (cases a)
  let ?w1 = "snd (ccl_allow R e r t m Delivered w)"
  have h: "int (length rates) - 1 \<le> ccl_priority e r" "count0 w < rates ! 0"
    using Cons.prems by (simp_all add: a)
  have "count0 ?w1 + int (length rs) \<le> rates ! 0"
    using high_priority_admitted(2) [OF h, of t m] Cons.prems(2) by simp
  with Cons.IH [of ?w1] Cons.prems(1)
  have "\<forall>(lease, p, er)\<in>set (fst (allow_all R e rs ?w1)). er = None" by (simp add: a)
  then show ?case
    using high_priority_admitted(1) [OF h, of t m] by (auto simp: a split: prod.splits)
qed simp

end

text \<open>C5: Reservation. When a request of tier \<open>i\<close> has just been admitted, the next \<open>i\<close> requests
  of the highest priority are all admitted too, whatever their times: a lower band never takes
  the slots of tier 0 kept for the bands above it.\<close>

theorem reservation_for_higher_priority:
  assumes "redis_zset R view"
    and "NewConcurrencyColorLimiterEngine False key c per timeout ns = Inr e"
    and "0 < c \<or> per \<noteq> []" and "whole_seconds timeout \<le> 3600"
    and "ccl_allow R e req now m Delivered w = ((Some K, p, None), w')"
    and "int (length rs) \<le> int (color_tier (length (buildTotalPlusPerPriorityLimits c per)) (ccl_priority e req))"
    and "\<forall>(r, t, m)\<in>set rs. int (length (buildTotalPlusPerPriorityLimits c per)) - 1 \<le> ccl_priority e r"
  shows "list_all (\<lambda>(lease, p, er). er = None) (fst (allow_all R e rs w'))"
proof -
  note s = NewConcurrencyColorLimiterEngine_locale [OF assms(1,2,3,4)]
  have "K \<noteq> []"
    using assms(5) static_color_limiter.static [OF s]
    by (auto simp: ccl_allow_def Let_def split: prod.splits sum.splits if_splits)
  with static_color_limiter.low_priority_leaves_room [OF s assms(5)] assms(6)
  show ?thesis unfolding list_all_iff
    by (intro static_color_limiter.high_priority_sequence [OF s assms(7)]) simp
qed

theorem reservation_for_higher_priority_witness:
  "list_all (\<lambda>(lease, p, er). er = None) (fst (allow_all ref_zset demo_color
      [(\<lparr>req_ctx = setPriorityToContext ''ns'' Map.empty 7\<rparr>, 1001, ''b'')] (server demo_color_state)))"
  using reservation_for_higher_priority [OF ref.redis_zset_axioms demo_color_new(1) _ _ demo_color_allow,
      of "[(\<lparr>req_ctx = setPriorityToContext ''ns'' Map.empty 7\<rparr>, 1001, ''b'')]"]
  by (simp add: demo_color_new(2) demo_color_priority demo_color_slots color_tier_def ccl_priority_def
      del: allow_all.simps)

text \<open>\<open>Process\<close> records the decision in the metadata before anyone else sees the request: a
  rate-limited request is recorded as denied with the priority it was judged at and never
  reaches the next engine, other failures record nothing, and an admitted request reaches the
  next engine with its priority recorded as allowed. A lease is given up exactly once: on
  return, or as the last callback of the response's close.\<close>

theorem ccl_process_records_and_releases:
  assumes R: "redis_zset R view"
    and e: "ccl_rates e = Some (\<lambda>_. Inr rates)" "rates \<noteq> []" "ccl_scripts e"
    and proc: "ccl_process R e now m n1 Delivered next req w = ((resp, er), w')"
  shows "case ccl_allow R e req now m n1 (cw_redis w) of
     ((lease, p, Some x), r1) \<Rightarrow> resp = None \<and> er = Some x \<and> cw_redis w' = r1 \<and>
        (if x = ErrRateLimitReached
         then GetLimiterPriority (Some (cw_meta w')) = Some p \<and>
              GetLimiterAction (Some (cw_meta w')) = Some ColorActionDeny
         else cw_meta w' = cw_meta w)
   | ((lease, p, None), r1) \<Rightarrow>
        (\<exists>K w1. lease = Some K \<and> cw_redis w1 = r1 \<and> er = snd (fst (next req w1)) \<and>
           GetLimiterPriority (Some (cw_meta w1)) = Some p \<and>
           GetLimiterAction (Some (cw_meta w1)) = Some ColorActionAllow \<and>
           ((\<forall>k\<in>set K. m \<notin> dom (view (cw_redis w') k)) \<and> resp = fst (fst (next req w1)) \<or>
            w' = snd (next req w1) \<and> er = None \<and>
            (\<exists>r. resp = Some r \<and> last (response_closers r) = ReleaseLease m K \<and>
               (\<forall>k\<in>set K. m \<notin> dom (view (run_closers (\<lambda>m K. ccl_done R m K Delivered)
                   (response_closers r) (cw_redis w')) k)))))"
proof -
  note pools = redis_zset.release_pool [OF R] redis_zset.simpleRelease_pool [OF R]
  define i where "i = color_tier (length rates) (ccl_priority e req)"
  note res = redis_zset.ccl_allow_result [OF R e(1) refl e(2,3), of req now m n1 "cw_redis w", folded i_def]
  obtain lease p x r1 where a: "ccl_allow R e req now m n1 (cw_redis w) = ((lease, p, x), r1)"
    by (metis surj_pair)
  show ?thesis
  proof (cases x)
    case (Some y)
    then have "y = ErrRateLimitReached \<or> y = Wrap ''acquire script error'' [Plain ''redis: connection error'']"
      using res a by (auto split: if_splits)
    then show ?thesis using proc a Some by (auto simp: ccl_process_def)
  next
    case None
    then have lease: "lease = Some (tier_lease e i)" using res a by (auto split: if_splits)
    define w1 where "w1 = with_color recordLimiterAllow p (w\<lparr>cw_redis := r1\<rparr>)"
    obtain resp2 er2 w2 where nx: "next req w1 = ((resp2, er2), w2)" by (metis surj_pair)
    have gone: "k \<in> set (tier_lease e i) \<Longrightarrow> view (ccl_done R m (tier_lease e i) Delivered v) k m = None" for k v
      by (auto simp: tier_lease_def pools single_scripts leave_def split: if_splits)
    have "settle (Some (m, tier_lease e i))
        (\<lambda>w. w\<lparr>cw_redis := ccl_done R m (tier_lease e i) Delivered (cw_redis w)\<rparr>) (resp2, er2) w2 = ((resp, er), w')"
      using proc a None lease nx by (simp add: ccl_process_def w1_def)
    from settle_once [OF this] have
      "er = er2 \<and> (resp = resp2 \<and> (\<forall>k\<in>set (tier_lease e i). m \<notin> dom (view (cw_redis w') k)) \<or>
        w' = w2 \<and> er = None \<and> (\<exists>r. resp = Some r \<and> last (response_closers r) = ReleaseLease m (tier_lease e i) \<and>
           (\<forall>k\<in>set (tier_lease e i). m \<notin> dom (view (run_closers (\<lambda>m K. ccl_done R m K Delivered)
                   (response_closers r) (cw_redis w')) k))))"
      by (auto simp: release_action_def run_closers_def gone)
    moreover have "cw_redis w1 = r1" "GetLimiterPriority (Some (cw_meta w1)) = Some p"
      "GetLimiterAction (Some (cw_meta w1)) = Some ColorActionAllow"
      by (simp_all add: w1_def)
    ultimately show ?thesis
      unfolding a None lease prod.case option.case
      by (intro exI [of _ "tier_lease e i"] exI [of _ w1]) (auto simp: nx)
  qed
qed

theorem ccl_process_records_and_releases_witness:
  "case ccl_process ref_zset demo_color 1000 ''a'' Delivered Delivered
      (\<lambda>_ w. ((None :: (unit, unit) response option, Some (Plain ''upstream'')), w))
      \<lparr>req_ctx = setPriorityToContext ''ns'' Map.empty 1\<rparr> \<lparr>cw_redis = (\<lambda>_. []), cw_meta = None\<rparr> of
     ((resp, er), w') \<Rightarrow> er = Some (Plain ''upstream'') \<and>
        ''a'' \<notin> dom (ref_view (cw_redis w') (tier_key ''k'' 0))"
proof -
  let ?next = "\<lambda>_ w. ((None :: (unit, unit) response option, Some (Plain ''upstream'')), w)"
  let ?req = "\<lparr>req_ctx = setPriorityToContext ''ns'' Map.empty 1\<rparr>"
  let ?w = "\<lparr>cw_redis = (\<lambda>_. []), cw_meta = None\<rparr> :: zdb color_world"
  obtain resp er w' where p: "ccl_process ref_zset demo_color 1000 ''a'' Delivered Delivered ?next ?req ?w
      = ((resp, er), w')" by (metis surj_pair)
  show ?thesis
    using ccl_process_records_and_releases [OF ref.redis_zset_axioms demo_color_fields(2) _ demo_color_fields(5) p]
    by (auto simp: p demo_color_allow)
qed

end
