(* ===== verification/ConcurrencyColorMarker.thy ===== *)
theory ConcurrencyColorMarker
  imports ConcurrencyColorLimiter
begin

text \<open>
  \<open>pkg/engines/limiter/concurrency_color_marker.go\<close>: a request takes a slot in the first
  tier with free capacity and is marked with the priority of that tier; it is refused when
  every tier is full.
\<close>

section \<open>Scripts\<close>

text \<open>The first loop of the acquire script: purge each tier's set, then count it.\<close>

fun snapshot_counts :: "'w zset_ops \<Rightarrow> int \<Rightarrow> string list \<Rightarrow> 'w \<Rightarrow> int list \<times> 'w" where
  "snapshot_counts R expireBefore [] w = ([], w)"
| "snapshot_counts R expireBefore (key # keys) w =
     (let w1 = ZREMRANGEBYSCORE R key 0 expireBefore w;
          c = ZCARD R key w1;
          (cs, w2) = snapshot_counts R expireBefore keys w1
      in (c # cs, w2))"

text \<open>The second loop, with indices from 0.\<close>

fun find_tier :: "int list \<Rightarrow> int list \<Rightarrow> nat option" where
  "find_tier (l # limits) (c # counts) =
     (if 0 < l \<and> c < l then Some 0 else map_option Suc (find_tier limits counts))"
| "find_tier _ _ = None"

definition concurrencyColorMarkerAquireLuaScript ::
  "'w zset_ops \<Rightarrow> string list \<Rightarrow> int list \<Rightarrow> int \<Rightarrow> int \<Rightarrow> string \<Rightarrow> 'w \<Rightarrow> (int \<times> int list) \<times> 'w" where
  "concurrencyColorMarkerAquireLuaScript R keys limits nowUnix expireBefore memberID w =
     (let (counts, w1) = snapshot_counts R expireBefore keys w
      in case find_tier limits counts of
           None \<Rightarrow> ((0, counts), w1)
         | Some i \<Rightarrow>
             ((int (length limits) - int i, counts[i := counts ! i + 1]),
              EXPIRE R (keys ! i) 3600 (ZADD R (keys ! i) nowUnix memberID w1)))"

definition concurrencyColorMarkerReleaseLuaScript ::
  "'w zset_ops \<Rightarrow> string list \<Rightarrow> string \<Rightarrow> 'w \<Rightarrow> int list \<times> 'w" where
  "concurrencyColorMarkerReleaseLuaScript R keys memberID w =
     ([1], fold (\<lambda>k. ZREM R k memberID) keys w)"

definition concurrencyColorMarkerRenewLuaScript ::
  "'w zset_ops \<Rightarrow> string list \<Rightarrow> int \<Rightarrow> string \<Rightarrow> 'w \<Rightarrow> int list \<times> 'w" where
  "concurrencyColorMarkerRenewLuaScript R keys nowUnix memberID w =
     (if list_ex (\<lambda>k. ZSCORE R k memberID w = None) keys then ([0], w)
      else ([1], fold (\<lambda>k w. EXPIRE R k 3600 (ZADD R k nowUnix memberID w)) keys w))"

section \<open>The engine\<close>

record color_marker =
  ccm_key :: string
  ccm_rates :: "int list"
  ccm_timeout :: int
  ccm_nameSpace :: string
  ccm_scripts :: bool

definition NewConcurrencyColorMarkerEngine ::
  "string \<Rightarrow> int list \<Rightarrow> int \<Rightarrow> string \<Rightarrow> err + color_marker" where
  "NewConcurrencyColorMarkerEngine key rates timeout nameSpace =
     (let disabled = \<lparr>ccm_key = key, ccm_rates = [], ccm_timeout = timeout,
                      ccm_nameSpace = nameSpace, ccm_scripts = False\<rparr>
      in if rates = [] then Inr disabled
         else if timeout \<le> 0 then Inl (Plain ''timeout must be positive'')
         else let (normalizedRates, normalized) = normalizeConcurrencyMarkerRates rates
              in if normalizedRates = [] then Inr disabled
                 else Inr \<lparr>ccm_key = key, ccm_rates = normalizedRates, ccm_timeout = timeout,
                           ccm_nameSpace = nameSpace, ccm_scripts = True\<rparr>)"

text \<open>The context, the keys \<open>done\<close> releases, the error and the priority. The reply of the
  acquire script always has its two parts.\<close>

definition ccm_allow ::
  "'w zset_ops \<Rightarrow> color_marker \<Rightarrow> ctx \<Rightarrow> int \<Rightarrow> string \<Rightarrow> net \<Rightarrow> 'w
    \<Rightarrow> (ctx \<times> string list option \<times> err option \<times> int) \<times> 'w" where
  "ccm_allow R e c nowUnix memberID n w =
     (if ccm_rates e = [] \<or> \<not> ccm_scripts e then ((c, None, None, 0), w)
      else
        let expireBefore = nowUnix - whole_seconds (ccm_timeout e);
            numTiers = length (ccm_rates e);
            keys = map (tier_key (ccm_key e)) [0..<numTiers];
            (res, w') = run_script n
              (concurrencyColorMarkerAquireLuaScript R keys (ccm_rates e) nowUnix expireBefore memberID) w
        in case res of
             Inl er \<Rightarrow> ((c, None, Some (Wrap ''acquire script error'' [er]), 0), w')
           | Inr (acquired, counts) \<Rightarrow>
               if acquired = 0 then ((c, None, Some ErrRateLimitReached, 0), w')
               else let priority = acquired - 1;
                        acquiredTierIdx = nat (int numTiers - 1 - priority)
                    in ((setPriorityToContext (ccm_nameSpace e) c priority,
                         Some [keys ! acquiredTierIdx], None, priority), w'))"

definition ccm_done :: "'w zset_ops \<Rightarrow> string \<Rightarrow> string list \<Rightarrow> net \<Rightarrow> 'w \<Rightarrow> 'w" where
  "ccm_done R memberID keys n w =
     snd (run_script n (concurrencyColorMarkerReleaseLuaScript R keys memberID) w)"

definition ccm_renewMember ::
  "'w zset_ops \<Rightarrow> int \<Rightarrow> string \<Rightarrow> string list \<Rightarrow> net \<Rightarrow> 'w \<Rightarrow> renew_outcome \<times> 'w" where
  "ccm_renewMember R nowUnix memberID keys n w =
     renew_result (run_script n (concurrencyColorMarkerRenewLuaScript R keys nowUnix memberID) w)"

definition ccm_process ::
  "'w zset_ops \<Rightarrow> color_marker \<Rightarrow> int \<Rightarrow> string \<Rightarrow> net \<Rightarrow> net
    \<Rightarrow> ('w color_world, 'z request_scheme, ('b, 's) response) engine
    \<Rightarrow> ('w color_world, 'z request_scheme, ('b, 's) response) engine" where
  "ccm_process R e nowUnix memberID n1 n2 next req w =
     (let ((newCtx, lease, er, priority), r1) =
            ccm_allow R e (req_ctx req) nowUnix memberID n1 (cw_redis w);
          w1 = w\<lparr>cw_redis := r1\<rparr>
      in case er of
           Some er \<Rightarrow>
             ((None, Some er),
              if errors_is er ''ErrRateLimitReached'' then with_color recordMarkerDeny priority w1 else w1)
         | None \<Rightarrow>
             (let (out, w2) = next (WithContext req newCtx) (with_color recordMarkerAllow priority w1)
              in settle (map_option (Pair memberID) lease)
                   (\<lambda>w. case lease of None \<Rightarrow> w
                        | Some K \<Rightarrow> w\<lparr>cw_redis := ccm_done R memberID K n2 (cw_redis w)\<rparr>) out w2))"

section \<open>What the scripts do to the pool\<close>

lemma find_tier_Some:
  "find_tier limits counts = Some i \<Longrightarrow>
     i < length limits \<and> i < length counts \<and> 0 < limits ! i \<and> counts ! i < limits ! i \<and>
     (\<forall>j<i. \<not> (0 < limits ! j \<and> counts ! j < limits ! j))"
proof (induction limits counts arbitrary: i rule: find_tier.induct)
  case (1 l limits c counts)
  then show ?case by (auto simp: less_Suc_eq_0_disj nth_Cons' split: if_splits)
qed auto

lemma find_tier_None:
  "find_tier limits counts = None \<Longrightarrow> i < length limits \<Longrightarrow> i < length counts \<Longrightarrow>
     \<not> (0 < limits ! i \<and> counts ! i < limits ! i)"
  by (induction limits counts arbitrary: i rule: find_tier.induct)
    (auto simp: nth_Cons' split: if_splits)

context redis_zset
begin

lemma snapshot_pool: "view (snd (snapshot_counts R eb keys w)) = purge eb keys (view w)"
proof (induction keys arbitrary: w)
  case (Cons k keys)
  then show ?case by (simp add: Let_def view_simps case_prod_beta purge_Cons)
qed simp

lemma snapshot_counts_view:
  "distinct keys \<Longrightarrow>
     fst (snapshot_counts R eb keys w) = map (\<lambda>k. int (card (dom (purge eb keys (view w) k)))) keys"
proof (induction keys arbitrary: w)
  case (Cons k keys)
  have "purge eb [k] (view w) k = purge eb (k # keys) (view w) k"
    by (simp add: purge_def)
  with Cons show ?case by (simp add: Let_def view_simps case_prod_beta purge_Cons)
qed simp

lemma marker_release_pool:
  "view (snd (concurrencyColorMarkerReleaseLuaScript R keys m w)) = leave keys m (view w)"
proof -
  have "view (fold (\<lambda>k. ZREM R k m) ks w) = leave ks m (view w)" for ks
  proof (induction ks arbitrary: w)
    case (Cons k ks)
    have "leave ks m (leave [k] m P) = leave (k # ks) m P" for P
      by (auto simp: leave_leave intro: leave_cong)
    with Cons show ?case by (simp add: view_simps)
  qed (simp add: leave_def)
  then show ?thesis by (simp add: concurrencyColorMarkerReleaseLuaScript_def)
qed

lemma marker_renew_pool:
  "view (snd (concurrencyColorMarkerRenewLuaScript R keys now m w)) =
     (if \<forall>k\<in>set keys. m \<in> dom (view w k) then enter now keys m (view w) else view w)"
  "fst (concurrencyColorMarkerRenewLuaScript R keys now m w) =
     (if \<forall>k\<in>set keys. m \<in> dom (view w k) then [1] else [0])"
proof -
  have "view (fold (\<lambda>k w. EXPIRE R k 3600 (ZADD R k now m w)) ks v) = enter now ks m (view v)" for ks v
  proof (induction ks arbitrary: v)
    case (Cons k ks)
    have "enter now ks m (enter now [k] m P) = enter now (k # ks) m P" for P
      by (auto simp: enter_enter intro: enter_cong)
    with Cons show ?case by (simp add: view_simps)
  qed simp
  then show "view (snd (concurrencyColorMarkerRenewLuaScript R keys now m w)) =
     (if \<forall>k\<in>set keys. m \<in> dom (view w k) then enter now keys m (view w) else view w)"
    by (auto simp: concurrencyColorMarkerRenewLuaScript_def view_simps list_ex_iff domIff)
  show "fst (concurrencyColorMarkerRenewLuaScript R keys now m w) =
     (if \<forall>k\<in>set keys. m \<in> dom (view w k) then [1] else [0])"
    by (auto simp: concurrencyColorMarkerRenewLuaScript_def view_simps list_ex_iff domIff)
qed

end

text \<open>The sets after the purge and the tier the script chooses.\<close>

definition marker_pool :: "('w \<Rightarrow> pool) \<Rightarrow> color_marker \<Rightarrow> int \<Rightarrow> 'w \<Rightarrow> pool" where
  "marker_pool view e now w =
     purge (now - whole_seconds (ccm_timeout e)) (map (tier_key (ccm_key e)) [0..<length (ccm_rates e)]) (view w)"

definition marker_count :: "('w \<Rightarrow> pool) \<Rightarrow> color_marker \<Rightarrow> int \<Rightarrow> 'w \<Rightarrow> nat \<Rightarrow> int" where
  "marker_count view e now w i = int (card (dom (marker_pool view e now w (tier_key (ccm_key e) i))))"

definition marker_tier :: "('w \<Rightarrow> pool) \<Rightarrow> color_marker \<Rightarrow> int \<Rightarrow> 'w \<Rightarrow> nat option" where
  "marker_tier view e now w =
     find_tier (ccm_rates e) (map (marker_count view e now w) [0..<length (ccm_rates e)])"

lemma marker_tier_Some:
  assumes "marker_tier view e now w = Some i"
  shows "i < length (ccm_rates e)" "0 < ccm_rates e ! i" "marker_count view e now w i < ccm_rates e ! i"
    "j < i \<Longrightarrow> \<not> (0 < ccm_rates e ! j \<and> marker_count view e now w j < ccm_rates e ! j)"
  using find_tier_Some [OF assms [unfolded marker_tier_def]] by auto

lemma marker_tier_None:
  "marker_tier view e now w = None \<Longrightarrow> i < length (ccm_rates e) \<Longrightarrow>
     \<not> (0 < ccm_rates e ! i \<and> marker_count view e now w i < ccm_rates e ! i)"
  using find_tier_None [of "ccm_rates e" "map (marker_count view e now w) [0..<length (ccm_rates e)]" i]
  by (auto simp: marker_tier_def)

lemma marker_count_nonneg: "0 \<le> marker_count view e now w i"
  by (simp add: marker_count_def)

context redis_zset
begin

lemma marker_script:
  fixes e :: color_marker and now :: int
  defines "keys \<equiv> map (tier_key (ccm_key e)) [0..<length (ccm_rates e)]"
    and "eb \<equiv> now - whole_seconds (ccm_timeout e)"
  shows "view (snd (concurrencyColorMarkerAquireLuaScript R keys (ccm_rates e) now eb m w)) =
      (case marker_tier view e now w of None \<Rightarrow> marker_pool view e now w
       | Some i \<Rightarrow> enter now [tier_key (ccm_key e) i] m (marker_pool view e now w))"
    and "fst (fst (concurrencyColorMarkerAquireLuaScript R keys (ccm_rates e) now eb m w)) =
      (case marker_tier view e now w of None \<Rightarrow> 0 | Some i \<Rightarrow> int (length (ccm_rates e)) - int i)"
proof -
  have d: "distinct keys" by (simp add: keys_def distinct_map inj_on_def)
  obtain cs w1 where sn: "snapshot_counts R eb keys w = (cs, w1)" by fastforce
  have cs: "cs = map (marker_count view e now w) [0..<length (ccm_rates e)]"
    using snapshot_counts_view [OF d, of eb w] sn
    by (simp add: marker_count_def [abs_def] marker_pool_def keys_def [symmetric] eb_def [symmetric])
       (simp add: keys_def comp_def)
  have w1: "view w1 = marker_pool view e now w"
    using snapshot_pool [of eb keys w] sn by (simp add: marker_pool_def keys_def eb_def)
  have key: "keys ! i = tier_key (ccm_key e) i" if "i < length (ccm_rates e)" for i
    using that by (simp add: keys_def)
  have i: "i < length (ccm_rates e)" if "marker_tier view e now w = Some i" for i
    using marker_tier_Some(1) [OF that] .
  show "view (snd (concurrencyColorMarkerAquireLuaScript R keys (ccm_rates e) now eb m w)) =
      (case marker_tier view e now w of None \<Rightarrow> marker_pool view e now w
       | Some i \<Rightarrow> enter now [tier_key (ccm_key e) i] m (marker_pool view e now w))"
    using i by (auto simp: concurrencyColorMarkerAquireLuaScript_def sn cs marker_tier_def [symmetric] view_simps
        w1 key split: option.splits)
  show "fst (fst (concurrencyColorMarkerAquireLuaScript R keys (ccm_rates e) now eb m w)) =
      (case marker_tier view e now w of None \<Rightarrow> 0 | Some i \<Rightarrow> int (length (ccm_rates e)) - int i)"
    by (auto simp: concurrencyColorMarkerAquireLuaScript_def sn cs marker_tier_def [symmetric] split: option.splits)
qed

lemma ccm_allow_world:
  assumes "ccm_rates e \<noteq> []" "ccm_scripts e"
  shows "view (snd (ccm_allow R e c now m n w)) =
     (if n = LostRequest then view w
      else case marker_tier view e now w of
             None \<Rightarrow> marker_pool view e now w
           | Some i \<Rightarrow> enter now [tier_key (ccm_key e) i] m (marker_pool view e now w))"
  using assms by (cases n) (auto simp: ccm_allow_def Let_def marker_script case_prod_beta)

lemma ccm_allow_result:
  assumes "ccm_rates e \<noteq> []" "ccm_scripts e"
  shows "fst (ccm_allow R e c now m n w) =
     (if n \<noteq> Delivered
      then (c, None, Some (Wrap ''acquire script error'' [Plain ''redis: connection error'']), 0)
      else case marker_tier view e now w of
             None \<Rightarrow> (c, None, Some ErrRateLimitReached, 0)
           | Some i \<Rightarrow>
               (let p = int (length (ccm_rates e)) - 1 - int i
                in (setPriorityToContext (ccm_nameSpace e) c p, Some [tier_key (ccm_key e) i], None, p)))"
  using assms marker_tier_Some(1) [of view e now w]
  by (cases n) (auto simp: ccm_allow_def Let_def marker_script case_prod_beta algebra_simps split: option.splits)

end

section \<open>The engine as a lease engine\<close>

definition ccm_api :: "'w zset_ops \<Rightarrow> color_marker \<Rightarrow> (ctx, 'w) lease_api" where
  "ccm_api R e = \<lparr>
     api_allow = (\<lambda>c now m n w.
       (case ccm_allow R e c now m n w of
          ((c', lease, er, p), w') \<Rightarrow> ((case er of Some x \<Rightarrow> Inl x | None \<Rightarrow> Inr lease), w'))),
     api_renew = (\<lambda>now m K. ccm_renewMember R now m K),
     api_done = (\<lambda>m K. ccm_done R m K)\<rparr>"

locale enabled_marker = redis_zset R view
  for R :: "'w zset_ops" and view :: "'w \<Rightarrow> pool" +
  fixes e :: color_marker
  assumes enabled: "ccm_rates e \<noteq> []" "ccm_scripts e"
    and caps: "\<And>x. x \<in> set (ccm_rates e) \<Longrightarrow> 0 \<le> x"
    and timeout: "whole_seconds (ccm_timeout e) \<le> 3600"

sublocale enabled_marker \<subseteq> marker: lease_engine R view "ccm_api R e"
    "tier_cap (ccm_key e) (ccm_rates e)" "whole_seconds (ccm_timeout e)"
    "\<lambda>K. \<exists>i<length (ccm_rates e). K = [tier_key (ccm_key e) i]"
proof (unfold_locales, goal_cases)
  case (1 k)
  then show ?case using caps by (rule tier_cap_nonneg)
next
  case 2
  then show ?case by (rule timeout)
next
  case (3 c now m n w r w')
  let ?A = "map (tier_key (ccm_key e)) [0..<length (ccm_rates e)]"
  note world = ccm_allow_world [OF enabled, of c now m n w]
    and res = ccm_allow_result [OF enabled, of c now m n w]
  have w': "w' = snd (ccm_allow R e c now m n w)"
    and r: "r = (case fst (ccm_allow R e c now m n w) of (c', lease, er, p) \<Rightarrow>
      (case er of Some x \<Rightarrow> Inl x | None \<Rightarrow> Inr lease))"
    using 3 by (auto simp: ccm_api_def split: prod.splits)
  consider "n = LostRequest" | "n \<noteq> LostRequest" "marker_tier view e now w = None"
    | i where "n \<noteq> LostRequest" "marker_tier view e now w = Some i" by blast
  then show ?case
  proof cases
    case 1
    then show ?thesis unfolding w' r world res by (intro exI [of _ "[]"]) simp
  next
    case 2
    then show ?thesis unfolding w' r world res
      by (intro exI [of _ ?A] exI [of _ "[]"]) (auto simp: marker_pool_def)
  next
    case (3 i)
    note i = marker_tier_Some [OF 3(2)]
    then have "int (card (dom (marker_pool view e now w (tier_key (ccm_key e) i))))
        < tier_cap (ccm_key e) (ccm_rates e) (tier_key (ccm_key e) i)"
      by (simp add: marker_count_def)
    then show ?thesis using 3 i unfolding w' r world res
      by (intro exI [of _ ?A] exI [of _ "[tier_key (ccm_key e) i]"])
        (auto simp: marker_pool_def Let_def)
  qed
next
  case (4 now m K n w r w')
  then show ?case
    by (cases n) (auto simp: ccm_api_def ccm_renewMember_def renew_result_def marker_renew_pool
        split: if_splits)
next
  case (5 m K n w)
  then show ?case by (cases n) (auto simp: ccm_api_def ccm_done_def marker_release_pool)
qed

context enabled_marker
begin

lemma marker_bound:
  assumes "gateway_reach view (ccm_api R e) s" "i < length (ccm_rates e)"
  shows "int (card (live_on (whole_seconds (ccm_timeout e)) (abs_pool view s) (tier_key (ccm_key e) i)))
           \<le> ccm_rates e ! i"
    "int (card (dom (view (server s) (tier_key (ccm_key e) i)))) \<le> ccm_rates e ! i"
  using marker.live_bound [OF assms(1), of "tier_key (ccm_key e) i"]
    marker.slots_bound [OF assms(1), of "tier_key (ccm_key e) i"] assms(2) by auto

lemma marker_total:
  assumes "gateway_reach view (ccm_api R e) s"
  shows "(\<Sum>i<length (ccm_rates e). int (card (dom (view (server s) (tier_key (ccm_key e) i)))))
           \<le> sum_list (ccm_rates e)"
proof -
  have "(\<Sum>i<length (ccm_rates e). int (card (dom (view (server s) (tier_key (ccm_key e) i)))))
      \<le> (\<Sum>i<length (ccm_rates e). ccm_rates e ! i)"
    by (rule sum_mono) (use marker_bound(2) [OF assms] in simp)
  then show ?thesis by (simp add: sum_list_sum_nth atLeast0LessThan)
qed

end

section \<open>Properties\<close>

lemma NewConcurrencyColorMarkerEngine_enabled:
  assumes "NewConcurrencyColorMarkerEngine key rates timeout ns = Inr e" "rates \<noteq> []"
  shows "e = \<lparr>ccm_key = key, ccm_rates = map (\<lambda>v. if v < 0 then 0 else v) rates, ccm_timeout = timeout,
              ccm_nameSpace = ns, ccm_scripts = True\<rparr>"
  using assms by (auto simp: NewConcurrencyColorMarkerEngine_def normalizeConcurrencyMarkerRates_def Let_def
      split: if_splits)

lemma NewConcurrencyColorMarkerEngine_locale:
  assumes "redis_zset R view" "NewConcurrencyColorMarkerEngine key rates timeout ns = Inr e" "rates \<noteq> []"
    "whole_seconds timeout \<le> 3600"
  shows "enabled_marker R view e"
  using assms(1,3,4) NewConcurrencyColorMarkerEngine_enabled [OF assms(2,3)]
  by (auto simp: enabled_marker_def enabled_marker_axioms_def)

text \<open>C6: Over any number of gateways, each band of a marker holds at most its own cap, and
  all of them together at most the sum of the (clamped) rates.\<close>

theorem marker_bands_never_exceeded:
  assumes "redis_zset R view"
    and "NewConcurrencyColorMarkerEngine key rates timeout ns = Inr e" and "rates \<noteq> []"
    and "whole_seconds timeout \<le> 3600"
    and "gateway_reach view (ccm_api R e) s"
  shows "(\<forall>i<length rates. int (card (dom (view (server s) (tier_key key i)))) \<le> max 0 (rates ! i)) \<and>
    (\<Sum>i<length rates. int (card (dom (view (server s) (tier_key key i)))))
           \<le> sum_list (map (max 0) rates)"
proof (intro conjI)
  note L = NewConcurrencyColorMarkerEngine_locale [OF assms(1-4)]
  have e: "ccm_key e = key" "ccm_rates e = map (max 0) rates"
    using NewConcurrencyColorMarkerEngine_enabled [OF assms(2,3)] by (auto simp: max_def)
  show "\<forall>i<length rates. int (card (dom (view (server s) (tier_key key i)))) \<le> max 0 (rates ! i)"
    using enabled_marker.marker_bound(2) [OF L assms(5), unfolded e] by simp
  show "(\<Sum>i<length rates. int (card (dom (view (server s) (tier_key key i)))))
           \<le> sum_list (map (max 0) rates)"
    using enabled_marker.marker_total [OF L assms(5), unfolded e] by simp
qed

definition demo_marker :: color_marker where
  "demo_marker = \<lparr>ccm_key = ''k'', ccm_rates = [0, 1], ccm_timeout = 120 * second,
     ccm_nameSpace = ''ns'', ccm_scripts = True\<rparr>"

lemma demo_marker_new: "NewConcurrencyColorMarkerEngine ''k'' [- 5, 1] (120 * second) ''ns'' = Inr demo_marker"
  by (simp add: NewConcurrencyColorMarkerEngine_def normalizeConcurrencyMarkerRates_def demo_marker_def)

interpretation demo_ccm: enabled_marker ref_zset ref_view demo_marker
  by unfold_locales (use whole_seconds_whole [of 120] in \<open>auto simp: demo_marker_def\<close>)

lemma demo_marker_allow:
  "ccm_allow ref_zset demo_marker Map.empty 1000 ''a'' Delivered (\<lambda>_. [])
   = ((setPriorityToContext ''ns'' Map.empty 0, Some [tier_key ''k'' (Suc 0)], None, 0),
      (\<lambda>_. [])(tier_key ''k'' 0 := [], tier_key ''k'' (Suc 0) := [(''a'', 1000)]))"
  by (simp add: ccm_allow_def demo_marker_def concurrencyColorMarkerAquireLuaScript_def ref_zset_def
      upt_rec fun_upd_twist)

definition demo_marker_state :: "zdb gateways" where
  "demo_marker_state = after_allow ref_view (ccm_api ref_zset demo_marker) Map.empty ''a'' Delivered demo_start"

lemma demo_marker_reach: "gateway_reach ref_view (ccm_api ref_zset demo_marker) demo_marker_state"
proof -
  have "gateway_reach ref_view (ccm_api ref_zset demo_marker) demo_start"
    unfolding demo_start_def by (rule g_start) (simp add: ref_view_def fun_eq_iff)
  then show ?thesis
    unfolding demo_marker_state_def
    by (rule g_next [OF _ g_allow]) (simp add: fresh_member_def abs_pool_def demo_start_def ref_view_def)
qed

theorem marker_bands_never_exceeded_witness:
  "(\<Sum>i<2. int (card (dom (ref_view (server demo_marker_state) (tier_key ''k'' i))))) \<le> 1"
  using marker_bands_never_exceeded [THEN conjunct2, OF ref.redis_zset_axioms demo_marker_new _ _ demo_marker_reach]
  by (simp add: numeral_2_eq_2)

text \<open>An admitted request gets the highest priority that has a free slot: the chosen tier
  has a positive cap and room for it, every higher tier is full, and the context handed on
  carries \<open>length rates - 1 - tier\<close> for the limiters of the namespace. It is refused exactly
  when no tier has room.\<close>

theorem marker_assigns_highest_free_band:
  assumes "redis_zset R view"
    and "NewConcurrencyColorMarkerEngine key rates timeout ns = Inr e" and "rates \<noteq> []"
    and "length rates < 2 ^ 63"
    and "ccm_allow R e c now m Delivered w = ((c', lease, er, p), w')"
  defines "room \<equiv> \<lambda>i. int (card (dom (marker_pool view e now w (tier_key key i)))) < rates ! i"
  shows "(er = Some ErrRateLimitReached \<and> lease = None \<and> c' = c \<and> (\<forall>i<length rates. \<not> room i)) \<or>
    (er = None \<and> (\<exists>i<length rates. room i \<and> (\<forall>j<i. \<not> room j) \<and>
       p = int (length rates) - 1 - int i \<and> lease = Some [tier_key key i] \<and>
       m \<in> dom (view w' (tier_key key i)) \<and> getPriorityFromContext ns c' = Some p))"
proof -
  have e: "e = \<lparr>ccm_key = key, ccm_rates = map (\<lambda>v. if v < 0 then 0 else v) rates, ccm_timeout = timeout,
              ccm_nameSpace = ns, ccm_scripts = True\<rparr>"
    by (rule NewConcurrencyColorMarkerEngine_enabled [OF assms(2,3)])
  have en: "ccm_rates e \<noteq> []" "ccm_scripts e" using assms(3) by (simp_all add: e)
  have room: "room i \<longleftrightarrow> 0 < ccm_rates e ! i \<and> marker_count view e now w i < ccm_rates e ! i"
    if "i < length rates" for i
    using that marker_count_nonneg [of view e now w i] by (auto simp: room_def marker_count_def e)
  note res = redis_zset.ccm_allow_result [OF assms(1) en, of c now m Delivered w]
    and world = redis_zset.ccm_allow_world [OF assms(1) en, of c now m Delivered w]
  have len: "length (ccm_rates e) = length rates" by (simp add: e)
  show ?thesis
  proof (cases "marker_tier view e now w")
    case None
    with res assms(5) marker_tier_None [OF None] show ?thesis by (auto simp: room len)
  next
    case (Some i)
    note i = marker_tier_Some [OF Some]
    have "j < i \<Longrightarrow> \<not> room j" for j using i(1,4) room [of j] by (auto simp: len)
    moreover have "room i" using i room [of i] by (auto simp: len)
    ultimately show ?thesis
      using res world assms(4,5) i(1) Some
      by (auto simp: Let_def len e enter_def intro!: exI [of _ i])
  qed
qed

theorem marker_assigns_highest_free_band_witness:
  "\<exists>i<length [- 5, 1 :: int]. [tier_key ''k'' (Suc 0)] = [tier_key ''k'' i] \<and>
     getPriorityFromContext ''ns'' (setPriorityToContext ''ns'' Map.empty 0) = Some 0"
proof -
  have l: "[- 5, 1 :: int] \<noteq> []" "length [- 5, 1 :: int] < 2 ^ 63" by simp_all
  show ?thesis
    using marker_assigns_highest_free_band [OF ref.redis_zset_axioms demo_marker_new l demo_marker_allow]
    by blast
qed

text \<open>The constructor neither trims leading zeros nor disables a marker without a positive band:
  the number of bands, from which the priorities are computed, is that of the configuration.\<close>

lemma marker_keeps_zero_bands:
  assumes "NewConcurrencyColorMarkerEngine key rates timeout ns = Inr e" "rates \<noteq> []"
  shows "length (ccm_rates e) = length rates" "ccm_scripts e"
  using NewConcurrencyColorMarkerEngine_enabled [OF assms] by simp_all

end
