(* ===== verification/TokenBucket.thy ===== *)
theory TokenBucket
  imports ColorPriority RedisZset
begin

text \<open>
  Token buckets kept as Redis hashes with the fields \<open>tokens\<close> and \<open>lastRefill\<close>: the
  commands the limiters use and their documented behaviour (\<open>redis_hash\<close>), the refill
  computed by the Lua scripts, the runs of any number of gateways over shared buckets
  (\<open>bucket_run\<close>), and the contract \<open>bucket_engine\<close> under which the number of admitted
  requests is bounded in every window of time.
\<close>

section \<open>Commands\<close>

text \<open>\<open>HMGET key tokens lastRefill\<close>, \<open>HMSET\<close> of both fields, \<open>EXPIRE\<close>. Reading a
  number back from the strings of a hash gives the number written.\<close>

record 'w hash_ops =
  HMGET :: "string \<Rightarrow> 'w \<Rightarrow> int option \<times> int option"
  HMSET :: "string \<Rightarrow> int \<Rightarrow> int \<Rightarrow> 'w \<Rightarrow> 'w"
  HEXPIRE :: "string \<Rightarrow> int \<Rightarrow> 'w \<Rightarrow> 'w"

text \<open>A bucket: tokens, last refill and the lifetime its last \<open>EXPIRE\<close> gave it (0 for
  none). The scripts set all three at once.\<close>

type_synonym bucket = "int \<times> int \<times> int"

type_synonym buckets = "string \<rightharpoonup> bucket"

locale redis_hash =
  fixes H :: "'w hash_ops"
    and hview :: "'w \<Rightarrow> buckets"
  assumes HMGET_view [view_simps]:
      "HMGET H k w = (map_option fst (hview w k), map_option (fst \<circ> snd) (hview w k))"
    and HMSET_view [view_simps]:
      "hview (HMSET H k t l w) = (hview w)(k \<mapsto> (t, l, case hview w k of Some (_, _, x) \<Rightarrow> x | None \<Rightarrow> 0))"
    and HEXPIRE_view [view_simps]:
      "\<And>x. 0 < x \<Longrightarrow> hview (HEXPIRE H k x w) =
         (case hview w k of None \<Rightarrow> hview w | Some (t, l, _) \<Rightarrow> (hview w)(k \<mapsto> (t, l, x)))"

text \<open>Reference implementation.\<close>

definition ref_hash :: "buckets hash_ops" where
  "ref_hash = \<lparr>
     HMGET = (\<lambda>k d. (case d k of None \<Rightarrow> (None, None) | Some (t, l, x) \<Rightarrow> (Some t, Some l))),
     HMSET = (\<lambda>k t l d. d(k \<mapsto> (t, l, case d k of Some (_, _, x) \<Rightarrow> x | None \<Rightarrow> 0))),
     HEXPIRE = (\<lambda>k x d. case d k of None \<Rightarrow> d | Some (t, l, _) \<Rightarrow> d(k \<mapsto> (t, l, x)))\<rparr>"

interpretation ref: redis_hash ref_hash "\<lambda>d. d"
  by unfold_locales (auto simp: ref_hash_def split: option.splits)

section \<open>Refill\<close>

text \<open>The computation shared by the scripts: what the bucket holds at \<open>nowUnix\<close>.\<close>

definition bucket_tokens :: "'w hash_ops \<Rightarrow> string \<Rightarrow> int \<Rightarrow> rat \<Rightarrow> int \<Rightarrow> 'w \<Rightarrow> int" where
  "bucket_tokens H key burst rate nowUnix w =
     (let (bucketTokens, bucketRefill) = HMGET H key w;
          tokens = (case bucketTokens of Some t \<Rightarrow> t | None \<Rightarrow> burst);
          lastRefill = (case bucketRefill of Some l \<Rightarrow> l | None \<Rightarrow> nowUnix);
          elapsed = nowUnix - lastRefill;
          tokensToAdd = \<lfloor>fmul (of_int elapsed) rate\<rfloor>
      in min burst (tokens + tokensToAdd))"

text \<open>The same on the view of the server.\<close>

definition refill :: "int \<Rightarrow> rat \<Rightarrow> int \<Rightarrow> bucket option \<Rightarrow> int" where
  "refill burst rate now b =
     (case b of None \<Rightarrow> burst
      | Some (t, l, _) \<Rightarrow> min burst (t + \<lfloor>fmul (of_int (now - l)) rate\<rfloor>))"

lemma fmul_0 [simp]: "fmul 0 r = 0"
  by (simp add: fmul_def)

context redis_hash
begin

lemma bucket_tokens_refill [view_simps]:
  "bucket_tokens H key burst rate now w = refill burst rate now (hview w key)"
  by (auto simp: bucket_tokens_def refill_def view_simps Let_def split: option.splits)

end

lemma refill_le: "refill burst rate now b \<le> burst"
  by (auto simp: refill_def split: option.splits)

section \<open>Runs over shared buckets\<close>

text \<open>Consuming a token of each of the keys \<open>K\<close>, whose bursts, rates and lifetimes are
  \<open>B\<close>, \<open>r\<close> and \<open>ttl\<close>.\<close>

definition consume ::
  "(string \<Rightarrow> int) \<Rightarrow> (string \<Rightarrow> rat) \<Rightarrow> (string \<Rightarrow> int) \<Rightarrow> int \<Rightarrow> string list \<Rightarrow> buckets \<Rightarrow> buckets" where
  "consume B r ttl now K b =
     (\<lambda>k. if k \<in> set K then Some (refill (B k) (r k) now (b k) - 1, now, ttl k) else b k)"

text \<open>
  What a token bucket engine offers: \<open>api a now n w\<close> is its \<open>allow\<close> for a request that
  chooses \<open>a\<close>, with the keys it consumed from when it admits. A run counts the admitted
  requests per key; Redis drops a bucket once its lifetime has passed.
\<close>

type_synonym ('a, 'w) bucket_api = "'a \<Rightarrow> int \<Rightarrow> net \<Rightarrow> 'w \<Rightarrow> (err + string list) \<times> 'w"

record 'w bucket_state =
  b_server :: 'w
  b_clock :: int
  b_admitted :: "string \<Rightarrow> int"

definition after_request :: "('a, 'w) bucket_api \<Rightarrow> 'a \<Rightarrow> net \<Rightarrow> 'w bucket_state \<Rightarrow> 'w bucket_state" where
  "after_request api a n s =
     (let (r, w') = api a (b_clock s) n (b_server s)
      in s\<lparr>b_server := w',
           b_admitted := (case r of Inr K \<Rightarrow> (\<lambda>k. b_admitted s k + (if k \<in> set K then 1 else 0))
                          | Inl _ \<Rightarrow> b_admitted s)\<rparr>)"

inductive bucket_run ::
  "('w \<Rightarrow> buckets) \<Rightarrow> ('a, 'w) bucket_api \<Rightarrow> 'w bucket_state \<Rightarrow> 'w bucket_state \<Rightarrow> bool"
  for hview api s where
  run_start: "bucket_run hview api s s"
| run_tick: "bucket_run hview api s s' \<Longrightarrow> b_clock s' \<le> t \<Longrightarrow> bucket_run hview api s (s'\<lparr>b_clock := t\<rparr>)"
| run_request: "bucket_run hview api s s' \<Longrightarrow> bucket_run hview api s (after_request api a n s')"
| run_expiry: "bucket_run hview api s s' \<Longrightarrow> hview (b_server s') k = Some (t, l, x) \<Longrightarrow>
    l + x \<le> b_clock s' \<Longrightarrow> hview w' = (hview (b_server s'))(k := None) \<Longrightarrow>
    bucket_run hview api s (s'\<lparr>b_server := w'\<rparr>)"

text \<open>The rate with the largest possible rounding error of the product with a time.\<close>

definition up_rate :: "rat \<Rightarrow> rat" where
  "up_rate r = (1 + 1 / 2 ^ 53) * r"

lemma up_rate_bounds: "0 \<le> r \<Longrightarrow> 0 \<le> up_rate r" "0 \<le> r \<Longrightarrow> r \<le> up_rate r"
  by (simp_all add: up_rate_def algebra_simps)

lemma fmul_up_rate: "0 \<le> r \<Longrightarrow> 0 \<le> d \<Longrightarrow> fmul (of_int d) r \<le> up_rate r * of_int d"
  using b64.upper [of "of_int d * r"] by (simp add: fmul_def up_rate_def mult.assoc mult.commute mult.left_commute)

text \<open>The refill, bounded from above without rounding to whole tokens.\<close>

definition level :: "int \<Rightarrow> rat \<Rightarrow> int \<Rightarrow> bucket option \<Rightarrow> rat" where
  "level burst rate now b =
     (case b of None \<Rightarrow> of_int burst
      | Some (t, l, _) \<Rightarrow> min (of_int burst) (of_int t + up_rate rate * of_int (now - l)))"

definition bucket_ok :: "int \<Rightarrow> int \<Rightarrow> bucket option \<Rightarrow> bool" where
  "bucket_ok ttl now b \<longleftrightarrow> (\<forall>t l x. b = Some (t, l, x) \<longrightarrow> 0 \<le> t \<and> l \<le> now \<and> x = ttl)"

lemma refill_le_level:
  assumes "0 \<le> r" "\<And>t l x. b = Some (t, l, x) \<Longrightarrow> l \<le> now"
  shows "of_int (refill burst r now b) \<le> level burst r now b"
proof (cases b)
  case (Some a)
  obtain t l x where a: "a = (t, l, x)" by (cases a)
  have "of_int \<lfloor>fmul (of_int (now - l)) r\<rfloor> \<le> up_rate r * of_int (now - l)"
    by (rule order_trans [OF of_int_floor_le fmul_up_rate]) (use assms Some a in auto)
  then show ?thesis by (simp add: refill_def level_def Some a algebra_simps min_le_iff_disj)
qed (simp add: refill_def level_def)

lemma level_tick:
  assumes "0 \<le> r" "now \<le> now'"
  shows "level burst r now' b \<le> level burst r now b + up_rate r * of_int (now' - now)"
proof -
  have nn: "0 \<le> up_rate r * of_int (now' - now)" using assms up_rate_bounds(1) by simp
  show ?thesis
  proof (cases b)
    case (Some a)
    obtain t l x where a: "a = (t, l, x)" by (cases a)
    have "up_rate r * of_int (now' - l) =
        up_rate r * of_int (now - l) + up_rate r * of_int (now' - now)"
      by (simp add: algebra_simps)
    with nn show ?thesis by (simp add: level_def Some a)
  qed (use nn in \<open>simp add: level_def\<close>)
qed

section \<open>The contract of an engine\<close>

locale bucket_engine = redis_hash H hview
  for H :: "'w hash_ops" and hview :: "'w \<Rightarrow> buckets" +
  fixes api :: "('a, 'w) bucket_api"
    and B :: "string \<Rightarrow> int" and r :: "string \<Rightarrow> rat" and ttl :: "string \<Rightarrow> int"
  assumes burst_nonneg: "0 \<le> B k"
    and rate_nonneg: "0 \<le> r k"
    and full_when_expired: "of_int (B k) \<le> r k * of_int (ttl k)"
    and request_refines:
      "\<And>a now n w res w'. api a now n w = (res, w') \<Longrightarrow>
         \<exists>K. (\<forall>k\<in>set K. 1 \<le> refill (B k) (r k) now (hview w k)) \<and>
             hview w' = consume B r ttl now K (hview w) \<and>
             (case res of Inr K' \<Rightarrow> K' = K | Inl e \<Rightarrow> True)"
begin

definition slack :: "'w bucket_state \<Rightarrow> 'w bucket_state \<Rightarrow> string \<Rightarrow> bool" where
  "slack s s' k \<longleftrightarrow>
     of_int (b_admitted s' k - b_admitted s k) + level (B k) (r k) (b_clock s') (hview (b_server s') k)
       \<le> of_int (B k) + up_rate (r k) * of_int (b_clock s' - b_clock s)"

lemma level_nonneg: "bucket_ok (ttl k) now b \<Longrightarrow> 0 \<le> level (B k) (r k) now b"
  using burst_nonneg rate_nonneg
  by (cases b) (auto simp: level_def bucket_ok_def intro!: add_nonneg_nonneg mult_nonneg_nonneg up_rate_bounds(1))

lemma level_expired:
  assumes "bucket_ok (ttl k) now b" "b = Some (t, l, x)" "l + x \<le> now"
  shows "level (B k) (r k) now b = of_int (B k)"
proof -
  have t: "0 \<le> t" "x = ttl k" using assms by (auto simp: bucket_ok_def)
  have "of_int (B k) \<le> r k * of_int (ttl k)" by (rule full_when_expired)
  also have "\<dots> \<le> r k * of_int (now - l)"
    using assms(3) t rate_nonneg by (intro mult_left_mono) auto
  also have "\<dots> \<le> up_rate (r k) * of_int (now - l)"
    using assms(1,2) up_rate_bounds(2) [OF rate_nonneg] by (intro mult_right_mono) (auto simp: bucket_ok_def)
  finally show ?thesis using t by (simp add: level_def assms(2))
qed

lemma run_invariant:
  assumes "bucket_run hview api s s'" "bucket_ok (ttl k) (b_clock s) (hview (b_server s) k)"
  shows "b_clock s \<le> b_clock s' \<and> bucket_ok (ttl k) (b_clock s') (hview (b_server s') k) \<and> slack s s' k"
  using assms
proof (induction rule: bucket_run.induct)
  case run_start
  then show ?case by (auto simp: slack_def level_def min_le_iff_disj split: option.splits)
next
  case (run_tick s' t)
  then have "b_clock s \<le> b_clock s'" "bucket_ok (ttl k) (b_clock s') (hview (b_server s') k)" "slack s s' k"
    by auto
  then show ?case
    using level_tick [OF rate_nonneg run_tick.hyps(2), of "B k" k "hview (b_server s') k"] run_tick.hyps(2)
    by (fastforce simp: slack_def bucket_ok_def algebra_simps)
next
  case (run_request s' a n)
  then have IH: "b_clock s \<le> b_clock s'" "bucket_ok (ttl k) (b_clock s') (hview (b_server s') k)" "slack s s' k"
    by auto
  obtain res w' where res: "api a (b_clock s') n (b_server s') = (res, w')" by fastforce
  from request_refines [OF res] obtain K where K:
    "\<forall>k\<in>set K. 1 \<le> refill (B k) (r k) (b_clock s') (hview (b_server s') k)"
    "hview w' = consume B r ttl (b_clock s') K (hview (b_server s'))"
    "case res of Inr K' \<Rightarrow> K' = K | Inl e \<Rightarrow> True" by blast
  have ok: "bucket_ok (ttl k) (b_clock s') (hview w' k)"
    using IH(2) K(1) by (auto simp: bucket_ok_def K(2) consume_def)
  have le: "level (B k) (r k) (b_clock s') (hview w' k) + (if k \<in> set K then 1 else 0)
      \<le> level (B k) (r k) (b_clock s') (hview (b_server s') k)"
  proof (cases "k \<in> set K")
    case True
    have "of_int (refill (B k) (r k) (b_clock s') (hview (b_server s') k))
        \<le> level (B k) (r k) (b_clock s') (hview (b_server s') k)"
      by (rule refill_le_level [OF rate_nonneg]) (use IH(2) in \<open>auto simp: bucket_ok_def\<close>)
    moreover have "level (B k) (r k) (b_clock s') (hview w' k)
        = of_int (refill (B k) (r k) (b_clock s') (hview (b_server s') k)) - 1"
      using True refill_le [of "B k" "r k" "b_clock s'" "hview (b_server s') k"]
      by (simp add: K(2) consume_def level_def)
    ultimately show ?thesis using True by simp
  qed (simp add: K(2) consume_def)
  have "b_admitted (after_request api a n s') k \<le> b_admitted s' k + (if k \<in> set K then 1 else 0)"
    using K(3) by (auto simp: after_request_def res split: sum.splits)
  moreover have "b_server (after_request api a n s') = w'" "b_clock (after_request api a n s') = b_clock s'"
    by (simp_all add: after_request_def res)
  ultimately show ?case using IH ok le by (auto simp: slack_def split: if_splits)
next
  case (run_expiry s' k' t l x w')
  then have IH: "b_clock s \<le> b_clock s'" "bucket_ok (ttl k) (b_clock s') (hview (b_server s') k)" "slack s s' k"
    by auto
  have "level (B k) (r k) (b_clock s') (hview w' k) = level (B k) (r k) (b_clock s') (hview (b_server s') k)"
    using level_expired [OF IH(2)] run_expiry.hyps(2,3) by (auto simp: run_expiry.hyps(4) level_def)
  with IH show ?case by (auto simp: slack_def bucket_ok_def run_expiry.hyps(4))
qed

text \<open>In a run that starts anywhere, at most the burst plus what the rate adds is admitted.\<close>

theorem admitted_bound:
  assumes "bucket_run hview api s s'" "bucket_ok (ttl k) (b_clock s) (hview (b_server s) k)"
  shows "of_int (b_admitted s' k - b_admitted s k)
           \<le> of_int (B k) + up_rate (r k) * of_int (b_clock s' - b_clock s)"
  using run_invariant [OF assms] level_nonneg [of k "b_clock s'" "hview (b_server s') k"]
  by (auto simp: slack_def)

end

section \<open>Lifetimes\<close>

text \<open>\<open>int64(math.Ceil(float64(burst)/rate)) + 1\<close>, at least 1.\<close>

definition ttl_seconds :: "int \<Rightarrow> rat \<Rightarrow> int" where
  "ttl_seconds burst rate =
     (let ttlSec = trunc64 (of_int \<lceil>fdiv (f64 (of_int burst)) rate\<rceil>) + 1
      in if ttlSec < 1 then 1 else ttlSec)"

lemma ttl_seconds_full:
  assumes "0 \<le> burst" "burst < 2 ^ 53" "0 < rate" "of_int burst \<le> 2 ^ 53 * rate"
  shows "of_int burst \<le> rate * of_int (ttl_seconds burst rate)" "0 < ttl_seconds burst rate"
proof -
  have q: "0 \<le> of_int burst / rate" using assms by simp
  have f: "f64 (of_int burst) = of_int burst" using assms by (intro f64_exact) simp
  define c where "c = \<lceil>fdiv (f64 (of_int burst)) rate\<rceil>"
  have "0 \<le> fdiv (f64 (of_int burst)) rate" unfolding f fdiv_def using b64.nonneg [OF q] .
  then have c0: "0 \<le> c" unfolding c_def by linarith
  have ttl: "ttl_seconds burst rate = c + 1"
    using c0 by (simp add: ttl_seconds_def c_def [symmetric] trunc64_def Let_def)
  have "(1 - 1 / 2 ^ 53) * (of_int burst / rate) \<le> of_int c"
    using b64.lower [OF q] le_of_int_ceiling [of "fdiv (f64 (of_int burst)) rate"]
    unfolding c_def fdiv_def f by linarith
  then have "rate * ((1 - 1 / 2 ^ 53) * (of_int burst / rate)) \<le> rate * of_int c"
    using assms(3) by (intro mult_left_mono) auto
  then have "of_int burst - of_int burst / 2 ^ 53 \<le> rate * of_int c"
    using assms(3) by (simp add: field_simps)
  moreover have "of_int burst / 2 ^ 53 \<le> rate" using assms(4) by (simp add: field_simps)
  ultimately show "of_int burst \<le> rate * of_int (ttl_seconds burst rate)"
    by (simp add: ttl algebra_simps)
  show "0 < ttl_seconds burst rate" using c0 by (simp add: ttl)
qed

text \<open>An expired bucket would have been full: dropping it changes no reply.\<close>

lemma refill_expired:
  assumes "0 \<le> burst" "burst < 2 ^ 53" "0 < rate" "of_int burst \<le> 2 ^ 53 * rate"
    and "0 \<le> t" "l + ttl_seconds burst rate \<le> now"
  shows "refill burst rate now (Some (t, l, x)) = refill burst rate now None"
proof -
  have "of_int burst \<le> rate * of_int (ttl_seconds burst rate)"
    by (rule ttl_seconds_full [OF assms(1-4)])
  also have "\<dots> \<le> of_int (now - l) * rate"
    using assms(3,6) by (subst mult.commute) (intro mult_right_mono, auto)
  finally have "burst \<le> \<lfloor>fmul (of_int (now - l)) rate\<rfloor>"
    unfolding fmul_def by (intro b64.floor_ge) (use assms in auto)
  then show ?thesis using assms(5) by (simp add: refill_def)
qed

end
