(* ===== verification/RequestLimiter.thy ===== *)
theory RequestLimiter
  imports TokenBucket
begin

text \<open>
  \<open>pkg/engines/limiter/request_limiter.go\<close>: a token bucket that refills \<open>limit\<close> tokens
  per window up to \<open>burst\<close>; each admitted request takes one.
\<close>

definition tokenBucketLuaScript ::
  "'w hash_ops \<Rightarrow> string \<Rightarrow> int \<Rightarrow> rat \<Rightarrow> int \<Rightarrow> int \<Rightarrow> 'w \<Rightarrow> int list \<times> 'w" where
  "tokenBucketLuaScript H key burst rate nowUnix ttlSec w =
     (let tokens = bucket_tokens H key burst rate nowUnix w
      in if 1 \<le> tokens
         then ([1, tokens - 1], HEXPIRE H key ttlSec (HMSET H key (tokens - 1) nowUnix w))
         else ([0, tokens], w))"

record request_limiter =
  rl_redis :: bool
  rl_key :: string
  rl_burst :: int
  rl_rate :: rat
  rl_window :: int
  rl_ttlSec :: int
  rl_script :: bool

abbreviation ErrRequestLimitReached :: err where
  "ErrRequestLimitReached \<equiv> Sentinel ''ErrRequestLimitReached''"

text \<open>\<open>rl_redis\<close> and \<open>rl_script\<close> are false for nil pointers.\<close>

definition NewRequestLimiterEngine ::
  "bool \<Rightarrow> string \<Rightarrow> int \<Rightarrow> int \<Rightarrow> int \<Rightarrow> bool \<Rightarrow> err + request_limiter" where
  "NewRequestLimiterEngine redis key burst limit window nextIsNil =
     (if nextIsNil then Inl (Plain ''next engine must not be nil'')
      else if burst \<le> 0 \<or> limit \<le> 0
      then Inr \<lparr>rl_redis = redis, rl_key = key, rl_burst = 0, rl_rate = 0, rl_window = 0,
                rl_ttlSec = 0, rl_script = False\<rparr>
      else if window \<le> 0 then Inl (Plain ''window must be positive'')
      else let rate = fdiv (f64 (of_int limit)) (duration_seconds window)
           in Inr \<lparr>rl_redis = redis, rl_key = key, rl_burst = burst, rl_rate = rate, rl_window = window,
                   rl_ttlSec = ttl_seconds burst rate, rl_script = True\<rparr>)"

definition rl_allow :: "'w hash_ops \<Rightarrow> request_limiter \<Rightarrow> int \<Rightarrow> net \<Rightarrow> 'w \<Rightarrow> err option \<times> 'w" where
  "rl_allow H e nowUnix n w =
     (if rl_burst e \<le> 0 \<or> rl_rate e \<le> 0 \<or> \<not> rl_redis e \<or> \<not> rl_script e then (None, w)
      else
        let (res, w') = run_script n
              (tokenBucketLuaScript H (rl_key e) (rl_burst e) (rl_rate e) nowUnix (rl_ttlSec e)) w
        in case res of
             Inl er \<Rightarrow> (Some (Wrap ''token bucket script error'' [er]), w')
           | Inr results \<Rightarrow>
               if length results \<noteq> 2 then (Some (Plain ''unexpected script result format''), w')
               else if results ! 0 = 0 then (Some ErrRequestLimitReached, w')
               else (None, w'))"

definition rl_process ::
  "'w hash_ops \<Rightarrow> request_limiter \<Rightarrow> int \<Rightarrow> net \<Rightarrow> ('w, 'rq, 'rs) engine \<Rightarrow> ('w, 'rq, 'rs) engine" where
  "rl_process H e nowUnix n next req w =
     (case rl_allow H e nowUnix n w of
        (Some er, w1) \<Rightarrow> ((None, Some er), w1)
      | (None, w1) \<Rightarrow> next req w1)"

section \<open>What the script does\<close>

context redis_hash
begin

lemma tokenBucket_view:
  assumes "0 < ttl"
  shows "hview (snd (tokenBucketLuaScript H key burst rate now ttl w)) =
     (if 1 \<le> refill burst rate now (hview w key)
      then (hview w)(key \<mapsto> (refill burst rate now (hview w key) - 1, now, ttl)) else hview w)"
    and "fst (tokenBucketLuaScript H key burst rate now ttl w) =
     (let t = refill burst rate now (hview w key) in if 1 \<le> t then [1, t - 1] else [0, t])"
  using assms by (simp_all add: tokenBucketLuaScript_def view_simps Let_def)

lemma rl_allow_cases:
  assumes "0 < rl_burst e" "0 < rl_rate e" "rl_redis e" "rl_script e" "0 < rl_ttlSec e"
  shows "fst (rl_allow H e now n w) =
      (if n \<noteq> Delivered then Some (Wrap ''token bucket script error'' [Plain ''redis: connection error''])
       else if 1 \<le> refill (rl_burst e) (rl_rate e) now (hview w (rl_key e)) then None
       else Some ErrRequestLimitReached)"
    and "hview (snd (rl_allow H e now n w)) =
      (if n \<noteq> LostRequest \<and> 1 \<le> refill (rl_burst e) (rl_rate e) now (hview w (rl_key e))
       then (hview w)(rl_key e \<mapsto>
              (refill (rl_burst e) (rl_rate e) now (hview w (rl_key e)) - 1, now, rl_ttlSec e))
       else hview w)"
  using assms by (cases n; simp add: rl_allow_def tokenBucket_view Let_def)+

end

section \<open>The engine as a bucket engine\<close>

definition rl_api :: "'w hash_ops \<Rightarrow> request_limiter \<Rightarrow> (unit, 'w) bucket_api" where
  "rl_api H e = (\<lambda>_ now n w.
     (case rl_allow H e now n w of (None, w') \<Rightarrow> (Inr [rl_key e], w') | (Some er, w') \<Rightarrow> (Inl er, w')))"

locale enabled_request_limiter = redis_hash H hview
  for H :: "'w hash_ops" and hview :: "'w \<Rightarrow> buckets" +
  fixes e :: request_limiter
  assumes burst: "0 < rl_burst e" "rl_burst e < 2 ^ 53"
    and rate: "0 < rl_rate e" "of_int (rl_burst e) \<le> 2 ^ 53 * rl_rate e"
    and ttl: "rl_ttlSec e = ttl_seconds (rl_burst e) (rl_rate e)"
    and enabled: "rl_redis e" "rl_script e"
begin

lemma ttl_pos: "0 < rl_ttlSec e"
  using ttl_seconds_full(2) [OF _ burst(2) rate] burst ttl by simp

end

sublocale enabled_request_limiter \<subseteq> bucket: bucket_engine H hview "rl_api H e"
    "\<lambda>k. if k = rl_key e then rl_burst e else 0" "\<lambda>k. if k = rl_key e then rl_rate e else 0"
    "\<lambda>k. if k = rl_key e then rl_ttlSec e else 0"
proof (unfold_locales, goal_cases)
  case (1 k)
  then show ?case using burst by simp
next
  case (2 k)
  then show ?case using rate by simp
next
  case (3 k)
  then show ?case using ttl_seconds_full(1) [OF _ burst(2) rate] burst ttl by simp
next
  case (4 a now n w res w')
  note c = rl_allow_cases [OF burst(1) rate(1) enabled ttl_pos, of now n w]
  have w': "w' = snd (rl_allow H e now n w)" and res: "res =
      (case fst (rl_allow H e now n w) of None \<Rightarrow> Inr [rl_key e] | Some er \<Rightarrow> Inl er)"
    using 4 by (auto simp: rl_api_def split: prod.splits option.splits)
  show ?case
  proof (cases "n \<noteq> LostRequest \<and> 1 \<le> refill (rl_burst e) (rl_rate e) now (hview w (rl_key e))")
    case True
    then show ?thesis unfolding w' res c
      by (intro exI [of _ "[rl_key e]"]) (auto simp: consume_def fun_eq_iff)
  next
    case False
    then show ?thesis unfolding w' res c
      by (intro exI [of _ "[]"]) (auto simp: consume_def fun_eq_iff)
  qed
qed

context enabled_request_limiter
begin

lemma request_bound:
  assumes "bucket_run hview (rl_api H e) s s'"
    and "bucket_ok (rl_ttlSec e) (b_clock s) (hview (b_server s) (rl_key e))"
  shows "of_int (b_admitted s' (rl_key e) - b_admitted s (rl_key e))
           \<le> of_int (rl_burst e) + up_rate (rl_rate e) * of_int (b_clock s' - b_clock s)"
  using bucket.admitted_bound [OF assms(1), of "rl_key e"] assms(2) by simp

end

section \<open>Properties\<close>

lemma NewRequestLimiterEngine_enabled:
  assumes "NewRequestLimiterEngine True key burst limit window False = Inr e" "0 < burst" "0 < limit"
    "limit < 2 ^ 53"
  shows "e = \<lparr>rl_redis = True, rl_key = key, rl_burst = burst,
      rl_rate = fdiv (of_int limit) (duration_seconds window), rl_window = window,
      rl_ttlSec = ttl_seconds burst (fdiv (of_int limit) (duration_seconds window)), rl_script = True\<rparr>"
    and "0 < window" and "0 < rl_rate e"
proof -
  have f: "f64 (of_int limit) = of_int limit" using assms by (intro f64_exact) simp
  show w: "0 < window" and e: "e = \<lparr>rl_redis = True, rl_key = key, rl_burst = burst,
      rl_rate = fdiv (of_int limit) (duration_seconds window), rl_window = window,
      rl_ttlSec = ttl_seconds burst (fdiv (of_int limit) (duration_seconds window)), rl_script = True\<rparr>"
    using assms(1,2,3) by (auto simp: NewRequestLimiterEngine_def Let_def f split: if_splits)
  show "0 < rl_rate e"
    using duration_seconds_pos [OF w] assms(3) f64_pos_pos by (simp add: e fdiv_def f64_def)
qed

lemma NewRequestLimiterEngine_locale:
  assumes "redis_hash H hview" "NewRequestLimiterEngine True key burst limit window False = Inr e"
    "0 < burst" "burst < 2 ^ 53" "0 < limit" "limit < 2 ^ 53" "of_int burst \<le> 2 ^ 53 * rl_rate e"
  shows "enabled_request_limiter H hview e"
  using assms(1,3,4,7) NewRequestLimiterEngine_enabled [OF assms(2,3,5,6)]
  by (simp add: enabled_request_limiter_def enabled_request_limiter_axioms_def)

text \<open>C7: Over any number of gateways sharing the key, whatever the lost requests and replies
  and the expiries of the key, in every window of time at most \<open>burst\<close> plus the rate times
  the length of the window is admitted (up to the rounding of one product). The window may
  start in any state of the bucket the engine leaves behind.\<close>

theorem request_rate_bounded:
  assumes "redis_hash H hview"
    and "NewRequestLimiterEngine True key burst limit window False = Inr e"
    and "0 < burst" and "burst < 2 ^ 53" and "0 < limit" and "limit < 2 ^ 53"
    and "of_int burst \<le> 2 ^ 53 * rl_rate e"
    and "bucket_run hview (rl_api H e) s s'"
    and "bucket_ok (rl_ttlSec e) (b_clock s) (hview (b_server s) key)"
  shows "of_int (b_admitted s' key - b_admitted s key)
           \<le> of_int burst + (1 + 1 / 2 ^ 53) * rl_rate e * of_int (b_clock s' - b_clock s)"
proof -
  have e: "rl_key e = key" "rl_burst e = burst"
    using NewRequestLimiterEngine_enabled [OF assms(2,3,5,6)] by simp_all
  show ?thesis
    using enabled_request_limiter.request_bound [OF NewRequestLimiterEngine_locale [OF assms(1-7)] assms(8)] assms(9)
    by (simp add: e up_rate_def)
qed

text \<open>Ten in a burst, a hundred a minute.\<close>

definition demo_rl :: request_limiter where
  "demo_rl = \<lparr>rl_redis = True, rl_key = ''k'', rl_burst = 10, rl_rate = fdiv 100 60,
     rl_window = 60 * second, rl_ttlSec = ttl_seconds 10 (fdiv 100 60), rl_script = True\<rparr>"

lemma seconds_60: "duration_seconds 60000000000 = 60"
  using duration_seconds_whole [of 60] by simp

lemma demo_rl_new: "NewRequestLimiterEngine True ''k'' 10 100 (60 * second) False = Inr demo_rl"
proof -
  have "f64 100 = 100" using f64_exact [of 100] by simp
  then show ?thesis by (simp add: NewRequestLimiterEngine_def demo_rl_def seconds_60 Let_def)
qed

lemma demo_rl_rate: "(1 - 1 / 2 ^ 53) * (5 / 3) \<le> rl_rate demo_rl" "rl_rate demo_rl \<le> (1 + 1 / 2 ^ 53) * (5 / 3)"
  using b64.lower [of "100 / 60"] b64.upper [of "100 / 60"] by (simp_all add: demo_rl_def fdiv_def)

interpretation demo_rl: enabled_request_limiter ref_hash "\<lambda>d. d" demo_rl
  by unfold_locales (use demo_rl_rate(1) in \<open>simp_all add: demo_rl_def\<close>)

definition demo_rl_start :: "buckets bucket_state" where
  "demo_rl_start = \<lparr>b_server = Map.empty, b_clock = 1000, b_admitted = (\<lambda>_. 0)\<rparr>"

theorem request_rate_bounded_witness:
  "of_int (b_admitted (after_request (rl_api ref_hash demo_rl) () Delivered demo_rl_start) ''k'') \<le> (10 :: rat)"
proof -
  have r: "bucket_run (\<lambda>d. d) (rl_api ref_hash demo_rl) demo_rl_start
      (after_request (rl_api ref_hash demo_rl) () Delivered demo_rl_start)"
    by (rule run_request [OF run_start])
  have b: "of_int 10 \<le> 2 ^ 53 * rl_rate demo_rl" using demo_rl_rate(1) by simp
  have c: "b_clock (after_request (rl_api ref_hash demo_rl) () Delivered demo_rl_start) = 1000"
    by (simp add: after_request_def demo_rl_start_def split: prod.splits)
  show ?thesis
    using request_rate_bounded [OF ref.redis_hash_axioms demo_rl_new _ _ _ _ b r]
    by (simp add: c) (simp add: bucket_ok_def demo_rl_start_def)
qed

text \<open>A number of attempts at one instant: how many are admitted.\<close>

fun rl_attempts :: "'w hash_ops \<Rightarrow> request_limiter \<Rightarrow> int \<Rightarrow> nat \<Rightarrow> 'w \<Rightarrow> nat \<times> 'w" where
  "rl_attempts H e now 0 w = (0, w)"
| "rl_attempts H e now (Suc n) w =
     (let (r, w1) = rl_allow H e now Delivered w;
          (c, w2) = rl_attempts H e now n w1
      in ((if r = None then Suc c else c), w2))"

text \<open>Attempts second by second, from \<open>now\<close> on.\<close>

fun rl_seconds :: "'w hash_ops \<Rightarrow> request_limiter \<Rightarrow> int \<Rightarrow> nat list \<Rightarrow> 'w \<Rightarrow> nat \<times> 'w" where
  "rl_seconds H e now [] w = (0, w)"
| "rl_seconds H e now (n # ns) w =
     (let (c, w1) = rl_attempts H e now n w;
          (d, w2) = rl_seconds H e (now + 1) ns w1
      in (c + d, w2))"

lemma refill_same_second [simp]: "t \<le> burst \<Longrightarrow> refill burst rate now (Some (t, now, x)) = t"
  by (simp add: refill_def)

context enabled_request_limiter
begin

abbreviation here :: "int \<Rightarrow> 'w \<Rightarrow> int" where
  "here now w \<equiv> refill (rl_burst e) (rl_rate e) now (hview w (rl_key e))"

lemmas allow_cases = rl_allow_cases [OF burst(1) rate(1) enabled ttl_pos]

lemma here_after:
  "here now (snd (rl_allow H e now Delivered w)) = (if 1 \<le> here now w then here now w - 1 else here now w)"
  using refill_le [of "rl_burst e" "rl_rate e" now "hview w (rl_key e)"] by (simp add: allow_cases)

text \<open>At one instant exactly the tokens of the bucket are handed out.\<close>

lemma attempts_exact:
  assumes "0 \<le> here now w"
  shows "fst (rl_attempts H e now n w) = min n (nat (here now w))"
    "here now (snd (rl_attempts H e now n w)) = here now w - int (min n (nat (here now w)))"
proof -
  have "fst (rl_attempts H e now n w) = min n (nat (here now w)) \<and>
    here now (snd (rl_attempts H e now n w)) = here now w - int (min n (nat (here now w)))"
    using assms
  proof (induction n arbitrary: w)
    case (Suc n)
    let ?w1 = "snd (rl_allow H e now Delivered w)"
    have "0 \<le> here now ?w1" using Suc.prems by (simp only: here_after split: if_splits) simp
    moreover have "1 \<le> here now w \<Longrightarrow> nat (here now w) = Suc (nat (here now w - 1))" by simp
    ultimately show ?case using Suc.IH [of ?w1] here_after [of now w]
      by (simp add: case_prod_beta Let_def allow_cases(1) split: if_splits)
  qed simp
  then show "fst (rl_attempts H e now n w) = min n (nat (here now w))"
    "here now (snd (rl_attempts H e now n w)) = here now w - int (min n (nat (here now w)))" by blast+
qed

text \<open>With at least one attempt in every second, a second adds \<open>\<lfloor>fmul 1 rate\<rfloor>\<close> tokens: the
  fraction is lost at each admission.\<close>

definition per_second :: int where
  "per_second = \<lfloor>fmul 1 (rl_rate e)\<rfloor>"

lemma attempts_stamp:
  assumes "1 \<le> here now w" "0 < n"
  shows "\<exists>t. hview (snd (rl_attempts H e now n w)) (rl_key e) = Some (t, now, rl_ttlSec e) \<and>
    t = here now w - int (min n (nat (here now w)))"
proof -
  have stay: "hview (snd (rl_attempts H e now n v)) (rl_key e) = Some (here now (snd (rl_attempts H e now n v)), now, rl_ttlSec e)"
    if "hview v (rl_key e) = Some (t, now, rl_ttlSec e)" "t \<le> rl_burst e" for n t v
    using that
  proof (induction n arbitrary: v t)
    case (Suc n)
    have "hview (snd (rl_allow H e now Delivered v)) (rl_key e) =
        Some (if 1 \<le> t then t - 1 else t, now, rl_ttlSec e)"
      using Suc.prems by (simp add: allow_cases)
    from Suc.IH [OF this] Suc.prems(2) show ?case by (simp add: case_prod_beta Let_def)
  qed simp
  obtain n' where n: "n = Suc n'" using assms(2) by (cases n) auto
  have "hview (snd (rl_allow H e now Delivered w)) (rl_key e) = Some (here now w - 1, now, rl_ttlSec e)"
    using assms(1) by (simp add: allow_cases)
  from stay [OF this] refill_le [of "rl_burst e" "rl_rate e" now "hview w (rl_key e)"]
  have "hview (snd (rl_attempts H e now n w)) (rl_key e) =
      Some (here now (snd (rl_attempts H e now n w)), now, rl_ttlSec e)"
    by (simp add: n case_prod_beta Let_def)
  then show ?thesis using attempts_exact(2) [of now w n] assms(1) by auto
qed

lemma seconds_bound:
  assumes "1 \<le> per_second" "\<forall>n\<in>set ns. 0 < n" "ns \<noteq> []" "1 \<le> here now w"
  shows "int (fst (rl_seconds H e now ns w)) \<le> here now w + per_second * (int (length ns) - 1)"
  using assms(2-4)
proof (induction ns arbitrary: now w)
  case (Cons n ns)
  let ?w1 = "snd (rl_attempts H e now n w)"
  have n: "0 < n" using Cons.prems by simp
  obtain t where t: "hview ?w1 (rl_key e) = Some (t, now, rl_ttlSec e)"
    "t = here now w - int (min n (nat (here now w)))"
    using attempts_stamp [OF Cons.prems(3) n] by blast
  have c: "int (fst (rl_attempts H e now n w)) = here now w - t"
    using attempts_exact(1) [of now w n] Cons.prems(3) t(2) by simp
  have t0: "0 \<le> t" using t(2) Cons.prems(3) by simp
  have next_second: "here (now + 1) ?w1 = min (rl_burst e) (t + per_second)"
    by (simp add: t(1) refill_def per_second_def)
  show ?case
  proof (cases "ns = []")
    case True
    then show ?thesis using c t0 by (simp add: case_prod_beta Let_def)
  next
    case False
    have "1 \<le> here (now + 1) ?w1"
      using burst(1) assms(1) t0 by (simp add: next_second)
    with Cons.IH [of "now + 1" ?w1] Cons.prems(1) False
    have "int (fst (rl_seconds H e (now + 1) ns ?w1)) \<le> t + per_second + per_second * (int (length ns) - 1)"
      by (simp add: next_second)
    then show ?thesis using c by (simp add: case_prod_beta Let_def algebra_simps)
  qed
qed simp

end

text \<open>The whole burst is admitted at once: with a full bucket the first \<open>burst\<close> requests of
  one second pass, whatever \<open>limit\<close> is, and the next one is refused.\<close>

theorem full_burst_at_once:
  assumes "redis_hash H hview"
    and "NewRequestLimiterEngine True key burst limit window False = Inr e"
    and "0 < burst" and "burst < 2 ^ 53" and "0 < limit" and "limit < 2 ^ 53"
    and "of_int burst \<le> 2 ^ 53 * rl_rate e"
    and "hview w key = None"
  shows "fst (rl_attempts H e now (nat burst) w) = nat burst \<and>
     fst (rl_allow H e now Delivered (snd (rl_attempts H e now (nat burst) w))) = Some ErrRequestLimitReached"
proof -
  note L = NewRequestLimiterEngine_locale [OF assms(1-7)]
  have e: "rl_key e = key" "rl_burst e = burst"
    using NewRequestLimiterEngine_enabled [OF assms(2,3,5,6)] by simp_all
  have h: "refill burst (rl_rate e) now (hview w key) = burst" by (simp add: assms(8) refill_def)
  show ?thesis
    using enabled_request_limiter.attempts_exact [OF L, of now w "nat burst", unfolded e h] assms(3)
    by (simp add: enabled_request_limiter.allow_cases(1) [OF L, unfolded e])
qed

theorem full_burst_at_once_witness:
  "fst (rl_attempts ref_hash demo_rl 1000 10 Map.empty) = 10"
proof -
  have b: "of_int 10 \<le> 2 ^ 53 * rl_rate demo_rl" using demo_rl_rate(1) by simp
  show ?thesis
    using full_burst_at_once [OF ref.redis_hash_axioms demo_rl_new _ _ _ _ b, of Map.empty 1000] by simp
qed

text \<open>The fraction of a token is lost at every admission, because \<open>lastRefill\<close> is set to
  the current time while only whole tokens are added. When the rate is at least one per second and
  there is an attempt in every second, each second after the first lets only the whole part of
  the rate through: at 100 requests a minute a busy client gets 60.\<close>

theorem busy_client_loses_fraction:
  assumes "redis_hash H hview"
    and "NewRequestLimiterEngine True key burst limit window False = Inr e"
    and "0 < burst" and "burst < 2 ^ 53" and "0 < limit" and "limit < 2 ^ 53"
    and "of_int burst \<le> 2 ^ 53 * rl_rate e"
    and "hview w key = None" and "1 \<le> \<lfloor>fmul 1 (rl_rate e)\<rfloor>"
    and "\<forall>n\<in>set ns. 0 < n" and "ns \<noteq> []"
  shows "int (fst (rl_seconds H e now ns w)) \<le> burst + \<lfloor>fmul 1 (rl_rate e)\<rfloor> * (int (length ns) - 1)"
proof -
  note L = NewRequestLimiterEngine_locale [OF assms(1-7)]
  have e: "rl_key e = key" "rl_burst e = burst"
    using NewRequestLimiterEngine_enabled [OF assms(2,3,5,6)] by simp_all
  have h: "refill burst (rl_rate e) now (hview w key) = burst" by (simp add: assms(8) refill_def)
  show ?thesis
    using enabled_request_limiter.seconds_bound [OF L, of ns now w] assms(3,9,10,11)
    by (simp add: e h enabled_request_limiter.per_second_def [OF L])
qed

lemma demo_rl_per_second: "\<lfloor>fmul 1 (rl_rate demo_rl)\<rfloor> = 1"
proof -
  have "(1 - 1 / 2 ^ 53) * rl_rate demo_rl \<le> f64 (rl_rate demo_rl)"
    "f64 (rl_rate demo_rl) \<le> (1 + 1 / 2 ^ 53) * rl_rate demo_rl"
    using b64.lower [of "rl_rate demo_rl"] b64.upper [of "rl_rate demo_rl"] demo_rl_rate(1) by simp_all
  with demo_rl_rate have "1 \<le> f64 (rl_rate demo_rl)" "f64 (rl_rate demo_rl) < 2" by simp_all
  then show ?thesis by (simp add: fmul_def floor_eq_iff)
qed

theorem busy_client_loses_fraction_witness:
  "fst (rl_seconds ref_hash demo_rl 1000 (replicate 61 2) Map.empty) \<le> 70"
proof -
  have b: "of_int 10 \<le> 2 ^ 53 * rl_rate demo_rl" using demo_rl_rate(1) by simp
  show ?thesis
    using busy_client_loses_fraction [OF ref.redis_hash_axioms demo_rl_new _ _ _ _ b, of Map.empty "replicate 61 2" 1000]
    by (simp add: demo_rl_per_second del: replicate.simps rl_seconds.simps)
qed

text \<open>C8: The key's lifetime is long enough: once it has passed, the reply to the next request
  and the bucket it leaves are the same whether or not Redis has dropped the key.\<close>

theorem expiry_is_unobservable:
  assumes "redis_hash H hview"
    and "NewRequestLimiterEngine True key burst limit window False = Inr e"
    and "0 < burst" and "burst < 2 ^ 53" and "0 < limit" and "limit < 2 ^ 53"
    and "of_int burst \<le> 2 ^ 53 * rl_rate e"
    and "hview w key = Some (t, l, rl_ttlSec e)" and "0 \<le> t" and "l + rl_ttlSec e \<le> now"
    and "hview w' = (hview w)(key := None)"
  shows "fst (rl_allow H e now n w') = fst (rl_allow H e now n w) \<and>
     (n \<noteq> LostRequest \<longrightarrow> hview (snd (rl_allow H e now n w')) key = hview (snd (rl_allow H e now n w)) key)"
proof -
  note L = NewRequestLimiterEngine_locale [OF assms(1-7)]
  have e: "rl_key e = key" "rl_burst e = burst" "rl_ttlSec e = ttl_seconds burst (rl_rate e)"
    using NewRequestLimiterEngine_enabled [OF assms(2,3,5,6)] by simp_all
  have "refill burst (rl_rate e) now (hview w key) = refill burst (rl_rate e) now None"
    unfolding assms(8)
    by (rule refill_expired) (use assms NewRequestLimiterEngine_enabled(3) [OF assms(2,3,5,6)] e(3) in auto)
  then show ?thesis
    using assms(3) by (simp add: enabled_request_limiter.allow_cases [OF L] e(1,2) assms(11) refill_def)
qed

lemma demo_rl_ttl: "ttl_seconds 10 (rl_rate demo_rl) \<le> 8"
proof -
  have f: "f64 10 = 10" using f64_exact [of 10] by simp
  have "10 / rl_rate demo_rl \<le> 10 / ((1 - 1 / 2 ^ 53) * (5 / 3))"
    using demo_rl_rate(1) by (intro divide_left_mono) auto
  then have q: "10 / rl_rate demo_rl \<le> (13 / 2 :: rat)" by (rule order_trans) simp
  have p: "0 \<le> 10 / rl_rate demo_rl" using demo_rl_rate(1) by simp
  have "fdiv (f64 10) (rl_rate demo_rl) \<le> 7"
    unfolding f fdiv_def by (rule order_trans [OF b64.upper [OF p]]) (use q in simp)
  moreover have "0 \<le> fdiv (f64 10) (rl_rate demo_rl)" unfolding f fdiv_def by (rule b64.nonneg [OF p])
  ultimately have "\<lceil>fdiv (f64 10) (rl_rate demo_rl)\<rceil> \<le> 7" "0 \<le> \<lceil>fdiv (f64 10) (rl_rate demo_rl)\<rceil>"
    by (simp_all add: ceiling_le_iff)
  then show ?thesis by (simp add: ttl_seconds_def Let_def trunc64_def)
qed

theorem expiry_is_unobservable_witness:
  "fst (rl_allow ref_hash demo_rl 1010 Delivered Map.empty)
   = fst (rl_allow ref_hash demo_rl 1010 Delivered [''k'' \<mapsto> (0, 1000, rl_ttlSec demo_rl)])"
proof -
  have b: "of_int 10 \<le> 2 ^ 53 * rl_rate demo_rl" using demo_rl_rate(1) by simp
  have t: "rl_ttlSec demo_rl = ttl_seconds 10 (rl_rate demo_rl)" by (simp add: demo_rl_def)
  show ?thesis
    using expiry_is_unobservable [OF ref.redis_hash_axioms demo_rl_new _ _ _ _ b,
        of "[''k'' \<mapsto> (0, 1000, rl_ttlSec demo_rl)]" 0 1000 1010 Map.empty Delivered] demo_rl_ttl t
    by (simp add: fun_eq_iff)
qed

end
