(* ===== verification/RequestColor.thy ===== *)
theory RequestColor
  imports RequestLimiter
begin

text \<open>
  \<open>pkg/engines/limiter/request_color_limiter.go\<close> and \<open>request_color_marker.go\<close>: token
  buckets per priority band. The limiter takes a token of the request's own tier and one of
  tier 0, of which it leaves as many as its tier number; the marker takes one token of the
  first tier that has any and marks the request with that tier's priority.
\<close>

section \<open>Rates and lifetimes of the tiers\<close>

text \<open>The loop of both constructors.\<close>

definition tier_rate :: "int \<Rightarrow> int \<Rightarrow> rat" where
  "tier_rate window limit = (if limit \<le> 0 then 0 else fdiv (f64 (of_int limit)) (duration_seconds window))"

definition tier_ttl :: "int \<Rightarrow> int \<Rightarrow> int" where
  "tier_ttl window limit = (if limit \<le> 0 then 1 else ttl_seconds limit (tier_rate window limit))"

lemma tier_rate_nonneg: "0 < window \<Longrightarrow> 0 \<le> tier_rate window limit"
  using duration_seconds_pos [of window] by (simp add: tier_rate_def fdiv_def f64_nonneg)

lemma tier_full:
  assumes "0 < window" "window < 2 ^ 63" "0 \<le> limit" "limit < 2 ^ 53"
  shows "of_int limit \<le> tier_rate window limit * of_int (tier_ttl window limit)" "0 < tier_ttl window limit"
proof -
  have "of_int limit \<le> tier_rate window limit * of_int (tier_ttl window limit) \<and> 0 < tier_ttl window limit"
  proof (cases "limit = 0")
    case False
    then have l: "0 < limit" using assms(3) by simp
    have f: "f64 (of_int limit) = of_int limit" using assms by (intro f64_exact) simp
    let ?W = "duration_seconds window"
    have W: "0 < ?W" "?W \<le> 2 ^ 52" using duration_seconds_pos duration_seconds_le assms by blast+
    have r: "tier_rate window limit = f64 (of_int limit / ?W)" using l by (simp add: tier_rate_def f fdiv_def)
    have p: "0 < of_int limit / ?W" using l W by simp
    have "of_int limit / 2 ^ 52 \<le> of_int limit / ?W"
      using l W by (intro divide_left_mono) auto
    then have "(1 - 1 / 2 ^ 53) * (of_int limit / 2 ^ 52) \<le> tier_rate window limit"
      unfolding r using b64.lower [of "of_int limit / ?W"] p
      by (intro order_trans [OF mult_left_mono [of "of_int limit / 2 ^ 52" "of_int limit / ?W"]]) auto
    then have "of_int limit \<le> 2 ^ 53 * tier_rate window limit" using l by simp
    moreover have "0 < tier_rate window limit" unfolding r using p l W f64_pos_pos by (auto simp: f64_def)
    ultimately show ?thesis
      using ttl_seconds_full [of limit "tier_rate window limit"] l assms(4) by (simp add: tier_ttl_def)
  qed (simp add: tier_rate_def tier_ttl_def)
  then show "of_int limit \<le> tier_rate window limit * of_int (tier_ttl window limit)"
    "0 < tier_ttl window limit" by blast+
qed

section \<open>The limiter\<close>

definition dualTokenBucketLuaScript ::
  "'w hash_ops \<Rightarrow> string \<Rightarrow> string \<Rightarrow> int \<Rightarrow> rat \<Rightarrow> int \<Rightarrow> rat \<Rightarrow> int \<Rightarrow> int \<Rightarrow> int \<Rightarrow> int \<Rightarrow> 'w
    \<Rightarrow> int list \<times> 'w" where
  "dualTokenBucketLuaScript H ownKey tier0Key ownBurst ownRate tier0Burst tier0Rate nowUnix ownTtl tier0Ttl
     reservedTokens w =
     (let ownTokens = bucket_tokens H ownKey ownBurst ownRate nowUnix w;
          tier0Tokens = bucket_tokens H tier0Key tier0Burst tier0Rate nowUnix w
      in if 1 \<le> ownTokens \<and> reservedTokens < tier0Tokens
         then ([1, ownTokens - 1, tier0Tokens - 1],
               HEXPIRE H tier0Key tier0Ttl (HEXPIRE H ownKey ownTtl
                 (HMSET H tier0Key (tier0Tokens - 1) nowUnix
                   (HMSET H ownKey (ownTokens - 1) nowUnix w))))
         else ([0, ownTokens, tier0Tokens], w))"

record request_color_limiter =
  rcl_redis :: bool
  rcl_keyPrefix :: string
  rcl_limits :: "int list"
  rcl_rates :: "rat list"
  rcl_ttls :: "int list"
  rcl_window :: int
  rcl_nameSpace :: string
  rcl_scripts :: bool

definition NewRequestColorLimiterEngine ::
  "bool \<Rightarrow> string \<Rightarrow> int \<Rightarrow> int list \<Rightarrow> int \<Rightarrow> string \<Rightarrow> bool \<Rightarrow> err + request_color_limiter" where
  "NewRequestColorLimiterEngine redis keyPrefix totalConcurrency perPriorityRates window nameSpace nextIsNil =
     (if nextIsNil then Inl (Plain ''next engine must not be nil'')
      else let limits = buildTotalPlusPerPriorityLimits totalConcurrency perPriorityRates
        in if limits = []
           then Inr \<lparr>rcl_redis = redis, rcl_keyPrefix = keyPrefix, rcl_limits = [], rcl_rates = [],
                     rcl_ttls = [], rcl_window = 0, rcl_nameSpace = nameSpace, rcl_scripts = False\<rparr>
           else if window \<le> 0 then Inl (Plain ''window must be positive'')
           else Inr \<lparr>rcl_redis = redis, rcl_keyPrefix = keyPrefix, rcl_limits = limits,
                     rcl_rates = map (tier_rate window) limits, rcl_ttls = map (tier_ttl window) limits,
                     rcl_window = window, rcl_nameSpace = nameSpace, rcl_scripts = True\<rparr>)"

definition rcl_priority :: "request_color_limiter \<Rightarrow> ctx \<Rightarrow> int" where
  "rcl_priority e c = (case getPriorityFromContext (rcl_nameSpace e) c of Some p \<Rightarrow> p | None \<Rightarrow> 0)"

text \<open>The mapping of priorities to tiers is that of \<open>color_tier\<close>; \<open>allow\<close> returns the
  priority and the error.\<close>

definition rcl_allow ::
  "'w hash_ops \<Rightarrow> request_color_limiter \<Rightarrow> ctx \<Rightarrow> int \<Rightarrow> net \<Rightarrow> 'w \<Rightarrow> (int \<times> err option) \<times> 'w" where
  "rcl_allow H e c nowUnix n w =
     (if rcl_limits e = [] \<or> \<not> rcl_redis e \<or> \<not> rcl_scripts e then ((0, None), w)
      else
        let priority = rcl_priority e c;
            tierIdx = color_tier (length (rcl_limits e)) priority;
            tier0Key = tier_key (rcl_keyPrefix e) 0;
            ownKey = tier_key (rcl_keyPrefix e) tierIdx
        in if tierIdx = 0
           then (let (res, w') = run_script n
                   (tokenBucketLuaScript H tier0Key (rcl_limits e ! 0) (rcl_rates e ! 0) nowUnix (rcl_ttls e ! 0)) w
                 in case res of
                      Inl er \<Rightarrow> ((0, Some (Wrap ''token bucket script error'' [er])), w')
                    | Inr results \<Rightarrow>
                        if length results \<noteq> 2
                        then ((0, Some (Plain ''unexpected script result format'')), w')
                        else if results ! 0 = 1 then ((priority, None), w')
                        else ((priority, Some ErrRateLimitReached), w'))
           else (let (res, w') = run_script n
                   (dualTokenBucketLuaScript H ownKey tier0Key
                      (rcl_limits e ! tierIdx) (rcl_rates e ! tierIdx) (rcl_limits e ! 0) (rcl_rates e ! 0)
                      nowUnix (rcl_ttls e ! tierIdx) (rcl_ttls e ! 0) (int tierIdx)) w
                 in case res of
                      Inl er \<Rightarrow> ((0, Some (Wrap ''token bucket script error'' [er])), w')
                    | Inr results \<Rightarrow>
                        if length results \<noteq> 3
                        then ((0, Some (Plain ''unexpected script result format'')), w')
                        else if results ! 0 = 1 then ((priority, None), w')
                        else ((priority, Some ErrRateLimitReached), w')))"

definition rcl_process ::
  "'w hash_ops \<Rightarrow> request_color_limiter \<Rightarrow> int \<Rightarrow> net
    \<Rightarrow> ('w color_world, 'z request_scheme, 'rs) engine \<Rightarrow> ('w color_world, 'z request_scheme, 'rs) engine" where
  "rcl_process H e nowUnix n next req w =
     (let ((priority, er), r1) = rcl_allow H e (req_ctx req) nowUnix n (cw_redis w);
          w1 = w\<lparr>cw_redis := r1\<rparr>
      in case er of
           Some er \<Rightarrow>
             ((None, Some er),
              if errors_is er ''ErrRateLimitReached'' then with_color recordLimiterDeny priority w1 else w1)
         | None \<Rightarrow> next req (with_color recordLimiterAllow priority w1))"

section \<open>The marker\<close>

text \<open>The search of the script: the first tier with a burst and a token left.\<close>

fun find_bucket ::
  "'w hash_ops \<Rightarrow> int \<Rightarrow> 'w \<Rightarrow> string list \<Rightarrow> int list \<Rightarrow> rat list \<Rightarrow> (nat \<times> int) option" where
  "find_bucket H nowUnix w (k # keys) (b # bursts) (r # rates) =
     (if 1 \<le> b \<and> 1 \<le> bucket_tokens H k b r nowUnix w
      then Some (0, bucket_tokens H k b r nowUnix w)
      else map_option (\<lambda>(i, t). (Suc i, t)) (find_bucket H nowUnix w keys bursts rates))"
| "find_bucket H nowUnix w _ _ _ = None"

definition tokenBucketColorMarkerAquireLuaScript ::
  "'w hash_ops \<Rightarrow> string list \<Rightarrow> int list \<Rightarrow> rat list \<Rightarrow> int \<Rightarrow> int list \<Rightarrow> 'w \<Rightarrow> (int \<times> string) \<times> 'w" where
  "tokenBucketColorMarkerAquireLuaScript H keys bursts rates nowUnix ttls w =
     (case find_bucket H nowUnix w keys bursts rates of
        None \<Rightarrow> ((0, ''''), w)
      | Some (i, tokens) \<Rightarrow>
          ((int (length bursts) - int i, dec_nat i),
           HEXPIRE H (keys ! i) (ttls ! i) (HMSET H (keys ! i) (tokens - 1) nowUnix w)))"

record request_color_marker =
  rcm_redis :: bool
  rcm_keyPrefix :: string
  rcm_limits :: "int list"
  rcm_rates :: "rat list"
  rcm_ttls :: "int list"
  rcm_window :: int
  rcm_nameSpace :: string
  rcm_scripts :: bool

definition NewRequestColorMarkerEngine ::
  "bool \<Rightarrow> string \<Rightarrow> int list \<Rightarrow> int \<Rightarrow> string \<Rightarrow> bool \<Rightarrow> err + request_color_marker" where
  "NewRequestColorMarkerEngine redis keyPrefix limits window nameSpace nextIsNil =
     (let disabled = \<lparr>rcm_redis = redis, rcm_keyPrefix = keyPrefix, rcm_limits = [], rcm_rates = [],
                      rcm_ttls = [], rcm_window = 0, rcm_nameSpace = nameSpace, rcm_scripts = False\<rparr>
      in if nextIsNil then Inl (Plain ''next engine must not be nil'')
         else if limits = [] then Inr disabled
         else let (normalizedLimits, normalized) = normalizeConcurrencyMarkerRates limits
              in if normalizedLimits = [] then Inr disabled
                 else if window \<le> 0 then Inl (Plain ''window must be positive'')
                 else Inr \<lparr>rcm_redis = redis, rcm_keyPrefix = keyPrefix, rcm_limits = normalizedLimits,
                           rcm_rates = map (tier_rate window) normalizedLimits,
                           rcm_ttls = map (tier_ttl window) normalizedLimits, rcm_window = window,
                           rcm_nameSpace = nameSpace, rcm_scripts = True\<rparr>)"

definition rcm_allow ::
  "'w hash_ops \<Rightarrow> request_color_marker \<Rightarrow> ctx \<Rightarrow> int \<Rightarrow> net \<Rightarrow> 'w \<Rightarrow> (ctx \<times> err option \<times> int) \<times> 'w" where
  "rcm_allow H e c nowUnix n w =
     (if rcm_limits e = [] \<or> \<not> rcm_redis e \<or> \<not> rcm_scripts e then ((c, None, 0), w)
      else
        let keys = map (tier_key (rcm_keyPrefix e)) [0..<length (rcm_limits e)];
            (res, w') = run_script n
              (tokenBucketColorMarkerAquireLuaScript H keys (rcm_limits e) (rcm_rates e) nowUnix (rcm_ttls e)) w
        in case res of
             Inl er \<Rightarrow> ((c, Some (Wrap ''token bucket script error'' [er]), 0), w')
           | Inr (acquired, _) \<Rightarrow>
               if acquired = 0 then ((c, Some ErrRateLimitReached, 0), w')
               else let priority = acquired - 1
                    in ((setPriorityToContext (rcm_nameSpace e) c priority, None, priority), w'))"

definition rcm_process ::
  "'w hash_ops \<Rightarrow> request_color_marker \<Rightarrow> int \<Rightarrow> net
    \<Rightarrow> ('w color_world, 'z request_scheme, 'rs) engine \<Rightarrow> ('w color_world, 'z request_scheme, 'rs) engine" where
  "rcm_process H e nowUnix n next req w =
     (let ((newCtx, er, priority), r1) = rcm_allow H e (req_ctx req) nowUnix n (cw_redis w);
          w1 = w\<lparr>cw_redis := r1\<rparr>
      in case er of
           Some er \<Rightarrow>
             ((None, Some er),
              if errors_is er ''ErrRateLimitReached'' then with_color recordMarkerDeny priority w1 else w1)
         | None \<Rightarrow> next (WithContext req newCtx) (with_color recordMarkerAllow priority w1))"

section \<open>The limiter as a bucket engine\<close>

definition tier_tokens :: "('w \<Rightarrow> buckets) \<Rightarrow> string \<Rightarrow> int list \<Rightarrow> rat list \<Rightarrow> int \<Rightarrow> nat \<Rightarrow> 'w \<Rightarrow> int" where
  "tier_tokens hview prefix limits rates now i w =
     refill (limits ! i) (rates ! i) now (hview w (tier_key prefix i))"

definition rcl_free :: "('w \<Rightarrow> buckets) \<Rightarrow> request_color_limiter \<Rightarrow> int \<Rightarrow> nat \<Rightarrow> 'w \<Rightarrow> bool" where
  "rcl_free hview e now i w \<longleftrightarrow>
     1 \<le> tier_tokens hview (rcl_keyPrefix e) (rcl_limits e) (rcl_rates e) now i w \<and>
     int i < tier_tokens hview (rcl_keyPrefix e) (rcl_limits e) (rcl_rates e) now 0 w"

definition rcl_keys :: "request_color_limiter \<Rightarrow> nat \<Rightarrow> string list" where
  "rcl_keys e i = (if i = 0 then [tier_key (rcl_keyPrefix e) 0]
                   else [tier_key (rcl_keyPrefix e) i, tier_key (rcl_keyPrefix e) 0])"

definition rcl_api :: "'w hash_ops \<Rightarrow> request_color_limiter \<Rightarrow> (ctx, 'w) bucket_api" where
  "rcl_api H e = (\<lambda>c now n w.
     (case rcl_allow H e c now n w of
        ((p, None), w') \<Rightarrow> (Inr (rcl_keys e (color_tier (length (rcl_limits e)) (rcl_priority e c))), w')
      | ((p, Some er), w') \<Rightarrow> (Inl er, w')))"

locale enabled_rcl = redis_hash H hview
  for H :: "'w hash_ops" and hview :: "'w \<Rightarrow> buckets" +
  fixes e :: request_color_limiter
  assumes enabled: "rcl_limits e \<noteq> []" "rcl_redis e" "rcl_scripts e"
    and limits: "\<And>x. x \<in> set (rcl_limits e) \<Longrightarrow> 0 \<le> x \<and> x < 2 ^ 53"
    and window: "0 < rcl_window e" "rcl_window e < 2 ^ 63"
    and rates: "rcl_rates e = map (tier_rate (rcl_window e)) (rcl_limits e)"
    and ttls: "rcl_ttls e = map (tier_ttl (rcl_window e)) (rcl_limits e)"
begin

abbreviation tokens :: "int \<Rightarrow> nat \<Rightarrow> 'w \<Rightarrow> int" where
  "tokens \<equiv> tier_tokens hview (rcl_keyPrefix e) (rcl_limits e) (rcl_rates e)"

abbreviation Bt :: "string \<Rightarrow> int" where "Bt \<equiv> tier_val 0 (rcl_keyPrefix e) (rcl_limits e)"
abbreviation rt :: "string \<Rightarrow> rat" where "rt \<equiv> tier_val 0 (rcl_keyPrefix e) (rcl_rates e)"
abbreviation tt :: "string \<Rightarrow> int" where "tt \<equiv> tier_val 0 (rcl_keyPrefix e) (rcl_ttls e)"

lemma lengths [simp]: "length (rcl_rates e) = length (rcl_limits e)" "length (rcl_ttls e) = length (rcl_limits e)"
  by (simp_all add: rates ttls)

lemma ttl_pos: "i < length (rcl_limits e) \<Longrightarrow> 0 < rcl_ttls e ! i"
  using tier_full(2) [OF window, of "rcl_limits e ! i"] limits by (simp add: ttls)

lemma tier0: "0 < length (rcl_limits e)"
  using enabled by simp

lemma rcl_allow_world:
  fixes c :: ctx
  defines "i \<equiv> color_tier (length (rcl_limits e)) (rcl_priority e c)"
  shows "hview (snd (rcl_allow H e c now n w)) =
     (if n \<noteq> LostRequest \<and> rcl_free hview e now i w
      then consume Bt rt tt now (rcl_keys e i) (hview w) else hview w)"
proof -
  have i: "i < length (rcl_limits e)" using tier0 by (simp add: i_def color_tier_less)
  note t = ttl_pos [OF i] ttl_pos [OF tier0]
  show ?thesis
  proof (cases "i = 0")
    case True
    then show ?thesis using enabled tier0 t(2)
      by (cases n) (auto simp: rcl_allow_def Let_def i_def [symmetric] tokenBucket_view rcl_free_def tier_tokens_def
          rcl_keys_def consume_def fun_eq_iff)
  next
    case False
    then show ?thesis using enabled tier0 t i
      by (cases n) (auto simp: rcl_allow_def Let_def i_def [symmetric] dualTokenBucketLuaScript_def view_simps
          rcl_free_def tier_tokens_def rcl_keys_def consume_def fun_eq_iff)
  qed
qed

lemma rcl_allow_result:
  fixes c :: ctx
  defines "i \<equiv> color_tier (length (rcl_limits e)) (rcl_priority e c)"
  shows "fst (rcl_allow H e c now n w) =
     (if n \<noteq> Delivered
      then (0, Some (Wrap ''token bucket script error'' [Plain ''redis: connection error'']))
      else if rcl_free hview e now i w then (rcl_priority e c, None)
      else (rcl_priority e c, Some ErrRateLimitReached))"
proof (cases "i = 0")
  case True
  then show ?thesis using enabled ttl_pos [OF tier0]
    by (cases n) (auto simp: rcl_allow_def Let_def i_def [symmetric] tokenBucket_view rcl_free_def tier_tokens_def)
next
  case False
  then show ?thesis using enabled
    by (cases n) (auto simp: rcl_allow_def Let_def i_def [symmetric] dualTokenBucketLuaScript_def view_simps
        rcl_free_def tier_tokens_def)
qed

end

lemma tier_full_val:
  assumes "limits \<noteq> []" "\<And>x. x \<in> set limits \<Longrightarrow> 0 \<le> x \<and> x < 2 ^ 53" "0 < window" "window < 2 ^ 63"
  shows "of_int (tier_val 0 p limits k) \<le>
      tier_val 0 p (map (tier_rate window) limits) k * of_int (tier_val 0 p (map (tier_ttl window) limits) k)"
    and "0 \<le> tier_val 0 p limits k" "0 \<le> tier_val 0 p (map (tier_rate window) limits) k"
proof -
  consider i where "i < length limits" "k = tier_key p i" | "\<forall>i<length limits. k \<noteq> tier_key p i" by blast
  then have "of_int (tier_val 0 p limits k) \<le>
      tier_val 0 p (map (tier_rate window) limits) k * of_int (tier_val 0 p (map (tier_ttl window) limits) k) \<and>
      0 \<le> tier_val 0 p limits k \<and> 0 \<le> tier_val 0 p (map (tier_rate window) limits) k"
  proof cases
    case (1 i)
    then show ?thesis
      using tier_full(1) [OF assms(3,4), of "limits ! i"] assms(2) [of "limits ! i"]
        tier_rate_nonneg [OF assms(3)] by simp
  next
    case 2
    then have "tier_val 0 p limits k = 0" "tier_val 0 p (map (tier_rate window) limits) k = 0"
      using tier_val_cases [of limits k p 0] tier_val_cases [of "map (tier_rate window) limits" k p 0] by auto
    then show ?thesis by simp
  qed
  then show "of_int (tier_val 0 p limits k) \<le>
      tier_val 0 p (map (tier_rate window) limits) k * of_int (tier_val 0 p (map (tier_ttl window) limits) k)"
    "0 \<le> tier_val 0 p limits k" "0 \<le> tier_val 0 p (map (tier_rate window) limits) k" by blast+
qed

sublocale enabled_rcl \<subseteq> bucket: bucket_engine H hview "rcl_api H e"
    "tier_val 0 (rcl_keyPrefix e) (rcl_limits e)" "tier_val 0 (rcl_keyPrefix e) (rcl_rates e)"
    "tier_val 0 (rcl_keyPrefix e) (rcl_ttls e)"
proof (unfold_locales, goal_cases)
  case (1 k)
  then show ?case using tier_full_val(2) [OF enabled(1) limits window] .
next
  case (2 k)
  then show ?case unfolding rates using tier_full_val(3) [OF enabled(1) limits window] .
next
  case (3 k)
  then show ?case unfolding rates ttls using tier_full_val(1) [OF enabled(1) limits window] .
next
  case (4 c now n w res w')
  let ?i = "color_tier (length (rcl_limits e)) (rcl_priority e c)"
  have i: "?i < length (rcl_limits e)" using tier0 by (simp add: color_tier_less)
  have w': "w' = snd (rcl_allow H e c now n w)" and res: "res =
      (case fst (rcl_allow H e c now n w) of (p, None) \<Rightarrow> Inr (rcl_keys e ?i) | (p, Some er) \<Rightarrow> Inl er)"
    using 4 by (auto simp: rcl_api_def split: prod.splits option.splits)
  show ?case
  proof (cases "n \<noteq> LostRequest \<and> rcl_free hview e now ?i w")
    case True
    then have "\<forall>k\<in>set (rcl_keys e ?i). 1 \<le> refill (Bt k) (rt k) now (hview w k)"
      using i tier0 by (auto simp: rcl_keys_def rcl_free_def tier_tokens_def)
    with True show ?thesis unfolding w' res rcl_allow_world rcl_allow_result
      by (intro exI [of _ "rcl_keys e ?i"]) auto
  next
    case False
    then show ?thesis unfolding w' res rcl_allow_world rcl_allow_result
      by (intro exI [of _ "[]"]) (auto simp: consume_def)
  qed
qed

section \<open>The marker as a bucket engine\<close>

lemma find_bucket_Some:
  "find_bucket H now w keys bursts rates = Some (i, t) \<Longrightarrow>
     i < length keys \<and> i < length bursts \<and> i < length rates \<and> 1 \<le> bursts ! i \<and> 1 \<le> t \<and>
     t = bucket_tokens H (keys ! i) (bursts ! i) (rates ! i) now w \<and>
     (\<forall>j<i. \<not> (1 \<le> bursts ! j \<and> 1 \<le> bucket_tokens H (keys ! j) (bursts ! j) (rates ! j) now w))"
proof (induction H now w keys bursts rates arbitrary: i t rule: find_bucket.induct)
  case (1 H now w k keys b bursts r rates)
  then show ?case by (fastforce simp: less_Suc_eq_0_disj nth_Cons' split: if_splits)
qed auto

lemma find_bucket_None:
  "find_bucket H now w keys bursts rates = None \<Longrightarrow> i < length keys \<Longrightarrow> i < length bursts \<Longrightarrow>
     i < length rates \<Longrightarrow>
     \<not> (1 \<le> bursts ! i \<and> 1 \<le> bucket_tokens H (keys ! i) (bursts ! i) (rates ! i) now w)"
  by (induction H now w keys bursts rates arbitrary: i rule: find_bucket.induct)
    (auto simp: nth_Cons' split: if_splits)

definition rcm_tier :: "'w hash_ops \<Rightarrow> request_color_marker \<Rightarrow> int \<Rightarrow> 'w \<Rightarrow> (nat \<times> int) option" where
  "rcm_tier H e now w =
     find_bucket H now w (map (tier_key (rcm_keyPrefix e)) [0..<length (rcm_limits e)])
       (rcm_limits e) (rcm_rates e)"

definition rcm_api :: "'w hash_ops \<Rightarrow> request_color_marker \<Rightarrow> (ctx, 'w) bucket_api" where
  "rcm_api H e = (\<lambda>c now n w.
     (case rcm_allow H e c now n w of
        ((c', None, p), w') \<Rightarrow> (Inr [tier_key (rcm_keyPrefix e) (nat (int (length (rcm_limits e)) - 1 - p))], w')
      | ((c', Some er, p), w') \<Rightarrow> (Inl er, w')))"

locale enabled_rcm = redis_hash H hview
  for H :: "'w hash_ops" and hview :: "'w \<Rightarrow> buckets" +
  fixes e :: request_color_marker
  assumes enabled: "rcm_limits e \<noteq> []" "rcm_redis e" "rcm_scripts e"
    and limits: "\<And>x. x \<in> set (rcm_limits e) \<Longrightarrow> 0 \<le> x \<and> x < 2 ^ 53"
    and window: "0 < rcm_window e" "rcm_window e < 2 ^ 63"
    and rates: "rcm_rates e = map (tier_rate (rcm_window e)) (rcm_limits e)"
    and ttls: "rcm_ttls e = map (tier_ttl (rcm_window e)) (rcm_limits e)"
begin

lemma lengths [simp]: "length (rcm_rates e) = length (rcm_limits e)" "length (rcm_ttls e) = length (rcm_limits e)"
  by (simp_all add: rates ttls)

lemma ttl_pos: "i < length (rcm_limits e) \<Longrightarrow> 0 < rcm_ttls e ! i"
  using tier_full(2) [OF window, of "rcm_limits e ! i"] limits by (simp add: ttls)

lemma rcm_tier_Some:
  assumes "rcm_tier H e now w = Some (i, t)"
  shows "i < length (rcm_limits e)" "1 \<le> rcm_limits e ! i" "1 \<le> t"
    "t = tier_tokens hview (rcm_keyPrefix e) (rcm_limits e) (rcm_rates e) now i w"
    "j < i \<Longrightarrow> tier_tokens hview (rcm_keyPrefix e) (rcm_limits e) (rcm_rates e) now j w < 1"
proof -
  note f = find_bucket_Some [OF assms [unfolded rcm_tier_def]]
  then show i: "i < length (rcm_limits e)" and "1 \<le> rcm_limits e ! i" "1 \<le> t"
    "t = tier_tokens hview (rcm_keyPrefix e) (rcm_limits e) (rcm_rates e) now i w"
    by (auto simp: tier_tokens_def bucket_tokens_refill)
  show "tier_tokens hview (rcm_keyPrefix e) (rcm_limits e) (rcm_rates e) now j w < 1" if "j < i"
    using f that i refill_le [of "rcm_limits e ! j" "rcm_rates e ! j" now "hview w (tier_key (rcm_keyPrefix e) j)"]
    by (fastforce simp: tier_tokens_def bucket_tokens_refill)
qed

lemma rcm_tier_None:
  assumes "rcm_tier H e now w = None" "i < length (rcm_limits e)"
  shows "tier_tokens hview (rcm_keyPrefix e) (rcm_limits e) (rcm_rates e) now i w < 1"
  using find_bucket_None [OF assms(1) [unfolded rcm_tier_def], of i] assms(2)
    refill_le [of "rcm_limits e ! i" "rcm_rates e ! i" now "hview w (tier_key (rcm_keyPrefix e) i)"]
  by (fastforce simp: tier_tokens_def bucket_tokens_refill)

lemma rcm_allow_world:
  "hview (snd (rcm_allow H e c now n w)) =
     (case rcm_tier H e now w of
        Some (i, t) \<Rightarrow> if n = LostRequest then hview w
          else (hview w)(tier_key (rcm_keyPrefix e) i \<mapsto> (t - 1, now, rcm_ttls e ! i))
      | None \<Rightarrow> hview w)"
  using enabled rcm_tier_Some(1) [of now w] ttl_pos
  by (cases n) (auto simp: rcm_allow_def tokenBucketColorMarkerAquireLuaScript_def rcm_tier_def [symmetric]
      Let_def view_simps case_prod_beta split: option.splits)

lemma rcm_allow_result:
  "fst (rcm_allow H e c now n w) =
     (if n \<noteq> Delivered
      then (c, Some (Wrap ''token bucket script error'' [Plain ''redis: connection error'']), 0)
      else case rcm_tier H e now w of
             None \<Rightarrow> (c, Some ErrRateLimitReached, 0)
           | Some (i, t) \<Rightarrow> (let p = int (length (rcm_limits e)) - 1 - int i
                           in (setPriorityToContext (rcm_nameSpace e) c p, None, p)))"
  using enabled rcm_tier_Some(1) [of now w]
  by (cases n) (auto simp: rcm_allow_def tokenBucketColorMarkerAquireLuaScript_def rcm_tier_def [symmetric]
      Let_def case_prod_beta algebra_simps split: option.splits)

end

sublocale enabled_rcm \<subseteq> bucket: bucket_engine H hview "rcm_api H e"
    "tier_val 0 (rcm_keyPrefix e) (rcm_limits e)" "tier_val 0 (rcm_keyPrefix e) (rcm_rates e)"
    "tier_val 0 (rcm_keyPrefix e) (rcm_ttls e)"
proof (unfold_locales, goal_cases)
  case (1 k)
  then show ?case using tier_full_val(2) [OF enabled(1) limits window] .
next
  case (2 k)
  then show ?case unfolding rates using tier_full_val(3) [OF enabled(1) limits window] .
next
  case (3 k)
  then show ?case unfolding rates ttls using tier_full_val(1) [OF enabled(1) limits window] .
next
  case (4 c now n w res w')
  have w': "w' = snd (rcm_allow H e c now n w)" and res: "res =
      (case fst (rcm_allow H e c now n w) of
         (c', None, p) \<Rightarrow> Inr [tier_key (rcm_keyPrefix e) (nat (int (length (rcm_limits e)) - 1 - p))]
       | (c', Some er, p) \<Rightarrow> Inl er)"
    using 4 by (auto simp: rcm_api_def split: prod.splits option.splits)
  show ?case
  proof (cases "rcm_tier H e now w")
    case None
    then show ?thesis unfolding w' res rcm_allow_world rcm_allow_result
      by (intro exI [of _ "[]"]) (auto simp: consume_def)
  next
    case (Some it)
    obtain i t where it: "it = (i, t)" by (cases it)
    note i = rcm_tier_Some [OF Some [unfolded it]]
    show ?thesis
    proof (cases "n = LostRequest")
      case True
      then show ?thesis unfolding w' res rcm_allow_world rcm_allow_result
        by (intro exI [of _ "[]"]) (auto simp: consume_def Some it)
    next
      case False
      then show ?thesis unfolding w' res rcm_allow_world rcm_allow_result using i
        by (intro exI [of _ "[tier_key (rcm_keyPrefix e) i]"])
          (auto simp: consume_def Some it Let_def tier_tokens_def fun_eq_iff)
    qed
  qed
qed

section \<open>Properties\<close>

lemma NewRequestColorLimiterEngine_locale:
  assumes "redis_hash H hview"
    and "NewRequestColorLimiterEngine True prefix c per window ns False = Inr e"
    and "0 < c \<or> per \<noteq> []" and "window < 2 ^ 63"
    and "\<And>x. x \<in> set (buildTotalPlusPerPriorityLimits c per) \<Longrightarrow> x < 2 ^ 53"
  shows "enabled_rcl H hview e" and "rcl_keyPrefix e = prefix"
    and "rcl_limits e = buildTotalPlusPerPriorityLimits c per" and "rcl_window e = window"
    and "rcl_nameSpace e = ns"
proof -
  have ne: "buildTotalPlusPerPriorityLimits c per \<noteq> []"
    using assms(3) by (auto simp: build_limits_Nil)
  have e: "0 < window" "e = \<lparr>rcl_redis = True, rcl_keyPrefix = prefix,
      rcl_limits = buildTotalPlusPerPriorityLimits c per,
      rcl_rates = map (tier_rate window) (buildTotalPlusPerPriorityLimits c per),
      rcl_ttls = map (tier_ttl window) (buildTotalPlusPerPriorityLimits c per),
      rcl_window = window, rcl_nameSpace = ns, rcl_scripts = True\<rparr>"
    using assms(2) ne by (auto simp: NewRequestColorLimiterEngine_def Let_def split: if_splits)
  show "rcl_keyPrefix e = prefix" "rcl_limits e = buildTotalPlusPerPriorityLimits c per"
    "rcl_window e = window" "rcl_nameSpace e = ns" by (simp_all add: e)
  show "enabled_rcl H hview e"
    using assms(1,4,5) ne e(1) build_limits_nonneg
    by (auto simp: enabled_rcl_def enabled_rcl_axioms_def e(2))
qed

context enabled_rcl
begin

lemmas tier_bound = bucket.admitted_bound

end

text \<open>Over any number of gateways and any window of time, tier \<open>i\<close> of a request color
  limiter admits at most its limit plus what its rate adds; tier 0 counts the requests of every
  priority, so its limit bounds the total.\<close>

theorem request_color_rates_bounded:
  assumes "redis_hash H hview"
    and "NewRequestColorLimiterEngine True prefix c per window ns False = Inr e"
    and "0 < c \<or> per \<noteq> []" and "window < 2 ^ 63"
    and "\<And>x. x \<in> set (buildTotalPlusPerPriorityLimits c per) \<Longrightarrow> x < 2 ^ 53"
    and "i < length (buildTotalPlusPerPriorityLimits c per)"
    and "bucket_run hview (rcl_api H e) s s'"
    and "bucket_ok (tier_ttl window (buildTotalPlusPerPriorityLimits c per ! i)) (b_clock s)
           (hview (b_server s) (tier_key prefix i))"
  shows "of_int (b_admitted s' (tier_key prefix i) - b_admitted s (tier_key prefix i))
     \<le> of_int (buildTotalPlusPerPriorityLimits c per ! i) +
        (1 + 1 / 2 ^ 53) * tier_rate window (buildTotalPlusPerPriorityLimits c per ! i) * of_int (b_clock s' - b_clock s)"
proof -
  note L = NewRequestColorLimiterEngine_locale [OF assms(1-5)]
  have b: "tier_val 0 prefix (rcl_limits e) (tier_key prefix i) = buildTotalPlusPerPriorityLimits c per ! i"
    "tier_val 0 prefix (rcl_rates e) (tier_key prefix i) = tier_rate window (buildTotalPlusPerPriorityLimits c per ! i)"
    "tier_val 0 prefix (rcl_ttls e) (tier_key prefix i) = tier_ttl window (buildTotalPlusPerPriorityLimits c per ! i)"
    using assms(6) enabled_rcl.rates [OF L(1)] enabled_rcl.ttls [OF L(1)] L(3,4) by simp_all
  show ?thesis
    using enabled_rcl.tier_bound [OF L(1) assms(7), of "tier_key prefix i"] assms(8)
    by (simp add: up_rate_def b L(2))
qed

text \<open>Two bands of two and one requests per minute, total three.\<close>

definition demo_rcl :: request_color_limiter where
  "demo_rcl = \<lparr>rcl_redis = True, rcl_keyPrefix = ''k'', rcl_limits = [3, 2, 1],
     rcl_rates = map (tier_rate (60 * second)) [3, 2, 1], rcl_ttls = map (tier_ttl (60 * second)) [3, 2, 1],
     rcl_window = 60 * second, rcl_nameSpace = ''ns'', rcl_scripts = True\<rparr>"

interpretation demo_rcl: enabled_rcl ref_hash "\<lambda>d. d" demo_rcl
  by unfold_locales (auto simp: demo_rcl_def)

lemma demo_rcl_new:
  "NewRequestColorLimiterEngine True ''k'' 0 [2, 1] (60 * second) ''ns'' False = Inr demo_rcl"
  "buildTotalPlusPerPriorityLimits 0 [2, 1] = [3, 2, 1]"
  by (simp_all add: NewRequestColorLimiterEngine_def demo_rcl_def buildTotalPlusPerPriorityLimits_def)

theorem request_color_rates_bounded_witness:
  "of_int (b_admitted (after_request (rcl_api ref_hash demo_rcl) Map.empty Delivered demo_rl_start) (tier_key ''k'' 2))
     \<le> (1 :: rat)"
proof -
  have r: "bucket_run (\<lambda>d. d) (rcl_api ref_hash demo_rcl) demo_rl_start
      (after_request (rcl_api ref_hash demo_rcl) Map.empty Delivered demo_rl_start)"
    by (rule run_request [OF run_start])
  have c: "b_clock (after_request (rcl_api ref_hash demo_rcl) Map.empty Delivered demo_rl_start) = 1000"
    by (simp add: after_request_def demo_rl_start_def split: prod.splits)
  have l: "x < 2 ^ 53" if "x \<in> set (buildTotalPlusPerPriorityLimits 0 [2, 1])" for x
    using that by (auto simp: demo_rcl_new(2))
  have b: "bucket_ok (tier_ttl (60 * second) (buildTotalPlusPerPriorityLimits 0 [2, 1] ! 2)) (b_clock demo_rl_start)
           (b_server demo_rl_start (tier_key ''k'' 2))"
    by (simp add: bucket_ok_def demo_rl_start_def)
  show ?thesis
    using request_color_rates_bounded [OF ref.redis_hash_axioms demo_rcl_new(1) _ _ l _ r b]
    by (simp add: c demo_rcl_new(2)) (simp add: demo_rl_start_def)
qed

text \<open>Requests one after the other, each with its context and time.\<close>

fun rcl_sequence :: "'w hash_ops \<Rightarrow> request_color_limiter \<Rightarrow> (ctx \<times> int) list \<Rightarrow> 'w \<Rightarrow> (int \<times> err option) list \<times> 'w" where
  "rcl_sequence H e [] w = ([], w)"
| "rcl_sequence H e ((c, now) # rs) w =
     (let (r, w1) = rcl_allow H e c now Delivered w; (out, w2) = rcl_sequence H e rs w1
      in (r # out, w2))"

context enabled_rcl
begin

lemma refill_grows:
  assumes "0 \<le> r" "l \<le> now" "t \<le> b"
  shows "t \<le> refill b r now (Some (t, l, x))"
proof -
  have "0 \<le> \<lfloor>fmul (of_int (now - l)) r\<rfloor>"
    unfolding fmul_def by (rule b64.floor_nonneg) (use assms in simp)
  then show ?thesis using assms(3) by (simp add: refill_def)
qed

lemma high_sequence:
  assumes "hview w (tier_key (rcl_keyPrefix e) 0) = Some (t, l, x)" "int (length rs) \<le> t" "t \<le> rcl_limits e ! 0"
    and "sorted (l # map snd rs)" "\<forall>(c, now)\<in>set rs. int (length (rcl_limits e)) - 1 \<le> rcl_priority e c"
  shows "\<forall>(p, er)\<in>set (fst (rcl_sequence H e rs w)). er = None"
  using assms
proof (induction rs arbitrary: w t l x)
  case (Cons a rs)
  obtain c now where a: "a = (c, now)" by (cases a)
  let ?k = "tier_key (rcl_keyPrefix e) 0"
  have i: "color_tier (length (rcl_limits e)) (rcl_priority e c) = 0"
    using Cons.prems(5) by (simp add: a color_tier_def)
  have r0: "0 \<le> rcl_rates e ! 0" using tier_rate_nonneg [OF window(1)] enabled by (simp add: rates)
  let ?t = "refill (rcl_limits e ! 0) (rcl_rates e ! 0) now (hview w ?k)"
  have t: "t \<le> ?t" "?t \<le> rcl_limits e ! 0"
    using refill_grows [OF r0, of l now t "rcl_limits e ! 0" x] Cons.prems(1,3,4) refill_le by (simp_all add: a)
  have free: "rcl_free hview e now 0 w"
    using t(1) Cons.prems(2) by (simp add: rcl_free_def tier_tokens_def)
  have w1: "hview (snd (rcl_allow H e c now Delivered w)) ?k = Some (?t - 1, now, rcl_ttls e ! 0)"
    using free tier0 by (simp add: rcl_allow_world i rcl_keys_def consume_def)
  have "\<forall>(p, er)\<in>set (fst (rcl_sequence H e rs (snd (rcl_allow H e c now Delivered w)))). er = None"
    by (rule Cons.IH [OF w1]) (use Cons.prems t in \<open>auto simp: a\<close>)
  moreover have "snd (fst (rcl_allow H e c now Delivered w)) = None"
    using free by (simp add: rcl_allow_result i)
  ultimately show ?case by (auto simp: a Let_def case_prod_beta)
qed simp

lemma admitted_leaves_room:
  assumes "rcl_allow H e c now Delivered w = ((p, None), w')"
  shows "\<exists>t x. hview w' (tier_key (rcl_keyPrefix e) 0) = Some (t, now, x) \<and>
     int (color_tier (length (rcl_limits e)) (rcl_priority e c)) \<le> t \<and> t \<le> rcl_limits e ! 0"
proof -
  let ?i = "color_tier (length (rcl_limits e)) (rcl_priority e c)" and ?k = "tier_key (rcl_keyPrefix e) 0"
  have free: "rcl_free hview e now ?i w"
    using assms rcl_allow_result [of c now Delivered w] by (simp split: if_splits)
  have "w' = snd (rcl_allow H e c now Delivered w)" using assms by simp
  then have "hview w' ?k = Some (tokens now 0 w - 1, now, rcl_ttls e ! 0)"
    using free tier0 by (simp add: rcl_allow_world rcl_keys_def consume_def tier_tokens_def)
  moreover have "tokens now 0 w \<le> rcl_limits e ! 0" by (simp add: tier_tokens_def refill_le)
  ultimately show ?thesis using free by (simp add: rcl_free_def)
qed

end

text \<open>Reservation. Once a request of tier \<open>i\<close> has been admitted, the next \<open>i\<close> requests of
  the highest priority are admitted as well, at whatever later times they come.\<close>

theorem request_color_reservation:
  assumes "redis_hash H hview"
    and "NewRequestColorLimiterEngine True prefix c per window ns False = Inr e"
    and "0 < c \<or> per \<noteq> []" and "window < 2 ^ 63"
    and "\<And>x. x \<in> set (buildTotalPlusPerPriorityLimits c per) \<Longrightarrow> x < 2 ^ 53"
    and "rcl_allow H e cx now Delivered w = ((p, None), w')"
    and "length rs \<le> color_tier (length (buildTotalPlusPerPriorityLimits c per)) (rcl_priority e cx)"
    and "sorted (now # map snd rs)"
    and "\<forall>(c', t)\<in>set rs. int (length (buildTotalPlusPerPriorityLimits c per)) - 1 \<le> rcl_priority e c'"
  shows "list_all (\<lambda>(p, er). er = None) (fst (rcl_sequence H e rs w'))"
proof -
  note L = NewRequestColorLimiterEngine_locale [OF assms(1-5)]
  obtain t x where t: "hview w' (tier_key (rcl_keyPrefix e) 0) = Some (t, now, x)"
    "int (color_tier (length (rcl_limits e)) (rcl_priority e cx)) \<le> t" "t \<le> rcl_limits e ! 0"
    using enabled_rcl.admitted_leaves_room [OF L(1) assms(6)] by blast
  show ?thesis unfolding list_all_iff
    by (rule enabled_rcl.high_sequence [OF L(1) t(1) _ t(3)]) (use assms(7-9) t(2) L(3) in auto)
qed

lemma demo_rcl_low:
  "rcl_allow ref_hash demo_rcl Map.empty 1000 Delivered Map.empty =
     ((0, None), [tier_key ''k'' 2 \<mapsto> (0, 1000, tier_ttl (60 * second) 1),
                  tier_key ''k'' 0 \<mapsto> (2, 1000, tier_ttl (60 * second) 3)])"
  "rcl_priority demo_rcl Map.empty = 0" "color_tier 3 0 = 2"
proof -
  show p: "rcl_priority demo_rcl Map.empty = 0"
    by (simp add: rcl_priority_def getPriorityFromContext_def)
  show t: "color_tier 3 0 = 2" by (simp add: color_tier_def)
  then have t': "color_tier (Suc (Suc (Suc 0))) 0 = 2" by (simp add: numeral_3_eq_3)
  have k: "tier_key ''k'' 2 \<noteq> tier_key ''k'' 0" by simp
  have d: "rcl_limits demo_rcl = [3, 2, 1]" "rcl_redis demo_rcl" "rcl_scripts demo_rcl" "rcl_keyPrefix demo_rcl = ''k''"
    "rcl_rates demo_rcl = map (tier_rate (60 * second)) [3, 2, 1]" "rcl_ttls demo_rcl = map (tier_ttl (60 * second)) [3, 2, 1]"
    by (simp_all add: demo_rcl_def)
  show "rcl_allow ref_hash demo_rcl Map.empty 1000 Delivered Map.empty =
     ((0, None), [tier_key ''k'' 2 \<mapsto> (0, 1000, tier_ttl (60 * second) 1),
                  tier_key ''k'' 0 \<mapsto> (2, 1000, tier_ttl (60 * second) 3)])"
    using k by (simp add: rcl_allow_def p d t' Let_def dualTokenBucketLuaScript_def bucket_tokens_def
        ref_hash_def fun_upd_twist)
qed

lemma demo_rcl_limits: "x \<in> set (buildTotalPlusPerPriorityLimits 0 [2, 1]) \<Longrightarrow> x < 2 ^ 53"
  by (auto simp: demo_rcl_new(2))

theorem request_color_reservation_witness:
  "list_all (\<lambda>(p, er). er = None) (fst (rcl_sequence ref_hash demo_rcl
     [(setPriorityToContext ''ns'' Map.empty 2, 1000), (setPriorityToContext ''ns'' Map.empty 9, 1001)]
     [tier_key ''k'' 2 \<mapsto> (0, 1000, tier_ttl (60 * second) 1),
      tier_key ''k'' 0 \<mapsto> (2, 1000, tier_ttl (60 * second) 3)]))"
proof -
  have "rcl_nameSpace demo_rcl = ''ns''" by (simp add: demo_rcl_def)
  then have p: "rcl_priority demo_rcl (setPriorityToContext ''ns'' Map.empty 2) = 2"
    "rcl_priority demo_rcl (setPriorityToContext ''ns'' Map.empty 9) = 9"
    by (simp_all add: rcl_priority_def)
  show ?thesis
    by (rule request_color_reservation [OF ref.redis_hash_axioms demo_rcl_new(1) _ _ demo_rcl_limits demo_rcl_low(1)])
      (simp_all add: demo_rcl_new(2) demo_rcl_low(2) p color_tier_def)
qed

lemma NewRequestColorMarkerEngine_locale:
  assumes "redis_hash H hview"
    and "NewRequestColorMarkerEngine True prefix limits window ns False = Inr e"
    and "limits \<noteq> []" and "window < 2 ^ 63" and "\<And>x. x \<in> set limits \<Longrightarrow> x < 2 ^ 53"
  shows "enabled_rcm H hview e" and "rcm_keyPrefix e = prefix"
    and "rcm_limits e = map (max 0) limits" and "rcm_window e = window" and "rcm_nameSpace e = ns"
proof -
  have e: "0 < window" "e = \<lparr>rcm_redis = True, rcm_keyPrefix = prefix, rcm_limits = map (max 0) limits,
      rcm_rates = map (tier_rate window) (map (max 0) limits),
      rcm_ttls = map (tier_ttl window) (map (max 0) limits),
      rcm_window = window, rcm_nameSpace = ns, rcm_scripts = True\<rparr>"
    using assms(2,3) by (auto simp: NewRequestColorMarkerEngine_def normalizeConcurrencyMarkerRates_def
        Let_def max_def comp_def split: if_splits)
  show "rcm_keyPrefix e = prefix" "rcm_limits e = map (max 0) limits"
    "rcm_window e = window" "rcm_nameSpace e = ns" by (simp_all add: e)
  show "enabled_rcm H hview e"
    using assms(1,3,4,5) e(1) by (auto simp: enabled_rcm_def enabled_rcm_axioms_def e(2))
qed

text \<open>The request marker gives an admitted request the highest priority whose bucket has a
  token and takes exactly that token; the context handed on carries the priority. It refuses
  exactly when every bucket is empty, and then leaves the buckets as they are.\<close>

theorem request_marker_assigns_highest_band:
  assumes "redis_hash H hview"
    and "NewRequestColorMarkerEngine True prefix limits window ns False = Inr e"
    and "limits \<noteq> []" and "window < 2 ^ 63" and "\<And>x. x \<in> set limits \<Longrightarrow> x < 2 ^ 53"
    and "length limits < 2 ^ 63"
    and "rcm_allow H e c now Delivered w = ((c', er, p), w')"
  defines "tokens \<equiv> \<lambda>i. refill (max 0 (limits ! i)) (tier_rate window (max 0 (limits ! i))) now
             (hview w (tier_key prefix i))"
  shows "(er = Some ErrRateLimitReached \<and> c' = c \<and> hview w' = hview w \<and> (\<forall>i<length limits. tokens i < 1)) \<or>
    (er = None \<and> (\<exists>i<length limits. 1 \<le> tokens i \<and> (\<forall>j<i. tokens j < 1) \<and>
       p = int (length limits) - 1 - int i \<and> getPriorityFromContext ns c' = Some p \<and>
       (\<exists>x. hview w' = (hview w)(tier_key prefix i \<mapsto> (tokens i - 1, now, x)))))"
proof -
  note L = NewRequestColorMarkerEngine_locale [OF assms(1-5)]
  have len: "length (rcm_limits e) = length limits" by (simp add: L(3))
  have tok: "tier_tokens hview prefix (rcm_limits e) (rcm_rates e) now i w = tokens i" if "i < length limits" for i
    using that enabled_rcm.rates [OF L(1)] by (simp add: tier_tokens_def tokens_def L(3,4))
  note res = enabled_rcm.rcm_allow_result [OF L(1), of c now Delivered w]
    and world = enabled_rcm.rcm_allow_world [OF L(1), of c now Delivered w]
  show ?thesis
  proof (cases "rcm_tier H e now w")
    case None
    with res world assms(7) enabled_rcm.rcm_tier_None [OF L(1) None] tok show ?thesis
      by (auto simp: L(2) len)
  next
    case (Some it)
    obtain i t where it: "it = (i, t)" by (cases it)
    note i = enabled_rcm.rcm_tier_Some [OF L(1) Some [unfolded it], unfolded L(2) len]
    have "tokens j < 1" if "j < i" for j using i(1) i(5) [of j] tok [of j] that by (simp add: L(2))
    moreover have "t = tokens i" using i(1,4) tok by (simp add: L(2))
    ultimately show ?thesis
      using res world assms(6,7) i(1,3) Some it
      by (auto simp: Let_def len L(2,5) intro!: exI [of _ i])
  qed
qed

definition demo_rcm :: request_color_marker where
  "demo_rcm = \<lparr>rcm_redis = True, rcm_keyPrefix = ''k'', rcm_limits = [0, 1],
     rcm_rates = map (tier_rate (60 * second)) [0, 1], rcm_ttls = map (tier_ttl (60 * second)) [0, 1],
     rcm_window = 60 * second, rcm_nameSpace = ''ns'', rcm_scripts = True\<rparr>"

interpretation demo_rcm: enabled_rcm ref_hash "\<lambda>d. d" demo_rcm
  by unfold_locales (auto simp: demo_rcm_def)

lemma demo_rcm_new:
  "NewRequestColorMarkerEngine True ''k'' [- 5, 1] (60 * second) ''ns'' False = Inr demo_rcm"
  by (simp add: NewRequestColorMarkerEngine_def normalizeConcurrencyMarkerRates_def demo_rcm_def)

lemma demo_rcm_allow:
  "rcm_allow ref_hash demo_rcm Map.empty 1000 Delivered Map.empty =
     ((setPriorityToContext ''ns'' Map.empty 0, None, 0),
      [tier_key ''k'' (Suc 0) \<mapsto> (0, 1000, tier_ttl (60 * second) 1)])"
  by (simp add: rcm_allow_def demo_rcm_def tokenBucketColorMarkerAquireLuaScript_def bucket_tokens_def
      ref_hash_def upt_rec)

theorem request_marker_assigns_highest_band_witness:
  "getPriorityFromContext ''ns'' (setPriorityToContext ''ns'' Map.empty 0) = Some 0 \<and>
   (\<exists>i<length [- 5, 1 :: int]. 0 = int (length [- 5, 1 :: int]) - 1 - int i)"
proof -
  have l: "[- 5, 1 :: int] \<noteq> []" "60 * second < 2 ^ 63" "length [- 5, 1 :: int] < 2 ^ 63" by simp_all
  have m: "x < 2 ^ 53" if "x \<in> set [- 5, 1 :: int]" for x using that by auto
  show ?thesis
    using request_marker_assigns_highest_band [OF ref.redis_hash_axioms demo_rcm_new l(1,2) m l(3) demo_rcm_allow]
    by blast
qed

end
