(* ===== verification/TokenLimiter.thy ===== *)
theory TokenLimiter
  imports RequestLimiter
begin

text \<open>
  \<open>pkg/engines/limiter/token_limiter.go\<close>: a token bucket whose balance may become
  negative. A request is admitted on a positive balance; what it really used is deducted
  afterwards, through callbacks registered in the request's metadata. Reading and writing
  the balance are separate commands.
\<close>

section \<open>Commands\<close>

text \<open>
  \<open>TTL\<close>, \<open>HMGET tokens lastRefill\<close>, \<open>HSET tokens lastRefill\<close> and \<open>EXPIRE\<close>,
  at a time in Unix seconds. \<open>TTL\<close> is not positive for a missing key or one without a
  lifetime. The fields are the strings \<open>HSET\<close> wrote.
\<close>

record 'w token_ops =
  TTL :: "string \<Rightarrow> int \<Rightarrow> 'w \<Rightarrow> int"
  HMGETS :: "string \<Rightarrow> int \<Rightarrow> 'w \<Rightarrow> string option \<times> string option"
  HSETS :: "string \<Rightarrow> string \<Rightarrow> string \<Rightarrow> int \<Rightarrow> 'w \<Rightarrow> 'w"
  EXPIRES :: "string \<Rightarrow> int \<Rightarrow> int \<Rightarrow> 'w \<Rightarrow> 'w"

text \<open>A key holds its two fields and the time at which it expires, if any.\<close>

type_synonym token_view = "string \<rightharpoonup> string \<times> string \<times> int option"

definition alive :: "int \<Rightarrow> (string \<times> string \<times> int option) option \<Rightarrow> (string \<times> string \<times> int option) option" where
  "alive now b = (case b of Some (t, l, Some d) \<Rightarrow> if now < d then b else None | _ \<Rightarrow> b)"

locale token_store =
  fixes S :: "'w token_ops"
    and tview :: "'w \<Rightarrow> token_view"
  assumes TTL_view [view_simps]:
      "TTL S k now w = (case alive now (tview w k) of Some (_, _, Some d) \<Rightarrow> d - now | _ \<Rightarrow> - 1)"
    and HMGETS_view [view_simps]:
      "HMGETS S k now w = (map_option fst (alive now (tview w k)), map_option (fst \<circ> snd) (alive now (tview w k)))"
    and HSETS_view [view_simps]:
      "tview (HSETS S k t l now w) =
         (tview w)(k \<mapsto> (t, l, case alive now (tview w k) of Some (_, _, d) \<Rightarrow> d | None \<Rightarrow> None))"
    and EXPIRES_view [view_simps]:
      "\<And>x. 0 < x \<Longrightarrow> tview (EXPIRES S k x now w) =
         (case alive now (tview w k) of None \<Rightarrow> tview w | Some (t, l, _) \<Rightarrow> (tview w)(k \<mapsto> (t, l, Some (now + x))))"

definition ref_tokens :: "token_view token_ops" where
  "ref_tokens = \<lparr>
     TTL = (\<lambda>k now d. case alive now (d k) of Some (_, _, Some x) \<Rightarrow> x - now | _ \<Rightarrow> - 1),
     HMGETS = (\<lambda>k now d. case alive now (d k) of None \<Rightarrow> (None, None) | Some (t, l, _) \<Rightarrow> (Some t, Some l)),
     HSETS = (\<lambda>k t l now d. d(k \<mapsto> (t, l, case alive now (d k) of Some (_, _, x) \<Rightarrow> x | None \<Rightarrow> None))),
     EXPIRES = (\<lambda>k x now d. case alive now (d k) of None \<Rightarrow> d | Some (t, l, _) \<Rightarrow> d(k \<mapsto> (t, l, Some (now + x))))\<rparr>"

interpretation ref: token_store ref_tokens "\<lambda>d. d"
  by unfold_locales (auto simp: ref_tokens_def split: option.splits prod.splits)

section \<open>The engine\<close>

record token_limiter =
  tl_redis :: bool
  tl_key :: string
  tl_burst :: int
  tl_rate :: rat
  tl_window :: int
  tl_ttl :: int

definition NewTokenLimiterEngine ::
  "bool \<Rightarrow> string \<Rightarrow> int \<Rightarrow> int \<Rightarrow> int \<Rightarrow> bool \<Rightarrow> err + token_limiter" where
  "NewTokenLimiterEngine redis key burst limit window nextIsNil =
     (if nextIsNil then Inl (Plain ''next engine must not be nil'')
      else if burst \<le> 0 \<or> limit \<le> 0
      then Inr \<lparr>tl_redis = redis, tl_key = key, tl_burst = 0, tl_rate = 0, tl_window = 0, tl_ttl = 0\<rparr>
      else if window \<le> 0 then Inl (Plain ''window must be positive'')
      else let rate = fdiv (f64 (of_int limit)) (duration_seconds window);
               fullSeconds = fmul (fdiv (f64 (of_int burst)) (f64 (of_int limit))) (duration_seconds window);
               ttl = (if fullSeconds \<le> 0 then window * 2
                      else trunc64 (fmul (fmul fullSeconds 2) (of_int second)))
           in Inr \<lparr>tl_redis = redis, tl_key = key, tl_burst = burst, tl_rate = rate,
                   tl_window = window, tl_ttl = ttl\<rparr>)"

text \<open>\<open>Sscan\<close> of what \<open>HSET\<close> wrote, a decimal number without leading zeros.\<close>

definition parseInt64 :: "string \<Rightarrow> int option" where
  "parseInt64 s = scan_int s"

text \<open>The defaults and the parsing, as \<open>allow\<close> and \<open>deduction\<close> do it.\<close>

definition tl_fields :: "token_limiter \<Rightarrow> int \<Rightarrow> string option \<times> string option \<Rightarrow> int \<times> int" where
  "tl_fields e nowUnix fs =
     (let field = (\<lambda>v d. case v of
                     Some s \<Rightarrow> if s = '''' then d else (case parseInt64 s of Some x \<Rightarrow> x | None \<Rightarrow> d)
                   | None \<Rightarrow> d);
          lastRefill = field (snd fs) nowUnix
      in (field (fst fs) (tl_burst e), if nowUnix < lastRefill then nowUnix else lastRefill))"

text \<open>The refill: the balance, and whether anything was added.\<close>

definition tl_refill :: "token_limiter \<Rightarrow> int \<Rightarrow> int \<times> int \<Rightarrow> int \<times> bool" where
  "tl_refill e nowUnix st =
     (let (tokens, lastRefill) = st;
          elapsed = nowUnix - lastRefill;
          elapsed = (if elapsed < 0 then 0 else elapsed);
          tokensToAdd = trunc64 (fmul (f64 (of_int elapsed)) (tl_rate e))
      in if 0 < tokensToAdd
         then (if tl_burst e < tokens + tokensToAdd then tl_burst e else tokens + tokensToAdd, True)
         else (tokens, False))"

abbreviation net_err :: err where
  "net_err \<equiv> Plain ''redis: connection error''"

text \<open>\<open>n1\<close> and \<open>n2\<close> are the outcomes of the two reads.\<close>

definition tl_allow :: "'w token_ops \<Rightarrow> token_limiter \<Rightarrow> int \<Rightarrow> net \<Rightarrow> net \<Rightarrow> 'w \<Rightarrow> err option" where
  "tl_allow S e nowUnix n1 n2 w =
     (if tl_burst e \<le> 0 \<or> tl_rate e \<le> 0 \<or> \<not> tl_redis e then None
      else if n1 \<noteq> Delivered then Some (Wrap ''failed to read token bucket ttl'' [net_err])
      else if TTL S (tl_key e) nowUnix w \<le> 0 then None
      else if n2 \<noteq> Delivered then Some (Wrap ''failed to read token bucket state'' [net_err])
      else let (tokens, added) = tl_refill e nowUnix (tl_fields e nowUnix (HMGETS S (tl_key e) nowUnix w))
           in if tokens \<le> 0 then Some ErrRequestLimitReached else None)"

text \<open>
  \<open>deduction\<close>: the part that reads computes what will be written; the part that writes
  is a pipeline of its own, so other requests may come between the two.
\<close>

definition deduction_read ::
  "'w token_ops \<Rightarrow> token_limiter \<Rightarrow> int \<Rightarrow> int \<Rightarrow> net \<Rightarrow> net \<Rightarrow> 'w \<Rightarrow> err + int \<times> int" where
  "deduction_read S e used nowUnix n1 n2 w =
     (if n1 \<noteq> Delivered then Inl (Wrap ''failed to read token bucket ttl in deduction'' [net_err])
      else if TTL S (tl_key e) nowUnix w \<le> 0 then Inr (tl_burst e - used, nowUnix)
      else if n2 \<noteq> Delivered then Inl (Wrap ''failed to read token bucket state in deduction'' [net_err])
      else let (tokens, lastRefill) = tl_fields e nowUnix (HMGETS S (tl_key e) nowUnix w);
               (tokens', added) = tl_refill e nowUnix (tokens, lastRefill)
           in Inr (tokens' - used, if added then nowUnix else lastRefill))"

text \<open>The client sends whole seconds, at least one.\<close>

definition deduction_write ::
  "'w token_ops \<Rightarrow> token_limiter \<Rightarrow> int \<times> int \<Rightarrow> int \<Rightarrow> net \<Rightarrow> 'w \<Rightarrow> err option \<times> 'w" where
  "deduction_write S e st nowUnix n3 w =
     (let w1 = HSETS S (tl_key e) (dec_int (fst st)) (dec_int (snd st)) nowUnix w;
          w2 = (if 0 < tl_ttl e then EXPIRES S (tl_key e) (max 1 (tl_ttl e div second)) nowUnix w1 else w1)
      in case n3 of
           Delivered \<Rightarrow> (None, w2)
         | LostRequest \<Rightarrow> (Some (Wrap ''failed to persist token bucket state in deduction'' [net_err]), w)
         | LostReply \<Rightarrow> (Some (Wrap ''failed to persist token bucket state in deduction'' [net_err]), w2))"

definition tl_deduction ::
  "'w token_ops \<Rightarrow> token_limiter \<Rightarrow> int \<Rightarrow> int \<Rightarrow> net \<Rightarrow> net \<Rightarrow> net \<Rightarrow> 'w \<Rightarrow> err option \<times> 'w" where
  "tl_deduction S e used nowUnix n1 n2 n3 w =
     (if used \<le> 0 then (None, w)
      else case deduction_read S e used nowUnix n1 n2 w of
             Inl er \<Rightarrow> (Some er, w)
           | Inr st \<Rightarrow> deduction_write S e st nowUnix n3 w)"

section \<open>Callbacks\<close>

text \<open>
  The metadata value under \<open>deductionCallbackKey\<close>: absent, the callbacks (each is the
  \<open>deduction\<close> of the limiter that registered it), or a value of another type.
\<close>

datatype deduction_callbacks = NoCallbacks | DeductionCallbacks "token_limiter list" | OtherValue

record 'w token_world =
  tw_redis :: 'w
  tw_callbacks :: deduction_callbacks

definition tl_process ::
  "'w token_ops \<Rightarrow> token_limiter \<Rightarrow> int \<Rightarrow> net \<Rightarrow> net
    \<Rightarrow> ('w token_world, 'rq, 'rs) engine \<Rightarrow> ('w token_world, 'rq, 'rs) engine" where
  "tl_process S e nowUnix n1 n2 next req w =
     (case tl_allow S e nowUnix n1 n2 (tw_redis w) of
        Some er \<Rightarrow> ((None, Some er), w)
      | None \<Rightarrow>
          (case tw_callbacks w of
             NoCallbacks \<Rightarrow> next req (w\<lparr>tw_callbacks := DeductionCallbacks [e]\<rparr>)
           | DeductionCallbacks cs \<Rightarrow> next req (w\<lparr>tw_callbacks := DeductionCallbacks (cs @ [e])\<rparr>)
           | OtherValue \<Rightarrow>
               ((None, Some (Wrap ''DeductionCallbacks type assertion failed''
                               [Sentinel ''ErrLimiterInternalError''])), w)))"

text \<open>\<open>errors.Join\<close> drops nil errors.\<close>

definition join_errs :: "err option \<Rightarrow> err option \<Rightarrow> err option" where
  "join_errs a b =
     (let es = (case a of Some e \<Rightarrow> [e] | None \<Rightarrow> []) @ (case b of Some e \<Rightarrow> [e] | None \<Rightarrow> [])
      in if es = [] then None else Some (Wrap '''' es))"

fun run_callbacks ::
  "'w token_ops \<Rightarrow> token_limiter list \<Rightarrow> int \<Rightarrow> int \<Rightarrow> net \<Rightarrow> net \<Rightarrow> net \<Rightarrow> err option \<Rightarrow> 'w \<Rightarrow> err option \<times> 'w" where
  "run_callbacks S [] used nowUnix n1 n2 n3 er w = (er, w)"
| "run_callbacks S (e # es) used nowUnix n1 n2 n3 er w =
     (let (r, w1) = tl_deduction S e used nowUnix n1 n2 n3 w
      in run_callbacks S es used nowUnix n1 n2 n3 (join_errs er r) w1)"

definition DoDeduction ::
  "'w token_ops \<Rightarrow> int \<Rightarrow> int \<Rightarrow> net \<Rightarrow> net \<Rightarrow> net \<Rightarrow> 'w token_world \<Rightarrow> err option \<times> 'w token_world" where
  "DoDeduction S used nowUnix n1 n2 n3 w =
     (case tw_callbacks w of
        NoCallbacks \<Rightarrow> (None, w)
      | OtherValue \<Rightarrow> (Some (Plain ''DeductionCallbacks type assertion failed''), w)
      | DeductionCallbacks cs \<Rightarrow>
          (let (er, w') = run_callbacks S cs used nowUnix n1 n2 n3 None (tw_redis w)
           in (er, w\<lparr>tw_redis := w'\<rparr>)))"

section \<open>What the operations do to the balance\<close>

text \<open>The balance of a key: tokens and last refill, as long as the numbers fit 64 bits.\<close>

definition int64 :: "int \<Rightarrow> bool" where
  "int64 i \<longleftrightarrow> - (2 ^ 63) \<le> i \<and> i < 2 ^ 63"

definition holds :: "string \<times> string \<times> int option \<Rightarrow> int \<Rightarrow> int \<Rightarrow> int \<Rightarrow> bool" where
  "holds b t l d \<longleftrightarrow> b = (dec_int t, dec_int l, Some d) \<and> int64 t \<and> int64 l"

lemma dec_int_nonempty [simp]: "dec_int i \<noteq> ''''"
  by (simp add: dec_int_def)

lemma tl_fields_dec:
  assumes "int64 t" "int64 l"
  shows "tl_fields e now (Some (dec_int t), Some (dec_int l)) = (t, min now l)"
  using assms by (auto simp: tl_fields_def parseInt64_def scan_int_dec int64_def Let_def)

context token_store
begin

lemma allow_balance:
  assumes "0 < tl_burst e" "0 < tl_rate e" "tl_redis e"
    and "tview w (tl_key e) = Some b" "holds b t l d" "now < d"
  shows "tl_allow S e now Delivered Delivered w =
     (if fst (tl_refill e now (t, min now l)) \<le> 0 then Some ErrRequestLimitReached else None)"
  using assms
  by (auto simp: tl_allow_def view_simps alive_def holds_def tl_fields_dec case_prod_beta Let_def)

lemma allow_missing:
  assumes "alive now (tview w (tl_key e)) = None"
  shows "tl_allow S e now Delivered n2 w = None"
  using assms by (simp add: tl_allow_def view_simps)

lemma read_balance:
  assumes "tview w (tl_key e) = Some b" "holds b t l d" "now < d"
  shows "deduction_read S e used now Delivered Delivered w =
     (let (t', added) = tl_refill e now (t, min now l)
      in Inr (t' - used, if added then now else min now l))"
  using assms
  by (auto simp: deduction_read_def view_simps alive_def holds_def tl_fields_dec case_prod_beta Let_def)

lemma read_missing:
  assumes "alive now (tview w (tl_key e)) = None"
  shows "deduction_read S e used now Delivered n2 w = Inr (tl_burst e - used, now)"
  using assms by (simp add: deduction_read_def view_simps)

lemma write_balance:
  assumes "0 < tl_ttl e"
  shows "tview (snd (deduction_write S e (t, l) now Delivered w)) =
     (tview w)(tl_key e \<mapsto> (dec_int t, dec_int l, Some (now + max 1 (tl_ttl e div second))))"
  using assms
  by (auto simp: deduction_write_def view_simps alive_def Let_def split: option.splits if_splits prod.splits)

end

section \<open>Sequences of deductions\<close>

text \<open>
  Deductions one after the other from a key that is missing at \<open>start\<close>, none of them finding
  the key expired: the clock, the state and the tokens used so far.
\<close>

inductive tl_trace ::
  "'w token_ops \<Rightarrow> ('w \<Rightarrow> token_view) \<Rightarrow> token_limiter \<Rightarrow> int \<Rightarrow> int \<Rightarrow> 'w \<Rightarrow> int \<Rightarrow> bool"
  for S tview e start where
  trace_start: "tview w (tl_key e) = None \<Longrightarrow> tl_trace S tview e start start w 0"
| trace_deduct: "tl_trace S tview e start t w used \<Longrightarrow> t \<le> now \<Longrightarrow> now < 2 ^ 53 \<Longrightarrow>
    0 < u \<Longrightarrow> used + u < 2 ^ 63 \<Longrightarrow> alive now (tview w (tl_key e)) = tview w (tl_key e) \<Longrightarrow>
    tl_deduction S e u now Delivered Delivered Delivered w = (None, w') \<Longrightarrow>
    tl_trace S tview e start now w' (used + u)"

lemma tl_refill_bounds:
  assumes "0 \<le> tl_rate e" "t \<le> tl_burst e" "l \<le> now" "\<bar>now - l\<bar> < 2 ^ 53"
  shows "t \<le> fst (tl_refill e now (t, l))" "fst (tl_refill e now (t, l)) \<le> tl_burst e"
    and "of_int (fst (tl_refill e now (t, l))) \<le> of_int t + up_rate (tl_rate e) * of_int (now - l)"
    and "\<not> snd (tl_refill e now (t, l)) \<Longrightarrow> fst (tl_refill e now (t, l)) = t"
proof -
  let ?a = "trunc64 (fmul (f64 (of_int (now - l))) (tl_rate e))"
  have f: "f64 (of_int (now - l)) = of_int (now - l)" using assms(4) by (rule f64_exact)
  have nn: "0 \<le> fmul (of_int (now - l)) (tl_rate e)"
    unfolding fmul_def by (rule b64.nonneg) (use assms in simp)
  have a: "of_int ?a \<le> up_rate (tl_rate e) * of_int (now - l)"
    unfolding f using fmul_up_rate [OF assms(1), of "now - l"] assms(3) nn
    by (simp add: trunc64_def) (meson of_int_floor_le order_trans)
  have r: "tl_refill e now (t, l) = (if 0 < ?a then (if tl_burst e < t + ?a then tl_burst e else t + ?a, True) else (t, False))"
    using assms(3) by (simp add: tl_refill_def Let_def)
  show "t \<le> fst (tl_refill e now (t, l))" "fst (tl_refill e now (t, l)) \<le> tl_burst e"
    "\<not> snd (tl_refill e now (t, l)) \<Longrightarrow> fst (tl_refill e now (t, l)) = t"
    unfolding r using assms(2) by (auto split: if_splits)
  have le: "fst (tl_refill e now (t, l)) \<le> t + max 0 ?a" unfolding r by auto
  have "0 \<le> up_rate (tl_rate e) * of_int (now - l)"
    using up_rate_bounds(1) [OF assms(1)] assms(3) by simp
  with a have "of_int (max 0 ?a) \<le> up_rate (tl_rate e) * of_int (now - l)" by (simp add: max_def)
  moreover have "of_int (fst (tl_refill e now (t, l))) \<le> (of_int (t + max 0 ?a) :: rat)"
    using le by (simp only: of_int_le_iff)
  ultimately show "of_int (fst (tl_refill e now (t, l))) \<le> of_int t + up_rate (tl_rate e) * of_int (now - l)"
    by simp
qed

definition owes :: "token_limiter \<Rightarrow> int \<Rightarrow> int \<Rightarrow> int \<Rightarrow> (string \<times> string \<times> int option) option \<Rightarrow> bool" where
  "owes e start clock used b \<longleftrightarrow>
     (b = None \<and> used = 0) \<or>
     (\<exists>t l d. b = Some (dec_int t, dec_int l, Some d) \<and> start \<le> l \<and> l \<le> clock \<and>
        - used \<le> t \<and> t \<le> tl_burst e \<and>
        of_int (t + used) \<le> of_int (tl_burst e) + up_rate (tl_rate e) * of_int (l - start))"

context token_store
begin

lemma deduct_owes:
  assumes e: "0 < tl_burst e" "tl_burst e < 2 ^ 63" "0 \<le> tl_rate e" "0 < tl_ttl e" and start: "0 \<le> start"
    and inv: "owes e start clock used (tview w (tl_key e))" "start \<le> clock" "0 \<le> used" "used < 2 ^ 63"
    and now: "clock \<le> now" "now < 2 ^ 53" and u: "0 < u"
    and live: "alive now (tview w (tl_key e)) = tview w (tl_key e)"
    and d: "tl_deduction S e u now Delivered Delivered Delivered w = (None, w')"
  shows "owes e start now (used + u) (tview w' (tl_key e))"
proof (cases "tview w (tl_key e)")
  case None
  then have z: "used = 0" using inv(1) by (simp add: owes_def)
  have r: "deduction_read S e u now Delivered Delivered w = Inr (tl_burst e - u, now)"
    by (rule read_missing) (simp add: None alive_def)
  have "tview w' (tl_key e) = Some (dec_int (tl_burst e - u), dec_int now, Some (now + max 1 (tl_ttl e div second)))"
    using d u write_balance [OF e(4), of "tl_burst e - u" now now w] by (simp add: tl_deduction_def r)
  moreover have "0 \<le> up_rate (tl_rate e) * of_int (now - start)"
    using up_rate_bounds(1) [OF e(3)] inv(2) now(1) by simp
  ultimately show ?thesis
    using e(1) inv(2) now(1) u z unfolding owes_def by (intro disjI2 exI) auto
next
  case (Some b)
  then obtain t l x where b: "b = (dec_int t, dec_int l, Some x)" and l: "start \<le> l" "l \<le> clock"
    and t: "- used \<le> t" "t \<le> tl_burst e"
    and le: "of_int (t + used) \<le> of_int (tl_burst e) + up_rate (tl_rate e) * of_int (l - start)"
    using inv(1) by (auto simp: owes_def)
  have x: "now < x" using live Some b by (simp add: alive_def split: if_splits)
  have i64: "holds b t l x"
    using b t l e(2) inv(3,4) start now by (simp add: holds_def int64_def)
  have m: "min now l = l" "l \<le> now" "\<bar>now - l\<bar> < 2 ^ 53" using l now start by auto
  obtain t' a where ta: "tl_refill e now (t, l) = (t', a)" by fastforce
  note rb = tl_refill_bounds [OF e(3) t(2) m(2,3), unfolded ta fst_conv snd_conv]
  have r: "deduction_read S e u now Delivered Delivered w = Inr (t' - u, if a then now else l)"
    using read_balance [OF Some i64 x, of u] by (simp add: m(1) ta)
  let ?l = "if a then now else l"
  have v: "tview w' (tl_key e) = Some (dec_int (t' - u), dec_int ?l, Some (now + max 1 (tl_ttl e div second)))"
    using d u write_balance [OF e(4), of "t' - u" ?l now w] by (simp add: tl_deduction_def r)
  have "of_int (t' + used) \<le> of_int (tl_burst e) + up_rate (tl_rate e) * of_int (?l - start)"
  proof (cases a)
    case True
    have "of_int (t' + used) \<le> of_int (t + used) + up_rate (tl_rate e) * of_int (now - l)"
      using rb(3) by simp
    also have "\<dots> \<le> of_int (tl_burst e) + (up_rate (tl_rate e) * of_int (l - start) + up_rate (tl_rate e) * of_int (now - l))"
      using le by simp
    also have "up_rate (tl_rate e) * of_int (l - start) + up_rate (tl_rate e) * of_int (now - l)
        = up_rate (tl_rate e) * of_int (now - start)"
      by (simp add: algebra_simps)
    finally show ?thesis using True by simp
  next
    case False
    with rb(4) le show ?thesis by simp
  qed
  moreover have "- (used + u) \<le> t' - u" "t' - u \<le> tl_burst e" using rb(1,2) t u by auto
  moreover have "start \<le> ?l" "?l \<le> now" using l now by auto
  ultimately show ?thesis unfolding v owes_def
    by (intro disjI2 exI [of _ "t' - u"] exI [of _ ?l] exI [of _ "now + max 1 (tl_ttl e div second)"] conjI)
      auto
qed

lemma trace_owes:
  assumes "tl_trace S tview e start clock w used"
    and e: "0 < tl_burst e" "tl_burst e < 2 ^ 63" "0 \<le> tl_rate e" "0 < tl_ttl e" "0 \<le> start"
  shows "owes e start clock used (tview w (tl_key e)) \<and> start \<le> clock \<and> 0 \<le> used \<and> used < 2 ^ 63"
  using assms(1)
proof (induction rule: tl_trace.induct)
  case (trace_start w)
  then show ?case by (simp add: owes_def)
next
  case (trace_deduct t w used now u w')
  have "owes e start now (used + u) (tview w' (tl_key e))"
    by (rule deduct_owes [OF e]) (use trace_deduct in blast)+
  with trace_deduct show ?case by auto
qed

text \<open>A positive balance means the quota has not been used up.\<close>

lemma allow_quota:
  assumes "tl_trace S tview e start clock w used"
    and e: "0 < tl_burst e" "tl_burst e < 2 ^ 63" "0 < tl_rate e" "0 < tl_ttl e" "0 \<le> start" "tl_redis e"
    and now: "clock \<le> now" "now < 2 ^ 53" and live: "alive now (tview w (tl_key e)) = tview w (tl_key e)"
    and pass: "tl_allow S e now Delivered Delivered w = None"
  shows "of_int used < of_int (tl_burst e) + up_rate (tl_rate e) * of_int (now - start)"
proof -
  have r0: "0 \<le> tl_rate e" using e(3) by simp
  have inv: "owes e start clock used (tview w (tl_key e))" "start \<le> clock" "0 \<le> used" "used < 2 ^ 63"
    using trace_owes [OF assms(1) e(1,2) r0 e(4,5)] by auto
  show ?thesis
  proof (cases "tview w (tl_key e)")
    case None
    then have "used = 0" using inv(1) by (simp add: owes_def)
    moreover have "0 \<le> up_rate (tl_rate e) * of_int (now - start)"
      using up_rate_bounds(1) [OF r0] inv(2) now(1) by simp
    ultimately show ?thesis using e(1) by (simp add: add_pos_nonneg)
  next
    case (Some b)
    then obtain t l x where b: "b = (dec_int t, dec_int l, Some x)" and l: "start \<le> l" "l \<le> clock"
      and t: "- used \<le> t" "t \<le> tl_burst e"
      and le: "of_int (t + used) \<le> of_int (tl_burst e) + up_rate (tl_rate e) * of_int (l - start)"
      using inv(1) by (auto simp: owes_def)
    have x: "now < x" using live Some b by (simp add: alive_def split: if_splits)
    have i64: "holds b t l x"
      using b t l e(2,5) inv(3,4) now by (simp add: holds_def int64_def)
    have m: "min now l = l" "l \<le> now" "\<bar>now - l\<bar> < 2 ^ 53" using l now e(5) by auto
    have "0 < fst (tl_refill e now (t, l))"
      using allow_balance [OF e(1,3,6) Some i64 x] pass m(1) by (simp split: if_splits)
    then have "(0 :: rat) < of_int (fst (tl_refill e now (t, l)))" by simp
    also have "\<dots> \<le> of_int t + up_rate (tl_rate e) * of_int (now - l)"
      by (rule tl_refill_bounds(3) [OF r0 t(2) m(2,3)])
    finally have "of_int used < of_int (t + used) + up_rate (tl_rate e) * of_int (now - l)" by simp
    also have "\<dots> \<le> of_int (tl_burst e) + (up_rate (tl_rate e) * of_int (l - start) + up_rate (tl_rate e) * of_int (now - l))"
      using le by simp
    also have "up_rate (tl_rate e) * of_int (l - start) + up_rate (tl_rate e) * of_int (now - l)
        = up_rate (tl_rate e) * of_int (now - start)"
      by (simp add: algebra_simps)
    finally show ?thesis .
  qed
qed

end

section \<open>Properties\<close>

lemma NewTokenLimiterEngine_enabled:
  assumes "NewTokenLimiterEngine True key burst limit window False = Inr e" "0 < burst" "0 < limit"
    "limit < 2 ^ 53"
  shows "tl_redis e" "tl_key e = key" "tl_burst e = burst"
    "tl_rate e = fdiv (of_int limit) (duration_seconds window)" "0 < tl_rate e"
proof -
  have f: "f64 (of_int limit) = of_int limit" using assms by (intro f64_exact) simp
  have w: "0 < window" and e: "tl_redis e \<and> tl_key e = key \<and> tl_burst e = burst \<and>
      tl_rate e = fdiv (of_int limit) (duration_seconds window)"
    using assms(1,2,3) by (auto simp: NewTokenLimiterEngine_def Let_def f split: if_splits)
  show "tl_redis e" "tl_key e = key" "tl_burst e = burst"
    "tl_rate e = fdiv (of_int limit) (duration_seconds window)" using e by auto
  then show "0 < tl_rate e"
    using duration_seconds_pos [OF w] assms(3) f64_pos_pos by (simp add: fdiv_def f64_def)
qed


text \<open>A hundred tokens a minute.\<close>

definition demo_tl :: token_limiter where
  "demo_tl = \<lparr>tl_redis = True, tl_key = ''k'', tl_burst = 100, tl_rate = fdiv 100 60,
     tl_window = 60 * second, tl_ttl = 120 * second\<rparr>"

lemma demo_tl_new: "NewTokenLimiterEngine True ''k'' 100 100 (60 * second) False = Inr demo_tl"
proof -
  have "f64 100 = 100" "f64 1 = 1" "f64 60 = 60" "f64 120 = 120" "f64 120000000000 = 120000000000"
    using f64_exact [of 100] f64_exact [of 1] f64_exact [of 60] f64_exact [of 120] f64_exact [of 120000000000]
    by simp_all
  then show ?thesis
    by (simp add: NewTokenLimiterEngine_def demo_tl_def seconds_60 Let_def fdiv_def fmul_def trunc64_def)
qed

lemma demo_tl_rate: "(1 - 1 / 2 ^ 53) * (5 / 3) \<le> tl_rate demo_tl" "tl_rate demo_tl \<le> (1 + 1 / 2 ^ 53) * (5 / 3)"
  using b64.lower [of "100 / 60"] b64.upper [of "100 / 60"] by (simp_all add: demo_tl_def fdiv_def)

lemma demo_tl_fields [simp]:
  "tl_key demo_tl = ''k''" "tl_burst demo_tl = 100" "tl_ttl demo_tl = 120 * second" "tl_redis demo_tl"
  by (simp_all add: demo_tl_def)

lemma demo_deduction:
  "tl_deduction ref_tokens demo_tl 1000 1000 Delivered Delivered Delivered Map.empty =
     (None, [''k'' \<mapsto> (dec_int (- 900), dec_int 1000, Some 1120)])"
proof -
  have "deduction_read ref_tokens demo_tl 1000 1000 Delivered Delivered Map.empty = Inr (- 900, 1000)"
    using ref.read_missing [of 1000 Map.empty demo_tl 1000 Delivered] by (simp add: alive_def)
  moreover have "snd (deduction_write ref_tokens demo_tl (- 900, 1000) 1000 Delivered Map.empty) =
      [''k'' \<mapsto> (dec_int (- 900), dec_int 1000, Some 1120)]"
    using ref.write_balance [of demo_tl "- 900" 1000 1000 Map.empty] by simp
  moreover have "fst (deduction_write ref_tokens demo_tl (- 900, 1000) 1000 Delivered Map.empty) = None"
    by (simp add: deduction_write_def)
  ultimately show ?thesis by (simp add: tl_deduction_def prod_eq_iff)
qed


text \<open>C10: The key's lifetime does not guarantee a full bucket: a debt that the refill has not
  paid back when the lifetime has passed is forgiven. After a deduction of at least the burst plus
  what the rate adds up to \<open>now\<close>, the balance at \<open>now\<close> would still not be positive, but the key
  has expired and the request is admitted.\<close>

theorem expiry_forgives_debt:
  assumes "token_store S tview"
    and "NewTokenLimiterEngine True key burst limit window False = Inr e"
    and "0 < burst" and "burst < 2 ^ 63" and "0 < limit" and "limit < 2 ^ 53" and "0 < tl_ttl e"
    and "tview w key = None"
    and "tl_deduction S e used since Delivered Delivered Delivered w = (None, w')"
    and "0 < used" and "since + max 1 (tl_ttl e div second) \<le> now" and "now - since < 2 ^ 53"
    and "of_int burst + (1 + 1 / 2 ^ 53) * tl_rate e * of_int (now - since) \<le> of_int used"
  shows "tl_allow S e now Delivered Delivered w' = None \<and>
     tview w' key = Some (dec_int (burst - used), dec_int since, Some (since + max 1 (tl_ttl e div second))) \<and>
     fst (tl_refill e now (burst - used, since)) \<le> 0"
proof (intro conjI)
  note e = NewTokenLimiterEngine_enabled [OF assms(2,3,5,6)]
  have r: "deduction_read S e used since Delivered Delivered w = Inr (burst - used, since)"
    using token_store.read_missing [OF assms(1), of since w e used Delivered] assms(8) e by (simp add: alive_def)
  show v: "tview w' key = Some (dec_int (burst - used), dec_int since, Some (since + max 1 (tl_ttl e div second)))"
    using token_store.write_balance [OF assms(1,7), of "burst - used" since since w] assms(9,10) e
    by (simp add: tl_deduction_def r)
  show "tl_allow S e now Delivered Delivered w' = None"
    by (rule token_store.allow_missing [OF assms(1)]) (use v e assms(11) in \<open>simp add: alive_def\<close>)
  have n: "since \<le> now" "\<bar>now - since\<bar> < 2 ^ 53" using assms(11,12) by auto
  have "of_int (fst (tl_refill e now (burst - used, since))) \<le>
      of_int (burst - used) + up_rate (tl_rate e) * of_int (now - since)"
    by (rule tl_refill_bounds(3)) (use e assms(10) n in auto)
  also have "\<dots> \<le> 0" using assms(13) by (simp add: up_rate_def)
  finally show "fst (tl_refill e now (burst - used, since)) \<le> 0" by simp
qed

theorem expiry_forgives_debt_witness:
  "tl_allow ref_tokens demo_tl 1120 Delivered Delivered [''k'' \<mapsto> (dec_int (- 900), dec_int 1000, Some 1120)] = None \<and>
   fst (tl_refill demo_tl 1120 (- 900, 1000)) \<le> 0"
proof -
  have c: "of_int 100 + (1 + 1 / 2 ^ 53) * tl_rate demo_tl * of_int (1120 - 1000) \<le> of_int 1000"
    using demo_tl_rate(2) by simp
  show ?thesis
    using expiry_forgives_debt [OF ref.token_store_axioms demo_tl_new _ _ _ _ _ _ demo_deduction _ _ _ c] by simp
qed

text \<open>Concurrent deductions are lost. When two requests read the balance before either has
  written it, the second write overwrites the first: the final balance is what it would have been
  after both deductions in turn, plus everything the first request used.\<close>

theorem concurrent_deduction_lost:
  assumes "token_store S tview"
    and "0 < tl_rate e" and "0 < tl_ttl e" and "0 < usedA" and "0 < usedB"
    and "tview w (tl_key e) = Some b" and "holds b t l d" and "now < d" and "l \<le> now" and "t \<le> tl_burst e"
    and "now - l < 2 ^ 53" and "int64 (fst (tl_refill e now (t, l)) - usedA)" and "int64 now"
    and "deduction_read S e usedA now Delivered Delivered w = Inr st1"
    and "deduction_read S e usedB now Delivered Delivered w = Inr st2"
    and "w12 = snd (deduction_write S e st2 now Delivered (snd (deduction_write S e st1 now Delivered w)))"
    and "tl_deduction S e usedA now Delivered Delivered Delivered w = (None, w1)"
    and "tl_deduction S e usedB now Delivered Delivered Delivered w1 = (None, w2)"
  shows "\<exists>bal l' x. tview w2 (tl_key e) = Some (dec_int bal, dec_int l', Some x) \<and>
     tview w12 (tl_key e) = Some (dec_int (bal + usedA), dec_int l', Some x)"
proof -
  note read = token_store.read_balance [OF assms(1)] and wr = token_store.write_balance [OF assms(1,3)]
  obtain t' a where ta: "tl_refill e now (t, l) = (t', a)" by fastforce
  let ?l = "if a then now else l" and ?x = "now + max 1 (tl_ttl e div second)"
  have m: "min now l = l" using assms(9) by simp
  have r1: "deduction_read S e u now Delivered Delivered w = Inr (t' - u, ?l)" for u
    using read [OF assms(6,7,8), of u] by (simp add: m ta)
  have st: "st1 = (t' - usedA, ?l)" "st2 = (t' - usedB, ?l)" using assms(14,15) r1 by simp_all
  have w1: "tview w1 (tl_key e) = Some (dec_int (t' - usedA), dec_int ?l, Some ?x)"
    using assms(4,17) wr [of "t' - usedA" ?l now w] by (simp add: tl_deduction_def r1)
  have h1: "holds (dec_int (t' - usedA), dec_int ?l, Some ?x) (t' - usedA) ?l ?x"
    using assms(7,12,13) by (auto simp: holds_def ta)
  have again: "tl_refill e now (t' - usedA, ?l) = (t' - usedA, False)"
  proof (cases a)
    case True
    then show ?thesis by (simp add: tl_refill_def fmul_def trunc64_def)
  next
    case False
    then have "trunc64 (fmul (f64 (of_int (now - l))) (tl_rate e)) \<le> 0"
      using ta assms(9) by (auto simp: tl_refill_def Let_def split: if_splits)
    then show ?thesis using False assms(9) by (simp add: tl_refill_def Let_def)
  qed
  have "min now ?l = ?l" using assms(9) by simp
  then have r2: "deduction_read S e usedB now Delivered Delivered w1 = Inr (t' - usedA - usedB, ?l)"
    using read [OF w1 h1, of now usedB] again by simp
  have "tview w2 (tl_key e) = Some (dec_int (t' - usedA - usedB), dec_int ?l, Some ?x)"
    using assms(5,18) wr [of "t' - usedA - usedB" ?l now w1] by (simp add: tl_deduction_def r2)
  moreover have "tview w12 (tl_key e) = Some (dec_int (t' - usedA - usedB + usedA), dec_int ?l, Some ?x)"
    using wr [of "t' - usedB" ?l now] by (simp add: assms(16) st)
  ultimately show ?thesis by blast
qed

text \<open>Limiters chained by their \<open>next\<close> fields, the outermost first.\<close>

definition tl_chain ::
  "'w token_ops \<Rightarrow> int \<Rightarrow> net \<Rightarrow> net \<Rightarrow> token_limiter list
    \<Rightarrow> ('w token_world, 'rq, 'rs) engine \<Rightarrow> ('w token_world, 'rq, 'rs) engine" where
  "tl_chain S now n1 n2 es next = foldr (\<lambda>e nxt. tl_process S e now n1 n2 nxt) es next"

text \<open>A request that passes a chain of token limiters reaches the next engine with exactly
  their deductions registered, in order, and \<open>DoDeduction\<close> runs each of them once; when one limiter
  refuses, the next engine is not called and nothing is deducted.\<close>

theorem limiter_chain_registers_deductions:
  assumes "es \<noteq> []" and "tw_callbacks w = NoCallbacks"
  defines "passed \<equiv> w\<lparr>tw_callbacks := DeductionCallbacks es\<rparr>"
  shows "if list_all (\<lambda>e. tl_allow S e now n1 n2 (tw_redis w) = None) es
     then tl_chain S now n1 n2 es next req w = next req passed \<and>
          DoDeduction S used now n1 n2 n3 passed =
            (let (er, r') = run_callbacks S es used now n1 n2 n3 None (tw_redis w)
             in (er, passed\<lparr>tw_redis := r'\<rparr>))
     else \<exists>er w'. tl_chain S now n1 n2 es next req w = ((None, Some er), w') \<and> tw_redis w' = tw_redis w"
proof -
  have chain: "foldr (\<lambda>e next. tl_process S e now n1 n2 next) es next req (w\<lparr>tw_callbacks := DeductionCallbacks cs\<rparr>)
      = next req (w\<lparr>tw_callbacks := DeductionCallbacks (cs @ es)\<rparr>)"
    if "list_all (\<lambda>e. tl_allow S e now n1 n2 (tw_redis w) = None) es" for es cs
    using that by (induction es arbitrary: cs) (simp_all add: tl_process_def)
  have stop: "\<exists>er w'. foldr (\<lambda>e next. tl_process S e now n1 n2 next) es next req (w\<lparr>tw_callbacks := c\<rparr>)
      = ((None, Some er), w') \<and> tw_redis w' = tw_redis w"
    if "\<not> list_all (\<lambda>e. tl_allow S e now n1 n2 (tw_redis w) = None) es" for es c
    using that
    by (induction es arbitrary: c) (auto simp: tl_process_def split: option.splits deduction_callbacks.splits)
  obtain e es' where es: "es = e # es'" using assms(1) by (cases es) auto
  have w: "w = w\<lparr>tw_callbacks := NoCallbacks\<rparr>" using assms(2) by simp
  show ?thesis
  proof (cases "list_all (\<lambda>e. tl_allow S e now n1 n2 (tw_redis w) = None) es")
    case True
    then have "tl_chain S now n1 n2 es next req w = next req passed"
      using chain [of es' "[e]"] assms(2) by (simp add: tl_chain_def es tl_process_def passed_def)
    with True show ?thesis by (simp add: DoDeduction_def passed_def)
  next
    case False
    with stop [OF this, of NoCallbacks] w show ?thesis by (simp add: tl_chain_def)
  qed
qed

theorem limiter_chain_registers_deductions_witness:
  "tl_chain ref_tokens 1000 Delivered Delivered [demo_tl, demo_tl] (\<lambda>_ w. ((None :: unit option, None), w)) ()
      \<lparr>tw_redis = Map.empty, tw_callbacks = NoCallbacks\<rparr>
   = ((None, None), \<lparr>tw_redis = Map.empty, tw_callbacks = DeductionCallbacks [demo_tl, demo_tl]\<rparr>)"
proof -
  have "tl_allow ref_tokens demo_tl 1000 Delivered Delivered Map.empty = None"
    by (rule ref.allow_missing) (simp add: alive_def)
  then show ?thesis
    using limiter_chain_registers_deductions [of "[demo_tl, demo_tl]"
        "\<lparr>tw_redis = Map.empty, tw_callbacks = NoCallbacks\<rparr>" ref_tokens 1000 Delivered Delivered
        "\<lambda>_ w. ((None :: unit option, None), w)" "()"]
    by simp
qed

text \<open>Two requests that used 30 and 50 tokens, the key at 70.\<close>

theorem concurrent_deduction_lost_witness:
  "\<exists>bal l x. snd (tl_deduction ref_tokens demo_tl 50 1000 Delivered Delivered Delivered
        (snd (tl_deduction ref_tokens demo_tl 30 1000 Delivered Delivered Delivered
           [''k'' \<mapsto> (dec_int 70, dec_int 1000, Some 1120)]))) ''k'' = Some (dec_int bal, dec_int l, Some x) \<and>
     snd (deduction_write ref_tokens demo_tl (20, 1000) 1000 Delivered (snd (deduction_write ref_tokens demo_tl
        (40, 1000) 1000 Delivered [''k'' \<mapsto> (dec_int 70, dec_int 1000, Some 1120)]))) ''k''
       = Some (dec_int (bal + 30), dec_int l, Some x)"
proof -
  let ?w = "[''k'' \<mapsto> (dec_int 70, dec_int 1000, Some (1120 :: int))]"
  have w: "?w (tl_key demo_tl) = Some (dec_int 70, dec_int 1000, Some 1120)" by simp
  have h: "holds (dec_int 70, dec_int 1000, Some 1120) 70 1000 1120" by (simp add: holds_def int64_def)
  have f: "tl_refill demo_tl 1000 (70, 1000) = (70, False)" by (simp add: tl_refill_def fmul_def trunc64_def)
  have r: "deduction_read ref_tokens demo_tl u 1000 Delivered Delivered ?w = Inr (70 - u, 1000)" for u
    using ref.read_balance [where w = ?w and e = demo_tl and now = 1000 and used = u, OF w h] f by simp
  have p: "0 < tl_rate demo_tl" using demo_tl_rate(1) by simp
  have ok: "tl_deduction ref_tokens demo_tl u 1000 Delivered Delivered Delivered v =
      (None, snd (tl_deduction ref_tokens demo_tl u 1000 Delivered Delivered Delivered v))" for u v
    by (auto simp: tl_deduction_def deduction_read_def deduction_write_def Let_def prod_eq_iff case_prod_beta split: sum.splits)
  show ?thesis
    using concurrent_deduction_lost [where w = ?w and e = demo_tl and now = 1000 and usedA = 30 and usedB = 50,
        OF ref.token_store_axioms p _ _ _ w h _ _ _ _ _ _ r r refl ok ok]
    by (simp add: f int64_def)
qed

end
