(* ===== verification/SmoothWRR.thy ===== *)
theory SmoothWRR
  imports Prelude
begin

text \<open>
  Smooth weighted round robin, as the load balancer and the weighted moderator use it: each
  turn adds every weight to its current weight, takes the first backend with the largest
  positive current weight and takes the total weight off it. The locale states that step
  over any representation of the backends and derives the balance of the turns; its
  interpretations are \<open>GetNextEngine\<close> of \<open>round_robin.go\<close> and \<open>getNextService\<close> of
  \<open>weighted_service.go\<close>.
\<close>

section \<open>The largest positive element\<close>

text \<open>The scan of both loops: the best so far and its index.\<close>

fun best_index :: "int list \<Rightarrow> nat \<Rightarrow> int \<Rightarrow> nat option \<Rightarrow> nat option" where
  "best_index [] i m best = best"
| "best_index (c # cs) i m best =
     (if m < c then best_index cs (Suc i) c (Some i) else best_index cs (Suc i) m best)"

lemma best_index_spec:
  assumes "case best of None \<Rightarrow> m = 0 \<and> (\<forall>j<i. xs ! j \<le> 0) | Some b \<Rightarrow> b < i \<and> xs ! b = m \<and> 0 < m \<and> (\<forall>j<i. xs ! j \<le> m)"
    and "cs = drop i xs" "i \<le> length xs"
  shows "case best_index cs i m best of
     None \<Rightarrow> \<forall>j<length xs. xs ! j \<le> 0
   | Some b \<Rightarrow> b < length xs \<and> 0 < xs ! b \<and> (\<forall>j<length xs. xs ! j \<le> xs ! b)"
  using assms
proof (induction cs i m best rule: best_index.induct)
  case (1 i m best)
  then have "i = length xs" by simp
  with 1 show ?case by (cases best) auto
next
  case (2 c cs i m best)
  then have i: "i < length xs" "c = xs ! i" "cs = drop (Suc i) xs"
    by (auto simp: Cons_nth_drop_Suc [symmetric] dest: sym) (metis drop_all linorder_not_le list.distinct(1) nth_via_drop,
      metis nth_via_drop, metis drop_Suc list.sel(3) tl_drop)
  show ?case
  proof (cases "m < c")
    case True
    have c: "0 < c" "\<forall>j<i. xs ! j \<le> c" using True 2(3) by (cases best; force)+
    have "case best_index cs (Suc i) c (Some i) of
       None \<Rightarrow> \<forall>j<length xs. xs ! j \<le> 0
     | Some b \<Rightarrow> b < length xs \<and> 0 < xs ! b \<and> (\<forall>j<length xs. xs ! j \<le> xs ! b)"
      by (rule 2(1) [OF True]) (use c i in \<open>auto simp: less_Suc_eq\<close>)
    with True show ?thesis by simp
  next
    case False
    have "case best_index cs (Suc i) m best of
       None \<Rightarrow> \<forall>j<length xs. xs ! j \<le> 0
     | Some b \<Rightarrow> b < length xs \<and> 0 < xs ! b \<and> (\<forall>j<length xs. xs ! j \<le> xs ! b)"
      by (rule 2(2) [OF False]) (use 2(3) False i in \<open>auto simp: less_Suc_eq split: option.splits\<close>)
    with False show ?thesis by simp
  qed
qed

lemma best_index_positive:
  "case best_index xs 0 0 None of
     None \<Rightarrow> \<forall>j<length xs. xs ! j \<le> 0
   | Some b \<Rightarrow> b < length xs \<and> 0 < xs ! b \<and> (\<forall>j<length xs. xs ! j \<le> xs ! b)"
  by (rule best_index_spec) auto

lemma sum_list_upd: "i < length xs \<Longrightarrow> sum_list (xs[i := x]) = sum_list xs + x - xs ! i"
  for xs :: "int list"
  by (induction xs arbitrary: i) (auto split: nat.splits)

lemma map_update_same: "f x = f (xs ! i) \<Longrightarrow> map f (xs[i := x]) = map f xs"
  by (cases "i < length xs") (simp_all add: map_update list_update_same_conv list_update_beyond)

section \<open>The step and its balance\<close>

locale smooth_wrr =
  fixes pick :: "'b list \<Rightarrow> nat option \<times> 'b list"
    and weight :: "'b \<Rightarrow> int" and cur :: "'b \<Rightarrow> int"
  assumes pick_weights: "\<And>bs. map weight (snd (pick bs)) = map weight bs"
    and pick_turn: "\<And>bs. pick bs = (r, bs') \<Longrightarrow>
      (case r of
         None \<Rightarrow> (\<forall>j<length bs. cur (bs ! j) + weight (bs ! j) \<le> 0) \<and>
                map cur bs' = map (\<lambda>b. cur b + weight b) bs
       | Some i \<Rightarrow> i < length bs \<and> 0 < cur (bs ! i) + weight (bs ! i) \<and>
                map cur bs' = (map (\<lambda>b. cur b + weight b) bs)
                  [i := cur (bs ! i) + weight (bs ! i) - sum_list (map weight bs)])"
begin

definition total_weight :: "'b list \<Rightarrow> int" where
  "total_weight bs = sum_list (map weight bs)"

definition balance :: "'b list \<Rightarrow> int" where
  "balance bs = sum_list (map cur bs)"

text \<open>What the constructors establish and the turns keep, for the balance \<open>S\<close> of the start.\<close>

definition wrr_inv :: "int \<Rightarrow> 'b list \<Rightarrow> bool" where
  "wrr_inv S bs \<longleftrightarrow> 0 < total_weight bs \<and> (\<forall>b\<in>set bs. 0 \<le> weight b) \<and> balance bs = S \<and> 0 \<le> S \<and>
     (\<forall>b\<in>set bs. - total_weight bs < cur b)"

lemma pick_length [simp]: "length (snd (pick bs)) = length bs"
  using pick_weights [of bs] by (metis length_map)

lemma pick_total [simp]: "total_weight (snd (pick bs)) = total_weight bs"
  by (simp add: total_weight_def pick_weights)

lemma sum_cur_weight: "sum_list (map (\<lambda>b. cur b + weight b) bs) = balance bs + total_weight bs"
  by (simp add: balance_def total_weight_def sum_list_addf)

lemma pick_Some:
  assumes "wrr_inv S bs"
  obtains i where "fst (pick bs) = Some i" "i < length bs" "0 < cur (bs ! i) + weight (bs ! i)"
    "map cur (snd (pick bs)) = (map (\<lambda>b. cur b + weight b) bs) [i := cur (bs ! i) + weight (bs ! i) - total_weight bs]"
proof -
  obtain r bs' where p: "pick bs = (r, bs')" by fastforce
  note t = pick_turn [OF p]
  show thesis
  proof (cases r)
    case None
    have "sum_list (map (\<lambda>b. cur b + weight b) bs) \<le> 0"
      using t None by (intro sum_list_nonpos) (auto simp: in_set_conv_nth)
    then have False using assms by (simp add: sum_cur_weight wrr_inv_def)
    then show thesis ..
  next
    case (Some i)
    with t p that show thesis by (auto simp: total_weight_def)
  qed
qed

lemma pick_inv:
  assumes "wrr_inv S bs"
  shows "wrr_inv S (snd (pick bs))"
proof -
  obtain i where i: "i < length bs" "0 < cur (bs ! i) + weight (bs ! i)"
    "map cur (snd (pick bs)) = (map (\<lambda>b. cur b + weight b) bs) [i := cur (bs ! i) + weight (bs ! i) - total_weight bs]"
    using pick_Some [OF assms] by metis
  have "balance (snd (pick bs)) = balance bs"
    using i(1) sum_cur_weight [of bs] by (simp add: balance_def i(3) sum_list_upd)
  moreover have "\<forall>b\<in>set (snd (pick bs)). 0 \<le> weight b"
    using assms pick_weights [of bs] by (metis (no_types, lifting) wrr_inv_def image_iff list.set_map)
  moreover have "\<forall>c\<in>set (map cur (snd (pick bs))). - total_weight bs < c"
  proof
    fix c assume "c \<in> set (map cur (snd (pick bs)))"
    then have "c \<in> insert (cur (bs ! i) + weight (bs ! i) - total_weight bs) ((\<lambda>b. cur b + weight b) ` set bs)"
      unfolding i(3) using set_update_subset_insert by fastforce
    with i(2) assms show "- total_weight bs < c" by (fastforce simp: wrr_inv_def)
  qed
  ultimately show ?thesis using assms by (auto simp: wrr_inv_def)
qed

text \<open>A run of \<open>m\<close> turns, with the indices picked.\<close>

fun turns :: "nat \<Rightarrow> 'b list \<Rightarrow> nat option list \<times> 'b list" where
  "turns 0 bs = ([], bs)"
| "turns (Suc m) bs = (let (r, bs1) = pick bs; (rs, bs2) = turns m bs1 in (r # rs, bs2))"

lemma turns_inv:
  "wrr_inv S bs \<Longrightarrow> wrr_inv S (snd (turns m bs)) \<and> None \<notin> set (fst (turns m bs)) \<and>
     length (fst (turns m bs)) = m \<and> map weight (snd (turns m bs)) = map weight bs"
proof (induction m arbitrary: bs)
  case (Suc m)
  obtain i where "fst (pick bs) = Some i" using pick_Some [OF Suc.prems] by metis
  with Suc.IH [OF pick_inv [OF Suc.prems]] show ?case
    by (simp add: case_prod_beta Let_def pick_weights)
qed simp

text \<open>Every turn gives each backend its weight and takes the total off the one picked.\<close>

lemma turns_balance:
  assumes "wrr_inv S bs" "j < length bs"
  shows "cur (snd (turns m bs) ! j) = cur (bs ! j) + int m * weight (bs ! j)
           - int (count_list (fst (turns m bs)) (Some j)) * total_weight bs"
  using assms
proof (induction m arbitrary: bs)
  case (Suc m)
  obtain i where i: "fst (pick bs) = Some i" "i < length bs"
    "map cur (snd (pick bs)) = (map (\<lambda>b. cur b + weight b) bs) [i := cur (bs ! i) + weight (bs ! i) - total_weight bs]"
    using pick_Some [OF Suc.prems(1)] by metis
  have w: "weight (snd (pick bs) ! j) = weight (bs ! j)"
    using pick_weights [of bs] Suc.prems(2) by (metis nth_map pick_length)
  have "map cur (snd (pick bs)) ! j = cur (bs ! j) + weight (bs ! j) - (if i = j then total_weight bs else 0)"
    unfolding i(3) using Suc.prems(2) i(2) by (simp add: nth_list_update)
  then have c: "cur (snd (pick bs) ! j) = cur (bs ! j) + weight (bs ! j) - (if i = j then total_weight bs else 0)"
    using Suc.prems(2) by simp
  have "cur (snd (turns m (snd (pick bs))) ! j) = cur (snd (pick bs) ! j) + int m * weight (snd (pick bs) ! j)
      - int (count_list (fst (turns m (snd (pick bs)))) (Some j)) * total_weight (snd (pick bs))"
    by (rule Suc.IH [OF pick_inv [OF Suc.prems(1)]]) (use Suc.prems in simp)
  then show ?case
    by (cases "i = j") (simp_all add: case_prod_beta Let_def w c i(1) algebra_simps)
qed simp

lemma cur_upper:
  assumes "wrr_inv S bs" "j < length bs"
  shows "cur (bs ! j) \<le> S + (int (length bs) - 1) * total_weight bs"
proof -
  have "balance bs = cur (bs ! j) + sum_list (map cur (take j bs @ drop (Suc j) bs))"
    using assms(2) by (subst id_take_nth_drop [OF assms(2)]) (simp add: balance_def)
  moreover have "sum_list (map (\<lambda>_. - total_weight bs) (take j bs @ drop (Suc j) bs))
      \<le> sum_list (map cur (take j bs @ drop (Suc j) bs))"
    using assms(1) by (intro sum_list_mono) (auto simp: wrr_inv_def less_imp_le dest!: in_set_takeD in_set_dropD)
  moreover have "length (take j bs @ drop (Suc j) bs) = length bs - 1" using assms(2) by simp
  ultimately show ?thesis
    using assms by (simp add: sum_list_triv wrr_inv_def of_nat_diff algebra_simps)
qed

text \<open>In \<open>m\<close> turns a backend gets its share of the turns, up to a constant.\<close>

theorem fair_share:
  assumes "wrr_inv S bs" "j < length bs" "S \<le> total_weight bs"
  shows "int m * weight (bs ! j) - int (length bs) * total_weight bs + cur (bs ! j)
           \<le> int (count_list (fst (turns m bs)) (Some j)) * total_weight bs"
    and "int (count_list (fst (turns m bs)) (Some j)) * total_weight bs
           < int m * weight (bs ! j) + total_weight bs + cur (bs ! j)"
proof -
  have inv: "wrr_inv S (snd (turns m bs))" "map weight (snd (turns m bs)) = map weight bs"
    using turns_inv [OF assms(1)] by auto
  then have len: "length (snd (turns m bs)) = length bs" by (metis length_map)
  have tot: "total_weight (snd (turns m bs)) = total_weight bs" using inv(2) by (simp add: total_weight_def)
  have up: "cur (snd (turns m bs) ! j) \<le> S + (int (length bs) - 1) * total_weight bs"
    using cur_upper [OF inv(1), of j] assms(2) by (simp add: len tot)
  have lo: "- total_weight bs < cur (snd (turns m bs) ! j)"
    using inv(1) assms(2) by (simp add: wrr_inv_def tot len)
  note b = turns_balance [OF assms(1,2), of m]
  show "int m * weight (bs ! j) - int (length bs) * total_weight bs + cur (bs ! j)
           \<le> int (count_list (fst (turns m bs)) (Some j)) * total_weight bs"
    using up b assms(3) by (simp add: algebra_simps)
  show "int (count_list (fst (turns m bs)) (Some j)) * total_weight bs
           < int m * weight (bs ! j) + total_weight bs + cur (bs ! j)"
    using lo b by simp
qed

text \<open>A backend of weight 0 that starts at 0 is never picked.\<close>

lemma zero_weight_unused:
  assumes "wrr_inv S bs" "j < length bs" "weight (bs ! j) = 0" "cur (bs ! j) \<le> 0"
  shows "Some j \<notin> set (fst (turns m bs))"
  using assms
proof (induction m arbitrary: bs)
  case (Suc m)
  obtain i where i: "fst (pick bs) = Some i" "i < length bs" "0 < cur (bs ! i) + weight (bs ! i)"
    "map cur (snd (pick bs)) = (map (\<lambda>b. cur b + weight b) bs) [i := cur (bs ! i) + weight (bs ! i) - total_weight bs]"
    using pick_Some [OF Suc.prems(1)] by metis
  have ij: "i \<noteq> j" using i(3) Suc.prems(3,4) by auto
  have w: "weight (snd (pick bs) ! j) = 0"
    using pick_weights [of bs] Suc.prems(2,3) by (metis nth_map pick_length)
  have "map cur (snd (pick bs)) ! j = cur (bs ! j)"
    unfolding i(4) using Suc.prems(2,3) ij by simp
  then have c: "cur (snd (pick bs) ! j) \<le> 0" using Suc.prems(2,4) by simp
  have "Some j \<notin> set (fst (turns m (snd (pick bs))))"
    by (rule Suc.IH [OF pick_inv [OF Suc.prems(1)]]) (use Suc.prems w c in simp_all)
  with ij show ?case by (simp add: case_prod_beta Let_def i(1))
qed simp

end

end
