(* ===== verification/LoadBalancer.thy ===== *)
theory LoadBalancer
  imports Core SmoothWRR
begin

text \<open>
  \<open>pkg/engines/load-balancer/round_robin.go\<close>: weighted round robin with failover. Also
  \<open>pkg/engines/moderator/weighted_service.go\<close>, which picks its service the same way.
\<close>

section \<open>Backends\<close>

record ('e, 'rq) backend_item =
  bi_Name :: string
  bi_Weight :: int
  bi_Engine :: 'e
  bi_MaxConcurrencyFn :: "('rq \<Rightarrow> int) option"
  bi_CacheMissMaxUtilization :: rat

record 'e wrr_backend =
  wb_name :: string
  wb_weight :: int
  wb_engine :: 'e
  wb_currentWeight :: int

text \<open>\<open>rand.Intn(n)\<close>, the \<open>i\<close>-th draw: some number below \<open>n\<close>.\<close>

type_synonym rand = "nat \<Rightarrow> int \<Rightarrow> int"

definition rand_ok :: "rand \<Rightarrow> bool" where
  "rand_ok rnd \<longleftrightarrow> (\<forall>i n. 0 < n \<longrightarrow> 0 \<le> rnd i n \<and> rnd i n < n)"

text \<open>The check of the weights and the construction of the list, the same in the constructors of
  both round robin load balancers.\<close>

definition wrr_backends :: "rand \<Rightarrow> ('e, 'rq) backend_item list \<Rightarrow> err + 'e wrr_backend list" where
  "wrr_backends rnd backends =
     (if backends = [] then Inl (Plain ''backends must have at least one item'')
      else if list_ex (\<lambda>b. bi_Weight b < 0) backends then Inl (Plain ''weight must be >= 0'')
      else let allZero = list_all (\<lambda>b. bi_Weight b = 0) backends
           in Inr (map (\<lambda>(i, b). let w = (if allZero then 100 else bi_Weight b)
                                 in \<lparr>wb_name = bi_Name b, wb_weight = w, wb_engine = bi_Engine b,
                                     wb_currentWeight = rnd i (w + 1)\<rparr>) (enumerate 0 backends)))"

record 'e wrr =
  lb_backends :: "'e wrr_backend list"
  lb_retryTimeout :: int
  lb_retryMaxCount :: int

definition NewWeightedRoundRobin ::
  "rand \<Rightarrow> ('e, 'rq) backend_item list \<Rightarrow> int \<Rightarrow> int \<Rightarrow> err + 'e wrr" where
  "NewWeightedRoundRobin rnd backends retryTimeout retryMaxCount =
     (case wrr_backends rnd backends of
        Inl er \<Rightarrow> Inl er
      | Inr bs \<Rightarrow> Inr \<lparr>lb_backends = bs, lb_retryTimeout = retryTimeout, lb_retryMaxCount = retryMaxCount\<rparr>)"

text \<open>\<open>GetNextEngine\<close>: the index of the backend (\<open>None\<close> for the nil engine) and the
  backends with their new weights.\<close>

definition GetNextEngine :: "'e wrr_backend list \<Rightarrow> nat option \<times> 'e wrr_backend list" where
  "GetNextEngine backends =
     (let bs = map (\<lambda>b. b\<lparr>wb_currentWeight := wb_currentWeight b + wb_weight b\<rparr>) backends;
          totalWeight = sum_list (map wb_weight backends)
      in case best_index (map wb_currentWeight bs) 0 0 None of
           None \<Rightarrow> (None, bs)
         | Some i \<Rightarrow>
             (Some i, bs[i := (bs ! i)\<lparr>wb_currentWeight := wb_currentWeight (bs ! i) - totalWeight\<rparr>]))"

section \<open>Failover\<close>

abbreviation backendName :: string where
  "backendName \<equiv> ''loadbalancer.backend_name''"

definition GetSelectedBackendName :: "metadata \<Rightarrow> string option" where
  "GetSelectedBackendName md =
     (case GetMetadataValue md backendName of Some (MetaStr s) \<Rightarrow> Some s | _ \<Rightarrow> None)"

definition upstream_status :: "err \<Rightarrow> int option" where
  "upstream_status e = (case e of UpstreamResp st h b \<Rightarrow> Some st | _ \<Rightarrow> None)"

definition isNotRetriableError :: "err \<Rightarrow> bool" where
  "isNotRetriableError e = (case errors_as upstream_status e of Some st \<Rightarrow> st = 413 | None \<Rightarrow> False)"


text \<open>
  The world of a request behind the load balancer: the balancer's backends, which other
  requests change too, the request's metadata, and the rest. \<open>exec\<close> runs an engine; the clock
  and the cancellation of the request are given per attempt.
\<close>

record ('e, 'w) lb_world =
  lw_backends :: "'e wrr_backend list"
  lw_meta :: metadata
  lw_rest :: 'w

record attempt_env =
  elapsed :: "int \<Rightarrow> int"
  cancelled :: "int \<Rightarrow> bool"

text \<open>The loop of \<open>Process\<close>; the list holds the attempts it made, with their results.\<close>

function wrr_loop ::
  "'e wrr \<Rightarrow> attempt_env \<Rightarrow> ('e \<Rightarrow> (('e, 'w) lb_world, 'rq, 'rs) engine) \<Rightarrow> 'rq \<Rightarrow> int \<Rightarrow> ('e, 'w) lb_world
    \<Rightarrow> ((string \<times> 'rs go_result) list \<times> 'rs go_result outcome) \<times> ('e, 'w) lb_world" where
  "wrr_loop l env exec req retryCount w =
     (let (r, bs) = GetNextEngine (lw_backends w)
      in case r of
           None \<Rightarrow> (([], Panicked), w\<lparr>lw_backends := bs\<rparr>)
         | Some i \<Rightarrow>
             (let b = lw_backends w ! i;
                  n = wb_name b;
                  w1 = w\<lparr>lw_backends := bs, lw_meta := SetMetadataValue (lw_meta w) backendName (MetaStr n)\<rparr>;
                  ((resp, er), w2) = exec (wb_engine b) req w1;
                  stop = (([(n, resp, er)], Returned (resp, er)), w2)
              in case er of
                   None \<Rightarrow> (([(n, resp, er)], Returned (resp, None)), w2)
                 | Some e \<Rightarrow>
                     if isNotRetriableError e then stop
                     else if cancelled env (retryCount + 1) then stop
                     else if lb_retryTimeout l \<le> elapsed env (retryCount + 1) then stop
                     else if lb_retryMaxCount l \<le> retryCount + 1 then stop
                     else (let ((tried, out), w3) = wrr_loop l env exec req (retryCount + 1) w2
                           in (((n, resp, er) # tried, out), w3))))"
  by pat_completeness auto

termination
  by (relation "measure (\<lambda>(l, env, exec, req, c, w). nat (lb_retryMaxCount l - c))") auto

declare wrr_loop.simps [simp del]

text \<open>\<open>bodyErr\<close> is the error of reading the request body.\<close>

definition wrr_process ::
  "'e wrr \<Rightarrow> attempt_env \<Rightarrow> ('e \<Rightarrow> (('e, 'w) lb_world, 'rq, 'rs) engine) \<Rightarrow> err option \<Rightarrow> 'rq \<Rightarrow> ('e, 'w) lb_world
    \<Rightarrow> ((string \<times> 'rs go_result) list \<times> 'rs go_result outcome) \<times> ('e, 'w) lb_world" where
  "wrr_process l env exec bodyErr req w =
     (case bodyErr of
        Some er \<Rightarrow> (([], Returned (None, Some (Wrap ''failed to cache request body for retries'' [er]))), w)
      | None \<Rightarrow> wrr_loop l env exec req 0 w)"

section \<open>The weighted moderator service\<close>

record 's moderator_item =
  mi_Name :: string
  mi_Weight :: int
  mi_Service :: 's

record 's moderator_backend =
  mb_name :: string
  mb_weight :: int
  mb_service :: 's
  mb_currentWeight :: int

record 's weighted_moderator =
  wm_backends :: "'s moderator_backend list"
  wm_maxRuneLen :: int

text \<open>\<open>MaxRuneLen\<close> of a service is a parameter.\<close>

definition NewWeightedModeratorService ::
  "('s \<Rightarrow> int) \<Rightarrow> rand \<Rightarrow> 's moderator_item list \<Rightarrow> err + 's weighted_moderator" where
  "NewWeightedModeratorService MaxRuneLen rnd services =
     (if services = [] then Inl (Plain ''services must have at least one item'')
      else if list_ex (\<lambda>b. mi_Weight b < 0) services then Inl (Plain ''weight must be >= 0'')
      else let allZero = list_all (\<lambda>b. mi_Weight b = 0) services
           in Inr \<lparr>wm_backends =
                map (\<lambda>(i, b). let w = (if allZero then 100 else mi_Weight b)
                              in \<lparr>mb_name = mi_Name b, mb_weight = w, mb_service = mi_Service b,
                                  mb_currentWeight = rnd i (w + 1)\<rparr>) (enumerate 0 services),
              wm_maxRuneLen = fold (\<lambda>b m. if MaxRuneLen (mi_Service b) < m then MaxRuneLen (mi_Service b) else m)
                (tl services) (MaxRuneLen (mi_Service (hd services)))\<rparr>)"

definition getNextService :: "'s moderator_backend list \<Rightarrow> nat option \<times> 's moderator_backend list" where
  "getNextService backends =
     (let bs = map (\<lambda>b. b\<lparr>mb_currentWeight := mb_currentWeight b + mb_weight b\<rparr>) backends;
          totalWeight = sum_list (map mb_weight backends)
      in case best_index (map mb_currentWeight bs) 0 0 None of
           None \<Rightarrow> (None, bs)
         | Some i \<Rightarrow>
             (Some i, bs[i := (bs ! i)\<lparr>mb_currentWeight := mb_currentWeight (bs ! i) - totalWeight\<rparr>]))"

definition weighted_Allow ::
  "('s \<Rightarrow> string \<Rightarrow> err option) \<Rightarrow> 's weighted_moderator \<Rightarrow> string \<Rightarrow> err option \<times> 's weighted_moderator" where
  "weighted_Allow allow s text =
     (let (r, bs) = getNextService (wm_backends s)
      in (case r of
            None \<Rightarrow> Some (Wrap ''no available moderator service'' [Sentinel ''ErrModerationAPIFailed''])
          | Some i \<Rightarrow> allow (mb_service (wm_backends s ! i)) text,
          s\<lparr>wm_backends := bs\<rparr>))"

section \<open>Interpretations\<close>

interpretation lb: smooth_wrr GetNextEngine wb_weight wb_currentWeight
proof
  fix bs :: "'a wrr_backend list"
  show "map wb_weight (snd (GetNextEngine bs)) = map wb_weight bs"
    by (auto simp: GetNextEngine_def Let_def map_update_same comp_def split: option.splits)
next
  fix r and bs bs' :: "'a wrr_backend list"
  assume p: "GetNextEngine bs = (r, bs')"
  let ?cs = "map wb_currentWeight (map (\<lambda>b. b\<lparr>wb_currentWeight := wb_currentWeight b + wb_weight b\<rparr>) bs)"
  show "case r of
         None \<Rightarrow> (\<forall>j<length bs. wb_currentWeight (bs ! j) + wb_weight (bs ! j) \<le> 0) \<and>
                map wb_currentWeight bs' = map (\<lambda>b. wb_currentWeight b + wb_weight b) bs
       | Some i \<Rightarrow> i < length bs \<and> 0 < wb_currentWeight (bs ! i) + wb_weight (bs ! i) \<and>
                map wb_currentWeight bs' = (map (\<lambda>b. wb_currentWeight b + wb_weight b) bs)
                  [i := wb_currentWeight (bs ! i) + wb_weight (bs ! i) - sum_list (map wb_weight bs)]"
    using p best_index_positive [of ?cs]
    by (auto simp: GetNextEngine_def Let_def comp_def map_update split: option.splits)
qed

interpretation moderators: smooth_wrr getNextService mb_weight mb_currentWeight
proof
  fix bs :: "'a moderator_backend list"
  show "map mb_weight (snd (getNextService bs)) = map mb_weight bs"
    by (auto simp: getNextService_def Let_def map_update_same comp_def split: option.splits)
next
  fix r and bs bs' :: "'a moderator_backend list"
  assume p: "getNextService bs = (r, bs')"
  let ?cs = "map mb_currentWeight (map (\<lambda>b. b\<lparr>mb_currentWeight := mb_currentWeight b + mb_weight b\<rparr>) bs)"
  show "case r of
         None \<Rightarrow> (\<forall>j<length bs. mb_currentWeight (bs ! j) + mb_weight (bs ! j) \<le> 0) \<and>
                map mb_currentWeight bs' = map (\<lambda>b. mb_currentWeight b + mb_weight b) bs
       | Some i \<Rightarrow> i < length bs \<and> 0 < mb_currentWeight (bs ! i) + mb_weight (bs ! i) \<and>
                map mb_currentWeight bs' = (map (\<lambda>b. mb_currentWeight b + mb_weight b) bs)
                  [i := mb_currentWeight (bs ! i) + mb_weight (bs ! i) - sum_list (map mb_weight bs)]"
    using p best_index_positive [of ?cs]
    by (auto simp: getNextService_def Let_def comp_def map_update split: option.splits)
qed

section \<open>Fresh balancers\<close>

lemma sum_list_pos_int: "x \<in> set xs \<Longrightarrow> 0 < x \<Longrightarrow> \<forall>y\<in>set xs. 0 \<le> y \<Longrightarrow> 0 < sum_list xs" for xs :: "int list"
proof (induction xs)
  case (Cons y ys)
  have "0 \<le> sum_list ys" using Cons.prems(3) by (intro sum_list_nonneg) simp
  with Cons show ?case by (cases "x = y") auto
qed simp

lemma rand_ok_draw: "rand_ok rnd \<Longrightarrow> 0 \<le> v \<Longrightarrow> 0 \<le> rnd i (v + 1) \<and> rnd i (v + 1) \<le> v"
  by (drule rand_ok_def [THEN iffD1], drule spec [of _ i], drule spec [of _ "v + 1"]) simp

text \<open>Weights not negative and not all 0 after the default, draws between 0 and the weight.\<close>

lemma fresh_weights:
  assumes ne: "ws \<noteq> []" and nn: "\<not> list_ex (\<lambda>w. w < (0 :: int)) ws" and r: "rand_ok rnd"
  defines "vs \<equiv> (if list_all (\<lambda>w. w = 0) ws then map (\<lambda>_. 100) ws else ws)"
  shows "0 < sum_list vs" "\<forall>v\<in>set vs. 0 \<le> v"
    "0 \<le> sum_list (map (\<lambda>(i, v). rnd i (v + 1)) (enumerate 0 vs))"
    "sum_list (map (\<lambda>(i, v). rnd i (v + 1)) (enumerate 0 vs)) \<le> sum_list vs"
proof -
  show nonneg: "\<forall>v\<in>set vs. 0 \<le> v" using nn by (auto simp: vs_def list_ex_iff not_less)
  show pos: "0 < sum_list vs"
  proof (cases "list_all (\<lambda>w. w = 0) ws")
    case True
    with ne have "100 \<in> set vs" by (cases ws) (simp_all add: vs_def)
    with nonneg show ?thesis by (intro sum_list_pos_int [of 100]) auto
  next
    case False
    then have "vs = ws" by (simp add: vs_def)
    with False obtain w where "w \<in> set vs" "w \<noteq> 0" by (auto simp: list_all_iff)
    with nonneg show ?thesis by (intro sum_list_pos_int [of w]) auto
  qed
  have d: "0 \<le> rnd i (v + 1) \<and> rnd i (v + 1) \<le> v" if "v \<in> set vs" for i v
    using rand_ok_draw [OF r] nonneg that by simp
  show "0 \<le> sum_list (map (\<lambda>(i, v). rnd i (v + 1)) (enumerate 0 vs))"
    by (rule sum_list_nonneg) (use d in \<open>auto simp: in_set_enumerate_eq\<close>)
  have "sum_list (map (\<lambda>(i, v). rnd i (v + 1)) (enumerate 0 vs)) \<le> sum_list (map snd (enumerate 0 vs))"
    by (rule sum_list_mono) (use d in \<open>auto simp: in_set_enumerate_eq\<close>)
  then show "sum_list (map (\<lambda>(i, v). rnd i (v + 1)) (enumerate 0 vs)) \<le> sum_list vs" by simp
qed

lemma map_enumerate_map:
  "map (\<lambda>(i, x). f i x) (enumerate n (map g xs)) = map (\<lambda>(i, x). f i (g x)) (enumerate n xs)"
  by (induction xs arbitrary: n) auto

lemma map_enumerate_const: "map (\<lambda>(i, x). f x) (enumerate n xs) = map f xs"
  by (induction xs arbitrary: n) auto

lemma wrr_backends_fresh:
  fixes items :: "('e, 'rq) backend_item list"
  assumes "wrr_backends rnd items = Inr bs" "rand_ok rnd"
  shows "lb.wrr_inv (lb.balance bs) bs" "lb.balance bs \<le> lb.total_weight bs" "length bs = length items"
    "\<forall>b\<in>set bs. 0 \<le> wb_currentWeight b \<and> wb_currentWeight b \<le> wb_weight b"
    "map wb_weight bs = (if list_all (\<lambda>b. bi_Weight b = 0) items then map (\<lambda>_. 100) items else map bi_Weight items)"
    "map wb_name bs = map bi_Name items"
proof -
  define w :: "('e, 'rq) backend_item \<Rightarrow> int" where "w = (\<lambda>b. if list_all (\<lambda>b. bi_Weight b = 0) items then 100 else bi_Weight b)"
  have items: "map bi_Weight items \<noteq> []" "\<not> list_ex (\<lambda>w. w < 0) (map bi_Weight items)"
    and bs: "bs = map (\<lambda>(i, b). \<lparr>wb_name = bi_Name b, wb_weight = w b, wb_engine = bi_Engine b,
        wb_currentWeight = rnd i (w b + 1)\<rparr>) (enumerate 0 items)"
    using assms(1) by (auto simp: wrr_backends_def Let_def w_def list_ex_iff split: if_splits)
  have vs: "(if list_all (\<lambda>w. w = 0) (map bi_Weight items) then map (\<lambda>_. 100) (map bi_Weight items)
      else map bi_Weight items) = map w items"
    by (auto simp: w_def list_all_iff)
  note f = fresh_weights [OF items assms(2), unfolded vs]
  have ws: "map wb_weight bs = map w items"
    using map_enumerate_const [of w 0 items] by (simp add: bs comp_def split_def)
  have cs: "map wb_currentWeight bs = map (\<lambda>(i, v). rnd i (v + 1)) (enumerate 0 (map w items))"
    by (simp add: bs comp_def case_prod_beta map_enumerate_map)
  have names: "map wb_name bs = map bi_Name items"
    using map_enumerate_const [of bi_Name 0 items] by (simp add: bs comp_def split_def)
  show "map wb_name bs = map bi_Name items" by (rule names)
  show "length bs = length items" by (simp add: bs)
  show "map wb_weight bs = (if list_all (\<lambda>b. bi_Weight b = 0) items then map (\<lambda>_. 100) items else map bi_Weight items)"
    by (auto simp: ws w_def)
  have d: "0 \<le> rnd i (v + 1) \<and> rnd i (v + 1) \<le> v" if "0 \<le> v" for i v
    by (rule rand_ok_draw [OF assms(2) that])
  show cw: "\<forall>b\<in>set bs. 0 \<le> wb_currentWeight b \<and> wb_currentWeight b \<le> wb_weight b"
    using d f(2) by (auto simp: bs in_set_enumerate_eq)
  show "lb.balance bs \<le> lb.total_weight bs"
    unfolding lb.balance_def lb.total_weight_def cs ws by (rule f(4))
  have "\<forall>b\<in>set bs. 0 \<le> wb_weight b" using f(2) ws by (metis image_eqI list.set_map)
  then show "lb.wrr_inv (lb.balance bs) bs"
    using f(1,3) cw unfolding lb.wrr_inv_def lb.total_weight_def ws [symmetric] cs [symmetric] lb.balance_def
    by (auto simp: cs ws intro: less_le_trans [of _ 0])
qed

section \<open>Properties\<close>

text \<open>C11: Fairness of the weighted round robin. In \<open>m\<close> turns of a fresh balancer no turn comes
  back empty-handed, and a backend of weight \<open>w\<close> out of the total \<open>T\<close> gets \<open>m * w / T\<close> turns, up to
  at most \<open>n\<close> (the number of backends) too few or two too many, whatever the random initial weights.\<close>

theorem round_robin_is_fair:
  assumes "rand_ok rnd" and "NewWeightedRoundRobin rnd items timeout maxCount = Inr l" and "j < length items"
  defines "bs \<equiv> lb_backends l" and "T \<equiv> sum_list (map wb_weight (lb_backends l))"
    and "picked \<equiv> \<lambda>m. fst (lb.turns m (lb_backends l))"
  shows "None \<notin> set (picked m) \<and> length (picked m) = m \<and>
     int m * wb_weight (bs ! j) - int (length items) * T \<le> int (count_list (picked m) (Some j)) * T \<and>
     int (count_list (picked m) (Some j)) * T < int m * wb_weight (bs ! j) + T + wb_weight (bs ! j)"
proof -
  have new: "wrr_backends rnd items = Inr bs"
    using assms(2) by (auto simp: NewWeightedRoundRobin_def bs_def split: sum.splits)
  note f = wrr_backends_fresh [OF new assms(1)]
  have j: "j < length bs" using assms(3) f(3) by simp
  have T: "T = lb.total_weight bs" by (simp add: T_def bs_def lb.total_weight_def)
  have c: "0 \<le> wb_currentWeight (bs ! j)" "wb_currentWeight (bs ! j) \<le> wb_weight (bs ! j)"
    using f(4) j by simp_all
  show ?thesis
    using lb.turns_inv [OF f(1), of m] lb.fair_share [OF f(1) j f(2), of m] c
    by (simp add: picked_def T bs_def [symmetric] f(3))
qed

definition demo_items :: "(nat, unit) backend_item list" where
  "demo_items = [\<lparr>bi_Name = ''a'', bi_Weight = 2, bi_Engine = 0, bi_MaxConcurrencyFn = None, bi_CacheMissMaxUtilization = 0\<rparr>,
                 \<lparr>bi_Name = ''b'', bi_Weight = 1, bi_Engine = 1, bi_MaxConcurrencyFn = None, bi_CacheMissMaxUtilization = 0\<rparr>]"

definition demo_wrr :: "nat wrr" where
  "demo_wrr = \<lparr>lb_backends = [\<lparr>wb_name = ''a'', wb_weight = 2, wb_engine = 0, wb_currentWeight = 0\<rparr>,
                             \<lparr>wb_name = ''b'', wb_weight = 1, wb_engine = 1, wb_currentWeight = 0\<rparr>],
               lb_retryTimeout = 30 * second, lb_retryMaxCount = 3\<rparr>"

lemma demo_wrr_new: "NewWeightedRoundRobin (\<lambda>_ _. 0) demo_items (30 * second) 3 = Inr demo_wrr"
  by (simp add: NewWeightedRoundRobin_def wrr_backends_def demo_items_def demo_wrr_def)

lemma rand_zero [simp]: "rand_ok (\<lambda>_ _. 0)"
  by (simp add: rand_ok_def)

theorem round_robin_is_fair_witness:
  "int (count_list (fst (lb.turns 30 (lb_backends demo_wrr))) (Some 0)) \<le> 21 \<and>
   18 \<le> int (count_list (fst (lb.turns 30 (lb_backends demo_wrr))) (Some 0))"
proof -
  have w: "sum_list (map wb_weight (lb_backends demo_wrr)) = 3" "wb_weight (lb_backends demo_wrr ! 0) = 2"
    "length demo_items = 2"
    by (simp_all add: demo_wrr_def demo_items_def)
  show ?thesis
    using round_robin_is_fair [OF rand_zero demo_wrr_new, of 0 30] by (simp add: w)
qed

text \<open>A backend of weight 0 beside one with a positive weight is drained: no turn picks it.\<close>

theorem zero_weight_is_drained:
  assumes "rand_ok rnd" and "NewWeightedRoundRobin rnd items timeout maxCount = Inr l"
    and "j < length items" and "bi_Weight (items ! j) = 0" and "list_ex (\<lambda>b. 0 < bi_Weight b) items"
  shows "Some j \<notin> set (fst (lb.turns m (lb_backends l)))"
proof -
  let ?bs = "lb_backends l"
  have new: "wrr_backends rnd items = Inr ?bs"
    using assms(2) by (auto simp: NewWeightedRoundRobin_def split: sum.splits)
  note f = wrr_backends_fresh [OF new assms(1)]
  have "\<not> list_all (\<lambda>b. bi_Weight b = 0) items" using assms(5) by (fastforce simp: list_all_iff list_ex_iff)
  then have "map wb_weight ?bs = map bi_Weight items" using f(5) by simp
  then have w: "wb_weight (?bs ! j) = 0" using assms(3,4) f(3) by (metis nth_map)
  with f(4) assms(3) f(3) have "wb_currentWeight (?bs ! j) \<le> 0" by (metis nth_mem)
  with lb.zero_weight_unused [OF f(1) _ w] assms(3) f(3) show ?thesis by simp
qed

definition drained_items :: "(nat, unit) backend_item list" where
  "drained_items = demo_items @ [\<lparr>bi_Name = ''c'', bi_Weight = 0, bi_Engine = 2, bi_MaxConcurrencyFn = None,
     bi_CacheMissMaxUtilization = 0\<rparr>]"

definition drained_wrr :: "nat wrr" where
  "drained_wrr = demo_wrr\<lparr>lb_backends := lb_backends demo_wrr @
     [\<lparr>wb_name = ''c'', wb_weight = 0, wb_engine = 2, wb_currentWeight = 0\<rparr>]\<rparr>"

theorem zero_weight_is_drained_witness:
  "Some 2 \<notin> set (fst (lb.turns 30 (lb_backends drained_wrr)))"
proof -
  have new: "NewWeightedRoundRobin (\<lambda>_ _. 0) drained_items (30 * second) 3 = Inr drained_wrr"
    by (simp add: NewWeightedRoundRobin_def wrr_backends_def demo_items_def demo_wrr_def drained_items_def drained_wrr_def)
  show ?thesis
    by (rule zero_weight_is_drained [OF rand_zero new]) (simp_all add: drained_items_def demo_items_def)
qed

text \<open>The attempts of the failover loop.\<close>

lemma wrr_loop_step:
  assumes "GetNextEngine (lw_backends w) = (Some i, bs)"
    and "exec (wb_engine (lw_backends w ! i)) req
      (w\<lparr>lw_backends := bs, lw_meta := SetMetadataValue (lw_meta w) backendName (MetaStr (wb_name (lw_backends w ! i)))\<rparr>) = ((resp, er), wb)"
  shows "wrr_loop l env exec req c w =
     (let n = wb_name (lw_backends w ! i); stop = (([(n, resp, er)], Returned (resp, er)), wb)
      in case er of
           None \<Rightarrow> stop
         | Some e \<Rightarrow>
             if isNotRetriableError e \<or> cancelled env (c + 1) \<or> lb_retryTimeout l \<le> elapsed env (c + 1) \<or>
                lb_retryMaxCount l \<le> c + 1 then stop
             else (let ((tried, out), w3) = wrr_loop l env exec req (c + 1) wb
                   in (((n, resp, er) # tried, out), w3)))"
  by (subst wrr_loop.simps) (simp add: assms Let_def split: option.splits)

lemma wrr_loop_nil: "GetNextEngine (lw_backends w) = (None, bs) \<Longrightarrow> wrr_loop l env exec req c w = (([], Panicked), w\<lparr>lw_backends := bs\<rparr>)"
  by (subst wrr_loop.simps) simp

text \<open>An invariant of the attempts, and two ways to run backends that agree on the backends picked.\<close>

lemma wrr_loop_agrees:
  assumes "P w"
    and "\<And>w i bs. P w \<Longrightarrow> GetNextEngine (lw_backends w) = (Some i, bs) \<Longrightarrow>
      P (snd (exec (wb_engine (lw_backends w ! i)) req
        (w\<lparr>lw_backends := bs, lw_meta := SetMetadataValue (lw_meta w) backendName (MetaStr (wb_name (lw_backends w ! i)))\<rparr>))) \<and>
      exec' (wb_engine (lw_backends w ! i)) = exec (wb_engine (lw_backends w ! i))"
    and "\<And>w bs. P w \<Longrightarrow> GetNextEngine (lw_backends w) = (None, bs) \<Longrightarrow> P (w\<lparr>lw_backends := bs\<rparr>)"
  shows "P (snd (wrr_loop l env exec req c w)) \<and> wrr_loop l env exec' req c w = wrr_loop l env exec req c w"
  using assms(1)
proof (induction "nat (lb_retryMaxCount l - c)" arbitrary: c w rule: less_induct)
  case less
  obtain r bs where g: "GetNextEngine (lw_backends w) = (r, bs)" by fastforce
  show ?case
  proof (cases r)
    case None
    then show ?thesis using assms(3) [OF less.prems] g by (simp add: wrr_loop_nil)
  next
    case (Some i)
    note g' = g [unfolded Some]
    define wa where "wa = w\<lparr>lw_backends := bs, lw_meta := SetMetadataValue (lw_meta w) backendName (MetaStr (wb_name (lw_backends w ! i)))\<rparr>"
    obtain resp er wb where x: "exec (wb_engine (lw_backends w ! i)) req wa = ((resp, er), wb)" by (metis surj_pair)
    have b: "P wb" "exec' (wb_engine (lw_backends w ! i)) req wa = ((resp, er), wb)"
      using assms(2) [OF less.prems g'] x by (simp_all add: wa_def)
    note loop = wrr_loop_step [where exec = exec and req = req and w = w and l = l and env = env and c = c, OF g' x [unfolded wa_def]]
      wrr_loop_step [where exec = exec' and req = req and w = w and l = l and env = env and c = c, OF g' b(2) [unfolded wa_def]]
    show ?thesis
    proof (cases "(case er of None \<Rightarrow> True | Some e \<Rightarrow> isNotRetriableError e \<or> cancelled env (c + 1) \<or>
        lb_retryTimeout l \<le> elapsed env (c + 1) \<or> lb_retryMaxCount l \<le> c + 1)")
      case True
      then show ?thesis using b(1) unfolding loop Let_def by (auto split: option.splits)
    next
      case False
      then have "nat (lb_retryMaxCount l - (c + 1)) < nat (lb_retryMaxCount l - c)" by (auto split: option.splits)
      from less.hyps [OF this b(1)] False show ?thesis unfolding loop Let_def by (auto split: option.splits prod.splits)
    qed
  qed
qed

lemma wrr_loop_tried:
  assumes "wrr_loop l env exec req c w = ((tried, out), w')"
    and "lb.wrr_inv S (lw_backends w)"
    and "\<And>e w. \<exists>S. lb.wrr_inv S (lw_backends w) \<Longrightarrow> \<exists>S. lb.wrr_inv S (lw_backends (snd (exec e req w)))"
  shows "tried \<noteq> [] \<and> out = Returned (snd (last tried)) \<and>
     int (length tried) \<le> max 1 (lb_retryMaxCount l - c) \<and>
     (\<forall>(n, resp, er)\<in>set (butlast tried). \<exists>e. er = Some e \<and> \<not> isNotRetriableError e)"
  using assms(1,2)
proof (induction "nat (lb_retryMaxCount l - c)" arbitrary: c w S tried out w' rule: less_induct)
  case less
  obtain i where i: "fst (GetNextEngine (lw_backends w)) = Some i"
    using lb.pick_Some [OF less.prems(2)] by metis
  let ?b = "lw_backends w ! i"
  obtain bs where g: "GetNextEngine (lw_backends w) = (Some i, bs)" using i by (metis prod.collapse)
  have inv: "lb.wrr_inv S bs" using lb.pick_inv [OF less.prems(2)] by (simp add: g)
  define wa where "wa = w\<lparr>lw_backends := bs, lw_meta := SetMetadataValue (lw_meta w) backendName (MetaStr (wb_name ?b))\<rparr>"
  obtain resp er wb where x: "exec (wb_engine ?b) req wa = ((resp, er), wb)" by (metis surj_pair)
  have "\<exists>S. lb.wrr_inv S (lw_backends wb)"
    using assms(3) [of wa "wb_engine ?b"] inv x by (auto simp: wa_def)
  then obtain S' where inv': "lb.wrr_inv S' (lw_backends wb)" ..
  note loop = wrr_loop_step [where exec = exec and req = req and w = w and l = l and env = env and c = c, OF g x [unfolded wa_def]]
  show ?case
  proof (cases er)
    case None
    then show ?thesis using less.prems(1) unfolding loop Let_def by auto
  next
    case (Some e)
    show ?thesis
    proof (cases "isNotRetriableError e \<or> cancelled env (c + 1) \<or> lb_retryTimeout l \<le> elapsed env (c + 1) \<or>
        lb_retryMaxCount l \<le> c + 1")
      case True
      then show ?thesis using less.prems(1) Some unfolding loop Let_def by auto
    next
      case False
      obtain tried' out' where rec: "wrr_loop l env exec req (c + 1) wb = ((tried', out'), w')"
        "tried = (wb_name ?b, resp, Some e) # tried'" "out = out'"
        using less.prems(1) Some False unfolding loop Let_def by (auto split: prod.splits)
      have "nat (lb_retryMaxCount l - (c + 1)) < nat (lb_retryMaxCount l - c)" using False by simp
      from less.hyps [OF this rec(1) inv'] show ?thesis using False by (auto simp: rec(2,3))
    qed
  qed
qed

text \<open>C12: Failover. \<open>Process\<close> makes at least one and at most \<open>max 1 retryMaxCount\<close> attempts, never
  calls a nil engine, and returns exactly what the last attempt returned; every attempt before it
  failed with an error that may be retried (never a 413). This holds while other requests take turns
  on the same balancer.\<close>

theorem failover_returns_last_attempt:
  assumes "rand_ok rnd" and "NewWeightedRoundRobin rnd items timeout maxCount = Inr l"
    and "lw_backends w = lb_backends l"
    and "\<And>e w. \<exists>S. lb.wrr_inv S (lw_backends w) \<Longrightarrow> \<exists>S. lb.wrr_inv S (lw_backends (snd (exec e req w)))"
    and "wrr_process l env exec None req w = ((tried, out), w')"
  shows "tried \<noteq> [] \<and> out = Returned (snd (last tried)) \<and> int (length tried) \<le> max 1 maxCount \<and>
     (\<forall>(n, resp, er)\<in>set (butlast tried). \<exists>e. er = Some e \<and> \<not> isNotRetriableError e)"
proof -
  have new: "wrr_backends rnd items = Inr (lb_backends l)" and m: "lb_retryMaxCount l = maxCount"
    using assms(2) by (auto simp: NewWeightedRoundRobin_def split: sum.splits)
  have "wrr_loop l env exec req 0 w = ((tried, out), w')" using assms(5) by (simp add: wrr_process_def)
  from wrr_loop_tried [OF this _ assms(4)] wrr_backends_fresh(1) [OF new assms(1)] assms(3) m
  show ?thesis by simp
qed

text \<open>Backend 0 answers 500, backend 1 answers.\<close>

definition demo_exec :: "nat \<Rightarrow> ((nat, unit) lb_world, unit, int) engine" where
  "demo_exec e req w = (if e = 0 then ((None, Some (UpstreamResp 500 [] ''error'')), w) else ((Some 200, None), w))"

theorem failover_returns_last_attempt_witness:
  "snd (fst (wrr_process demo_wrr \<lparr>elapsed = (\<lambda>_. 0), cancelled = (\<lambda>_. False)\<rparr> demo_exec None ()
     \<lparr>lw_backends = lb_backends demo_wrr, lw_meta = None, lw_rest = ()\<rparr>)) \<noteq> Panicked"
proof -
  let ?p = "wrr_process demo_wrr \<lparr>elapsed = (\<lambda>_. 0), cancelled = (\<lambda>_. False)\<rparr> demo_exec None ()
     \<lparr>lw_backends = lb_backends demo_wrr, lw_meta = None, lw_rest = ()\<rparr>"
  have e: "\<exists>S. lb.wrr_inv S (lw_backends (snd (demo_exec e () w)))" if "\<exists>S. lb.wrr_inv S (lw_backends w)" for e w
    using that by (simp add: demo_exec_def)
  have p: "?p = ((fst (fst ?p), snd (fst ?p)), snd ?p)" by simp
  show ?thesis
    using failover_returns_last_attempt [OF rand_zero demo_wrr_new _ e p] by simp
qed

end
