(* ===== verification/ShardStore.thy ===== *)
theory ShardStore
  imports Core
begin

text \<open>
  The Redis sorted sets that map a shard key to the backends that served it last, as both shard
  key load balancers (\<open>shard_key_round_robin.go\<close>, \<open>shard_key_concurrency.go\<close>) use them. The
  commands are parameters over a server state \<open>'w\<close>, network included, so a command may fail or do
  nothing; a pipeline runs its commands in order. The locale \<open>shard_store\<close> states their
  documented behaviour while the server answers.
\<close>

section \<open>Commands\<close>

record 'w shard_ops =
  zRevRange :: "string \<Rightarrow> 'w \<Rightarrow> err + string list"
  zRemRangeByRank :: "string \<Rightarrow> int \<Rightarrow> int \<Rightarrow> 'w \<Rightarrow> 'w"
  zAdd :: "string \<Rightarrow> int \<Rightarrow> string \<Rightarrow> 'w \<Rightarrow> 'w"
  expire :: "string \<Rightarrow> int \<Rightarrow> 'w \<Rightarrow> 'w"
  zCard :: "string \<Rightarrow> 'w \<Rightarrow> err + int"

definition redisKey :: "string \<Rightarrow> string \<Rightarrow> string" where
  "redisKey keyPrefix shardKey = (if keyPrefix = '''' then shardKey else keyPrefix @ '':'' @ shardKey)"

lemma redisKey_inject [simp]: "redisKey pre j = redisKey pre k \<longleftrightarrow> j = k"
  by (simp add: redisKey_def)

section \<open>Reading the backends of the shard keys\<close>

text \<open>\<open>cmd.Result()\<close>, where \<open>redis.Nil\<close> counts as an empty reply; \<open>None\<close> skips the key.\<close>

definition key_members :: "err + string list \<Rightarrow> string list option" where
  "key_members reply =
     (case reply of Inr names \<Rightarrow> Some names
      | Inl e \<Rightarrow> if e = Sentinel ''redis.Nil'' then Some [] else None)"

text \<open>The inner loop over the members of one key: \<open>known\<close> is the lookup in \<open>backendByName\<close>
  together with the balancer's own condition, \<open>i\<close> the index of the key. The accumulator holds the
  prioritized backends, each with its key index, and the names seen.\<close>

fun scan_members :: "(string \<Rightarrow> 'b option) \<Rightarrow> nat \<Rightarrow> string list \<Rightarrow> ('b \<times> nat) list \<times> string list
    \<Rightarrow> ('b \<times> nat) list \<times> string list" where
  "scan_members known i [] (out, seen) = (out, seen)"
| "scan_members known i (n # ns) (out, seen) =
     (if n = '''' \<or> n \<in> set seen then scan_members known i ns (out, seen)
      else case known n of
             Some b \<Rightarrow> scan_members known i ns (out @ [(b, i)], n # seen)
           | None \<Rightarrow> scan_members known i ns (out, seen))"

text \<open>The outer loop, from the last key to the first. It also queues the trims: a set of more
  than 3 members loses all but its newest 3.\<close>

fun scan_keys :: "(string \<Rightarrow> 'b option) \<Rightarrow> (nat \<times> string \<times> (err + string list)) list
    \<Rightarrow> ('b \<times> nat) list \<times> string list \<Rightarrow> (string \<times> int) list
    \<Rightarrow> (('b \<times> nat) list \<times> string list) \<times> (string \<times> int) list" where
  "scan_keys known [] acc trims = (acc, trims)"
| "scan_keys known ((i, key, reply) # rest) acc trims =
     (if key = '''' then scan_keys known rest acc trims
      else case key_members reply of
             None \<Rightarrow> scan_keys known rest acc trims
           | Some names \<Rightarrow>
               scan_keys known rest (scan_members known i names acc)
                 (if 3 < length names then trims @ [(key, int (length names) - 4)] else trims))"

definition trim_sets :: "'w shard_ops \<Rightarrow> string \<Rightarrow> (string \<times> int) list \<Rightarrow> 'w \<Rightarrow> 'w" where
  "trim_sets R pre trims w = fold (\<lambda>(k, stop). zRemRangeByRank R (redisKey pre k) 0 stop) trims w"

definition resolve_backends ::
  "'w shard_ops \<Rightarrow> string \<Rightarrow> (string \<Rightarrow> 'b option) \<Rightarrow> string list \<Rightarrow> 'w \<Rightarrow> ('b \<times> nat) list \<times> 'w" where
  "resolve_backends R pre known keys w =
     (let replies = map (\<lambda>(i, k). (i, k, zRevRange R (redisKey pre k) w)) (enumerate 0 keys);
          ((out, seen), trims) = scan_keys known (rev replies) ([], []) []
      in (out, trim_sets R pre trims w))"

text \<open>\<open>backendByName\<close>: of two backends of one name the later one; unnamed ones are left out.\<close>

definition backendByName :: "('b \<Rightarrow> string) \<Rightarrow> 'b list \<Rightarrow> string \<Rightarrow> nat option" where
  "backendByName name bs n =
     (case filter (\<lambda>i. name (bs ! i) = n) [0..<length bs] of
        [] \<Rightarrow> None
      | is \<Rightarrow> if n = '''' then None else Some (last is))"

lemma backendByName_Some:
  "backendByName name bs n = Some i \<Longrightarrow> i < length bs \<and> name (bs ! i) = n \<and> n \<noteq> ''''"
proof -
  assume a: "backendByName name bs n = Some i"
  let ?f = "filter (\<lambda>i. name (bs ! i) = n) [0..<length bs]"
  have "n \<noteq> ''''" "?f \<noteq> []" "i = last ?f" using a by (auto simp: backendByName_def split: list.splits if_splits)
  moreover have "last ?f \<in> set ?f" using \<open>?f \<noteq> []\<close> by (rule last_in_set)
  ultimately show ?thesis by simp
qed

lemma filter_upt_eq: "filter (\<lambda>j. j = i) [0..<n] = (if i < n then [i] else [])"
  by (induction n) auto

lemma backendByName_distinct:
  assumes "distinct (map name bs)" "i < length bs" "name (bs ! i) = n" "n \<noteq> ''''"
  shows "backendByName name bs n = Some i"
proof -
  have "filter (\<lambda>j. name (bs ! j) = n) [0..<length bs] = filter (\<lambda>j. j = i) [0..<length bs]"
    using assms by (intro filter_cong) (auto simp: distinct_conv_nth)
  also have "\<dots> = [i]" using assms(2) by (simp add: filter_upt_eq)
  finally show ?thesis using assms(4) by (simp add: backendByName_def)
qed

section \<open>Recording a success\<close>

definition record_success ::
  "'w shard_ops \<Rightarrow> string \<Rightarrow> int \<Rightarrow> int \<Rightarrow> string list \<Rightarrow> string \<Rightarrow> 'w \<Rightarrow> 'w" where
  "record_success R pre ttl nowUnix keys n w =
     fold (\<lambda>k w. if k = '''' then w
                 else expire R (redisKey pre k) ttl (zAdd R (redisKey pre k) nowUnix n w)) keys w"

section \<open>What the scan computes\<close>

text \<open>The first occurrences in a list, not counting what was seen before.\<close>

fun firsts :: "'a list \<Rightarrow> 'a list \<Rightarrow> 'a list" where
  "firsts seen [] = []"
| "firsts seen (x # xs) = (if x \<in> set seen then firsts seen xs else x # firsts (x # seen) xs)"

lemma firsts_append: "firsts seen (xs @ ys) = firsts seen xs @ firsts (rev (firsts seen xs) @ seen) ys"
  by (induction xs arbitrary: seen) auto

lemma set_firsts: "set (firsts seen xs) = set xs - set seen"
  by (induction xs arbitrary: seen) auto

lemma distinct_firsts: "distinct (firsts seen xs)"
  by (induction xs arbitrary: seen) (auto simp: set_firsts)

definition usable :: "(string \<Rightarrow> 'b option) \<Rightarrow> string list \<Rightarrow> string list" where
  "usable known ns = filter (\<lambda>n. n \<noteq> '''' \<and> known n \<noteq> None) ns"

lemma usable_simps [simp]:
  "usable known [] = []"
  "usable known (n # ns) = (if n \<noteq> '''' \<and> known n \<noteq> None then n # usable known ns else usable known ns)"
  "usable known (ms @ ns) = usable known ms @ usable known ns"
  by (simp_all add: usable_def)

lemma scan_members_eq:
  "scan_members known i ns (out, seen) =
     (let zs = firsts seen (usable known ns)
      in (out @ map (\<lambda>n. (the (known n), i)) zs, rev zs @ seen))"
  by (induction ns arbitrary: out seen) (auto simp: Let_def split: option.splits)

text \<open>The members of the keys that were read, in the order of the scan.\<close>

definition read_members :: "(nat \<times> string \<times> (err + string list)) list \<Rightarrow> string list" where
  "read_members rs = concat (map (\<lambda>(i, k, r). if k = '''' then [] else
     case key_members r of None \<Rightarrow> [] | Some ns \<Rightarrow> ns) rs)"

lemma read_members_simps [simp]:
  "read_members [] = []"
  "read_members ((i, k, r) # rs) =
     (if k = '''' then [] else case key_members r of None \<Rightarrow> [] | Some ns \<Rightarrow> ns) @ read_members rs"
  by (simp_all add: read_members_def)

lemma scan_keys_names:
  "map fst (fst (fst (scan_keys known rs (out, seen) trims))) =
     map fst out @ map (\<lambda>n. the (known n)) (firsts seen (usable known (read_members rs)))"
proof (induction rs arbitrary: out seen trims)
  case (Cons a rs)
  obtain i k r where a: "a = (i, k, r)" by (metis surj_pair)
  show ?case
  proof (cases "k = '''' \<or> key_members r = None")
    case True
    then show ?thesis using Cons.IH [of out seen trims] by (auto simp: a)
  next
    case False
    then obtain ns where "key_members r = Some ns" by blast
    then show ?thesis using False by (simp add: a scan_members_eq Let_def firsts_append comp_def Cons.IH)
  qed
qed simp

text \<open>The backends found are the known ones among the members of the keys, newest key and newest
  member first, each once.\<close>

lemma resolve_backends_names:
  "map fst (fst (resolve_backends R pre known keys w)) =
     map (\<lambda>n. the (known n)) (firsts [] (usable known (read_members
       (rev (map (\<lambda>(i, k). (i, k, zRevRange R (redisKey pre k) w)) (enumerate 0 keys))))))"
  by (simp add: resolve_backends_def Let_def case_prod_beta scan_keys_names)

section \<open>Documented behaviour\<close>

text \<open>The view of a key: its members with their scores, lowest rank first.\<close>

type_synonym ranked = "string \<Rightarrow> (string \<times> int) list"

locale shard_store =
  fixes R :: "'w shard_ops" and view :: "'w \<Rightarrow> ranked"
  assumes ranked: "sorted (map snd (view w k))" and members_distinct: "distinct (map fst (view w k))"
    and zRevRange_view: "zRevRange R k w = Inr (rev (map fst (view w k)))"
    and zRemRangeByRank_view: "0 \<le> stop \<Longrightarrow>
      view (zRemRangeByRank R k 0 stop w) = (view w)(k := drop (nat stop + 1) (view w k))"
    and zAdd_view: "k' \<noteq> k \<Longrightarrow> view (zAdd R k s m w) k' = view w k'"
    and zAdd_set: "set (view (zAdd R k s m w) k) = insert (m, s) {x \<in> set (view w k). fst x \<noteq> m}"
    and expire_view: "0 < t \<Longrightarrow> view (expire R k t w) = view w"
begin

lemma newest_member:
  assumes "\<forall>x\<in>set (view w k). fst x \<noteq> m \<longrightarrow> snd x < s" "(m, s) \<in> set (view w k)"
  shows "\<exists>xs. view w k = xs @ [(m, s)]"
proof -
  obtain xs ys where v: "view w k = xs @ (m, s) # ys" using assms(2) by (metis split_list)
  have "ys = []"
  proof (rule ccontr)
    assume "ys \<noteq> []"
    then obtain y where y: "y \<in> set ys" by (cases ys) auto
    with ranked [of w k] have "s \<le> snd y" by (auto simp: v sorted_append)
    moreover have "fst y \<noteq> m" using members_distinct [of w k] y by (auto simp: v)
    ultimately show False using assms(1) y by (fastforce simp: v)
  qed
  with v show ?thesis by blast
qed

text \<open>A recorded success is what the next read of each of its keys finds first, when the entries
  of the key are older.\<close>

lemma record_success_view:
  assumes "0 < ttl" "\<And>k x. x \<in> set (view w k) \<Longrightarrow> fst x \<noteq> n \<Longrightarrow> snd x < s"
  shows "(\<forall>k x. x \<in> set (view (record_success R pre ttl s keys n w) k) \<longrightarrow> fst x \<noteq> n \<longrightarrow> snd x < s) \<and>
    (\<forall>k\<in>set keys. k \<noteq> '''' \<longrightarrow> (n, s) \<in> set (view (record_success R pre ttl s keys n w) (redisKey pre k)))"
proof -
  let ?step = "\<lambda>k w. if k = '''' then w else expire R (redisKey pre k) ttl (zAdd R (redisKey pre k) s n w)"
  have keep: "(n, s) \<in> set (view (zAdd R k s n v) j)" if "(n, s) \<in> set (view v j)" for j k v
    using that by (cases "j = k") (simp_all add: zAdd_view zAdd_set)
  have old: "snd x < s" if "x \<in> set (view (zAdd R k s n v) j)" "fst x \<noteq> n"
    "\<And>k x. x \<in> set (view v k) \<Longrightarrow> fst x \<noteq> n \<Longrightarrow> snd x < s" for x j k v
  proof (cases "j = k")
    case True
    with that(1,2) have "x \<in> set (view v k)" by (auto simp: zAdd_set)
    with that(2) show ?thesis by (rule that(3) [rotated])
  next
    case False
    with that(1,2) show ?thesis by (intro that(3)) (simp_all add: zAdd_view)
  qed
  have "(\<forall>k x. x \<in> set (view (fold ?step keys v) k) \<longrightarrow> fst x \<noteq> n \<longrightarrow> snd x < s) \<and>
    (\<forall>j. (n, s) \<in> set (view v j) \<longrightarrow> (n, s) \<in> set (view (fold ?step keys v) j)) \<and>
    (\<forall>k\<in>set keys. k \<noteq> '''' \<longrightarrow> (n, s) \<in> set (view (fold ?step keys v) (redisKey pre k)))"
    if "\<forall>k x. x \<in> set (view v k) \<longrightarrow> fst x \<noteq> n \<longrightarrow> snd x < s" for v
    using that
  proof (induction keys arbitrary: v)
    case (Cons k keys)
    have v: "view (?step k v) = (if k = '''' then view v else view (zAdd R (redisKey pre k) s n v))"
      by (simp add: expire_view assms(1))
    have p: "snd x < s" if x: "x \<in> set (view (?step k v) j)" "fst x \<noteq> n" for j x
    proof (cases "k = ''''")
      case True
      with x(1) have "x \<in> set (view v j)" by simp
      then show ?thesis using x(2) Cons.prems by metis
    next
      case False
      with x(1) v have "x \<in> set (view (zAdd R (redisKey pre k) s n v) j)" by metis
      then show ?thesis using x(2) by (rule old) (use Cons.prems in metis)
    qed
    have "\<forall>j x. x \<in> set (view (?step k v) j) \<longrightarrow> fst x \<noteq> n \<longrightarrow> snd x < s" using p by blast
    note IH = Cons.IH [OF this]
    have "(n, s) \<in> set (view (?step k v) j)" if "(n, s) \<in> set (view v j)" for j
      unfolding v using keep that by simp
    moreover have "(n, s) \<in> set (view (?step k v) (redisKey pre k))" if "k \<noteq> ''''"
      unfolding v using that by (simp add: zAdd_set)
    moreover have "fold ?step (k # keys) v = fold ?step keys (?step k v)" by simp
    ultimately show ?case
      using IH by (auto simp del: fold.simps simp: fold_simps(2))
  qed auto
  from this [of w] show ?thesis unfolding record_success_def using assms(2) by blast
qed

lemma recorded_first:
  assumes "0 < ttl" "\<And>k x. x \<in> set (view w k) \<Longrightarrow> fst x \<noteq> n \<Longrightarrow> snd x < s" "k \<in> set keys" "k \<noteq> ''''"
  shows "\<exists>ns. zRevRange R (redisKey pre k) (record_success R pre ttl s keys n w) = Inr (n # ns)"
proof -
  let ?w = "record_success R pre ttl s keys n w"
  obtain xs where "view ?w (redisKey pre k) = xs @ [(n, s)]"
    using newest_member [of ?w "redisKey pre k" n s] record_success_view [OF assms(1,2), where keys = keys] assms(3,4)
    by auto
  then show ?thesis by (simp add: zRevRange_view)
qed

text \<open>Reading the keys trims their sets to the newest three members.\<close>

lemma scan_keys_trims:
  "snd (scan_keys known rs acc trims) = trims @ concat (map (\<lambda>(i, k, r).
     case key_members r of
       Some ns \<Rightarrow> if k \<noteq> '''' \<and> 3 < length ns then [(k, int (length ns) - 4)] else []
     | None \<Rightarrow> []) rs)"
  by (induction known rs acc trims rule: scan_keys.induct) (auto split: option.splits)

lemma trim_sets_view:
  assumes "distinct (map (redisKey pre \<circ> fst) trims)" "\<forall>(k, stop)\<in>set trims. 0 \<le> stop"
  shows "view (trim_sets R pre trims w) j =
    (case map_of (map (\<lambda>(k, stop). (redisKey pre k, stop)) trims) j of
       None \<Rightarrow> view w j | Some stop \<Rightarrow> drop (nat stop + 1) (view w j))"
  using assms unfolding trim_sets_def
proof (induction trims arbitrary: w)
  case (Cons a trims)
  obtain k stop where a: "a = (k, stop)" by fastforce
  have none: "map_of (map (\<lambda>(k, stop). (redisKey pre k, stop)) trims) (redisKey pre k) = None"
    using Cons.prems(1) by (force simp: a map_of_eq_None_iff)
  show ?case
    using Cons.prems Cons.IH [of "zRemRangeByRank R (redisKey pre k) 0 stop w"] none
    by (auto simp: a zRemRangeByRank_view split: option.splits)
qed simp

lemma resolve_subset: "set (view (snd (resolve_backends R pre known keys w)) j) \<subseteq> set (view w j)"
proof -
  have trim: "set (view (trim_sets R pre trims v) j) \<subseteq> set (view v j)" if "\<forall>(k, stop)\<in>set trims. 0 \<le> stop" for trims v
    using that unfolding trim_sets_def
  proof (induction trims arbitrary: v)
    case (Cons a trims)
    then have "set (view (zRemRangeByRank R (redisKey pre (fst a)) 0 (snd a) v) j) \<subseteq> set (view v j)"
      by (auto simp: zRemRangeByRank_view case_prod_beta dest: in_set_dropD)
    with Cons show ?case by (fastforce simp: case_prod_beta)
  qed simp
  have "\<forall>(k, stop)\<in>set (snd (scan_keys known rs acc [])). 0 \<le> stop" for rs acc
    by (auto simp: scan_keys_trims split: option.splits if_splits)
  from trim [OF this] show ?thesis by (simp add: resolve_backends_def Let_def case_prod_beta)
qed

lemma resolve_trims:
  assumes "distinct keys" "k \<in> set keys" "k \<noteq> ''''"
  shows "view (snd (resolve_backends R pre known keys w)) (redisKey pre k) =
     drop (length (view w (redisKey pre k)) - 3) (view w (redisKey pre k))"
proof -
  let ?n = "\<lambda>k. length (view w (redisKey pre k))"
  define f where "f = (\<lambda>k. if k \<noteq> '''' \<and> 3 < ?n k then [(k, int (?n k) - 4)] else [])"
  have cat: "concat (map (\<lambda>(i, k, r). case key_members r of
       Some ns \<Rightarrow> if k \<noteq> '''' \<and> 3 < length ns then [(k, int (length ns) - 4)] else []
     | None \<Rightarrow> []) (rev (map (\<lambda>(i, k). (i, k, zRevRange R (redisKey pre k) w)) (enumerate m ks)))) =
      concat (map f (rev ks))" for m ks
    by (induction ks arbitrary: m) (simp_all add: zRevRange_view key_members_def f_def)
  have w': "snd (resolve_backends R pre known keys w) = trim_sets R pre (concat (map f (rev keys))) w"
    by (simp add: resolve_backends_def Let_def case_prod_beta scan_keys_trims cat)
  have keys: "map_of (map (\<lambda>(k, stop). (redisKey pre k, stop)) (concat (map f ks))) (redisKey pre k) =
      (if k \<in> set ks \<and> 3 < ?n k then Some (int (?n k) - 4) else None)"
    and dist: "distinct (map (redisKey pre \<circ> fst) (concat (map f ks)))"
    if "distinct ks" for ks
    using that
  proof (induction ks)
    case (Cons j ks)
    {
      case 1
      then show ?case using Cons.IH(1) assms(3) by (auto simp: f_def)
    next
      case 2
      then have "redisKey pre j \<notin> (redisKey pre \<circ> fst) ` set (concat (map f ks))"
        by (auto simp: f_def split: if_splits)
      with 2 Cons.IH(2) show ?case by (auto simp: f_def)
    }
  qed simp_all
  have "distinct (rev keys)" using assms(1) by simp
  note kk = keys [OF this] dist [OF this]
  have pos: "\<forall>(k, stop)\<in>set (concat (map f (rev keys))). 0 \<le> stop" by (auto simp: f_def split: if_splits)
  show ?thesis
    unfolding w' trim_sets_view [OF kk(2) pos] kk(1) using assms(2) by (auto simp: nat_diff_distrib intro!: arg_cong [of _ _ "\<lambda>n. drop n _"])
qed

end

section \<open>Reference implementation\<close>

text \<open>The server keeps the members of each key with their scores; ranks are taken on reading.\<close>

definition ref_ranked :: "ranked \<Rightarrow> ranked" where
  "ref_ranked d k = sort_key snd (AList.clearjunk (d k))"

definition ref_shard :: "ranked shard_ops" where
  "ref_shard = \<lparr>
     zRevRange = (\<lambda>k d. Inr (rev (map fst (ref_ranked d k)))),
     zRemRangeByRank = (\<lambda>k lo hi d. d(k := drop (nat hi + 1) (ref_ranked d k))),
     zAdd = (\<lambda>k s m d. d(k := AList.update m s (d k))),
     expire = (\<lambda>k t d. d),
     zCard = (\<lambda>k d. Inr (int (length (ref_ranked d k)))) \<rparr>"


lemma ref_ranked_sorted: "sorted (map snd (ref_ranked d k))" "distinct (map fst (ref_ranked d k))"
  by (simp_all add: ref_ranked_def distinct_map inj_on_def)
    (use distinct_clearjunk [of "d k"] in \<open>auto simp: distinct_map inj_on_def\<close>)

lemma set_clearjunk_update:
  "set (AList.clearjunk (AList.update m s xs)) = insert (m, s) {x \<in> set (AList.clearjunk xs). fst x \<noteq> m}"
proof -
  have mem: "x \<in> set (AList.clearjunk ys) \<longleftrightarrow> map_of ys (fst x) = Some (snd x)" for ys :: "('a \<times> 'b) list" and x
    using map_of_eq_Some_iff [OF distinct_clearjunk, of ys "fst x" "snd x"] by (simp add: map_of_clearjunk)
  show ?thesis by (rule set_eqI) (auto simp: mem update_conv split: if_splits)
qed

interpretation ref_store: shard_store ref_shard ref_ranked
proof
  fix k stop w assume "0 \<le> (stop :: int)"
  have "sorted (map snd (drop (nat stop + 1) (ref_ranked w k)))"
    using ref_ranked_sorted(1) by (simp add: drop_map [symmetric] sorted_wrt_drop)
  moreover have "distinct (map fst (drop (nat stop + 1) (ref_ranked w k)))"
    using ref_ranked_sorted(2) by (simp add: drop_map [symmetric] distinct_drop)
  ultimately show "ref_ranked (zRemRangeByRank ref_shard k 0 stop w) =
      (ref_ranked w)(k := drop (nat stop + 1) (ref_ranked w k))"
    by (auto simp: fun_eq_iff ref_shard_def ref_ranked_def sort_key_id_if_sorted)
qed (simp_all add: ref_shard_def ref_ranked_sorted ref_ranked_def set_clearjunk_update
  ref_ranked_sorted [unfolded ref_ranked_def] fun_eq_iff)

end
