(* ===== verification/ShardKeyRR.thy ===== *)
theory ShardKeyRR
  imports LoadBalancer ShardStore
begin

text \<open>
  \<open>pkg/engines/load-balancer/shard_key_round_robin.go\<close>: weighted round robin that first tries the
  backends that served the request's shard keys last, and never tries a backend twice.
\<close>

section \<open>The balancer\<close>

text \<open>A nil getter or Redis client is \<open>None\<close>.\<close>

record ('e, 'rq, 'w) sk_wrr =
  sk_backends :: "'e wrr_backend list"
  sk_shardKeyListGetter :: "('rq \<Rightarrow> string list) option"
  sk_redisClient :: "'w shard_ops option"
  sk_shardKeyTTL :: int
  sk_keyPrefix :: string
  sk_retryTimeout :: int
  sk_retryMaxCount :: int

definition NewShardKeyWeightedRoundRobin ::
  "rand \<Rightarrow> ('e, 'rq) backend_item list \<Rightarrow> int \<Rightarrow> int \<Rightarrow> int \<Rightarrow> ('rq \<Rightarrow> string list) option
    \<Rightarrow> 'w shard_ops option \<Rightarrow> string \<Rightarrow> err + ('e, 'rq, 'w) sk_wrr" where
  "NewShardKeyWeightedRoundRobin rnd backends retryTimeout retryMaxCount shardKeyTTL getter redis keyPrefix =
     (case wrr_backends rnd backends of
        Inl er \<Rightarrow> Inl er
      | Inr bs \<Rightarrow> Inr \<lparr>sk_backends = bs, sk_shardKeyListGetter = getter, sk_redisClient = redis,
          sk_shardKeyTTL = shardKeyTTL, sk_keyPrefix = keyPrefix, sk_retryTimeout = retryTimeout,
          sk_retryMaxCount = retryMaxCount\<rparr>)"

text \<open>The backends are found by name and need a positive weight; they are pointers into the
  balancer's list, here indices.\<close>

definition sk_known :: "'e wrr_backend list \<Rightarrow> string \<Rightarrow> nat option" where
  "sk_known bs n =
     (case backendByName wb_name bs n of
        Some i \<Rightarrow> if 0 < wb_weight (bs ! i) then Some i else None
      | None \<Rightarrow> None)"

definition sk_resolve ::
  "('e, 'rq, 'w) sk_wrr \<Rightarrow> string list \<Rightarrow> ('e, 'w) lb_world \<Rightarrow> nat list \<times> ('e, 'w) lb_world" where
  "sk_resolve l keys w =
     (case sk_redisClient l of
        None \<Rightarrow> ([], w)
      | Some R \<Rightarrow>
          if keys = [] then ([], w)
          else let (out, r) = resolve_backends R (sk_keyPrefix l) (sk_known (lw_backends w)) keys (lw_rest w)
               in (map fst out, w\<lparr>lw_rest := r\<rparr>))"

section \<open>Picking the next backend\<close>

text \<open>The candidate with the largest current weight among those of positive weight, the first of
  several.\<close>

fun best_current :: "'e wrr_backend list \<Rightarrow> nat list \<Rightarrow> nat option \<Rightarrow> nat option" where
  "best_current bs [] sel = sel"
| "best_current bs (i # is) sel =
     (if wb_weight (bs ! i) = 0 then best_current bs is sel
      else case sel of
             None \<Rightarrow> best_current bs is (Some i)
           | Some j \<Rightarrow> if wb_currentWeight (bs ! j) < wb_currentWeight (bs ! i)
                       then best_current bs is (Some i) else best_current bs is sel)"

definition sk_candidates :: "string list \<Rightarrow> 'e wrr_backend list \<Rightarrow> nat list" where
  "sk_candidates excludeNames bs =
     filter (\<lambda>i. 0 \<le> wb_weight (bs ! i) \<and> wb_name (bs ! i) \<notin> set excludeNames) [0..<length bs]"

text \<open>\<open>GetNextEngine\<close>: the index picked, whether all candidates have weight 0, and the backends
  with their new current weights.\<close>

definition sk_GetNextEngine ::
  "(int \<Rightarrow> int) \<Rightarrow> string \<Rightarrow> string list \<Rightarrow> 'e wrr_backend list \<Rightarrow> nat option \<times> bool \<times> 'e wrr_backend list" where
  "sk_GetNextEngine randIntn prioritized excludeNames bs =
     (let cands = sk_candidates excludeNames bs;
          totalWeight = sum_list (map (\<lambda>i. wb_weight (bs ! i)) cands)
      in if totalWeight = 0
         then (if cands = [] then (None, True, bs)
               else (Some (cands ! nat (randIntn (int (length cands)))), True, bs))
         else let hit = (if prioritized \<noteq> ''''
                         then find (\<lambda>i. wb_name (bs ! i) = prioritized \<and> 0 < wb_weight (bs ! i)) cands
                         else None);
                  sel = (case hit of Some i \<Rightarrow> Some i | None \<Rightarrow> best_current bs cands None)
              in case sel of
                   None \<Rightarrow> (None, False, bs)
                 | Some i \<Rightarrow>
                     (let bs1 = bs[i := (bs ! i)\<lparr>wb_currentWeight := wb_currentWeight (bs ! i) - totalWeight\<rparr>];
                          bs2 = map (\<lambda>j. if j \<in> set cands \<and> 0 < wb_weight (bs1 ! j)
                                         then (bs1 ! j)\<lparr>wb_currentWeight := wb_currentWeight (bs1 ! j) + wb_weight (bs1 ! j)\<rparr>
                                         else bs1 ! j) [0..<length bs1]
                      in (Some i, False, bs2)))"

section \<open>Failover\<close>

text \<open>The random pick and the clock of each attempt, besides what the plain balancer reads.\<close>

record sk_env = attempt_env +
  randIntn :: "int \<Rightarrow> int \<Rightarrow> int"
  nowUnix :: "int \<Rightarrow> int"

definition sk_record ::
  "('e, 'rq, 'w) sk_wrr \<Rightarrow> int \<Rightarrow> string list \<Rightarrow> bool \<Rightarrow> string \<Rightarrow> ('e, 'w) lb_world \<Rightarrow> ('e, 'w) lb_world" where
  "sk_record l now keys isAllZero n w =
     (case sk_redisClient l of
        Some R \<Rightarrow>
          if keys \<noteq> [] \<and> 0 < sk_shardKeyTTL l \<and> \<not> isAllZero
          then w\<lparr>lw_rest := record_success R (sk_keyPrefix l) (sk_shardKeyTTL l) now keys n (lw_rest w)\<rparr>
          else w
      | None \<Rightarrow> w)"

text \<open>The loop of \<open>Process\<close>. \<open>prios\<close> are the prioritized backends from \<open>prioritizedIndex\<close> on,
  \<open>excl\<close> the keys of \<open>excludeNames\<close>; the list of attempts is as in \<open>wrr_loop\<close>.\<close>

function sk_loop ::
  "('e, 'rq, 'w) sk_wrr \<Rightarrow> sk_env \<Rightarrow> ('e \<Rightarrow> (('e, 'w) lb_world, 'rq, 'rs) engine) \<Rightarrow> 'rq \<Rightarrow> string list
    \<Rightarrow> nat list \<Rightarrow> string list \<Rightarrow> int \<Rightarrow> ('e, 'w) lb_world
    \<Rightarrow> ((string \<times> 'rs go_result) list \<times> 'rs go_result) \<times> ('e, 'w) lb_world" where
  "sk_loop l env exec req keys prios excl retryCount w =
     (let prio = (case prios of [] \<Rightarrow> ''''
                  | b # _ \<Rightarrow> if wb_name (lw_backends w ! b) \<notin> set excl then wb_name (lw_backends w ! b) else '''');
          (sel, isAllZero, bs) = sk_GetNextEngine (randIntn env retryCount) prio excl (lw_backends w)
      in case sel of
           None \<Rightarrow> (([], (None, Some (Plain ''no backend engine available''))), w\<lparr>lw_backends := bs\<rparr>)
         | Some i \<Rightarrow>
             (let b = lw_backends w ! i;
                  n = wb_name b;
                  w1 = w\<lparr>lw_backends := bs, lw_meta := SetMetadataValue (lw_meta w) backendName (MetaStr n)\<rparr>;
                  ((resp, er), w2) = exec (wb_engine b) req w1;
                  stop = (([(n, resp, er)], (resp, er)), w2)
              in case er of
                   None \<Rightarrow> (([(n, resp, er)], (resp, None)), sk_record l (nowUnix env retryCount) keys isAllZero n w2)
                 | Some e \<Rightarrow>
                     if isNotRetriableError e then stop
                     else if cancelled env (retryCount + 1) then stop
                     else if sk_retryTimeout l \<le> elapsed env (retryCount + 1) then stop
                     else if sk_retryMaxCount l \<le> retryCount + 1 then stop
                     else if length (sk_backends l) \<le> length (List.insert n excl) then stop
                     else (let ((tried, out), w3) =
                             sk_loop l env exec req keys (tl prios) (List.insert n excl) (retryCount + 1) w2
                           in (((n, resp, er) # tried, out), w3))))"
  by pat_completeness auto

termination
  by (relation "measure (\<lambda>(l, env, exec, req, keys, prios, excl, c, w). nat (sk_retryMaxCount l - c))") auto

declare sk_loop.simps [simp del]

definition sk_process ::
  "('e, 'rq, 'w) sk_wrr \<Rightarrow> sk_env \<Rightarrow> ('e \<Rightarrow> (('e, 'w) lb_world, 'rq, 'rs) engine) \<Rightarrow> err option \<Rightarrow> 'rq
    \<Rightarrow> ('e, 'w) lb_world \<Rightarrow> ((string \<times> 'rs go_result) list \<times> 'rs go_result) \<times> ('e, 'w) lb_world" where
  "sk_process l env exec bodyErr req w =
     (case bodyErr of
        Some er \<Rightarrow> (([], (None, Some (Wrap ''failed to cache request body for retries'' [er]))), w)
      | None \<Rightarrow>
          (let keys = (case sk_shardKeyListGetter l of Some g \<Rightarrow> g req | None \<Rightarrow> []);
               (prios, w1) = sk_resolve l keys w
           in sk_loop l env exec req keys prios [] 0 w1))"

section \<open>Lemmas on the pick\<close>

lemma best_current_in: "best_current bs is sel = Some i \<Longrightarrow> i \<in> set is \<or> sel = Some i"
  by (induction bs "is" sel rule: best_current.induct) (auto split: if_splits option.splits)

lemma best_current_None: "best_current bs is sel = None \<longleftrightarrow> sel = None \<and> (\<forall>i\<in>set is. wb_weight (bs ! i) = 0)"
  by (induction bs "is" sel rule: best_current.induct) (auto split: option.splits)

lemma map_some_same:
  assumes "\<And>x. f (g x) = f x"
  shows "map f (map (\<lambda>j. if P j then g (xs ! j) else xs ! j) [0..<length xs]) = map f xs"
  by (rule nth_equalityI) (simp_all add: assms)

lemma sk_next_keeps:
  assumes "\<And>x c. f (x\<lparr>wb_currentWeight := c\<rparr>) = f x"
  shows "map f (snd (snd (sk_GetNextEngine r p x bs))) = map f bs"
proof -
  have "map f (map (\<lambda>j. if P j then (xs ! j)\<lparr>wb_currentWeight := wb_currentWeight (xs ! j) + wb_weight (xs ! j)\<rparr> else xs ! j)
      [0..<length xs]) = map f xs" for P xs
    by (rule map_some_same [where g = "\<lambda>b. b\<lparr>wb_currentWeight := wb_currentWeight b + wb_weight b\<rparr>"]) (rule assms)
  moreover have "map f (bs[i := (bs ! i)\<lparr>wb_currentWeight := c\<rparr>]) = map f bs" for i c
    by (rule map_update_same) (rule assms)
  ultimately show ?thesis
    by (auto simp: sk_GetNextEngine_def Let_def split: option.splits simp del: map_map length_list_update)
qed

lemmas sk_next_same = sk_next_keeps [of wb_name, simplified] sk_next_keeps [of wb_weight, simplified]

text \<open>With a candidate left some backend is picked, never an excluded one; a prioritized backend
  with a positive weight that is not excluded wins.\<close>

lemma sk_next_Some:
  assumes "\<And>n. 0 < n \<Longrightarrow> 0 \<le> r n \<and> r n < n" "\<forall>b\<in>set bs. 0 \<le> wb_weight b"
    and "\<exists>b\<in>set bs. wb_name b \<notin> set excl"
  obtains i where "fst (sk_GetNextEngine r p excl bs) = Some i" "i < length bs" "wb_name (bs ! i) \<notin> set excl"
    "p \<noteq> '''' \<Longrightarrow> p \<notin> set excl \<Longrightarrow> \<exists>b\<in>set bs. wb_name b = p \<and> 0 < wb_weight b \<Longrightarrow> wb_name (bs ! i) = p"
proof -
  let ?c = "sk_candidates excl bs"
  let ?T = "sum_list (map (\<lambda>i. wb_weight (bs ! i)) ?c)"
  have c: "set ?c = {i. i < length bs \<and> wb_name (bs ! i) \<notin> set excl}"
    using assms(2) by (auto simp: sk_candidates_def)
  have ne: "?c \<noteq> []"
  proof -
    obtain i where "i < length bs" "wb_name (bs ! i) \<notin> set excl" using assms(3) by (metis in_set_conv_nth)
    then have "i \<in> set ?c" by (simp add: c)
    then show ?thesis by auto
  qed
  have nn: "\<forall>i\<in>set ?c. 0 \<le> wb_weight (bs ! i)" using assms(2) by (simp add: c)
  have zero: "?T = 0 \<longleftrightarrow> (\<forall>i\<in>set ?c. wb_weight (bs ! i) = 0)"
    using nn by (subst sum_list_nonneg_eq_0_iff) auto
  define hit where "hit = (if p \<noteq> '''' then find (\<lambda>i. wb_name (bs ! i) = p \<and> 0 < wb_weight (bs ! i)) ?c else None)"
  show thesis
  proof (cases "?T = 0")
    case True
    let ?i = "?c ! nat (r (int (length ?c)))"
    have "nat (r (int (length ?c))) < length ?c" using assms(1) [of "int (length ?c)"] ne by auto
    then have "?i \<in> set ?c" by simp
    then have i: "?i < length bs" "wb_name (bs ! ?i) \<notin> set excl" by (simp_all add: c)
    have "\<not> (\<exists>b\<in>set bs. wb_name b = p \<and> 0 < wb_weight b)" if "p \<notin> set excl"
    proof
      assume "\<exists>b\<in>set bs. wb_name b = p \<and> 0 < wb_weight b"
      then obtain j where "j < length bs" "wb_name (bs ! j) = p" "0 < wb_weight (bs ! j)" by (metis in_set_conv_nth)
      with True zero that show False by (auto simp: c)
    qed
    with i show thesis
      by (intro that [of ?i]) (auto simp: sk_GetNextEngine_def Let_def True ne)
  next
    case False
    obtain i where sel: "(case hit of Some i \<Rightarrow> Some i | None \<Rightarrow> best_current bs ?c None) = Some i"
      using False zero best_current_None [of bs ?c None] by (cases hit) auto
    have "i \<in> set ?c"
    proof (cases hit)
      case None
      then show ?thesis using sel best_current_in [of bs ?c None i] by simp
    next
      case (Some j)
      then show ?thesis using sel by (auto simp: hit_def find_Some_iff split: if_splits)
    qed
    moreover have "wb_name (bs ! i) = p"
      if p: "p \<noteq> ''''" "p \<notin> set excl" "\<exists>b\<in>set bs. wb_name b = p \<and> 0 < wb_weight b"
    proof -
      obtain j where "j < length bs" "wb_name (bs ! j) = p" "0 < wb_weight (bs ! j)"
        using p(3) by (metis in_set_conv_nth)
      with p have "hit \<noteq> None" by (auto simp: hit_def find_None_iff c)
      then obtain k where "hit = Some k" by blast
      with sel show ?thesis by (auto simp: hit_def find_Some_iff split: if_splits)
    qed
    moreover have "fst (sk_GetNextEngine r p excl bs) = Some i"
      using sel False by (simp add: sk_GetNextEngine_def Let_def hit_def [symmetric])
    ultimately show thesis using that c by simp
  qed
qed

section \<open>Lemmas on the loop\<close>

text \<open>The names and weights of the backends never change; their current weights do.\<close>

definition fixed_backends :: "string list \<Rightarrow> int list \<Rightarrow> ('e, 'w) lb_world \<Rightarrow> bool" where
  "fixed_backends N W w \<longleftrightarrow> map wb_name (lw_backends w) = N \<and> map wb_weight (lw_backends w) = W"

lemma fixed_nth:
  "fixed_backends N W w \<Longrightarrow> i < length N \<Longrightarrow> wb_name (lw_backends w ! i) = N ! i \<and> wb_weight (lw_backends w ! i) = W ! i"
  by (auto simp: fixed_backends_def)

lemma fixed_length: "fixed_backends N W w \<Longrightarrow> length (lw_backends w) = length N \<and> length W = length N"
  by (auto simp: fixed_backends_def)

text \<open>The state of the loop: the names excluded so far, prioritized backends not tried yet.\<close>

definition sk_ready :: "string list \<Rightarrow> int list \<Rightarrow> nat list \<Rightarrow> string list \<Rightarrow> bool" where
  "sk_ready N W prios excl \<longleftrightarrow>
     distinct N \<and> (\<forall>x\<in>set W. 0 \<le> x) \<and> set excl \<subseteq> set N \<and> distinct excl \<and> length excl < length N \<and>
     (\<forall>b\<in>set prios. b < length N \<and> 0 < W ! b \<and> N ! b \<noteq> '''' \<and> N ! b \<notin> set excl) \<and> distinct prios"

lemma sk_ready_pick:
  assumes r: "sk_ready N W prios excl" and f: "fixed_backends N W w" and d: "\<And>n. 0 < n \<Longrightarrow> 0 \<le> rnd n \<and> rnd n < n"
    and prio: "prio = (case prios of [] \<Rightarrow> ''''
                  | b # _ \<Rightarrow> if wb_name (lw_backends w ! b) \<notin> set excl then wb_name (lw_backends w ! b) else '''')"
  obtains i where "fst (sk_GetNextEngine rnd prio excl (lw_backends w)) = Some i" "i < length N"
    "N ! i \<notin> set excl" "wb_name (lw_backends w ! i) = N ! i" "prios \<noteq> [] \<longrightarrow> i = hd prios"
proof -
  let ?bs = "lw_backends w"
  have nn: "\<forall>b\<in>set ?bs. 0 \<le> wb_weight b" using r f by (auto simp: sk_ready_def fixed_backends_def)
  have "\<exists>b\<in>set ?bs. wb_name b \<notin> set excl"
  proof (rule ccontr)
    assume "\<not> (\<exists>b\<in>set ?bs. wb_name b \<notin> set excl)"
    then have "set N \<subseteq> set excl" using f by (auto simp: fixed_backends_def)
    then have "card (set N) \<le> card (set excl)" by (simp add: card_mono)
    with r show False by (simp add: sk_ready_def distinct_card)
  qed
  from sk_next_Some [OF d nn this] obtain i where
    i: "fst (sk_GetNextEngine rnd prio excl ?bs) = Some i" "i < length ?bs" "wb_name (?bs ! i) \<notin> set excl"
      "prio \<noteq> '''' \<Longrightarrow> prio \<notin> set excl \<Longrightarrow> \<exists>b\<in>set ?bs. wb_name b = prio \<and> 0 < wb_weight b \<Longrightarrow> wb_name (?bs ! i) = prio"
    by metis
  have len: "length ?bs = length N" using fixed_length [OF f] by simp
  have n: "wb_name (?bs ! i) = N ! i" using fixed_nth [OF f] i(2) len by simp
  have "i = hd prios" if ne: "prios \<noteq> []"
  proof -
    obtain b bs where p: "prios = b # bs" using ne by (cases prios) auto
    have b: "b < length N" "0 < W ! b" "N ! b \<noteq> ''''" "N ! b \<notin> set excl" using r by (auto simp: sk_ready_def p)
    have nb: "wb_name (?bs ! b) = N ! b" "0 < wb_weight (?bs ! b)" using fixed_nth [OF f b(1)] b by auto
    then have "prio = N ! b" using b prio by (simp add: p)
    moreover have "\<exists>x\<in>set ?bs. wb_name x = N ! b \<and> 0 < wb_weight x" using nb b(1) len by (metis nth_mem)
    ultimately have "N ! i = N ! b" using i(4) b n by simp
    then have "i = b" using r i(2) b(1) len by (simp add: sk_ready_def nth_eq_iff_index_eq)
    then show ?thesis by (simp add: p)
  qed
  with that i n len show thesis by simp
qed

lemma sk_ready_next:
  assumes "sk_ready N W prios excl" "i < length N" "N ! i \<notin> set excl" "prios \<noteq> [] \<longrightarrow> i = hd prios"
    and "length (List.insert (N ! i) excl) < length N"
  shows "sk_ready N W (tl prios) (List.insert (N ! i) excl)"
proof -
  have "b < length N \<and> 0 < W ! b \<and> N ! b \<noteq> '''' \<and> N ! b \<notin> set (List.insert (N ! i) excl)"
    if b: "b \<in> set (tl prios)" for b
  proof -
    obtain p ps where ps: "prios = p # ps" using b by (cases prios) auto
    with assms(4) have "i = p" by simp
    with assms(1) b ps have "b \<noteq> i" "b < length N" by (auto simp: sk_ready_def)
    with assms(1,2) have "N ! b \<noteq> N ! i" by (simp add: sk_ready_def nth_eq_iff_index_eq)
    then show ?thesis using assms(1) b ps by (auto simp: sk_ready_def)
  qed
  moreover have "distinct (tl prios)" using assms(1) by (simp add: sk_ready_def distinct_tl)
  ultimately show ?thesis using assms by (auto simp: sk_ready_def)
qed

text \<open>What the attempts are, for \<open>k\<close> attempts left.\<close>

definition sk_attempts ::
  "string list \<Rightarrow> nat list \<Rightarrow> string list \<Rightarrow> int \<Rightarrow> (string \<times> 'rs go_result) list \<Rightarrow> 'rs go_result \<Rightarrow> bool" where
  "sk_attempts N prios excl k tried out \<longleftrightarrow>
     tried \<noteq> [] \<and> out = snd (last tried) \<and> int (length tried) \<le> max 1 k \<and> distinct (map fst tried) \<and>
     set (map fst tried) \<subseteq> set N - set excl \<and>
     (\<forall>(n, resp, er)\<in>set (butlast tried). \<exists>e. er = Some e \<and> \<not> isNotRetriableError e) \<and>
     take (length prios) (map fst tried) = take (length tried) (map (\<lambda>b. N ! b) prios)"

lemma sk_attempts_one:
  assumes "n \<in> set N - set excl" "prios \<noteq> [] \<Longrightarrow> n = N ! hd prios"
  shows "sk_attempts N prios excl k [(n, resp, er)] (resp, er)"
  using assms by (cases prios) (auto simp: sk_attempts_def)

lemma sk_attempts_more:
  assumes "sk_attempts N (tl prios) (List.insert n excl) (k - 1) tried out" "n \<in> set N - set excl"
    and "prios \<noteq> [] \<Longrightarrow> n = N ! hd prios" "\<not> isNotRetriableError e" "1 < k"
  shows "sk_attempts N prios excl k ((n, resp, Some e) # tried) out"
  using assms by (cases prios) (auto simp: sk_attempts_def)

lemma sk_loop_attempts:
  assumes "sk_loop l env exec req keys prios excl c w = ((tried, out), w')"
    and "sk_ready N W prios excl" "fixed_backends N W w" "length (sk_backends l) = length N"
    and d: "\<And>c n. 0 < n \<Longrightarrow> 0 \<le> randIntn env c n \<and> randIntn env c n < n"
    and x: "\<And>e w. fixed_backends N W w \<Longrightarrow> fixed_backends N W (snd (exec e req w))"
  shows "sk_attempts N prios excl (sk_retryMaxCount l - c) tried out \<and> fixed_backends N W w'"
  using assms(1-3)
proof (induction "nat (sk_retryMaxCount l - c)" arbitrary: prios excl c w tried out w' rule: less_induct)
  case less
  define prio where "prio = (case prios of [] \<Rightarrow> ''''
                  | b # _ \<Rightarrow> if wb_name (lw_backends w ! b) \<notin> set excl then wb_name (lw_backends w ! b) else '''')"
  obtain i where i: "fst (sk_GetNextEngine (randIntn env c) prio excl (lw_backends w)) = Some i" "i < length N"
    "N ! i \<notin> set excl" "wb_name (lw_backends w ! i) = N ! i" "prios \<noteq> [] \<longrightarrow> i = hd prios"
    by (rule sk_ready_pick [OF less.prems(2,3) d prio_def])
  obtain z bs where g: "sk_GetNextEngine (randIntn env c) prio excl (lw_backends w) = (Some i, z, bs)"
    using i(1) by (metis prod.collapse)
  let ?n = "N ! i"
  define wa where "wa = w\<lparr>lw_backends := bs, lw_meta := SetMetadataValue (lw_meta w) backendName (MetaStr ?n)\<rparr>"
  obtain resp er wb where ex: "exec (wb_engine (lw_backends w ! i)) req wa = ((resp, er), wb)" by (metis surj_pair)
  have fa: "fixed_backends N W wa"
    using less.prems(3) sk_next_same [of "randIntn env c" prio excl "lw_backends w"]
    by (simp add: fixed_backends_def wa_def g)
  have fb: "fixed_backends N W wb" using x [OF fa, of "wb_engine (lw_backends w ! i)"] ex by simp
  have fr: "fixed_backends N W (sk_record l now keys a n wb)" for now a n
    using fb by (auto simp: sk_record_def fixed_backends_def split: option.splits)
  let ?stop = "(([(?n, resp, er)], (resp, er)), wb)"
  have loop: "sk_loop l env exec req keys prios excl c w =
     (case er of
        None \<Rightarrow> (([(?n, resp, er)], (resp, None)), sk_record l (nowUnix env c) keys z ?n wb)
      | Some e \<Rightarrow>
          if isNotRetriableError e \<or> cancelled env (c + 1) \<or> sk_retryTimeout l \<le> elapsed env (c + 1) \<or>
             sk_retryMaxCount l \<le> c + 1 \<or> length (sk_backends l) \<le> length (List.insert ?n excl) then ?stop
          else (let ((tried, out), w3) = sk_loop l env exec req keys (tl prios) (List.insert ?n excl) (c + 1) wb
                in (((?n, resp, er) # tried, out), w3)))"
    by (subst sk_loop.simps)
      (simp only: prio_def [symmetric] g Let_def i(4) wa_def [symmetric] ex prod.case option.case,
       cases er, simp_all)
  have n: "?n \<in> set N - set excl" "prios \<noteq> [] \<Longrightarrow> ?n = N ! hd prios" using i by auto
  show ?case
  proof (cases er)
    case None
    then show ?thesis using less.prems(1) sk_attempts_one [OF n] fr unfolding loop by auto
  next
    case (Some e)
    show ?thesis
    proof (cases "isNotRetriableError e \<or> cancelled env (c + 1) \<or> sk_retryTimeout l \<le> elapsed env (c + 1) \<or>
        sk_retryMaxCount l \<le> c + 1 \<or> length (sk_backends l) \<le> length (List.insert ?n excl)")
      case True
      then show ?thesis using less.prems(1) Some sk_attempts_one [OF n] fb unfolding loop by auto
    next
      case False
      obtain tried' out' where rec: "sk_loop l env exec req keys (tl prios) (List.insert ?n excl) (c + 1) wb = ((tried', out'), w')"
        "tried = (?n, resp, Some e) # tried'" "out = out'"
        using less.prems(1) Some False unfolding loop by (auto split: prod.splits)
      have "nat (sk_retryMaxCount l - (c + 1)) < nat (sk_retryMaxCount l - c)" using False by simp
      moreover have "sk_ready N W (tl prios) (List.insert ?n excl)"
        using sk_ready_next [OF less.prems(2) i(2,3,5)] False assms(4) by simp
      ultimately have "sk_attempts N (tl prios) (List.insert ?n excl) (sk_retryMaxCount l - (c + 1)) tried' out' \<and>
          fixed_backends N W w'"
        using less.hyps rec(1) fb by blast
      then show ?thesis
        unfolding rec(2,3) using False by (auto simp: algebra_simps intro!: sk_attempts_more [OF _ n])
    qed
  qed
qed

text \<open>The names the shard keys resolve to, in the order of the scan.\<close>

definition shard_hits :: "('e, 'rq, 'w) sk_wrr \<Rightarrow> string list \<Rightarrow> 'w \<Rightarrow> string list" where
  "shard_hits l keys r =
     (case sk_redisClient l of
        None \<Rightarrow> []
      | Some R \<Rightarrow> firsts [] (usable (sk_known (sk_backends l)) (read_members
          (rev (map (\<lambda>(i, k). (i, k, zRevRange R (redisKey (sk_keyPrefix l) k) r)) (enumerate 0 keys))))))"

lemma sk_known_same:
  assumes "map wb_name bs = map wb_name cs" "map wb_weight bs = map wb_weight cs"
  shows "sk_known bs = sk_known cs"
proof
  fix n
  have len: "length bs = length cs" using assms(1) by (metis length_map)
  have nth: "wb_name (bs ! i) = wb_name (cs ! i)" "wb_weight (bs ! i) = wb_weight (cs ! i)" if "i < length cs" for i
    using assms that len by (metis nth_map)+
  have "filter (\<lambda>i. wb_name (bs ! i) = n) [0..<length bs] = filter (\<lambda>i. wb_name (cs ! i) = n) [0..<length cs]"
    unfolding len by (rule filter_cong) (simp_all add: nth)
  then have eq: "backendByName wb_name bs n = backendByName wb_name cs n" by (simp add: backendByName_def)
  show "sk_known bs n = sk_known cs n"
  proof (cases "backendByName wb_name cs n")
    case (Some i)
    then have "i < length cs" using backendByName_Some [OF Some] by simp
    then show ?thesis by (simp add: sk_known_def eq Some nth)
  qed (simp add: sk_known_def eq)
qed

lemma sk_resolve_hits:
  assumes "sk_resolve l keys w = (prios, w1)" "fixed_backends N W w" "map wb_name (sk_backends l) = N" "map wb_weight (sk_backends l) = W"
    and "distinct N" "\<forall>x\<in>set W. 0 \<le> x" "N \<noteq> []"
  shows "map (\<lambda>b. N ! b) prios = shard_hits l keys (lw_rest w) \<and> sk_ready N W prios [] \<and> fixed_backends N W w1"
proof (cases "sk_redisClient l = None \<or> keys = []")
  case True
  then show ?thesis
    using assms by (auto simp: sk_resolve_def shard_hits_def sk_ready_def usable_def split: option.splits)
next
  case False
  then obtain R where R: "sk_redisClient l = Some R" and keys: "keys \<noteq> []" by auto
  let ?bs = "lw_backends w"
  let ?hits = "shard_hits l keys (lw_rest w)"
  have known: "sk_known (sk_backends l) = sk_known ?bs"
    using assms(2,3,4) by (intro sk_known_same) (simp_all add: fixed_backends_def)
  have hits: "set ?hits \<subseteq> {n. n \<noteq> '''' \<and> sk_known ?bs n \<noteq> None}" "distinct ?hits"
    by (auto simp: shard_hits_def R set_firsts distinct_firsts usable_def known)
  have prios: "prios = map (\<lambda>n. the (sk_known ?bs n)) ?hits"
    using assms(1) keys by (auto simp: sk_resolve_def R shard_hits_def known Let_def
      resolve_backends_names [symmetric] split: prod.splits)
  have kn: "the (sk_known ?bs n) < length N \<and> N ! the (sk_known ?bs n) = n \<and> 0 < W ! the (sk_known ?bs n) \<and> n \<noteq> ''''"
    if n: "n \<in> set ?hits" for n
  proof -
    obtain i where i: "backendByName wb_name ?bs n = Some i" "0 < wb_weight (?bs ! i)" "sk_known ?bs n = Some i"
    proof -
      have "sk_known ?bs n \<noteq> None" using n hits(1) by blast
      then show thesis using that by (auto simp: sk_known_def split: option.splits if_splits)
    qed
    then show ?thesis
      using backendByName_Some [OF i(1)] fixed_nth [OF assms(2), of i] fixed_length [OF assms(2)] by simp
  qed
  have names: "map (\<lambda>b. N ! b) prios = ?hits"
    unfolding prios map_map comp_def by (rule map_idI) (simp add: kn)
  then have "distinct prios" using hits(2) distinct_map by metis
  moreover have "b < length N \<and> 0 < W ! b \<and> N ! b \<noteq> ''''" if "b \<in> set prios" for b
    using that kn unfolding prios by fastforce
  ultimately have "sk_ready N W prios []" using assms(5-7) by (auto simp: sk_ready_def)
  moreover have "fixed_backends N W w1"
    using assms(1,2) keys by (auto simp: sk_resolve_def R Let_def fixed_backends_def split: prod.splits)
  ultimately show ?thesis using names by simp
qed

section \<open>Properties\<close>

lemma sk_new_backends:
  assumes "NewShardKeyWeightedRoundRobin rnd items timeout maxCount ttl getter redis pre = Inr l" "rand_ok rnd"
  shows "map wb_name (sk_backends l) = map bi_Name items" "\<forall>x\<in>set (map wb_weight (sk_backends l)). 0 \<le> x"
    "sk_backends l \<noteq> []" "length (sk_backends l) = length items"
    "sk_retryMaxCount l = maxCount" "sk_shardKeyListGetter l = getter" "sk_redisClient l = redis"
    "sk_shardKeyTTL l = ttl" "sk_keyPrefix l = pre"
proof -
  have new: "wrr_backends rnd items = Inr (sk_backends l)" and l: "sk_retryMaxCount l = maxCount"
    "sk_shardKeyListGetter l = getter" "sk_redisClient l = redis" "sk_shardKeyTTL l = ttl" "sk_keyPrefix l = pre"
    using assms(1) by (auto simp: NewShardKeyWeightedRoundRobin_def split: sum.splits)
  note f = wrr_backends_fresh [OF new assms(2)]
  show "map wb_name (sk_backends l) = map bi_Name items" by (rule f(6))
  show "\<forall>x\<in>set (map wb_weight (sk_backends l)). 0 \<le> x" using f(4) by fastforce
  show "length (sk_backends l) = length items" by (rule f(3))
  have "items \<noteq> []" using new by (auto simp: wrr_backends_def)
  with f(3) show "sk_backends l \<noteq> []" by auto
qed (use assms(1) in \<open>auto simp: NewShardKeyWeightedRoundRobin_def split: sum.splits\<close>)

definition req_keys :: "('e, 'rq, 'w) sk_wrr \<Rightarrow> 'rq \<Rightarrow> string list" where
  "req_keys l req = (case sk_shardKeyListGetter l of Some g \<Rightarrow> g req | None \<Rightarrow> [])"

lemma sk_process_attempts:
  assumes "NewShardKeyWeightedRoundRobin rnd items timeout maxCount ttl getter redis pre = Inr l" "rand_ok rnd"
    and "distinct (map bi_Name items)" and "\<And>c n. 0 < n \<Longrightarrow> 0 \<le> randIntn env c n \<and> randIntn env c n < n"
    and "\<And>e w N W. fixed_backends N W w \<Longrightarrow> fixed_backends N W (snd (exec e req w))"
    and "fixed_backends (map wb_name (sk_backends l)) (map wb_weight (sk_backends l)) w"
    and "sk_process l env exec None req w = ((tried, out), w')"
  shows "\<exists>prios. sk_attempts (map bi_Name items) prios [] maxCount tried out \<and>
    map (\<lambda>b. map bi_Name items ! b) prios = shard_hits l (req_keys l req) (lw_rest w)"
proof -
  note n = sk_new_backends [OF assms(1,2)]
  obtain prios w1 where r: "sk_resolve l (req_keys l req) w = (prios, w1)" by fastforce
  have loop: "sk_loop l env exec req (req_keys l req) prios [] 0 w1 = ((tried, out), w')"
    using assms(7) r by (simp add: sk_process_def req_keys_def)
  have f: "fixed_backends (map bi_Name items) (map wb_weight (sk_backends l)) w" using assms(6) n(1) by simp
  have ne: "map bi_Name items \<noteq> []" using n(3,4) by auto
  have h: "map (\<lambda>b. map bi_Name items ! b) prios = shard_hits l (req_keys l req) (lw_rest w) \<and>
      sk_ready (map bi_Name items) (map wb_weight (sk_backends l)) prios [] \<and>
      fixed_backends (map bi_Name items) (map wb_weight (sk_backends l)) w1"
    by (rule sk_resolve_hits [OF r f n(1) refl assms(3) n(2) ne])
  have "sk_attempts (map bi_Name items) prios [] (sk_retryMaxCount l - 0) tried out \<and>
      fixed_backends (map bi_Name items) (map wb_weight (sk_backends l)) w'"
    by (rule sk_loop_attempts [OF loop]) (use h n(4) assms(4,5) in simp_all)
  with h n(5) show ?thesis by auto
qed

text \<open>C13: Failover of the shard key balancer. With distinct backend names a request tries at least
  one backend, each backend at most once and at most \<open>max 1 retryMaxCount\<close> of them, and gets exactly
  what the last attempt returned, every earlier attempt having failed with an error that may be
  retried; so the error ``no backend engine available'' never hides an answer.\<close>

theorem shard_failover_tries_each_once:
  assumes "NewShardKeyWeightedRoundRobin rnd items timeout maxCount ttl getter redis pre = Inr l" "rand_ok rnd"
    and "distinct (map bi_Name items)" and "\<And>c n. 0 < n \<Longrightarrow> 0 \<le> randIntn env c n \<and> randIntn env c n < n"
    and "\<And>e w N W. fixed_backends N W w \<Longrightarrow> fixed_backends N W (snd (exec e req w))"
    and "fixed_backends (map wb_name (sk_backends l)) (map wb_weight (sk_backends l)) w"
    and "sk_process l env exec None req w = ((tried, out), w')"
  shows "tried \<noteq> [] \<and> distinct (map fst tried) \<and> set (map fst tried) \<subseteq> bi_Name ` set items \<and>
    int (length tried) \<le> max 1 maxCount \<and> out = snd (last tried) \<and>
    (\<forall>(n, resp, er)\<in>set (butlast tried). \<exists>e. er = Some e \<and> \<not> isNotRetriableError e)"
  using sk_process_attempts [OF assms] by (auto simp: sk_attempts_def)

text \<open>Affinity. The attempts follow the backends the shard keys resolve to (the later key
  first, within a key the backend that served it last first, each once), in that order, before any
  other backend.\<close>

theorem shard_hits_are_tried_first:
  assumes "NewShardKeyWeightedRoundRobin rnd items timeout maxCount ttl getter redis pre = Inr l" "rand_ok rnd"
    and "distinct (map bi_Name items)" and "\<And>c n. 0 < n \<Longrightarrow> 0 \<le> randIntn env c n \<and> randIntn env c n < n"
    and "\<And>e w N W. fixed_backends N W w \<Longrightarrow> fixed_backends N W (snd (exec e req w))"
    and "fixed_backends (map wb_name (sk_backends l)) (map wb_weight (sk_backends l)) w"
    and "sk_process l env exec None req w = ((tried, out), w')"
  shows "take (length (shard_hits l (req_keys l req) (lw_rest w))) (map fst tried) =
    take (length tried) (shard_hits l (req_keys l req) (lw_rest w))"
proof -
  obtain prios where "sk_attempts (map bi_Name items) prios [] maxCount tried out"
    and h: "map (\<lambda>b. map bi_Name items ! b) prios = shard_hits l (req_keys l req) (lw_rest w)"
    using sk_process_attempts [OF assms] by blast
  moreover have "length (shard_hits l (req_keys l req) (lw_rest w)) = length prios"
    using h by (metis length_map)
  ultimately show ?thesis by (simp add: sk_attempts_def)
qed

lemma sk_next_nonzero:
  assumes "sk_GetNextEngine rnd p excl bs = (Some i, z, bs')" "\<forall>b\<in>set bs. 0 \<le> wb_weight b" "i < length bs"
    "0 < wb_weight (bs ! i)" "wb_name (bs ! i) \<notin> set excl"
  shows "\<not> z"
proof -
  let ?c = "sk_candidates excl bs"
  have "i \<in> set ?c" using assms by (auto simp: sk_candidates_def)
  then have "0 < sum_list (map (\<lambda>i. wb_weight (bs ! i)) ?c)"
    using assms(2,4) by (intro sum_list_pos_int [of "wb_weight (bs ! i)"]) (auto simp: sk_candidates_def)
  with assms(1) show ?thesis by (auto simp: sk_GetNextEngine_def Let_def split: option.splits)
qed

lemma sk_loop_records:
  assumes "sk_loop l env exec req keys prios excl c w = ((tried, (resp, None)), w')"
    and "sk_ready N W prios excl" "fixed_backends N W w" "length (sk_backends l) = length N"
    and d: "\<And>c n. 0 < n \<Longrightarrow> 0 \<le> randIntn env c n \<and> randIntn env c n < n"
    and x: "\<And>e w. fixed_backends N W w \<Longrightarrow> fixed_backends N W (snd (exec e req w))"
    and q: "\<And>e w. lw_rest (snd (exec e req w)) = lw_rest w"
    and p: "\<And>i. i < length N \<Longrightarrow> N ! i = fst (last tried) \<Longrightarrow> 0 < W ! i"
    and R: "sk_redisClient l = Some R" "keys \<noteq> []" "0 < sk_shardKeyTTL l"
  shows "\<exists>c. lw_rest w' = record_success R (sk_keyPrefix l) (sk_shardKeyTTL l) (nowUnix env c) keys (fst (last tried)) (lw_rest w)"
  using assms(1-3) p
proof (induction "nat (sk_retryMaxCount l - c)" arbitrary: prios excl c w tried w' rule: less_induct)
  case less
  define prio where "prio = (case prios of [] \<Rightarrow> ''''
                  | b # _ \<Rightarrow> if wb_name (lw_backends w ! b) \<notin> set excl then wb_name (lw_backends w ! b) else '''')"
  obtain i where i: "fst (sk_GetNextEngine (randIntn env c) prio excl (lw_backends w)) = Some i" "i < length N"
    "N ! i \<notin> set excl" "wb_name (lw_backends w ! i) = N ! i" "prios \<noteq> [] \<longrightarrow> i = hd prios"
    by (rule sk_ready_pick [OF less.prems(2,3) d prio_def])
  obtain z bs where g: "sk_GetNextEngine (randIntn env c) prio excl (lw_backends w) = (Some i, z, bs)"
    using i(1) by (metis prod.collapse)
  let ?n = "N ! i"
  define wa where "wa = w\<lparr>lw_backends := bs, lw_meta := SetMetadataValue (lw_meta w) backendName (MetaStr ?n)\<rparr>"
  obtain resp' er wb where ex: "exec (wb_engine (lw_backends w ! i)) req wa = ((resp', er), wb)" by (metis surj_pair)
  have fa: "fixed_backends N W wa"
    using less.prems(3) sk_next_same [of "randIntn env c" prio excl "lw_backends w"]
    by (simp add: fixed_backends_def wa_def g)
  have fb: "fixed_backends N W wb" using x [OF fa, of "wb_engine (lw_backends w ! i)"] ex by simp
  have rest: "lw_rest wb = lw_rest w" using q [of "wb_engine (lw_backends w ! i)" wa] ex by (simp add: wa_def)
  have nn: "\<forall>b\<in>set (lw_backends w). 0 \<le> wb_weight b"
    using less.prems(2,3) by (auto simp: sk_ready_def fixed_backends_def)
  have loop: "sk_loop l env exec req keys prios excl c w =
     (case er of
        None \<Rightarrow> (([(?n, resp', er)], (resp', None)), sk_record l (nowUnix env c) keys z ?n wb)
      | Some e \<Rightarrow>
          if isNotRetriableError e \<or> cancelled env (c + 1) \<or> sk_retryTimeout l \<le> elapsed env (c + 1) \<or>
             sk_retryMaxCount l \<le> c + 1 \<or> length (sk_backends l) \<le> length (List.insert ?n excl)
          then (([(?n, resp', er)], (resp', er)), wb)
          else (let ((tried, out), w3) = sk_loop l env exec req keys (tl prios) (List.insert ?n excl) (c + 1) wb
                in (((?n, resp', er) # tried, out), w3)))"
    by (subst sk_loop.simps)
      (simp only: prio_def [symmetric] g Let_def i(4) wa_def [symmetric] ex prod.case option.case,
       cases er, simp_all)
  show ?case
  proof (cases er)
    case None
    have t: "tried = [(?n, resp', None)]" "w' = sk_record l (nowUnix env c) keys z ?n wb"
      using less.prems(1) None unfolding loop by auto
    have "0 < wb_weight (lw_backends w ! i)"
      using less.prems(4) [OF i(2)] fixed_nth [OF less.prems(3) i(2)] by (simp add: t)
    then have "\<not> z"
      using sk_next_nonzero [OF g nn] i fixed_length [OF less.prems(3)] by simp
    then show ?thesis using R by (auto simp: t sk_record_def rest)
  next
    case (Some e)
    have cont: "\<not> (isNotRetriableError e \<or> cancelled env (c + 1) \<or> sk_retryTimeout l \<le> elapsed env (c + 1) \<or>
        sk_retryMaxCount l \<le> c + 1 \<or> length (sk_backends l) \<le> length (List.insert ?n excl))"
      using less.prems(1) Some unfolding loop by auto
    obtain tried' where rec: "sk_loop l env exec req keys (tl prios) (List.insert ?n excl) (c + 1) wb = ((tried', (resp, None)), w')"
      "tried = (?n, resp', Some e) # tried'"
      using less.prems(1) Some cont unfolding loop by (auto split: prod.splits)
    have ready: "sk_ready N W (tl prios) (List.insert ?n excl)"
      using sk_ready_next [OF less.prems(2) i(2,3,5)] cont assms(4) by simp
    have "tried' \<noteq> []"
      using sk_loop_attempts [OF rec(1) ready fb assms(4) d x] by (simp add: sk_attempts_def)
    then have last: "last tried = last tried'" by (simp add: rec(2))
    have "nat (sk_retryMaxCount l - (c + 1)) < nat (sk_retryMaxCount l - c)" using cont by simp
    from less.hyps [OF this rec(1) ready fb] less.prems(4) show ?thesis by (simp add: last rest)
  qed
qed

text \<open>A success is remembered. Once a backend with a name and a positive weight has served a
  request, the next request whose most important shard key is one of that request's keys tries it
  first, provided the sets held only older entries, nobody else changed the keys in between and the
  server answers.\<close>

theorem success_is_remembered:
  assumes "shard_store R view"
    and "NewShardKeyWeightedRoundRobin rnd items timeout maxCount ttl getter (Some R) pre = Inr l" "rand_ok rnd"
    and "distinct (map bi_Name items)" and "\<And>c n. 0 < n \<Longrightarrow> 0 \<le> randIntn env c n \<and> randIntn env c n < n"
    and "\<And>e w N W. fixed_backends N W w \<Longrightarrow> fixed_backends N W (snd (exec e req w))"
    and "\<And>e w N W. fixed_backends N W w \<Longrightarrow> fixed_backends N W (snd (exec e req' w))"
    and "\<And>e w. lw_rest (snd (exec e req w)) = lw_rest w"
    and "fixed_backends (map wb_name (sk_backends l)) (map wb_weight (sk_backends l)) w"
    and "fixed_backends (map wb_name (sk_backends l)) (map wb_weight (sk_backends l)) w2"
    and "0 < ttl" "\<And>k x c. x \<in> set (view (lw_rest w) k) \<Longrightarrow> snd x < nowUnix env c"
    and "sk_process l env exec None req w = ((tried, (resp, None)), w')"
    and "sk_known (sk_backends l) (fst (last tried)) \<noteq> None"
    and "req_keys l req' = ks @ [k]" "k \<in> set (req_keys l req)" "k \<noteq> ''''" "lw_rest w2 = lw_rest w'"
    and "sk_process l env exec None req' w2 = ((tried', out'), w3)"
  shows "fst (hd tried') = fst (last tried)"
proof -
  let ?N = "map bi_Name items" and ?W = "map wb_weight (sk_backends l)" and ?n = "fst (last tried)"
  note n = sk_new_backends [OF assms(2,3)]
  have keys: "req_keys l req \<noteq> []" using assms(16) by auto
  obtain prios w1 where r: "sk_resolve l (req_keys l req) w = (prios, w1)" by fastforce
  have loop: "sk_loop l env exec req (req_keys l req) prios [] 0 w1 = ((tried, (resp, None)), w')"
    using assms(13) r by (simp add: sk_process_def req_keys_def)
  have f: "fixed_backends ?N ?W w" using assms(9) n(1) by simp
  have ne: "?N \<noteq> []" using n(3,4) by auto
  have h: "sk_ready ?N ?W prios [] \<and> fixed_backends ?N ?W w1"
    using sk_resolve_hits [OF r f n(1) refl assms(4) n(2) ne] by simp
  have rest: "lw_rest w1 = snd (resolve_backends R pre (sk_known (lw_backends w)) (req_keys l req) (lw_rest w))"
    using r keys n(7,9) by (auto simp: sk_resolve_def Let_def split: prod.splits)
  obtain j where j: "backendByName wb_name (sk_backends l) ?n = Some j" "0 < wb_weight (sk_backends l ! j)"
    using assms(14) by (auto simp: sk_known_def split: option.splits if_splits)
  have pos: "0 < ?W ! i" if "i < length ?N" "?N ! i = ?n" for i
  proof -
    have "i = j"
      using backendByName_Some [OF j(1)] that assms(4) n(1,4) by (metis length_map nth_eq_iff_index_eq nth_map)
    then show ?thesis using j backendByName_Some [OF j(1)] by simp
  qed
  have "\<exists>c. lw_rest w' = record_success R (sk_keyPrefix l) (sk_shardKeyTTL l) (nowUnix env c) (req_keys l req) ?n (lw_rest w1)"
    by (rule sk_loop_records [OF loop _ _ _ assms(5) assms(6) assms(8) pos n(7) keys]) (use h n(4,8) assms(11) in simp_all)
  then obtain c where rec: "lw_rest w' = record_success R pre ttl (nowUnix env c) (req_keys l req) ?n (lw_rest w1)"
    using n(8,9) by auto
  have "\<exists>ns. zRevRange R (redisKey pre k) (lw_rest w') = Inr (?n # ns)"
    unfolding rec
  proof (rule shard_store.recorded_first [OF assms(1,11) _ assms(16,17)])
    fix j x assume "x \<in> set (view (lw_rest w1) j)"
    then have "x \<in> set (view (lw_rest w) j)"
      unfolding rest using shard_store.resolve_subset [OF assms(1)] by blast
    then show "snd x < nowUnix env c" by (rule assms(12))
  qed
  then obtain ns where ns: "zRevRange R (redisKey pre k) (lw_rest w2) = Inr (?n # ns)" using assms(18) by auto
  let ?hits = "shard_hits l (req_keys l req') (lw_rest w2)"
  have "enumerate 0 (ks @ [k]) = enumerate 0 ks @ [(length ks, k)]" by (simp add: enumerate_append_eq)
  then have hits: "\<exists>hs. ?hits = ?n # hs"
    using assms(14,15,17) ns backendByName_Some [OF j(1)] n(7,9) by (simp add: shard_hits_def key_members_def)
  have new: "NewShardKeyWeightedRoundRobin rnd items timeout maxCount ttl getter (Some R) pre = Inr l" by (rule assms(2))
  obtain prios' where a: "sk_attempts ?N prios' [] maxCount tried' out'"
    and p: "map (\<lambda>b. ?N ! b) prios' = ?hits"
    using sk_process_attempts [OF new assms(3-5) assms(7,10,19)] by blast
  from p hits obtain b bs where "prios' = b # bs" "?N ! b = ?n" by (cases prios') auto
  with a show ?thesis by (cases tried') (auto simp: sk_attempts_def)
qed

text \<open>Backends that share a name (names are optional) are excluded together: when the first
  attempt fails, the second finds no candidate and its error hides the failure of the first.\<close>

theorem shared_name_hides_error:
  assumes "NewShardKeyWeightedRoundRobin rnd items timeout maxCount ttl getter redis pre = Inr l" "rand_ok rnd"
    and "\<And>c n. 0 < n \<Longrightarrow> 0 \<le> randIntn env c n \<and> randIntn env c n < n"
    and "list_all (\<lambda>b. bi_Name b = n0) items" "2 \<le> length items"
    and "\<And>e w. \<exists>resp er w'. exec e req w = ((resp, Some er), w') \<and> \<not> isNotRetriableError er"
    and "\<And>e w N W. fixed_backends N W w \<Longrightarrow> fixed_backends N W (snd (exec e req w))"
    and "fixed_backends (map wb_name (sk_backends l)) (map wb_weight (sk_backends l)) w"
    and "\<not> cancelled env 1" "elapsed env 1 < timeout" "1 < maxCount"
    and "sk_process l env exec None req w = ((tried, out), w')"
  shows "length tried = 1 \<and> snd (snd (hd tried)) \<noteq> None \<and>
    out = (None, Some (Plain ''no backend engine available''))"
proof -
  let ?N = "map bi_Name items" and ?W = "map wb_weight (sk_backends l)"
  note n = sk_new_backends [OF assms(1,2)]
  have t: "sk_retryTimeout l = timeout"
    using assms(1) by (auto simp: NewShardKeyWeightedRoundRobin_def split: sum.splits)
  obtain prios w1 where r: "sk_resolve l (req_keys l req) w = (prios, w1)" by fastforce
  have loop: "sk_loop l env exec req (req_keys l req) prios [] 0 w1 = ((tried, out), w')"
    using assms(12) r by (simp add: sk_process_def req_keys_def)
  have f: "fixed_backends ?N ?W w1"
    using r assms(8) n(1) by (auto simp: sk_resolve_def fixed_backends_def Let_def split: option.splits if_splits prod.splits)
  define prio where "prio = (case prios of [] \<Rightarrow> ''''
                  | b # _ \<Rightarrow> if wb_name (lw_backends w1 ! b) \<notin> set ([] :: string list) then wb_name (lw_backends w1 ! b) else '''')"
  have nn: "\<forall>b\<in>set (lw_backends w1). 0 \<le> wb_weight b"
  proof -
    have "\<forall>x\<in>set (map wb_weight (lw_backends w1)). 0 \<le> x"
      using n(2) f unfolding fixed_backends_def by metis
    then show ?thesis by simp
  qed
  have "lw_backends w1 \<noteq> []" using fixed_length [OF f] assms(5) by auto
  then have ne: "\<exists>b\<in>set (lw_backends w1). wb_name b \<notin> set []"
    by (cases "lw_backends w1") auto
  obtain i where i: "fst (sk_GetNextEngine (randIntn env 0) prio [] (lw_backends w1)) = Some i" "i < length (lw_backends w1)"
    by (rule sk_next_Some [OF assms(3) nn ne])
  obtain z bs where g: "sk_GetNextEngine (randIntn env 0) prio [] (lw_backends w1) = (Some i, z, bs)"
    using i(1) by (metis prod.collapse)
  have name: "wb_name (lw_backends w1 ! i) = n0"
    using fixed_nth [OF f] i(2) fixed_length [OF f] assms(4) by (simp add: list_all_length)
  define wa where "wa = w1\<lparr>lw_backends := bs, lw_meta := SetMetadataValue (lw_meta w1) backendName (MetaStr n0)\<rparr>"
  obtain resp er wb where ex: "exec (wb_engine (lw_backends w1 ! i)) req wa = ((resp, Some er), wb)"
    "\<not> isNotRetriableError er"
    using assms(6) by metis
  have "fixed_backends ?N ?W wa"
    using f sk_next_same [of "randIntn env 0" prio "[]" "lw_backends w1"] by (simp add: fixed_backends_def wa_def g)
  from assms(7) [OF this, of "wb_engine (lw_backends w1 ! i)"] have fb: "fixed_backends ?N ?W wb" by (simp add: ex)
  have "sk_candidates [n0] (lw_backends wb) = []"
    using fixed_nth [OF fb] fixed_length [OF fb] assms(4) by (auto simp: sk_candidates_def filter_empty_conv list_all_length)
  then have none: "sk_GetNextEngine rd p [n0] (lw_backends wb) = (None, True, lw_backends wb)" for rd p
    by (simp add: sk_GetNextEngine_def Let_def)
  have second: "sk_loop l env exec req ks ps [n0] 1 wb = (([], (None, Some (Plain ''no backend engine available''))), wb)" for ks ps
    by (subst sk_loop.simps) (simp add: none Let_def)
  have "sk_loop l env exec req (req_keys l req) prios [] 0 w1 =
      (([(n0, resp, Some er)], (None, Some (Plain ''no backend engine available''))), wb)"
    using assms(5,9-11) n(4,5) t
    by (subst sk_loop.simps)
      (simp only: prio_def [symmetric] g Let_def name wa_def [symmetric] ex prod.case option.case,
       simp add: ex second)
  with loop show ?thesis by auto
qed

text \<open>Witnesses: two backends, of which backend 0 answers 500.\<close>

definition demo_sk :: "(nat, unit, ranked) sk_wrr" where
  "demo_sk = \<lparr>sk_backends = lb_backends demo_wrr, sk_shardKeyListGetter = Some (\<lambda>_. [''s'']), sk_redisClient = Some ref_shard,
     sk_shardKeyTTL = 60 * second, sk_keyPrefix = '''', sk_retryTimeout = 30 * second, sk_retryMaxCount = 3\<rparr>"

definition demo_env :: sk_env where
  "demo_env = \<lparr>elapsed = (\<lambda>_. 0), cancelled = (\<lambda>_. False), randIntn = (\<lambda>_ _. 0), nowUnix = (\<lambda>_. 100)\<rparr>"

definition demo_sk_world :: "(nat, ranked) lb_world" where
  "demo_sk_world = \<lparr>lw_backends = lb_backends demo_wrr, lw_meta = None, lw_rest = (\<lambda>_. [])\<rparr>"

definition demo_sk_exec :: "nat \<Rightarrow> ((nat, ranked) lb_world, unit, int) engine" where
  "demo_sk_exec e req w = (if e = 0 then ((None, Some (UpstreamResp 500 [] ''error'')), w) else ((Some 200, None), w))"

lemma demo_sk_new: "NewShardKeyWeightedRoundRobin (\<lambda>_ _. 0) demo_items (30 * second) 3 (60 * second)
    (Some (\<lambda>_. [''s''])) (Some ref_shard) '''' = Inr demo_sk"
  by (simp add: NewShardKeyWeightedRoundRobin_def wrr_backends_def demo_items_def demo_wrr_def demo_sk_def)

lemma demo_sk_facts:
  "distinct (map bi_Name demo_items)" "0 < n \<Longrightarrow> 0 \<le> randIntn demo_env c n \<and> randIntn demo_env c n < n"
  "fixed_backends N W w \<Longrightarrow> fixed_backends N W (snd (demo_sk_exec e req w))"
  "fixed_backends (map wb_name (sk_backends demo_sk)) (map wb_weight (sk_backends demo_sk)) demo_sk_world"
  "lw_rest (snd (demo_sk_exec e req v)) = lw_rest v"
  by (simp_all add: demo_items_def demo_env_def demo_sk_exec_def fixed_backends_def demo_sk_def demo_sk_world_def)

definition demo_sk_run :: "((string \<times> int go_result) list \<times> int go_result) \<times> (nat, ranked) lb_world" where
  "demo_sk_run = sk_process demo_sk demo_env demo_sk_exec None () demo_sk_world"

lemma demo_sk_run_split: "sk_process demo_sk demo_env demo_sk_exec None () demo_sk_world =
    ((fst (fst demo_sk_run), snd (fst demo_sk_run)), snd demo_sk_run)"
  by (simp add: demo_sk_run_def)

theorem shard_failover_tries_each_once_witness:
  "distinct (map fst (fst (fst demo_sk_run))) \<and> length (fst (fst demo_sk_run)) \<le> 3"
proof -
  have a: "fst (fst demo_sk_run) \<noteq> [] \<and> distinct (map fst (fst (fst demo_sk_run))) \<and> int (length (fst (fst demo_sk_run))) \<le> max 1 3"
    using shard_failover_tries_each_once [OF demo_sk_new rand_zero demo_sk_facts(1,2,3,4) demo_sk_run_split] by simp
  then show ?thesis by simp
qed

text \<open>The second request for the shard key \<open>s\<close> finds backend \<open>b\<close> in the set of the key.\<close>

theorem shard_hits_are_tried_first_witness:
  "take 1 (map fst (fst (fst (sk_process demo_sk demo_env demo_sk_exec None ()
     (demo_sk_world\<lparr>lw_rest := (\<lambda>_. [(''b'', 5)])\<rparr>))))) = take (length (fst (fst (sk_process demo_sk demo_env demo_sk_exec None ()
     (demo_sk_world\<lparr>lw_rest := (\<lambda>_. [(''b'', 5)])\<rparr>))))) [''b'']"
proof -
  let ?w = "demo_sk_world\<lparr>lw_rest := (\<lambda>_. [(''b'', 5)])\<rparr>"
  let ?p = "sk_process demo_sk demo_env demo_sk_exec None () ?w"
  have p: "?p = ((fst (fst ?p), snd (fst ?p)), snd ?p)" by simp
  have f: "fixed_backends (map wb_name (sk_backends demo_sk)) (map wb_weight (sk_backends demo_sk)) ?w"
    using demo_sk_facts(4) by (simp add: fixed_backends_def)
  have h: "shard_hits demo_sk (req_keys demo_sk ()) (\<lambda>_. [(''b'', 5)]) = [''b'']"
    by (simp add: shard_hits_def req_keys_def demo_sk_def demo_wrr_def ref_shard_def ref_ranked_def key_members_def
      sk_known_def backendByName_def redisKey_def)
  show ?thesis
    using shard_hits_are_tried_first [OF demo_sk_new rand_zero demo_sk_facts(1,2,3) f p] h by simp
qed

lemma demo_sk_run_result:
  "fst demo_sk_run = ([(''a'', (None, Some (UpstreamResp 500 [] ''error''))), (''b'', (Some 200, None))], (Some 200, None))"
proof -
  have getter: "sk_shardKeyListGetter demo_sk = Some (\<lambda>_. [''s''])" by (simp add: demo_sk_def)
  have r: "sk_resolve demo_sk [''s''] demo_sk_world = ([], demo_sk_world)"
    by (simp add: sk_resolve_def demo_sk_def demo_sk_world_def resolve_backends_def ref_shard_def ref_ranked_def
      key_members_def trim_sets_def redisKey_def)
  define w2 where "w2 = demo_sk_world\<lparr>lw_backends := [\<lparr>wb_name = ''a'', wb_weight = 2, wb_engine = 0, wb_currentWeight = -1\<rparr>,
        \<lparr>wb_name = ''b'', wb_weight = 1, wb_engine = 1, wb_currentWeight = 1\<rparr>], lw_meta := Some [backendName \<mapsto> MetaStr ''a'']\<rparr>"
  have g1: "sk_GetNextEngine (randIntn demo_env 0) '''' [] (lw_backends demo_sk_world) =
      (Some 0, False, lw_backends w2)"
    by (simp add: sk_GetNextEngine_def sk_candidates_def demo_sk_world_def demo_wrr_def w2_def Let_def upt_rec)
  have g2: "\<exists>bs. sk_GetNextEngine (randIntn demo_env 1) '''' [''a''] (lw_backends w2) = (Some 1, False, bs)"
    by (simp add: sk_GetNextEngine_def sk_candidates_def w2_def Let_def upt_rec)
  have l2: "fst (sk_loop demo_sk demo_env demo_sk_exec () [''s''] [] [''a''] 1 w2) = ([(''b'', (Some 200, None))], (Some 200, None))"
    using g2 by (subst sk_loop.simps) (auto simp: demo_sk_exec_def w2_def Let_def)
  have "sk_loop demo_sk demo_env demo_sk_exec () [''s''] [] [] 0 demo_sk_world =
     (let ((tried, out), w3) = sk_loop demo_sk demo_env demo_sk_exec () [''s''] [] [''a''] 1 w2
      in (((''a'', None, Some (UpstreamResp 500 [] ''error'')) # tried, out), w3))"
    by (subst sk_loop.simps, simp only: list.case g1 Let_def prod.case option.case)
      (simp add: demo_sk_exec_def demo_sk_def demo_env_def demo_wrr_def w2_def demo_sk_world_def
        isNotRetriableError_def upstream_status_def)
  with l2 show ?thesis
    by (simp add: demo_sk_run_def sk_process_def r case_prod_beta Let_def getter)
qed

text \<open>The first run of the witness ends on backend \<open>b\<close>, so the second run tries \<open>b\<close> first.\<close>

theorem success_is_remembered_witness:
  "fst (hd (fst (fst (sk_process demo_sk demo_env demo_sk_exec None () (snd demo_sk_run\<lparr>lw_backends := lb_backends demo_wrr\<rparr>))))) = ''b''"
proof -
  let ?w = "snd demo_sk_run\<lparr>lw_backends := lb_backends demo_wrr\<rparr>"
  let ?p = "sk_process demo_sk demo_env demo_sk_exec None () ?w"
  have p: "?p = ((fst (fst ?p), snd (fst ?p)), snd ?p)" by simp
  have f: "fixed_backends (map wb_name (sk_backends demo_sk)) (map wb_weight (sk_backends demo_sk)) ?w"
    by (simp add: fixed_backends_def demo_sk_def)
  have run: "sk_process demo_sk demo_env demo_sk_exec None () demo_sk_world = ((fst (fst demo_sk_run), (Some 200, None)), snd demo_sk_run)"
    using demo_sk_run_result by (simp add: demo_sk_run_def prod_eq_iff)
  have last: "fst (last (fst (fst demo_sk_run))) = ''b''" by (simp add: demo_sk_run_result)
  have known: "sk_known (sk_backends demo_sk) (fst (last (fst (fst demo_sk_run)))) \<noteq> None"
    unfolding last by (simp add: sk_known_def backendByName_def demo_sk_def demo_wrr_def upt_rec)
  have old: "snd x < nowUnix demo_env c" if "x \<in> set (ref_ranked (lw_rest demo_sk_world) k)" for k x c
    using that by (simp add: demo_sk_world_def ref_ranked_def)
  have keys: "req_keys demo_sk () = [] @ [''s'']" "''s'' \<in> set (req_keys demo_sk ())" "''s'' \<noteq> ''''"
    "lw_rest ?w = lw_rest (snd demo_sk_run)" "0 < 60 * second"
    by (simp_all add: req_keys_def demo_sk_def)
  have "fst (hd (fst (fst ?p))) = fst (last (fst (fst demo_sk_run)))"
    by (rule success_is_remembered [OF ref_store.shard_store_axioms demo_sk_new rand_zero demo_sk_facts(1,2,3,3,5,4)
      f keys(5) old run known keys(1,2,3,4) p])
  then show ?thesis by (simp only: last)
qed

text \<open>Two unnamed backends that both answer 500.\<close>

definition unnamed_items :: "(nat, unit) backend_item list" where
  "unnamed_items = map (\<lambda>b. b\<lparr>bi_Name := ''''\<rparr>) demo_items"

definition unnamed_sk :: "(nat, unit, ranked) sk_wrr" where
  "unnamed_sk = demo_sk\<lparr>sk_backends := map (\<lambda>b. b\<lparr>wb_name := ''''\<rparr>) (lb_backends demo_wrr)\<rparr>"

definition failing_exec :: "nat \<Rightarrow> ((nat, ranked) lb_world, unit, int) engine" where
  "failing_exec e req w = ((None, Some (UpstreamResp 500 [] ''error'')), w)"

theorem shared_name_hides_error_witness:
  "snd (fst (sk_process unnamed_sk demo_env failing_exec None ()
     (demo_sk_world\<lparr>lw_backends := sk_backends unnamed_sk\<rparr>))) = (None, Some (Plain ''no backend engine available''))"
proof -
  let ?w = "demo_sk_world\<lparr>lw_backends := sk_backends unnamed_sk\<rparr>"
  let ?p = "sk_process unnamed_sk demo_env failing_exec None () ?w"
  have p: "?p = ((fst (fst ?p), snd (fst ?p)), snd ?p)" by simp
  have new: "NewShardKeyWeightedRoundRobin (\<lambda>_ _. 0) unnamed_items (30 * second) 3 (60 * second)
      (Some (\<lambda>_. [''s''])) (Some ref_shard) '''' = Inr unnamed_sk"
    by (simp add: NewShardKeyWeightedRoundRobin_def wrr_backends_def unnamed_items_def demo_items_def demo_wrr_def demo_sk_def unnamed_sk_def)
  have items: "list_all (\<lambda>b. bi_Name b = '''') unnamed_items" "2 \<le> length unnamed_items"
    by (simp_all add: unnamed_items_def demo_items_def)
  have ex: "\<exists>resp er w'. failing_exec e () w = ((resp, Some er), w') \<and> \<not> isNotRetriableError er" for e w
    by (simp add: failing_exec_def isNotRetriableError_def upstream_status_def)
  have fx: "fixed_backends N W w \<Longrightarrow> fixed_backends N W (snd (failing_exec e () w))" for e w N W
    by (simp add: failing_exec_def)
  have f: "fixed_backends (map wb_name (sk_backends unnamed_sk)) (map wb_weight (sk_backends unnamed_sk)) ?w"
    by (simp add: fixed_backends_def)
  have env: "\<not> cancelled demo_env 1" "elapsed demo_env 1 < 30 * second" "1 < (3 :: int)"
    by (simp_all add: demo_env_def)
  show ?thesis
    using shared_name_hides_error [OF new rand_zero demo_sk_facts(2) items ex fx f env p] by simp
qed

end
