(* ===== verification/ShardKeyConcurrency.thy ===== *)
theory ShardKeyConcurrency
  imports LoadBalancer ShardStore "HOL-Library.Multiset"
begin

text \<open>
  \<open>pkg/engines/load-balancer/shard_key_concurrency.go\<close>: the balancer that follows shard keys and
  otherwise picks the backend with the lowest share of its concurrency in use, keeping part of each
  backend's capacity for strong cache hits. The world of a request is the Redis server and the
  request's metadata (\<open>color_world\<close>).
\<close>

section \<open>The balancer\<close>

record ('e, 'rq) concurrency_backend =
  cb_name :: string
  cb_engine :: 'e
  cb_maxConcurrencyFn :: "'rq \<Rightarrow> int"
  cb_cacheMissMaxUtilization :: rat

record ('e, 'rq, 'w) sk_concurrency =
  sc_backends :: "('e, 'rq) concurrency_backend list"
  sc_shardKeyListGetter :: "('rq \<Rightarrow> string list) option"
  sc_redisClient :: "'w shard_ops"
  sc_shardKeyTTL :: int
  sc_keyPrefix :: string
  sc_concurrencyKeyFn :: "'rq \<Rightarrow> string \<Rightarrow> string"
  sc_retryTimeout :: int
  sc_retryMaxCount :: int

definition concurrency_backends :: "('e, 'rq) backend_item list \<Rightarrow> ('e, 'rq) concurrency_backend list" where
  "concurrency_backends backends =
     map (\<lambda>b. \<lparr>cb_name = bi_Name b, cb_engine = bi_Engine b,
               cb_maxConcurrencyFn = (case bi_MaxConcurrencyFn b of Some f \<Rightarrow> f | None \<Rightarrow> (\<lambda>_. bi_Weight b)),
               cb_cacheMissMaxUtilization = bi_CacheMissMaxUtilization b\<rparr>)
       (filter (\<lambda>b. \<not> (bi_Weight b \<le> 0 \<and> bi_MaxConcurrencyFn b = None)) backends)"

definition NewShardKeyConcurrency ::
  "('e, 'rq) backend_item list \<Rightarrow> int \<Rightarrow> int \<Rightarrow> int \<Rightarrow> ('rq \<Rightarrow> string list) option \<Rightarrow> 'w shard_ops option
    \<Rightarrow> string \<Rightarrow> ('rq \<Rightarrow> string \<Rightarrow> string) option \<Rightarrow> err + ('e, 'rq, 'w) sk_concurrency" where
  "NewShardKeyConcurrency backends retryTimeout retryMaxCount shardKeyTTL getter redis keyPrefix keyFn =
     (case redis of
        None \<Rightarrow> Inl (Plain ''redisClient must be provided'')
      | Some R \<Rightarrow>
          let cb = concurrency_backends backends
          in if cb = [] then Inl (Plain ''backends must have at least one item'')
             else case keyFn of
                    None \<Rightarrow> Inl (Plain ''concurrencyKeyFn must be provided'')
                  | Some f \<Rightarrow> Inr \<lparr>sc_backends = cb, sc_shardKeyListGetter = getter, sc_redisClient = R,
                      sc_shardKeyTTL = shardKeyTTL, sc_keyPrefix = keyPrefix, sc_concurrencyKeyFn = f,
                      sc_retryTimeout = retryTimeout, sc_retryMaxCount = retryMaxCount\<rparr>)"

text \<open>A prioritized backend is its index with the index of the key it was resolved from; one found
  through either of the last two of \<open>shardKeyLen\<close> keys is a strong cache hit.\<close>

definition isStrongCacheHit :: "nat \<Rightarrow> nat \<times> nat \<Rightarrow> bool" where
  "isStrongCacheHit shardKeyLen pb \<longleftrightarrow> int shardKeyLen - 2 \<le> int (snd pb)"

definition sc_resolve ::
  "('e, 'rq, 'w) sk_concurrency \<Rightarrow> string list \<Rightarrow> 'w \<Rightarrow> (nat \<times> nat) list \<times> 'w" where
  "sc_resolve l keys r =
     (if keys = [] then ([], r)
      else resolve_backends (sc_redisClient l) (sc_keyPrefix l) (backendByName cb_name (sc_backends l)) keys r)"

section \<open>Selection by concurrency\<close>

text \<open>\<open>rand.Shuffle\<close>: position \<open>i\<close>, from the last to the second, is exchanged with some position
  not after it.\<close>

fun shuffle :: "(nat \<Rightarrow> nat) \<Rightarrow> nat \<Rightarrow> 'a list \<Rightarrow> 'a list" where
  "shuffle d 0 xs = xs"
| "shuffle d (Suc i) xs =
     (let j = d (Suc i) mod (Suc i + 1) in shuffle d i (xs[Suc i := xs ! j, j := xs ! Suc i]))"

text \<open>The error of a pipeline's \<open>Exec\<close> is the first of its commands' errors.\<close>

fun exec_error :: "(err + 'a) list \<Rightarrow> err option" where
  "exec_error [] = None"
| "exec_error (Inl e # rs) = Some e"
| "exec_error (Inr x # rs) = exec_error rs"

definition utilization :: "int \<Rightarrow> int \<Rightarrow> rat" where
  "utilization cnt denom = fdiv (f64 (of_int cnt)) (f64 (of_int denom))"

text \<open>The scan of the candidates with their counts; nothing selected stands for \<open>MaxFloat64\<close>, which
  is above every ratio of two integers.\<close>

fun lowest_ratio :: "(nat \<Rightarrow> int) \<Rightarrow> (nat \<times> (err + int)) list \<Rightarrow> (nat \<times> rat) option \<Rightarrow> (nat \<times> rat) option" where
  "lowest_ratio cap [] best = best"
| "lowest_ratio cap ((i, Inl e) # rest) best = lowest_ratio cap rest best"
| "lowest_ratio cap ((i, Inr cnt) # rest) best =
     (if cap i \<le> 0 then lowest_ratio cap rest best
      else let ratio = utilization cnt (cap i)
           in case best of
                None \<Rightarrow> lowest_ratio cap rest (Some (i, ratio))
              | Some (j, m) \<Rightarrow> lowest_ratio cap rest (if ratio < m then Some (i, ratio) else best))"

definition sc_cap :: "('e, 'rq, 'w) sk_concurrency \<Rightarrow> 'rq \<Rightarrow> nat \<Rightarrow> int" where
  "sc_cap l req i = cb_maxConcurrencyFn (sc_backends l ! i) req"

definition sc_count :: "('e, 'rq, 'w) sk_concurrency \<Rightarrow> 'rq \<Rightarrow> 'w \<Rightarrow> nat \<Rightarrow> err + int" where
  "sc_count l req r i = zCard (sc_redisClient l) (sc_concurrencyKeyFn l req (cb_name (sc_backends l ! i))) r"

definition sc_candidates :: "('e, 'rq, 'w) sk_concurrency \<Rightarrow> string list \<Rightarrow> nat list" where
  "sc_candidates l excludeNames =
     filter (\<lambda>i. cb_name (sc_backends l ! i) \<notin> set excludeNames) [0..<length (sc_backends l)]"

definition selectByConcurrency ::
  "('e, 'rq, 'w) sk_concurrency \<Rightarrow> (nat \<Rightarrow> nat) \<Rightarrow> 'rq \<Rightarrow> string list \<Rightarrow> 'w \<Rightarrow> (nat \<times> rat) option" where
  "selectByConcurrency l d req excludeNames r =
     (let cands = sc_candidates l excludeNames
      in if cands = [] then None
         else let sh = shuffle d (length cands - 1) cands;
                  replies = map (sc_count l req r) sh;
                  lowest = lowest_ratio (sc_cap l req) (zip sh replies) None
              in case exec_error replies of
                   None \<Rightarrow> lowest
                 | Some e \<Rightarrow>
                     if e = Sentinel ''redis.Nil'' then lowest
                     else case filter (\<lambda>i. 0 < sc_cap l req i) sh of
                            [] \<Rightarrow> None
                          | i # _ \<Rightarrow> Some (i, 0))"

definition headroomEnabled :: "('e, 'rq) concurrency_backend \<Rightarrow> bool" where
  "headroomEnabled b \<longleftrightarrow> 0 < cb_cacheMissMaxUtilization b \<and> cb_cacheMissMaxUtilization b < 1"

definition overHeadroom :: "('e, 'rq, 'w) sk_concurrency \<Rightarrow> 'rq \<Rightarrow> 'w \<Rightarrow> nat \<Rightarrow> bool" where
  "overHeadroom l req r i =
     (if sc_cap l req i \<le> 0 then True
      else case sc_count l req r i of
             Inl e \<Rightarrow> False
           | Inr cnt \<Rightarrow> cb_cacheMissMaxUtilization (sc_backends l ! i) < utilization cnt (sc_cap l req i))"

section \<open>Lemmas on the selection\<close>

lemma mset_shuffle: "n < length xs \<Longrightarrow> mset (shuffle d n xs) = mset xs"
proof (induction d n xs rule: shuffle.induct)
  case (2 d i xs)
  have "d (Suc i) mod (Suc i + 1) < Suc i + 1" by (rule mod_less_divisor) simp
  with 2(2) have "d (Suc i) mod (Suc i + 1) < length xs" by linarith
  then show ?case using 2 by (simp add: Let_def mset_swap)
qed simp

lemma set_shuffle: "xs \<noteq> [] \<Longrightarrow> set (shuffle d (length xs - 1) xs) = set xs"
  using mset_shuffle [of "length xs - 1" xs d] by (metis diff_less length_greater_0_conv set_mset_mset zero_less_one)

text \<open>The result of the scan: a candidate with the lowest ratio among those with capacity and a
  count.\<close>

definition readable :: "(nat \<Rightarrow> int) \<Rightarrow> (nat \<times> (err + int)) list \<Rightarrow> (nat \<times> rat) list" where
  "readable cap cs = concat (map (\<lambda>(i, r). case r of Inl e \<Rightarrow> [] | Inr c \<Rightarrow>
     if 0 < cap i then [(i, utilization c (cap i))] else []) cs)"

lemma readable_simps [simp]:
  "readable cap [] = []"
  "readable cap ((i, Inl e) # cs) = readable cap cs"
  "readable cap ((i, Inr c) # cs) = (if 0 < cap i then (i, utilization c (cap i)) # readable cap cs else readable cap cs)"
  by (simp_all add: readable_def)

lemma lowest_ratio_spec:
  "case lowest_ratio cap cs best of
     None \<Rightarrow> best = None \<and> readable cap cs = []
   | Some (i, m) \<Rightarrow> (i, m) \<in> set (readable cap cs) \<union> set_option best \<and>
       (\<forall>(j, x)\<in>set (readable cap cs) \<union> set_option best. m \<le> x)"
proof (induction cap cs best rule: lowest_ratio.induct)
  case (3 cap i c rest best)
  show ?case
  proof (cases "cap i \<le> 0")
    case True
    then show ?thesis using 3(1) by (auto split: option.splits)
  next
    case False
    show ?thesis
    proof (cases best)
      case None
      then show ?thesis using 3(2) [OF False refl None] False by (auto split: option.splits)
    next
      case (Some b)
      obtain j m where b: "b = (j, m)" by fastforce
      show ?thesis
        using 3(3) [OF False refl Some b [symmetric]] False Some b by (auto split: option.splits if_splits)
    qed
  qed
qed (auto split: option.splits)

lemma sc_candidates_set:
  "set (sc_candidates l excl) = {i. i < length (sc_backends l) \<and> cb_name (sc_backends l ! i) \<notin> set excl}"
  by (auto simp: sc_candidates_def)

lemma selectByConcurrency_in:
  assumes "selectByConcurrency l d req excl r = Some (i, x)"
  shows "i \<in> set (sc_candidates l excl) \<and> 0 < sc_cap l req i"
proof -
  let ?c = "sc_candidates l excl"
  let ?sh = "shuffle d (length ?c - 1) ?c" and ?cap = "sc_cap l req"
  have ne: "?c \<noteq> []" using assms by (auto simp: selectByConcurrency_def)
  note s = set_shuffle [OF ne, of d]
  have "(j, y) \<in> set (readable ?cap (zip ?sh (map (sc_count l req r) ?sh))) \<Longrightarrow> j \<in> set ?sh \<and> 0 < ?cap j" for j y
    by (auto simp: readable_def split: sum.splits if_splits dest: set_zip_leftD)
  then have low: "lowest_ratio ?cap (zip ?sh (map (sc_count l req r) ?sh)) None = Some (i, x) \<Longrightarrow> i \<in> set ?sh \<and> 0 < ?cap i"
    using lowest_ratio_spec [where cap = ?cap and cs = "zip ?sh (map (sc_count l req r) ?sh)" and best = None] by fastforce
  show ?thesis
  proof (cases "filter (\<lambda>i. 0 < ?cap i) ?sh")
    case Nil
    then show ?thesis using assms low s ne by (auto simp: selectByConcurrency_def Let_def split: option.splits if_splits)
  next
    case (Cons a as)
    then have "a \<in> set (filter (\<lambda>i. 0 < ?cap i) ?sh)" by simp
    then have "a \<in> set ?sh" "0 < ?cap a" by simp_all
    then show ?thesis using assms low s ne Cons
      by (auto simp: selectByConcurrency_def Let_def split: option.splits if_splits)
  qed
qed

section \<open>Failover\<close>

text \<open>Besides the clock the attempts read the random draws of each turn of the loop.\<close>

record sc_env = attempt_env +
  draws :: "nat \<Rightarrow> nat \<Rightarrow> nat"
  nowUnix :: "int \<Rightarrow> int"

abbreviation ErrCacheMissHeadroom :: err where
  "ErrCacheMissHeadroom \<equiv> Sentinel ''ErrCacheMissHeadroom''"

definition sc_record ::
  "('e, 'rq, 'w) sk_concurrency \<Rightarrow> int \<Rightarrow> string list \<Rightarrow> string \<Rightarrow> 'w color_world \<Rightarrow> 'w color_world" where
  "sc_record l now keys n w =
     (if keys \<noteq> [] \<and> 0 < sc_shardKeyTTL l
      then w\<lparr>cw_redis := record_success (sc_redisClient l) (sc_keyPrefix l) (sc_shardKeyTTL l) now keys n (cw_redis w)\<rparr>
      else w)"

text \<open>The answer when every backend is excluded, or none can be selected: the previous failure if
  there is one.\<close>

definition sc_refuse :: "err \<Rightarrow> int \<Rightarrow> 'rs go_result \<Rightarrow> 'rs go_result" where
  "sc_refuse e retryCount lastResult = (if 0 < retryCount then lastResult else (None, Some e))"

text \<open>What one turn of the loop does before calling a backend.\<close>

datatype 'rs turn = Skip string | Refuse "'rs go_result" | Attempt nat

definition sc_turn ::
  "('e, 'rq, 'w) sk_concurrency \<Rightarrow> (nat \<Rightarrow> nat) \<Rightarrow> 'rq \<Rightarrow> nat \<Rightarrow> (nat \<times> nat) list \<Rightarrow> string list
    \<Rightarrow> 'rs go_result \<Rightarrow> int \<Rightarrow> 'w \<Rightarrow> 'rs turn" where
  "sc_turn l d req shardKeyLen prios excl lastResult retryCount r =
     (let skip = (\<lambda>i. let n = cb_name (sc_backends l ! i)
                      in if length (sc_backends l) \<le> length (List.insert n excl)
                         then Refuse (sc_refuse ErrCacheMissHeadroom retryCount lastResult) else Skip n)
      in case prios of
           pb # _ \<Rightarrow>
             (let i = fst pb
              in if sc_cap l req i \<le> 0 then Skip (cb_name (sc_backends l ! i))
                 else if \<not> isStrongCacheHit shardKeyLen pb \<and> headroomEnabled (sc_backends l ! i) \<and> overHeadroom l req r i
                 then skip i
                 else Attempt i)
         | [] \<Rightarrow>
             (case selectByConcurrency l d req excl r of
                None \<Rightarrow> Refuse (sc_refuse (Plain ''no backend engine available'') retryCount lastResult)
              | Some (i, ratio) \<Rightarrow>
                  if headroomEnabled (sc_backends l ! i) \<and> cb_cacheMissMaxUtilization (sc_backends l ! i) < ratio
                  then skip i
                  else Attempt i))"

lemma sc_turn_Skip:
  assumes "sc_turn l d req k [] excl la c r = Skip n"
  shows "\<exists>i < length (sc_backends l). cb_name (sc_backends l ! i) = n \<and> n \<notin> set excl"
proof -
  obtain i x where s: "selectByConcurrency l d req excl r = Some (i, x)"
    and n: "n = cb_name (sc_backends l ! i)"
    using assms by (auto simp: sc_turn_def Let_def split: option.splits if_splits)
  have "i \<in> set (sc_candidates l excl)" using selectByConcurrency_in [OF s] by simp
  then show ?thesis using n by (auto simp: sc_candidates_set)
qed

text \<open>The loop of \<open>Process\<close>. Each attempt is listed with its backend, the Redis state in which the
  backend was picked, and its result; \<open>turn\<close> counts the turns of the loop.\<close>

definition open_backends :: "('e, 'rq, 'w) sk_concurrency \<Rightarrow> string list \<Rightarrow> nat" where
  "open_backends l excl = length (filter (\<lambda>b. cb_name b \<notin> set excl) (sc_backends l))"

lemma length_filter_less:
  assumes "\<And>x. P x \<Longrightarrow> Q x" "x \<in> set xs" "Q x" "\<not> P x"
  shows "length (filter P xs) < length (filter Q xs)"
proof -
  have le: "length (filter P ys) \<le> length (filter Q ys)" for ys
    using assms(1) by (induction ys) auto
  from assms(2) obtain ys zs where xs: "xs = ys @ x # zs" by (metis split_list)
  show ?thesis using assms(3,4) le [of ys] le [of zs] by (simp add: xs)
qed

lemma open_backends_less:
  assumes "i < length (sc_backends l)" "cb_name (sc_backends l ! i) = n" "n \<notin> set excl"
  shows "open_backends l (List.insert n excl) < open_backends l excl"
  unfolding open_backends_def
  by (rule length_filter_less [where x = "sc_backends l ! i"]) (use assms in auto)

function sc_loop ::
  "('e, 'rq, 'w) sk_concurrency \<Rightarrow> sc_env \<Rightarrow> ('e \<Rightarrow> ('w color_world, 'rq, 'rs) engine) \<Rightarrow> 'rq \<Rightarrow> string list
    \<Rightarrow> (nat \<times> nat) list \<Rightarrow> string list \<Rightarrow> 'rs go_result \<Rightarrow> int \<Rightarrow> nat \<Rightarrow> 'w color_world
    \<Rightarrow> ((nat \<times> 'w \<times> 'rs go_result) list \<times> 'rs go_result) \<times> 'w color_world" where
  "sc_loop l env exec req keys prios excl lastResult retryCount turn w =
     (case sc_turn l (draws env turn) req (length keys) prios excl lastResult retryCount (cw_redis w) of
        Refuse out \<Rightarrow> (([], out), w)
      | Skip n \<Rightarrow>
          sc_loop l env exec req keys (tl prios) (List.insert n excl) lastResult retryCount (Suc turn) w
      | Attempt i \<Rightarrow>
          (let b = sc_backends l ! i;
               n = cb_name b;
               w1 = w\<lparr>cw_meta := SetMetadataValue (cw_meta w) backendName (MetaStr n)\<rparr>;
               ((resp, er), w2) = exec (cb_engine b) req w1;
               stop = (([(i, cw_redis w, resp, er)], (resp, er)), w2)
           in case er of
                None \<Rightarrow> (([(i, cw_redis w, resp, er)], (resp, None)), sc_record l (nowUnix env retryCount) keys n w2)
              | Some e \<Rightarrow>
                  if isNotRetriableError e then stop
                  else if cancelled env (retryCount + 1) then stop
                  else if sc_retryTimeout l \<le> elapsed env (retryCount + 1) then stop
                  else if sc_retryMaxCount l \<le> retryCount + 1 then stop
                  else if length (sc_backends l) \<le> length (List.insert n excl) then stop
                  else (let ((tried, out), w3) =
                          sc_loop l env exec req keys (tl prios) (List.insert n excl) (resp, er) (retryCount + 1) (Suc turn) w2
                        in (((i, cw_redis w, resp, er) # tried, out), w3))))"
  by pat_completeness auto

termination
proof (relation "measures [\<lambda>(l, env, exec, req, keys, prios, excl, la, c, t, w). length prios,
    \<lambda>(l, env, exec, req, keys, prios, excl, la, c, t, w). nat (sc_retryMaxCount l - c),
    \<lambda>(l, env, exec, req, keys, prios, excl, la, c, t, w). open_backends l excl]")
  fix l :: "('e, 'rq, 'w) sk_concurrency" and env :: sc_env and req keys and prios :: "(nat \<times> nat) list"
    and excl la c turn and w :: "'w color_world" and n
    and exec :: "'e \<Rightarrow> ('w color_world, 'rq, 'rs) engine"
  assume s: "sc_turn l (draws env turn) req (length keys) prios excl la c (cw_redis w) = Skip n"
  show "((l, env, exec, req, keys, tl prios, List.insert n excl, la, c, Suc turn, w),
         l, env, exec, req, keys, prios, excl, la, c, turn, w)
      \<in> measures [\<lambda>(l, env, exec, req, keys, prios, excl, la, c, t, w). length prios,
          \<lambda>(l, env, exec, req, keys, prios, excl, la, c, t, w). nat (sc_retryMaxCount l - c),
          \<lambda>(l, env, exec, req, keys, prios, excl, la, c, t, w). open_backends l excl]"
  proof (cases prios)
    case Nil
    obtain i where i: "i < length (sc_backends l)" "cb_name (sc_backends l ! i) = n" "n \<notin> set excl"
      using sc_turn_Skip s Nil by metis
    have "open_backends l (List.insert n excl) < open_backends l excl"
      by (rule open_backends_less [OF i])
    then show ?thesis by (simp add: Nil)
  qed simp
qed auto

declare sc_loop.simps [simp del]

definition sc_process ::
  "('e, 'rq, 'w) sk_concurrency \<Rightarrow> sc_env \<Rightarrow> ('e \<Rightarrow> ('w color_world, 'rq, 'rs) engine) \<Rightarrow> err option \<Rightarrow> 'rq
    \<Rightarrow> 'w color_world \<Rightarrow> ((nat \<times> 'w \<times> 'rs go_result) list \<times> 'rs go_result) \<times> 'w color_world" where
  "sc_process l env exec bodyErr req w =
     (case bodyErr of
        Some er \<Rightarrow> (([], (None, Some (Wrap ''failed to cache request body for retries'' [er]))), w)
      | None \<Rightarrow>
          (let keys = (case sc_shardKeyListGetter l of Some g \<Rightarrow> g req | None \<Rightarrow> []);
               (prios, r) = sc_resolve l keys (cw_redis w)
           in sc_loop l env exec req keys prios [] (None, None) 0 0 (w\<lparr>cw_redis := r\<rparr>)))"

section \<open>Lemmas on the loop\<close>

definition sc_stops :: "('e, 'rq, 'w) sk_concurrency \<Rightarrow> sc_env \<Rightarrow> string list \<Rightarrow> int \<Rightarrow> err \<Rightarrow> string \<Rightarrow> bool" where
  "sc_stops l env excl c e n \<longleftrightarrow> isNotRetriableError e \<or> cancelled env (c + 1) \<or>
     sc_retryTimeout l \<le> elapsed env (c + 1) \<or> sc_retryMaxCount l \<le> c + 1 \<or>
     length (sc_backends l) \<le> length (List.insert n excl)"

definition sc_call :: "('e, 'rq, 'w) sk_concurrency \<Rightarrow> ('e \<Rightarrow> ('w color_world, 'rq, 'rs) engine) \<Rightarrow> 'rq \<Rightarrow> nat
    \<Rightarrow> 'w color_world \<Rightarrow> 'rs go_result \<times> 'w color_world" where
  "sc_call l exec req i w = exec (cb_engine (sc_backends l ! i)) req
     (w\<lparr>cw_meta := SetMetadataValue (cw_meta w) backendName (MetaStr (cb_name (sc_backends l ! i)))\<rparr>)"

lemma sc_loop_Skip:
  "sc_turn l (draws env t) req (length keys) prios excl la c (cw_redis w) = Skip n \<Longrightarrow>
   sc_loop l env exec req keys prios excl la c t w =
     sc_loop l env exec req keys (tl prios) (List.insert n excl) la c (Suc t) w"
  by (subst sc_loop.simps) simp

lemma sc_loop_Refuse:
  "sc_turn l (draws env t) req (length keys) prios excl la c (cw_redis w) = Refuse out \<Longrightarrow>
   sc_loop l env exec req keys prios excl la c t w = (([], out), w)"
  by (subst sc_loop.simps) simp

lemma sc_loop_Attempt:
  assumes "sc_turn l (draws env t) req (length keys) prios excl la c (cw_redis w) = Attempt i"
    and "sc_call l exec req i w = ((resp, er), w2)" "n = cb_name (sc_backends l ! i)"
  shows "sc_loop l env exec req keys prios excl la c t w =
     (case er of
        None \<Rightarrow> (([(i, cw_redis w, resp, er)], (resp, None)), sc_record l (nowUnix env c) keys n w2)
      | Some e \<Rightarrow>
          if sc_stops l env excl c e n then (([(i, cw_redis w, resp, er)], (resp, er)), w2)
          else (let ((tried, out), w3) =
                  sc_loop l env exec req keys (tl prios) (List.insert n excl) (resp, er) (c + 1) (Suc t) w2
                in (((i, cw_redis w, resp, er) # tried, out), w3)))"
  using assms unfolding sc_call_def sc_stops_def
  by (subst sc_loop.simps) (simp add: Let_def split: option.splits)

lemma sc_loop_induct [consumes 0, case_names Skip Refuse Attempt]:
  fixes l :: "('e, 'rq, 'w) sk_concurrency" and exec :: "'e \<Rightarrow> ('w color_world, 'rq, 'rs) engine"
    and keys :: "string list"
  assumes "\<And>prios excl la c t w n.
      sc_turn l (draws env t) req (length keys) prios excl la c (cw_redis w) = Skip n \<Longrightarrow>
      P (tl prios) (List.insert n excl) la c (Suc t) w \<Longrightarrow> P prios excl la c t w"
    and "\<And>prios excl la c t w out.
      sc_turn l (draws env t) req (length keys) prios excl la c (cw_redis w) = Refuse out \<Longrightarrow> P prios excl la c t w"
    and "\<And>prios excl la c t w i resp er w2.
      sc_turn l (draws env t) req (length keys) prios excl la c (cw_redis w) = Attempt i \<Longrightarrow>
      sc_call l exec req i w = ((resp, er), w2) \<Longrightarrow>
      (\<And>e. er = Some e \<Longrightarrow> \<not> sc_stops l env excl c e (cb_name (sc_backends l ! i)) \<Longrightarrow>
         P (tl prios) (List.insert (cb_name (sc_backends l ! i)) excl) (resp, er) (c + 1) (Suc t) w2) \<Longrightarrow>
      P prios excl la c t w"
  shows "P prios excl la c t w"
  using assms
proof (induction l env exec req keys prios excl la c t w rule: sc_loop.induct)
  case (1 l env exec req keys prios excl la c t w)
  note steps = "1.prems"
  show ?case
  proof (cases "sc_turn l (draws env t) req (length keys) prios excl la c (cw_redis w)")
    case (Skip n)
    show ?thesis by (rule steps(1) [OF Skip], rule "1.IH"(1) [OF Skip]) (rule steps; assumption)+
  next
    case (Refuse out)
    then show ?thesis by (rule steps(2))
  next
    case (Attempt i)
    obtain resp er w2 where x: "sc_call l exec req i w = ((resp, er), w2)" by (metis surj_pair)
    show ?thesis
    proof (rule steps(3) [OF Attempt x])
      fix e assume e: "er = Some e" and s: "\<not> sc_stops l env excl c e (cb_name (sc_backends l ! i))"
      show "P (tl prios) (List.insert (cb_name (sc_backends l ! i)) excl) (resp, er) (c + 1) (Suc t) w2"
      proof -
        have go: "\<not> isNotRetriableError e" "\<not> cancelled env (c + 1)" "\<not> sc_retryTimeout l \<le> elapsed env (c + 1)"
          "\<not> sc_retryMaxCount l \<le> c + 1"
          "\<not> length (sc_backends l) \<le> length (List.insert (cb_name (sc_backends l ! i)) excl)"
          using s by (simp_all add: sc_stops_def)
        show ?thesis
          by (rule "1.IH"(2) [OF Attempt refl refl refl refl x [unfolded sc_call_def, symmetric] refl refl e go])
            (rule steps; assumption)+
      qed
    qed
  qed
qed

abbreviation sc_name :: "('e, 'rq, 'w) sk_concurrency \<Rightarrow> nat \<Rightarrow> string" where
  "sc_name l i \<equiv> cb_name (sc_backends l ! i)"

definition sc_ready :: "('e, 'rq, 'w) sk_concurrency \<Rightarrow> (nat \<times> nat) list \<Rightarrow> string list \<Rightarrow> bool" where
  "sc_ready l prios excl \<longleftrightarrow> distinct (map (\<lambda>(i, k). sc_name l i) prios) \<and>
     (\<forall>(i, k)\<in>set prios. i < length (sc_backends l) \<and> sc_name l i \<notin> set excl)"

text \<open>What the pick of backend \<open>i\<close> saw in the Redis state \<open>r\<close>: a strong cache hit, a failed read,
  or a utilization within the ceiling.\<close>

definition within_headroom ::
  "('e, 'rq, 'w) sk_concurrency \<Rightarrow> 'rq \<Rightarrow> nat \<Rightarrow> (nat \<times> nat) list \<Rightarrow> nat \<Rightarrow> 'w \<Rightarrow> bool" where
  "within_headroom l req shardKeyLen prios i r \<longleftrightarrow>
     list_ex (\<lambda>pb. fst pb = i \<and> isStrongCacheHit shardKeyLen pb) prios \<or>
     list_ex (\<lambda>j. isl (sc_count l req r j)) [0..<length (sc_backends l)] \<or>
     (case sc_count l req r i of
        Inr c \<Rightarrow> utilization c (sc_cap l req i) \<le> cb_cacheMissMaxUtilization (sc_backends l ! i)
      | Inl e \<Rightarrow> False)"

lemma exec_error_None: "exec_error rs = None \<longleftrightarrow> list_all (Not \<circ> isl) rs"
  by (induction rs rule: exec_error.induct) auto

lemma selectByConcurrency_ratio:
  assumes "selectByConcurrency l d req excl r = Some (i, x)"
    and "\<not> list_ex (\<lambda>j. isl (sc_count l req r j)) [0..<length (sc_backends l)]"
  shows "\<exists>c. sc_count l req r i = Inr c \<and> x = utilization c (sc_cap l req i)"
proof -
  let ?c = "sc_candidates l excl"
  let ?sh = "shuffle d (length ?c - 1) ?c" and ?cap = "sc_cap l req"
  have ne: "?c \<noteq> []" using assms by (auto simp: selectByConcurrency_def)
  have "\<forall>j\<in>set ?sh. \<not> isl (sc_count l req r j)"
    using assms(2) set_shuffle [OF ne, of d] by (auto simp: list_ex_iff sc_candidates_set)
  then have "exec_error (map (sc_count l req r) ?sh) = None"
    by (simp add: exec_error_None list_all_iff)
  then have "lowest_ratio ?cap (zip ?sh (map (sc_count l req r) ?sh)) None = Some (i, x)"
    using assms(1) ne by (simp add: selectByConcurrency_def Let_def)
  then have "(i, x) \<in> set (readable ?cap (zip ?sh (map (sc_count l req r) ?sh)))"
    using lowest_ratio_spec [where cap = ?cap and cs = "zip ?sh (map (sc_count l req r) ?sh)" and best = None] by simp
  then show ?thesis
    by (auto simp: readable_def zip_map2 zip_same_conv_map split: sum.splits if_splits dest: sym)
qed

lemma sc_turn_Attempt:
  assumes "sc_turn l d req K prios excl la c r = Attempt i" "sc_ready l prios excl"
  shows "i < length (sc_backends l) \<and> sc_name l i \<notin> set excl \<and> 0 < sc_cap l req i \<and>
    (headroomEnabled (sc_backends l ! i) \<longrightarrow> within_headroom l req K prios i r)"
proof (cases prios)
  case Nil
  obtain x where s: "selectByConcurrency l d req excl r = Some (i, x)"
    and h: "headroomEnabled (sc_backends l ! i) \<longrightarrow> x \<le> cb_cacheMissMaxUtilization (sc_backends l ! i)"
    using assms(1) Nil by (auto simp: sc_turn_def Let_def not_less split: option.splits if_splits)
  show ?thesis
    using selectByConcurrency_in [OF s] selectByConcurrency_ratio [OF s] h
    by (cases "list_ex (\<lambda>j. isl (sc_count l req r j)) [0..<length (sc_backends l)]")
      (auto simp: sc_candidates_set within_headroom_def)
next
  case (Cons pb ps)
  have i: "i = fst pb" "0 < sc_cap l req i"
    "headroomEnabled (sc_backends l ! i) \<longrightarrow> isStrongCacheHit K pb \<or> \<not> overHeadroom l req r i"
    using assms(1) Cons by (auto simp: sc_turn_def Let_def split: if_splits)
  have i': "i < length (sc_backends l)" "sc_name l i \<notin> set excl"
    using assms(2) Cons i(1) by (auto simp: sc_ready_def)
  have "within_headroom l req K prios i r" if "\<not> overHeadroom l req r i"
  proof (cases "sc_count l req r i")
    case (Inl e)
    then have "list_ex (\<lambda>j. isl (sc_count l req r j)) [0..<length (sc_backends l)]"
      using i'(1) by (auto simp: list_ex_iff intro!: bexI [of _ i])
    then show ?thesis by (simp add: within_headroom_def)
  next
    case (Inr cnt)
    then show ?thesis using that i(2) by (simp add: within_headroom_def overHeadroom_def not_less)
  qed
  with i i' Cons show ?thesis by (auto simp: within_headroom_def)
qed

lemma sc_turn_Skip_name:
  assumes "sc_turn l d req K prios excl la c r = Skip n" "prios \<noteq> []"
  shows "n = sc_name l (fst (hd prios))"
  using assms by (cases prios) (auto simp: sc_turn_def Let_def split: if_splits)

lemma sc_turn_Attempt_name:
  assumes "sc_turn l d req K prios excl la c r = Attempt i" "prios \<noteq> []"
  shows "i = fst (hd prios)"
  using assms by (cases prios) (auto simp: sc_turn_def Let_def split: if_splits)

lemma sc_ready_next:
  assumes "sc_ready l prios excl" "prios \<noteq> [] \<longrightarrow> n = sc_name l (fst (hd prios))"
  shows "sc_ready l (tl prios) (List.insert n excl)"
  using assms by (cases prios) (force simp: sc_ready_def)+

lemma sc_turn_Refuse:
  "sc_turn l d req K prios excl la c r = Refuse out \<Longrightarrow>
   (if 0 < c then out = la else out = (None, Some ErrCacheMissHeadroom) \<or> out = (None, Some (Plain ''no backend engine available'')))"
  by (auto simp: sc_turn_def sc_refuse_def Let_def split: list.splits option.splits if_splits)

text \<open>The attempts of the loop.\<close>

definition sc_attempts ::
  "('e, 'rq, 'w) sk_concurrency \<Rightarrow> 'rq \<Rightarrow> nat \<Rightarrow> (nat \<times> nat) list \<Rightarrow> string list \<Rightarrow> 'rs go_result \<Rightarrow> int
    \<Rightarrow> (nat \<times> 'w \<times> 'rs go_result) list \<Rightarrow> 'rs go_result \<Rightarrow> bool" where
  "sc_attempts l req K prios excl la c tried out \<longleftrightarrow>
     distinct (map (\<lambda>(i, r, x). sc_name l i) tried) \<and> int (length tried) \<le> max 1 (sc_retryMaxCount l - c) \<and>
     (\<forall>(i, r, x)\<in>set tried. i < length (sc_backends l) \<and> sc_name l i \<notin> set excl \<and> 0 < sc_cap l req i \<and>
        (headroomEnabled (sc_backends l ! i) \<longrightarrow> within_headroom l req K prios i r)) \<and>
     (\<forall>(i, r, resp, er)\<in>set (butlast tried). \<exists>e. er = Some e \<and> \<not> isNotRetriableError e) \<and>
     (if tried \<noteq> [] then out = snd (snd (last tried))
      else if 0 < c then out = la
      else out = (None, Some ErrCacheMissHeadroom) \<or> out = (None, Some (Plain ''no backend engine available'')))"

lemma within_headroom_mono:
  "within_headroom l req K (tl prios) i r \<Longrightarrow> within_headroom l req K prios i r"
  by (cases prios) (auto simp: within_headroom_def)

lemma sc_attempts_more:
  assumes "sc_attempts l req K (tl prios) (List.insert (sc_name l i) excl) (resp, Some e) (c + 1) tried out"
    and "i < length (sc_backends l)" "sc_name l i \<notin> set excl" "0 < sc_cap l req i"
    and "headroomEnabled (sc_backends l ! i) \<longrightarrow> within_headroom l req K prios i r"
    and "\<not> isNotRetriableError e" "c + 1 < sc_retryMaxCount l" "0 \<le> c"
  shows "sc_attempts l req K prios excl la c ((i, r, resp, Some e) # tried) out"
  using assms by (auto simp: sc_attempts_def split: if_splits intro: within_headroom_mono)

lemma sc_loop_attempts:
  assumes "sc_loop l env exec req keys prios excl la c t w = ((tried, out), w')" "sc_ready l prios excl" "0 \<le> c"
  shows "sc_attempts l req (length keys) prios excl la c tried out"
  using assms
proof (induction prios excl la c t w arbitrary: tried out w'
    rule: sc_loop_induct [where l = l and env = env and exec = exec and req = req and keys = keys])
  case (Skip prios excl la c t w n)
  have n: "prios \<noteq> [] \<longrightarrow> n = sc_name l (fst (hd prios))" using sc_turn_Skip_name [OF Skip(1)] by blast
  have "sc_attempts l req (length keys) (tl prios) (List.insert n excl) la c tried out"
    using Skip.IH [OF _ sc_ready_next [OF Skip.prems(2) n] Skip.prems(3)] Skip.prems(1)
    by (simp add: sc_loop_Skip [OF Skip(1)])
  then show ?case by (auto simp: sc_attempts_def intro: within_headroom_mono)
next
  case (Refuse prios excl la c t w out')
  then show ?case using sc_turn_Refuse [OF Refuse(1)]
    by (auto simp: sc_loop_Refuse [OF Refuse(1)] sc_attempts_def split: if_splits)
next
  case (Attempt prios excl la c t w i resp er w2)
  note a = sc_turn_Attempt [OF Attempt(1) Attempt.prems(2)]
  have stop: "sc_attempts l req (length keys) prios excl la c [(i, cw_redis w, resp, er)] (resp, er)"
    using a by (auto simp: sc_attempts_def)
  show ?case
  proof (cases er)
    case None
    then show ?thesis using Attempt.prems(1) stop by (auto simp: sc_loop_Attempt [OF Attempt(1,2) refl])
  next
    case (Some e)
    show ?thesis
    proof (cases "sc_stops l env excl c e (sc_name l i)")
      case True
      then show ?thesis using Attempt.prems(1) stop Some by (auto simp: sc_loop_Attempt [OF Attempt(1,2) refl])
    next
      case False
      obtain tried' where rec: "sc_loop l env exec req keys (tl prios) (List.insert (sc_name l i) excl) (resp, er) (c + 1) (Suc t) w2
          = ((tried', out), w')" "tried = (i, cw_redis w, resp, Some e) # tried'"
        using Attempt.prems(1) Some False by (auto simp: sc_loop_Attempt [OF Attempt(1,2) refl] split: prod.splits)
      have n: "prios \<noteq> [] \<longrightarrow> sc_name l i = sc_name l (fst (hd prios))"
        using sc_turn_Attempt_name [OF Attempt(1)] by auto
      have "sc_attempts l req (length keys) (tl prios) (List.insert (sc_name l i) excl) (resp, er) (c + 1) tried' out"
        using Attempt.IH [OF Some False rec(1) sc_ready_next [OF Attempt.prems(2) n]] Attempt.prems(3) by simp
      then show ?thesis
        unfolding rec(2) using a False Attempt.prems(3) Some
        by (intro sc_attempts_more) (auto simp: sc_stops_def)
    qed
  qed
qed

lemma sc_resolve_ready:
  assumes "sc_resolve l keys r = (prios, r')"
  shows "sc_ready l prios []"
proof (cases "keys = []")
  case True
  then show ?thesis using assms by (auto simp: sc_resolve_def sc_ready_def)
next
  case False
  let ?known = "backendByName cb_name (sc_backends l)"
  obtain ns where ns: "map fst prios = map (\<lambda>n. the (?known n)) ns" "distinct ns" "\<forall>n\<in>set ns. ?known n \<noteq> None"
  proof
    show "map fst prios = map (\<lambda>n. the (?known n)) (firsts [] (usable ?known (read_members
        (rev (map (\<lambda>(i, k). (i, k, zRevRange (sc_redisClient l) (redisKey (sc_keyPrefix l) k) r)) (enumerate 0 keys))))))"
      using assms False by (simp add: sc_resolve_def resolve_backends_names [symmetric])
  qed (auto simp: distinct_firsts set_firsts usable_def)
  have kn: "the (?known n) < length (sc_backends l) \<and> sc_name l (the (?known n)) = n" if "n \<in> set ns" for n
    using ns(3) that backendByName_Some [of cb_name "sc_backends l" n] by fastforce
  have "map (\<lambda>(i, k). sc_name l i) prios = map (sc_name l) (map fst prios)" by (simp add: case_prod_beta comp_def)
  also have "\<dots> = ns" unfolding ns(1) map_map comp_def by (rule map_idI) (simp add: kn)
  finally have d: "distinct (map (\<lambda>(i, k). sc_name l i) prios)" using ns(2) by simp
  have "i < length (sc_backends l)" if "(i, k) \<in> set prios" for i k
  proof -
    have "i \<in> set (map fst prios)" using that by force
    then show ?thesis unfolding ns(1) using kn by auto
  qed
  with d show ?thesis by (auto simp: sc_ready_def)
qed

definition sc_keys :: "('e, 'rq, 'w) sk_concurrency \<Rightarrow> 'rq \<Rightarrow> string list" where
  "sc_keys l req = (case sc_shardKeyListGetter l of Some g \<Rightarrow> g req | None \<Rightarrow> [])"

lemma sc_process_attempts:
  assumes "sc_process l env exec None req w = ((tried, out), w')"
  shows "sc_attempts l req (length (sc_keys l req)) (fst (sc_resolve l (sc_keys l req) (cw_redis w))) [] (None, None) 0 tried out"
proof -
  obtain prios r where r: "sc_resolve l (sc_keys l req) (cw_redis w) = (prios, r)" by fastforce
  have "sc_loop l env exec req (sc_keys l req) prios [] (None, None) 0 0 (w\<lparr>cw_redis := r\<rparr>) = ((tried, out), w')"
    using assms r by (simp add: sc_process_def sc_keys_def)
  from sc_loop_attempts [OF this sc_resolve_ready [OF r]] r show ?thesis by simp
qed

lemma selectByConcurrency_lowest:
  assumes "\<not> list_ex (\<lambda>j. isl (sc_count l req r j)) [0..<length (sc_backends l)]"
  shows "case selectByConcurrency l d req excl r of
      None \<Rightarrow> \<forall>j<length (sc_backends l). sc_name l j \<in> set excl \<or> sc_cap l req j \<le> 0
    | Some (i, x) \<Rightarrow> i < length (sc_backends l) \<and> sc_name l i \<notin> set excl \<and> 0 < sc_cap l req i \<and>
        x = utilization (projr (sc_count l req r i)) (sc_cap l req i) \<and>
        (\<forall>j<length (sc_backends l). sc_name l j \<notin> set excl \<longrightarrow> 0 < sc_cap l req j \<longrightarrow>
           x \<le> utilization (projr (sc_count l req r j)) (sc_cap l req j))"
proof (cases "sc_candidates l excl = []")
  case True
  then have "{i. i < length (sc_backends l) \<and> sc_name l i \<notin> set excl} = {}"
    using sc_candidates_set [of l excl] by simp
  then show ?thesis using True by (auto simp: selectByConcurrency_def)
next
  case False
  let ?c = "sc_candidates l excl" and ?cap = "sc_cap l req"
  define sh where "sh = shuffle d (length ?c - 1) ?c"
  let ?cs = "zip sh (map (sc_count l req r) sh)"
  have sh: "set sh = {i. i < length (sc_backends l) \<and> sc_name l i \<notin> set excl}"
    unfolding sh_def set_shuffle [OF False] by (rule sc_candidates_set)
  then have inr: "sc_count l req r j = Inr (projr (sc_count l req r j))" if "j \<in> set sh" for j
    using assms that by (auto simp: list_ex_iff)
  then have "exec_error (map (sc_count l req r) sh) = None"
    by (simp add: exec_error_None list_all_iff) (metis Inl_Inr_False isl_def)
  then have sel: "selectByConcurrency l d req excl r = lowest_ratio ?cap ?cs None"
    using False by (simp add: selectByConcurrency_def Let_def sh_def)
  have "\<forall>j\<in>set sh. \<exists>c. sc_count l req r j = Inr c" using inr by blast
  then have rd: "set (readable ?cap ?cs) =
      {(j, utilization (projr (sc_count l req r j)) (?cap j)) | j. j \<in> set sh \<and> 0 < ?cap j}"
    by (force simp: readable_def zip_map2 zip_same_conv_map split: sum.splits)
  show ?thesis
  proof (cases "lowest_ratio ?cap ?cs None")
    case None
    then have "set (readable ?cap ?cs) = {}"
      using lowest_ratio_spec [where cap = ?cap and cs = ?cs and best = None] by simp
    then have "\<not> 0 < ?cap j" if "j \<in> set sh" for j using that unfolding rd by blast
    then have "sc_name l j \<in> set excl \<or> ?cap j \<le> 0" if "j < length (sc_backends l)" for j
      using that unfolding sh by (metis (mono_tags) mem_Collect_eq not_less)
    then show ?thesis unfolding sel None by simp
  next
    case (Some p)
    obtain i x where p: "p = (i, x)" by fastforce
    have low: "(i, x) \<in> set (readable ?cap ?cs)" "\<forall>(j, y)\<in>set (readable ?cap ?cs). x \<le> y"
      using lowest_ratio_spec [where cap = ?cap and cs = ?cs and best = None] by (simp_all add: Some p)
    then show ?thesis using sh unfolding sel Some p rd by auto
  qed
qed

section \<open>Properties\<close>

text \<open>C14: Headroom is reserved. Every backend a request is sent to has capacity, and if it reserves
  headroom then the request is a strong cache hit of it (found through one of its last two shard
  keys), or its utilization was read to be within the ceiling when it was picked, or some count could
  not be read.\<close>

theorem headroom_is_reserved:
  assumes "sc_process l env exec None req w = ((tried, out), w')" and "(i, r, res) \<in> set tried"
  shows "i < length (sc_backends l) \<and> 0 < cb_maxConcurrencyFn (sc_backends l ! i) req \<and>
    (headroomEnabled (sc_backends l ! i) \<longrightarrow>
       within_headroom l req (length (sc_keys l req)) (fst (sc_resolve l (sc_keys l req) (cw_redis w))) i r)"
  using sc_process_attempts [OF assms(1)] assms(2) by (auto simp: sc_attempts_def sc_cap_def)

text \<open>Failover of the concurrency balancer. Attempts go to backends of different names, at most
  \<open>max 1 retryMaxCount\<close> of them, each failure before the last may be retried, and the answer is
  that of the last attempt, even when afterwards no backend could be picked; the balancer's own
  errors are returned only when nothing was tried.\<close>

theorem concurrency_failover_keeps_last_error:
  assumes "sc_process l env exec None req w = ((tried, out), w')"
  shows "distinct (map (\<lambda>(i, r, res). cb_name (sc_backends l ! i)) tried) \<and>
    int (length tried) \<le> max 1 (sc_retryMaxCount l) \<and>
    (\<forall>(i, r, resp, er)\<in>set (butlast tried). \<exists>e. er = Some e \<and> \<not> isNotRetriableError e) \<and>
    (if tried \<noteq> [] then out = snd (snd (last tried))
     else out = (None, Some ErrCacheMissHeadroom) \<or> out = (None, Some (Plain ''no backend engine available'')))"
  using sc_process_attempts [OF assms] by (auto simp: sc_attempts_def)

text \<open>The pick without shard keys. While the counts can be read, the backend picked is not
  excluded, has capacity and the lowest utilization among those; there is none only when no such
  backend is left, whatever the shuffle.\<close>

theorem picks_least_utilized:
  assumes "\<not> list_ex (\<lambda>j. isl (sc_count l req r j)) [0..<length (sc_backends l)]"
  shows "case selectByConcurrency l d req excl r of
      None \<Rightarrow> \<forall>j<length (sc_backends l). sc_name l j \<in> set excl \<or> sc_cap l req j \<le> 0
    | Some (i, x) \<Rightarrow> i < length (sc_backends l) \<and> sc_name l i \<notin> set excl \<and> 0 < sc_cap l req i \<and>
        x = utilization (projr (sc_count l req r i)) (sc_cap l req i) \<and>
        (\<forall>j<length (sc_backends l). sc_name l j \<notin> set excl \<longrightarrow> 0 < sc_cap l req j \<longrightarrow>
           x \<le> utilization (projr (sc_count l req r j)) (sc_cap l req j))"
  by (rule selectByConcurrency_lowest [OF assms])

text \<open>Without shard keys and with every backend above its own ceiling, the turns exclude one
  backend after the other and then refuse.\<close>

lemma sc_loop_rejects:
  assumes "distinct (map cb_name (sc_backends l))"
    and "list_all (\<lambda>i. 0 < sc_cap l req i \<and> headroomEnabled (sc_backends l ! i) \<and> \<not> isl (sc_count l req (cw_redis w) i) \<and>
      cb_cacheMissMaxUtilization (sc_backends l ! i) < utilization (projr (sc_count l req (cw_redis w) i)) (sc_cap l req i))
      [0..<length (sc_backends l)]"
    and "distinct excl" "set excl \<subseteq> set (map cb_name (sc_backends l))" "length excl < length (sc_backends l)"
  shows "sc_loop l env exec req keys [] excl la 0 t w = (([], (None, Some ErrCacheMissHeadroom)), w)"
  using assms(3-5)
proof (induction "length (sc_backends l) - length excl" arbitrary: excl t rule: less_induct)
  case less
  have over: "\<not> list_ex (\<lambda>j. isl (sc_count l req (cw_redis w) j)) [0..<length (sc_backends l)]"
    using assms(2) by (auto simp: list_all_iff list_ex_iff)
  have all: "0 < sc_cap l req i" "headroomEnabled (sc_backends l ! i)"
    "cb_cacheMissMaxUtilization (sc_backends l ! i) < utilization (projr (sc_count l req (cw_redis w) i)) (sc_cap l req i)"
    if "i < length (sc_backends l)" for i
    using assms(2) that by (auto simp: list_all_iff)
  note pick = selectByConcurrency_lowest [OF over, where d = "draws env t" and excl = excl]
  have "\<exists>j<length (sc_backends l). sc_name l j \<notin> set excl"
  proof (rule ccontr)
    assume "\<not> ?thesis"
    then have "set (map cb_name (sc_backends l)) \<subseteq> set excl" by (auto simp: in_set_conv_nth)
    then have "length (sc_backends l) \<le> length excl"
      using assms(1) less.prems(1) by (metis card_mono distinct_card length_map List.finite_set)
    with less.prems(3) show False by simp
  qed
  then obtain i x where s: "selectByConcurrency l (draws env t) req excl (cw_redis w) = Some (i, x)"
    using pick all(1) by (cases "selectByConcurrency l (draws env t) req excl (cw_redis w)") (auto simp flip: not_less)
  have i: "i < length (sc_backends l)" "sc_name l i \<notin> set excl"
    "cb_cacheMissMaxUtilization (sc_backends l ! i) < x" "headroomEnabled (sc_backends l ! i)"
    using pick all by (auto simp: s)
  let ?n = "sc_name l i"
  have turn: "sc_turn l (draws env t) req (length keys) [] excl la 0 (cw_redis w) =
      (if length (sc_backends l) \<le> length (List.insert ?n excl) then Refuse (None, Some ErrCacheMissHeadroom) else Skip ?n)"
    using i by (simp add: sc_turn_def s Let_def sc_refuse_def)
  show ?case
  proof (cases "length (sc_backends l) \<le> length (List.insert ?n excl)")
    case True
    then show ?thesis using turn by (simp add: sc_loop_Refuse)
  next
    case False
    have "sc_loop l env exec req keys [] (List.insert ?n excl) la 0 (Suc t) w = (([], (None, Some ErrCacheMissHeadroom)), w)"
      by (rule less.hyps) (use less.prems i False in \<open>auto simp: in_set_insert\<close>)
    moreover have "sc_turn l (draws env t) req (length keys) [] excl la 0 (cw_redis w) = Skip ?n"
      using turn False by simp
    ultimately show ?thesis by (simp add: sc_loop_Skip)
  qed
qed

text \<open>A cache miss is rejected for headroom. When a request without shard keys finds every
  backend (of distinct names) with capacity and above its own ceiling, it is refused with
  \<open>ErrCacheMissHeadroom\<close>, no backend is called and nothing changes.\<close>

theorem cache_miss_rejected:
  assumes "sc_shardKeyListGetter l = None" "sc_backends l \<noteq> []" "distinct (map cb_name (sc_backends l))"
    and "list_all (\<lambda>i. 0 < sc_cap l req i \<and> headroomEnabled (sc_backends l ! i) \<and> \<not> isl (sc_count l req (cw_redis w) i) \<and>
      cb_cacheMissMaxUtilization (sc_backends l ! i) < utilization (projr (sc_count l req (cw_redis w) i)) (sc_cap l req i))
      [0..<length (sc_backends l)]"
  shows "sc_process l env exec None req w = (([], (None, Some ErrCacheMissHeadroom)), w)"
  using sc_loop_rejects [OF assms(3,4), of "[]"] assms(1,2) by (simp add: sc_process_def sc_resolve_def)

text \<open>Witnesses: two backends of capacity 10 that give cache misses half of it.\<close>

definition in_flight :: "nat \<Rightarrow> (string \<times> int) list" where
  "in_flight k = map (\<lambda>i. (replicate i CHR ''x'', 1)) [0..<k]"

definition demo_sc :: "(nat, unit, ranked) sk_concurrency" where
  "demo_sc = \<lparr>sc_backends = [\<lparr>cb_name = ''a'', cb_engine = 0, cb_maxConcurrencyFn = (\<lambda>_. 10), cb_cacheMissMaxUtilization = 1/2\<rparr>,
       \<lparr>cb_name = ''b'', cb_engine = 1, cb_maxConcurrencyFn = (\<lambda>_. 10), cb_cacheMissMaxUtilization = 1/2\<rparr>],
     sc_shardKeyListGetter = None, sc_redisClient = ref_shard, sc_shardKeyTTL = 0, sc_keyPrefix = '''',
     sc_concurrencyKeyFn = (\<lambda>_ n. n), sc_retryTimeout = 30 * second, sc_retryMaxCount = 3\<rparr>"

definition demo_sc_env :: sc_env where
  "demo_sc_env = \<lparr>elapsed = (\<lambda>_. 0), cancelled = (\<lambda>_. False), draws = (\<lambda>_ _. 0), nowUnix = (\<lambda>_. 100)\<rparr>"

definition demo_sc_exec :: "nat \<Rightarrow> (ranked color_world, unit, int) engine" where
  "demo_sc_exec e req w = ((Some 200, None), w)"

text \<open>\<open>a\<close> serves 4 and \<open>b\<close> 3 requests; or 9 and 7.\<close>

definition idle_counts :: ranked where
  "idle_counts = (\<lambda>_. [])(''a'' := in_flight 4, ''b'' := in_flight 3)"

definition busy_counts :: ranked where
  "busy_counts = (\<lambda>_. [])(''a'' := in_flight 9, ''b'' := in_flight 7)"

lemma length_in_flight: "length (AList.clearjunk (in_flight k)) = k"
proof -
  have "distinct (map fst (in_flight k))"
    by (simp add: in_flight_def comp_def distinct_map inj_on_def replicate_eq_replicate)
  then show ?thesis by (simp add: in_flight_def)
qed

lemma demo_counts [simp]: "sc_count demo_sc () idle_counts 0 = Inr 4" "sc_count demo_sc () idle_counts (Suc 0) = Inr 3"
    "sc_count demo_sc () busy_counts 0 = Inr 9" "sc_count demo_sc () busy_counts (Suc 0) = Inr 7"
    "sc_cap demo_sc () 0 = 10" "sc_cap demo_sc () (Suc 0) = 10" "length (sc_backends demo_sc) = 2"
  by (simp_all add: sc_count_def sc_cap_def demo_sc_def ref_shard_def ref_ranked_def idle_counts_def busy_counts_def length_in_flight)

lemma utilization_demo: "1/2 < utilization 9 10" "1/2 < utilization 7 10" "utilization 3 10 \<le> 1/2"
    "utilization 3 10 < utilization 4 10"
  by code_simp+

theorem picks_least_utilized_witness:
  "\<exists>i x. selectByConcurrency demo_sc (\<lambda>_. 0) () [] idle_counts = Some (i, x) \<and> x \<le> utilization 3 10"
proof -
  have ok: "\<not> list_ex (\<lambda>j. isl (sc_count demo_sc () idle_counts j)) [0..<length (sc_backends demo_sc)]"
    by (simp add: upt_rec)
  show ?thesis
    using picks_least_utilized [OF ok, where d = "\<lambda>_. 0" and excl = "[]"]
    by (cases "selectByConcurrency demo_sc (\<lambda>_. 0) () [] idle_counts") (auto dest: spec [of _ "Suc 0"])
qed

theorem cache_miss_rejected_witness:
  "sc_process demo_sc demo_sc_env demo_sc_exec None () \<lparr>cw_redis = busy_counts, cw_meta = None\<rparr> =
     (([], (None, Some ErrCacheMissHeadroom)), \<lparr>cw_redis = busy_counts, cw_meta = None\<rparr>)"
proof (rule cache_miss_rejected)
  have h: "headroomEnabled (sc_backends demo_sc ! 0)" "headroomEnabled (sc_backends demo_sc ! Suc 0)"
    "cb_cacheMissMaxUtilization (sc_backends demo_sc ! 0) = 1/2" "cb_cacheMissMaxUtilization (sc_backends demo_sc ! Suc 0) = 1/2"
    by (simp_all add: headroomEnabled_def demo_sc_def)
  show "list_all (\<lambda>i. 0 < sc_cap demo_sc () i \<and> headroomEnabled (sc_backends demo_sc ! i) \<and>
      \<not> isl (sc_count demo_sc () (cw_redis \<lparr>cw_redis = busy_counts, cw_meta = None\<rparr>) i) \<and>
      cb_cacheMissMaxUtilization (sc_backends demo_sc ! i)
        < utilization (projr (sc_count demo_sc () (cw_redis \<lparr>cw_redis = busy_counts, cw_meta = None\<rparr>) i)) (sc_cap demo_sc () i))
      [0..<length (sc_backends demo_sc)]"
    using utilization_demo by (simp add: upt_rec h)
qed (simp_all add: demo_sc_def)

definition demo_sc_run :: "((nat \<times> ranked \<times> int go_result) list \<times> int go_result) \<times> ranked color_world" where
  "demo_sc_run = sc_process demo_sc demo_sc_env demo_sc_exec None () \<lparr>cw_redis = idle_counts, cw_meta = None\<rparr>"

lemma demo_sc_run_split: "sc_process demo_sc demo_sc_env demo_sc_exec None () \<lparr>cw_redis = idle_counts, cw_meta = None\<rparr> =
    ((fst (fst demo_sc_run), snd (fst demo_sc_run)), snd demo_sc_run)"
  by (simp add: demo_sc_run_def)

theorem concurrency_failover_keeps_last_error_witness:
  "length (fst (fst demo_sc_run)) \<le> 3 \<and> distinct (map (\<lambda>(i, r, res). cb_name (sc_backends demo_sc ! i)) (fst (fst demo_sc_run)))"
proof -
  have "sc_retryMaxCount demo_sc = 3" by (simp add: demo_sc_def)
  then show ?thesis using concurrency_failover_keeps_last_error [OF demo_sc_run_split] by simp
qed

lemma demo_sc_pick: "selectByConcurrency demo_sc d () [] idle_counts = Some (1, utilization 3 10)"
proof -
  have ok: "\<not> list_ex (\<lambda>j. isl (sc_count demo_sc () idle_counts j)) [0..<length (sc_backends demo_sc)]"
    by (simp add: upt_rec)
  note low = selectByConcurrency_lowest [OF ok, where d = d and excl = "[]"]
  obtain i x where s: "selectByConcurrency demo_sc d () [] idle_counts = Some (i, x)"
    using low by (cases "selectByConcurrency demo_sc d () [] idle_counts") (auto dest: spec [of _ 0])
  have "i < 2" "x = utilization (projr (sc_count demo_sc () idle_counts i)) (sc_cap demo_sc () i)" "x \<le> utilization 3 10"
    using low by (auto simp: s dest: spec [of _ "Suc 0"])
  moreover have "i \<noteq> 0"
  proof
    assume "i = 0"
    then have "x = utilization 4 10" using calculation(2) by simp
    with calculation(3) utilization_demo(4) show False by simp
  qed
  ultimately have "i = 1" by simp
  with \<open>x = _\<close> show ?thesis by (simp add: s)
qed

lemma demo_sc_run_result: "fst demo_sc_run = ([(1, idle_counts, (Some 200, None))], (Some 200, None))"
proof -
  have "sc_turn demo_sc d () 0 [] [] (None, None) 0 idle_counts = Attempt 1" for d
    using utilization_demo(3) by (simp add: sc_turn_def demo_sc_pick Let_def) (simp add: demo_sc_def)
  then have turn: "sc_turn demo_sc (draws demo_sc_env 0) () (length ([] :: string list)) [] [] (None, None) 0
      (cw_redis \<lparr>cw_redis = idle_counts, cw_meta = None\<rparr>) = Attempt 1" by simp
  have call: "sc_call demo_sc demo_sc_exec () 1 \<lparr>cw_redis = idle_counts, cw_meta = None\<rparr> =
      ((Some 200, None), \<lparr>cw_redis = idle_counts, cw_meta = SetMetadataValue None backendName (MetaStr (sc_name demo_sc 1))\<rparr>)"
    by (simp add: sc_call_def demo_sc_exec_def)
  have "sc_shardKeyListGetter demo_sc = None" by (simp add: demo_sc_def)
  then show ?thesis
    by (simp add: demo_sc_run_def sc_process_def sc_resolve_def sc_loop_Attempt [OF turn call refl])
qed

theorem headroom_is_reserved_witness:
  "headroomEnabled (sc_backends demo_sc ! 1) \<and> within_headroom demo_sc () 0 [] 1 idle_counts"
proof -
  have "(1, idle_counts, (Some 200, None)) \<in> set (fst (fst demo_sc_run))" by (simp add: demo_sc_run_result)
  from headroom_is_reserved [OF demo_sc_run_split this]
  have "headroomEnabled (sc_backends demo_sc ! 1) \<longrightarrow>
      within_headroom demo_sc () (length (sc_keys demo_sc ())) (fst (sc_resolve demo_sc (sc_keys demo_sc ()) idle_counts)) 1 idle_counts"
    by simp
  moreover have "headroomEnabled (sc_backends demo_sc ! 1)" by (simp add: headroomEnabled_def demo_sc_def)
  moreover have "sc_keys demo_sc () = []" by (simp add: sc_keys_def demo_sc_def)
  ultimately show ?thesis by (simp add: sc_resolve_def)
qed

end
