(* ===== verification/Body.thy ===== *)
theory Body
  imports Core
begin

text \<open>
  \<open>UnifiedBody\<close> and the stream detection of \<open>pkg/octollm/request.go\<close>. A body holds its content as
  an unread reader, as bytes, as a parsed value, or as several of these; the operations convert
  lazily and cache. The abstract specification \<open>content\<close> is a body that is either raw bytes or a
  value, and the refinement theorem relates every run of operations to it.
\<close>

section \<open>Readers and parsers\<close>

text \<open>A reader that was not read yet: what \<open>io.ReadAll\<close> would return, and what \<open>Close\<close> returns.
  After a failed read the error stays.\<close>

record reader =
  ReadAll :: "err + string"
  closing :: "err option"

text \<open>\<open>Parse\<close> returns a value and an error, each of which may be nil.\<close>

record 'v parser =
  Parse :: "string \<Rightarrow> 'v option \<times> err option"
  Serialize :: "'v \<Rightarrow> err + string"

section \<open>The body\<close>

text \<open>\<open>None\<close> is the nil value of each field.\<close>

record 'v body =
  b_reader :: "reader option"
  b_bytes :: "string option"
  b_parsed :: "'v option"
  b_parser :: "'v parser option"
  b_parseErr :: "err option"
  b_isDirty :: bool
  b_closeFunc :: "close_action list"

definition NewBodyFromReader :: "reader \<Rightarrow> 'v parser option \<Rightarrow> 'v body" where
  "NewBodyFromReader r p = \<lparr>b_reader = Some r, b_bytes = None, b_parsed = None, b_parser = p, b_parseErr = None,
     b_isDirty = False, b_closeFunc = []\<rparr>"

definition NewBodyFromBytes :: "string option \<Rightarrow> 'v parser option \<Rightarrow> 'v body" where
  "NewBodyFromBytes bs p = \<lparr>b_reader = None, b_bytes = bs, b_parsed = None, b_parser = p, b_parseErr = None,
     b_isDirty = False, b_closeFunc = []\<rparr>"

definition NewBodyFromParsed :: "'v option \<Rightarrow> 'v parser option \<Rightarrow> 'v body" where
  "NewBodyFromParsed v p = \<lparr>b_reader = None, b_bytes = None, b_parsed = v, b_parser = p, b_parseErr = None,
     b_isDirty = True, b_closeFunc = []\<rparr>"

text \<open>Reading a reader to its end and closing it; the result of \<open>Close\<close> is dropped.\<close>

definition read_all :: "'v body \<Rightarrow> err + 'v body" where
  "read_all b =
     (case b_reader b of
        None \<Rightarrow> Inr b
      | Some r \<Rightarrow>
          (case ReadAll r of
             Inl e \<Rightarrow> Inl (Wrap ''read body error'' [e])
           | Inr s \<Rightarrow> Inr (b\<lparr>b_bytes := Some s, b_reader := None\<rparr>)))"

text \<open>A nil slice reads as the empty one.\<close>

definition Parsed :: "'v body \<Rightarrow> ('v option \<times> err option) outcome \<times> 'v body" where
  "Parsed b =
     (if b_parsed b \<noteq> None then (Returned (b_parsed b, b_parseErr b), b)
      else case read_all b of
             Inl e \<Rightarrow> (Returned (None, Some e), b)
           | Inr b1 \<Rightarrow>
               (case b_parser b1 of
                  None \<Rightarrow> (Panicked, b1)
                | Some p \<Rightarrow>
                    let (v, e) = Parse p (case b_bytes b1 of Some s \<Rightarrow> s | None \<Rightarrow> '''')
                    in (Returned (v, e), b1\<lparr>b_parsed := v, b_parseErr := e\<rparr>)))"

definition Bytes :: "'v body \<Rightarrow> (err + string) outcome \<times> 'v body" where
  "Bytes b =
     (if \<not> b_isDirty b \<and> b_bytes b \<noteq> None then (Returned (Inr (the (b_bytes b))), b)
      else if b_isDirty b
      then (case b_parsed b of
              None \<Rightarrow> (Returned (Inl (Plain ''parsed body must not be nil'')), b)
            | Some v \<Rightarrow>
                (case b_parser b of
                   None \<Rightarrow> (Panicked, b)
                 | Some p \<Rightarrow>
                     (case Serialize p v of
                        Inl e \<Rightarrow> (Returned (Inl (Wrap ''serialize body error'' [e])), b)
                      | Inr s \<Rightarrow> (Returned (Inr s), b\<lparr>b_bytes := Some s, b_isDirty := False\<rparr>))))
      else if b_reader b = None then (Returned (Inl (Plain ''reader must not be nil'')), b)
      else case read_all b of
             Inl e \<Rightarrow> (Returned (Inl e), b)
           | Inr b1 \<Rightarrow> (Returned (Inr (the (b_bytes b1))), b1))"

definition SetBytes :: "string option \<Rightarrow> 'v body \<Rightarrow> 'v body" where
  "SetBytes bs b = b\<lparr>b_bytes := bs, b_parsed := None, b_parseErr := None, b_isDirty := False, b_reader := None\<rparr>"

text \<open>The reader handed out: the body's own, which the caller then drains, or a fresh one over the
  bytes.\<close>

definition Reader :: "'v body \<Rightarrow> (err + reader) outcome \<times> 'v body" where
  "Reader b =
     (case b_reader b of
        Some r \<Rightarrow> (Returned (Inr r), b)
      | None \<Rightarrow>
          (case Bytes b of
             (Panicked, b1) \<Rightarrow> (Panicked, b1)
           | (Returned (Inl e), b1) \<Rightarrow> (Returned (Inl (Wrap ''get bytes error'' [e])), b1)
           | (Returned (Inr s), b1) \<Rightarrow> (Returned (Inr \<lparr>ReadAll = Inr s, closing = None\<rparr>), b1)))"

definition SetParser :: "'v parser option \<Rightarrow> 'v body \<Rightarrow> 'v body" where
  "SetParser p b = b\<lparr>b_parser := p, b_parsed := None, b_parseErr := None, b_isDirty := False\<rparr>"

definition SetParsed :: "'v option \<Rightarrow> 'v body \<Rightarrow> 'v body" where
  "SetParsed v b = b\<lparr>b_parsed := v, b_isDirty := True, b_reader := None\<rparr>"

text \<open>\<open>Close\<close> runs the callbacks and closes an unread reader.\<close>

definition CloseBody :: "'v body \<Rightarrow> close_action list \<times> err option" where
  "CloseBody b = (b_closeFunc b, case b_reader b of None \<Rightarrow> None | Some r \<Rightarrow> closing r)"

lemma Bytes_SetBytes: "Bytes (SetBytes (Some s) b) = (Returned (Inr s), SetBytes (Some s) b)"
  by (simp add: Bytes_def SetBytes_def)

lemma Bytes_again: "Bytes b = (Returned (Inr s), b1) \<Longrightarrow> Bytes b1 = (Returned (Inr s), b1)"
  by (auto simp: Bytes_def read_all_def split: if_splits option.splits sum.splits)

section \<open>The abstract content\<close>

datatype 'v content = Raw string | Val 'v

datatype 'v body_op = DoParsed | DoBytes | DoReader | DoSetBytes string | DoSetParsed 'v

datatype 'v body_out =
    OutParsed "('v option \<times> err option) outcome"
  | OutBytes "(err + string) outcome"
  | OutDone

text \<open>What a value serializes to.\<close>

definition serialized :: "'v parser \<Rightarrow> 'v \<Rightarrow> err + string" where
  "serialized p v = (case Serialize p v of Inl e \<Rightarrow> Inl (Wrap ''serialize body error'' [e]) | Inr s \<Rightarrow> Inr s)"

fun content_step :: "'v parser \<Rightarrow> 'v body_op \<Rightarrow> 'v content \<Rightarrow> 'v body_out \<times> 'v content" where
  "content_step p DoParsed (Raw s) = (OutParsed (Returned (Parse p s)), Raw s)"
| "content_step p DoParsed (Val v) = (OutParsed (Returned (Some v, None)), Val v)"
| "content_step p DoBytes (Raw s) = (OutBytes (Returned (Inr s)), Raw s)"
| "content_step p DoBytes (Val v) = (OutBytes (Returned (serialized p v)), Val v)"
| "content_step p DoReader c = (OutDone, c)"
| "content_step p (DoSetBytes s) c = (OutDone, Raw s)"
| "content_step p (DoSetParsed v) c = (OutDone, Val v)"

text \<open>In a run the reader handed out by \<open>Reader\<close> is not drained.\<close>

fun body_step :: "'v body_op \<Rightarrow> 'v body \<Rightarrow> 'v body_out \<times> 'v body" where
  "body_step DoParsed b = (let (r, b1) = Parsed b in (OutParsed r, b1))"
| "body_step DoBytes b = (let (r, b1) = Bytes b in (OutBytes r, b1))"
| "body_step DoReader b = (OutDone, snd (Reader b))"
| "body_step (DoSetBytes s) b = (OutDone, SetBytes (Some s) b)"
| "body_step (DoSetParsed v) b = (OutDone, SetParsed (Some v) b)"

fun run_ops :: "('o \<Rightarrow> 's \<Rightarrow> 'r \<times> 's) \<Rightarrow> 'o list \<Rightarrow> 's \<Rightarrow> 'r list \<times> 's" where
  "run_ops f [] s = ([], s)"
| "run_ops f (op # ops) s = (let (r, s1) = f op s; (rs, s2) = run_ops f ops s1 in (r # rs, s2))"

lemma run_ops_append:
  "run_ops f (xs @ ys) s = (let (rs, s1) = run_ops f xs s; (qs, s2) = run_ops f ys s1 in (rs @ qs, s2))"
  by (induction xs arbitrary: s) (auto split: prod.splits)

lemma run_ops_outputs:
  assumes "\<And>x s. P (fst (f x s))"
  shows "length (fst (run_ops f xs s)) = length xs" "list_all P (fst (run_ops f xs s))"
proof (induction xs arbitrary: s)
  case (Cons x xs)
  { case 1 then show ?case using Cons.IH(1) by (simp add: split_beta) }
  { case 2 then show ?case using Cons.IH(2) assms by (simp add: split_beta) }
qed simp_all

text \<open>How a body represents a content; \<open>clean\<close> means that no parse has failed since the bytes were
  set.\<close>

definition represents :: "'v parser \<Rightarrow> 'v body \<Rightarrow> 'v content \<Rightarrow> bool" where
  "represents p b c \<longleftrightarrow> b_parser b = Some p \<and> b_parseErr b = None \<and>
     (case c of
        Raw s \<Rightarrow> \<not> b_isDirty b \<and>
          (case b_reader b of
             Some r \<Rightarrow> ReadAll r = Inr s \<and> b_parsed b = None \<and> b_bytes b = None
           | None \<Rightarrow> b_bytes b = Some s \<and> (b_parsed b = None \<or> Parse p s = (b_parsed b, None)))
      | Val v \<Rightarrow> b_reader b = None \<and> b_parsed b = Some v \<and>
          (b_isDirty b \<or> (case b_bytes b of Some s \<Rightarrow> Serialize p v = Inr s | None \<Rightarrow> False)))"

lemma body_step_refines:
  assumes "represents p b c" "content_step p op c = (out, c')"
    and "case out of OutParsed (Returned (v, e)) \<Rightarrow> e = None | _ \<Rightarrow> True"
  shows "\<exists>b'. body_step op b = (out, b') \<and> represents p b' c'"
proof (cases op)
  case DoParsed
  then show ?thesis
    using assms by (cases c) (auto simp: represents_def Parsed_def read_all_def Let_def split: option.splits prod.splits)
next
  case DoBytes
  then show ?thesis
    using assms by (cases c) (auto simp: represents_def Bytes_def read_all_def serialized_def split: option.splits sum.splits)
next
  case DoReader
  then show ?thesis
    using assms by (cases c)
      (auto simp: represents_def Reader_def Bytes_def split: option.splits sum.splits outcome.splits prod.splits)
next
  case (DoSetBytes s)
  then show ?thesis using assms by (auto simp: represents_def SetBytes_def)
next
  case (DoSetParsed v)
  then show ?thesis using assms by (cases c) (auto simp: represents_def SetParsed_def)
qed

section \<open>Properties\<close>

definition parse_ok :: "'v body_out \<Rightarrow> bool" where
  "parse_ok out = (case out of OutParsed (Returned (v, e)) \<Rightarrow> e = None | _ \<Rightarrow> True)"

lemma run_ops_refines:
  assumes "represents p b c" "run_ops (content_step p) ops c = (outs, c')" "list_all parse_ok outs"
  shows "\<exists>b'. run_ops body_step ops b = (outs, b') \<and> represents p b' c'"
  using assms
proof (induction ops arbitrary: b c outs)
  case (Cons op ops)
  obtain out c1 where s: "content_step p op c = (out, c1)" by fastforce
  obtain outs1 where r: "run_ops (content_step p) ops c1 = (outs1, c')" "outs = out # outs1"
    using Cons.prems(2) s by (auto split: prod.splits)
  have "parse_ok out" using Cons.prems(3) r(2) by simp
  then obtain b1 where b1: "body_step op b = (out, b1)" "represents p b1 c1"
    using body_step_refines [OF Cons.prems(1) s] by (auto simp: parse_ok_def)
  with Cons.IH [OF b1(2) r(1)] Cons.prems(3) show ?case by (auto simp: r(2) s)
qed simp


definition text_parser :: "string parser" where
  "text_parser = \<lparr>Parse = (\<lambda>s. if s = '''' then (None, Some (Plain ''empty'')) else (Some s, None)), Serialize = (\<lambda>v. Inr v)\<rparr>"


text \<open>A failed parse outlives the value set after it. \<open>SetParsed\<close> keeps \<open>parseErr\<close>, so after a
  \<open>Parsed\<close> that failed without a value, the value set next is returned together with the old error,
  although \<open>Bytes\<close> serializes it.\<close>

theorem set_parsed_keeps_parse_error:
  assumes "b_parsed b = None" "fst (Parsed b) = Returned (None, Some e)" "b_parser (snd (Parsed b)) = Some p"
    and "b_reader (snd (Parsed b)) = None" "Serialize p v = Inr s"
  shows "fst (Parsed (SetParsed (Some v) (snd (Parsed b)))) = Returned (Some v, Some e) \<and>
    fst (Bytes (SetParsed (Some v) (snd (Parsed b)))) = Returned (Inr s)"
  using assms by (auto simp: Parsed_def SetParsed_def Bytes_def read_all_def Let_def split: option.splits sum.splits prod.splits)

theorem set_parsed_keeps_parse_error_witness:
  "fst (Parsed (SetParsed (Some ''{}'') (snd (Parsed (NewBodyFromBytes (Some '''') (Some text_parser)))))) =
     Returned (Some ''{}'', Some (Plain ''empty''))"
proof -
  let ?b = "NewBodyFromBytes (Some '''') (Some text_parser)"
  have "b_parsed ?b = None" "fst (Parsed ?b) = Returned (None, Some (Plain ''empty''))"
    "b_parser (snd (Parsed ?b)) = Some text_parser" "b_reader (snd (Parsed ?b)) = None" "Serialize text_parser ''{}'' = Inr ''{}''"
    by (simp_all add: NewBodyFromBytes_def Parsed_def read_all_def text_parser_def)
  from set_parsed_keeps_parse_error [OF this] show ?thesis by simp
qed

text \<open>Once the bytes were read, every later \<open>Reader\<close> delivers them again: what the load balancers
  rely on when they cache the body for retries.\<close>

lemma reader_after_bytes:
  assumes "fst (Bytes b) = Returned (Inr s)" "b_isDirty b \<longrightarrow> b_reader b = None" "b_bytes b \<noteq> None \<longrightarrow> b_reader b = None"
  shows "Reader (snd (Bytes b)) = (Returned (Inr \<lparr>ReadAll = Inr s, closing = None\<rparr>), snd (Bytes b))"
  using assms by (auto simp: Bytes_def Reader_def read_all_def split: if_splits option.splits sum.splits)

text \<open>A body never holds both an unread reader and something newer.\<close>

definition body_inv :: "'v body \<Rightarrow> bool" where
  "body_inv b \<longleftrightarrow> (b_reader b \<noteq> None \<longrightarrow> b_bytes b = None \<and> b_parsed b = None \<and> \<not> b_isDirty b)"

lemma body_inv_step: "body_inv b \<Longrightarrow> body_inv (snd (body_step op b))"
  by (cases op) (auto simp: body_inv_def Parsed_def Bytes_def Reader_def SetBytes_def SetParsed_def read_all_def Let_def
    split: option.splits sum.splits outcome.splits prod.splits)

section \<open>Stream detection\<close>

text \<open>The dynamic types of a parsed request that \<open>detectIsStream\<close> tells apart, with their stream
  field (\<open>None\<close> for nil).\<close>

datatype 'x request_value =
    ChatCompletionRequest "bool option" 'x
  | CompletionRequest bool 'x
  | ResponsesRequest "bool option" 'x
  | ClaudeMessagesRequest "bool option" 'x
  | OtherRequest 'x

record 'x stream_request = request +
  rq_body :: "'x request_value body option"

definition to_lower :: "char \<Rightarrow> char" where
  "to_lower c = (if (65 :: nat) \<le> of_char c \<and> of_char c \<le> (90 :: nat) then char_of (of_char c + 32 :: nat) else c)"

text \<open>\<open>strings.ToLower\<close> and \<open>HasPrefix\<close> on ASCII.\<close>

definition IsStreamAction :: "string \<Rightarrow> bool" where
  "IsStreamAction action \<longleftrightarrow> take 6 (map to_lower action) = ''stream''"

definition ContextKeyIsStream :: ctx_key where "ContextKeyIsStream = CoreKey ''is_stream''"
definition ContextKeyAction :: ctx_key where "ContextKeyAction = CoreKey ''action''"

definition stream_flag :: "'x request_value option \<Rightarrow> bool" where
  "stream_flag v =
     (case v of
        Some (ChatCompletionRequest f x) \<Rightarrow> f = Some True
      | Some (CompletionRequest f x) \<Rightarrow> f
      | Some (ResponsesRequest f x) \<Rightarrow> f = Some True
      | Some (ClaudeMessagesRequest f x) \<Rightarrow> f = Some True
      | _ \<Rightarrow> False)"

definition detectIsStream :: "'x stream_request \<Rightarrow> (bool \<times> err option) outcome \<times> 'x stream_request" where
  "detectIsStream u =
     (case req_ctx u ContextKeyAction of
        Some (CtxStr action) \<Rightarrow> (Returned (IsStreamAction action, None), u)
      | _ \<Rightarrow>
          (case rq_body u of
             None \<Rightarrow> (Returned (False, None), u)
           | Some b \<Rightarrow>
               (case Parsed b of
                  (Panicked, b1) \<Rightarrow> (Panicked, u\<lparr>rq_body := Some b1\<rparr>)
                | (Returned (v, e), b1) \<Rightarrow>
                    (Returned (if e = None then stream_flag v else False, e), u\<lparr>rq_body := Some b1\<rparr>))))"

definition IsStream :: "'x stream_request \<Rightarrow> (bool \<times> err option) outcome \<times> 'x stream_request" where
  "IsStream u =
     (case req_ctx u ContextKeyIsStream of
        Some (CtxBool v) \<Rightarrow> (Returned (v, None), u)
      | _ \<Rightarrow>
          (case detectIsStream u of
             (Panicked, u1) \<Rightarrow> (Panicked, u1)
           | (Returned (v, Some e), u1) \<Rightarrow> (Returned (False, Some e), u1)
           | (Returned (v, None), u1) \<Rightarrow>
               (Returned (v, None), u1\<lparr>req_ctx := with_value (req_ctx u1) ContextKeyIsStream (CtxBool v)\<rparr>)))"

text \<open>The stream flag is stable. After \<open>IsStream\<close> has classified a request, it gives the same
  answer again, without touching the request, whatever happens to the body in between.\<close>

theorem is_stream_is_stable:
  assumes "IsStream u = (Returned (v, None), u1)"
  shows "IsStream (u1\<lparr>rq_body := b\<rparr>) = (Returned (v, None), u1\<lparr>rq_body := b\<rparr>)"
  using assms by (auto simp: IsStream_def with_value_def split: option.splits ctx_val.splits outcome.splits prod.splits)

theorem is_stream_is_stable_witness:
  "fst (IsStream (snd (IsStream \<lparr>req_ctx = [ContextKeyAction \<mapsto> CtxStr ''StreamGenerateContent''], rq_body = None :: unit request_value body option\<rparr>)\<lparr>rq_body := None\<rparr>))
     = Returned (True, None)"
proof -
  let ?u = "\<lparr>req_ctx = [ContextKeyAction \<mapsto> CtxStr ''StreamGenerateContent''], rq_body = None :: unit request_value body option\<rparr>"
  have "IsStreamAction ''StreamGenerateContent''" by code_simp
  then have "IsStream ?u = (Returned (True, None), ?u\<lparr>req_ctx := with_value (req_ctx ?u) ContextKeyIsStream (CtxBool True)\<rparr>)"
    by (simp add: IsStream_def detectIsStream_def ContextKeyIsStream_def ContextKeyAction_def)
  from is_stream_is_stable [OF this, of None] this show ?thesis by simp
qed

end
