(* ===== verification/ErrorMiddleware.thy ===== *)
theory ErrorMiddleware
  imports Body "HOL-Library.Char_ord"
begin

text \<open>
  \<open>pkg/errutils/handler_error.go\<close>: what the client of the gateway sees of an error. A
  \<open>HandlerError\<close> is the constructor \<open>Handler\<close> of \<open>err\<close>; a handler leaves it in the request's
  context, and the middleware of the protocol turns it into the response. Strings are ASCII: what
  \<open>encoding/json\<close> and \<open>strings\<close> do with other bytes is not modelled. Header keys are canonical.
\<close>

section \<open>Strings\<close>

definition is_space :: "char \<Rightarrow> bool" where
  "is_space c \<longleftrightarrow> c = CHR '' '' \<or> (9 \<le> (of_char c :: nat) \<and> (of_char c :: nat) \<le> 13)"

definition TrimSpace :: "string \<Rightarrow> string" where
  "TrimSpace s = rev (dropWhile is_space (rev (dropWhile is_space s)))"

definition hex_digit :: "nat \<Rightarrow> char" where
  "hex_digit n = (if n < 10 then char_of (48 + n) else char_of (87 + n))"

text \<open>The escapes of \<open>json.Marshal\<close>, HTML characters included.\<close>

definition json_char :: "char \<Rightarrow> string" where
  "json_char c =
     (let n = (of_char c :: nat)
      in if n = 34 \<or> n = 92 then [CHR 0x5C, c]
         else if n = 8 then [CHR 0x5C, CHR ''b'']
         else if n = 12 then [CHR 0x5C, CHR ''f'']
         else if n = 10 then [CHR 0x5C, CHR ''n'']
         else if n = 13 then [CHR 0x5C, CHR ''r'']
         else if n = 9 then [CHR 0x5C, CHR ''t'']
         else if n < 32 \<or> n = 60 \<or> n = 62 \<or> n = 38
         then [CHR 0x5C, CHR ''u'', CHR ''0'', CHR ''0'', hex_digit (n div 16), hex_digit (n mod 16)]
         else [c])"

definition json_string :: "string \<Rightarrow> string" where
  "json_string s = [CHR 0x22] @ concat (map json_char s) @ [CHR 0x22]"

definition json_field :: "string \<Rightarrow> string \<Rightarrow> string" where
  "json_field k v = json_string k @ '':'' @ v"

section \<open>The response writer\<close>

text \<open>The \<open>http.ResponseWriter\<close> of the server: its header map, the status and headers once they are
  sent, and the body. The first \<open>WriteHeader\<close> counts, and the first \<open>Write\<close> implies one with 200.\<close>

record writer =
  rw_header :: http_header
  rw_sent :: "(int \<times> http_header) option"
  rw_body :: string

definition new_writer :: writer where
  "new_writer = \<lparr>rw_header = [], rw_sent = None, rw_body = ''''\<rparr>"

definition set_header :: "string \<Rightarrow> string \<Rightarrow> http_header \<Rightarrow> http_header" where
  "set_header k v h = AList.update k [v] h"

definition add_header :: "string \<Rightarrow> string \<Rightarrow> http_header \<Rightarrow> http_header" where
  "add_header k v h = AList.update k (case map_of h k of Some vs \<Rightarrow> vs @ [v] | None \<Rightarrow> [v]) h"

definition WriteHeader :: "int \<Rightarrow> writer \<Rightarrow> writer" where
  "WriteHeader st w = (case rw_sent w of None \<Rightarrow> w\<lparr>rw_sent := Some (st, rw_header w)\<rparr> | Some x \<Rightarrow> w)"

definition Write :: "string \<Rightarrow> writer \<Rightarrow> writer" where
  "Write s w = (let w1 = WriteHeader 200 w in w1\<lparr>rw_body := rw_body w1 @ s\<rparr>)"

lemma WriteHeader_simps [simp]:
  "rw_body (WriteHeader st w) = rw_body w" "rw_header (WriteHeader st w) = rw_header w"
  "rw_sent (WriteHeader st w) = (case rw_sent w of None \<Rightarrow> Some (st, rw_header w) | Some x \<Rightarrow> Some x)"
  by (simp_all add: WriteHeader_def split: option.splits)

lemma Write_simps [simp]:
  "rw_body (Write s w) = rw_body w @ s" "rw_header (Write s w) = rw_header w"
  "rw_sent (Write s w) = (case rw_sent w of None \<Rightarrow> Some (200, rw_header w) | Some x \<Rightarrow> Some x)"
  by (simp_all add: Write_def Let_def)

section \<open>Handler errors\<close>

record handler_error =
  he_Err :: "err option"
  he_StatusCode :: int
  he_Message :: string
  he_Type :: string
  he_Param :: "string option"
  he_Code :: string
  he_Header :: http_header

definition NewHandlerError :: "err option \<Rightarrow> int \<Rightarrow> string \<Rightarrow> string \<Rightarrow> string \<Rightarrow> handler_error" where
  "NewHandlerError e status msg errorType code = \<lparr>he_Err = e, he_StatusCode = status, he_Message = msg,
     he_Type = errorType, he_Param = None, he_Code = code, he_Header = []\<rparr>"

text \<open>The selector of \<open>errors.As\<close> for a \<open>*HandlerError\<close>.\<close>

definition as_handler_error :: "err \<Rightarrow> handler_error option" where
  "as_handler_error e =
     (case e of Handler er status msg ty param code h \<Rightarrow>
        Some \<lparr>he_Err = er, he_StatusCode = status, he_Message = msg, he_Type = ty, he_Param = param, he_Code = code, he_Header = h\<rparr>
      | _ \<Rightarrow> None)"

definition AddHeader :: "string \<Rightarrow> string \<Rightarrow> handler_error \<Rightarrow> handler_error" where
  "AddHeader k v e = e\<lparr>he_Header := add_header k v (he_Header e)\<rparr>"

definition normalizeErrorStatus :: "int \<Rightarrow> int" where
  "normalizeErrorStatus status = (if status < 400 \<or> 599 < status then 500 else status)"

text \<open>\<open>http.StatusText\<close> of the error codes.\<close>

definition StatusText :: "int \<Rightarrow> string" where
  "StatusText status = (case map_of
     [(400, ''Bad Request''), (401, ''Unauthorized''), (402, ''Payment Required''), (403, ''Forbidden''),
      (404, ''Not Found''), (405, ''Method Not Allowed''), (406, ''Not Acceptable''),
      (407, ''Proxy Authentication Required''), (408, ''Request Timeout''), (409, ''Conflict''), (410, ''Gone''),
      (411, ''Length Required''), (412, ''Precondition Failed''), (413, ''Request Entity Too Large''),
      (414, ''Request URI Too Long''), (415, ''Unsupported Media Type''), (416, ''Requested Range Not Satisfiable''),
      (417, ''Expectation Failed''), (418, ''I'' @ [CHR 0x27] @ ''m a teapot''), (421, ''Misdirected Request''),
      (422, ''Unprocessable Entity''), (423, ''Locked''), (424, ''Failed Dependency''), (425, ''Too Early''),
      (426, ''Upgrade Required''), (428, ''Precondition Required''), (429, ''Too Many Requests''),
      (431, ''Request Header Fields Too Large''), (451, ''Unavailable For Legal Reasons''),
      (500, ''Internal Server Error''), (501, ''Not Implemented''), (502, ''Bad Gateway''),
      (503, ''Service Unavailable''), (504, ''Gateway Timeout''), (505, ''HTTP Version Not Supported''),
      (506, ''Variant Also Negotiates''), (507, ''Insufficient Storage''), (508, ''Loop Detected''),
      (510, ''Not Extended''), (511, ''Network Authentication Required'')] status of
      Some t \<Rightarrow> t | None \<Rightarrow> '''')"

definition normalizeErrorMessage :: "string \<Rightarrow> int \<Rightarrow> string" where
  "normalizeErrorMessage message status =
     (if TrimSpace message \<noteq> '''' then message
      else if status = 499 then ''Client Closed Request''
      else if StatusText status \<noteq> '''' then StatusText status
      else ''Internal Server Error'')"

definition openAIErrorType :: "int \<Rightarrow> string" where
  "openAIErrorType status =
     (if status = 401 then ''authentication_error''
      else if status = 402 then ''insufficient_quota''
      else if status = 403 then ''permission_denied_error''
      else if status = 404 then ''not_found_error''
      else if status = 409 then ''conflict_error''
      else if status = 429 then ''rate_limit_error''
      else if status = 499 then ''client_closed_request''
      else if 500 \<le> status then ''server_error''
      else ''invalid_request_error'')"

definition openAIErrorCode :: "int \<Rightarrow> string" where
  "openAIErrorCode status =
     (if status = 401 then ''authentication_required''
      else if status = 402 then ''insufficient_quota''
      else if status = 403 then ''permission_denied''
      else if status = 404 then ''not_found''
      else if status = 409 then ''conflict''
      else if status = 413 then ''request_too_large''
      else if status = 422 then ''unprocessable_entity''
      else if status = 429 then ''rate_limit_exceeded''
      else if status = 499 then ''client_closed_request''
      else if status = 503 then ''service_unavailable''
      else if 500 \<le> status then ''gateway_internal_error''
      else ''invalid_request'')"

definition claudeErrorType :: "int \<Rightarrow> string" where
  "claudeErrorType status =
     (if status = 401 then ''authentication_error''
      else if status = 402 then ''billing_error''
      else if status = 403 then ''permission_error''
      else if status = 404 then ''not_found_error''
      else if status = 413 then ''request_too_large''
      else if status = 429 then ''rate_limit_error''
      else if status = 504 then ''gateway_timeout''
      else if status = 529 then ''overloaded_error''
      else if 500 \<le> status then ''api_error''
      else ''invalid_request_error'')"

section \<open>Middlewares\<close>

definition copy_all :: "http_header \<Rightarrow> http_header \<Rightarrow> http_header" where
  "copy_all from h = fold (\<lambda>(k, vs) h. fold (\<lambda>v h. add_header k v h) vs h) from h"

definition writeHandlerError :: "handler_error \<Rightarrow> int \<Rightarrow> string \<Rightarrow> string \<Rightarrow> writer \<Rightarrow> writer" where
  "writeHandlerError e status body contentType w =
     (let header = AList.delete ''Content-Length'' (set_header ''Content-Type'' contentType (he_Header e))
      in Write body (WriteHeader status (w\<lparr>rw_header := copy_all header (rw_header w)\<rparr>)))"

definition openai_body :: "string \<Rightarrow> string \<Rightarrow> string option \<Rightarrow> string \<Rightarrow> string" where
  "openai_body message errorType param code =
     ''{'' @ json_field ''error'' (''{'' @ json_field ''message'' (json_string message) @ '','' @
        json_field ''type'' (json_string errorType) @ '','' @
        json_field ''param'' (case param of None \<Rightarrow> ''null'' | Some p \<Rightarrow> json_string p) @ '','' @
        json_field ''code'' (json_string code) @ ''}'') @ ''}''"

definition claude_body :: "string \<Rightarrow> string \<Rightarrow> string" where
  "claude_body errorType message =
     ''{'' @ json_field ''type'' (json_string ''error'') @ '','' @
        json_field ''error'' (''{'' @ json_field ''type'' (json_string errorType) @ '','' @
          json_field ''message'' (json_string message) @ ''}'') @ ''}''"

text \<open>A middleware's work after the handler: \<open>None\<close> when the context holds no error.\<close>

definition default_to :: "string \<Rightarrow> string \<Rightarrow> string" where
  "default_to s d = (if TrimSpace s = '''' then d else TrimSpace s)"

definition OpenAIErrorMiddleware :: "handler_error option \<Rightarrow> writer \<Rightarrow> writer" where
  "OpenAIErrorMiddleware err w =
     (case err of
        None \<Rightarrow> w
      | Some e \<Rightarrow>
          let status = normalizeErrorStatus (he_StatusCode e);
              message = normalizeErrorMessage (he_Message e) status;
              errorType = default_to (he_Type e) (openAIErrorType status);
              code = default_to (he_Code e) (openAIErrorCode status)
          in writeHandlerError e status (openai_body message errorType (he_Param e) code) ''application/json'' w)"

definition ClaudeErrorMiddleware :: "handler_error option \<Rightarrow> writer \<Rightarrow> writer" where
  "ClaudeErrorMiddleware err w =
     (case err of
        None \<Rightarrow> w
      | Some e \<Rightarrow>
          let status = normalizeErrorStatus (he_StatusCode e);
              message = normalizeErrorMessage (he_Message e) status;
              errorType = default_to (he_Type e) (claudeErrorType status)
          in writeHandlerError e status (claude_body errorType message) ''application/json'' w)"

text \<open>\<open>json.Valid\<close> of the standard library is a parameter here: it only picks the content type.\<close>

definition DefaultErrorMiddleware :: "(string \<Rightarrow> bool) \<Rightarrow> handler_error option \<Rightarrow> writer \<Rightarrow> writer" where
  "DefaultErrorMiddleware json_valid err w =
     (case err of
        None \<Rightarrow> w
      | Some e \<Rightarrow>
          let status = normalizeErrorStatus (he_StatusCode e);
              message = normalizeErrorMessage (he_Message e) status
          in writeHandlerError e status message (if json_valid message then ''application/json'' else ''text/plain'') w)"

section \<open>What the client can rely on\<close>

lemma normalizeErrorStatus_bounds: "400 \<le> normalizeErrorStatus s \<and> normalizeErrorStatus s \<le> 599"
  by (simp add: normalizeErrorStatus_def)

lemma TrimSpace_Nil [simp]: "TrimSpace '''' = ''''"
  by (simp add: TrimSpace_def)

lemma default_to_nonempty: "d \<noteq> '''' \<Longrightarrow> default_to s d \<noteq> ''''"
  by (simp add: default_to_def)

lemma normalizeErrorMessage_nonempty: "normalizeErrorMessage m s \<noteq> ''''"
  by (auto simp: normalizeErrorMessage_def)

lemma error_names_nonempty: "openAIErrorType s \<noteq> ''''" "openAIErrorCode s \<noteq> ''''" "claudeErrorType s \<noteq> ''''"
  by (simp_all add: openAIErrorType_def openAIErrorCode_def claudeErrorType_def)

end
