(* ===== verification/SseClient.thy ===== *)
theory SseClient
  imports ErrorMiddleware
begin

text \<open>
  \<open>pkg/engines/client/http.go\<close> and \<open>scanner.go\<close>: the endpoint that calls the upstream, and its
  reader of server-sent events. The HTTP client (\<open>client.Do\<close>) is a parameter. Streams in JSON array
  form are left to \<open>encoding/json\<close>'s decoder and not modelled.
\<close>

section \<open>Stream chunks\<close>

text \<open>The metadata of a chunk may hold \<open>event\<close> and \<open>id\<close>; the nil map is \<open>[]\<close>.\<close>

record 'v stream_chunk =
  ch_Metadata :: "(string \<times> string) list"
  ch_Body :: "'v body"

section \<open>Lines\<close>

abbreviation LF :: char where "LF \<equiv> CHR 0x0A"
abbreviation CR :: char where "CR \<equiv> CHR 0x0D"

definition drop_CR :: "string \<Rightarrow> string" where
  "drop_CR l = (if l \<noteq> [] \<and> last l = CR then butlast l else l)"

text \<open>\<open>bufio.ScanLines\<close> under a token limit: a line that does not fit with its line break ends the
  scan with an error (\<open>False\<close>).\<close>

fun scan_lines :: "nat \<Rightarrow> string \<Rightarrow> string \<Rightarrow> string list \<times> bool" where
  "scan_lines limit cur [] = (if cur = [] then ([], True) else if limit \<le> length cur then ([], False) else ([drop_CR cur], True))"
| "scan_lines limit cur (c # cs) =
     (if limit \<le> length cur then ([], False)
      else if c = LF then (let (ls, ok) = scan_lines limit [] cs in (drop_CR cur # ls, ok))
      else scan_lines limit (cur @ [c]) cs)"

text \<open>\<open>newScanner\<close>: the buffer of 4096 bytes is there whatever the configured maximum.\<close>

definition scanner_limit :: "nat \<Rightarrow> nat" where
  "scanner_limit scannerMaxTokenSize = max 4096 scannerMaxTokenSize"

definition SetScannerMaxTokenSize :: "int \<Rightarrow> nat \<Rightarrow> nat" where
  "SetScannerMaxTokenSize n old = (if n \<le> 0 then old else nat n)"

section \<open>Events\<close>

text \<open>The index of the first colon splits a line into its key and the rest; without a colon the
  rest is the whole line, as in the code.\<close>

definition line_key :: "string \<Rightarrow> string" where
  "line_key line = takeWhile (\<lambda>c. c \<noteq> CHR '':'') line"

definition line_rest :: "string \<Rightarrow> string" where
  "line_rest line = (if CHR '':'' \<in> set line then tl (dropWhile (\<lambda>c. c \<noteq> CHR '':'') line) else line)"

definition trim_spaces :: "string \<Rightarrow> string" where
  "trim_spaces s = dropWhile (\<lambda>c. c = CHR '' '') s"

text \<open>One turn of the loop: the buffers after the line, and the chunk dispatched by an empty line.\<close>

definition sse_line :: "string \<Rightarrow> (string \<times> string) list \<times> string
    \<Rightarrow> ((string \<times> string) list \<times> string) option \<times> (string \<times> string) list \<times> string" where
  "sse_line line st =
     (let (metaBuffer, bodyBuffer) = st
      in if line = [] then (if bodyBuffer = [] then (None, [], []) else (Some (metaBuffer, bodyBuffer), [], []))
         else if hd line = CHR '':'' then (None, st)
         else if line_key line = ''data'' then (None, metaBuffer, bodyBuffer @ trim_spaces (line_rest line))
         else if line_key line \<in> {''event'', ''id''}
         then (None, AList.update (line_key line) (trim_spaces (line_rest line)) metaBuffer, bodyBuffer)
         else (None, st))"

text \<open>The loop over the lines; the request's context may be done before the \<open>i\<close>-th line.\<close>

fun sse_loop :: "(nat \<Rightarrow> bool) \<Rightarrow> nat \<Rightarrow> string list \<Rightarrow> (string \<times> string) list \<times> string
    \<Rightarrow> ((string \<times> string) list \<times> string) list" where
  "sse_loop done i [] st = []"
| "sse_loop done i (line # lines) st =
     (if done i then []
      else let (ev, st1) = sse_line line st
           in case ev of
                None \<Rightarrow> sse_loop done (Suc i) lines st1
              | Some e \<Rightarrow> e # sse_loop done (Suc i) lines st1)"

definition processSSEStream ::
  "nat \<Rightarrow> (nat \<Rightarrow> bool) \<Rightarrow> 'v parser \<Rightarrow> string \<Rightarrow> 'v stream_chunk list \<times> bool" where
  "processSSEStream maxTokenSize done p s =
     (let (lines, ok) = scan_lines (scanner_limit maxTokenSize) [] s
      in (map (\<lambda>(md, b). \<lparr>ch_Metadata = md, ch_Body = NewBodyFromBytes (Some b) (Some p)\<rparr>)
            (sse_loop done 0 lines ([], '''')), ok))"

section \<open>The endpoint\<close>

record http_reply =
  hp_status :: int
  hp_header :: http_header
  hp_body :: reader

record ('rq, 'v) http_endpoint =
  ep_getURL :: "('rq \<Rightarrow> err + string) option"
  ep_reqModifiers :: "('rq \<Rightarrow> http_header \<Rightarrow> http_header) list"
  ep_nonstreamParser :: "'rq \<Rightarrow> 'v parser"
  ep_streamParser :: "'rq \<Rightarrow> 'v parser \<times> string"

datatype 'v endpoint_response =
    NonStream int http_header "'v body"
  | SSEStream int http_header "'v parser" reader
  | JSONStream int http_header "'v parser" reader

definition header_get :: "string \<Rightarrow> http_header \<Rightarrow> string" where
  "header_get k h = (case map_of h k of Some (v # _) \<Rightarrow> v | _ \<Rightarrow> '''')"

text \<open>\<open>mime.ParseMediaType\<close> is a parameter; when it fails the prefix decides.\<close>

definition is_event_stream :: "(string \<Rightarrow> err + string) \<Rightarrow> string \<Rightarrow> bool" where
  "is_event_stream ParseMediaType ct =
     (case ParseMediaType ct of
        Inr mt \<Rightarrow> map to_lower mt = ''text/event-stream''
      | Inl e \<Rightarrow> take 17 (map to_lower ct) = ''text/event-stream'')"

definition endpoint_headers ::
  "('rq, 'v) http_endpoint \<Rightarrow> 'rq \<Rightarrow> http_header \<Rightarrow> string \<Rightarrow> http_header" where
  "endpoint_headers e req h uuid =
     (let h1 = fold (\<lambda>m h. m req h) (ep_reqModifiers e) h;
          h2 = (if header_get ''Content-Type'' h1 = '''' then set_header ''Content-Type'' ''application/json'' h1 else h1)
      in set_header ''X-Idempotency-Key'' uuid h2)"

text \<open>The reply of the upstream: anything but 200 is an error carrying its status, headers and body.\<close>

definition endpoint_reply ::
  "(string \<Rightarrow> err + string) \<Rightarrow> ('rq, 'v) http_endpoint \<Rightarrow> ctx \<Rightarrow> 'rq \<Rightarrow> http_reply \<Rightarrow> err + 'v endpoint_response" where
  "endpoint_reply ParseMediaType e c req r =
     (if hp_status r \<noteq> 200
      then (case ReadAll (hp_body r) of
              Inl er \<Rightarrow> Inl (UpstreamHTTP (Wrap ''read response body error'' [er]) (hp_status r))
            | Inr s \<Rightarrow> Inl (UpstreamResp (hp_status r) (hp_header r) s))
      else
        let isStream = (case c ContextKeyAction of
                          Some (CtxStr action) \<Rightarrow> IsStreamAction action
                        | _ \<Rightarrow> is_event_stream ParseMediaType (header_get ''Content-Type'' (hp_header r)))
        in if \<not> isStream
           then Inr (NonStream (hp_status r) (hp_header r)
                  (SetParser (Some (ep_nonstreamParser e req)) (NewBodyFromReader (hp_body r) None)))
           else let (p, ty) = ep_streamParser e req
                in if ty = ''sse'' then Inr (SSEStream (hp_status r) (hp_header r) p (hp_body r))
                   else if ty = ''json'' then Inr (JSONStream (hp_status r) (hp_header r) p (hp_body r))
                   else Inl (Plain ''unsupported streaming type''))"

text \<open>\<open>Process\<close>: \<open>do\<close> sends the request with its URL, headers and body.\<close>

definition endpoint_process ::
  "(string \<Rightarrow> err + string) \<Rightarrow> (string \<Rightarrow> http_header \<Rightarrow> string \<Rightarrow> err + http_reply) \<Rightarrow> string
    \<Rightarrow> ('rq, 'v) http_endpoint \<Rightarrow> ctx \<Rightarrow> 'rq \<Rightarrow> http_header \<Rightarrow> 'b body
    \<Rightarrow> (err + 'v endpoint_response) outcome \<times> 'b body" where
  "endpoint_process ParseMediaType do uuid e c req h b =
     (case ep_getURL e of
        None \<Rightarrow> (Returned (Inl (Plain ''getURL is not set'')), b)
      | Some getURL \<Rightarrow>
          (case getURL req of
             Inl er \<Rightarrow> (Returned (Inl (Wrap ''getURL error'' [er])), b)
           | Inr url \<Rightarrow>
               (case Parsed b of
                  (Panicked, b1) \<Rightarrow> (Panicked, b1)
                | (Returned (v, Some er), b1) \<Rightarrow> (Returned (Inl (Wrap ''parse request body error'' [er])), b1)
                | (Returned (v, None), b1) \<Rightarrow>
                    (case Bytes b1 of
                       (Panicked, b2) \<Rightarrow> (Panicked, b2)
                     | (Returned (Inl er), b2) \<Rightarrow> (Returned (Inl (Wrap ''get request body reader error'' [er])), b2)
                     | (Returned (Inr s), b2) \<Rightarrow>
                         (case do url (endpoint_headers e req h uuid) s of
                            Inl er \<Rightarrow> (Returned (Inl (UpstreamHTTP (Wrap ''do request error'' [er]) 0)), b2)
                          | Inr r \<Rightarrow> (Returned (endpoint_reply ParseMediaType e c req r), b2))))))"

end
