(* ===== verification/HttpHandler.thy ===== *)
theory HttpHandler
  imports SseClient
begin

text \<open>
  \<open>pkg/octollm/handler.go\<close>: the HTTP handlers of the gateway. A handler runs the engine on the
  request, writes the response and leaves a \<open>HandlerError\<close> in the request's context, which the
  middleware around it turns into a response. A panic is \<open>Panicked\<close>; the server then drops the
  connection.
\<close>

section \<open>Responses\<close>

record 'v stream_chan =
  st_chunks :: "'v stream_chunk list"
  st_close :: "close_action list"

record 'v http_response =
  hr_StatusCode :: int
  hr_Header :: http_header
  hr_Body :: "'v body option"
  hr_Stream :: "'v stream_chan option"

text \<open>An engine gets the request, and may signal whether the response is a stream.\<close>

type_synonym ('x, 'v) http_engine = "'x stream_request \<Rightarrow> 'v http_response go_result \<times> bool option"

text \<open>What a handler leaves behind: the response written, the error in the context and the close
  callbacks that ran.\<close>

type_synonym handled = "(writer \<times> handler_error option \<times> close_action list) outcome"

text \<open>\<open>w.Header().Set(k, v[0])\<close> for every header but the content length.\<close>

fun copy_first :: "http_header \<Rightarrow> http_header \<Rightarrow> http_header outcome" where
  "copy_first [] h = Returned h"
| "copy_first ((k, vs) # rest) h =
     (if k = ''Content-Length'' then copy_first rest h
      else case vs of [] \<Rightarrow> Panicked | v # _ \<Rightarrow> copy_first rest (set_header k v h))"

section \<open>Keep-alive\<close>

definition heartbeat_interval :: "int option \<Rightarrow> int" where
  "heartbeat_interval env = (case env of Some n \<Rightarrow> if n = 0 then 30 else n | None \<Rightarrow> 30)"

text \<open>The goroutine: \<open>beats\<close> ticks fire before the engine returns, after it has signalled that the
  response is no stream.\<close>

fun heartbeats :: "nat \<Rightarrow> writer \<Rightarrow> writer" where
  "heartbeats 0 w = w"
| "heartbeats (Suc n) w = heartbeats n (Write [LF] w)"

definition keep_alive :: "bool \<Rightarrow> int option \<Rightarrow> bool option \<Rightarrow> nat \<Rightarrow> writer \<Rightarrow> writer" where
  "keep_alive flusher env signal beats w =
     (if flusher \<and> 0 < heartbeat_interval env \<and> signal = Some False \<and> 0 < beats
      then heartbeats beats (WriteHeader 200 (w\<lparr>rw_header := set_header ''Content-Type'' ''application/json'' (rw_header w)\<rparr>))
      else w)"

section \<open>Errors\<close>

definition as_upstream :: "err \<Rightarrow> (int \<times> http_header \<times> string) option" where
  "as_upstream e = (case e of UpstreamResp st h b \<Rightarrow> Some (st, h, b) | _ \<Rightarrow> None)"

definition internal_error :: "err \<Rightarrow> handler_error" where
  "internal_error e = NewHandlerError (Some e) 500 ''Internal Server Error'' ''server_error'' ''gateway_internal_error''"

definition client_closed :: "err \<Rightarrow> handler_error" where
  "client_closed e = NewHandlerError (Some e) 499 ''Client Closed Request'' ''client_closed_request'' ''client_closed_request''"

definition engine_error :: "bool \<Rightarrow> err \<Rightarrow> writer \<Rightarrow> handled" where
  "engine_error checkCanceled e w =
     (case errors_as as_upstream e of
        Some (st, h, b) \<Rightarrow>
          (case copy_first h (rw_header w) of
             Panicked \<Rightarrow> Panicked
           | Returned h' \<Rightarrow> Returned (Write b (WriteHeader st (w\<lparr>rw_header := h'\<rparr>)), None, []))
      | None \<Rightarrow>
          (case errors_as as_handler_error e of
             Some he \<Rightarrow> Returned (w, Some he, [])
           | None \<Rightarrow>
               if checkCanceled \<and> errors_is e ''context.Canceled'' then Returned (w, Some (client_closed e), [])
               else Returned (w, Some (internal_error e), [])))"

section \<open>Writing a response\<close>

definition sse_frame :: "(string \<times> string) list \<Rightarrow> string \<Rightarrow> string" where
  "sse_frame md b =
     (case map_of md ''event'' of Some e \<Rightarrow> ''event: '' @ e @ [LF] | None \<Rightarrow> '''') @
     (case map_of md ''id'' of Some i \<Rightarrow> ''id: '' @ i @ [LF] | None \<Rightarrow> '''') @
     ''data: '' @ b @ [LF, LF]"

fun write_sse :: "'v stream_chunk list \<Rightarrow> writer \<Rightarrow> (writer \<times> handler_error option) outcome" where
  "write_sse [] w = Returned (w, None)"
| "write_sse (c # cs) w =
     (case fst (Bytes (ch_Body c)) of
        Panicked \<Rightarrow> Panicked
      | Returned (Inl e) \<Rightarrow> Returned (w, Some (internal_error e))
      | Returned (Inr b) \<Rightarrow> write_sse cs (Write (sse_frame (ch_Metadata c) b) w))"

fun write_array :: "bool \<Rightarrow> 'v stream_chunk list \<Rightarrow> writer \<Rightarrow> (writer \<times> handler_error option) outcome" where
  "write_array firstChunk [] w = Returned (Write '']'' w, None)"
| "write_array firstChunk (c # cs) w =
     (case fst (Bytes (ch_Body c)) of
        Panicked \<Rightarrow> Panicked
      | Returned (Inl e) \<Rightarrow> Returned (w, Some (internal_error e))
      | Returned (Inr b) \<Rightarrow> write_array False cs (Write ((if firstChunk then '''' else [CHR '','', LF]) @ b) w))"

text \<open>A body: \<open>io.Copy\<close> writes what can be read; its error is dropped.\<close>

definition write_body :: "'v body \<Rightarrow> writer \<Rightarrow> handled" where
  "write_body b w =
     (case Reader b of
        (Panicked, b1) \<Rightarrow> Panicked
      | (Returned (Inl e), b1) \<Rightarrow> Returned (w, Some (internal_error e), fst (CloseBody b1))
      | (Returned (Inr r), b1) \<Rightarrow>
          Returned (case ReadAll r of Inr s \<Rightarrow> Write s w | Inl e \<Rightarrow> w, None, fst (CloseBody b1)))"

definition write_response ::
  "('v stream_chunk list \<Rightarrow> writer \<Rightarrow> (writer \<times> handler_error option) outcome)
    \<Rightarrow> 'v http_response \<Rightarrow> writer \<Rightarrow> handled" where
  "write_response write_stream resp w =
     (case copy_first (hr_Header resp) (rw_header w) of
        Panicked \<Rightarrow> Panicked
      | Returned h \<Rightarrow>
          let w1 = WriteHeader 200 (w\<lparr>rw_header := h\<rparr>)
          in case hr_Stream resp of
               Some st \<Rightarrow>
                 (case write_stream (st_chunks st) w1 of
                    Panicked \<Rightarrow> Panicked
                  | Returned (w2, e) \<Rightarrow> Returned (w2, e, st_close st))
             | None \<Rightarrow>
                 (case hr_Body resp of Some b \<Rightarrow> write_body b w1 | None \<Rightarrow> Returned (w1, None, [])))"

section \<open>Handlers\<close>

record server_env =
  is_flusher :: bool
  heartbeat_env :: "int option"
  ticks :: nat
  json_valid :: "string \<Rightarrow> bool"

definition ContextKeyReceivedHeader :: ctx_key where "ContextKeyReceivedHeader = CoreKey ''received_header''"
definition ContextKeyStreamSignaler :: ctx_key where "ContextKeyStreamSignaler = CoreKey ''stream_signaler''"
definition ContextKeyIsSSE :: ctx_key where "ContextKeyIsSSE = CoreKey ''is_sse''"
definition ContextKeyModelName :: ctx_key where "ContextKeyModelName = CoreKey ''model_name''"

definition NewRequest :: "ctx \<Rightarrow> reader \<Rightarrow> 'x stream_request" where
  "NewRequest c r = \<lparr>req_ctx = c, rq_body = Some (NewBodyFromReader r None)\<rparr>"

definition with_parser :: "'x request_value parser \<Rightarrow> 'x stream_request \<Rightarrow> 'x stream_request" where
  "with_parser p u = u\<lparr>rq_body := map_option (SetParser (Some p)) (rq_body u)\<rparr>"

definition handler_request :: "'x request_value parser \<Rightarrow> ctx \<Rightarrow> reader \<Rightarrow> 'x stream_request" where
  "handler_request p c r =
     with_parser p (NewRequest (with_value (with_value c ContextKeyReceivedHeader CtxOther) ContextKeyStreamSignaler CtxOther) r)"

definition httpSSEHandler ::
  "server_env \<Rightarrow> ('x, 'v) http_engine \<Rightarrow> 'x request_value parser \<Rightarrow> ctx \<Rightarrow> reader \<Rightarrow> writer \<Rightarrow> handled" where
  "httpSSEHandler env engine p c r w =
     (let ((resp, err), signal) = engine (handler_request p c r);
          w1 = keep_alive (is_flusher env) (heartbeat_env env) signal (ticks env) w
      in case err of
           Some e \<Rightarrow> engine_error True e w1
         | None \<Rightarrow> (case resp of None \<Rightarrow> Panicked | Some rs \<Rightarrow> write_response write_sse rs w1))"

definition httpJSONArrayHandler ::
  "('x, 'v) http_engine \<Rightarrow> 'x request_value parser \<Rightarrow> ctx \<Rightarrow> reader \<Rightarrow> writer \<Rightarrow> handled" where
  "httpJSONArrayHandler engine p c r w =
     (let c1 = with_value c ContextKeyReceivedHeader CtxOther;
          ((resp, err), signal) = engine (with_parser p (NewRequest c1 r))
      in case err of
           Some e \<Rightarrow> engine_error False e w
         | None \<Rightarrow> (case resp of None \<Rightarrow> Panicked
             | Some rs \<Rightarrow> write_response (\<lambda>cs w. write_array True cs (Write ''['' w)) rs w))"

definition after :: "(handler_error option \<Rightarrow> writer \<Rightarrow> writer) \<Rightarrow> handled \<Rightarrow> (writer \<times> close_action list) outcome" where
  "after middleware r =
     (case r of Panicked \<Rightarrow> Panicked | Returned (w, e, cls) \<Rightarrow> Returned (middleware e w, cls))"

definition ChatCompletionsHandler where
  "ChatCompletionsHandler env engine p c r w = after OpenAIErrorMiddleware (httpSSEHandler env engine p c r w)"

definition CompletionsHandler where
  "CompletionsHandler env engine p c r w = after OpenAIErrorMiddleware (httpSSEHandler env engine p c r w)"

definition MessagesHandler where
  "MessagesHandler env engine p c r w = after ClaudeErrorMiddleware (httpSSEHandler env engine p c r w)"

definition EmbeddingsHandler where
  "EmbeddingsHandler env engine p c r w = after OpenAIErrorMiddleware (httpSSEHandler env engine p c r w)"

definition RerankHandler where
  "RerankHandler env engine p c r w = after (DefaultErrorMiddleware (json_valid env)) (httpSSEHandler env engine p c r w)"

definition ResponsesHandler where
  "ResponsesHandler env engine p c r w = after OpenAIErrorMiddleware (httpSSEHandler env engine p c r w)"

section \<open>Vertex\<close>

definition last_index :: "string \<Rightarrow> string \<Rightarrow> nat option" where
  "last_index s sub =
     (case filter (\<lambda>i. take (length sub) (drop i s) = sub) [0..<Suc (length s)] of
        [] \<Rightarrow> None | is \<Rightarrow> Some (last is))"

definition extractVertexModelFromURL :: "string \<Rightarrow> string \<times> string" where
  "extractVertexModelFromURL path =
     (case last_index path ''/models/'' of
        None \<Rightarrow> ('''', '''')
      | Some i \<Rightarrow>
          let afterModels = drop (i + 8) path
          in if CHR '':'' \<notin> set afterModels then ('''', '''')
             else (takeWhile (\<lambda>c. c \<noteq> CHR '':'') afterModels, tl (dropWhile (\<lambda>c. c \<noteq> CHR '':'') afterModels)))"

definition VertexAIHandler ::
  "server_env \<Rightarrow> ('x, 'v) http_engine \<Rightarrow> 'x request_value parser \<Rightarrow> ctx \<Rightarrow> string \<Rightarrow> string \<Rightarrow> reader \<Rightarrow> writer
    \<Rightarrow> (writer \<times> close_action list) outcome" where
  "VertexAIHandler env engine p c path alt r w =
     (let (modelName, action) = extractVertexModelFromURL path;
          isSSE = (IsStreamAction action \<and> alt = ''sse'');
          c1 = (if isSSE then with_value c ContextKeyIsSSE (CtxBool True) else c);
          c2 = with_value (with_value c1 ContextKeyModelName (CtxStr modelName)) ContextKeyAction (CtxStr action)
      in after (DefaultErrorMiddleware (json_valid env))
           (if IsStreamAction action \<and> \<not> isSSE then httpJSONArrayHandler engine p c2 r w
            else httpSSEHandler env engine p c2 r w))"

section \<open>Lemmas on events\<close>

text \<open>Text that survives a line of an event.\<close>

definition plain :: "string \<Rightarrow> bool" where
  "plain s \<longleftrightarrow> LF \<notin> set s \<and> (s \<noteq> [] \<longrightarrow> hd s \<noteq> CHR '' '' \<and> last s \<noteq> CR)"

lemma scan_lines_append:
  "LF \<notin> set l \<Longrightarrow> length (cur @ l) < limit \<Longrightarrow>
   scan_lines limit cur (l @ LF # s) = (drop_CR (cur @ l) # fst (scan_lines limit [] s), snd (scan_lines limit [] s))"
proof (induction l arbitrary: cur)
  case Nil
  then show ?case by (simp add: case_prod_beta Let_def)
next
  case (Cons c l)
  then show ?case by auto
qed

lemma scan_lines_last:
  "LF \<notin> set l \<Longrightarrow> cur @ l \<noteq> [] \<Longrightarrow> length (cur @ l) < limit \<Longrightarrow> scan_lines limit cur l = ([drop_CR (cur @ l)], True)"
proof (induction l arbitrary: cur)
  case Nil
  then show ?case by simp
next
  case (Cons c l)
  then show ?case by auto
qed

lemma drop_CR_plain: "plain s \<Longrightarrow> last k \<noteq> CR \<Longrightarrow> drop_CR (k @ s) = k @ s"
  by (cases "s = []") (auto simp: drop_CR_def plain_def)

lemma trim_plain: "plain s \<Longrightarrow> trim_spaces (CHR '' '' # s) = s"
  by (cases s) (auto simp: trim_spaces_def plain_def)

lemma sse_line_event: "plain e \<Longrightarrow> sse_line (''event: '' @ e) (md, b) = (None, AList.update ''event'' e md, b)"
  using trim_plain by (auto simp: sse_line_def line_key_def line_rest_def)

lemma sse_line_id: "plain e \<Longrightarrow> sse_line (''id: '' @ e) (md, b) = (None, AList.update ''id'' e md, b)"
  using trim_plain by (auto simp: sse_line_def line_key_def line_rest_def)

lemma sse_line_data: "plain e \<Longrightarrow> sse_line (''data: '' @ e) (md, b) = (None, md, b @ e)"
  using trim_plain by (auto simp: sse_line_def line_key_def line_rest_def)

text \<open>A chunk that fits the events: its metadata is what the frame writes, its texts are plain and
  its lines fit the scanner.\<close>

definition frame_metadata :: "(string \<times> string) list \<Rightarrow> (string \<times> string) list" where
  "frame_metadata md =
     (case map_of md ''event'' of Some e \<Rightarrow> [(''event'', e)] | None \<Rightarrow> []) @
     (case map_of md ''id'' of Some i \<Rightarrow> [(''id'', i)] | None \<Rightarrow> [])"

definition fits :: "nat \<Rightarrow> (string \<times> string) list \<times> string \<Rightarrow> bool" where
  "fits limit ev = (let (md, b) = ev in b \<noteq> '''' \<and> plain b \<and> length b + 6 < limit \<and>
     list_all (\<lambda>(k, v). plain v \<and> length v + 7 < limit) (frame_metadata md))"

text \<open>The lines of a frame, and what they leave behind.\<close>

definition frame_lines :: "(string \<times> string) list \<Rightarrow> string \<Rightarrow> string list" where
  "frame_lines md b = map (\<lambda>(k, v). k @ '': '' @ v) (frame_metadata md) @ [''data: '' @ b, '''']"

lemma scan_frame:
  assumes "fits limit (md, b)"
  shows "scan_lines limit [] (sse_frame md b @ s) =
     (frame_lines md b @ fst (scan_lines limit [] s), snd (scan_lines limit [] s))"
proof -
  have line: "scan_lines limit [] (k @ v @ LF # t) = ((k @ v) # fst (scan_lines limit [] t), snd (scan_lines limit [] t))"
    if "plain v" "length v + 7 < limit" "k \<in> {''event: '', ''id: '', ''data: ''}" for k v t
  proof -
    have "LF \<notin> set (k @ v)" "length (k @ v) < limit" "last k \<noteq> CR" using that by (auto simp: plain_def)
    from scan_lines_append [of "k @ v" "[]" limit t] this drop_CR_plain [OF that(1) this(3)] show ?thesis by simp
  qed
  have data: "scan_lines limit [] (''data: '' @ b @ LF # t) = ((''data: '' @ b) # fst (scan_lines limit [] t), snd (scan_lines limit [] t))" for t
  proof -
    have "plain b" using assms by (simp add: fits_def)
    moreover from this have "LF \<notin> set (''data: '' @ b)" "length (''data: '' @ b) < limit" "last ''data: '' \<noteq> CR"
      using assms by (auto simp: plain_def fits_def)
    ultimately show ?thesis
      using scan_lines_append [of "''data: '' @ b" "[]" limit t] drop_CR_plain [of b "''data: ''"] by simp
  qed
  have "0 < limit" using assms by (auto simp: fits_def)
  then have empty: "scan_lines limit [] (LF # t) = ('''' # fst (scan_lines limit [] t), snd (scan_lines limit [] t))" for t
    by (simp add: case_prod_beta Let_def drop_CR_def)
  show ?thesis
    using assms line [of _ "''event: ''"] line [of _ "''id: ''"] data empty
    by (cases "map_of md ''event''"; cases "map_of md ''id''")
      (simp_all add: sse_frame_def frame_lines_def frame_metadata_def fits_def)
qed

lemma sse_loop_append_None:
  "sse_line l st = (None, st') \<Longrightarrow> sse_loop (\<lambda>_. False) i (l # ls) st = sse_loop (\<lambda>_. False) (Suc i) ls st'"
  by simp

lemma sse_loop_shift: "sse_loop (\<lambda>_. False) i ls st = sse_loop (\<lambda>_. False) j ls st"
  by (induction ls arbitrary: i j st) (auto split: prod.splits option.splits)

lemma sse_loop_frame:
  assumes "fits limit (md, b)"
  shows "sse_loop (\<lambda>_. False) i (frame_lines md b @ ls) ([], '''') =
     (frame_metadata md, b) # sse_loop (\<lambda>_. False) 0 ls ([], '''')"
proof -
  have p: "plain b" "b \<noteq> ''''" "\<forall>e. map_of md ''event'' = Some e \<longrightarrow> plain e" "\<forall>e. map_of md ''id'' = Some e \<longrightarrow> plain e"
    using assms by (auto simp: fits_def frame_metadata_def)
  have last: "sse_line '''' (m, b) = (Some (m, b), [], '''')" for m using p(2) by (simp add: sse_line_def)
  define E I D where "E = ''event: ''" and "I = ''id: ''" and "D = ''data: ''"
  have lines: "frame_lines md b = (case map_of md ''event'' of Some e \<Rightarrow> [E @ e] | None \<Rightarrow> []) @
      (case map_of md ''id'' of Some e \<Rightarrow> [I @ e] | None \<Rightarrow> []) @ [D @ b, '''']"
    by (simp add: frame_lines_def frame_metadata_def E_def I_def D_def split: option.splits)
  have step: "sse_loop (\<lambda>_. False) j (l # xs) st = sse_loop (\<lambda>_. False) (Suc j) xs st'"
    if "sse_line l st = (None, st')" for j l xs st st'
    using that by simp
  note E = step [OF sse_line_event, folded E_def] and I = step [OF sse_line_id, folded I_def]
    and D = step [OF sse_line_data, folded D_def]
  have dispatch: "sse_loop (\<lambda>_. False) j ('''' # xs) (m, b) = (m, b) # sse_loop (\<lambda>_. False) 0 xs ([], '''')" for j xs m
    using sse_loop_shift [of "Suc j" xs "([], '''')" 0] by (simp add: last)
  show ?thesis
    using p unfolding lines
    by (cases "map_of md ''event''"; cases "map_of md ''id''")
      (simp_all add: E I D dispatch frame_metadata_def del: sse_loop.simps)
qed

lemma scan_frames:
  "list_all (fits limit) evs \<Longrightarrow> scan_lines limit [] (concat (map (\<lambda>(md, b). sse_frame md b) evs) @ s) =
     (concat (map (\<lambda>(md, b). frame_lines md b) evs) @ fst (scan_lines limit [] s), snd (scan_lines limit [] s))"
  by (induction evs) (auto simp: scan_frame)

lemma sse_loop_frames:
  "list_all (fits limit) evs \<Longrightarrow> sse_loop (\<lambda>_. False) 0 (concat (map (\<lambda>(md, b). frame_lines md b) evs) @ ls) ([], '''') =
     map (\<lambda>(md, b). (frame_metadata md, b)) evs @ sse_loop (\<lambda>_. False) 0 ls ([], '''')"
  by (induction evs) (auto simp: sse_loop_frame)

text \<open>The events a stream of chunks carries.\<close>

definition carries :: "'v stream_chunk \<Rightarrow> (string \<times> string) list \<times> string \<Rightarrow> bool" where
  "carries c ev \<longleftrightarrow> ch_Metadata c = fst ev \<and> fst (Bytes (ch_Body c)) = Returned (Inr (snd ev))"

lemma write_sse_carries:
  "list_all2 carries cs evs \<Longrightarrow> rw_sent w = Some x \<Longrightarrow>
   write_sse (cs @ ds) w = write_sse ds (w\<lparr>rw_body := rw_body w @ concat (map (\<lambda>(md, b). sse_frame md b) evs)\<rparr>)"
proof (induction cs evs arbitrary: w rule: list_all2_induct)
  case Nil
  then show ?case by simp
next
  case (Cons c cs ev evs)
  have wr: "Write s w = w\<lparr>rw_body := rw_body w @ s\<rparr>" for s using Cons.prems by (simp add: Write_def WriteHeader_def)
  show ?case
    using Cons.hyps(1) Cons.IH [of "w\<lparr>rw_body := rw_body w @ sse_frame (fst ev) (snd ev)\<rparr>"] Cons.prems
    by (cases ev) (simp add: carries_def wr)
qed

lemma copy_first_total: "list_all (\<lambda>(k, vs). vs \<noteq> []) h \<Longrightarrow> \<exists>h'. copy_first h g = Returned h'"
  by (induction h g rule: copy_first.induct) (auto split: list.splits)

lemma keep_alive_off: "signal \<noteq> Some False \<or> n = 0 \<Longrightarrow> keep_alive f env signal n w = w"
  by (auto simp: keep_alive_def)

text \<open>The response of a stream up to its chunks.\<close>

lemma sse_handler_stream:
  assumes "engine (handler_request p c r) = ((Some resp, None), signal)" "signal \<noteq> Some False"
    and "list_all (\<lambda>(k, vs). vs \<noteq> []) (hr_Header resp)" "hr_Stream resp = Some st"
    and "st_chunks st = cs @ ds" "list_all2 carries cs evs"
  shows "\<exists>w. rw_body w = concat (map (\<lambda>(md, b). sse_frame md b) evs) \<and> (\<exists>h. rw_sent w = Some (200, h)) \<and>
    httpSSEHandler env engine p c r new_writer =
      (case write_sse ds w of Panicked \<Rightarrow> Panicked | Returned (w2, e) \<Rightarrow> Returned (w2, e, st_close st))"
proof -
  obtain h where h: "copy_first (hr_Header resp) (rw_header new_writer) = Returned h"
    using copy_first_total [OF assms(3)] by blast
  let ?w = "WriteHeader 200 (new_writer\<lparr>rw_header := h\<rparr>)"
  have sent: "rw_sent ?w = Some (200, h)" "rw_body ?w = ''''" by (simp_all add: new_writer_def)
  have "httpSSEHandler env engine p c r new_writer =
      (case write_sse (st_chunks st) ?w of Panicked \<Rightarrow> Panicked | Returned (w2, e) \<Rightarrow> Returned (w2, e, st_close st))"
    using assms(1,2,4) h by (simp add: httpSSEHandler_def keep_alive_off write_response_def)
  moreover have "write_sse (st_chunks st) ?w =
      write_sse ds (?w\<lparr>rw_body := concat (map (\<lambda>(md, b). sse_frame md b) evs)\<rparr>)"
    unfolding assms(5) using write_sse_carries [OF assms(6) sent(1), of ds] unfolding sent(2) by simp
  moreover have "rw_body (?w\<lparr>rw_body := concat (map (\<lambda>(md, b). sse_frame md b) evs)\<rparr>) = concat (map (\<lambda>(md, b). sse_frame md b) evs)"
    "rw_sent (?w\<lparr>rw_body := concat (map (\<lambda>(md, b). sse_frame md b) evs)\<rparr>) = Some (200, h)"
    using sent(1) by simp_all
  ultimately show ?thesis by (intro exI [of _ "?w\<lparr>rw_body := concat (map (\<lambda>(md, b). sse_frame md b) evs)\<rparr>"]) auto
qed

section \<open>Properties\<close>

text \<open>C16: Streams survive the wire. What \<open>ChatCompletionsHandler\<close> writes for a stream of chunks with
  plain text, the endpoint's reader turns back into the same chunks in the same order, with their
  event and id; the stream is closed and the status is 200.\<close>

theorem sse_roundtrip:
  assumes "engine (handler_request p c r) = ((Some resp, None), signal)" "signal \<noteq> Some False"
    and "list_all (\<lambda>(k, vs). vs \<noteq> []) (hr_Header resp)" "hr_Stream resp = Some st"
    and "list_all2 carries (st_chunks st) evs" "list_all (fits (scanner_limit maxToken)) evs"
  shows "\<exists>w h. ChatCompletionsHandler env engine p c r new_writer = Returned (w, st_close st) \<and> rw_sent w = Some (200, h) \<and>
    processSSEStream maxToken (\<lambda>_. False) q (rw_body w) =
      (map (\<lambda>(md, b). \<lparr>ch_Metadata = frame_metadata md, ch_Body = NewBodyFromBytes (Some b) (Some q)\<rparr>) evs, True)"
proof -
  obtain w h where w: "rw_body w = concat (map (\<lambda>(md, b). sse_frame md b) evs)" "rw_sent w = Some (200, h)"
    "httpSSEHandler env engine p c r new_writer =
      (case write_sse [] w of Panicked \<Rightarrow> Panicked | Returned (w2, e) \<Rightarrow> Returned (w2, e, st_close st))"
    using sse_handler_stream [where engine = engine and cs = "st_chunks st" and ds = "[]" and env = env, OF assms(1-4) _ assms(5)]
    by auto
  have "ChatCompletionsHandler env engine p c r new_writer = Returned (w, st_close st)"
    using w(3) by (simp add: ChatCompletionsHandler_def after_def OpenAIErrorMiddleware_def)
  moreover have "processSSEStream maxToken (\<lambda>_. False) q (rw_body w) =
      (map (\<lambda>(md, b). \<lparr>ch_Metadata = frame_metadata md, ch_Body = NewBodyFromBytes (Some b) (Some q)\<rparr>) evs, True)"
    using scan_frames [OF assms(6), of "''''"] sse_loop_frames [OF assms(6), of "[]"]
    by (simp add: processSSEStream_def w(1) comp_def case_prod_beta)
  ultimately show ?thesis using w(2) by blast
qed

definition internal_body :: string where
  "internal_body = openai_body ''Internal Server Error'' ''server_error'' None ''gateway_internal_error''"

lemma internal_body_line: "LF \<notin> set internal_body" "internal_body \<noteq> ''''" "length internal_body < 4096"
    "drop_CR internal_body = internal_body" "sse_line internal_body ([], '''') = (None, [], '''')"
  by code_simp+

lemma middleware_internal_error:
  "rw_sent w = Some x \<Longrightarrow> rw_body (OpenAIErrorMiddleware (Some (internal_error e)) w) = rw_body w @ internal_body \<and>
    rw_sent (OpenAIErrorMiddleware (Some (internal_error e)) w) = Some x"
proof -
  assume s: "rw_sent w = Some x"
  have n: "normalizeErrorStatus 500 = 500" "normalizeErrorMessage ''Internal Server Error'' 500 = ''Internal Server Error''"
    "default_to ''server_error'' (openAIErrorType 500) = ''server_error''"
    "default_to ''gateway_internal_error'' (openAIErrorCode 500) = ''gateway_internal_error''"
    by code_simp+
  show ?thesis
    using s by (simp add: OpenAIErrorMiddleware_def internal_error_def NewHandlerError_def Let_def n writeHandlerError_def
      internal_body_def)
qed

text \<open>C17: A failure in the middle of a stream is invisible to an SSE client. When a chunk cannot be
  serialized after \<open>evs\<close> were written, the status stays 200, the error object is appended to the body
  as a bare line, and the reader sees a stream that ends normally after \<open>evs\<close>.\<close>

theorem midstream_error_is_invisible:
  assumes "engine (handler_request p c r) = ((Some resp, None), signal)" "signal \<noteq> Some False"
    and "list_all (\<lambda>(k, vs). vs \<noteq> []) (hr_Header resp)" "hr_Stream resp = Some st"
    and "st_chunks st = cs @ bad # rest" "list_all2 carries cs evs" "list_all (fits (scanner_limit maxToken)) evs"
    and "fst (Bytes (ch_Body bad)) = Returned (Inl er)"
  shows "\<exists>w h. ChatCompletionsHandler env engine p c r new_writer = Returned (w, st_close st) \<and> rw_sent w = Some (200, h) \<and>
    rw_body w = concat (map (\<lambda>(md, b). sse_frame md b) evs) @ internal_body \<and>
    processSSEStream maxToken (\<lambda>_. False) q (rw_body w) =
      (map (\<lambda>(md, b). \<lparr>ch_Metadata = frame_metadata md, ch_Body = NewBodyFromBytes (Some b) (Some q)\<rparr>) evs, True)"
proof -
  obtain w h where w: "rw_body w = concat (map (\<lambda>(md, b). sse_frame md b) evs)" "rw_sent w = Some (200, h)"
    "httpSSEHandler env engine p c r new_writer =
      (case write_sse (bad # rest) w of Panicked \<Rightarrow> Panicked | Returned (w2, e) \<Rightarrow> Returned (w2, e, st_close st))"
    using sse_handler_stream [where engine = engine and env = env, OF assms(1-6)] by auto
  let ?w = "OpenAIErrorMiddleware (Some (internal_error er)) w"
  have "ChatCompletionsHandler env engine p c r new_writer = Returned (?w, st_close st)"
    using w(3) assms(8) by (simp add: ChatCompletionsHandler_def after_def)
  moreover have body: "rw_body ?w = concat (map (\<lambda>(md, b). sse_frame md b) evs) @ internal_body" "rw_sent ?w = Some (200, h)"
    using middleware_internal_error [OF w(2)] w(1) by auto
  moreover have "scan_lines (scanner_limit maxToken) [] internal_body = ([internal_body], True)"
    using scan_lines_last [of internal_body "[]"] internal_body_line by (simp add: scanner_limit_def)
  then have "processSSEStream maxToken (\<lambda>_. False) q (rw_body ?w) =
      (map (\<lambda>(md, b). \<lparr>ch_Metadata = frame_metadata md, ch_Body = NewBodyFromBytes (Some b) (Some q)\<rparr>) evs, True)"
    using scan_frames [OF assms(7), of internal_body] sse_loop_frames [OF assms(7), of "[internal_body]"] internal_body_line(5)
    by (simp add: processSSEStream_def body(1) comp_def case_prod_beta)
  ultimately show ?thesis by blast
qed

text \<open>Witnesses: two Claude events, then a chunk that cannot be serialized.\<close>

definition demo_chunk :: "string \<Rightarrow> string \<Rightarrow> string stream_chunk" where
  "demo_chunk e b = \<lparr>ch_Metadata = [(''event'', e)], ch_Body = NewBodyFromBytes (Some b) (Some text_parser)\<rparr>"

definition demo_events :: "((string \<times> string) list \<times> string) list" where
  "demo_events = [([(''event'', ''message_start'')], ''{1}''), ([(''event'', ''message_stop'')], ''{2}'')]"

definition demo_chunks :: "string stream_chunk list" where
  "demo_chunks = [demo_chunk ''message_start'' ''{1}'', demo_chunk ''message_stop'' ''{2}'']"

definition bad_chunk :: "string stream_chunk" where
  "bad_chunk = \<lparr>ch_Metadata = [], ch_Body = NewBodyFromParsed None (Some text_parser)\<rparr>"

definition stream_engine :: "string stream_chunk list \<Rightarrow> (unit, string) http_engine" where
  "stream_engine cs u = ((Some \<lparr>hr_StatusCode = 200, hr_Header = [(''Content-Type'', [''text/event-stream''])], hr_Body = None,
     hr_Stream = Some \<lparr>st_chunks = cs, st_close = [OtherClose ''cancel'']\<rparr>\<rparr>, None), Some True)"

definition demo_server :: server_env where
  "demo_server = \<lparr>is_flusher = True, heartbeat_env = None, ticks = 3, json_valid = (\<lambda>_. False)\<rparr>"

definition no_request_parser :: "unit request_value parser" where
  "no_request_parser = \<lparr>Parse = (\<lambda>s. (Some (OtherRequest ()), None)), Serialize = (\<lambda>v. Inr '''')\<rparr>"

definition empty_reader :: reader where
  "empty_reader = \<lparr>ReadAll = Inr '''', closing = None\<rparr>"

lemma demo_stream_facts:
  "list_all2 carries demo_chunks demo_events" "list_all (fits (scanner_limit 65536)) demo_events"
  "fst (Bytes (ch_Body bad_chunk)) = Returned (Inl (Plain ''parsed body must not be nil''))"
proof -
  show "list_all2 carries demo_chunks demo_events"
    by (simp add: demo_chunks_def demo_events_def demo_chunk_def carries_def NewBodyFromBytes_def Bytes_def)
  show "list_all (fits (scanner_limit 65536)) demo_events"
    by (simp add: demo_events_def fits_def plain_def frame_metadata_def scanner_limit_def)
  show "fst (Bytes (ch_Body bad_chunk)) = Returned (Inl (Plain ''parsed body must not be nil''))"
    by (simp add: bad_chunk_def NewBodyFromParsed_def Bytes_def)
qed

theorem sse_roundtrip_witness:
  "\<exists>w. ChatCompletionsHandler demo_server (stream_engine demo_chunks) no_request_parser Map.empty empty_reader new_writer =
       Returned (w, [OtherClose ''cancel'']) \<and>
     processSSEStream 65536 (\<lambda>_. False) text_parser (rw_body w) = (demo_chunks, True)"
proof -
  let ?r = "\<lparr>hr_StatusCode = 200, hr_Header = [(''Content-Type'', [''text/event-stream''])], hr_Body = None,
     hr_Stream = Some \<lparr>st_chunks = demo_chunks, st_close = [OtherClose ''cancel'']\<rparr>\<rparr>"
  have e: "stream_engine demo_chunks (handler_request no_request_parser Map.empty empty_reader) = ((Some ?r, None), Some True)"
    by (simp add: stream_engine_def)
  have h: "Some True \<noteq> Some False" "list_all (\<lambda>(k, vs). vs \<noteq> []) (hr_Header ?r)"
    "hr_Stream ?r = Some \<lparr>st_chunks = demo_chunks, st_close = [OtherClose ''cancel'']\<rparr>"
    "list_all2 carries (st_chunks \<lparr>st_chunks = demo_chunks, st_close = [OtherClose ''cancel'']\<rparr>) demo_events"
    using demo_stream_facts(1) by simp_all
  have "map (\<lambda>(md, b). \<lparr>ch_Metadata = frame_metadata md, ch_Body = NewBodyFromBytes (Some b) (Some text_parser)\<rparr>) demo_events = demo_chunks"
    by (simp add: demo_events_def demo_chunks_def demo_chunk_def frame_metadata_def)
  with sse_roundtrip [where engine = "stream_engine demo_chunks" and env = demo_server and q = text_parser,
      OF e h demo_stream_facts(2)]
  show ?thesis by auto
qed

theorem midstream_error_is_invisible_witness:
  "\<exists>w h. ChatCompletionsHandler demo_server (stream_engine (demo_chunks @ [bad_chunk])) no_request_parser Map.empty empty_reader new_writer =
       Returned (w, [OtherClose ''cancel'']) \<and> rw_sent w = Some (200, h) \<and>
     processSSEStream 65536 (\<lambda>_. False) text_parser (rw_body w) = (demo_chunks, True)"
proof -
  let ?st = "\<lparr>st_chunks = demo_chunks @ [bad_chunk], st_close = [OtherClose ''cancel'']\<rparr>"
  let ?r = "\<lparr>hr_StatusCode = 200, hr_Header = [(''Content-Type'', [''text/event-stream''])], hr_Body = None, hr_Stream = Some ?st\<rparr>"
  have e: "stream_engine (demo_chunks @ [bad_chunk]) (handler_request no_request_parser Map.empty empty_reader) = ((Some ?r, None), Some True)"
    by (simp add: stream_engine_def)
  have h: "Some True \<noteq> Some False" "list_all (\<lambda>(k, vs). vs \<noteq> []) (hr_Header ?r)" "hr_Stream ?r = Some ?st"
    "st_chunks ?st = demo_chunks @ bad_chunk # []"
    by simp_all
  have "map (\<lambda>(md, b). \<lparr>ch_Metadata = frame_metadata md, ch_Body = NewBodyFromBytes (Some b) (Some text_parser)\<rparr>) demo_events = demo_chunks"
    by (simp add: demo_events_def demo_chunks_def demo_chunk_def frame_metadata_def)
  with midstream_error_is_invisible [where engine = "stream_engine (demo_chunks @ [bad_chunk])" and env = demo_server and q = text_parser,
      OF e h demo_stream_facts(1,2,3)]
  show ?thesis by auto
qed

text \<open>What the client is told of an engine's error under the OpenAI middleware.\<close>

definition reported_error :: "err \<Rightarrow> handler_error" where
  "reported_error e =
     (case errors_as as_handler_error e of
        Some he \<Rightarrow> he
      | None \<Rightarrow> if errors_is e ''context.Canceled'' then client_closed e else internal_error e)"



end
