(* ===== verification/ChatTypes.thy ===== *)
theory ChatTypes
  imports Body
begin

text \<open>
  The wire types of \<open>pkg/types/openai\<close>, \<open>pkg/types/anthropic\<close> and \<open>pkg/types/vertex\<close> that the converter, the
  stream mergers and the moderator read and build. A pointer that may be nil is an option, an interface is a datatype with one
  constructor per implementation, \<open>json.RawMessage\<close> is its text. Fields that no modelled code reads
  (cache control, citations, video and audio parts, fingerprints) are left out.
\<close>

section \<open>OpenAI chat completions\<close>

record tool_fn =
  fn_Name :: string
  fn_Arguments :: string

record tool_call =
  tc_ID :: string
  tc_Index :: int
  tc_Type :: string
  tc_Function :: "tool_fn option"

datatype oa_image_url = ImageURLObject string string | ImageURLString string

primrec GetImageUrl :: "oa_image_url \<Rightarrow> string" where
  "GetImageUrl (ImageURLObject url detail) = url"
| "GetImageUrl (ImageURLString url) = url"

record oa_item =
  it_Type :: string
  it_Text :: string
  it_ImageURL :: "oa_image_url option"
  it_FileURI :: "string option"

datatype oa_content = OaString string | OaArray "oa_item option list"

definition item_text :: "oa_item option \<Rightarrow> string" where
  "item_text it =
     (case it of
        None \<Rightarrow> ''''
      | Some i \<Rightarrow>
          if it_Type i = ''text'' then it_Text i
          else if it_Type i = ''image_url''
          then (case it_ImageURL i of Some u \<Rightarrow> ''[img:'' @ GetImageUrl u @ '']'' | None \<Rightarrow> '''')
          else if it_Type i = ''file''
          then (case it_FileURI i of Some u \<Rightarrow> ''[file:'' @ u @ '']'' | None \<Rightarrow> '''')
          else '''')"

primrec oa_text :: "oa_content \<Rightarrow> string" where
  "oa_text (OaString s) = s"
| "oa_text (OaArray items) = concat (map item_text items)"

record oa_message =
  m_Role :: string
  m_Content :: "oa_content option"
  m_ReasoningContent :: "oa_content option"
  m_Name :: string
  m_ToolCalls :: "tool_call option list"
  m_ToolCallID :: string

record completion_details =
  cd_ReasoningTokens :: int
  cd_AudioTokens :: int

record prompt_details =
  pd_CachedTokens :: int
  pd_AudioTokens :: int

record usage =
  u_CompletionTokens :: int
  u_PromptTokens :: int
  u_TotalTokens :: int
  u_CompletionDetails :: "completion_details option"
  u_PromptDetails :: "prompt_details option"

record chat_choice =
  cc_FinishReason :: string
  cc_Index :: int
  cc_Message :: "oa_message option"

record chat_response =
  cr_ID :: string
  cr_Created :: int
  cr_Object :: string
  cr_Model :: string
  cr_Choices :: "chat_choice option list"
  cr_Usage :: "usage option"

record stream_choice =
  sch_FinishReason :: string
  sch_Index :: int
  sch_Delta :: "oa_message option"

record chat_chunk =
  ck_ID :: string
  ck_Created :: int
  ck_Model :: string
  ck_Choices :: "stream_choice option list"
  ck_Usage :: "usage option"

record oa_tool =
  t_Name :: string
  t_Description :: string
  t_Parameters :: string

datatype oa_tool_choice = ToolChoiceString string | ToolChoiceFunction string

record chat_request =
  q_Model :: string
  q_Messages :: "oa_message list"
  q_Thinking :: "string option"
  q_MaxTokens :: "int option"
  q_Temperature :: "rat option"
  q_TopP :: "rat option"
  q_TopK :: "int option"
  q_Stop :: "string list option"
  q_Stream :: "bool option"
  q_Tools :: "oa_tool list"
  q_ToolChoice :: "oa_tool_choice option"

section \<open>Claude messages\<close>

datatype claude_block =
    TextBlock string
  | ImageBlock "claude_source option"
  | DocumentBlock string string "claude_source option"
  | ThinkingBlock string string
  | RedactedThinkingBlock string
  | ToolUseBlock string string string
  | ToolResultBlock string "claude_content option"
  | GeneralBlock string
and claude_content = ContentString string | ContentBlocks "claude_block option list"
and claude_source = Source string string string "claude_content option list" string

text \<open>\<open>ExtractText\<close> of a block (a nil block contributes nothing), of contents and of sources.\<close>

fun block_text :: "claude_block \<Rightarrow> string"
and content_text :: "claude_content \<Rightarrow> string"
and source_text :: "claude_source \<Rightarrow> string"
and blocks_text :: "claude_block option list \<Rightarrow> string"
and contents_text :: "claude_content option list \<Rightarrow> string" where
  "block_text (TextBlock s) = s"
| "block_text (ImageBlock src) = (case src of None \<Rightarrow> '''' | Some x \<Rightarrow> source_text x)"
| "block_text (DocumentBlock title ctxt src) =
     (if title \<noteq> '''' then title @ '':'' else '''') @ (if ctxt \<noteq> '''' then ctxt @ '':'' else '''') @
     (case src of None \<Rightarrow> '''' | Some x \<Rightarrow> source_text x)"
| "block_text (ThinkingBlock t s) = t"
| "block_text (RedactedThinkingBlock d) = ''''"
| "block_text (ToolUseBlock i n inp) = inp"
| "block_text (ToolResultBlock i c) = (case c of None \<Rightarrow> '''' | Some x \<Rightarrow> content_text x)"
| "block_text (GeneralBlock t) = ''''"
| "content_text (ContentString s) = s"
| "content_text (ContentBlocks bs) = blocks_text bs"
| "source_text (Source ty mediaType d cs url) =
     (if ty = ''url'' then url
      else if ty = ''base64'' then ''(base64_inline_'' @ mediaType @ '')''
      else if ty = ''text'' then d
      else if ty = ''content'' then contents_text cs
      else '''')"
| "blocks_text [] = ''''"
| "blocks_text (b # bs) = (case b of None \<Rightarrow> '''' | Some x \<Rightarrow> block_text x) @ blocks_text bs"
| "contents_text [] = ''''"
| "contents_text (c # cs) = (case c of None \<Rightarrow> '''' | Some x \<Rightarrow> content_text x) @ contents_text cs"

record claude_message =
  cm_Role :: string
  cm_Content :: "claude_content option"

record tool_definition =
  td_Name :: string
  td_Description :: string
  td_InputSchema :: string

datatype claude_system = SystemString string | SystemBlocks "string list"

record claude_request =
  rq_MaxTokens :: int
  rq_Messages :: "claude_message option list"
  rq_Model :: string
  rq_System :: "claude_system option"
  rq_Temperature :: "rat option"
  rq_TopK :: "int option"
  rq_TopP :: "rat option"
  rq_StopSequences :: "string list"
  rq_Stream :: "bool option"
  rq_Thinking :: "string option"
  rq_Tools :: "tool_definition option list"
  rq_ToolChoice :: "(string \<times> string option) option"

record claude_usage =
  cu_Input :: "int option"
  cu_Output :: "int option"
  cu_CacheCreation :: "int option"
  cu_CacheRead :: "int option"

record claude_response =
  cl_ID :: string
  cl_Type :: string
  cl_Role :: string
  cl_Content :: "claude_block option list"
  cl_Model :: string
  cl_StopReason :: string
  cl_StopSequence :: "string option"
  cl_Usage :: "claude_usage option"

record content_delta =
  d_Type :: string
  d_Text :: "string option"
  d_PartialJSON :: "string option"
  d_Thinking :: "string option"
  d_Signature :: "string option"
  d_StopReason :: "string option"
  d_StopSequence :: "string option"

record claude_event =
  ev_Type :: string
  ev_Message :: "claude_response option"
  ev_Index :: "int option"
  ev_ContentBlock :: "claude_block option"
  ev_Delta :: "content_delta option"
  ev_Usage :: "claude_usage option"

section \<open>OpenAI responses\<close>

record input_part =
  ip_Type :: string
  ip_Text :: string
  ip_ImageURL :: "oa_image_url option"

datatype input_content = InputContentString string | InputContentArray "input_part option list"

record input_message =
  im_Role :: string
  im_Content :: "input_content option"

datatype responses_input = ResponsesInputString string | ResponsesInputMessageArray "input_message option list"

record responses_request =
  pq_Model :: string
  pq_Stream :: "bool option"
  pq_Input :: "responses_input option"

definition input_part_text :: "input_part option \<Rightarrow> string" where
  "input_part_text part =
     (case part of
        None \<Rightarrow> ''''
      | Some i \<Rightarrow>
          if ip_Type i = ''input_text'' then ip_Text i
          else if ip_Type i = ''input_image'' then (case ip_ImageURL i of Some u \<Rightarrow> GetImageUrl u | None \<Rightarrow> '''')
          else '''')"

primrec input_content_text :: "input_content \<Rightarrow> string" where
  "input_content_text (InputContentString s) = s"
| "input_content_text (InputContentArray parts) = concat (map input_part_text parts)"

definition input_message_text :: "input_message option \<Rightarrow> string" where
  "input_message_text i = (case Option.bind i im_Content of None \<Rightarrow> '''' | Some c \<Rightarrow> input_content_text c)"

primrec responses_input_text :: "responses_input \<Rightarrow> string" where
  "responses_input_text (ResponsesInputString s) = s"
| "responses_input_text (ResponsesInputMessageArray items) = concat (map input_message_text items)"

record output_part =
  op_Type :: string
  op_Text :: string
  op_Refusal :: string

record output_item =
  oi_ID :: string
  oi_Type :: string
  oi_Role :: string
  oi_Content :: "output_part option list"

definition output_part_text :: "output_part option \<Rightarrow> string" where
  "output_part_text part =
     (case part of
        None \<Rightarrow> ''''
      | Some i \<Rightarrow> if op_Type i = ''output_text'' then op_Text i else if op_Type i = ''refusal'' then op_Refusal i else '''')"

definition output_item_text :: "output_item option \<Rightarrow> string" where
  "output_item_text item = (case item of None \<Rightarrow> '''' | Some i \<Rightarrow> concat (map output_part_text (oi_Content i)))"

text \<open>The details are the cached and the reasoning tokens.\<close>

record responses_usage =
  ru_InputTokens :: int
  ru_OutputTokens :: int
  ru_TotalTokens :: int
  ru_InputTokensDetails :: "int option"
  ru_OutputTokensDetails :: "int option"

record responses_response =
  pr_Id :: string
  pr_Output :: "output_item option list"
  pr_Usage :: "responses_usage option"

record responses_chunk =
  pk_Type :: string
  pk_Delta :: string
  pk_Text :: string
  pk_Part :: "output_part option"
  pk_Item :: "output_item option"
  pk_Response :: "responses_response option"

section \<open>Vertex\<close>

text \<open>Of a part, what the moderation adapters read; the arguments of a call are their JSON text.\<close>

record vertex_call =
  vf_Name :: string
  vf_Args :: string

record vertex_part =
  vp_Text :: string
  vp_FunctionCall :: "vertex_call option"

record vertex_content =
  vc_Role :: string
  vc_Parts :: "vertex_part list"

record vertex_candidate =
  vd_Content :: "vertex_content option"
  vd_FinishReason :: string

record vertex_usage =
  vu_PromptTokenCount :: int
  vu_CandidatesTokenCount :: int
  vu_TotalTokenCount :: int
  vu_CachedContentTokenCount :: int
  vu_ThoughtsTokenCount :: int

record vertex_request =
  vq_Contents :: "vertex_content list"
  vq_SystemInstruction :: "vertex_content option"

text \<open>The response, and the chunk of a stream, which has the same fields.\<close>

record vertex_response =
  vr_Candidates :: "vertex_candidate list"
  vr_UsageMetadata :: "vertex_usage option"
  vr_ModelVersion :: string
  vr_ResponseID :: string

datatype responses_value = ResponsesRequest responses_request | ResponsesResponse responses_response | ResponseStreamChunk responses_chunk

datatype vertex_value = GenerateContentRequest vertex_request | GenerateContentResponse vertex_response
  | StreamGenerateContentResponse vertex_response

section \<open>Parsed values\<close>

text \<open>What \<open>Parsed\<close> may return: the dynamic type of the value.\<close>

datatype llm_value =
    ClaudeRequestV claude_request
  | ChatRequestV chat_request
  | ChatResponseV chat_response
  | ChatChunkV chat_chunk
  | ClaudeResponseV claude_response
  | ClaudeEventV claude_event
  | ResponsesV responses_value
  | VertexV vertex_value
  | OtherV

abbreviation ErrStreamDone :: err where
  "ErrStreamDone \<equiv> Sentinel ''ErrStreamDone''"

end
