(* ===== verification/Converter.thy ===== *)
theory Converter
  imports ChatTypes HttpHandler
begin

text \<open>
  \<open>pkg/engines/converter/claude.go\<close>: an engine that serves Claude Messages requests through an engine
  for OpenAI chat completions. The request and the non-stream response are converted as values; a
  stream is converted by a state machine that turns deltas into content blocks.
\<close>

text \<open>What is used of \<open>encoding/json\<close>: compaction and validity of raw messages, decoding of a
  string, the parsers of the wire types and the encodings of responses and events.\<close>

record json_lib =
  Compact :: "string \<Rightarrow> err + string"
  UnmarshalString :: "string \<Rightarrow> string option"
  Valid :: "string \<Rightarrow> bool"
  MarshalResponse :: "claude_response \<Rightarrow> string"
  MarshalEvent :: "claude_event \<Rightarrow> string"
  ChatRequestParser :: "llm_value parser"
  ClaudeResponseParser :: "llm_value parser"
  ClaudeEventParser :: "llm_value parser"

section \<open>Requests\<close>

definition oa_msg :: "string \<Rightarrow> oa_content option \<Rightarrow> oa_message" where
  "oa_msg role c = \<lparr>m_Role = role, m_Content = c, m_ReasoningContent = None, m_Name = '''', m_ToolCalls = [], m_ToolCallID = ''''\<rparr>"

definition text_item :: "string \<Rightarrow> oa_item" where
  "text_item s = \<lparr>it_Type = ''text'', it_Text = s, it_ImageURL = None, it_FileURI = None\<rparr>"

definition billing_header :: string where
  "billing_header = ''x-anthropic-billing-header:''"

definition system_messages :: "claude_system option \<Rightarrow> oa_message list" where
  "system_messages sys =
     (case sys of
        None \<Rightarrow> []
      | Some (SystemString s) \<Rightarrow> [oa_msg ''system'' (Some (OaString s))]
      | Some (SystemBlocks bs) \<Rightarrow>
          map (\<lambda>s. oa_msg ''system'' (Some (OaString s)))
            (case bs of s # rest \<Rightarrow> if take (length billing_header) s = billing_header then rest else bs | [] \<Rightarrow> []))"

definition image_url :: "json_lib \<Rightarrow> claude_source \<Rightarrow> string" where
  "image_url J src =
     (case src of Source ty mediaType d cs url \<Rightarrow>
        if ty = ''base64'' \<and> d \<noteq> ''''
        then (case UnmarshalString J d of
                Some s \<Rightarrow> ''data:'' @ (if mediaType \<noteq> '''' then mediaType else ''image/jpeg'') @ '';base64,'' @ s
              | None \<Rightarrow> '''')
        else if ty = ''url'' then url else '''')"

text \<open>The parts of a user message, and the tool messages its tool results become.\<close>

fun user_blocks :: "json_lib \<Rightarrow> claude_block option list \<Rightarrow> oa_item list \<times> oa_message list" where
  "user_blocks J [] = ([], [])"
| "user_blocks J (b # bs) =
     (let (parts, tools) = user_blocks J bs
      in case b of
           Some (TextBlock s) \<Rightarrow> (text_item s # parts, tools)
         | Some (ImageBlock (Some src)) \<Rightarrow>
             (\<lparr>it_Type = ''image_url'', it_Text = '''', it_ImageURL = Some (ImageURLObject (image_url J src) ''''), it_FileURI = None\<rparr> # parts,
              tools)
         | Some (ToolResultBlock i c) \<Rightarrow>
             if i \<noteq> ''''
             then (parts, (oa_msg ''tool'' (Some (OaString (case c of Some x \<Rightarrow> content_text x | None \<Rightarrow> ''''))))\<lparr>m_ToolCallID := i\<rparr> # tools)
             else (parts, tools)
         | _ \<Rightarrow> (parts, tools))"

text \<open>The parts and tool calls of an assistant message; the index counts the tool calls.\<close>

fun assistant_blocks :: "json_lib \<Rightarrow> int \<Rightarrow> claude_block option list \<Rightarrow> err + oa_item list \<times> tool_call option list" where
  "assistant_blocks J i [] = Inr ([], [])"
| "assistant_blocks J i (b # bs) =
     (case b of
        Some (ToolUseBlock k n inp) \<Rightarrow>
          (case Compact J inp of
             Inl e \<Rightarrow> Inl (Wrap ''failed to compact tool use input'' [e])
           | Inr s \<Rightarrow>
               (case assistant_blocks J (i + 1) bs of
                  Inl e \<Rightarrow> Inl e
                | Inr (parts, calls) \<Rightarrow>
                    Inr (parts, Some \<lparr>tc_ID = k, tc_Index = i, tc_Type = ''function'', tc_Function = Some \<lparr>fn_Name = n, fn_Arguments = s\<rparr>\<rparr> # calls)))
      | Some (TextBlock s) \<Rightarrow>
          (case assistant_blocks J i bs of Inl e \<Rightarrow> Inl e | Inr (parts, calls) \<Rightarrow> Inr (text_item s # parts, calls))
      | _ \<Rightarrow> assistant_blocks J i bs)"

definition array_content :: "oa_item list \<Rightarrow> oa_content option" where
  "array_content parts = (if parts = [] then None else Some (OaArray (map Some parts)))"

definition user_message :: "oa_item list \<Rightarrow> oa_message list" where
  "user_message parts = (if parts = [] then [] else [oa_msg ''user'' (array_content parts)])"

definition convert_message :: "json_lib \<Rightarrow> claude_message \<Rightarrow> err + oa_message list" where
  "convert_message J m =
     (if cm_Role m = ''user''
      then Inr (case cm_Content m of
                  Some (ContentString s) \<Rightarrow> user_message [text_item s]
                | Some (ContentBlocks bs) \<Rightarrow> snd (user_blocks J bs) @ user_message (fst (user_blocks J bs))
                | None \<Rightarrow> [])
      else if cm_Role m = ''assistant''
      then (case cm_Content m of
              Some (ContentString s) \<Rightarrow> Inr [oa_msg ''assistant'' (array_content [text_item s])]
            | Some (ContentBlocks bs) \<Rightarrow>
                (case assistant_blocks J 0 bs of
                   Inl e \<Rightarrow> Inl e
                 | Inr (parts, calls) \<Rightarrow> Inr [(oa_msg ''assistant'' (array_content parts))\<lparr>m_ToolCalls := calls\<rparr>])
            | None \<Rightarrow> Inr [oa_msg ''assistant'' None])
      else Inr [])"

fun convert_messages :: "json_lib \<Rightarrow> claude_message option list \<Rightarrow> (err + oa_message list) outcome" where
  "convert_messages J [] = Returned (Inr [])"
| "convert_messages J (None # ms) = Panicked"
| "convert_messages J (Some m # ms) =
     (case convert_message J m of
        Inl e \<Rightarrow> Returned (Inl e)
      | Inr xs \<Rightarrow>
          (case convert_messages J ms of
             Returned (Inr ys) \<Rightarrow> Returned (Inr (xs @ ys))
           | r \<Rightarrow> r))"

fun convert_tools :: "tool_definition option list \<Rightarrow> oa_tool list outcome" where
  "convert_tools [] = Returned []"
| "convert_tools (None # ts) = Panicked"
| "convert_tools (Some t # ts) =
     (case convert_tools ts of
        Panicked \<Rightarrow> Panicked
      | Returned us \<Rightarrow>
          Returned (if td_Name t = '''' then us
            else \<lparr>t_Name = td_Name t, t_Description = td_Description t, t_Parameters = td_InputSchema t\<rparr> # us))"

definition convert_tool_choice :: "(string \<times> string option) option \<Rightarrow> oa_tool_choice option" where
  "convert_tool_choice c =
     (case c of
        None \<Rightarrow> None
      | Some (ty, nm) \<Rightarrow>
          if ty = ''none'' then Some (ToolChoiceString ''none'')
          else if ty = ''auto'' then Some (ToolChoiceString ''auto'')
          else if ty = ''any'' then Some (ToolChoiceString ''required'')
          else if ty = ''tool'' then map_option ToolChoiceFunction nm
          else None)"

definition convert_request :: "json_lib \<Rightarrow> claude_request \<Rightarrow> (err + chat_request) outcome" where
  "convert_request J src =
     (case convert_messages J (rq_Messages src) of
        Panicked \<Rightarrow> Panicked
      | Returned (Inl e) \<Rightarrow> Returned (Inl e)
      | Returned (Inr msgs) \<Rightarrow>
          (case convert_tools (rq_Tools src) of
             Panicked \<Rightarrow> Panicked
           | Returned tools \<Rightarrow>
               Returned (Inr
                 \<lparr>q_Model = rq_Model src,
                  q_Messages = system_messages (rq_System src) @ msgs,
                  q_Thinking = map_option (\<lambda>ty. if ty = ''enabled'' then ''enabled'' else ''disabled'') (rq_Thinking src),
                  q_MaxTokens = (if 0 < rq_MaxTokens src then Some (rq_MaxTokens src) else None),
                  q_Temperature = rq_Temperature src, q_TopP = rq_TopP src, q_TopK = rq_TopK src,
                  q_Stop = (if rq_StopSequences src = [] then None else Some (rq_StopSequences src)),
                  q_Stream = rq_Stream src, q_Tools = tools, q_ToolChoice = convert_tool_choice (rq_ToolChoice src)\<rparr>)))"

definition convertRequestBody :: "json_lib \<Rightarrow> llm_value body \<Rightarrow> (err + llm_value body) outcome" where
  "convertRequestBody J b =
     (case fst (Parsed b) of
        Panicked \<Rightarrow> Panicked
      | Returned (v, Some e) \<Rightarrow> Returned (Inl (Wrap ''failed to parse request body'' [e]))
      | Returned (v, None) \<Rightarrow>
          (case v of
             Some (ClaudeRequestV src) \<Rightarrow>
               (case convert_request J src of
                  Panicked \<Rightarrow> Panicked
                | Returned (Inl e) \<Rightarrow> Returned (Inl e)
                | Returned (Inr dst) \<Rightarrow>
                    Returned (Inr (SetParsed (Some (ChatRequestV dst)) (NewBodyFromBytes (Some '''') (Some (ChatRequestParser J))))))
           | _ \<Rightarrow> Returned (Inl (Plain ''parsed body is not *anthropic.ClaudeMessagesRequest''))))"

section \<open>Non-stream responses\<close>

definition mapFinishReason :: "string \<Rightarrow> string" where
  "mapFinishReason fr =
     (if fr = ''stop'' then ''end_turn''
      else if fr = ''length'' then ''max_tokens''
      else if fr = ''tool_calls'' then ''tool_use''
      else fr)"

definition convert_usage :: "usage \<Rightarrow> claude_usage" where
  "convert_usage u =
     (let cached = (case u_PromptDetails u of Some d \<Rightarrow> if 0 < pd_CachedTokens d then pd_CachedTokens d else 0 | None \<Rightarrow> 0)
      in \<lparr>cu_Input = Some (u_PromptTokens u - cached), cu_Output = Some (u_CompletionTokens u), cu_CacheCreation = None,
          cu_CacheRead = (if 0 < cached then Some cached else None)\<rparr>)"

fun tool_use_blocks :: "tool_call option list \<Rightarrow> claude_block list outcome" where
  "tool_use_blocks [] = Returned []"
| "tool_use_blocks (None # ts) = Panicked"
| "tool_use_blocks (Some t # ts) =
     (case tool_use_blocks ts of
        Panicked \<Rightarrow> Panicked
      | Returned bs \<Rightarrow>
          Returned (case tc_Function t of None \<Rightarrow> bs | Some f \<Rightarrow> ToolUseBlock (tc_ID t) (fn_Name f) (fn_Arguments f) # bs))"

definition message_blocks :: "oa_message \<Rightarrow> claude_block list outcome" where
  "message_blocks m =
     (case tool_use_blocks (m_ToolCalls m) of
        Panicked \<Rightarrow> Panicked
      | Returned calls \<Rightarrow>
          Returned
            ((case m_ReasoningContent m of Some r \<Rightarrow> [ThinkingBlock (oa_text r) ''''] | None \<Rightarrow> []) @
             (case m_Content m of Some c \<Rightarrow> if oa_text c \<noteq> '''' then [TextBlock (oa_text c)] else [] | None \<Rightarrow> []) @ calls))"

definition claude_message_response :: "string \<Rightarrow> string \<Rightarrow> claude_block option list \<Rightarrow> string \<Rightarrow> claude_usage option \<Rightarrow> claude_response" where
  "claude_message_response i model content stop u =
     \<lparr>cl_ID = i, cl_Type = ''message'', cl_Role = ''assistant'', cl_Content = content, cl_Model = model, cl_StopReason = stop,
      cl_StopSequence = None, cl_Usage = u\<rparr>"

definition convert_response :: "chat_response \<Rightarrow> claude_response outcome" where
  "convert_response r =
     (let build = claude_message_response (cr_ID r) (cr_Model r);
          u = map_option convert_usage (cr_Usage r)
      in case cr_Choices r of
           [] \<Rightarrow> Returned (build [] '''' u)
         | None # _ \<Rightarrow> Panicked
         | Some c # _ \<Rightarrow>
             (case cc_Message c of
                None \<Rightarrow> Returned (build [] (mapFinishReason (cc_FinishReason c)) u)
              | Some m \<Rightarrow>
                  (case message_blocks m of
                     Panicked \<Rightarrow> Panicked
                   | Returned bs \<Rightarrow> Returned (build (map Some bs) (mapFinishReason (cc_FinishReason c)) u))))"

text \<open>\<open>json.Marshal\<close> fails exactly when the input of a tool use is no JSON text: every other field is
  built from strings and numbers.\<close>

definition marshals :: "json_lib \<Rightarrow> claude_response \<Rightarrow> bool" where
  "marshals J r \<longleftrightarrow> list_all (\<lambda>b. case b of Some (ToolUseBlock i n inp) \<Rightarrow> Valid J inp | _ \<Rightarrow> True) (cl_Content r)"

text \<open>The new body, and the close callbacks of the old one that ran on the way.\<close>

definition convertNonStreamResponseBody ::
  "json_lib \<Rightarrow> llm_value body \<Rightarrow> ((err + llm_value body) \<times> close_action list) outcome" where
  "convertNonStreamResponseBody J b =
     (case Parsed b of
        (Panicked, b1) \<Rightarrow> Panicked
      | (Returned (v, Some e), b1) \<Rightarrow> Returned (Inl (Wrap ''failed to parse response body'' [e]), [])
      | (Returned (v, None), b1) \<Rightarrow>
          (let cls = fst (CloseBody b1)
           in case v of
                Some (ChatResponseV r) \<Rightarrow>
                  (case convert_response r of
                     Panicked \<Rightarrow> Panicked
                   | Returned c \<Rightarrow>
                       if marshals J c
                       then Returned (Inr (NewBodyFromBytes (Some (MarshalResponse J c)) (Some (ClaudeResponseParser J))), cls)
                       else Returned (Inl (Plain ''failed to marshal claude response''), cls))
              | _ \<Rightarrow> Returned (Inl (Plain ''parsed body is not *openai.ChatCompletionResponse''), cls)))"

section \<open>Streams\<close>

datatype block_type = NoBlock | ThinkingType | TextType | ToolType

text \<open>The variables of the conversion goroutine; \<open>cv_sends\<close> counts the sends tried so far and
  \<open>cv_out\<close> holds the events sent.\<close>

record conv_state =
  cv_started :: bool
  cv_index :: int
  cv_type :: block_type
  cv_tool :: int
  cv_finish :: "string option"
  cv_usage :: "usage option"
  cv_sends :: nat
  cv_out :: "claude_event list"

definition conv_init :: conv_state where
  "conv_init = \<lparr>cv_started = False, cv_index = -1, cv_type = NoBlock, cv_tool = -1, cv_finish = None, cv_usage = None,
     cv_sends = 0, cv_out = []\<rparr>"

text \<open>How a piece of the loop's body ends: go on, \<open>continue\<close> with the next chunk, \<open>break\<close>, or panic.\<close>

datatype control = Proceed | Continue | Break | Crash

definition empty_event :: "string \<Rightarrow> claude_event" where
  "empty_event ty = \<lparr>ev_Type = ty, ev_Message = None, ev_Index = None, ev_ContentBlock = None, ev_Delta = None, ev_Usage = None\<rparr>"

definition empty_delta :: "string \<Rightarrow> content_delta" where
  "empty_delta ty = \<lparr>d_Type = ty, d_Text = None, d_PartialJSON = None, d_Thinking = None, d_Signature = None,
     d_StopReason = None, d_StopSequence = None\<rparr>"

definition block_stop :: "int \<Rightarrow> claude_event" where
  "block_stop i = (empty_event ''content_block_stop'')\<lparr>ev_Index := Some i\<rparr>"

definition block_start :: "int \<Rightarrow> claude_block \<Rightarrow> claude_event" where
  "block_start i b = (empty_event ''content_block_start'')\<lparr>ev_Index := Some i, ev_ContentBlock := Some b\<rparr>"

definition block_delta :: "int \<Rightarrow> content_delta \<Rightarrow> claude_event" where
  "block_delta i d = (empty_event ''content_block_delta'')\<lparr>ev_Index := Some i, ev_Delta := Some d\<rparr>"

definition thinking_delta :: "string \<Rightarrow> content_delta" where
  "thinking_delta s = (empty_delta ''thinking_delta'')\<lparr>d_Thinking := Some s\<rparr>"

definition text_delta :: "string \<Rightarrow> content_delta" where
  "text_delta s = (empty_delta ''text_delta'')\<lparr>d_Text := Some s\<rparr>"

definition json_delta :: "string \<Rightarrow> content_delta" where
  "json_delta s = (empty_delta ''input_json_delta'')\<lparr>d_PartialJSON := Some s\<rparr>"

definition message_start :: "string \<Rightarrow> string \<Rightarrow> claude_event" where
  "message_start i model = (empty_event ''message_start'')\<lparr>ev_Message := Some (claude_message_response i model [] ''''
     (Some \<lparr>cu_Input = Some 0, cu_Output = Some 0, cu_CacheCreation = None, cu_CacheRead = None\<rparr>))\<rparr>"

definition message_delta :: "string \<Rightarrow> usage option \<Rightarrow> claude_event" where
  "message_delta fr u = (empty_event ''message_delta'')\<lparr>ev_Delta := Some ((empty_delta '''')\<lparr>d_StopReason := Some (mapFinishReason fr)\<rparr>),
     ev_Usage := map_option convert_usage u\<rparr>"

text \<open>\<open>sendEvent\<close>: the \<open>n\<close>-th send goes through when \<open>ok n\<close>; otherwise the context is done. The result
  tells whether it succeeded.\<close>

definition send_event :: "(nat \<Rightarrow> bool) \<Rightarrow> claude_event \<Rightarrow> conv_state \<Rightarrow> bool \<times> conv_state" where
  "send_event ok ev s =
     (let s1 = s\<lparr>cv_sends := Suc (cv_sends s)\<rparr>
      in if ok (cv_sends s) then (True, s1\<lparr>cv_out := cv_out s1 @ [ev]\<rparr>) else (False, s1))"

text \<open>Closing the open block and opening the next; \<open>None\<close> is a block whose fields cannot be read.\<close>

definition open_block :: "(nat \<Rightarrow> bool) \<Rightarrow> block_type \<Rightarrow> claude_block option \<Rightarrow> conv_state \<Rightarrow> control \<times> conv_state" where
  "open_block ok ty blk s =
     (let (sent1, s1) = (if cv_type s \<noteq> NoBlock then send_event ok (block_stop (cv_index s)) s else (True, s))
      in if \<not> sent1 then (Continue, s1)
         else let s2 = s1\<lparr>cv_index := cv_index s1 + 1\<rparr>
              in case blk of
                   None \<Rightarrow> (Crash, s2)
                 | Some b \<Rightarrow>
                     let (sent2, s3) = send_event ok (block_start (cv_index s2) b) s2
                     in if \<not> sent2 then (Continue, s3) else (Proceed, s3\<lparr>cv_type := ty\<rparr>))"

definition send_delta :: "(nat \<Rightarrow> bool) \<Rightarrow> content_delta \<Rightarrow> conv_state \<Rightarrow> control \<times> conv_state" where
  "send_delta ok d s =
     (let (sent, s1) = send_event ok (block_delta (cv_index s) d) s in (if sent then Proceed else Continue, s1))"

text \<open>Sequencing: the rest runs only after \<open>Proceed\<close>.\<close>

definition and_then :: "control \<times> conv_state \<Rightarrow> (conv_state \<Rightarrow> control \<times> conv_state) \<Rightarrow> control \<times> conv_state" where
  "and_then r k = (case r of (Proceed, s) \<Rightarrow> k s | _ \<Rightarrow> r)"

definition handle_reasoning :: "(nat \<Rightarrow> bool) \<Rightarrow> string \<Rightarrow> conv_state \<Rightarrow> control \<times> conv_state" where
  "handle_reasoning ok reasoning s =
     (if reasoning = '''' then (Proceed, s)
      else and_then
             (if cv_type s \<in> {NoBlock, TextType, ToolType} then open_block ok ThinkingType (Some (ThinkingBlock '''' '''')) s
              else (Proceed, s))
             (send_delta ok (thinking_delta reasoning)))"

definition handle_text :: "(nat \<Rightarrow> bool) \<Rightarrow> string \<Rightarrow> conv_state \<Rightarrow> control \<times> conv_state" where
  "handle_text ok txt s =
     (if txt = '''' then (Proceed, s)
      else and_then
             (if cv_type s \<in> {NoBlock, ThinkingType, ToolType} then open_block ok TextType (Some (TextBlock '''')) s
              else (Proceed, s))
             (send_delta ok (text_delta txt)))"

text \<open>One turn of the loop over the tool calls; its \<open>continue\<close> goes on with the next tool call.
  Reading a field of a nil call, or the name of a nil function, panics.\<close>

definition tool_block :: "tool_call option \<Rightarrow> claude_block option" where
  "tool_block t =
     (case t of
        None \<Rightarrow> None
      | Some c \<Rightarrow> map_option (\<lambda>f. ToolUseBlock (tc_ID c) (fn_Name f) ''{}'') (tc_Function c))"

definition tool_needs_block :: "tool_call option \<Rightarrow> conv_state \<Rightarrow> bool option" where
  "tool_needs_block t s =
     (case cv_type s of
        NoBlock \<Rightarrow> Some True
      | TextType \<Rightarrow> Some True
      | ToolType \<Rightarrow> map_option (\<lambda>c. cv_tool s \<noteq> tc_Index c) t
      | ThinkingType \<Rightarrow> Some False)"

definition tool_arguments :: "(nat \<Rightarrow> bool) \<Rightarrow> tool_call option \<Rightarrow> conv_state \<Rightarrow> control \<times> conv_state" where
  "tool_arguments ok t s =
     (case t of
        None \<Rightarrow> (Crash, s)
      | Some c \<Rightarrow>
          (case tc_Function c of
             Some f \<Rightarrow> if fn_Arguments f \<noteq> '''' then send_delta ok (json_delta (fn_Arguments f)) s else (Proceed, s)
           | None \<Rightarrow> (Proceed, s)))"

definition handle_tool :: "(nat \<Rightarrow> bool) \<Rightarrow> tool_call option \<Rightarrow> conv_state \<Rightarrow> control \<times> conv_state" where
  "handle_tool ok t s =
     (case tool_needs_block t s of
        None \<Rightarrow> (Crash, s)
      | Some need \<Rightarrow>
          and_then
            (if need
             then and_then (open_block ok ToolType (tool_block t) s)
                    (\<lambda>s1. (Proceed, s1\<lparr>cv_tool := (case t of Some c \<Rightarrow> tc_Index c | None \<Rightarrow> cv_tool s1)\<rparr>))
             else (Proceed, s))
            (tool_arguments ok t))"

fun handle_tools :: "(nat \<Rightarrow> bool) \<Rightarrow> tool_call option list \<Rightarrow> conv_state \<Rightarrow> control \<times> conv_state" where
  "handle_tools ok [] s = (Proceed, s)"
| "handle_tools ok (t # ts) s =
     (case handle_tool ok t s of
        (Crash, s1) \<Rightarrow> (Crash, s1)
      | (_, s1) \<Rightarrow> handle_tools ok ts s1)"

text \<open>The deltas of the first choice; a nil choice panics.\<close>

definition content_string :: "oa_content option \<Rightarrow> string" where
  "content_string c = (case c of Some x \<Rightarrow> oa_text x | None \<Rightarrow> '''')"

definition handle_choice :: "(nat \<Rightarrow> bool) \<Rightarrow> chat_chunk \<Rightarrow> conv_state \<Rightarrow> control \<times> conv_state" where
  "handle_choice ok ck s =
     (let deliver = (\<lambda>txt reasoning calls s.
            let s1 = (case ck_Usage ck of Some u \<Rightarrow> s\<lparr>cv_usage := Some u\<rparr> | None \<Rightarrow> s)
            in and_then (and_then (handle_reasoning ok reasoning s1) (handle_text ok txt)) (handle_tools ok calls))
      in case ck_Choices ck of
           [] \<Rightarrow> deliver '''' '''' [] s
         | None # _ \<Rightarrow> (Crash, s)
         | Some c # _ \<Rightarrow>
             let s0 = (if sch_FinishReason c \<noteq> '''' then s\<lparr>cv_finish := Some (sch_FinishReason c)\<rparr> else s)
             in case sch_Delta c of
                  None \<Rightarrow> deliver '''' '''' [] s0
                | Some d \<Rightarrow> deliver (content_string (m_Content d)) (content_string (m_ReasoningContent d)) (m_ToolCalls d) s0)"

definition convert_chunk :: "(nat \<Rightarrow> bool) \<Rightarrow> chat_chunk \<Rightarrow> conv_state \<Rightarrow> control \<times> conv_state" where
  "convert_chunk ok ck s =
     and_then
       (if cv_started s then (Proceed, s)
        else let (sent, s1) = send_event ok (message_start (ck_ID ck) (ck_Model ck)) s
             in if sent then (Proceed, s1\<lparr>cv_started := True\<rparr>) else (Continue, s1))
       (handle_choice ok ck)"

text \<open>The branch of \<open>[DONE]\<close>; a failed send breaks the loop.\<close>

definition finish_stream :: "(nat \<Rightarrow> bool) \<Rightarrow> conv_state \<Rightarrow> control \<times> conv_state" where
  "finish_stream ok s =
     (let (sent1, s1) = (if cv_type s \<noteq> NoBlock then send_event ok (block_stop (cv_index s)) s else (True, s))
      in if \<not> sent1 then (Break, s1)
         else let s2 = s1\<lparr>cv_type := NoBlock\<rparr>;
                  (sent2, s3) = (case cv_finish s2 of
                                   Some fr \<Rightarrow> send_event ok (message_delta fr (cv_usage s2)) s2
                                 | None \<Rightarrow> (True, s2))
              in if \<not> sent2 then (Break, s3)
                 else (Break, snd (send_event ok (empty_event ''message_stop'') (s3\<lparr>cv_finish := None\<rparr>))))"

definition convert_step :: "(nat \<Rightarrow> bool) \<Rightarrow> llm_value stream_chunk \<Rightarrow> conv_state \<Rightarrow> control \<times> conv_state" where
  "convert_step ok c s =
     (case fst (Parsed (ch_Body c)) of
        Panicked \<Rightarrow> (Crash, s)
      | Returned (v, Some e) \<Rightarrow> if errors_is e ''ErrStreamDone'' then finish_stream ok s else (Continue, s)
      | Returned (v, None) \<Rightarrow> (case v of Some (ChatChunkV ck) \<Rightarrow> convert_chunk ok ck s | _ \<Rightarrow> (Continue, s)))"

text \<open>The loop over the upstream's chunks; before the \<open>i\<close>-th the context may be done. A panic is
  recovered by \<open>SafeGo\<close>, and closes the stream like every other end.\<close>

fun convert_loop :: "(nat \<Rightarrow> bool) \<Rightarrow> (nat \<Rightarrow> bool) \<Rightarrow> nat \<Rightarrow> llm_value stream_chunk list \<Rightarrow> conv_state \<Rightarrow> conv_state" where
  "convert_loop ok done i [] s = s"
| "convert_loop ok done i (c # cs) s =
     (if done i then s
      else case convert_step ok c s of
             (Break, s1) \<Rightarrow> s1
           | (Crash, s1) \<Rightarrow> s1
           | (_, s1) \<Rightarrow> convert_loop ok done (Suc i) cs s1)"

definition event_chunk :: "json_lib \<Rightarrow> claude_event \<Rightarrow> llm_value stream_chunk" where
  "event_chunk J ev = \<lparr>ch_Metadata = [(''event'', ev_Type ev)],
     ch_Body = NewBodyFromBytes (Some (MarshalEvent J ev)) (Some (ClaudeEventParser J))\<rparr>"

record stream_env =
  send_ok :: "nat \<Rightarrow> bool"
  ctx_done :: "nat \<Rightarrow> bool"

definition convertStreamResponse :: "json_lib \<Rightarrow> stream_env \<Rightarrow> llm_value stream_chan \<Rightarrow> llm_value stream_chan" where
  "convertStreamResponse J env src =
     \<lparr>st_chunks = map (event_chunk J) (cv_out (convert_loop (send_ok env) (ctx_done env) 0 (st_chunks src) conv_init)),
      st_close = [OtherClose ''cancel'']\<rparr>"

section \<open>The engine\<close>

text \<open>\<open>Process\<close>: the result and the close callbacks of the upstream's response that ran.\<close>

definition converter_process ::
  "json_lib \<Rightarrow> stream_env \<Rightarrow> (llm_value body \<Rightarrow> llm_value http_response go_result) \<Rightarrow> llm_value body
    \<Rightarrow> (llm_value http_response go_result \<times> close_action list) outcome" where
  "converter_process J env nxt b =
     (case convertRequestBody J b of
        Panicked \<Rightarrow> Panicked
      | Returned (Inl e) \<Rightarrow> Returned ((None, Some (Wrap ''failed to convert request body'' [e])), [])
      | Returned (Inr nb) \<Rightarrow>
          (case nxt nb of
             (resp, Some e) \<Rightarrow> Returned ((None, Some e), [])
           | (None, None) \<Rightarrow> Panicked
           | (Some r, None) \<Rightarrow>
               (case hr_Stream r of
                  Some st \<Rightarrow> Returned ((Some (r\<lparr>hr_Stream := Some (convertStreamResponse J env st)\<rparr>), None), [])
                | None \<Rightarrow>
                    (case hr_Body r of
                       None \<Rightarrow> Panicked
                     | Some rb \<Rightarrow>
                         (case convertNonStreamResponseBody J rb of
                            Panicked \<Rightarrow> Panicked
                          | Returned (Inl e, cls) \<Rightarrow>
                              Returned ((None, Some (Wrap ''failed to convert non-stream response body'' [e])), cls @ fst (CloseBody rb))
                          | Returned (Inr b', cls) \<Rightarrow> Returned ((Some (r\<lparr>hr_Body := Some b'\<rparr>), None), cls))))))"

section \<open>The protocol of the events\<close>

text \<open>The order of events a client relies on: one \<open>message_start\<close>; content blocks numbered from 0, one
  at a time, each with its deltas; then \<open>message_delta\<close> and \<open>message_stop\<close>. In its strict form every
  delta is of the kind of its block.\<close>

datatype phase = Before | Between int | Inside int block_type | Finishing | Ended

definition block_kind :: "claude_block \<Rightarrow> block_type" where
  "block_kind b = (case b of TextBlock _ \<Rightarrow> TextType | ThinkingBlock _ _ \<Rightarrow> ThinkingType | ToolUseBlock _ _ _ \<Rightarrow> ToolType | _ \<Rightarrow> NoBlock)"

definition delta_kind :: "content_delta \<Rightarrow> block_type" where
  "delta_kind d =
     (if d_Type d = ''text_delta'' then TextType
      else if d_Type d = ''thinking_delta'' then ThinkingType
      else if d_Type d = ''input_json_delta'' then ToolType
      else NoBlock)"

definition event_step :: "bool \<Rightarrow> phase \<Rightarrow> claude_event \<Rightarrow> phase option" where
  "event_step strict ph ev =
     (case ph of
        Before \<Rightarrow> if ev_Type ev = ''message_start'' \<and> ev_Message ev \<noteq> None then Some (Between 0) else None
      | Between n \<Rightarrow>
          if ev_Type ev = ''content_block_start'' \<and> ev_Index ev = Some n
          then map_option (\<lambda>b. Inside n (block_kind b)) (ev_ContentBlock ev)
          else if ev_Type ev = ''message_delta'' then Some Finishing
          else if ev_Type ev = ''message_stop'' then Some Ended
          else None
      | Inside n k \<Rightarrow>
          if ev_Type ev = ''content_block_delta'' \<and> ev_Index ev = Some n
          then (case ev_Delta ev of Some d \<Rightarrow> if strict \<and> delta_kind d \<noteq> k then None else Some ph | None \<Rightarrow> None)
          else if ev_Type ev = ''content_block_stop'' \<and> ev_Index ev = Some n then Some (Between (n + 1))
          else None
      | Finishing \<Rightarrow> if ev_Type ev = ''message_stop'' then Some Ended else None
      | Ended \<Rightarrow> None)"

fun run_events :: "bool \<Rightarrow> phase \<Rightarrow> claude_event list \<Rightarrow> phase option" where
  "run_events strict ph [] = Some ph"
| "run_events strict ph (ev # evs) = (case event_step strict ph ev of None \<Rightarrow> None | Some ph' \<Rightarrow> run_events strict ph' evs)"

lemma run_events_append:
  "run_events strict ph (xs @ ys) = (case run_events strict ph xs of None \<Rightarrow> None | Some ph' \<Rightarrow> run_events strict ph' ys)"
  by (induction xs arbitrary: ph) (auto split: option.splits)

lemma event_steps [simp]:
  "event_step strict Before (message_start i m) = Some (Between 0)"
  "event_step strict (Between n) (block_start n b) = Some (Inside n (block_kind b))"
  "event_step strict (Between n) (message_delta fr u) = Some Finishing"
  "event_step strict (Between n) (empty_event ''message_stop'') = Some Ended"
  "event_step strict (Inside n k) (block_delta n d) = (if strict \<and> delta_kind d \<noteq> k then None else Some (Inside n k))"
  "event_step strict (Inside n k) (block_stop n) = Some (Between (n + 1))"
  "event_step strict Finishing (empty_event ''message_stop'') = Some Ended"
  by (simp_all add: event_step_def message_start_def block_start_def message_delta_def block_delta_def block_stop_def empty_event_def)

lemma kinds [simp]:
  "block_kind (TextBlock s) = TextType" "block_kind (ThinkingBlock t g) = ThinkingType" "block_kind (ToolUseBlock i n inp) = ToolType"
  "delta_kind (text_delta s) = TextType" "delta_kind (thinking_delta s) = ThinkingType" "delta_kind (json_delta s) = ToolType"
  by (simp_all add: block_kind_def delta_kind_def text_delta_def thinking_delta_def json_delta_def empty_delta_def)

text \<open>The phase a state of the conversion is in, when every send went through.\<close>

definition phase_of :: "conv_state \<Rightarrow> phase" where
  "phase_of s =
     (if \<not> cv_started s then Before
      else if cv_type s = NoBlock then Between (cv_index s + 1)
      else Inside (cv_index s) (cv_type s))"

abbreviation all_sent :: "nat \<Rightarrow> bool" where
  "all_sent \<equiv> \<lambda>n. True"

lemma send_event_all [simp]:
  "send_event all_sent ev s = (True, s\<lparr>cv_sends := Suc (cv_sends s), cv_out := cv_out s @ [ev]\<rparr>)"
  by (simp add: send_event_def Let_def)

lemma and_then_simps [simp]:
  "and_then (Proceed, s) k = k s" "and_then (Continue, s) k = (Continue, s)" "and_then (Crash, s) k = (Crash, s)"
  "and_then (Break, s) k = (Break, s)"
  by (simp_all add: and_then_def)

text \<open>The pieces of a chunk, in the order the loop handles them. A stream is calm when no tool call
  follows a piece of reasoning directly.\<close>

datatype piece = ReasoningPiece | TextPiece | ToolPiece

definition first_delta :: "chat_chunk \<Rightarrow> oa_message option" where
  "first_delta ck = (case ck_Choices ck of Some c # _ \<Rightarrow> sch_Delta c | _ \<Rightarrow> None)"

definition pieces :: "chat_chunk \<Rightarrow> piece list" where
  "pieces ck =
     (case first_delta ck of
        None \<Rightarrow> []
      | Some d \<Rightarrow>
          (if content_string (m_ReasoningContent d) \<noteq> '''' then [ReasoningPiece] else []) @
          (if content_string (m_Content d) \<noteq> '''' then [TextPiece] else []) @
          map (\<lambda>t. ToolPiece) (m_ToolCalls d))"

fun calm :: "bool \<Rightarrow> piece list \<Rightarrow> bool" where
  "calm r [] = True"
| "calm r (p # ps) \<longleftrightarrow> \<not> (r \<and> p = ToolPiece) \<and> calm (p = ReasoningPiece) ps"

text \<open>Nothing in a sound chunk is nil where the code reads it.\<close>

definition sound_call :: "tool_call option \<Rightarrow> bool" where
  "sound_call t = (case t of Some c \<Rightarrow> tc_Function c \<noteq> None | None \<Rightarrow> False)"

definition sound :: "chat_chunk \<Rightarrow> bool" where
  "sound ck \<longleftrightarrow> (case ck_Choices ck of None # _ \<Rightarrow> False | _ \<Rightarrow> True) \<and>
     (case first_delta ck of Some d \<Rightarrow> list_all sound_call (m_ToolCalls d) | None \<Rightarrow> True)"

definition fine :: "bool \<Rightarrow> piece list \<Rightarrow> conv_state \<Rightarrow> bool" where
  "fine strict ps s \<longleftrightarrow> cv_started s \<and> run_events strict Before (cv_out s) = Some (phase_of s) \<and>
     (strict \<longrightarrow> calm (cv_type s = ThinkingType) ps)"

lemma open_block_fine:
  assumes "fine strict ps s" "block_kind b = ty" "ty \<noteq> NoBlock" "strict \<longrightarrow> calm (ty = ThinkingType) qs"
  obtains s1 where "open_block all_sent ty (Some b) s = (Proceed, s1)" "fine strict qs s1" "cv_type s1 = ty"
proof (rule that)
  show "open_block all_sent ty (Some b) s = (Proceed, snd (open_block all_sent ty (Some b) s))"
    by (simp add: open_block_def Let_def)
  show "fine strict qs (snd (open_block all_sent ty (Some b) s))" "cv_type (snd (open_block all_sent ty (Some b) s)) = ty"
    using assms by (auto simp: open_block_def Let_def fine_def phase_of_def run_events_append)
qed

lemma send_delta_fine:
  assumes "fine strict ps s" "cv_type s \<noteq> NoBlock" "strict \<longrightarrow> delta_kind d = cv_type s"
  obtains s1 where "send_delta all_sent d s = (Proceed, s1)" "fine strict ps s1" "cv_type s1 = cv_type s"
  using assms by (auto simp: send_delta_def fine_def phase_of_def run_events_append)

lemma handle_reasoning_fine:
  assumes "fine strict ((if r \<noteq> '''' then [ReasoningPiece] else []) @ ps) s"
  obtains s1 where "handle_reasoning all_sent r s = (Proceed, s1)" "fine strict ps s1"
proof (cases "r = ''''")
  case True
  then show ?thesis using assms that by (simp add: handle_reasoning_def)
next
  case False
  have c: "strict \<longrightarrow> calm True ps" using assms False by (auto simp: fine_def)
  obtain s1 where s1: "(if cv_type s \<in> {NoBlock, TextType, ToolType} then open_block all_sent ThinkingType (Some (ThinkingBlock '''' '''')) s
      else (Proceed, s)) = (Proceed, s1)" "fine strict ps s1" "cv_type s1 = ThinkingType"
  proof (cases "cv_type s = ThinkingType")
    case True
    then show ?thesis using assms c that by (auto simp: fine_def)
  next
    case nt: False
    then have "cv_type s \<in> {NoBlock, TextType, ToolType}" by (cases "cv_type s") auto
    then show ?thesis using open_block_fine [OF assms, of "ThinkingBlock '''' ''''" ThinkingType ps] c that by auto
  qed
  from send_delta_fine [OF s1(2), of "thinking_delta r"] s1(3)
  obtain s2 where "send_delta all_sent (thinking_delta r) s1 = (Proceed, s2)" "fine strict ps s2" by auto
  then show ?thesis using that s1(1) False by (simp add: handle_reasoning_def)
qed

lemma handle_text_fine:
  assumes "fine strict ((if t \<noteq> '''' then [TextPiece] else []) @ ps) s"
  obtains s1 where "handle_text all_sent t s = (Proceed, s1)" "fine strict ps s1"
proof (cases "t = ''''")
  case True
  then show ?thesis using assms that by (simp add: handle_text_def)
next
  case False
  have c: "strict \<longrightarrow> calm False ps" using assms False by (auto simp: fine_def)
  obtain s1 where s1: "(if cv_type s \<in> {NoBlock, ThinkingType, ToolType} then open_block all_sent TextType (Some (TextBlock '''')) s
      else (Proceed, s)) = (Proceed, s1)" "fine strict ps s1" "cv_type s1 = TextType"
  proof (cases "cv_type s = TextType")
    case True
    then show ?thesis using assms c that by (auto simp: fine_def)
  next
    case nt: False
    then have "cv_type s \<in> {NoBlock, ThinkingType, ToolType}" by (cases "cv_type s") auto
    then show ?thesis using open_block_fine [OF assms, of "TextBlock ''''" TextType ps] c that by auto
  qed
  from send_delta_fine [OF s1(2), of "text_delta t"] s1(3)
  obtain s2 where "send_delta all_sent (text_delta t) s1 = (Proceed, s2)" "fine strict ps s2" by auto
  then show ?thesis using that s1(1) False by (simp add: handle_text_def)
qed


lemma handle_tool_fine:
  assumes "fine strict (ToolPiece # ps) s" "sound_call t"
  obtains s1 where "handle_tool all_sent t s = (Proceed, s1)" "fine strict ps s1"
proof -
  obtain c f where t: "t = Some c" "tc_Function c = Some f"
    using assms(2) by (auto simp: sound_call_def split: option.splits)
  have arguments: thesis
    if "handle_tool all_sent t s = tool_arguments all_sent t s1" "fine strict ps s1" "cv_type s1 \<noteq> NoBlock"
      "strict \<longrightarrow> cv_type s1 = ToolType" for s1
  proof (cases "fn_Arguments f = ''''")
    case True
    then show ?thesis using \<open>\<And>s1. handle_tool all_sent t s = (Proceed, s1) \<Longrightarrow> fine strict ps s1 \<Longrightarrow> thesis\<close> that(1,2)
      by (simp add: tool_arguments_def t)
  next
    case False
    from send_delta_fine [OF that(2,3), of "json_delta (fn_Arguments f)"] that(4)
    obtain s2 where "send_delta all_sent (json_delta (fn_Arguments f)) s1 = (Proceed, s2)" "fine strict ps s2" by auto
    then show ?thesis using \<open>\<And>s1. handle_tool all_sent t s = (Proceed, s1) \<Longrightarrow> fine strict ps s1 \<Longrightarrow> thesis\<close> that(1) False
      by (simp add: tool_arguments_def t)
  qed
  show ?thesis
  proof (cases "cv_type s = ThinkingType")
    case True
    then have "\<not> strict" using assms(1) by (auto simp: fine_def)
    with True assms(1) show ?thesis by (intro arguments [of s]) (auto simp: fine_def handle_tool_def tool_needs_block_def)
  next
    case nt: False
    have c: "strict \<longrightarrow> calm False ps" using assms(1) nt by (auto simp: fine_def)
    have need: "\<exists>b. tool_needs_block t s = Some b \<and> (\<not> b \<longrightarrow> cv_type s = ToolType)"
      using nt by (cases "cv_type s") (auto simp: tool_needs_block_def t)
    show ?thesis
    proof (cases "tool_needs_block t s = Some True")
      case True
      obtain s1 where s1: "open_block all_sent ToolType (tool_block t) s = (Proceed, s1)" "fine strict ps s1" "cv_type s1 = ToolType"
        using open_block_fine [OF assms(1), of "ToolUseBlock (tc_ID c) (fn_Name f) ''{}''" ToolType ps] c by (auto simp: tool_block_def t)
      have "fine strict ps (s1\<lparr>cv_tool := tc_Index c\<rparr>)" using s1(2) by (auto simp: fine_def phase_of_def)
      with s1 True show ?thesis by (intro arguments [of "s1\<lparr>cv_tool := tc_Index c\<rparr>"]) (auto simp: handle_tool_def t)
    next
      case False
      with need have "tool_needs_block t s = Some False" "cv_type s = ToolType" by auto
      with assms(1) c show ?thesis by (intro arguments [of s]) (auto simp: fine_def handle_tool_def)
    qed
  qed
qed

lemma handle_tools_fine:
  assumes "fine strict (map (\<lambda>t. ToolPiece) ts @ ps) s" "list_all sound_call ts"
  obtains s1 where "handle_tools all_sent ts s = (Proceed, s1)" "fine strict ps s1"
  using assms
proof (induction ts arbitrary: s thesis)
  case Nil
  then show ?case by simp
next
  case (Cons t ts)
  from Cons.prems(2,3) obtain s1 where s1: "handle_tool all_sent t s = (Proceed, s1)" "fine strict (map (\<lambda>t. ToolPiece) ts @ ps) s1"
    using handle_tool_fine [of strict "map (\<lambda>t. ToolPiece) ts @ ps" s t] by auto
  from Cons.IH [OF _ s1(2)] Cons.prems(3)
  obtain s2 where "handle_tools all_sent ts s1 = (Proceed, s2)" "fine strict ps s2" by auto
  with s1(1) Cons.prems(1) show ?case by simp
qed

lemma fine_usage [simp]: "fine strict ps (s\<lparr>cv_usage := u\<rparr>) = fine strict ps s" "fine strict ps (s\<lparr>cv_finish := fr\<rparr>) = fine strict ps s"
  by (simp_all add: fine_def phase_of_def)

lemma handle_choice_fine:
  assumes "fine strict (pieces ck @ ps) s" "sound ck"
  obtains s1 where "handle_choice all_sent ck s = (Proceed, s1)" "fine strict ps s1"
proof -
  define said where "said = (case first_delta ck of Some d \<Rightarrow> content_string (m_Content d) | None \<Rightarrow> '''')"
  define reasoning where "reasoning = (case first_delta ck of Some d \<Rightarrow> content_string (m_ReasoningContent d) | None \<Rightarrow> '''')"
  define calls where "calls = (case first_delta ck of Some d \<Rightarrow> m_ToolCalls d | None \<Rightarrow> [])"
  define s0 where "s0 = (case ck_Choices ck of Some c # _ \<Rightarrow> if sch_FinishReason c \<noteq> '''' then s\<lparr>cv_finish := Some (sch_FinishReason c)\<rparr> else s | _ \<Rightarrow> s)"
  define s1 where "s1 = (case ck_Usage ck of Some u \<Rightarrow> s0\<lparr>cv_usage := Some u\<rparr> | None \<Rightarrow> s0)"
  have choice: "handle_choice all_sent ck s =
      and_then (and_then (handle_reasoning all_sent reasoning s1) (handle_text all_sent said)) (handle_tools all_sent calls)"
    using assms(2)
    by (auto simp: handle_choice_def first_delta_def said_def reasoning_def calls_def s0_def s1_def sound_def Let_def
        split: list.splits option.splits)
  have ps: "pieces ck = (if reasoning \<noteq> '''' then [ReasoningPiece] else []) @ (if said \<noteq> '''' then [TextPiece] else []) @
      map (\<lambda>t. ToolPiece) calls"
    by (auto simp: pieces_def said_def reasoning_def calls_def split: option.splits)
  have "fine strict (pieces ck @ ps) s1"
    using assms(1) by (auto simp: s1_def s0_def split: option.splits list.splits)
  then obtain s2 where s2: "handle_reasoning all_sent reasoning s1 = (Proceed, s2)"
      "fine strict ((if said \<noteq> '''' then [TextPiece] else []) @ map (\<lambda>t. ToolPiece) calls @ ps) s2"
    using handle_reasoning_fine [of strict reasoning _ s1] unfolding ps append_assoc by blast
  from handle_text_fine [OF s2(2)] obtain s3 where s3: "handle_text all_sent said s2 = (Proceed, s3)"
      "fine strict (map (\<lambda>t. ToolPiece) calls @ ps) s3" by blast
  have "list_all sound_call calls" using assms(2) by (auto simp: sound_def calls_def split: option.splits)
  from handle_tools_fine [OF s3(2) this] obtain s4 where "handle_tools all_sent calls s3 = (Proceed, s4)" "fine strict ps s4" by blast
  then show ?thesis using that choice s2(1) s3(1) by simp
qed

text \<open>A chunk that carries a value, and the terminator.\<close>

definition delivers :: "llm_value stream_chunk \<Rightarrow> chat_chunk \<Rightarrow> bool" where
  "delivers c ck \<longleftrightarrow> fst (Parsed (ch_Body c)) = Returned (Some (ChatChunkV ck), None)"

definition terminates :: "llm_value stream_chunk \<Rightarrow> bool" where
  "terminates c \<longleftrightarrow> (case fst (Parsed (ch_Body c)) of Returned (v, Some e) \<Rightarrow> errors_is e ''ErrStreamDone'' | _ \<Rightarrow> False)"

lemma convert_chunk_fine:
  assumes "fine strict (pieces ck @ ps) s" "sound ck"
  obtains s1 where "convert_chunk all_sent ck s = (Proceed, s1)" "fine strict ps s1"
proof -
  have "convert_chunk all_sent ck s = handle_choice all_sent ck s" using assms(1) by (simp add: convert_chunk_def fine_def)
  then show ?thesis using handle_choice_fine [OF assms] that by auto
qed

lemma convert_first_chunk:
  assumes "sound ck" "strict \<longrightarrow> calm False (pieces ck @ ps)"
  obtains s1 where "convert_chunk all_sent ck conv_init = (Proceed, s1)" "fine strict ps s1"
proof -
  let ?s = "conv_init\<lparr>cv_sends := Suc 0, cv_out := [message_start (ck_ID ck) (ck_Model ck)], cv_started := True\<rparr>"
  have "fine strict (pieces ck @ ps) ?s" using assms(2) by (simp add: fine_def phase_of_def conv_init_def)
  from handle_choice_fine [OF this assms(1)] obtain s1 where "handle_choice all_sent ck ?s = (Proceed, s1)" "fine strict ps s1" by blast
  then show ?thesis using that by (simp add: convert_chunk_def conv_init_def)
qed

lemma convert_loop_fine:
  assumes "list_all2 delivers cs cks" "list_all sound cks" "fine strict (concat (map pieces cks) @ ps) s"
  obtains s1 where "\<And>rest i. convert_loop all_sent (\<lambda>_. False) i (cs @ rest) s = convert_loop all_sent (\<lambda>_. False) (i + length cs) rest s1"
    "fine strict ps s1"
  using assms
proof (induction cs cks arbitrary: s thesis rule: list_all2_induct)
  case Nil
  then show ?case by simp
next
  case (Cons c cs ck cks)
  have "fine strict (pieces ck @ concat (map pieces cks) @ ps) s" "sound ck" using Cons.prems by simp_all
  from convert_chunk_fine [OF this]
  obtain s1 where s1: "convert_chunk all_sent ck s = (Proceed, s1)" "fine strict (concat (map pieces cks) @ ps) s1" by blast
  have step: "convert_step all_sent c s = (Proceed, s1)" using Cons.hyps(1) s1(1) by (simp add: convert_step_def delivers_def)
  have "list_all sound cks" using Cons.prems by simp
  with s1(2) Cons.IH obtain s2 where s2: "\<And>rest i. convert_loop all_sent (\<lambda>_. False) i (cs @ rest) s1 =
      convert_loop all_sent (\<lambda>_. False) (i + length cs) rest s2" "fine strict ps s2" by blast
  show ?case by (rule Cons.prems(1) [OF _ s2(2)]) (simp add: step s2(1))
qed

lemma finish_stream_ends:
  assumes "fine strict ps s"
  shows "run_events strict Before (cv_out (snd (finish_stream all_sent s))) = Some Ended"
  using assms by (auto simp: finish_stream_def Let_def fine_def phase_of_def run_events_append split: option.splits)

lemma convert_loop_terminator:
  assumes "terminates d"
  shows "convert_loop all_sent (\<lambda>_. False) i (d # rest) s = snd (finish_stream all_sent s)"
proof -
  have "convert_step all_sent d s = finish_stream all_sent s"
    using assms by (auto simp: terminates_def convert_step_def split: outcome.splits option.splits)
  moreover have "fst (finish_stream all_sent s) = Break" by (simp add: finish_stream_def Let_def split: option.splits)
  ultimately show ?thesis by (cases "finish_stream all_sent s") simp
qed


text \<open>C19: The converted stream follows the protocol. When no send fails and the upstream ends with
  [DONE], the events are one message_start, numbered content blocks one at a time, and message_stop;
  and every delta is of its block's kind, provided no tool call directly follows reasoning.\<close>

theorem converted_stream_follows_protocol:
  assumes "st_chunks src = cs @ d # rest" "list_all2 delivers cs cks" "cks \<noteq> []" "list_all sound cks" "terminates d"
    and "strict \<longrightarrow> calm False (concat (map pieces cks))"
  shows "\<exists>evs. st_chunks (convertStreamResponse J \<lparr>send_ok = all_sent, ctx_done = (\<lambda>_. False)\<rparr> src) = map (event_chunk J) evs \<and>
    run_events strict Before evs = Some Ended"
proof -
  obtain c cs' ck cks' where cs: "cs = c # cs'" "cks = ck # cks'" "delivers c ck" "list_all2 delivers cs' cks'"
    using assms(2,3) by (cases cs; cases cks) auto
  have "sound ck" "list_all sound cks'" "strict \<longrightarrow> calm False (pieces ck @ concat (map pieces cks') @ [])"
    using assms(4,6) cs(2) by simp_all
  then obtain s1 where s1: "convert_chunk all_sent ck conv_init = (Proceed, s1)" "fine strict (concat (map pieces cks') @ []) s1"
    using convert_first_chunk by blast
  from convert_loop_fine [OF cs(4) \<open>list_all sound cks'\<close> s1(2)]
  obtain s2 where s2: "\<And>rest i. convert_loop all_sent (\<lambda>_. False) i (cs' @ rest) s1 =
      convert_loop all_sent (\<lambda>_. False) (i + length cs') rest s2" "fine strict [] s2" by blast
  have "convert_step all_sent c conv_init = (Proceed, s1)" using cs(3) s1(1) by (simp add: convert_step_def delivers_def)
  then have "convert_loop all_sent (\<lambda>_. False) 0 (st_chunks src) conv_init = convert_loop all_sent (\<lambda>_. False) 1 (cs' @ d # rest) s1"
    by (simp add: assms(1) cs(1))
  also have "\<dots> = snd (finish_stream all_sent s2)" unfolding s2(1) by (rule convert_loop_terminator [OF assms(5)])
  finally have "convert_loop all_sent (\<lambda>_. False) 0 (st_chunks src) conv_init = snd (finish_stream all_sent s2)" .
  with finish_stream_ends [OF s2(2)] show ?thesis by (auto simp: convertStreamResponse_def)
qed

definition delta_chunk :: "string \<Rightarrow> string \<Rightarrow> string \<Rightarrow> oa_message \<Rightarrow> chat_chunk" where
  "delta_chunk i model fr d = \<lparr>ck_ID = i, ck_Created = 0, ck_Model = model,
     ck_Choices = [Some \<lparr>sch_FinishReason = fr, sch_Index = 0, sch_Delta = Some d\<rparr>], ck_Usage = None\<rparr>"

definition carrier :: "chat_chunk \<Rightarrow> llm_value stream_chunk" where
  "carrier ck = \<lparr>ch_Metadata = [], ch_Body = NewBodyFromParsed (Some (ChatChunkV ck)) None\<rparr>"

definition done_chunk :: "llm_value stream_chunk" where
  "done_chunk = \<lparr>ch_Metadata = [], ch_Body = NewBodyFromBytes (Some ''[DONE]'')
     (Some \<lparr>Parse = (\<lambda>s. (None, Some (Wrap '''' [ErrStreamDone]))), Serialize = (\<lambda>v. Inr '''')\<rparr>)\<rparr>"

lemma carrier_delivers [simp]: "delivers (carrier ck) ck"
  by (simp add: delivers_def carrier_def Parsed_def NewBodyFromParsed_def)

lemma done_chunk_terminates [simp]: "terminates done_chunk"
  by (simp add: terminates_def done_chunk_def Parsed_def NewBodyFromBytes_def read_all_def)

definition say :: "string \<Rightarrow> oa_message" where
  "say s = oa_msg ''assistant'' (Some (OaString s))"

definition think :: "string \<Rightarrow> oa_message" where
  "think s = (oa_msg ''assistant'' None)\<lparr>m_ReasoningContent := Some (OaString s)\<rparr>"

definition call_tool :: "string \<Rightarrow> int \<Rightarrow> string \<Rightarrow> string \<Rightarrow> oa_message" where
  "call_tool i n nm args = (oa_msg '''' None)\<lparr>m_ToolCalls := [Some \<lparr>tc_ID = i, tc_Index = n, tc_Type = ''function'',
     tc_Function = Some \<lparr>fn_Name = nm, fn_Arguments = args\<rparr>\<rparr>]\<rparr>"

definition demo_json :: json_lib where
  "demo_json = \<lparr>Compact = Inr, UnmarshalString = Some, Valid = (\<lambda>s. s \<noteq> ''''), MarshalResponse = (\<lambda>r. ''{}''), MarshalEvent = (\<lambda>e. ''{}''),
     ChatRequestParser = \<lparr>Parse = (\<lambda>s. (None, None)), Serialize = (\<lambda>v. Inr '''')\<rparr>,
     ClaudeResponseParser = \<lparr>Parse = (\<lambda>s. (None, None)), Serialize = (\<lambda>v. Inr '''')\<rparr>,
     ClaudeEventParser = \<lparr>Parse = (\<lambda>s. (None, None)), Serialize = (\<lambda>v. Inr '''')\<rparr>\<rparr>"

theorem converted_stream_follows_protocol_witness:
  "\<exists>evs. st_chunks (convertStreamResponse demo_json \<lparr>send_ok = all_sent, ctx_done = (\<lambda>_. False)\<rparr>
       \<lparr>st_chunks = [carrier (delta_chunk ''c1'' ''m'' '''' (think ''hm'')), carrier (delta_chunk ''c1'' ''m'' '''' (say ''ok'')),
          carrier (delta_chunk ''c1'' ''m'' ''tool_calls'' (call_tool ''t1'' 0 ''f'' ''{}'')), done_chunk], st_close = []\<rparr>) =
     map (event_chunk demo_json) evs \<and> run_events True Before evs = Some Ended"
proof -
  let ?cks = "[delta_chunk ''c1'' ''m'' '''' (think ''hm''), delta_chunk ''c1'' ''m'' '''' (say ''ok''),
    delta_chunk ''c1'' ''m'' ''tool_calls'' (call_tool ''t1'' 0 ''f'' ''{}'')]"
  have "list_all2 delivers (map carrier ?cks) ?cks" by simp
  moreover have "list_all sound ?cks" "calm False (concat (map pieces ?cks))"
    by (simp_all add: sound_def sound_call_def first_delta_def pieces_def delta_chunk_def think_def say_def call_tool_def oa_msg_def content_string_def)
  ultimately show ?thesis
    using converted_stream_follows_protocol [of "\<lparr>st_chunks = map carrier ?cks @ [done_chunk], st_close = []\<rparr>" "map carrier ?cks" done_chunk "[]" ?cks True demo_json]
    by simp
qed


section \<open>Tool calls and their results\<close>

text \<open>What the two protocols ask of a conversation. OpenAI: the tool messages that answer the calls of an
  assistant message follow it at once, in order. Claude: the tool results are in the next user message.\<close>

definition call_ids :: "oa_message \<Rightarrow> string list" where
  "call_ids m = map (\<lambda>t. case t of Some c \<Rightarrow> tc_ID c | None \<Rightarrow> '''') (m_ToolCalls m)"

fun answered :: "string list \<Rightarrow> oa_message list \<Rightarrow> bool" where
  "answered pending [] \<longleftrightarrow> pending = []"
| "answered pending (m # ms) \<longleftrightarrow>
     (if m_Role m = ''tool'' then (case pending of [] \<Rightarrow> False | i # is \<Rightarrow> m_ToolCallID m = i \<and> answered is ms)
      else pending = [] \<and> answered (call_ids m) ms)"

fun tool_use_ids :: "claude_block option list \<Rightarrow> string list" where
  "tool_use_ids [] = []"
| "tool_use_ids (b # bs) = (case b of Some (ToolUseBlock i n inp) \<Rightarrow> i # tool_use_ids bs | _ \<Rightarrow> tool_use_ids bs)"

fun tool_result_ids :: "claude_block option list \<Rightarrow> string list" where
  "tool_result_ids [] = []"
| "tool_result_ids (b # bs) = (case b of Some (ToolResultBlock i c) \<Rightarrow> i # tool_result_ids bs | _ \<Rightarrow> tool_result_ids bs)"

definition content_blocks :: "claude_message \<Rightarrow> claude_block option list" where
  "content_blocks m = (case cm_Content m of Some (ContentBlocks bs) \<Rightarrow> bs | _ \<Rightarrow> [])"

fun claude_answered :: "string list \<Rightarrow> claude_message option list \<Rightarrow> bool" where
  "claude_answered pending [] \<longleftrightarrow> pending = []"
| "claude_answered pending (None # ms) \<longleftrightarrow> False"
| "claude_answered pending (Some m # ms) \<longleftrightarrow>
     (if cm_Role m = ''user'' then tool_result_ids (content_blocks m) = pending \<and> claude_answered [] ms
      else cm_Role m = ''assistant'' \<and> pending = [] \<and> '''' \<notin> set (tool_use_ids (content_blocks m)) \<and>
        claude_answered (tool_use_ids (content_blocks m)) ms)"

definition inputs_compact :: "json_lib \<Rightarrow> claude_message option \<Rightarrow> bool" where
  "inputs_compact J m = (case m of None \<Rightarrow> False | Some x \<Rightarrow>
     list_all (\<lambda>b. case b of Some (ToolUseBlock i n inp) \<Rightarrow> (\<exists>s. Compact J inp = Inr s) | _ \<Rightarrow> True) (content_blocks x))"

lemma user_blocks_tools:
  "'''' \<notin> set (tool_result_ids bs) \<Longrightarrow>
    list_all (\<lambda>m. m_Role m = ''tool'') (snd (user_blocks J bs)) \<and> map m_ToolCallID (snd (user_blocks J bs)) = tool_result_ids bs"
  by (induction bs) (auto simp: Let_def oa_msg_def case_prod_beta split: option.splits claude_block.splits)

lemma assistant_blocks_calls:
  assumes "list_all (\<lambda>b. case b of Some (ToolUseBlock i n inp) \<Rightarrow> (\<exists>s. Compact J inp = Inr s) | _ \<Rightarrow> True) bs"
  shows "\<exists>parts calls. assistant_blocks J i bs = Inr (parts, calls) \<and>
    map (\<lambda>t. case t of Some c \<Rightarrow> tc_ID c | None \<Rightarrow> '''') calls = tool_use_ids bs"
  using assms
proof (induction bs arbitrary: i)
  case Nil
  then show ?case by simp
next
  case (Cons b bs)
  then have "\<exists>parts calls. assistant_blocks J j bs = Inr (parts, calls) \<and>
      map (\<lambda>t. case t of Some c \<Rightarrow> tc_ID c | None \<Rightarrow> '''') calls = tool_use_ids bs" for j by simp
  note IH = this [of i] this [of "i + 1"]
  with Cons.prems show ?case by (auto split: option.splits claude_block.splits)
qed

lemma answered_tools:
  "list_all (\<lambda>m. m_Role m = ''tool'') tools \<Longrightarrow> map m_ToolCallID tools = pending \<Longrightarrow> answered pending (tools @ ms) = answered [] ms"
  by (induction tools arbitrary: pending) auto

lemma answered_plain: "m_Role m \<noteq> ''tool'' \<Longrightarrow> answered [] (m # ms) = answered (call_ids m) ms"
  by simp

lemma answered_user_message: "answered [] (user_message parts @ ms) = answered [] ms"
  by (simp add: user_message_def oa_msg_def call_ids_def)

lemma convert_messages_answered:
  assumes "claude_answered pending ms" "list_all (inputs_compact J) ms" "'''' \<notin> set pending"
  shows "\<exists>out. convert_messages J ms = Returned (Inr out) \<and> answered pending out"
  using assms
proof (induction ms arbitrary: pending)
  case Nil
  then show ?case by simp
next
  case (Cons x ms)
  then obtain m where x: "x = Some m" by (cases x) auto
  show ?case
  proof (cases "cm_Role m = ''user''")
    case True
    with Cons.prems x have p: "tool_result_ids (content_blocks m) = pending" "claude_answered [] ms" by auto
    from Cons.IH [OF p(2)] Cons.prems(2) obtain out where out: "convert_messages J ms = Returned (Inr out)" "answered [] out" by auto
    let ?t = "snd (user_blocks J (content_blocks m))"
    have tools: "answered pending (?t @ ys) = answered [] ys" for ys
      using user_blocks_tools [of "content_blocks m" J] p(1) Cons.prems(3) answered_tools by blast
    obtain parts where "convert_message J m = Inr (?t @ user_message parts)"
    proof (cases "cm_Content m")
      case None
      then have "convert_message J m = Inr (?t @ user_message [])"
        using True by (simp add: convert_message_def content_blocks_def user_message_def)
      then show ?thesis by (rule that)
    next
      case (Some c)
      then show ?thesis using True that by (cases c) (simp_all add: convert_message_def content_blocks_def)
    qed
    with out show ?thesis by (simp add: x tools answered_user_message)
  next
    case False
    with Cons.prems x have a: "cm_Role m = ''assistant''" "pending = []" "'''' \<notin> set (tool_use_ids (content_blocks m))"
        "claude_answered (tool_use_ids (content_blocks m)) ms" by auto
    from Cons.IH [OF a(4) _ a(3)] Cons.prems(2)
    obtain out where out: "convert_messages J ms = Returned (Inr out)" "answered (tool_use_ids (content_blocks m)) out" by auto
    obtain m' where m': "convert_message J m = Inr [m']" "m_Role m' = ''assistant''" "call_ids m' = tool_use_ids (content_blocks m)"
    proof (cases "cm_Content m")
      case None
      then show ?thesis using a(1) that by (simp add: convert_message_def content_blocks_def oa_msg_def call_ids_def)
    next
      case (Some c)
      show ?thesis
      proof (cases c)
        case (ContentString s)
        then show ?thesis using a(1) Some that by (simp add: convert_message_def content_blocks_def oa_msg_def call_ids_def)
      next
        case (ContentBlocks bs)
        with Cons.prems(2) x Some
        obtain parts calls where "assistant_blocks J 0 bs = Inr (parts, calls)"
            "map (\<lambda>t. case t of Some c \<Rightarrow> tc_ID c | None \<Rightarrow> '''') calls = tool_use_ids bs"
          using assistant_blocks_calls [of J bs 0] by (auto simp: inputs_compact_def content_blocks_def)
        then show ?thesis using a(1) Some ContentBlocks that
          by (simp add: convert_message_def content_blocks_def oa_msg_def call_ids_def)
      qed
    qed
    with out show ?thesis by (simp add: x a(2))
  qed
qed

lemma convert_tools_total: "list_all (\<lambda>t. t \<noteq> None) ts \<Longrightarrow> \<exists>us. convert_tools ts = Returned us"
  by (induction ts) auto

lemma system_messages_answered: "answered [] (system_messages sys @ ms) = answered [] ms"
proof -
  have "answered [] (map (\<lambda>s. oa_msg ''system'' (Some (OaString s))) xs @ ms) = answered [] ms" for xs
    by (induction xs) (simp_all add: oa_msg_def call_ids_def)
  then show ?thesis
    by (auto simp: system_messages_def oa_msg_def call_ids_def split: option.splits claude_system.splits list.splits)
qed

text \<open>C20: Tool results stay with their calls. A Claude conversation in which the results of an assistant's
  tool uses are in the next user message converts, and in the converted one every tool call is
  answered at once, in order.\<close>

theorem tool_results_stay_with_calls:
  assumes "claude_answered [] (rq_Messages src)" "list_all (inputs_compact J) (rq_Messages src)"
    and "list_all (\<lambda>t. t \<noteq> None) (rq_Tools src)"
  shows "\<exists>q. convert_request J src = Returned (Inr q) \<and> answered [] (q_Messages q)"
proof -
  obtain out where "convert_messages J (rq_Messages src) = Returned (Inr out)" "answered [] out"
    using convert_messages_answered [OF assms(1,2)] by auto
  moreover obtain us where "convert_tools (rq_Tools src) = Returned us" using convert_tools_total [OF assms(3)] by blast
  ultimately show ?thesis by (simp add: convert_request_def system_messages_answered)
qed

definition demo_request :: claude_request where
  "demo_request = \<lparr>rq_MaxTokens = 100,
     rq_Messages =
       [Some \<lparr>cm_Role = ''user'', cm_Content = Some (ContentString ''weather?'')\<rparr>,
        Some \<lparr>cm_Role = ''assistant'', cm_Content = Some (ContentBlocks [Some (TextBlock ''looking''),
          Some (ToolUseBlock ''t1'' ''f'' ''{}''), Some (ToolUseBlock ''t2'' ''g'' ''{}'')])\<rparr>,
        Some \<lparr>cm_Role = ''user'', cm_Content = Some (ContentBlocks [Some (TextBlock ''and?''),
          Some (ToolResultBlock ''t1'' (Some (ContentString ''sun''))), Some (ToolResultBlock ''t2'' None)])\<rparr>],
     rq_Model = ''m'', rq_System = Some (SystemString ''be brief''), rq_Temperature = None, rq_TopK = None, rq_TopP = None,
     rq_StopSequences = [], rq_Stream = None, rq_Thinking = None, rq_Tools = [], rq_ToolChoice = None\<rparr>"

theorem tool_results_stay_with_calls_witness:
  "\<exists>q. convert_request demo_json demo_request = Returned (Inr q) \<and> answered [] (q_Messages q)"
  by (rule tool_results_stay_with_calls)
    (simp_all add: demo_request_def demo_json_def content_blocks_def inputs_compact_def)

end
