(* ===== verification/StreamMerge.thy ===== *)
theory StreamMerge
  imports Converter
begin

text \<open>
  \<open>pkg/streammerge\<close>: mergers that fold the chunks of a streamed response back into one response, for
  OpenAI chat completions and for Claude messages. A \<open>strings.Builder\<close> is the text it holds.
\<close>

section \<open>Chat completions\<close>

record chat_tool_acc =
  ta_index :: int
  ta_id :: string
  ta_typ :: string
  ta_hasFunc :: bool
  ta_name :: string
  ta_args :: string

record chat_choice_acc =
  ca_index :: int
  ca_role :: string
  ca_finishReason :: string
  ca_content :: string
  ca_sawContent :: bool
  ca_reasoning :: string
  ca_sawReasoning :: bool
  ca_toolCalls :: "chat_tool_acc list"

text \<open>The map of choices is an association list; its order does not matter, as \<open>finalize\<close> sorts by
  index.\<close>

record chat_merger =
  mg_result :: chat_response
  mg_choices :: "(int \<times> chat_choice_acc) list"
  mg_finalized :: bool

definition NewChatCompletionMerger :: chat_merger where
  "NewChatCompletionMerger = \<lparr>mg_result = \<lparr>cr_ID = '''', cr_Created = 0, cr_Object = ''chat.completion'', cr_Model = '''',
     cr_Choices = [], cr_Usage = None\<rparr>, mg_choices = [], mg_finalized = False\<rparr>"

definition overlay :: "int \<Rightarrow> int \<Rightarrow> int" where
  "overlay dst src = (if src \<noteq> 0 then src else dst)"

fun mergeCompletionTokensDetails :: "completion_details option \<Rightarrow> completion_details option \<Rightarrow> completion_details option" where
  "mergeCompletionTokensDetails dst None = dst"
| "mergeCompletionTokensDetails None (Some s) = Some s"
| "mergeCompletionTokensDetails (Some d) (Some s) =
     Some \<lparr>cd_ReasoningTokens = overlay (cd_ReasoningTokens d) (cd_ReasoningTokens s), cd_AudioTokens = overlay (cd_AudioTokens d) (cd_AudioTokens s)\<rparr>"

fun mergePromptTokensDetails :: "prompt_details option \<Rightarrow> prompt_details option \<Rightarrow> prompt_details option" where
  "mergePromptTokensDetails dst None = dst"
| "mergePromptTokensDetails None (Some s) = Some s"
| "mergePromptTokensDetails (Some d) (Some s) =
     Some \<lparr>pd_CachedTokens = overlay (pd_CachedTokens d) (pd_CachedTokens s), pd_AudioTokens = overlay (pd_AudioTokens d) (pd_AudioTokens s)\<rparr>"

fun mergeChatCompletionUsage :: "usage option \<Rightarrow> usage option \<Rightarrow> usage option" where
  "mergeChatCompletionUsage dst None = dst"
| "mergeChatCompletionUsage None (Some s) = Some s"
| "mergeChatCompletionUsage (Some d) (Some s) =
     Some \<lparr>u_CompletionTokens = overlay (u_CompletionTokens d) (u_CompletionTokens s),
       u_PromptTokens = overlay (u_PromptTokens d) (u_PromptTokens s),
       u_TotalTokens = overlay (u_TotalTokens d) (u_TotalTokens s),
       u_CompletionDetails = mergeCompletionTokensDetails (u_CompletionDetails d) (u_CompletionDetails s),
       u_PromptDetails = mergePromptTokensDetails (u_PromptDetails d) (u_PromptDetails s)\<rparr>"

definition or_keep :: "string \<Rightarrow> string \<Rightarrow> string" where
  "or_keep old new = (if new \<noteq> '''' then new else old)"

definition add_fragment :: "tool_call \<Rightarrow> chat_tool_acc \<Rightarrow> chat_tool_acc" where
  "add_fragment d a =
     (let a1 = a\<lparr>ta_id := or_keep (ta_id a) (tc_ID d), ta_typ := or_keep (ta_typ a) (tc_Type d)\<rparr>
      in case tc_Function d of
           None \<Rightarrow> a1
         | Some f \<Rightarrow> a1\<lparr>ta_hasFunc := True, ta_name := ta_name a1 @ fn_Name f, ta_args := ta_args a1 @ fn_Arguments f\<rparr>)"

fun mergeToolCall :: "tool_call option \<Rightarrow> chat_tool_acc list \<Rightarrow> chat_tool_acc list" where
  "mergeToolCall None accs = accs"
| "mergeToolCall (Some d) [] =
     [add_fragment d \<lparr>ta_index = tc_Index d, ta_id = '''', ta_typ = '''', ta_hasFunc = False, ta_name = '''', ta_args = ''''\<rparr>]"
| "mergeToolCall (Some d) (a # accs) =
     (if ta_index a = tc_Index d then add_fragment d a # accs else a # mergeToolCall (Some d) accs)"

definition merge_delta :: "oa_message \<Rightarrow> chat_choice_acc \<Rightarrow> chat_choice_acc" where
  "merge_delta d a =
     (let a1 = a\<lparr>ca_role := or_keep (ca_role a) (m_Role d)\<rparr>;
          a2 = (case m_Content d of
                  Some (OaString s) \<Rightarrow> a1\<lparr>ca_content := ca_content a1 @ s, ca_sawContent := True\<rparr> | _ \<Rightarrow> a1);
          a3 = (case m_ReasoningContent d of
                  Some (OaString s) \<Rightarrow> a2\<lparr>ca_reasoning := ca_reasoning a2 @ s, ca_sawReasoning := True\<rparr> | _ \<Rightarrow> a2)
      in a3\<lparr>ca_toolCalls := fold mergeToolCall (m_ToolCalls d) (ca_toolCalls a3)\<rparr>)"

definition new_choice :: "int \<Rightarrow> chat_choice_acc" where
  "new_choice i = \<lparr>ca_index = i, ca_role = '''', ca_finishReason = '''', ca_content = '''', ca_sawContent = False, ca_reasoning = '''',
     ca_sawReasoning = False, ca_toolCalls = []\<rparr>"

definition merge_choice :: "stream_choice option \<Rightarrow> (int \<times> chat_choice_acc) list \<Rightarrow> (int \<times> chat_choice_acc) list" where
  "merge_choice sc choices =
     (case sc of
        None \<Rightarrow> choices
      | Some c \<Rightarrow>
          let acc = (case map_of choices (sch_Index c) of Some a \<Rightarrow> a | None \<Rightarrow> new_choice (sch_Index c));
              acc1 = acc\<lparr>ca_finishReason := or_keep (ca_finishReason acc) (sch_FinishReason c)\<rparr>
          in AList.update (sch_Index c) (case sch_Delta c of None \<Rightarrow> acc1 | Some d \<Rightarrow> merge_delta d acc1) choices)"

definition merge_chunk :: "chat_chunk \<Rightarrow> chat_merger \<Rightarrow> chat_merger" where
  "merge_chunk ck m =
     (let r = mg_result m
      in m\<lparr>mg_result := r\<lparr>cr_ID := or_keep (cr_ID r) (ck_ID ck), cr_Model := or_keep (cr_Model r) (ck_Model ck),
             cr_Created := overlay (cr_Created r) (ck_Created ck), cr_Usage := mergeChatCompletionUsage (cr_Usage r) (ck_Usage ck)\<rparr>,
           mg_choices := fold merge_choice (ck_Choices ck) (mg_choices m)\<rparr>)"

definition chat_Merge :: "llm_value stream_chunk \<Rightarrow> chat_merger \<Rightarrow> err option outcome \<times> chat_merger" where
  "chat_Merge c m =
     (case fst (Parsed (ch_Body c)) of
        Panicked \<Rightarrow> (Panicked, m)
      | Returned (v, Some e) \<Rightarrow> (Returned (if errors_is e ''ErrStreamDone'' then None else Some e), m)
      | Returned (v, None) \<Rightarrow> (case v of Some (ChatChunkV ck) \<Rightarrow> (Returned None, merge_chunk ck m) | _ \<Rightarrow> (Returned None, m)))"

definition build_call :: "chat_tool_acc \<Rightarrow> tool_call" where
  "build_call a = \<lparr>tc_ID = ta_id a, tc_Index = ta_index a, tc_Type = ta_typ a,
     tc_Function = (if ta_hasFunc a then Some \<lparr>fn_Name = ta_name a, fn_Arguments = ta_args a\<rparr> else None)\<rparr>"

definition build_choice :: "chat_choice_acc \<Rightarrow> chat_choice" where
  "build_choice a = \<lparr>cc_FinishReason = ca_finishReason a, cc_Index = ca_index a,
     cc_Message = Some \<lparr>m_Role = ca_role a,
       m_Content = (if ca_sawContent a then Some (OaString (ca_content a)) else None),
       m_ReasoningContent = (if ca_sawReasoning a then Some (OaString (ca_reasoning a)) else None),
       m_Name = '''', m_ToolCalls = map (\<lambda>t. Some (build_call t)) (ca_toolCalls a), m_ToolCallID = ''''\<rparr>\<rparr>"

definition chat_finalize :: "chat_merger \<Rightarrow> chat_merger" where
  "chat_finalize m =
     (if mg_finalized m then m
      else m\<lparr>mg_finalized := True,
             mg_result := (mg_result m)\<lparr>cr_Choices := map Some (sort_key cc_Index (map (\<lambda>(i, a). build_choice a) (mg_choices m)))\<rparr>\<rparr>)"

definition chat_Merged :: "llm_value parser \<Rightarrow> chat_merger \<Rightarrow> llm_value body \<times> chat_merger" where
  "chat_Merged p m = (let m1 = chat_finalize m in (NewBodyFromParsed (Some (ChatResponseV (mg_result m1))) (Some p), m1))"

section \<open>Claude messages\<close>

record claude_block_acc =
  ba_kind :: string
  ba_id :: string
  ba_name :: string
  ba_text :: string
  ba_signature :: string
  ba_input :: string
  ba_passthrough :: "claude_block option"

record claude_merger =
  cmg_response :: claude_response
  cmg_blocks :: "claude_block_acc option list"
  cmg_finalized :: bool

definition NewClaudeMessagesMerger :: claude_merger where
  "NewClaudeMessagesMerger = \<lparr>cmg_response = \<lparr>cl_ID = '''', cl_Type = '''', cl_Role = '''', cl_Content = [], cl_Model = '''',
     cl_StopReason = '''', cl_StopSequence = None, cl_Usage = None\<rparr>, cmg_blocks = [], cmg_finalized = False\<rparr>"

definition blockIndex :: "claude_event \<Rightarrow> int" where
  "blockIndex ev = (case ev_Index ev of Some i \<Rightarrow> i | None \<Rightarrow> 0)"

definition empty_acc :: "string \<Rightarrow> claude_block_acc" where
  "empty_acc k = \<lparr>ba_kind = k, ba_id = '''', ba_name = '''', ba_text = '''', ba_signature = '''', ba_input = '''', ba_passthrough = None\<rparr>"

definition newBlockAcc :: "claude_block option \<Rightarrow> claude_block_acc option" where
  "newBlockAcc started =
     (case started of
        None \<Rightarrow> None
      | Some (TextBlock s) \<Rightarrow> Some (empty_acc ''text'')
      | Some (ThinkingBlock t g) \<Rightarrow> Some (empty_acc ''thinking'')
      | Some (ToolUseBlock i n inp) \<Rightarrow> Some ((empty_acc ''tool_use'')\<lparr>ba_id := i, ba_name := n\<rparr>)
      | Some b \<Rightarrow> Some ((empty_acc '''')\<lparr>ba_passthrough := Some b\<rparr>))"

definition applyDelta :: "content_delta \<Rightarrow> claude_block_acc \<Rightarrow> claude_block_acc" where
  "applyDelta d a =
     (if d_Type d = ''text_delta''
      then (case d_Text d of Some s \<Rightarrow> if ba_kind a = ''text'' then a\<lparr>ba_text := ba_text a @ s\<rparr> else a | None \<Rightarrow> a)
      else if d_Type d = ''thinking_delta''
      then (case d_Thinking d of Some s \<Rightarrow> if ba_kind a = ''thinking'' then a\<lparr>ba_text := ba_text a @ s\<rparr> else a | None \<Rightarrow> a)
      else if d_Type d = ''signature_delta''
      then (case d_Signature d of Some s \<Rightarrow> if ba_kind a = ''thinking'' then a\<lparr>ba_signature := ba_signature a @ s\<rparr> else a | None \<Rightarrow> a)
      else if d_Type d = ''input_json_delta''
      then (case d_PartialJSON d of Some s \<Rightarrow> if ba_kind a = ''tool_use'' then a\<lparr>ba_input := ba_input a @ s\<rparr> else a | None \<Rightarrow> a)
      else a)"

definition build_block :: "claude_block_acc \<Rightarrow> claude_block option" where
  "build_block a =
     (if ba_kind a = ''text'' then Some (TextBlock (ba_text a))
      else if ba_kind a = ''thinking'' then Some (ThinkingBlock (ba_text a) (ba_signature a))
      else if ba_kind a = ''tool_use''
      then Some (ToolUseBlock (ba_id a) (ba_name a) (if ba_input a = '''' then ''{}'' else ba_input a))
      else ba_passthrough a)"

definition or_new :: "'a option \<Rightarrow> 'a option \<Rightarrow> 'a option" where
  "or_new old new = (case new of Some x \<Rightarrow> Some x | None \<Rightarrow> old)"

fun mergeClaudeUsage :: "claude_usage option \<Rightarrow> claude_usage option \<Rightarrow> claude_usage option" where
  "mergeClaudeUsage dst None = dst"
| "mergeClaudeUsage None (Some s) = Some s"
| "mergeClaudeUsage (Some d) (Some s) =
     Some \<lparr>cu_Input = or_new (cu_Input d) (cu_Input s), cu_Output = or_new (cu_Output d) (cu_Output s),
       cu_CacheCreation = or_new (cu_CacheCreation d) (cu_CacheCreation s), cu_CacheRead = or_new (cu_CacheRead d) (cu_CacheRead s)\<rparr>"

text \<open>One event. A block that starts at a negative index panics.\<close>

definition merge_event :: "claude_event \<Rightarrow> claude_merger \<Rightarrow> err option outcome \<times> claude_merger" where
  "merge_event ev m =
     (let r = cmg_response m; idx = blockIndex ev; bs = cmg_blocks m
      in if ev_Type ev = ''message_start''
         then (Returned None,
               case ev_Message ev of
                 None \<Rightarrow> m
               | Some msg \<Rightarrow> m\<lparr>cmg_response := r\<lparr>cl_ID := or_keep (cl_ID r) (cl_ID msg), cl_Type := or_keep (cl_Type r) (cl_Type msg),
                   cl_Role := or_keep (cl_Role r) (cl_Role msg), cl_Model := or_keep (cl_Model r) (cl_Model msg),
                   cl_Usage := mergeClaudeUsage (cl_Usage r) (cl_Usage msg)\<rparr>\<rparr>)
         else if ev_Type ev = ''content_block_start''
         then (if idx < 0 then (Panicked, m)
               else (Returned None,
                     m\<lparr>cmg_blocks := (bs @ replicate (nat idx + 1 - length bs) None)[nat idx := newBlockAcc (ev_ContentBlock ev)]\<rparr>))
         else if ev_Type ev = ''content_block_delta''
         then (if idx < 0 \<or> int (length bs) \<le> idx then (Returned (Some (Plain ''content_block_delta index out of range'')), m)
               else case bs ! nat idx of
                      None \<Rightarrow> (Returned (Some (Plain ''content_block_delta index out of range'')), m)
                    | Some a \<Rightarrow>
                        (Returned None,
                         case ev_Delta ev of None \<Rightarrow> m | Some d \<Rightarrow> m\<lparr>cmg_blocks := bs[nat idx := Some (applyDelta d a)]\<rparr>))
         else if ev_Type ev = ''message_delta''
         then (let r1 = (case ev_Delta ev of
                           None \<Rightarrow> r
                         | Some d \<Rightarrow> r\<lparr>cl_StopReason := (case d_StopReason d of Some s \<Rightarrow> s | None \<Rightarrow> cl_StopReason r),
                                        cl_StopSequence := or_new (cl_StopSequence r) (d_StopSequence d)\<rparr>)
               in (Returned None, m\<lparr>cmg_response := r1\<lparr>cl_Usage := mergeClaudeUsage (cl_Usage r1) (ev_Usage ev)\<rparr>\<rparr>))
         else (Returned None, m))"

definition claude_Merge :: "llm_value stream_chunk \<Rightarrow> claude_merger \<Rightarrow> err option outcome \<times> claude_merger" where
  "claude_Merge c m =
     (case fst (Parsed (ch_Body c)) of
        Panicked \<Rightarrow> (Panicked, m)
      | Returned (v, Some e) \<Rightarrow> (Returned (if errors_is e ''ErrStreamDone'' then None else Some e), m)
      | Returned (v, None) \<Rightarrow> (case v of Some (ClaudeEventV ev) \<Rightarrow> merge_event ev m | _ \<Rightarrow> (Returned None, m)))"

definition claude_finalize :: "claude_merger \<Rightarrow> claude_merger" where
  "claude_finalize m =
     (if cmg_finalized m then m
      else m\<lparr>cmg_finalized := True,
             cmg_response := (cmg_response m)\<lparr>cl_Content := map Some (List.map_filter (\<lambda>a. Option.bind a build_block) (cmg_blocks m))\<rparr>\<rparr>)"

definition claude_Merged :: "llm_value parser \<Rightarrow> claude_merger \<Rightarrow> llm_value body \<times> claude_merger" where
  "claude_Merged p m = (let m1 = claude_finalize m in (NewBodyFromParsed (Some (ClaudeResponseV (cmg_response m1))) (Some p), m1))"

text \<open>\<open>For\<close>: the merger of a format.\<close>

datatype merger = ChatMerger chat_merger | ClaudeMerger claude_merger

definition merger_for :: "string \<Rightarrow> err + merger" where
  "merger_for format =
     (if format = ''chat/completions'' then Inr (ChatMerger NewChatCompletionMerger)
      else if format = ''messages'' then Inr (ClaudeMerger NewClaudeMessagesMerger)
      else Inl (Sentinel ''ErrUnsupportedFormat''))"

section \<open>Merging converted streams\<close>

fun merge_events :: "claude_event list \<Rightarrow> claude_merger \<Rightarrow> claude_merger option" where
  "merge_events [] m = Some m"
| "merge_events (ev # evs) m = (case merge_event ev m of (Returned None, m1) \<Rightarrow> merge_events evs m1 | _ \<Rightarrow> None)"

lemma merge_events_append:
  "merge_events (xs @ ys) m = (case merge_events xs m of None \<Rightarrow> None | Some m1 \<Rightarrow> merge_events ys m1)"
  by (induction xs arbitrary: m) (auto split: outcome.splits option.splits prod.splits)

fun convert_all :: "chat_chunk list \<Rightarrow> conv_state \<Rightarrow> conv_state option" where
  "convert_all [] s = Some s"
| "convert_all (ck # cks) s = (case convert_chunk all_sent ck s of (Proceed, s1) \<Rightarrow> convert_all cks s1 | _ \<Rightarrow> None)"

lemma convert_all_append:
  "convert_all (xs @ ys) s = (case convert_all xs s of None \<Rightarrow> None | Some s1 \<Rightarrow> convert_all ys s1)"
  by (induction xs arbitrary: s) (auto split: prod.splits control.splits)

lemma convert_loop_all:
  assumes "list_all2 delivers cs cks" "convert_all cks s = Some s1"
  shows "convert_loop all_sent (\<lambda>_. False) i (cs @ rest) s = convert_loop all_sent (\<lambda>_. False) (i + length cs) rest s1"
  using assms
proof (induction cs cks arbitrary: s i rule: list_all2_induct)
  case Nil
  then show ?case by simp
next
  case (Cons c cs ck cks)
  from Cons.prems obtain s2 where s2: "convert_chunk all_sent ck s = (Proceed, s2)" "convert_all cks s2 = Some s1"
    by (auto split: prod.splits control.splits)
  then have "convert_step all_sent c s = (Proceed, s2)" using Cons.hyps(1) by (simp add: convert_step_def delivers_def)
  then show ?case using Cons.IH [OF s2(2)] by simp
qed

text \<open>The response a Claude merger holds after \<open>message_start\<close>, and a conversion whose events merge to
  given blocks.\<close>

definition start_response :: "string \<Rightarrow> string \<Rightarrow> claude_response" where
  "start_response i model = claude_message_response i model [] ''''
     (Some \<lparr>cu_Input = Some 0, cu_Output = Some 0, cu_CacheCreation = None, cu_CacheRead = None\<rparr>)"

definition merges_to :: "string \<Rightarrow> string \<Rightarrow> claude_block_acc list \<Rightarrow> conv_state \<Rightarrow> bool" where
  "merges_to i model bs s \<longleftrightarrow> cv_started s \<and> cv_finish s = None \<and> cv_usage s = None \<and> cv_index s = int (length bs) - 1 \<and>
     merge_events (cv_out s) NewClaudeMessagesMerger =
       Some \<lparr>cmg_response = start_response i model, cmg_blocks = map Some bs, cmg_finalized = False\<rparr>"

lemma merge_block_stop [simp]: "merge_event (block_stop i) m = (Returned None, m)"
  by (simp add: merge_event_def block_stop_def empty_event_def)

lemma merge_block_start:
  "cmg_blocks m = map Some bs \<Longrightarrow> newBlockAcc (Some b) = Some a \<Longrightarrow>
    merge_event (block_start (int (length bs)) b) m = (Returned None, m\<lparr>cmg_blocks := map Some (bs @ [a])\<rparr>)"
  by (simp add: merge_event_def block_start_def empty_event_def blockIndex_def list_update_append)

lemma merge_block_delta:
  "cmg_blocks m = map Some (bs @ [a]) \<Longrightarrow>
    merge_event (block_delta (int (length bs)) d) m = (Returned None, m\<lparr>cmg_blocks := map Some (bs @ [applyDelta d a])\<rparr>)"
  by (simp add: merge_event_def block_delta_def empty_event_def blockIndex_def list_update_append nth_append)

lemma open_block_merges:
  assumes "merges_to i model bs s" "newBlockAcc (Some b) = Some a"
  obtains s1 where "open_block all_sent ty (Some b) s = (Proceed, s1)" "merges_to i model (bs @ [a]) s1" "cv_type s1 = ty"
proof (rule that)
  show "open_block all_sent ty (Some b) s = (Proceed, snd (open_block all_sent ty (Some b) s))"
    by (simp add: open_block_def Let_def)
  show "merges_to i model (bs @ [a]) (snd (open_block all_sent ty (Some b) s))" "cv_type (snd (open_block all_sent ty (Some b) s)) = ty"
    using assms by (auto simp: open_block_def Let_def merges_to_def merge_events_append merge_block_start)
qed

lemma send_delta_merges:
  assumes "merges_to i model (bs @ [a]) s"
  obtains s1 where "send_delta all_sent d s = (Proceed, s1)" "merges_to i model (bs @ [applyDelta d a]) s1" "cv_type s1 = cv_type s"
    "cv_tool s1 = cv_tool s"
  using assms by (auto simp: send_delta_def merges_to_def merge_events_append merge_block_delta)


text \<open>The blocks of reasoning \<open>r\<close>, text \<open>t\<close> and tool calls, and the state of a conversion that has sent
  them in this order.\<close>

definition tool_acc :: "string \<times> string \<times> string \<Rightarrow> claude_block_acc" where
  "tool_acc c = (let (k, nm, args) = c in (empty_acc ''tool_use'')\<lparr>ba_id := k, ba_name := nm, ba_input := args\<rparr>)"

definition blocks_of :: "string \<Rightarrow> string \<Rightarrow> (string \<times> string \<times> string) list \<Rightarrow> claude_block_acc list" where
  "blocks_of r t calls =
     (if r \<noteq> '''' then [(empty_acc ''thinking'')\<lparr>ba_text := r\<rparr>] else []) @
     (if t \<noteq> '''' then [(empty_acc ''text'')\<lparr>ba_text := t\<rparr>] else []) @ map tool_acc calls"

definition top_type :: "string \<Rightarrow> string \<Rightarrow> (string \<times> string \<times> string) list \<Rightarrow> block_type" where
  "top_type r t calls =
     (if calls \<noteq> [] then ToolType else if t \<noteq> '''' then TextType else if r \<noteq> '''' then ThinkingType else NoBlock)"

definition conv_sync :: "string \<Rightarrow> string \<Rightarrow> string \<Rightarrow> string \<Rightarrow> (string \<times> string \<times> string) list \<Rightarrow> conv_state \<Rightarrow> bool" where
  "conv_sync i model r t calls s \<longleftrightarrow> merges_to i model (blocks_of r t calls) s \<and> cv_type s = top_type r t calls \<and>
     (calls \<noteq> [] \<longrightarrow> cv_tool s = int (length calls) - 1)"

lemma applyDelta_simps [simp]:
  "applyDelta (thinking_delta x) ((empty_acc ''thinking'')\<lparr>ba_text := r\<rparr>) = (empty_acc ''thinking'')\<lparr>ba_text := r @ x\<rparr>"
  "applyDelta (text_delta x) ((empty_acc ''text'')\<lparr>ba_text := r\<rparr>) = (empty_acc ''text'')\<lparr>ba_text := r @ x\<rparr>"
  "applyDelta (json_delta x) (tool_acc (k, nm, a)) = tool_acc (k, nm, a @ x)"
  by (simp_all add: applyDelta_def thinking_delta_def text_delta_def json_delta_def empty_delta_def empty_acc_def tool_acc_def)

lemma chunk_steps:
  assumes "cv_started s"
  shows "convert_chunk ok (delta_chunk i m '''' (think x)) s =
      and_then (and_then (handle_reasoning ok x s) (handle_text ok '''')) (handle_tools ok [])"
    and "convert_chunk ok (delta_chunk i m '''' (say x)) s =
      and_then (and_then (handle_reasoning ok '''' s) (handle_text ok x)) (handle_tools ok [])"
    and "convert_chunk ok (delta_chunk i m '''' (call_tool k n nm x)) s =
      and_then (and_then (handle_reasoning ok '''' s) (handle_text ok ''''))
        (handle_tools ok [Some \<lparr>tc_ID = k, tc_Index = n, tc_Type = ''function'', tc_Function = Some \<lparr>fn_Name = nm, fn_Arguments = x\<rparr>\<rparr>])"
  using assms
  by (simp_all add: convert_chunk_def handle_choice_def delta_chunk_def think_def say_def call_tool_def oa_msg_def content_string_def Let_def)

lemma empty_pieces [simp]: "handle_reasoning ok '''' s = (Proceed, s)" "handle_text ok '''' s = (Proceed, s)"
  by (simp_all add: handle_reasoning_def handle_text_def)

lemma conv_sync_started: "conv_sync i m r t calls s \<Longrightarrow> cv_started s"
  by (simp add: conv_sync_def merges_to_def)

lemma new_accs:
  "newBlockAcc (Some (ThinkingBlock a b)) = Some ((empty_acc ''thinking'')\<lparr>ba_text := ''''\<rparr>)"
  "newBlockAcc (Some (TextBlock a)) = Some ((empty_acc ''text'')\<lparr>ba_text := ''''\<rparr>)"
  "newBlockAcc (Some (ToolUseBlock k nm a)) = Some (tool_acc (k, nm, ''''))"
  by (simp_all add: newBlockAcc_def empty_acc_def tool_acc_def)

lemma conv_think:
  assumes "conv_sync i m r '''' [] s" "x \<noteq> ''''"
  obtains s1 where "convert_chunk all_sent (delta_chunk i m '''' (think x)) s = (Proceed, s1)" "conv_sync i m (r @ x) '''' [] s1"
proof -
  obtain s1 where s1: "(if cv_type s \<in> {NoBlock, TextType, ToolType} then open_block all_sent ThinkingType (Some (ThinkingBlock '''' '''')) s
      else (Proceed, s)) = (Proceed, s1)" "merges_to i m ([] @ [(empty_acc ''thinking'')\<lparr>ba_text := r\<rparr>]) s1" "cv_type s1 = ThinkingType"
  proof (cases "r = ''''")
    case True
    then have "merges_to i m [] s" "cv_type s = NoBlock" using assms(1) by (simp_all add: conv_sync_def blocks_of_def top_type_def)
    with open_block_merges [OF this(1) new_accs(1)] True that show ?thesis by (metis insertI1)
  next
    case False
    with assms(1) that [of s] show ?thesis by (simp add: conv_sync_def blocks_of_def top_type_def)
  qed
  from send_delta_merges [OF s1(2), of "thinking_delta x"]
  obtain s2 where s2: "send_delta all_sent (thinking_delta x) s1 = (Proceed, s2)"
    "merges_to i m ([] @ [(empty_acc ''thinking'')\<lparr>ba_text := r @ x\<rparr>]) s2" "cv_type s2 = cv_type s1" by auto
  have "handle_reasoning all_sent x s = (Proceed, s2)" using s1(1) s2(1) assms(2) by (simp add: handle_reasoning_def)
  then show ?thesis
    using s2(2,3) s1(3) assms(2) conv_sync_started [OF assms(1)]
    by (intro that [of s2]) (auto simp: chunk_steps conv_sync_def blocks_of_def top_type_def)
qed

lemma conv_say:
  assumes "conv_sync i m r t [] s" "x \<noteq> ''''"
  obtains s1 where "convert_chunk all_sent (delta_chunk i m '''' (say x)) s = (Proceed, s1)" "conv_sync i m r (t @ x) [] s1"
proof -
  obtain s1 where s1: "(if cv_type s \<in> {NoBlock, ThinkingType, ToolType} then open_block all_sent TextType (Some (TextBlock '''')) s
      else (Proceed, s)) = (Proceed, s1)" "merges_to i m (blocks_of r '''' [] @ [(empty_acc ''text'')\<lparr>ba_text := t\<rparr>]) s1" "cv_type s1 = TextType"
  proof (cases "t = ''''")
    case True
    then have "merges_to i m (blocks_of r '''' []) s" "cv_type s \<in> {NoBlock, ThinkingType, ToolType}"
      using assms(1) by (simp_all add: conv_sync_def top_type_def)
    with open_block_merges [OF this(1) new_accs(2)] True that show ?thesis by metis
  next
    case False
    with assms(1) that [of s] show ?thesis by (simp add: conv_sync_def blocks_of_def top_type_def)
  qed
  from send_delta_merges [OF s1(2), of "text_delta x"]
  obtain s2 where s2: "send_delta all_sent (text_delta x) s1 = (Proceed, s2)"
    "merges_to i m (blocks_of r '''' [] @ [(empty_acc ''text'')\<lparr>ba_text := t @ x\<rparr>]) s2" "cv_type s2 = cv_type s1" by auto
  have "handle_text all_sent x s = (Proceed, s2)" using s1(1) s2(1) assms(2) by (simp add: handle_text_def)
  then show ?thesis
    using s2(2,3) s1(3) assms(2) conv_sync_started [OF assms(1)]
    by (intro that [of s2]) (auto simp: chunk_steps conv_sync_def blocks_of_def top_type_def)
qed

lemma conv_call:
  assumes "conv_sync i m r t calls s" "r = '''' \<or> t \<noteq> '''' \<or> calls \<noteq> []"
  obtains s1 where "convert_chunk all_sent (delta_chunk i m '''' (call_tool k (int (length calls)) nm '''')) s = (Proceed, s1)"
    "conv_sync i m r t (calls @ [(k, nm, '''')]) s1"
proof -
  let ?c = "\<lparr>tc_ID = k, tc_Index = int (length calls), tc_Type = ''function'', tc_Function = Some \<lparr>fn_Name = nm, fn_Arguments = ''''\<rparr>\<rparr>"
  have "tool_needs_block (Some ?c) s = Some True"
    using assms by (auto simp: tool_needs_block_def conv_sync_def top_type_def)
  moreover obtain s1 where "open_block all_sent ToolType (Some (ToolUseBlock k nm ''{}'')) s = (Proceed, s1)"
      "merges_to i m (blocks_of r t calls @ [tool_acc (k, nm, '''')]) s1" "cv_type s1 = ToolType"
    using open_block_merges [OF _ new_accs(3)] assms(1) by (metis conv_sync_def)
  ultimately show ?thesis
    using conv_sync_started [OF assms(1)]
    by (intro that [of "s1\<lparr>cv_tool := int (length calls)\<rparr>"])
      (auto simp: chunk_steps handle_tool_def tool_block_def tool_arguments_def conv_sync_def merges_to_def blocks_of_def top_type_def)
qed

lemma conv_arguments:
  assumes "conv_sync i m r t (calls @ [(k, nm, a)]) s"
  obtains s1 where "convert_chunk all_sent (delta_chunk i m '''' (call_tool '''' (int (length calls)) '''' x)) s = (Proceed, s1)"
    "conv_sync i m r t (calls @ [(k, nm, a @ x)]) s1"
proof -
  let ?c = "\<lparr>tc_ID = '''', tc_Index = int (length calls), tc_Type = ''function'', tc_Function = Some \<lparr>fn_Name = '''', fn_Arguments = x\<rparr>\<rparr>"
  have need: "tool_needs_block (Some ?c) s = Some False"
    using assms by (auto simp: tool_needs_block_def conv_sync_def top_type_def)
  have "merges_to i m (blocks_of r t calls @ [tool_acc (k, nm, a)]) s" using assms by (simp add: conv_sync_def blocks_of_def)
  from send_delta_merges [OF this, of "json_delta x"]
  obtain s1 where s1: "send_delta all_sent (json_delta x) s = (Proceed, s1)"
    "merges_to i m (blocks_of r t calls @ [tool_acc (k, nm, a @ x)]) s1" "cv_type s1 = cv_type s" "cv_tool s1 = cv_tool s" by auto
  show ?thesis
  proof (cases "x = ''''")
    case True
    then show ?thesis using need assms conv_sync_started [OF assms]
      by (intro that [of s]) (simp_all add: chunk_steps handle_tool_def tool_arguments_def)
  next
    case False
    then show ?thesis using need s1 assms conv_sync_started [OF assms]
      by (intro that [of s1]) (auto simp: chunk_steps handle_tool_def tool_arguments_def conv_sync_def blocks_of_def top_type_def)
  qed
qed


text \<open>A reply as a model streams it: pieces of reasoning, pieces of text, the tool calls one after the
  other (the first chunk of a call names it, the others carry fragments of its arguments), the finish
  reason and the usage.\<close>

fun call_chunks :: "string \<Rightarrow> string \<Rightarrow> int \<Rightarrow> (string \<times> string \<times> string list) list \<Rightarrow> chat_chunk list" where
  "call_chunks i m n [] = []"
| "call_chunks i m n ((k, nm, args) # calls) =
     delta_chunk i m '''' (call_tool k n nm '''') # map (\<lambda>a. delta_chunk i m '''' (call_tool '''' n '''' a)) args @
     call_chunks i m (n + 1) calls"

definition finish_chunk :: "string \<Rightarrow> string \<Rightarrow> string \<Rightarrow> chat_chunk" where
  "finish_chunk i m fr = delta_chunk i m fr (oa_msg '''' None)"

definition usage_chunk :: "string \<Rightarrow> string \<Rightarrow> usage \<Rightarrow> chat_chunk" where
  "usage_chunk i m u = \<lparr>ck_ID = i, ck_Created = 0, ck_Model = m, ck_Choices = [], ck_Usage = Some u\<rparr>"

definition reply_chunks ::
  "string \<Rightarrow> string \<Rightarrow> string list \<Rightarrow> string list \<Rightarrow> (string \<times> string \<times> string list) list \<Rightarrow> string \<Rightarrow> usage \<Rightarrow> chat_chunk list" where
  "reply_chunks i m rs ts calls fr u =
     map (\<lambda>x. delta_chunk i m '''' (think x)) rs @ map (\<lambda>x. delta_chunk i m '''' (say x)) ts @ call_chunks i m 0 calls @
     [finish_chunk i m fr, usage_chunk i m u]"

definition joined :: "(string \<times> string \<times> string list) list \<Rightarrow> (string \<times> string \<times> string) list" where
  "joined calls = map (\<lambda>(k, nm, args). (k, nm, concat args)) calls"

lemma conv_thinks:
  "conv_sync i m r '''' [] s \<Longrightarrow> list_all (\<lambda>x. x \<noteq> '''') rs \<Longrightarrow>
    \<exists>s1. convert_all (map (\<lambda>x. delta_chunk i m '''' (think x)) rs) s = Some s1 \<and> conv_sync i m (r @ concat rs) '''' [] s1"
proof (induction rs arbitrary: r s)
  case Nil
  then show ?case by simp
next
  case (Cons x rs)
  from Cons.prems(2) have "x \<noteq> ''''" by simp
  from conv_think [OF Cons.prems(1) this]
  obtain s1 where "convert_chunk all_sent (delta_chunk i m '''' (think x)) s = (Proceed, s1)" "conv_sync i m (r @ x) '''' [] s1" .
  with Cons.IH [of "r @ x" s1] Cons.prems(2) show ?case by simp
qed

lemma conv_says:
  "conv_sync i m r t [] s \<Longrightarrow> list_all (\<lambda>x. x \<noteq> '''') ts \<Longrightarrow>
    \<exists>s1. convert_all (map (\<lambda>x. delta_chunk i m '''' (say x)) ts) s = Some s1 \<and> conv_sync i m r (t @ concat ts) [] s1"
proof (induction ts arbitrary: t s)
  case Nil
  then show ?case by simp
next
  case (Cons x ts)
  from Cons.prems(2) have "x \<noteq> ''''" by simp
  from conv_say [OF Cons.prems(1) this]
  obtain s1 where "convert_chunk all_sent (delta_chunk i m '''' (say x)) s = (Proceed, s1)" "conv_sync i m r (t @ x) [] s1" .
  with Cons.IH [of "t @ x" s1] Cons.prems(2) show ?case by simp
qed

lemma conv_argument_list:
  "conv_sync i m r t (calls @ [(k, nm, a)]) s \<Longrightarrow>
    \<exists>s1. convert_all (map (\<lambda>x. delta_chunk i m '''' (call_tool '''' (int (length calls)) '''' x)) args) s = Some s1 \<and>
      conv_sync i m r t (calls @ [(k, nm, a @ concat args)]) s1"
proof (induction args arbitrary: a s)
  case Nil
  then show ?case by simp
next
  case (Cons x args)
  from conv_arguments [OF Cons.prems]
  obtain s1 where "convert_chunk all_sent (delta_chunk i m '''' (call_tool '''' (int (length calls)) '''' x)) s = (Proceed, s1)"
    "conv_sync i m r t (calls @ [(k, nm, a @ x)]) s1" .
  with Cons.IH [of "a @ x" s1] show ?case by simp
qed

lemma conv_calls:
  assumes "conv_sync i m r t before s" "calls \<noteq> [] \<longrightarrow> r = '''' \<or> t \<noteq> '''' \<or> before \<noteq> []"
  shows "\<exists>s1. convert_all (call_chunks i m (int (length before)) calls) s = Some s1 \<and> conv_sync i m r t (before @ joined calls) s1"
  using assms
proof (induction calls arbitrary: before s)
  case Nil
  then show ?case by (simp add: joined_def)
next
  case (Cons c calls)
  obtain k nm args where c: "c = (k, nm, args)" by (cases c)
  from Cons.prems have "r = '''' \<or> t \<noteq> '''' \<or> before \<noteq> []" by simp
  from conv_call [OF Cons.prems(1) this]
  obtain s1 where s1: "convert_chunk all_sent (delta_chunk i m '''' (call_tool k (int (length before)) nm '''')) s = (Proceed, s1)"
    "conv_sync i m r t (before @ [(k, nm, '''')]) s1" .
  from conv_argument_list [OF s1(2), of args]
  obtain s2 where s2: "convert_all (map (\<lambda>x. delta_chunk i m '''' (call_tool '''' (int (length before)) '''' x)) args) s1 = Some s2"
    "conv_sync i m r t (before @ [(k, nm, concat args)]) s2" by auto
  from Cons.IH [OF s2(2)]
  obtain s3 where "convert_all (call_chunks i m (int (length before) + 1) calls) s2 = Some s3"
    "conv_sync i m r t (before @ (k, nm, concat args) # joined calls) s3" by (auto simp: add.commute)
  with s1(1) s2(1) show ?case by (simp add: c convert_all_append joined_def)
qed

text \<open>What merging the converted reply gives.\<close>

definition reply_response ::
  "string \<Rightarrow> string \<Rightarrow> string \<Rightarrow> string \<Rightarrow> (string \<times> string \<times> string) list \<Rightarrow> string \<Rightarrow> usage \<Rightarrow> claude_response" where
  "reply_response i m r t calls fr u =
     claude_message_response i m
       (map Some ((if r \<noteq> '''' then [ThinkingBlock r ''''] else []) @ (if t \<noteq> '''' then [TextBlock t] else []) @
          map (\<lambda>(k, nm, args). ToolUseBlock k nm args) calls))
       (mapFinishReason fr) (Some (convert_usage u))"

lemma build_blocks:
  assumes "list_all (\<lambda>(k, nm, args). args \<noteq> '''') calls"
  shows "List.map_filter (\<lambda>a. Option.bind a build_block) (map Some (blocks_of r t calls)) =
     (if r \<noteq> '''' then [ThinkingBlock r ''''] else []) @ (if t \<noteq> '''' then [TextBlock t] else []) @
     map (\<lambda>(k, nm, args). ToolUseBlock k nm args) calls"
proof -
  have "List.map_filter (\<lambda>a. Option.bind a build_block) (map Some (map tool_acc calls)) = map (\<lambda>(k, nm, args). ToolUseBlock k nm args) calls"
    using assms by (induction calls) (auto simp: map_filter_simps build_block_def tool_acc_def empty_acc_def)
  then show ?thesis by (simp add: blocks_of_def map_filter_simps build_block_def empty_acc_def)
qed

lemma finish_merges:
  assumes "conv_sync i m r t calls s"
  shows "\<exists>s1. convert_all [finish_chunk i m fr, usage_chunk i m u] s = Some s1 \<and>
    (fr \<noteq> '''' \<longrightarrow> merge_events (cv_out (snd (finish_stream all_sent s1))) NewClaudeMessagesMerger =
      Some \<lparr>cmg_response = (start_response i m)\<lparr>cl_StopReason := mapFinishReason fr, cl_Usage := Some (convert_usage u)\<rparr>,
        cmg_blocks = map Some (blocks_of r t calls), cmg_finalized = False\<rparr>)"
proof -
  have st: "cv_started s" using conv_sync_started [OF assms] .
  let ?s1 = "(if fr \<noteq> '''' then s\<lparr>cv_finish := Some fr\<rparr> else s)\<lparr>cv_usage := Some u\<rparr>"
  have "convert_all [finish_chunk i m fr, usage_chunk i m u] s = Some ?s1"
    using st by (simp add: convert_chunk_def handle_choice_def finish_chunk_def usage_chunk_def delta_chunk_def oa_msg_def content_string_def Let_def)
  moreover have "merge_event (message_delta fr (Some u)) \<lparr>cmg_response = start_response i m, cmg_blocks = bs, cmg_finalized = False\<rparr> =
      (Returned None, \<lparr>cmg_response = (start_response i m)\<lparr>cl_StopReason := mapFinishReason fr, cl_Usage := Some (convert_usage u)\<rparr>,
        cmg_blocks = bs, cmg_finalized = False\<rparr>)" for bs
    by (simp add: merge_event_def message_delta_def empty_event_def empty_delta_def start_response_def claude_message_response_def
        or_new_def convert_usage_def Let_def)
  moreover have "merge_event (empty_event ''message_stop'') g = (Returned None, g)" for g
    by (simp add: merge_event_def empty_event_def)
  ultimately show ?thesis
    using assms by (auto simp: finish_stream_def conv_sync_def merges_to_def merge_events_append Let_def)
qed


lemma conv_sync_start:
  "conv_sync i m '''' '''' [] (conv_init\<lparr>cv_started := True, cv_sends := Suc 0, cv_out := [message_start i m]\<rparr>)"
  by (simp add: conv_sync_def merges_to_def conv_init_def blocks_of_def top_type_def merge_event_def message_start_def empty_event_def
      start_response_def claude_message_response_def NewClaudeMessagesMerger_def or_keep_def Let_def)

lemma convert_all_start:
  assumes "ck_ID ck = i" "ck_Model ck = m"
  shows "convert_all (ck # cks) conv_init = convert_all (ck # cks) (conv_init\<lparr>cv_started := True, cv_sends := Suc 0, cv_out := [message_start i m]\<rparr>)"
proof -
  have "convert_chunk all_sent ck conv_init = convert_chunk all_sent ck (conv_init\<lparr>cv_started := True, cv_sends := Suc 0, cv_out := [message_start i m]\<rparr>)"
    using assms by (simp add: convert_chunk_def conv_init_def)
  then show ?thesis by simp
qed

lemma reply_chunks_first: "\<exists>ck cks. reply_chunks i m rs ts calls fr u = ck # cks \<and> ck_ID ck = i \<and> ck_Model ck = m"
proof -
  have "call_chunks i m n cs = [] \<or> (\<exists>ck cks. call_chunks i m n cs = ck # cks \<and> ck_ID ck = i \<and> ck_Model ck = m)" for n cs
    by (cases cs) (auto simp: delta_chunk_def)
  from this [of 0 calls] show ?thesis
    by (cases rs; cases ts) (auto simp: reply_chunks_def delta_chunk_def finish_chunk_def)
qed

lemma converted_reply_merges:
  assumes "list_all (\<lambda>x. x \<noteq> '''') rs" "list_all (\<lambda>x. x \<noteq> '''') ts" "calls \<noteq> [] \<longrightarrow> rs = [] \<or> ts \<noteq> []" "fr \<noteq> ''''"
  shows "\<exists>s1. convert_all (reply_chunks i m rs ts calls fr u) conv_init = Some s1 \<and>
    merge_events (cv_out (snd (finish_stream all_sent s1))) NewClaudeMessagesMerger =
      Some \<lparr>cmg_response = (start_response i m)\<lparr>cl_StopReason := mapFinishReason fr, cl_Usage := Some (convert_usage u)\<rparr>,
        cmg_blocks = map Some (blocks_of (concat rs) (concat ts) (joined calls)), cmg_finalized = False\<rparr>"
proof -
  let ?s0 = "conv_init\<lparr>cv_started := True, cv_sends := Suc 0, cv_out := [message_start i m]\<rparr>"
  from conv_thinks [OF conv_sync_start assms(1)]
  obtain s1 where s1: "convert_all (map (\<lambda>x. delta_chunk i m '''' (think x)) rs) ?s0 = Some s1" "conv_sync i m (concat rs) '''' [] s1" by auto
  from conv_says [OF s1(2) assms(2)]
  obtain s2 where s2: "convert_all (map (\<lambda>x. delta_chunk i m '''' (say x)) ts) s1 = Some s2" "conv_sync i m (concat rs) (concat ts) [] s2" by auto
  have "calls \<noteq> [] \<longrightarrow> concat rs = '''' \<or> concat ts \<noteq> '''' \<or> ([] :: (string \<times> string \<times> string) list) \<noteq> []"
    using assms(2,3) by (cases ts) auto
  from conv_calls [OF s2(2) this]
  obtain s3 where s3: "convert_all (call_chunks i m 0 calls) s2 = Some s3" "conv_sync i m (concat rs) (concat ts) (joined calls) s3" by auto
  from finish_merges [OF s3(2), of fr u] assms(4)
  obtain s4 where s4: "convert_all [finish_chunk i m fr, usage_chunk i m u] s3 = Some s4"
    "merge_events (cv_out (snd (finish_stream all_sent s4))) NewClaudeMessagesMerger =
      Some \<lparr>cmg_response = (start_response i m)\<lparr>cl_StopReason := mapFinishReason fr, cl_Usage := Some (convert_usage u)\<rparr>,
        cmg_blocks = map Some (blocks_of (concat rs) (concat ts) (joined calls)), cmg_finalized = False\<rparr>" by auto
  have "convert_all (reply_chunks i m rs ts calls fr u) conv_init = convert_all (reply_chunks i m rs ts calls fr u) ?s0"
    using reply_chunks_first [of i m rs ts calls fr u] convert_all_start by metis
  also have "\<dots> = Some s4"
    unfolding reply_chunks_def convert_all_append s1(1) option.case s2(1) s3(1) by (rule s4(1))
  finally show ?thesis using s4(2) by blast
qed

section \<open>Merging the chunks first\<close>

definition chat_acc :: "nat \<Rightarrow> string \<times> string \<times> string \<Rightarrow> chat_tool_acc" where
  "chat_acc n c = (let (k, nm, args) = c in
     \<lparr>ta_index = int n, ta_id = k, ta_typ = ''function'', ta_hasFunc = True, ta_name = nm, ta_args = args\<rparr>)"

definition chat_accs :: "(string \<times> string \<times> string) list \<Rightarrow> chat_tool_acc list" where
  "chat_accs calls = map (\<lambda>(n, c). chat_acc n c) (enumerate 0 calls)"

definition choice_acc :: "string \<Rightarrow> string \<Rightarrow> string \<Rightarrow> string \<Rightarrow> (string \<times> string \<times> string) list \<Rightarrow> chat_choice_acc" where
  "choice_acc role fr r t calls = \<lparr>ca_index = 0, ca_role = role, ca_finishReason = fr, ca_content = t, ca_sawContent = (t \<noteq> ''''),
     ca_reasoning = r, ca_sawReasoning = (r \<noteq> ''''), ca_toolCalls = chat_accs calls\<rparr>"

definition chat_sync :: "string \<Rightarrow> string \<Rightarrow> string \<Rightarrow> string \<Rightarrow> (string \<times> string \<times> string) list \<Rightarrow> chat_merger \<Rightarrow> bool" where
  "chat_sync i m r t calls g \<longleftrightarrow> or_keep (cr_ID (mg_result g)) i = i \<and> or_keep (cr_Model (mg_result g)) m = m \<and>
     cr_Usage (mg_result g) = None \<and> \<not> mg_finalized g \<and>
     (mg_choices g = [] \<and> r = '''' \<and> t = '''' \<and> calls = [] \<or> (\<exists>role. mg_choices g = [(0, choice_acc role '''' r t calls)]))"

lemma chat_accs_snoc: "chat_accs (calls @ [c]) = chat_accs calls @ [chat_acc (length calls) c]"
  by (simp add: chat_accs_def enumerate_append_eq)

lemma mergeToolCall_append:
  "list_all (\<lambda>a. ta_index a \<noteq> tc_Index d) accs \<Longrightarrow> mergeToolCall (Some d) (accs @ rest) = accs @ mergeToolCall (Some d) rest"
  by (induction accs) auto

lemma chat_accs_indices: "n = int (length calls) \<Longrightarrow> list_all (\<lambda>a. ta_index a \<noteq> n) (chat_accs calls)"
proof (induction calls arbitrary: n rule: rev_induct)
  case Nil
  then show ?case by (simp add: chat_accs_def)
next
  case (snoc c calls)
  have "list_all (\<lambda>a. ta_index a < int k) (chat_accs xs)" if "length xs \<le> k" for k and xs :: "(string \<times> string \<times> string) list"
    using that by (induction xs rule: rev_induct) (auto simp: chat_accs_def enumerate_append_eq chat_acc_def list_all_iff)
  from this [of "calls @ [c]" "length (calls @ [c])"] snoc.prems show ?case by (auto simp: list_all_iff)
qed

lemma or_keep_same [simp]: "or_keep x x = x"
  by (simp add: or_keep_def)

lemma or_keep_empty [simp]: "or_keep x '''' = x"
  by (simp add: or_keep_def)

text \<open>One delta of the first choice, from a merger that has seen \<open>r\<close>, \<open>t\<close> and \<open>calls\<close>.\<close>

lemma merge_delta_chunk:
  assumes "chat_sync i m r t calls g"
    and "\<And>role. \<exists>role'. merge_delta d (choice_acc role '''' r t calls) = choice_acc role' '''' r' t' calls'"
  shows "chat_sync i m r' t' calls' (merge_chunk (delta_chunk i m '''' d) g)"
proof -
  have new: "new_choice 0 = choice_acc '''' '''' '''' '''' []" by (simp add: new_choice_def choice_acc_def chat_accs_def)
  have upd: "choice_acc role '''' r t calls\<lparr>ca_finishReason := ''''\<rparr> = choice_acc role '''' r t calls" for role
    by (simp add: choice_acc_def)
  have fin: "ca_finishReason (choice_acc role '''' r t calls) = ''''" for role by (simp add: choice_acc_def)
  obtain role where "merge_choice (Some \<lparr>sch_FinishReason = '''', sch_Index = 0, sch_Delta = Some d\<rparr>) (mg_choices g) =
      [(0, merge_delta d (choice_acc role '''' r t calls))]"
    using assms(1) by (auto simp: chat_sync_def merge_choice_def new upd fin Let_def)
  with assms(1) assms(2) [of role] show ?thesis
    by (auto simp: chat_sync_def merge_chunk_def delta_chunk_def Let_def)
qed

lemma chat_think: "chat_sync i m r t calls g \<Longrightarrow> x \<noteq> '''' \<Longrightarrow> chat_sync i m (r @ x) t calls (merge_chunk (delta_chunk i m '''' (think x)) g)"
  by (rule merge_delta_chunk) (auto simp: merge_delta_def think_def oa_msg_def choice_acc_def or_keep_def)

lemma chat_say: "chat_sync i m r t calls g \<Longrightarrow> x \<noteq> '''' \<Longrightarrow> chat_sync i m r (t @ x) calls (merge_chunk (delta_chunk i m '''' (say x)) g)"
  by (rule merge_delta_chunk) (auto simp: merge_delta_def say_def oa_msg_def choice_acc_def or_keep_def)

lemma chat_call:
  assumes "chat_sync i m r t calls g"
  shows "chat_sync i m r t (calls @ [(k, nm, '''')]) (merge_chunk (delta_chunk i m '''' (call_tool k (int (length calls)) nm '''')) g)"
proof (rule merge_delta_chunk [OF assms])
  let ?d = "\<lparr>tc_ID = k, tc_Index = int (length calls), tc_Type = ''function'', tc_Function = Some \<lparr>fn_Name = nm, fn_Arguments = ''''\<rparr>\<rparr>"
  have "mergeToolCall (Some ?d) (chat_accs calls @ []) = chat_accs calls @ mergeToolCall (Some ?d) []"
    by (rule mergeToolCall_append) (simp add: chat_accs_indices)
  then have "mergeToolCall (Some ?d) (chat_accs calls) = chat_accs (calls @ [(k, nm, '''')])"
    by (simp add: chat_accs_snoc add_fragment_def chat_acc_def or_keep_def)
  then show "\<exists>role'. merge_delta (call_tool k (int (length calls)) nm '''') (choice_acc role '''' r t calls) =
      choice_acc role' '''' r t (calls @ [(k, nm, '''')])" for role
    by (auto simp: merge_delta_def call_tool_def oa_msg_def choice_acc_def)
qed

lemma chat_arguments:
  assumes "chat_sync i m r t (calls @ [(k, nm, a)]) g"
  shows "chat_sync i m r t (calls @ [(k, nm, a @ x)]) (merge_chunk (delta_chunk i m '''' (call_tool '''' (int (length calls)) '''' x)) g)"
proof (rule merge_delta_chunk [OF assms])
  let ?d = "\<lparr>tc_ID = '''', tc_Index = int (length calls), tc_Type = ''function'', tc_Function = Some \<lparr>fn_Name = '''', fn_Arguments = x\<rparr>\<rparr>"
  have "mergeToolCall (Some ?d) (chat_accs calls @ [chat_acc (length calls) (k, nm, a)]) =
      chat_accs calls @ mergeToolCall (Some ?d) [chat_acc (length calls) (k, nm, a)]"
    by (rule mergeToolCall_append) (simp add: chat_accs_indices)
  then have "mergeToolCall (Some ?d) (chat_accs (calls @ [(k, nm, a)])) = chat_accs (calls @ [(k, nm, a @ x)])"
    by (simp add: chat_accs_snoc add_fragment_def chat_acc_def or_keep_def)
  then show "\<exists>role'. merge_delta (call_tool '''' (int (length calls)) '''' x) (choice_acc role '''' r t (calls @ [(k, nm, a)])) =
      choice_acc role' '''' r t (calls @ [(k, nm, a @ x)])" for role
    by (auto simp: merge_delta_def call_tool_def oa_msg_def choice_acc_def)
qed


lemma chat_thinks:
  "chat_sync i m r t calls g \<Longrightarrow> list_all (\<lambda>x. x \<noteq> '''') rs \<Longrightarrow>
    chat_sync i m (r @ concat rs) t calls (fold merge_chunk (map (\<lambda>x. delta_chunk i m '''' (think x)) rs) g)"
proof (induction rs arbitrary: r g)
  case (Cons x rs)
  from Cons.prems(2) have "x \<noteq> ''''" by simp
  from Cons.IH [OF chat_think [OF Cons.prems(1) this]] Cons.prems(2) show ?case by simp
qed simp

lemma chat_says:
  "chat_sync i m r t calls g \<Longrightarrow> list_all (\<lambda>x. x \<noteq> '''') ts \<Longrightarrow>
    chat_sync i m r (t @ concat ts) calls (fold merge_chunk (map (\<lambda>x. delta_chunk i m '''' (say x)) ts) g)"
proof (induction ts arbitrary: t g)
  case (Cons x ts)
  from Cons.prems(2) have "x \<noteq> ''''" by simp
  from Cons.IH [OF chat_say [OF Cons.prems(1) this]] Cons.prems(2) show ?case by simp
qed simp

lemma chat_argument_list:
  "chat_sync i m r t (calls @ [(k, nm, a)]) g \<Longrightarrow>
    chat_sync i m r t (calls @ [(k, nm, a @ concat args)])
      (fold merge_chunk (map (\<lambda>x. delta_chunk i m '''' (call_tool '''' (int (length calls)) '''' x)) args) g)"
proof (induction args arbitrary: a g)
  case (Cons x args)
  from Cons.IH [OF chat_arguments [OF Cons.prems]] show ?case by simp
qed simp

lemma chat_calls:
  "chat_sync i m r t before g \<Longrightarrow>
    chat_sync i m r t (before @ joined calls) (fold merge_chunk (call_chunks i m (int (length before)) calls) g)"
proof (induction calls arbitrary: before g)
  case Nil
  then show ?case by (simp add: joined_def)
next
  case (Cons c calls)
  obtain k nm args where c: "c = (k, nm, args)" by (cases c)
  from Cons.IH [OF chat_argument_list [OF chat_call [OF Cons.prems, of k nm], of args]]
  show ?case by (simp add: c joined_def add.commute)
qed

lemma tool_use_blocks_accs:
  "list_all ta_hasFunc accs \<Longrightarrow>
    tool_use_blocks (map (\<lambda>t. Some (build_call t)) accs) = Returned (map (\<lambda>a. ToolUseBlock (ta_id a) (ta_name a) (ta_args a)) accs)"
  by (induction accs) (simp_all add: build_call_def)

lemma chat_accs_blocks:
  "map (\<lambda>a. ToolUseBlock (ta_id a) (ta_name a) (ta_args a)) (chat_accs calls) = map (\<lambda>(k, nm, args). ToolUseBlock k nm args) calls"
  "list_all ta_hasFunc (chat_accs calls)"
proof (induction calls rule: rev_induct)
  case Nil
  show "map (\<lambda>a. ToolUseBlock (ta_id a) (ta_name a) (ta_args a)) (chat_accs []) = map (\<lambda>(k, nm, args). ToolUseBlock k nm args) []"
    and "list_all ta_hasFunc (chat_accs [])" by (simp_all add: chat_accs_def)
next
  case (snoc c calls)
  then show "map (\<lambda>a. ToolUseBlock (ta_id a) (ta_name a) (ta_args a)) (chat_accs (calls @ [c])) =
      map (\<lambda>(k, nm, args). ToolUseBlock k nm args) (calls @ [c])"
    and "list_all ta_hasFunc (chat_accs (calls @ [c]))"
    by (cases c, simp add: chat_accs_snoc chat_acc_def)+
qed

lemma chat_finish:
  assumes "chat_sync i m r t calls g" "fr \<noteq> ''''"
  shows "convert_response (mg_result (chat_finalize (fold merge_chunk [finish_chunk i m fr, usage_chunk i m u] g))) =
    Returned (reply_response i m r t calls fr u)"
proof -
  let ?g = "fold merge_chunk [finish_chunk i m fr, usage_chunk i m u] g"
  have new: "new_choice 0 = choice_acc '''' '''' '''' '''' []" by (simp add: new_choice_def choice_acc_def chat_accs_def)
  have upd: "merge_delta (oa_msg '''' None) (choice_acc role '''' r t calls\<lparr>ca_finishReason := or_keep (ca_finishReason (choice_acc role '''' r t calls)) fr\<rparr>) =
      choice_acc role fr r t calls" for role
    using assms(2) by (simp add: choice_acc_def merge_delta_def oa_msg_def or_keep_def Let_def)
  obtain role where ch: "mg_choices ?g = [(0, choice_acc role fr r t calls)]"
    using assms(1) upd
    by (auto simp: chat_sync_def merge_chunk_def finish_chunk_def delta_chunk_def usage_chunk_def merge_choice_def new Let_def)
  have res: "cr_ID (mg_result ?g) = i" "cr_Model (mg_result ?g) = m" "cr_Usage (mg_result ?g) = Some u" "\<not> mg_finalized ?g"
    using assms(1) by (simp_all add: chat_sync_def merge_chunk_def finish_chunk_def delta_chunk_def usage_chunk_def Let_def)
  let ?c = "build_choice (choice_acc role fr r t calls)"
  obtain msg where c: "cc_FinishReason ?c = fr" "cc_Message ?c = Some msg"
    by (simp add: build_choice_def choice_acc_def)
  have blocks: "message_blocks msg =
      Returned ((if r \<noteq> '''' then [ThinkingBlock r ''''] else []) @ (if t \<noteq> '''' then [TextBlock t] else []) @
        map (\<lambda>(k, nm, args). ToolUseBlock k nm args) calls)"
    using c(2) by (auto simp: message_blocks_def build_choice_def choice_acc_def tool_use_blocks_accs chat_accs_blocks)
  have "chat_finalize ?g = ?g\<lparr>mg_finalized := True, mg_result := (mg_result ?g)\<lparr>cr_Choices := [Some ?c]\<rparr>\<rparr>"
    using res(4) by (simp add: chat_finalize_def ch del: fold.simps)
  moreover have "convert_response ((mg_result ?g)\<lparr>cr_Choices := [Some ?c]\<rparr>) = Returned (reply_response i m r t calls fr u)"
    using res(1,2,3) c blocks by (simp add: convert_response_def reply_response_def Let_def del: fold.simps)
  ultimately show ?thesis by simp
qed

lemma chat_reply:
  assumes "list_all (\<lambda>x. x \<noteq> '''') rs" "list_all (\<lambda>x. x \<noteq> '''') ts" "fr \<noteq> ''''"
  shows "convert_response (mg_result (chat_finalize (fold merge_chunk (reply_chunks i m rs ts calls fr u) NewChatCompletionMerger))) =
    Returned (reply_response i m (concat rs) (concat ts) (joined calls) fr u)"
proof -
  have "chat_sync i m '''' '''' [] NewChatCompletionMerger"
    by (simp add: chat_sync_def NewChatCompletionMerger_def or_keep_def)
  from chat_finish [OF chat_calls [OF chat_says [OF chat_thinks [OF this assms(1)] assms(2)], of calls] assms(3)]
  show ?thesis by (simp add: reply_chunks_def del: fold.simps)
qed


section \<open>Converting and merging\<close>

lemma converted_events:
  assumes "st_chunks src = cs @ d # rest" "list_all2 delivers cs cks" "terminates d" "convert_all cks conv_init = Some s1"
  shows "st_chunks (convertStreamResponse J \<lparr>send_ok = all_sent, ctx_done = (\<lambda>_. False)\<rparr> src) =
    map (event_chunk J) (cv_out (snd (finish_stream all_sent s1)))"
  by (simp add: convertStreamResponse_def assms(1) convert_loop_all [OF assms(2,4)] convert_loop_terminator [OF assms(3)]
      del: convert_loop.simps)

text \<open>C21: Converting and merging commute. For a reply streamed as reasoning, text and tool calls, with text
  between reasoning and calls, converting the stream and merging its events gives the same Claude
  response as merging the chunks and converting the result: content, stop reason and usage.\<close>

theorem merging_commutes_with_conversion:
  assumes "st_chunks src = cs @ d # rest" "list_all2 delivers cs (reply_chunks i m rs ts calls fr u)" "terminates d"
    and "list_all (\<lambda>x. x \<noteq> '''') rs" "list_all (\<lambda>x. x \<noteq> '''') ts" "calls \<noteq> [] \<longrightarrow> rs = [] \<or> ts \<noteq> []" "fr \<noteq> ''''"
    and "list_all (\<lambda>(k, nm, args). concat args \<noteq> '''') calls"
  shows "\<exists>evs g. st_chunks (convertStreamResponse J \<lparr>send_ok = all_sent, ctx_done = (\<lambda>_. False)\<rparr> src) = map (event_chunk J) evs \<and>
    merge_events evs NewClaudeMessagesMerger = Some g \<and>
    convert_response (mg_result (chat_finalize (fold merge_chunk (reply_chunks i m rs ts calls fr u) NewChatCompletionMerger))) =
      Returned (cmg_response (claude_finalize g))"
proof -
  obtain s1 where s1: "convert_all (reply_chunks i m rs ts calls fr u) conv_init = Some s1"
    "merge_events (cv_out (snd (finish_stream all_sent s1))) NewClaudeMessagesMerger =
      Some \<lparr>cmg_response = (start_response i m)\<lparr>cl_StopReason := mapFinishReason fr, cl_Usage := Some (convert_usage u)\<rparr>,
        cmg_blocks = map Some (blocks_of (concat rs) (concat ts) (joined calls)), cmg_finalized = False\<rparr>"
    using converted_reply_merges [OF assms(4-7)] by blast
  have "list_all (\<lambda>(k, nm, args). args \<noteq> '''') (joined calls)"
    using assms(8) by (auto simp: joined_def list_all_iff)
  then have "cmg_response (claude_finalize \<lparr>cmg_response = (start_response i m)\<lparr>cl_StopReason := mapFinishReason fr, cl_Usage := Some (convert_usage u)\<rparr>,
        cmg_blocks = map Some (blocks_of (concat rs) (concat ts) (joined calls)), cmg_finalized = False\<rparr>) =
      reply_response i m (concat rs) (concat ts) (joined calls) fr u"
    by (simp add: claude_finalize_def build_blocks reply_response_def start_response_def claude_message_response_def)
  with s1 converted_events [OF assms(1-3) s1(1)] chat_reply [OF assms(4,5,7), of i m calls u] show ?thesis by metis
qed

lemma lost_call:
  assumes "conv_sync i m r '''' [] s" "r \<noteq> ''''"
  shows "\<exists>s1. convert_chunk all_sent (delta_chunk i m '''' (call_tool k n nm x)) s = (Proceed, s1) \<and> conv_sync i m r '''' [] s1"
proof -
  let ?c = "Some \<lparr>tc_ID = k, tc_Index = n, tc_Type = ''function'', tc_Function = Some \<lparr>fn_Name = nm, fn_Arguments = x\<rparr>\<rparr>"
  have st: "cv_type s = ThinkingType" "merges_to i m ([] @ [(empty_acc ''thinking'')\<lparr>ba_text := r\<rparr>]) s"
    using assms by (simp_all add: conv_sync_def blocks_of_def top_type_def)
  have "applyDelta (json_delta x) ((empty_acc ''thinking'')\<lparr>ba_text := r\<rparr>) = (empty_acc ''thinking'')\<lparr>ba_text := r\<rparr>"
    by (simp add: applyDelta_def json_delta_def empty_delta_def empty_acc_def)
  with send_delta_merges [OF st(2), of "json_delta x"]
  obtain s1 where s1: "send_delta all_sent (json_delta x) s = (Proceed, s1)" "conv_sync i m r '''' [] s1"
    using assms st(1) by (auto simp: conv_sync_def blocks_of_def top_type_def)
  have "tool_needs_block ?c s = Some False" using st(1) by (simp add: tool_needs_block_def)
  then show ?thesis
    using s1 assms(1) conv_sync_started [OF assms(1)]
    by (cases "x = ''''") (auto simp: chunk_steps handle_tool_def tool_arguments_def)
qed

lemma lost_argument_list:
  "conv_sync i m r '''' [] s \<Longrightarrow> r \<noteq> '''' \<Longrightarrow>
    \<exists>s1. convert_all (map (\<lambda>x. delta_chunk i m '''' (call_tool k n nm x)) args) s = Some s1 \<and> conv_sync i m r '''' [] s1"
proof (induction args arbitrary: s)
  case Nil
  then show ?case by simp
next
  case (Cons x args)
  from lost_call [OF Cons.prems, of k n nm x] Cons.IH [OF _ Cons.prems(2)] show ?case by auto
qed

lemma lost_calls:
  "conv_sync i m r '''' [] s \<Longrightarrow> r \<noteq> '''' \<Longrightarrow>
    \<exists>s1. convert_all (call_chunks i m n calls) s = Some s1 \<and> conv_sync i m r '''' [] s1"
proof (induction calls arbitrary: n s)
  case Nil
  then show ?case by simp
next
  case (Cons c calls)
  obtain k nm args where c: "c = (k, nm, args)" by (cases c)
  from lost_call [OF Cons.prems, of k n nm "''''"]
  obtain s1 where s1: "convert_chunk all_sent (delta_chunk i m '''' (call_tool k n nm '''')) s = (Proceed, s1)" "conv_sync i m r '''' [] s1" by auto
  from lost_argument_list [OF s1(2) Cons.prems(2), of "''''" n "''''" args]
  obtain s2 where s2: "convert_all (map (\<lambda>x. delta_chunk i m '''' (call_tool '''' n '''' x)) args) s1 = Some s2" "conv_sync i m r '''' [] s2" by auto
  from Cons.IH [OF s2(2) Cons.prems(2), of "n + 1"] s1(1) s2(1) show ?case by (auto simp: c convert_all_append)
qed

text \<open>C22: Tool calls that directly follow reasoning are lost. The loop opens no block for them, their
  arguments go out as deltas of the thinking block, and the client's message ends with the stop reason
  of a tool use and the reasoning as its only content.\<close>

theorem tool_calls_after_reasoning_are_lost:
  assumes "st_chunks src = cs @ d # rest" "list_all2 delivers cs (reply_chunks i m rs [] calls fr u)" "terminates d"
    and "list_all (\<lambda>x. x \<noteq> '''') rs" "rs \<noteq> []" "fr \<noteq> ''''"
  shows "\<exists>evs g. st_chunks (convertStreamResponse J \<lparr>send_ok = all_sent, ctx_done = (\<lambda>_. False)\<rparr> src) = map (event_chunk J) evs \<and>
    merge_events evs NewClaudeMessagesMerger = Some g \<and>
    cl_Content (cmg_response (claude_finalize g)) = [Some (ThinkingBlock (concat rs) '''')] \<and>
    cl_StopReason (cmg_response (claude_finalize g)) = mapFinishReason fr"
proof -
  have ne: "concat rs \<noteq> ''''" using assms(4,5) by (cases rs) auto
  let ?s0 = "conv_init\<lparr>cv_started := True, cv_sends := Suc 0, cv_out := [message_start i m]\<rparr>"
  from conv_thinks [OF conv_sync_start assms(4)]
  obtain s1 where s1: "convert_all (map (\<lambda>x. delta_chunk i m '''' (think x)) rs) ?s0 = Some s1" "conv_sync i m (concat rs) '''' [] s1" by auto
  from lost_calls [OF s1(2) ne] obtain s2 where s2: "convert_all (call_chunks i m 0 calls) s1 = Some s2" "conv_sync i m (concat rs) '''' [] s2"
    by blast
  from finish_merges [OF s2(2), of fr u] assms(6)
  obtain s3 where s3: "convert_all [finish_chunk i m fr, usage_chunk i m u] s2 = Some s3"
    "merge_events (cv_out (snd (finish_stream all_sent s3))) NewClaudeMessagesMerger =
      Some \<lparr>cmg_response = (start_response i m)\<lparr>cl_StopReason := mapFinishReason fr, cl_Usage := Some (convert_usage u)\<rparr>,
        cmg_blocks = map Some (blocks_of (concat rs) '''' []), cmg_finalized = False\<rparr>" by auto
  have "convert_all (reply_chunks i m rs [] calls fr u) conv_init = convert_all (reply_chunks i m rs [] calls fr u) ?s0"
    using reply_chunks_first [of i m rs "[]" calls fr u] convert_all_start by metis
  also have "\<dots> = Some s3"
    unfolding reply_chunks_def convert_all_append s1(1) option.case list.map convert_all.simps s2(1) by (rule s3(1) [unfolded convert_all.simps])
  finally have "convert_all (reply_chunks i m rs [] calls fr u) conv_init = Some s3" .
  note ev = converted_events [OF assms(1-3) this]
  have "List.map_filter (\<lambda>a. Option.bind a build_block) (map Some (blocks_of (concat rs) '''' [])) = [ThinkingBlock (concat rs) '''']"
    using build_blocks [of "[]" "concat rs" "''''"] ne by simp
  note blocks = this
  obtain g where g: "merge_events (cv_out (snd (finish_stream all_sent s3))) NewClaudeMessagesMerger = Some g"
      "cmg_blocks g = map Some (blocks_of (concat rs) [] [])" "\<not> cmg_finalized g" "cl_StopReason (cmg_response g) = mapFinishReason fr"
    using s3(2) by simp
  have "cl_Content (cmg_response (claude_finalize g)) = [Some (ThinkingBlock (concat rs) [])]"
    "cl_StopReason (cmg_response (claude_finalize g)) = mapFinishReason fr"
    using g(2-4) blocks by (simp_all add: claude_finalize_def)
  with ev g(1) show ?thesis by blast
qed


definition demo_usage :: usage where
  "demo_usage = \<lparr>u_CompletionTokens = 7, u_PromptTokens = 20, u_TotalTokens = 27, u_CompletionDetails = None,
     u_PromptDetails = Some \<lparr>pd_CachedTokens = 5, pd_AudioTokens = 0\<rparr>\<rparr>"

definition demo_reply :: "string list \<Rightarrow> chat_chunk list" where
  "demo_reply ts = reply_chunks ''c1'' ''m'' [''hm'', ''!''] ts [(''t1'', ''f'', [''{'', ''}''])] ''tool_calls'' demo_usage"

lemma carriers_deliver: "list_all2 delivers (map carrier cks) cks"
  by (simp add: list_all2_map1 list.rel_refl)

theorem merging_commutes_with_conversion_witness:
  "\<exists>evs g. st_chunks (convertStreamResponse demo_json \<lparr>send_ok = all_sent, ctx_done = (\<lambda>_. False)\<rparr>
       \<lparr>st_chunks = map carrier (demo_reply [''on it'']) @ [done_chunk], st_close = []\<rparr>) = map (event_chunk demo_json) evs \<and>
    merge_events evs NewClaudeMessagesMerger = Some g \<and>
    convert_response (mg_result (chat_finalize (fold merge_chunk (demo_reply [''on it'']) NewChatCompletionMerger))) =
      Returned (cmg_response (claude_finalize g))"
  unfolding demo_reply_def
  by (rule merging_commutes_with_conversion [where cs = "map carrier (demo_reply [''on it''])" and d = done_chunk and rest = "[]"])
    (simp_all add: demo_reply_def carriers_deliver)

theorem tool_calls_after_reasoning_are_lost_witness:
  "\<exists>evs g. st_chunks (convertStreamResponse demo_json \<lparr>send_ok = all_sent, ctx_done = (\<lambda>_. False)\<rparr>
       \<lparr>st_chunks = map carrier (demo_reply []) @ [done_chunk], st_close = []\<rparr>) = map (event_chunk demo_json) evs \<and>
    merge_events evs NewClaudeMessagesMerger = Some g \<and>
    cl_Content (cmg_response (claude_finalize g)) = [Some (ThinkingBlock (concat [''hm'', ''!'']) '''')] \<and>
    cl_StopReason (cmg_response (claude_finalize g)) = mapFinishReason ''tool_calls''"
  unfolding demo_reply_def
  by (rule tool_calls_after_reasoning_are_lost [where cs = "map carrier (demo_reply [])" and d = done_chunk and rest = "[]"
        and i = "''c1''" and m = "''m''" and calls = "[(''t1'', ''f'', [''{'', ''}''])]" and u = demo_usage])
    (simp_all add: demo_reply_def carriers_deliver)

end
