(* ===== verification/ImageCache.thy ===== *)
theory ImageCache
  imports ErrorMiddleware ColorPriority
begin

text \<open>
  \<open>pkg/engines/image-url-fetch/cache\<close>: the in-memory index, the file store over it, and the file system
  calls the store makes. Any call may fail; a fault oracle says which, and what the random parts are
  comes with it. The abstract specification is a finite map from keys to payloads, and the refinement
  theorem replays every history of operations on it, failures included. A last section interleaves two
  operations, because the lock of the index is not held across a read.
\<close>

section \<open>The index\<close>

text \<open>A path is what \<open>filepath.Clean\<close> leaves of its text: whether it is rooted, and its elements.\<close>

type_synonym path = "bool \<times> string list"

record cache_entry =
  en_key :: string
  en_bucketID :: string
  en_dataPath :: path
  en_sourceURL :: string
  en_size :: int
  en_contentType :: string

text \<open>The set of keys of a bucket is a list, in the order in which a loop over it happens to run.\<close>

record memoryIndex =
  byKey :: "string \<rightharpoonup> cache_entry"
  byBucket :: "string \<rightharpoonup> string list"

definition newMemoryIndex :: memoryIndex where
  "newMemoryIndex = \<lparr>byKey = Map.empty, byBucket = Map.empty\<rparr>"

definition snapshot :: "string \<Rightarrow> memoryIndex \<Rightarrow> cache_entry option" where
  "snapshot k ix = byKey ix k"

text \<open>Taking a key out of a bucket; the last one takes the bucket with it.\<close>

definition leave_bucket :: "string \<Rightarrow> string \<Rightarrow> memoryIndex \<Rightarrow> memoryIndex" where
  "leave_bucket b k ix =
     (case byBucket ix b of
        None \<Rightarrow> ix
      | Some ks \<Rightarrow>
          let ks' = removeAll k ks
          in ix\<lparr>byBucket := (if ks' = [] then (byBucket ix)(b := None) else (byBucket ix)(b \<mapsto> ks'))\<rparr>)"

definition deleteKey :: "string \<Rightarrow> memoryIndex \<Rightarrow> cache_entry option \<times> memoryIndex" where
  "deleteKey k ix =
     (case byKey ix k of
        None \<Rightarrow> (None, ix)
      | Some cur \<Rightarrow> (Some cur, leave_bucket (en_bucketID cur) k (ix\<lparr>byKey := (byKey ix)(k := None)\<rparr>)))"

definition insertOrReplace :: "cache_entry \<Rightarrow> memoryIndex \<Rightarrow> cache_entry option \<times> memoryIndex" where
  "insertOrReplace e ix =
     (let k = en_key e; old = byKey ix k;
          ix1 = (case old of None \<Rightarrow> ix | Some prev \<Rightarrow> leave_bucket (en_bucketID prev) k ix);
          ks = (case byBucket ix1 (en_bucketID e) of None \<Rightarrow> [] | Some ks \<Rightarrow> ks)
      in (old, ix1\<lparr>byKey := (byKey ix1)(k \<mapsto> e), byBucket := (byBucket ix1)(en_bucketID e \<mapsto> List.insert k ks)\<rparr>))"

definition removeBucket :: "string \<Rightarrow> memoryIndex \<Rightarrow> cache_entry list \<times> memoryIndex" where
  "removeBucket b ix =
     (case byBucket ix b of
        None \<Rightarrow> ([], ix)
      | Some ks \<Rightarrow>
          if ks = [] then ([], ix)
          else (List.map_filter (byKey ix) ks, ix\<lparr>byKey := (byKey ix) |` (- set ks), byBucket := (byBucket ix)(b := None)\<rparr>))"

text \<open>The two maps describe the same entries, and no bucket is empty.\<close>

definition index_inv :: "memoryIndex \<Rightarrow> bool" where
  "index_inv ix \<longleftrightarrow>
     (\<forall>k e. byKey ix k = Some e \<longrightarrow> en_key e = k \<and> (\<exists>ks. byBucket ix (en_bucketID e) = Some ks \<and> k \<in> set ks)) \<and>
     (\<forall>b ks. byBucket ix b = Some ks \<longrightarrow>
        ks \<noteq> [] \<and> distinct ks \<and> (\<forall>k\<in>set ks. \<exists>e. byKey ix k = Some e \<and> en_bucketID e = b))"

lemma index_invD:
  assumes "index_inv ix"
  shows "byKey ix k = Some e \<Longrightarrow> en_key e = k"
    and "byKey ix k = Some e \<Longrightarrow> \<exists>ks. byBucket ix (en_bucketID e) = Some ks \<and> k \<in> set ks"
    and "byBucket ix b = Some ks \<Longrightarrow> ks \<noteq> [] \<and> distinct ks"
    and "byBucket ix b = Some ks \<Longrightarrow> k \<in> set ks \<Longrightarrow> \<exists>e. byKey ix k = Some e \<and> en_bucketID e = b"
  using assms by (simp_all add: index_inv_def)

lemma index_invI:
  assumes "\<And>k e. byKey ix k = Some e \<Longrightarrow> en_key e = k"
    and "\<And>k e. byKey ix k = Some e \<Longrightarrow> \<exists>ks. byBucket ix (en_bucketID e) = Some ks \<and> k \<in> set ks"
    and "\<And>b ks. byBucket ix b = Some ks \<Longrightarrow>
      ks \<noteq> [] \<and> distinct ks \<and> (\<forall>k\<in>set ks. \<exists>e. byKey ix k = Some e \<and> en_bucketID e = b)"
  shows "index_inv ix"
  using assms unfolding index_inv_def by blast

lemma index_inv_new: "index_inv newMemoryIndex"
  by (simp add: index_inv_def newMemoryIndex_def)

lemma byKey_leave [simp]: "byKey (leave_bucket b k ix) = byKey ix"
  by (simp add: leave_bucket_def Let_def split: option.split)

lemma byBucket_leave:
  "byBucket (leave_bucket b k ix) c =
     (if c = b then (case byBucket ix b of None \<Rightarrow> None | Some ks \<Rightarrow> if removeAll k ks = [] then None else Some (removeAll k ks))
      else byBucket ix c)"
  by (simp add: leave_bucket_def Let_def split: option.split)

lemma deleteKey_simps [simp]:
  "fst (deleteKey k ix) = byKey ix k"
  "byKey (snd (deleteKey k ix)) = (byKey ix)(k := None)"
  by (auto simp: deleteKey_def split: option.split)

lemma deleteKey_bucket:
  "byKey ix k = Some cur \<Longrightarrow>
     byBucket (snd (deleteKey k ix)) c =
       (if c = en_bucketID cur
        then (case byBucket ix c of None \<Rightarrow> None | Some ks \<Rightarrow> if removeAll k ks = [] then None else Some (removeAll k ks))
        else byBucket ix c)"
  by (simp add: deleteKey_def byBucket_leave cong: option.case_cong)

lemma insertOrReplace_simps [simp]:
  "fst (insertOrReplace e ix) = byKey ix (en_key e)"
  "byKey (snd (insertOrReplace e ix)) = (byKey ix)(en_key e \<mapsto> e)"
  by (simp_all add: insertOrReplace_def Let_def split: option.split)

lemma removeBucket_byKey:
  assumes "index_inv ix"
  shows "byKey (snd (removeBucket b ix)) k =
    (case byKey ix k of None \<Rightarrow> None | Some e \<Rightarrow> if en_bucketID e = b then None else Some e)"
proof (cases "byBucket ix b")
  case None
  then show ?thesis using index_invD(2) [OF assms] by (fastforce simp: removeBucket_def split: option.split)
next
  case (Some ks)
  have "k \<in> set ks \<longleftrightarrow> en_bucketID e = b" if "byKey ix k = Some e" for e
    using index_invD(2) [OF assms that] index_invD(4) [OF assms Some, of k] that Some by auto
  then show ?thesis
    using Some index_invD(3) [OF assms Some] index_invD(4) [OF assms Some, of k]
    by (auto simp: removeBucket_def restrict_map_def split: option.split)
qed

lemma removeBucket_entries:
  assumes "index_inv ix"
  shows "set (fst (removeBucket b ix)) = {e. \<exists>k. byKey ix k = Some e \<and> en_bucketID e = b}"
proof (cases "byBucket ix b")
  case None
  then show ?thesis using index_invD(2) [OF assms] by (fastforce simp: removeBucket_def)
next
  case (Some ks)
  then have "set (fst (removeBucket b ix)) = {e. \<exists>k\<in>set ks. byKey ix k = Some e}"
    using index_invD(3) [OF assms Some] by (force simp: removeBucket_def List.map_filter_def)
  then show ?thesis
    using index_invD(2) [OF assms] index_invD(4) [OF assms Some] Some by fastforce
qed

lemma index_inv_leave:
  assumes inv: "index_inv ix" and old: "byKey ix k = Some prev"
  shows "\<And>j e. j \<noteq> k \<Longrightarrow> byKey ix j = Some e \<Longrightarrow>
      \<exists>ks. byBucket (leave_bucket (en_bucketID prev) k ix) (en_bucketID e) = Some ks \<and> j \<in> set ks"
    and "\<And>b ks. byBucket (leave_bucket (en_bucketID prev) k ix) b = Some ks \<Longrightarrow>
      ks \<noteq> [] \<and> distinct ks \<and> k \<notin> set ks \<and> (\<forall>j\<in>set ks. \<exists>e. byKey ix j = Some e \<and> en_bucketID e = b)"
proof -
  fix j e assume j: "j \<noteq> k" "byKey ix j = Some e"
  obtain ks where ks: "byBucket ix (en_bucketID e) = Some ks" "j \<in> set ks" using index_invD(2) [OF inv j(2)] by auto
  with j(1) have "j \<in> set (removeAll k ks)" by simp
  then have "removeAll k ks \<noteq> []" by (metis list.set(1) empty_iff)
  with ks j(1) show "\<exists>ks. byBucket (leave_bucket (en_bucketID prev) k ix) (en_bucketID e) = Some ks \<and> j \<in> set ks"
    by (auto simp: byBucket_leave)
next
  fix b ks assume b: "byBucket (leave_bucket (en_bucketID prev) k ix) b = Some ks"
  show "ks \<noteq> [] \<and> distinct ks \<and> k \<notin> set ks \<and> (\<forall>j\<in>set ks. \<exists>e. byKey ix j = Some e \<and> en_bucketID e = b)"
  proof (cases "b = en_bucketID prev")
    case True
    with b obtain ls where "byBucket ix b = Some ls" "ks = removeAll k ls" "ks \<noteq> []"
      by (auto simp: byBucket_leave split: option.splits if_splits)
    then show ?thesis using index_invD(3,4) [OF inv] by (auto intro: distinct_removeAll)
  next
    case False
    with b have "byBucket ix b = Some ks" by (simp add: byBucket_leave)
    moreover have "k \<notin> set ks" using index_invD(4) [OF inv calculation] old False by fastforce
    ultimately show ?thesis using index_invD(3,4) [OF inv] by blast
  qed
qed

lemma deleteKey_inv: "index_inv ix \<Longrightarrow> index_inv (snd (deleteKey k ix))"
proof (cases "byKey ix k")
  case (Some prev)
  assume inv: "index_inv ix"
  have del: "snd (deleteKey k ix) = leave_bucket (en_bucketID prev) k (ix\<lparr>byKey := (byKey ix)(k := None)\<rparr>)"
    using Some by (simp add: deleteKey_def)
  have bb: "byBucket (snd (deleteKey k ix)) b = byBucket (leave_bucket (en_bucketID prev) k ix) b" for b
    by (simp add: del byBucket_leave cong: option.case_cong)
  show ?thesis
  proof (rule index_invI)
    fix j e assume j: "byKey (snd (deleteKey k ix)) j = Some e"
    then have "j \<noteq> k" "byKey ix j = Some e" by (auto split: if_splits)
    then show "en_key e = j" "\<exists>ks. byBucket (snd (deleteKey k ix)) (en_bucketID e) = Some ks \<and> j \<in> set ks"
      unfolding bb using index_invD(1) [OF inv] index_inv_leave(1) [OF inv Some] by auto
  next
    fix b ks assume "byBucket (snd (deleteKey k ix)) b = Some ks"
    then show "ks \<noteq> [] \<and> distinct ks \<and> (\<forall>j\<in>set ks. \<exists>e. byKey (snd (deleteKey k ix)) j = Some e \<and> en_bucketID e = b)"
      unfolding bb using index_inv_leave(2) [OF inv Some, of b ks] by auto
  qed
qed (simp add: deleteKey_def)

lemma insertOrReplace_inv:
  assumes inv: "index_inv ix"
  shows "index_inv (snd (insertOrReplace e ix))"
proof -
  let ?k = "en_key e"
  define ix1 where "ix1 = (case byKey ix ?k of None \<Rightarrow> ix | Some prev \<Rightarrow> leave_bucket (en_bucketID prev) ?k ix)"
  have ks1: "\<exists>ks. byBucket ix1 (en_bucketID f) = Some ks \<and> j \<in> set ks" if "j \<noteq> ?k" "byKey ix j = Some f" for j f
    using that index_inv_leave(1) [OF inv _ that] index_invD(2) [OF inv that(2)] by (simp add: ix1_def split: option.split)
  have ks2: "ks \<noteq> [] \<and> distinct ks \<and> ?k \<notin> set ks \<and> (\<forall>j\<in>set ks. \<exists>f. byKey ix j = Some f \<and> en_bucketID f = b)"
    if "byBucket ix1 b = Some ks" for b ks
  proof (cases "byKey ix ?k")
    case None
    with that show ?thesis using index_invD(3,4) [OF inv, of b ks] by (fastforce simp: ix1_def)
  next
    case (Some prev)
    with that show ?thesis using index_inv_leave(2) [OF inv Some, of b ks] by (simp add: ix1_def)
  qed
  let ?ks = "case byBucket ix1 (en_bucketID e) of None \<Rightarrow> [] | Some ks \<Rightarrow> ks"
  have bb: "byBucket (snd (insertOrReplace e ix)) b = (if b = en_bucketID e then Some (List.insert ?k ?ks) else byBucket ix1 b)" for b
    by (simp add: insertOrReplace_def Let_def ix1_def)
  have ks: "distinct ?ks" "?k \<notin> set ?ks" "\<And>j. j \<in> set ?ks \<Longrightarrow> \<exists>f. byKey ix j = Some f \<and> en_bucketID f = en_bucketID e"
  proof -
    show "distinct ?ks" "?k \<notin> set ?ks" using ks2 [of "en_bucketID e"] by (cases "byBucket ix1 (en_bucketID e)"; simp)+
    fix j assume "j \<in> set ?ks"
    then obtain ls where "byBucket ix1 (en_bucketID e) = Some ls" "j \<in> set ls" by (cases "byBucket ix1 (en_bucketID e)"; simp)
    then show "\<exists>f. byKey ix j = Some f \<and> en_bucketID f = en_bucketID e" using ks2 by blast
  qed
  show ?thesis
  proof (rule index_invI)
    fix j f assume j: "byKey (snd (insertOrReplace e ix)) j = Some f"
    show "en_key f = j" using j index_invD(1) [OF inv] by (auto split: if_splits)
    show "\<exists>ks. byBucket (snd (insertOrReplace e ix)) (en_bucketID f) = Some ks \<and> j \<in> set ks"
    proof (cases "j = ?k")
      case True
      with j have "f = e" by simp
      with True show ?thesis by (simp add: bb)
    next
      case False
      with j have "byKey ix j = Some f" by simp
      from ks1 [OF False this] obtain ls where "byBucket ix1 (en_bucketID f) = Some ls" "j \<in> set ls" by blast
      then show ?thesis unfolding bb by (cases "en_bucketID f = en_bucketID e") auto
    qed
  next
    fix b ls assume ls: "byBucket (snd (insertOrReplace e ix)) b = Some ls"
    show "ls \<noteq> [] \<and> distinct ls \<and> (\<forall>j\<in>set ls. \<exists>f. byKey (snd (insertOrReplace e ix)) j = Some f \<and> en_bucketID f = b)"
    proof (cases "b = en_bucketID e")
      case True
      with ls have "ls = List.insert ?k ?ks" by (simp add: bb)
      moreover have "\<exists>f. byKey (snd (insertOrReplace e ix)) j = Some f \<and> en_bucketID f = b" if "j \<in> set ?ks" for j
        using ks(3) [OF that] True by simp
      moreover have "List.insert x xs \<noteq> []" for x :: string and xs by (cases xs) (simp_all add: List.insert_def)
      ultimately show ?thesis using ks(1) True by (auto simp: distinct_insert)
    next
      case False
      with ls have "byBucket ix1 b = Some ls" by (simp add: bb)
      then show ?thesis using ks2 [of b ls] by auto
    qed
  qed
qed

lemma removeBucket_inv:
  assumes inv: "index_inv ix"
  shows "index_inv (snd (removeBucket b ix))"
proof (rule index_invI)
  have bb: "byBucket (snd (removeBucket b ix)) c = (if c = b then None else byBucket ix c)" for c
    using index_invD(3) [OF inv, of b] by (auto simp: removeBucket_def split: option.split)
  fix k e assume "byKey (snd (removeBucket b ix)) k = Some e"
  then have "byKey ix k = Some e" "en_bucketID e \<noteq> b" by (auto simp: removeBucket_byKey [OF inv] split: option.splits if_splits)
  then show "en_key e = k" "\<exists>ks. byBucket (snd (removeBucket b ix)) (en_bucketID e) = Some ks \<and> k \<in> set ks"
    using index_invD(1,2) [OF inv] by (auto simp: bb)
next
  fix c ks assume "byBucket (snd (removeBucket b ix)) c = Some ks"
  then have "byBucket ix c = Some ks" "c \<noteq> b"
    using index_invD(3) [OF inv, of b] by (auto simp: removeBucket_def split: option.splits if_splits)
  then show "ks \<noteq> [] \<and> distinct ks \<and> (\<forall>k\<in>set ks. \<exists>e. byKey (snd (removeBucket b ix)) k = Some e \<and> en_bucketID e = c)"
    using index_invD(3,4) [OF inv, of c ks] by (fastforce simp: removeBucket_byKey [OF inv])
qed

section \<open>Keys, buckets and paths\<close>

definition validateKey :: "string \<Rightarrow> err option" where
  "validateKey key =
     (if key = '''' then Some (Wrap ''empty'' [Sentinel ''ErrInvalidKey''])
      else if CHR ''/'' \<in> set key \<or> CHR 0x5C \<in> set key then Some (Wrap ''must not contain path separators'' [Sentinel ''ErrInvalidKey''])
      else None)"

text \<open>\<open>KeyForURL\<close> is the SHA-256 digest, a parameter, in hexadecimal.\<close>

definition hex_byte :: "char \<Rightarrow> string" where
  "hex_byte c = (let n = (of_char c :: nat) in [hex_digit (n div 16), hex_digit (n mod 16)])"

definition KeyForURL :: "(string \<Rightarrow> string) \<Rightarrow> string \<Rightarrow> string" where
  "KeyForURL sha256 rawURL = concat (map hex_byte (sha256 rawURL))"

text \<open>Durations are nanoseconds and times are Unix seconds; Go's remainder has the sign of the dividend.\<close>

definition bucketDuration :: "int \<Rightarrow> int" where
  "bucketDuration d = (if d \<le> 0 then 60 * second else d)"

definition bucketID :: "int \<Rightarrow> int \<Rightarrow> string" where
  "bucketID d u =
     (let s = bucketDuration d sdiv second; sec = (if s \<le> 0 then 1 else s) in dec_int (u - u smod sec))"

text \<open>Elements of a path: empty ones and \<open>.\<close> vanish, \<open>..\<close> takes the last one away, which above the
  root does nothing.\<close>

fun split_slash :: "string \<Rightarrow> string list" where
  "split_slash [] = [[]]"
| "split_slash (c # cs) = (if c = CHR ''/'' then [] # split_slash cs else (c # hd (split_slash cs)) # tl (split_slash cs))"

definition clean_elem :: "bool \<Rightarrow> string \<Rightarrow> string list \<Rightarrow> string list" where
  "clean_elem rooted x es =
     (if x = '''' \<or> x = ''.'' then es
      else if x = ''..'' then (if es \<noteq> [] \<and> last es \<noteq> ''..'' then butlast es else if rooted then es else es @ [x])
      else es @ [x])"

definition path_join :: "path \<Rightarrow> string \<Rightarrow> path" where
  "path_join p x = (fst p, fold (clean_elem (fst p)) (split_slash x) (snd p))"

definition clean_path :: "string \<Rightarrow> path" where
  "clean_path s = path_join (take 1 s = ''/'', []) s"

definition objectPaths :: "string \<Rightarrow> string \<Rightarrow> string \<Rightarrow> path \<times> path" where
  "objectPaths base b key =
     (let dir = path_join (clean_path base) b in (dir, path_join dir (key @ ''.bin'')))"

lemma validateKey_None: "validateKey key = None \<longleftrightarrow> key \<noteq> '''' \<and> CHR ''/'' \<notin> set key \<and> CHR 0x5C \<notin> set key"
  by (simp add: validateKey_def)

lemma split_slash_plain: "CHR ''/'' \<notin> set x \<Longrightarrow> split_slash x = [x]"
  by (induction x) auto

text \<open>An element that stays as it is.\<close>

definition plain_elem :: "string \<Rightarrow> bool" where
  "plain_elem x \<longleftrightarrow> CHR ''/'' \<notin> set x \<and> x \<notin> {'''', ''.'', ''..''}"

lemma path_join_plain [simp]: "plain_elem x \<Longrightarrow> path_join p x = (fst p, snd p @ [x])"
  by (simp add: plain_elem_def path_join_def split_slash_plain clean_elem_def)

lemma plain_bin: "CHR ''/'' \<notin> set key \<Longrightarrow> plain_elem (key @ ''.bin'')"
proof -
  assume "CHR ''/'' \<notin> set key"
  moreover have "length (key @ ''.bin'') \<notin> {0, 1, 2}" by simp
  then have "key @ ''.bin'' \<notin> {'''', ''.'', ''..''}" by auto
  ultimately show ?thesis by (simp add: plain_elem_def)
qed

lemma plain_bucketID: "plain_elem (bucketID d u)"
proof -
  have dec: "plain_elem (dec_nat n)" for n
  proof -
    have "\<not> is_digit (CHR ''.'')" "\<not> is_digit (CHR ''/'')" by (simp_all add: is_digit_def)
    then have "CHR ''.'' \<notin> set (dec_nat n)" "CHR ''/'' \<notin> set (dec_nat n)" using dec_nat_digits [of n] by blast+
    moreover from this(1) have "dec_nat n \<noteq> ''.''" "dec_nat n \<noteq> ''..''" by (metis list.set_intros(1))+
    ultimately show ?thesis using dec_nat_nonempty [of n] by (simp add: plain_elem_def)
  qed
  have "plain_elem (CHR ''-'' # x)" if "plain_elem x" for x using that by (simp add: plain_elem_def)
  with dec have "plain_elem (dec_int i)" for i by (simp add: dec_int_def)
  then show ?thesis by (simp add: bucketID_def Let_def)
qed

lemma objectPaths_plain:
  assumes "plain_elem b" "CHR ''/'' \<notin> set key"
  shows "objectPaths base b key =
    ((fst (clean_path base), snd (clean_path base) @ [b]), (fst (clean_path base), snd (clean_path base) @ [b, key @ ''.bin'']))"
  using assms(1) plain_bin [OF assms(2)] by (simp add: objectPaths_def Let_def)

text \<open>The bucket of a time after 1970 is the start of its window.\<close>

lemma bucket_window:
  assumes "0 \<le> u" "second \<le> bucketDuration d"
  shows "\<exists>a. bucketID d u = dec_int a \<and> a \<le> u \<and> u < a + bucketDuration d div second \<and> (bucketDuration d div second) dvd a"
proof -
  let ?s = "bucketDuration d div second"
  have s: "0 < ?s" using assms(2) by (simp add: pos_imp_zdiv_pos_iff)
  have "bucketDuration d sdiv second = ?s" "u smod ?s = u mod ?s"
    using s assms by (simp_all add: signed_divide_int_def signed_modulo_int_def sgn_if)
  then have "bucketID d u = dec_int (u - u mod ?s)" using s by (simp add: bucketID_def Let_def)
  moreover have "u < u - u mod ?s + ?s" using pos_mod_bound [OF s, of u] by simp
  moreover have "?s dvd u - u mod ?s" by (rule dvd_minus_mod)
  ultimately show ?thesis using pos_mod_sign [OF s, of u] by (intro exI [of _ "u - u mod ?s"]) simp
qed

section \<open>The file system\<close>

text \<open>Files by path and the directories. Links are not modelled, and a path below a file does not
  exist.\<close>

record file_system =
  fs_files :: "(path \<times> string) list"
  fs_dirs :: "path list"

text \<open>A call may fail for a reason outside the store.\<close>

datatype fs_call = CallReadFile | CallMkdirAll | CallCreateTemp | CallWrite | CallClose | CallRename | CallRemove

type_synonym fs_fault = "fs_call \<Rightarrow> path \<Rightarrow> err option"

definition parents :: "path \<Rightarrow> path list" where
  "parents p = map (\<lambda>n. (fst p, take n (snd p))) [0..<Suc (length (snd p))]"

definition ReadFile :: "fs_fault \<Rightarrow> path \<Rightarrow> file_system \<Rightarrow> err + string" where
  "ReadFile flt p f =
     (case flt CallReadFile p of
        Some e \<Rightarrow> Inl e
      | None \<Rightarrow>
          (case map_of (fs_files f) p of
             Some d \<Rightarrow> Inr d
           | None \<Rightarrow> Inl (if p \<in> set (fs_dirs f) then Plain ''is a directory'' else Sentinel ''fs.ErrNotExist'')))"

definition MkdirAll :: "fs_fault \<Rightarrow> path \<Rightarrow> file_system \<Rightarrow> err + file_system" where
  "MkdirAll flt p f =
     (case flt CallMkdirAll p of
        Some e \<Rightarrow> Inl e
      | None \<Rightarrow>
          if list_ex (\<lambda>q. map_of (fs_files f) q \<noteq> None) (parents p) then Inl (Plain ''not a directory'')
          else Inr (f\<lparr>fs_dirs := fold List.insert (parents p) (fs_dirs f)\<rparr>))"

text \<open>\<open>os.CreateTemp\<close> with the random part it ended with; it gives up when that name is taken.\<close>

definition CreateTemp :: "fs_fault \<Rightarrow> string \<Rightarrow> path \<Rightarrow> file_system \<Rightarrow> err + path \<times> file_system" where
  "CreateTemp flt rnd dir f =
     (let p = path_join dir (''.bin-'' @ rnd @ ''.tmp'')
      in case flt CallCreateTemp p of
           Some e \<Rightarrow> Inl e
         | None \<Rightarrow>
             if dir \<notin> set (fs_dirs f) then Inl (Sentinel ''fs.ErrNotExist'')
             else if map_of (fs_files f) p \<noteq> None \<or> p \<in> set (fs_dirs f) then Inl (Sentinel ''fs.ErrExist'')
             else Inr (p, f\<lparr>fs_files := AList.update p '''' (fs_files f)\<rparr>))"

text \<open>Writing and closing the temporary file; a failed write leaves it as it was.\<close>

definition WriteTemp :: "fs_fault \<Rightarrow> path \<Rightarrow> string \<Rightarrow> file_system \<Rightarrow> err option \<times> file_system" where
  "WriteTemp flt p d f =
     (case flt CallWrite p of Some e \<Rightarrow> (Some e, f) | None \<Rightarrow> (flt CallClose p, f\<lparr>fs_files := AList.update p d (fs_files f)\<rparr>))"

definition Rename :: "fs_fault \<Rightarrow> path \<Rightarrow> path \<Rightarrow> file_system \<Rightarrow> err + file_system" where
  "Rename flt p q f =
     (case flt CallRename p of
        Some e \<Rightarrow> Inl e
      | None \<Rightarrow>
          if q \<in> set (fs_dirs f) then Inl (Plain ''file exists'')
          else case map_of (fs_files f) p of
                 None \<Rightarrow> Inl (Sentinel ''fs.ErrNotExist'')
               | Some d \<Rightarrow> Inr (f\<lparr>fs_files := AList.update q d (AList.delete p (fs_files f))\<rparr>))"

text \<open>\<open>os.Remove\<close>: a file, or a directory that is empty. The store drops its error.\<close>

definition Remove :: "fs_fault \<Rightarrow> path \<Rightarrow> file_system \<Rightarrow> file_system" where
  "Remove flt p f =
     (if flt CallRemove p \<noteq> None then f
      else if map_of (fs_files f) p \<noteq> None then f\<lparr>fs_files := AList.delete p (fs_files f)\<rparr>
      else if list_ex (\<lambda>q. q \<noteq> p \<and> p \<in> set (parents q)) (map fst (fs_files f) @ fs_dirs f) then f
      else f\<lparr>fs_dirs := removeAll p (fs_dirs f)\<rparr>)"

section \<open>The file store\<close>

text \<open>The index and the disk change; the configuration does not. \<open>Now\<close> and the random name come with
  each call.\<close>

record file_store =
  fst_Root :: string
  fst_BucketDuration :: int
  fst_ix :: memoryIndex
  fst_disk :: file_system

record call_env =
  ce_fault :: fs_fault
  ce_random :: string
  ce_now :: int

definition NewFileStore :: "string \<Rightarrow> file_system \<Rightarrow> err + file_store" where
  "NewFileStore base disk =
     (if TrimSpace base = '''' then Inl (Plain ''cache: empty root'')
      else Inr \<lparr>fst_Root = base, fst_BucketDuration = 60 * second, fst_ix = newMemoryIndex, fst_disk = disk\<rparr>)"

text \<open>The payload and its content type, or nothing. \<open>get_entry\<close> is what follows the snapshot of the
  index.\<close>

type_synonym cached = "string \<times> string"

definition get_entry :: "fs_fault \<Rightarrow> string \<Rightarrow> cache_entry option \<Rightarrow> file_store \<Rightarrow> (err + cached option) \<times> file_store" where
  "get_entry flt key snap s =
     (case snap of
        None \<Rightarrow> (Inr None, s)
      | Some e \<Rightarrow>
          (case ReadFile flt (en_dataPath e) (fst_disk s) of
             Inr d \<Rightarrow> (Inr (Some (d, en_contentType e)), s)
           | Inl er \<Rightarrow>
               if errors_is er ''fs.ErrNotExist'' then (Inr None, s\<lparr>fst_ix := snd (deleteKey key (fst_ix s))\<rparr>)
               else (Inl er, s)))"

definition FileStore_Get :: "call_env \<Rightarrow> string \<Rightarrow> file_store \<Rightarrow> (err + cached option) \<times> file_store" where
  "FileStore_Get env key s =
     (case validateKey key of
        Some e \<Rightarrow> (Inl e, s)
      | None \<Rightarrow> get_entry (ce_fault env) key (snapshot key (fst_ix s)) s)"

text \<open>\<open>put_file\<close> is the part of \<open>Put\<close> up to the rename, which commits it.\<close>

definition put_file :: "call_env \<Rightarrow> path \<Rightarrow> path \<Rightarrow> string \<Rightarrow> file_system \<Rightarrow> err option \<times> file_system" where
  "put_file env dir dataPath d f =
     (let flt = ce_fault env
      in case MkdirAll flt dir f of
           Inl e \<Rightarrow> (Some e, f)
         | Inr f1 \<Rightarrow>
             (case CreateTemp flt (ce_random env) dir f1 of
                Inl e \<Rightarrow> (Some e, f1)
              | Inr (tmp, f2) \<Rightarrow>
                  (case WriteTemp flt tmp d f2 of
                     (Some e, f3) \<Rightarrow> (Some e, Remove flt tmp f3)
                   | (None, f3) \<Rightarrow>
                       (case Rename flt tmp dataPath f3 of
                          Inl e \<Rightarrow> (Some e, Remove flt tmp f3)
                        | Inr f4 \<Rightarrow> (None, f4)))))"

definition FileStore_Put :: "call_env \<Rightarrow> string \<Rightarrow> string \<Rightarrow> string \<Rightarrow> file_store \<Rightarrow> err option \<times> file_store" where
  "FileStore_Put env key d contentType s =
     (case validateKey key of
        Some e \<Rightarrow> (Some e, s)
      | None \<Rightarrow>
          let b = bucketID (fst_BucketDuration s) (ce_now env);
              (dir, dataPath) = objectPaths (fst_Root s) b key
          in case put_file env dir dataPath d (fst_disk s) of
               (Some e, f) \<Rightarrow> (Some e, s\<lparr>fst_disk := f\<rparr>)
             | (None, f) \<Rightarrow>
                 let (old, ix) = insertOrReplace \<lparr>en_key = key, en_bucketID = b, en_dataPath = dataPath, en_sourceURL = '''',
                       en_size = int (length d), en_contentType = contentType\<rparr> (fst_ix s);
                     f' = (case old of
                             None \<Rightarrow> f
                           | Some o' \<Rightarrow> if en_dataPath o' \<noteq> dataPath then Remove (ce_fault env) (en_dataPath o') f else f)
                 in (None, s\<lparr>fst_ix := ix, fst_disk := f'\<rparr>))"

definition FileStore_Delete :: "call_env \<Rightarrow> string \<Rightarrow> file_store \<Rightarrow> err option \<times> file_store" where
  "FileStore_Delete env key s =
     (case validateKey key of
        Some e \<Rightarrow> (Some e, s)
      | None \<Rightarrow>
          let (prev, ix) = deleteKey key (fst_ix s)
          in case prev of
               None \<Rightarrow> (None, s\<lparr>fst_ix := ix\<rparr>)
             | Some e \<Rightarrow> (None, s\<lparr>fst_ix := ix, fst_disk := Remove (ce_fault env) (en_dataPath e) (fst_disk s)\<rparr>))"

definition FileStore_DeleteBucket :: "call_env \<Rightarrow> string \<Rightarrow> file_store \<Rightarrow> err option \<times> file_store" where
  "FileStore_DeleteBucket env b s =
     (if TrimSpace b = '''' then (None, s)
      else
        let (ents, ix) = removeBucket b (fst_ix s);
            f = fold (\<lambda>e. Remove (ce_fault env) (en_dataPath e)) ents (fst_disk s)
        in (None, s\<lparr>fst_ix := ix, fst_disk := Remove (ce_fault env) (path_join (clean_path (fst_Root s)) b) f\<rparr>))"

section \<open>Refinement of a map\<close>

text \<open>What the store promises: a map from keys to a bucket, a payload and a content type. A key whose
  file is gone is absent.\<close>

type_synonym cache_map = "string \<rightharpoonup> string \<times> cached"

definition store_view :: "file_store \<Rightarrow> cache_map" where
  "store_view s k =
     (case byKey (fst_ix s) k of
        None \<Rightarrow> None
      | Some e \<Rightarrow> map_option (\<lambda>d. (en_bucketID e, d, en_contentType e)) (map_of (fs_files (fst_disk s)) (en_dataPath e)))"

datatype cache_op = OpGet string | OpPut string string string | OpDelete string | OpDeleteBucket string

datatype cache_out = OutGet "err + cached option" | OutErr "err option"

fun cache_step :: "call_env \<times> cache_op \<Rightarrow> file_store \<Rightarrow> cache_out \<times> file_store" where
  "cache_step (env, OpGet k) s = map_prod OutGet id (FileStore_Get env k s)"
| "cache_step (env, OpPut k d c) s = map_prod OutErr id (FileStore_Put env k d c s)"
| "cache_step (env, OpDelete k) s = map_prod OutErr id (FileStore_Delete env k s)"
| "cache_step (env, OpDeleteBucket b) s = map_prod OutErr id (FileStore_DeleteBucket env b s)"

text \<open>The map after an operation that answered \<open>out\<close>: one that failed has changed nothing.\<close>

fun map_next :: "int \<Rightarrow> call_env \<times> cache_op \<Rightarrow> cache_out \<Rightarrow> cache_map \<Rightarrow> cache_map" where
  "map_next dur (env, OpPut k d c) (OutErr None) m = m(k \<mapsto> (bucketID dur (ce_now env), d, c))"
| "map_next dur (env, OpDelete k) (OutErr None) m = m(k := None)"
| "map_next dur (env, OpDeleteBucket b) (OutErr None) m =
     (if TrimSpace b = '''' then m
      else (\<lambda>k. case m k of None \<Rightarrow> None | Some (b', v) \<Rightarrow> if b' = b then None else Some (b', v)))"
| "map_next dur (env, op) out m = m"

text \<open>The answers the map allows: a lookup that is not answered from the map has an invalid key or could
  not read the file, and other operations refuse invalid keys.\<close>

fun map_allows :: "call_env \<times> cache_op \<Rightarrow> cache_out \<Rightarrow> cache_map \<Rightarrow> bool" where
  "map_allows (env, OpGet k) (OutGet (Inr v)) m \<longleftrightarrow> validateKey k = None \<and> v = map_option snd (m k)"
| "map_allows (env, OpGet k) (OutGet (Inl e)) m \<longleftrightarrow> validateKey k = Some e \<or> \<not> errors_is e ''fs.ErrNotExist''"
| "map_allows (env, OpPut k d c) (OutErr r) m \<longleftrightarrow> (r = None \<longrightarrow> validateKey k = None)"
| "map_allows (env, OpDelete k) (OutErr r) m \<longleftrightarrow> r = validateKey k"
| "map_allows (env, OpDeleteBucket b) (OutErr r) m \<longleftrightarrow> r = None"
| "map_allows (env, op) out m \<longleftrightarrow> False"

fun answers_like_map :: "int \<Rightarrow> (call_env \<times> cache_op) list \<Rightarrow> cache_out list \<Rightarrow> cache_map \<Rightarrow> bool" where
  "answers_like_map dur [] [] m \<longleftrightarrow> True"
| "answers_like_map dur (op # ops) (out # outs) m \<longleftrightarrow>
     map_allows op out m \<and> answers_like_map dur ops outs (map_next dur op out m)"
| "answers_like_map dur ops outs m \<longleftrightarrow> False"

definition entry_ok :: "string \<Rightarrow> string \<Rightarrow> cache_entry \<Rightarrow> bool" where
  "entry_ok base k e \<longleftrightarrow>
     validateKey k = None \<and> plain_elem (en_bucketID e) \<and> en_dataPath e = snd (objectPaths base (en_bucketID e) k)"

definition store_inv :: "file_store \<Rightarrow> bool" where
  "store_inv s \<longleftrightarrow> index_inv (fst_ix s) \<and> (\<forall>k e. byKey (fst_ix s) k = Some e \<longrightarrow> entry_ok (fst_Root s) k e)"

text \<open>The random part of a name is one element of a path, as are the names of buckets; a failing read
  does not claim that the file is missing.\<close>

definition fault_free_names :: "call_env \<Rightarrow> bool" where
  "fault_free_names env \<longleftrightarrow> CHR ''/'' \<notin> set (ce_random env) \<and>
     (\<forall>p e. ce_fault env CallReadFile p = Some e \<longrightarrow> \<not> errors_is e ''fs.ErrNotExist'')"

fun op_ok :: "call_env \<times> cache_op \<Rightarrow> bool" where
  "op_ok (env, OpDeleteBucket b) \<longleftrightarrow> fault_free_names env \<and> CHR ''/'' \<notin> set b"
| "op_ok (env, op) \<longleftrightarrow> fault_free_names env"

lemma entry_path:
  assumes "entry_ok base k e"
  shows "en_dataPath e = (fst (clean_path base), snd (clean_path base) @ [en_bucketID e, k @ ''.bin''])"
  using assms by (simp add: entry_ok_def validateKey_None objectPaths_plain)

lemma files_Remove:
  "q \<noteq> p \<Longrightarrow> map_of (fs_files (Remove flt p f)) q = map_of (fs_files f) q"
  by (simp add: Remove_def delete_conv')

lemma files_Remove_le: "map_of (fs_files (Remove flt p f)) q \<in> {map_of (fs_files f) q, None}"
  by (simp add: Remove_def delete_conv')

lemma MkdirAll_files: "MkdirAll flt p f = Inr f' \<Longrightarrow> fs_files f' = fs_files f"
  by (auto simp: MkdirAll_def split: option.splits if_splits)

definition temp_path :: "string \<Rightarrow> path \<Rightarrow> path" where
  "temp_path rnd dir = (fst dir, snd dir @ [''.bin-'' @ rnd @ ''.tmp''])"

lemma CreateTemp_path:
  assumes "CreateTemp flt rnd dir f = Inr (p, f')" "CHR ''/'' \<notin> set rnd"
  shows "p = temp_path rnd dir \<and> map_of (fs_files f) p = None \<and> map_of (fs_files f') = (map_of (fs_files f))(p \<mapsto> '''')"
proof -
  have "length (''.bin-'' @ rnd @ ''.tmp'') \<notin> {0, 1, 2}" by simp
  then have "plain_elem (''.bin-'' @ rnd @ ''.tmp'')" using assms(2) by (auto simp: plain_elem_def)
  then have "path_join dir (''.bin-'' @ rnd @ ''.tmp'') = temp_path rnd dir" by (simp only: path_join_plain temp_path_def)
  with assms(1) show ?thesis
    by (auto simp: CreateTemp_def Let_def update_conv' split: option.splits if_splits)
qed

lemma temp_not_data: "temp_path rnd dir \<noteq> (r, es @ [b, k @ ''.bin''])"
proof
  assume "temp_path rnd dir = (r, es @ [b, k @ ''.bin''])"
  then have "last (last (snd (temp_path rnd dir))) = last (k @ ''.bin'')" by (metis last_snoc append_Cons append_assoc append_Nil snd_conv)
  then show False by (simp add: temp_path_def)
qed

lemma put_file_files:
  assumes put: "put_file env dir (r, es @ [b, k @ ''.bin'']) d f = (res, f')" and rnd: "CHR ''/'' \<notin> set (ce_random env)"
  shows "q \<noteq> temp_path (ce_random env) dir \<Longrightarrow>
      map_of (fs_files f') q = (if res = None \<and> q = (r, es @ [b, k @ ''.bin'']) then Some d else map_of (fs_files f) q)"
proof -
  let ?flt = "ce_fault env" and ?data = "(r, es @ [b, k @ ''.bin''])"
  assume q: "q \<noteq> temp_path (ce_random env) dir"
  show ?thesis
  proof (cases "MkdirAll ?flt dir f")
    case (Inr f1)
    note m = MkdirAll_files [OF this]
    show ?thesis
    proof (cases "CreateTemp ?flt (ce_random env) dir f1")
      case (Inr pf)
      obtain p f2 where pf: "pf = (p, f2)" by (cases pf)
      note c = CreateTemp_path [OF Inr [unfolded pf] rnd]
      have data: "?data \<noteq> p" using c temp_not_data by metis
      have w: "map_of (fs_files (snd (WriteTemp ?flt p d f2))) q = map_of (fs_files f) q"
        "fst (WriteTemp ?flt p d f2) = None \<Longrightarrow> map_of (fs_files (snd (WriteTemp ?flt p d f2))) p = Some d"
        using c q m by (auto simp: WriteTemp_def update_conv' split: option.splits)
      show ?thesis
      proof (cases "Rename ?flt p ?data (snd (WriteTemp ?flt p d f2))")
        case (Inl e)
        then show ?thesis using put \<open>MkdirAll ?flt dir f = Inr f1\<close> Inr pf w c q
          by (auto simp: put_file_def Let_def files_Remove split: prod.splits option.splits)
      next
        case (Inr f4)
        then have "fst (WriteTemp ?flt p d f2) = None \<Longrightarrow>
            map_of (fs_files f4) q = (if q = ?data then Some d else map_of (fs_files f) q)"
          using w c q by (auto simp: Rename_def update_conv' delete_conv' split: option.splits if_splits)
        then show ?thesis using put \<open>MkdirAll ?flt dir f = Inr f1\<close> \<open>CreateTemp ?flt (ce_random env) dir f1 = Inr pf\<close> Inr pf w c q
          by (auto simp: put_file_def Let_def files_Remove split: prod.splits option.splits)
      qed
    qed (use put \<open>MkdirAll ?flt dir f = Inr f1\<close> m in \<open>auto simp: put_file_def Let_def\<close>)
  qed (use put in \<open>auto simp: put_file_def Let_def\<close>)
qed

lemma put_file_data:
  assumes "put_file env dir (r, es @ [b, k @ ''.bin'']) d f = (res, f')" and "CHR ''/'' \<notin> set (ce_random env)"
  shows "map_of (fs_files f') (r, es @ [b', k' @ ''.bin'']) =
      (if res = None \<and> b' = b \<and> k' = k then Some d else map_of (fs_files f) (r, es @ [b', k' @ ''.bin'']))"
  using put_file_files [OF assms, of "(r, es @ [b', k' @ ''.bin''])"] temp_not_data [THEN not_sym] by simp

lemma store_inv_entry:
  assumes "store_inv s" "byKey (fst_ix s) k = Some e"
  shows "en_dataPath e = (fst (clean_path (fst_Root s)), snd (clean_path (fst_Root s)) @ [en_bucketID e, k @ ''.bin''])"
    and "validateKey k = None" and "plain_elem (en_bucketID e)" and "en_key e = k"
  using assms entry_path index_invD(1) by (auto simp: store_inv_def entry_ok_def)

text \<open>Same configuration.\<close>

definition same_store :: "file_store \<Rightarrow> file_store \<Rightarrow> bool" where
  "same_store s t \<longleftrightarrow> fst_Root s = fst_Root t \<and> fst_BucketDuration s = fst_BucketDuration t"

definition step_ok :: "call_env \<times> cache_op \<Rightarrow> file_store \<Rightarrow> cache_out \<times> file_store \<Rightarrow> bool" where
  "step_ok op s r \<longleftrightarrow> map_allows op (fst r) (store_view s) \<and>
     store_view (snd r) = map_next (fst_BucketDuration s) op (fst r) (store_view s) \<and> store_inv (snd r) \<and> same_store (snd r) s"

lemma Get_step_ok:
  assumes inv: "store_inv s" and env: "fault_free_names env"
  shows "step_ok (env, OpGet k) s (map_prod OutGet id (FileStore_Get env k s))"
proof (cases "validateKey k")
  case None
  have nf [simp]: "\<not> errors_is er ''fs.ErrNotExist''" if "ce_fault env CallReadFile p = Some er" for p er
    using env that by (cases p) (auto simp: fault_free_names_def)
  show ?thesis
  proof (cases "byKey (fst_ix s) k")
    case (Some e)
    show ?thesis
    proof (cases "map_of (fs_files (fst_disk s)) (en_dataPath e)")
      case gone: None
      have "store_view (s\<lparr>fst_ix := snd (deleteKey k (fst_ix s))\<rparr>) = store_view s"
        using gone Some by (auto simp: store_view_def fun_eq_iff split: option.split)
      moreover have "store_inv (s\<lparr>fst_ix := snd (deleteKey k (fst_ix s))\<rparr>)"
        using inv deleteKey_inv by (auto simp: store_inv_def)
      moreover have "store_view s k = None" using gone Some by (simp add: store_view_def)
      ultimately show ?thesis using gone Some None inv
        by (auto simp: step_ok_def FileStore_Get_def get_entry_def snapshot_def ReadFile_def same_store_def split: option.split)
    next
      case (Some d)
      then show ?thesis using \<open>byKey (fst_ix s) k = Some e\<close> None inv
        by (auto simp: step_ok_def FileStore_Get_def get_entry_def snapshot_def ReadFile_def same_store_def store_view_def
            split: option.split)
    qed
  qed (use None inv in \<open>simp add: step_ok_def FileStore_Get_def get_entry_def snapshot_def same_store_def store_view_def\<close>)
qed (use inv in \<open>simp add: step_ok_def FileStore_Get_def same_store_def\<close>)

lemma Put_step_ok:
  assumes inv: "store_inv s" and env: "fault_free_names env"
  shows "step_ok (env, OpPut k d c) s (map_prod OutErr id (FileStore_Put env k d c s))"
proof (cases "validateKey k")
  case None
  let ?b = "bucketID (fst_BucketDuration s) (ce_now env)" and ?r = "fst (clean_path (fst_Root s))" and ?es = "snd (clean_path (fst_Root s))"
  let ?data = "(?r, ?es @ [?b, k @ ''.bin''])"
  have rnd: "CHR ''/'' \<notin> set (ce_random env)" using env by (simp add: fault_free_names_def)
  have paths: "objectPaths (fst_Root s) ?b k = ((?r, ?es @ [?b]), ?data)"
    using None plain_bucketID by (simp add: validateKey_None objectPaths_plain)
  obtain res f where put: "put_file env (?r, ?es @ [?b]) ?data d (fst_disk s) = (res, f)" by (cases "put_file env (?r, ?es @ [?b]) ?data d (fst_disk s)")
  note files = put_file_data [OF put rnd]
  show ?thesis
  proof (cases res)
    case (Some e)
    then have "store_view (s\<lparr>fst_disk := f\<rparr>) = store_view s"
      using files store_inv_entry(1) [OF inv] by (auto simp: store_view_def fun_eq_iff split: option.split)
    then show ?thesis using Some put paths None inv
      by (simp add: step_ok_def FileStore_Put_def Let_def same_store_def store_inv_def)
  next
    case stored: None
    define e where "e = \<lparr>en_key = k, en_bucketID = ?b, en_dataPath = ?data, en_sourceURL = '''', en_size = int (length d), en_contentType = c\<rparr>"
    define f' where "f' = (case byKey (fst_ix s) k of None \<Rightarrow> f
       | Some o' \<Rightarrow> if en_dataPath o' \<noteq> ?data then Remove (ce_fault env) (en_dataPath o') f else f)"
    let ?s = "s\<lparr>fst_ix := snd (insertOrReplace e (fst_ix s)), fst_disk := f'\<rparr>"
    have res: "FileStore_Put env k d c s = (None, ?s)"
      using None stored put by (simp add: FileStore_Put_def Let_def e_def f'_def paths split_beta split: option.split)
    have kept: "map_of (fs_files f') (?r, ?es @ [b', k' @ ''.bin'']) = map_of (fs_files f) (?r, ?es @ [b', k' @ ''.bin''])"
      if "k' \<noteq> k \<or> b' = ?b" for b' k'
      using that store_inv_entry(1) [OF inv] by (auto simp: f'_def files_Remove split: option.split)
    have "store_view ?s j = ((store_view s)(k \<mapsto> (?b, d, c))) j" for j
    proof (cases "j = k")
      case True
      then show ?thesis using files kept stored by (simp add: store_view_def e_def)
    next
      case False
      then show ?thesis using files kept stored store_inv_entry(1) [OF inv, of j]
        by (auto simp: store_view_def e_def split: option.split)
    qed
    moreover have "store_inv ?s"
      using inv insertOrReplace_inv None plain_bucketID paths by (auto simp: store_inv_def entry_ok_def e_def)
    ultimately show ?thesis using None by (auto simp: step_ok_def res same_store_def fun_eq_iff)
  qed
qed (use inv in \<open>simp add: step_ok_def FileStore_Put_def same_store_def\<close>)

lemma Delete_step_ok:
  assumes inv: "store_inv s"
  shows "step_ok (env, OpDelete k) s (map_prod OutErr id (FileStore_Delete env k s))"
proof (cases "validateKey k")
  case valid: None
  define f where "f = (case byKey (fst_ix s) k of None \<Rightarrow> fst_disk s | Some e \<Rightarrow> Remove (ce_fault env) (en_dataPath e) (fst_disk s))"
  let ?s = "s\<lparr>fst_ix := snd (deleteKey k (fst_ix s)), fst_disk := f\<rparr>"
  have res: "FileStore_Delete env k s = (None, ?s)"
    using valid by (simp add: FileStore_Delete_def Let_def split_beta f_def split: option.split)
  have "store_view ?s j = ((store_view s)(k := None)) j" for j
    using store_inv_entry(1) [OF inv, of k] store_inv_entry(1) [OF inv, of j]
    by (auto simp: store_view_def f_def files_Remove split: option.split)
  moreover have "store_inv ?s" using inv deleteKey_inv by (auto simp: store_inv_def)
  ultimately show ?thesis using valid by (auto simp: step_ok_def res same_store_def fun_eq_iff)
qed (use inv in \<open>simp add: step_ok_def FileStore_Delete_def same_store_def\<close>)

lemma files_Remove_all:
  "q \<notin> en_dataPath ` set es \<Longrightarrow> map_of (fs_files (fold (\<lambda>e. Remove flt (en_dataPath e)) es f)) q = map_of (fs_files f) q"
  by (induction es arbitrary: f) (auto simp: files_Remove)

lemma clean_elem_length: "length (clean_elem r x es) \<le> Suc (length es)"
  by (auto simp: clean_elem_def)

lemma bucket_dir_no_data:
  assumes "CHR ''/'' \<notin> set b"
  shows "(r, snd p @ [b', k @ ''.bin'']) \<noteq> path_join p b"
proof -
  have "length (snd (path_join p b)) \<le> Suc (length (snd p))"
    by (simp add: path_join_def split_slash_plain [OF assms] clean_elem_length)
  moreover have "length (snd (r, snd p @ [b', k @ ''.bin''])) = Suc (Suc (length (snd p)))" by simp
  ultimately show ?thesis by (metis Suc_n_not_le_n)
qed

lemma DeleteBucket_step_ok:
  assumes inv: "store_inv s" and b: "CHR ''/'' \<notin> set b"
  shows "step_ok (env, OpDeleteBucket b) s (map_prod OutErr id (FileStore_DeleteBucket env b s))"
proof (cases "TrimSpace b = ''''")
  case False
  note ix = store_inv_def [of s, THEN iffD1, OF inv, THEN conjunct1]
  let ?flt = "ce_fault env" and ?ents = "fst (removeBucket b (fst_ix s))"
  let ?f = "fold (\<lambda>e. Remove ?flt (en_dataPath e)) ?ents (fst_disk s)"
  let ?s = "s\<lparr>fst_ix := snd (removeBucket b (fst_ix s)), fst_disk := Remove ?flt (path_join (clean_path (fst_Root s)) b) ?f\<rparr>"
  have res: "FileStore_DeleteBucket env b s = (None, ?s)"
    using False by (simp add: FileStore_DeleteBucket_def Let_def split_beta)
  have kept: "map_of (fs_files (fst_disk ?s)) (en_dataPath e) = map_of (fs_files (fst_disk s)) (en_dataPath e)"
    if e: "byKey (fst_ix s) j = Some e" "en_bucketID e \<noteq> b" for j e
  proof -
    have "en_dataPath e \<notin> en_dataPath ` set ?ents"
    proof
      assume "en_dataPath e \<in> en_dataPath ` set ?ents"
      then obtain i g where "byKey (fst_ix s) i = Some g" "en_bucketID g = b" "en_dataPath e = en_dataPath g"
        by (auto simp: removeBucket_entries [OF ix])
      then show False using e store_inv_entry(1) [OF inv] by auto
    qed
    moreover have "en_dataPath e \<noteq> path_join (clean_path (fst_Root s)) b"
      using store_inv_entry(1) [OF inv e(1)] bucket_dir_no_data [OF b] by metis
    ultimately show ?thesis by (simp add: files_Remove files_Remove_all)
  qed
  have "store_view ?s j = map_next (fst_BucketDuration s) (env, OpDeleteBucket b) (OutErr None) (store_view s) j" for j
  proof (cases "byKey (fst_ix s) j")
    case (Some e)
    then show ?thesis using False kept [OF Some]
      by (cases "map_of (fs_files (fst_disk s)) (en_dataPath e)") (auto simp: store_view_def removeBucket_byKey [OF ix])
  qed (use False in \<open>simp add: store_view_def removeBucket_byKey [OF ix]\<close>)
  moreover have "store_inv ?s" using inv removeBucket_inv
    by (auto simp: store_inv_def removeBucket_byKey [OF ix] split: option.splits if_splits)
  ultimately show ?thesis by (auto simp: step_ok_def res same_store_def fun_eq_iff)
qed (use inv in \<open>simp add: step_ok_def FileStore_DeleteBucket_def same_store_def\<close>)

lemma cache_step_ok:
  assumes "store_inv s" "op_ok op"
  shows "step_ok op s (cache_step op s)"
  using assms Get_step_ok Put_step_ok Delete_step_ok DeleteBucket_step_ok
  by (cases op; cases "snd op") auto

lemma run_answers_like_map:
  assumes "store_inv s" "list_all op_ok ops"
  shows "answers_like_map (fst_BucketDuration s) ops (fst (run_ops cache_step ops s)) (store_view s)"
  using assms
proof (induction ops arbitrary: s)
  case (Cons op ops)
  let ?r = "cache_step op s"
  from Cons.prems have ok: "step_ok op s ?r" by (simp add: cache_step_ok)
  then have "answers_like_map (fst_BucketDuration s) ops (fst (run_ops cache_step ops (snd ?r))) (store_view (snd ?r))"
    using Cons.IH [of "snd ?r"] Cons.prems by (simp add: step_ok_def same_store_def)
  then show ?case using ok by (simp add: split_beta Let_def step_ok_def)
qed simp

text \<open>C30: The file store is a map. Whatever operations run on a new store, with whatever calls of the
  file system failing and whatever is already on the disk, every answer is the one that a map from keys
  to payloads with their buckets gives: a lookup returns what was last put under the key and not
  deleted, alone or with its bucket, and an operation that reports an error has changed nothing.\<close>

theorem file_store_refines_map:
  fixes s :: file_store
  assumes "NewFileStore base disk = Inr s" and "list_all op_ok ops"
  shows "answers_like_map (fst_BucketDuration s) ops (fst (run_ops cache_step ops s)) Map.empty"
proof -
  have s: "fst_ix s = newMemoryIndex" using assms(1) by (auto simp: NewFileStore_def split: if_splits)
  then have "store_inv s" by (simp add: store_inv_def index_inv_new) (simp add: newMemoryIndex_def)
  moreover have "store_view s = Map.empty" using s by (simp add: store_view_def fun_eq_iff newMemoryIndex_def)
  ultimately show ?thesis using run_answers_like_map [OF _ assms(2), of s] by simp
qed

definition calm_env :: "int \<Rightarrow> call_env" where
  "calm_env now = \<lparr>ce_fault = (\<lambda>c p. None), ce_random = ''1'', ce_now = now\<rparr>"

definition demo_ops :: "(call_env \<times> cache_op) list" where
  "demo_ops = [(calm_env 0, OpPut ''k'' ''v'' ''image/png''), (calm_env 0, OpGet ''k''), (calm_env 0, OpDeleteBucket ''0''), (calm_env 0, OpGet ''k'')]"

theorem file_store_refines_map_witness:
  "answers_like_map (60 * second) demo_ops
     (fst (run_ops cache_step demo_ops \<lparr>fst_Root = ''c'', fst_BucketDuration = 60 * second, fst_ix = newMemoryIndex, fst_disk = \<lparr>fs_files = [], fs_dirs = []\<rparr>\<rparr>))
     Map.empty"
proof -
  have "TrimSpace ''c'' = ''c''" by (simp add: TrimSpace_def is_space_def)
  then have new: "NewFileStore ''c'' \<lparr>fs_files = [], fs_dirs = []\<rparr> = Inr \<lparr>fst_Root = ''c'', fst_BucketDuration = 60 * second, fst_ix = newMemoryIndex, fst_disk = \<lparr>fs_files = [], fs_dirs = []\<rparr>\<rparr>"
    by (simp add: NewFileStore_def)
  have "list_all op_ok demo_ops" by (simp add: demo_ops_def fault_free_names_def calm_env_def)
  from file_store_refines_map [OF new this] show ?thesis by simp
qed

section \<open>Interleaving\<close>

text \<open>C31: A slow lookup evicts a fresh entry. A lookup takes its copy of the entry, then another request
  puts the key again in the next bucket, which removes the old file; the lookup now finds no file
  and drops the key from the index. It is the new entry that goes: the put had succeeded, later lookups
  miss, and the new file stays on the disk where neither \<open>Delete\<close> nor \<open>DeleteBucket\<close> finds it.\<close>

theorem stale_lookup_evicts_fresh_entry:
  assumes inv: "store_inv s" and snap: "snapshot k (fst_ix s) = Some old" and rnd: "CHR ''/'' \<notin> set (ce_random env)"
    and put: "FileStore_Put env k d c s = (None, s1)" and moved: "bucketID (fst_BucketDuration s) (ce_now env) \<noteq> en_bucketID old"
    and "ce_fault env CallRemove (en_dataPath old) = None" and "map_of (fs_files (fst_disk s)) (en_dataPath old) \<noteq> None"
    and "ce_fault env' CallReadFile (en_dataPath old) = None" and "en_dataPath old \<notin> set (fs_dirs (fst_disk s1))"
  defines "new \<equiv> snd (objectPaths (fst_Root s) (bucketID (fst_BucketDuration s) (ce_now env)) k)"
  shows "\<exists>s2. get_entry (ce_fault env') k (snapshot k (fst_ix s)) s1 = (Inr None, s2)
    \<and> map_of (fs_files (fst_disk s2)) new = Some d
    \<and> FileStore_Get env' k s2 = (Inr None, s2)
    \<and> snd (FileStore_Delete env' k s2) = s2
    \<and> (\<forall>e \<in> set (fst (removeBucket (bucketID (fst_BucketDuration s) (ce_now env)) (fst_ix s2))). en_dataPath e \<noteq> new)"
proof -
  let ?b = "bucketID (fst_BucketDuration s) (ce_now env)" and ?r = "fst (clean_path (fst_Root s))" and ?es = "snd (clean_path (fst_Root s))"
  have old: "byKey (fst_ix s) k = Some old" using snap by (simp add: snapshot_def)
  note ent = store_inv_entry [OF inv old]
  have new: "objectPaths (fst_Root s) ?b k = ((?r, ?es @ [?b]), (?r, ?es @ [?b, k @ ''.bin'']))"
    using ent(2) plain_bucketID by (simp add: validateKey_None objectPaths_plain)
  define e where "e = \<lparr>en_key = k, en_bucketID = ?b, en_dataPath = (?r, ?es @ [?b, k @ ''.bin'']), en_sourceURL = '''', en_size = int (length d), en_contentType = c\<rparr>"
  obtain res f where pf: "put_file env (?r, ?es @ [?b]) (?r, ?es @ [?b, k @ ''.bin'']) d (fst_disk s) = (res, f)"
    by (cases "put_file env (?r, ?es @ [?b]) (?r, ?es @ [?b, k @ ''.bin'']) d (fst_disk s)")
  have "res = None" using put pf new ent(2) by (cases res) (auto simp: FileStore_Put_def Let_def)
  note f = pf [unfolded this]
  have "s1 = s\<lparr>fst_ix := snd (insertOrReplace e (fst_ix s)), fst_disk := Remove (ce_fault env) (en_dataPath old) f\<rparr>"
    using put f new ent(1,2) old moved by (simp add: FileStore_Put_def Let_def split_beta e_def)
  then have s1: "fst_disk s1 = Remove (ce_fault env) (en_dataPath old) f" "byKey (fst_ix s1) = (byKey (fst_ix s))(k \<mapsto> e)" "index_inv (fst_ix s1)"
    using insertOrReplace_inv inv by (simp_all add: store_inv_def) (simp add: e_def)
  note files = put_file_data [OF f rnd]
  have oldfile: "map_of (fs_files f) (en_dataPath old) \<noteq> None" using files assms(7) ent(1) by simp
  have gone: "map_of (fs_files (fst_disk s1)) (en_dataPath old) = None"
    using oldfile assms(6) s1(1) by (simp add: Remove_def delete_conv')
  have kept: "map_of (fs_files (fst_disk s1)) new = Some d"
    using files moved ent(1) new by (simp add: s1(1) new_def files_Remove)
  let ?s = "s1\<lparr>fst_ix := snd (deleteKey k (fst_ix s1))\<rparr>"
  have "get_entry (ce_fault env') k (Some old) s1 = (Inr None, ?s)"
    using gone assms(8,9) by (simp add: get_entry_def ReadFile_def)
  moreover have "FileStore_Get env' k ?s = (Inr None, ?s)" "snd (FileStore_Delete env' k ?s) = ?s"
    using ent(2) by (simp_all add: FileStore_Get_def FileStore_Delete_def snapshot_def get_entry_def deleteKey_def [of k "snd _"])
  moreover have "en_dataPath e \<noteq> new" if mem: "e \<in> set (fst (removeBucket ?b (fst_ix ?s)))" for e
  proof -
    obtain j where j: "byKey (fst_ix s1) j = Some e" "j \<noteq> k"
      using mem by (auto simp: removeBucket_entries [OF deleteKey_inv [OF s1(3)]] split: if_splits)
    then have "byKey (fst_ix s) j = Some e" using s1(2) by (metis fun_upd_other)
    from store_inv_entry(1) [OF inv this] j(2) show ?thesis by (simp add: new_def new)
  qed
  ultimately show ?thesis using kept snap by auto
qed

definition empty_store :: file_store where
  "empty_store = \<lparr>fst_Root = ''c'', fst_BucketDuration = 60 * second, fst_ix = newMemoryIndex, fst_disk = \<lparr>fs_files = [], fs_dirs = []\<rparr>\<rparr>"

definition demo_store :: file_store where
  "demo_store = snd (FileStore_Put (calm_env 0) ''k'' ''v'' ''image/png'' empty_store)"

definition demo_entry :: cache_entry where
  "demo_entry = \<lparr>en_key = ''k'', en_bucketID = ''0'', en_dataPath = (False, [''c'', ''0'', ''k.bin'']), en_sourceURL = '''', en_size = 1, en_contentType = ''image/png''\<rparr>"

lemma demo_store_inv: "store_inv demo_store"
proof -
  have "store_inv empty_store" by (simp add: store_inv_def empty_store_def index_inv_new) (simp add: newMemoryIndex_def)
  moreover have "fault_free_names (calm_env 0)" by (simp add: fault_free_names_def calm_env_def)
  ultimately show ?thesis using Put_step_ok by (auto simp: step_ok_def demo_store_def)
qed

lemma demo_race:
  "snapshot ''k'' (fst_ix demo_store) = Some demo_entry"
  "fst (FileStore_Put (calm_env 60) ''k'' ''w'' ''image/png'' demo_store) = None"
  "bucketID (fst_BucketDuration demo_store) (ce_now (calm_env 60)) \<noteq> en_bucketID demo_entry"
  "map_of (fs_files (fst_disk demo_store)) (en_dataPath demo_entry) \<noteq> None"
  "en_dataPath demo_entry \<notin> set (fs_dirs (fst_disk (snd (FileStore_Put (calm_env 60) ''k'' ''w'' ''image/png'' demo_store))))"
  by code_simp+

theorem stale_lookup_evicts_fresh_entry_witness:
  "\<exists>s2. get_entry (ce_fault (calm_env 60)) ''k'' (snapshot ''k'' (fst_ix demo_store)) (snd (FileStore_Put (calm_env 60) ''k'' ''w'' ''image/png'' demo_store)) = (Inr None, s2)
    \<and> map_of (fs_files (fst_disk s2)) (snd (objectPaths (fst_Root demo_store) (bucketID (fst_BucketDuration demo_store) (ce_now (calm_env 60))) ''k'')) = Some ''w''"
proof -
  obtain s1 where put: "FileStore_Put (calm_env 60) ''k'' ''w'' ''image/png'' demo_store = (None, s1)"
    using demo_race(2) by (cases "FileStore_Put (calm_env 60) ''k'' ''w'' ''image/png'' demo_store") auto
  have calm: "CHR ''/'' \<notin> set (ce_random (calm_env 60))" "ce_fault (calm_env 60) CallRemove p = None" "ce_fault (calm_env 60) CallReadFile p = None" for p
    by (simp_all add: calm_env_def)
  have dir: "en_dataPath demo_entry \<notin> set (fs_dirs (fst_disk s1))" using demo_race(5) put by simp
  from stale_lookup_evicts_fresh_entry [OF demo_store_inv demo_race(1) calm(1) put demo_race(3) calm(2) demo_race(4) calm(3) dir]
  show ?thesis using put by auto
qed

end
