(* ===== verification/ImageFetch.thy ===== *)
theory ImageFetch
  imports ImageCache SseClient
begin

text \<open>
  How \<open>pkg/engines/image-url-fetch\<close> gets one image: the reading of responses (\<open>readbody\<close>), the
  store that only remembers URLs (\<open>index_http_store.go\<close>), the keys of the cache, and
  \<open>fetchRemoteImage\<close> with its retries and its limit. The client of the standard library is a parameter:
  what answers a GET, or why it failed. Metrics are left out.
\<close>

section \<open>Base64\<close>

text \<open>\<open>base64.StdEncoding\<close>, and its inverse as the specification.\<close>

definition digit64 :: "nat \<Rightarrow> char" where
  "digit64 n =
     (if n < 26 then char_of (65 + n) else if n < 52 then char_of (71 + n) else if n < 62 then char_of (n - 4)
      else if n = 62 then CHR ''+'' else CHR 0x2F)"

definition value64 :: "char \<Rightarrow> nat" where
  "value64 c =
     (let n = (of_char c :: nat)
      in if 97 \<le> n then n - 71 else if 65 \<le> n then n - 65 else if 48 \<le> n then n + 4 else if n = 43 then 62 else 63)"

fun encode64 :: "string \<Rightarrow> string" where
  "encode64 [] = []"
| "encode64 [a] = (let x = (of_char a :: nat) in [digit64 (x div 4), digit64 (x mod 4 * 16), CHR ''='', CHR ''=''])"
| "encode64 [a, b] =
     (let x = (of_char a :: nat); y = (of_char b :: nat)
      in [digit64 (x div 4), digit64 (x mod 4 * 16 + y div 16), digit64 (y mod 16 * 4), CHR ''=''])"
| "encode64 (a # b # c # s) =
     (let x = (of_char a :: nat); y = (of_char b :: nat); z = (of_char c :: nat)
      in [digit64 (x div 4), digit64 (x mod 4 * 16 + y div 16), digit64 (y mod 16 * 4 + z div 64), digit64 (z mod 64)] @ encode64 s)"

fun decode64 :: "string \<Rightarrow> string" where
  "decode64 (p # q # r # s # t) =
     (let x = char_of (value64 p * 4 + value64 q div 16);
          y = char_of (value64 q mod 16 * 16 + value64 r div 4);
          z = char_of (value64 r mod 4 * 64 + value64 s)
      in if r = CHR ''='' then [x] else if s = CHR ''='' then [x, y] else x # y # z # decode64 t)"
| "decode64 t = []"

lemma digit64_value: "n < 64 \<Longrightarrow> value64 (digit64 n) = n \<and> digit64 n \<noteq> CHR ''=''"
proof -
  assume n: "n < 64"
  have c: "(of_char (digit64 n) :: nat) =
      (if n < 26 then 65 + n else if n < 52 then 71 + n else if n < 62 then n - 4 else if n = 62 then 43 else 47)"
    using n by (simp add: digit64_def)
  have "n < 62 \<Longrightarrow> n - 4 \<noteq> 61" by linarith
  with c have "(of_char (digit64 n) :: nat) \<noteq> 61" using n by simp
  then have "digit64 n \<noteq> CHR ''=''" by auto
  moreover have "value64 (digit64 n) = n" unfolding value64_def c using n by (auto simp: Let_def)
  ultimately show ?thesis by simp
qed

lemma byte_bound: "(of_char c :: nat) < 256"
  by (rule nat_of_char_less_256)

lemma packed: "y < k \<Longrightarrow> (x * k + y) div k = x" "y < k \<Longrightarrow> (x * k + y) mod k = y" for x y k :: nat
  by (simp_all add: div_mult_self3 mod_mult_self3)

lemma high_bits: "(of_char c :: nat) div 16 < 16" "(of_char c :: nat) div 64 < 4"
  using byte_bound [of c] by linarith+

lemma value64_digit64 [simp]: "n < 64 \<Longrightarrow> value64 (digit64 n) = n" "n < 64 \<Longrightarrow> digit64 n \<noteq> CHR ''=''"
  using digit64_value by auto

lemma decode_encode64: "decode64 (encode64 s) = s"
proof (induction s rule: encode64.induct)
  case (2 a)
  have "(of_char a :: nat) mod 4 * 16 < 64" "(of_char a :: nat) div 4 < 64" using byte_bound [of a] by linarith+
  then show ?case by (simp add: Let_def)
next
  case (3 a b)
  have "(of_char a :: nat) mod 4 * 16 + of_char b div 16 < 64" "(of_char a :: nat) div 4 < 64" "(of_char b :: nat) mod 16 * 4 < 64"
    using byte_bound [of a] byte_bound [of b] by linarith+
  moreover have "((of_char a :: nat) mod 4 * 16 + of_char b div 16) div 16 = of_char a mod 4"
    "((of_char a :: nat) mod 4 * 16 + of_char b div 16) mod 16 = of_char b div 16"
    by (simp_all only: packed high_bits)
  ultimately show ?case by (simp add: Let_def)
next
  case (4 a b c s)
  let ?x = "of_char a :: nat" and ?y = "of_char b :: nat" and ?z = "of_char c :: nat"
  have q: "?x mod 4 * 16 + ?y div 16 < 64" "?x div 4 < 64" "?y mod 16 * 4 + ?z div 64 < 64" "?z mod 64 < 64"
    using byte_bound [of a] byte_bound [of b] byte_bound [of c] by linarith+
  have y: "(?x mod 4 * 16 + ?y div 16) div 16 = ?x mod 4" "(?x mod 4 * 16 + ?y div 16) mod 16 = ?y div 16"
    "(?y mod 16 * 4 + ?z div 64) div 4 = ?y mod 16" "(?y mod 16 * 4 + ?z div 64) mod 4 = ?z div 64"
    by (simp_all only: packed high_bits)
  show ?case using q y 4 by (simp add: Let_def)
qed simp

section \<open>Responses\<close>

text \<open>The answer to a GET: \<open>Content-Length\<close> as \<open>net/http\<close> knows it (negative when it does not), and the
  body: the bytes that arrive, and the error that ends them if one does.\<close>

record image_reply =
  ir_status :: int
  ir_length :: int
  ir_header :: http_header
  ir_body :: "string \<times> err option"

text \<open>\<open>strconv.ParseInt(s, 10, 64)\<close>.\<close>

definition ParseInt :: "string \<Rightarrow> int option" where
  "ParseInt s =
     (let neg = (take 1 s = ''-''); ds = (if take 1 s \<in> {''-'', ''+''} then drop 1 s else s);
          v = (if neg then - int (dec_value ds) else int (dec_value ds))
      in if ds \<noteq> [] \<and> list_all is_digit ds \<and> - (2 ^ 63) \<le> v \<and> v < 2 ^ 63 then Some v else None)"

definition ParseContentLength :: "image_reply \<Rightarrow> int" where
  "ParseContentLength r =
     (if 0 \<le> ir_length r then ir_length r
      else let hdr = header_get ''Content-Length'' (ir_header r)
           in if hdr = '''' then - 1 else (case ParseInt (TrimSpace hdr) of Some n \<Rightarrow> n | None \<Rightarrow> - 1))"

definition NormalizeImageContentType :: "string \<Rightarrow> string" where
  "NormalizeImageContentType raw =
     (let ct = (if take 6 raw = ''image/'' then raw else ''image/jpeg'');
          idx = length (takeWhile (\<lambda>c. c \<noteq> CHR '';'') ct)
      in if idx < length ct \<and> 0 < idx then TrimSpace (take idx ct) else ct)"

text \<open>A limited reader hands out \<open>max + 1\<close> bytes and then reports the end, whatever the body does.\<close>

definition ReadLimited :: "string \<times> err option \<Rightarrow> int \<Rightarrow> err + string" where
  "ReadLimited body m =
     (if 0 < m \<and> nat (m + 1) \<le> length (fst body) then Inr (take (nat (m + 1)) (fst body))
      else case snd body of Some e \<Rightarrow> Inl e | None \<Rightarrow> Inr (fst body))"

lemma ReadLimited_within:
  assumes "ReadLimited body m = Inr d" "0 < m" "int (length d) \<le> m"
  shows "d = fst body \<and> snd body = None"
  using assms by (auto simp: ReadLimited_def split: if_splits option.splits)

text \<open>Whatever the server claims, the image is inlined with an image type.\<close>

lemma TrimSpace_keeps_type:
  assumes "take 6 s = ''image/''"
  shows "take 6 (TrimSpace s) = ''image/''"
proof -
  obtain t where s: "s = ''image/'' @ t" using assms by (metis append_take_drop_id)
  have "dropWhile is_space (''image/'' @ t) = ''image/'' @ t" by (simp add: is_space_def)
  moreover have "dropWhile is_space (rev (''image/'' @ t)) = dropWhile is_space (rev t @ ''/egami'')" by simp
  moreover have "dropWhile is_space (rev t @ ''/egami'') = dropWhile is_space (rev t) @ ''/egami''"
    by (induction "rev t") (auto simp: is_space_def dropWhile_append)
  ultimately show ?thesis by (simp add: TrimSpace_def s)
qed

lemma normalized_type: "take 6 (NormalizeImageContentType raw) = ''image/''"
proof -
  define ct where "ct = (if take 6 raw = ''image/'' then raw else ''image/jpeg'')"
  have ct: "take 6 ct = ''image/''" by (simp add: ct_def)
  obtain t where t: "ct = ''image/'' @ t" using ct by (metis append_take_drop_id)
  let ?i = "length (takeWhile (\<lambda>c. c \<noteq> CHR '';'') ct)"
  have "6 \<le> ?i" by (simp add: t)
  then have "take 6 (take ?i ct) = ''image/''" using ct by (simp add: min_def)
  then show ?thesis using ct TrimSpace_keeps_type
    by (auto simp: NormalizeImageContentType_def Let_def ct_def [symmetric])
qed

section \<open>The store that remembers URLs\<close>

text \<open>\<open>IndexHTTPStore\<close> keeps the index only, and a lookup fetches the URL again.\<close>

record index_store =
  ixs_MaxBytesPerURL :: int
  ixs_BucketDuration :: int
  ixs_ix :: memoryIndex

definition NewIndexHTTPStore :: "int \<Rightarrow> int \<Rightarrow> index_store" where
  "NewIndexHTTPStore m dur = \<lparr>ixs_MaxBytesPerURL = m, ixs_BucketDuration = dur, ixs_ix = newMemoryIndex\<rparr>"

text \<open>The client: what a GET of a URL yields. It changes the rest of the world.\<close>

type_synonym 'w http_get = "string \<Rightarrow> 'w \<Rightarrow> (err + image_reply) \<times> 'w"

definition index_reply :: "int \<Rightarrow> image_reply \<Rightarrow> err + cached option" where
  "index_reply m r =
     (if ir_status r \<noteq> 200 then Inl (Plain ''HTTP status'')
      else if 0 < m \<and> 0 \<le> ParseContentLength r \<and> m < ParseContentLength r then Inl (Plain ''Content-Length exceeds limit'')
      else case ReadLimited (ir_body r) m of
             Inl e \<Rightarrow> Inl e
           | Inr d \<Rightarrow>
               if 0 < m \<and> m < int (length d) then Inl (Plain ''body size exceeds limit'')
               else Inr (Some (d, NormalizeImageContentType (header_get ''Content-Type'' (ir_header r)))))"

definition IndexHTTPStore_Get :: "'w http_get \<Rightarrow> string \<Rightarrow> index_store \<times> 'w \<Rightarrow> (err + cached option) \<times> index_store \<times> 'w" where
  "IndexHTTPStore_Get get key sw =
     (case validateKey key of
        Some e \<Rightarrow> (Inl e, sw)
      | None \<Rightarrow>
          (case snapshot key (ixs_ix (fst sw)) of
             None \<Rightarrow> (Inr None, sw)
           | Some e \<Rightarrow>
               if en_sourceURL e = '''' then (Inr None, (fst sw)\<lparr>ixs_ix := snd (deleteKey key (ixs_ix (fst sw)))\<rparr>, snd sw)
               else case get (en_sourceURL e) (snd sw) of
                      (Inl er, w) \<Rightarrow> (Inl er, fst sw, w)
                    | (Inr r, w) \<Rightarrow> (index_reply (ixs_MaxBytesPerURL (fst sw)) r, fst sw, w)))"

definition IndexHTTPStore_Put :: "int \<Rightarrow> string \<Rightarrow> string \<Rightarrow> string \<Rightarrow> string \<Rightarrow> index_store \<Rightarrow> err option \<times> index_store" where
  "IndexHTTPStore_Put now key d contentType sourceURL s =
     (case validateKey key of
        Some e \<Rightarrow> (Some e, s)
      | None \<Rightarrow>
          if TrimSpace sourceURL = '''' then (Some (Plain ''cache: IndexHTTPStore Put requires Meta.SourceURL''), s)
          else (None, s\<lparr>ixs_ix := snd (insertOrReplace \<lparr>en_key = key, en_bucketID = bucketID (ixs_BucketDuration s) now, en_dataPath = (False, []),
                  en_sourceURL = TrimSpace sourceURL, en_size = int (length d), en_contentType = contentType\<rparr> (ixs_ix s))\<rparr>))"

definition IndexHTTPStore_Delete :: "string \<Rightarrow> index_store \<Rightarrow> err option \<times> index_store" where
  "IndexHTTPStore_Delete key s =
     (case validateKey key of Some e \<Rightarrow> (Some e, s) | None \<Rightarrow> (None, s\<lparr>ixs_ix := snd (deleteKey key (ixs_ix s))\<rparr>))"

definition IndexHTTPStore_DeleteBucket :: "string \<Rightarrow> index_store \<Rightarrow> err option \<times> index_store" where
  "IndexHTTPStore_DeleteBucket b s =
     (if TrimSpace b = '''' then (None, s) else (None, s\<lparr>ixs_ix := snd (removeBucket b (ixs_ix s))\<rparr>))"

lemma index_store_inv:
  assumes "index_inv (ixs_ix s)"
  shows "index_inv (ixs_ix (snd (IndexHTTPStore_Put now key d ct u s)))"
    and "index_inv (ixs_ix (snd (IndexHTTPStore_Delete key s)))"
    and "index_inv (ixs_ix (snd (IndexHTTPStore_DeleteBucket b s)))"
    and "index_inv (ixs_ix (fst (snd (IndexHTTPStore_Get get key (s, w)))))"
  using assms insertOrReplace_inv deleteKey_inv removeBucket_inv
  by (auto simp: IndexHTTPStore_Put_def IndexHTTPStore_Delete_def IndexHTTPStore_DeleteBucket_def IndexHTTPStore_Get_def
      split: option.split sum.split prod.split)

section \<open>The world and its stores\<close>

text \<open>The world of the engine: the network, the stores, what each call of the file system meets, and the
  events the notifier was given.\<close>

datatype limit_event = PerURL string int int | PerRequest int int

record 'n fetch_world =
  fw_net :: 'n
  fw_files :: file_store
  fw_index :: index_store
  fw_env :: "nat \<Rightarrow> call_env"
  fw_calls :: nat
  fw_events :: "limit_event list"

text \<open>The methods of \<open>cache.Store\<close> the engine calls; \<open>Put\<close> takes the payload, its content type and its URL.\<close>

record 'w image_store =
  store_Get :: "string \<Rightarrow> 'w \<Rightarrow> (err + cached option) \<times> 'w"
  store_Put :: "string \<Rightarrow> string \<Rightarrow> string \<Rightarrow> string \<Rightarrow> 'w \<Rightarrow> err option \<times> 'w"

definition next_env :: "'n fetch_world \<Rightarrow> call_env \<times> 'n fetch_world" where
  "next_env w = (fw_env w (fw_calls w), w\<lparr>fw_calls := Suc (fw_calls w)\<rparr>)"

definition file_image_store :: "'n fetch_world image_store" where
  "file_image_store =
     \<lparr>store_Get = (\<lambda>key w. let (env, w1) = next_env w; (r, s) = FileStore_Get env key (fw_files w1) in (r, w1\<lparr>fw_files := s\<rparr>)),
      store_Put = (\<lambda>key d ct url w. let (env, w1) = next_env w; (r, s) = FileStore_Put env key d ct (fw_files w1) in (r, w1\<lparr>fw_files := s\<rparr>))\<rparr>"

definition index_image_store :: "'n http_get \<Rightarrow> 'n fetch_world image_store" where
  "index_image_store get =
     \<lparr>store_Get = (\<lambda>key w. let (r, s, n) = IndexHTTPStore_Get get key (fw_index w, fw_net w) in (r, w\<lparr>fw_index := s, fw_net := n\<rparr>)),
      store_Put = (\<lambda>key d ct url w. let (env, w1) = next_env w; (r, s) = IndexHTTPStore_Put (ce_now env) key d ct url (fw_index w1) in (r, w1\<lparr>fw_index := s\<rparr>))\<rparr>"

section \<open>The engine\<close>

text \<open>The categories of errors, each of which wraps \<open>ErrImageURLFetch\<close>; a category is told apart by its
  name.\<close>

abbreviation image_error :: "string \<Rightarrow> err" where
  "image_error name \<equiv> Wrap name [Sentinel name, Sentinel ''ErrImageURLFetch'']"

abbreviation ErrImageRequestBody :: err where "ErrImageRequestBody \<equiv> image_error ''ErrImageRequestBody''"
abbreviation ErrImageDownload :: err where "ErrImageDownload \<equiv> image_error ''ErrImageDownload''"
abbreviation ErrImageResponseRead :: err where "ErrImageResponseRead \<equiv> image_error ''ErrImageResponseRead''"
abbreviation ErrImageInternal :: err where "ErrImageInternal \<equiv> image_error ''ErrImageInternal''"

text \<open>Regular expressions are a parameter: compiling one gives its \<open>MatchString\<close> and its
  \<open>ReplaceAllString\<close>, or an error.\<close>

type_synonym regex = "(string \<Rightarrow> bool) \<times> (string \<Rightarrow> string \<Rightarrow> string)"

record cache_key_rule =
  ckr_Name :: string
  ckr_Pattern :: string
  ckr_KeyTemplate :: string

fun compileCacheKeyRules :: "(string \<Rightarrow> err + regex) \<Rightarrow> cache_key_rule list \<Rightarrow> err + (regex \<times> string) list" where
  "compileCacheKeyRules compile [] = Inr []"
| "compileCacheKeyRules compile (r # rs) =
     (case compile (ckr_Pattern r) of
        Inl e \<Rightarrow> Inl (Wrap ''invalid cache key rule'' [ErrImageInternal, e])
      | Inr re \<Rightarrow>
          (case compileCacheKeyRules compile rs of Inl e \<Rightarrow> Inl e | Inr out \<Rightarrow> Inr ((re, ckr_KeyTemplate r) # out)))"

record 'n image_engine =
  ie_http :: "'n http_get"
  ie_sha256 :: "string \<Rightarrow> string"
  ie_retryCount :: int
  ie_timeout :: int
  ie_maxBytesPerURL :: int
  ie_maxBytesPerRequest :: int
  ie_notifier :: bool
  ie_store :: "'n fetch_world image_store option"
  ie_cacheKeyRules :: "(regex \<times> string) list"

datatype cache_mode = CacheModeNone | CacheModeTelemetry | CacheModeFile

record 'n image_config =
  ic_RetryCount :: int
  ic_Timeout :: int
  ic_MaxBytesPerURL :: int
  ic_MaxBytesPerRequest :: int
  ic_Notifier :: bool
  ic_Cache :: "'n fetch_world image_store option"
  ic_CacheMode :: cache_mode
  ic_CacheFileRoot :: string
  ic_CacheKeyRules :: "cache_key_rule list"

text \<open>The store of the configuration, and the world in which it has been created.\<close>

definition choose_store ::
  "'n http_get \<Rightarrow> 'n image_config \<Rightarrow> 'n fetch_world \<Rightarrow> err + 'n fetch_world image_store option \<times> 'n fetch_world" where
  "choose_store get cfg w =
     (case ic_Cache cfg of
        Some st \<Rightarrow> Inr (Some st, w)
      | None \<Rightarrow>
          (case ic_CacheMode cfg of
             CacheModeNone \<Rightarrow> Inr (None, w)
           | CacheModeTelemetry \<Rightarrow> Inr (Some (index_image_store get), w\<lparr>fw_index := NewIndexHTTPStore (ic_MaxBytesPerURL cfg) 0\<rparr>)
           | CacheModeFile \<Rightarrow>
               let base = TrimSpace (ic_CacheFileRoot cfg)
               in if base = '''' then Inl (Wrap ''CacheModeFile requires non-empty CacheFileRoot'' [ErrImageInternal])
                  else case NewFileStore base (fst_disk (fw_files w)) of
                         Inl e \<Rightarrow> Inl (Wrap ''initialize file cache'' [ErrImageInternal, e])
                       | Inr fs \<Rightarrow> Inr (Some file_image_store, w\<lparr>fw_files := fs\<rparr>)))"

definition NewImageURLFetchEngine ::
  "(string \<Rightarrow> err + regex) \<Rightarrow> (string \<Rightarrow> string) \<Rightarrow> 'n http_get \<Rightarrow> 'n image_config \<Rightarrow> 'n fetch_world \<Rightarrow> err + 'n image_engine \<times> 'n fetch_world" where
  "NewImageURLFetchEngine compile sha get cfg w =
     (case choose_store get cfg w of
        Inl e \<Rightarrow> Inl e
      | Inr (st, w1) \<Rightarrow>
          (case compileCacheKeyRules compile (ic_CacheKeyRules cfg) of
             Inl e \<Rightarrow> Inl e
           | Inr rules \<Rightarrow>
               Inr (\<lparr>ie_http = get, ie_sha256 = sha, ie_retryCount = (if ic_RetryCount cfg < 0 then 0 else ic_RetryCount cfg),
                     ie_timeout = (if ic_Timeout cfg \<le> 0 then 10 * second else ic_Timeout cfg),
                     ie_maxBytesPerURL = ic_MaxBytesPerURL cfg, ie_maxBytesPerRequest = ic_MaxBytesPerRequest cfg,
                     ie_notifier = ic_Notifier cfg, ie_store = st, ie_cacheKeyRules = rules\<rparr>, w1)))"

text \<open>The first rule that matches gives the source of the key.\<close>

definition cacheKeyForURL :: "'n image_engine \<Rightarrow> string \<Rightarrow> string" where
  "cacheKeyForURL e u =
     KeyForURL (ie_sha256 e)
       (case find (\<lambda>((match, replace), template). match u) (ie_cacheKeyRules e) of
          None \<Rightarrow> u
        | Some ((match, replace), template) \<Rightarrow> replace u template)"

definition notifyLimit :: "'n image_engine \<Rightarrow> limit_event \<Rightarrow> 'n fetch_world \<Rightarrow> 'n fetch_world" where
  "notifyLimit e ev w = (if ie_notifier e then w\<lparr>fw_events := fw_events w @ [ev]\<rparr> else w)"

section \<open>Fetching\<close>

record fetched =
  fe_mediaType :: string
  fe_rawBase64 :: string
  fe_decodedBytes :: int
  fe_fromCache :: bool

text \<open>What is done with the response: its size is checked twice, before and after reading.\<close>

definition accept_reply :: "'n image_engine \<Rightarrow> string \<Rightarrow> image_reply \<Rightarrow> 'n fetch_world \<Rightarrow> (err + string \<times> string) \<times> 'n fetch_world" where
  "accept_reply e u r w =
     (let m = ie_maxBytesPerURL e; cl = ParseContentLength r
      in if ir_status r \<noteq> 200 then (Inl (Wrap ''GET: HTTP status'' [ErrImageDownload]), w)
         else if 0 < m \<and> 0 \<le> cl \<and> m < cl
         then (Inl (Wrap ''Content-Length exceeds limit'' [ErrImageDownload, Sentinel ''ErrPerImageSizeExceeded'']), notifyLimit e (PerURL u m cl) w)
         else
           case ReadLimited (ir_body r) m of
             Inl er \<Rightarrow> (Inl (Wrap ''GET'' [ErrImageResponseRead, er]), w)
           | Inr d \<Rightarrow>
               if 0 < m \<and> m < int (length d)
               then (Inl (Wrap ''body size exceeds limit'' [ErrImageDownload, Sentinel ''ErrPerImageSizeExceeded'']), notifyLimit e (PerURL u m (int (length d))) w)
               else (Inr (d, NormalizeImageContentType (header_get ''Content-Type'' (ir_header r))), w))"

definition image_result :: "string \<Rightarrow> string \<Rightarrow> bool \<Rightarrow> fetched" where
  "image_result d ct cached = \<lparr>fe_mediaType = ct, fe_rawBase64 = encode64 d, fe_decodedBytes = int (length d), fe_fromCache = cached\<rparr>"

text \<open>A failure to store the image is only logged.\<close>

definition fetch_http :: "'n image_engine \<Rightarrow> string \<Rightarrow> 'n fetch_world \<Rightarrow> (err + fetched) \<times> 'n fetch_world" where
  "fetch_http e u w =
     (case ie_http e u (fw_net w) of
        (Inl er, n) \<Rightarrow> (Inl (Wrap ''GET'' [ErrImageDownload, er]), w\<lparr>fw_net := n\<rparr>)
      | (Inr r, n) \<Rightarrow>
          (case accept_reply e u r (w\<lparr>fw_net := n\<rparr>) of
             (Inl er, w1) \<Rightarrow> (Inl er, w1)
           | (Inr (d, ct), w1) \<Rightarrow>
               (Inr (image_result d ct False),
                case ie_store e of None \<Rightarrow> w1 | Some st \<Rightarrow> snd (store_Put st (cacheKeyForURL e u) d ct u w1))))"

definition fetchRemoteImageOnce :: "'n image_engine \<Rightarrow> string \<Rightarrow> 'n fetch_world \<Rightarrow> (err + fetched) \<times> 'n fetch_world" where
  "fetchRemoteImageOnce e u w =
     (case ie_store e of
        None \<Rightarrow> fetch_http e u w
      | Some st \<Rightarrow>
          (case store_Get st (cacheKeyForURL e u) w of
             (Inl er, w1) \<Rightarrow> (Inl (Wrap ''key'' [ErrImageInternal, er]), w1)
           | (Inr (Some (d, ct)), w1) \<Rightarrow> (Inr (image_result d (NormalizeImageContentType ct) True), w1)
           | (Inr None, w1) \<Rightarrow> fetch_http e u w1))"

fun fetch_attempts :: "'n image_engine \<Rightarrow> string \<Rightarrow> nat \<Rightarrow> err option \<Rightarrow> 'n fetch_world \<Rightarrow> (err option + fetched) \<times> 'n fetch_world" where
  "fetch_attempts e u 0 lastErr w = (Inl lastErr, w)"
| "fetch_attempts e u (Suc n) lastErr w =
     (case fetchRemoteImageOnce e u w of
        (Inr f, w1) \<Rightarrow> (Inr f, w1)
      | (Inl er, w1) \<Rightarrow> fetch_attempts e u n (Some er) w1)"

definition fetchRemoteImage :: "'n image_engine \<Rightarrow> string \<Rightarrow> 'n fetch_world \<Rightarrow> (err option + fetched) \<times> 'n fetch_world" where
  "fetchRemoteImage e u w =
     (let maxAttempts = ie_retryCount e + 1 in fetch_attempts e u (nat (if maxAttempts < 1 then 1 else maxAttempts)) None w)"

section \<open>The contract of a store\<close>

text \<open>What the engine needs of a store: as long as only payloads of a kind are put in, only such payloads
  come out. \<open>holds\<close> is the provider's reason, which nothing but the two calls can disturb.\<close>

locale image_cache =
  fixes st :: "'n fetch_world image_store" and ok :: "string \<Rightarrow> bool" and holds :: "'n fetch_world \<Rightarrow> bool"
  assumes get_holds: "holds w \<Longrightarrow> holds (snd (store_Get st key w))"
    and get_ok: "holds w \<Longrightarrow> fst (store_Get st key w) = Inr (Some (d, ct)) \<Longrightarrow> ok d"
    and put_holds: "holds w \<Longrightarrow> ok d \<Longrightarrow> holds (snd (store_Put st key d ct u w))"
    and others_keep: "holds w \<Longrightarrow> holds (w\<lparr>fw_net := n\<rparr>)" "holds w \<Longrightarrow> holds (w\<lparr>fw_events := evs\<rparr>)"

text \<open>An image within the limit, as the client of the gateway's upstream decodes it.\<close>

definition within_limit :: "int \<Rightarrow> string \<Rightarrow> bool" where
  "within_limit m d \<longleftrightarrow> (0 < m \<longrightarrow> int (length d) \<le> m)"

definition good_image :: "int \<Rightarrow> fetched \<Rightarrow> bool" where
  "good_image m f \<longleftrightarrow> within_limit m (decode64 (fe_rawBase64 f)) \<and> fe_decodedBytes f = int (length (decode64 (fe_rawBase64 f)))
     \<and> take 6 (fe_mediaType f) = ''image/''"

lemma good_image_result: "within_limit m d \<Longrightarrow> take 6 ct = ''image/'' \<Longrightarrow> good_image m (image_result d ct c)"
  by (simp add: good_image_def image_result_def decode_encode64)

lemma accept_reply_within:
  "accept_reply e u r w = (Inr (d, ct), w1) \<Longrightarrow> within_limit (ie_maxBytesPerURL e) d \<and> take 6 ct = ''image/'' \<and> w1 = w"
  by (auto simp: accept_reply_def Let_def within_limit_def normalized_type split: if_splits sum.splits)

lemma accept_reply_world: "\<exists>evs. snd (accept_reply e u r w) = w\<lparr>fw_events := evs\<rparr>"
proof -
  have "\<exists>evs. w = w\<lparr>fw_events := evs\<rparr>" by (intro exI [of _ "fw_events w"]) simp
  then show ?thesis by (auto simp: accept_reply_def Let_def notifyLimit_def split: sum.split)
qed

text \<open>What one fetch keeps, the attempts for a URL and the fetches of several URLs keep.\<close>

lemma fetch_run_keeps:
  assumes once: "\<And>u w. H w \<Longrightarrow> H (snd (fetchRemoteImageOnce e u w)) \<and> (\<forall>f. fst (fetchRemoteImageOnce e u w) = Inr f \<longrightarrow> good_image m f)"
    and start: "H w" and run: "run_ops (fetchRemoteImage e) us w = (rs, w')"
  shows "H w' \<and> (\<forall>f. Inr f \<in> set rs \<longrightarrow> good_image m f)"
proof -
  have attempts: "H (snd (fetch_attempts e u n er w)) \<and> (\<forall>f. fst (fetch_attempts e u n er w) = Inr f \<longrightarrow> good_image m f)"
    if "H w" for u n er w
    using that
  proof (induction n arbitrary: er w)
    case (Suc n)
    show ?case using Suc.IH once [OF Suc.prems, of u] by (cases "fetchRemoteImageOnce e u w"; cases "fst (fetchRemoteImageOnce e u w)") auto
  qed simp
  show ?thesis using start run
  proof (induction us arbitrary: w rs)
    case (Cons u us)
    obtain r w1 where r: "fetchRemoteImage e u w = (r, w1)" by (cases "fetchRemoteImage e u w")
    then have "H w1 \<and> (\<forall>f. r = Inr f \<longrightarrow> good_image m f)"
      using attempts [OF Cons.prems(1)] unfolding fetchRemoteImage_def Let_def by (metis fst_conv snd_conv)
    then show ?case using Cons.IH [of w1] Cons.prems(2) r by (auto split: prod.splits)
  qed simp
qed

lemma fetch_http_image: "fst (fetch_http e u w) = Inr f \<Longrightarrow> good_image (ie_maxBytesPerURL e) f"
  by (auto simp: fetch_http_def good_image_result dest!: accept_reply_within split: prod.splits sum.splits)

context image_cache begin

lemma fetch_http_good:
  assumes "holds w" "ok = within_limit (ie_maxBytesPerURL e)" "ie_store e = Some st"
  shows "holds (snd (fetch_http e u w))"
    and "fst (fetch_http e u w) = Inr f \<Longrightarrow> good_image (ie_maxBytesPerURL e) f"
proof -
  obtain a n where g: "ie_http e u (fw_net w) = (a, n)" by (cases "ie_http e u (fw_net w)")
  have n: "holds (w\<lparr>fw_net := n\<rparr>)" using assms(1) others_keep(1) by simp
  have "holds (snd (fetch_http e u w)) \<and> (fst (fetch_http e u w) = Inr f \<longrightarrow> good_image (ie_maxBytesPerURL e) f)"
  proof (cases a)
    case (Inr r)
    obtain b w1 where b: "accept_reply e u r (w\<lparr>fw_net := n\<rparr>) = (b, w1)" by (cases "accept_reply e u r (w\<lparr>fw_net := n\<rparr>)")
    have "holds w1" using accept_reply_world [of e u r "w\<lparr>fw_net := n\<rparr>"] n others_keep(2) b by auto
    show ?thesis
    proof (cases b)
      case (Inr dc)
      obtain d ct where dc: "dc = (d, ct)" by (cases dc)
      note acc = accept_reply_within [OF b [unfolded Inr dc]]
      then have "holds (snd (store_Put st (cacheKeyForURL e u) d ct u w1))" using put_holds \<open>holds w1\<close> assms(2) by simp
      then show ?thesis using g \<open>a = Inr r\<close> b Inr dc acc assms(3) by (auto simp: fetch_http_def good_image_result)
    qed (use g \<open>a = Inr r\<close> b \<open>holds w1\<close> in \<open>simp add: fetch_http_def\<close>)
  qed (use g n in \<open>simp add: fetch_http_def\<close>)
  then show "holds (snd (fetch_http e u w))" and "fst (fetch_http e u w) = Inr f \<Longrightarrow> good_image (ie_maxBytesPerURL e) f"
    by auto
qed

lemma fetch_once_good:
  assumes "holds w" "ok = within_limit (ie_maxBytesPerURL e)" "ie_store e = Some st"
  shows "holds (snd (fetchRemoteImageOnce e u w))"
    and "fst (fetchRemoteImageOnce e u w) = Inr f \<Longrightarrow> good_image (ie_maxBytesPerURL e) f"
proof -
  obtain a w1 where g: "store_Get st (cacheKeyForURL e u) w = (a, w1)" by (cases "store_Get st (cacheKeyForURL e u) w")
  have w1: "holds w1" using get_holds [OF assms(1), of "cacheKeyForURL e u"] g by simp
  have "ok d" if "a = Inr (Some (d, ct))" for d ct using get_ok [OF assms(1)] g that by (metis fst_conv)
  then have "holds (snd (fetchRemoteImageOnce e u w)) \<and> (fst (fetchRemoteImageOnce e u w) = Inr f \<longrightarrow> good_image (ie_maxBytesPerURL e) f)"
    using g w1 assms(2,3) fetch_http_good [OF w1 assms(2,3)]
    by (auto simp: fetchRemoteImageOnce_def good_image_result normalized_type split: sum.split option.split)
  then show "holds (snd (fetchRemoteImageOnce e u w))"
    and "fst (fetchRemoteImageOnce e u w) = Inr f \<Longrightarrow> good_image (ie_maxBytesPerURL e) f" by auto
qed

lemmas fetch_run_good = fetch_run_keeps [where H = holds]

end

section \<open>The stores keep the contract\<close>

definition file_holds :: "int \<Rightarrow> 'n fetch_world \<Rightarrow> bool" where
  "file_holds m w \<longleftrightarrow> store_inv (fw_files w) \<and> (\<forall>n. fault_free_names (fw_env w n)) \<and>
     (\<forall>k b d ct. store_view (fw_files w) k = Some (b, d, ct) \<longrightarrow> within_limit m d)"

definition index_holds :: "int \<Rightarrow> 'n fetch_world \<Rightarrow> bool" where
  "index_holds m w \<longleftrightarrow> ixs_MaxBytesPerURL (fw_index w) = m"

lemma file_holds_view: "file_holds m w \<Longrightarrow> store_view (fw_files w) k = Some (b, d, ct) \<Longrightarrow> within_limit m d"
  unfolding file_holds_def by blast

lemma file_store_Get:
  assumes "file_holds m w"
  shows "file_holds m (snd (store_Get file_image_store key w))"
    and "fst (store_Get file_image_store key w) = Inr (Some (d, ct)) \<Longrightarrow> within_limit m d"
proof -
  have "step_ok (fw_env w (fw_calls w), OpGet key) (fw_files w) (map_prod OutGet id (FileStore_Get (fw_env w (fw_calls w)) key (fw_files w)))"
    using assms Get_step_ok by (auto simp: file_holds_def)
  then have g: "store_inv (snd (FileStore_Get (fw_env w (fw_calls w)) key (fw_files w)))"
    "store_view (snd (FileStore_Get (fw_env w (fw_calls w)) key (fw_files w))) = store_view (fw_files w)"
    "fst (FileStore_Get (fw_env w (fw_calls w)) key (fw_files w)) = Inr v \<Longrightarrow> v = map_option snd (store_view (fw_files w) key)" for v
    by (auto simp: step_ok_def)
  show "file_holds m (snd (store_Get file_image_store key w))"
    using assms g(1,2) by (simp add: file_image_store_def next_env_def file_holds_def split_beta)
  assume "fst (store_Get file_image_store key w) = Inr (Some (d, ct))"
  then have "Some (d, ct) = map_option snd (store_view (fw_files w) key)"
    using g(3) by (simp add: file_image_store_def next_env_def split_beta)
  then obtain b where "store_view (fw_files w) key = Some (b, d, ct)" by (cases "store_view (fw_files w) key") auto
  then show "within_limit m d" by (rule file_holds_view [OF assms])
qed

lemma file_store_Put:
  assumes "file_holds m w" "within_limit m d"
  shows "file_holds m (snd (store_Put file_image_store key d ct u w))"
proof -
  let ?env = "fw_env w (fw_calls w)"
  have "step_ok (?env, OpPut key d ct) (fw_files w) (map_prod OutErr id (FileStore_Put ?env key d ct (fw_files w)))"
    using assms(1) Put_step_ok by (auto simp: file_holds_def)
  then have "store_inv (snd (FileStore_Put ?env key d ct (fw_files w)))"
    and "\<exists>b. store_view (snd (FileStore_Put ?env key d ct (fw_files w))) \<in> {store_view (fw_files w), (store_view (fw_files w))(key \<mapsto> (b, d, ct))}"
    by (cases "fst (FileStore_Put ?env key d ct (fw_files w))"; auto simp: step_ok_def)+
  then obtain b where s: "store_inv (snd (FileStore_Put ?env key d ct (fw_files w)))"
    "store_view (snd (FileStore_Put ?env key d ct (fw_files w))) \<in> {store_view (fw_files w), (store_view (fw_files w))(key \<mapsto> (b, d, ct))}"
    by auto
  have "within_limit m d'" if "store_view (snd (FileStore_Put ?env key d ct (fw_files w))) k = Some (b', d', ct')" for k b' d' ct'
    using s(2) that assms(2) file_holds_view [OF assms(1), of k b' d' ct'] by (auto split: if_splits)
  then show ?thesis using assms(1) s(1) by (simp add: file_image_store_def next_env_def file_holds_def split_beta)
qed

interpretation file_cache: image_cache file_image_store "within_limit m" "file_holds m" for m
  by unfold_locales (simp_all add: file_store_Get file_store_Put, simp_all add: file_holds_def)

lemma index_reply_within: "index_reply m r = Inr (Some (d, ct)) \<Longrightarrow> within_limit m d"
  by (auto simp: index_reply_def within_limit_def split: if_splits sum.splits)

lemma index_store_limit:
  "ixs_MaxBytesPerURL (fst (snd (IndexHTTPStore_Get get key (s, n)))) = ixs_MaxBytesPerURL s"
  "ixs_MaxBytesPerURL (snd (IndexHTTPStore_Put now key d ct u s)) = ixs_MaxBytesPerURL s"
  by (simp_all add: IndexHTTPStore_Get_def IndexHTTPStore_Put_def split: option.split sum.split prod.split)

lemma index_store_Get:
  assumes "fst (IndexHTTPStore_Get get key (s, n)) = Inr (Some (d, ct))"
  shows "within_limit (ixs_MaxBytesPerURL s) d"
proof -
  obtain r where "index_reply (ixs_MaxBytesPerURL s) r = Inr (Some (d, ct))"
    using assms by (auto simp: IndexHTTPStore_Get_def split: option.splits if_splits sum.splits prod.splits)
  then show ?thesis by (rule index_reply_within)
qed

interpretation index_cache: image_cache "index_image_store get" "within_limit m" "index_holds m" for get m
  by unfold_locales
    (auto simp: index_image_store_def index_holds_def next_env_def split_beta index_store_limit dest: index_store_Get)

section \<open>The limit per image\<close>

text \<open>The images that an engine as it is configured hands out.\<close>

lemma engine_images_good:
  fixes w0 :: "'n fetch_world"
  assumes new: "NewImageURLFetchEngine compile sha get cfg w0 = Inr (e, w)" and builtin: "ic_Cache cfg = None"
    and env: "\<And>n. fault_free_names (fw_env w0 n)"
    and run: "run_ops (fetchRemoteImage e) us w = (rs, w')" and image: "Inr f \<in> set rs"
  shows "good_image (ic_MaxBytesPerURL cfg) f"
proof -
  have e: "ie_maxBytesPerURL e = ic_MaxBytesPerURL cfg" "choose_store get cfg w0 = Inr (ie_store e, w)"
    using new by (auto simp: NewImageURLFetchEngine_def split: sum.splits)
  let ?m = "ic_MaxBytesPerURL cfg"
  consider (none) "ie_store e = None"
    | (indexed) "ie_store e = Some (index_image_store get)" "index_holds ?m w"
    | (on_disk) "ie_store e = Some file_image_store" "file_holds ?m w"
  proof (cases "ic_CacheMode cfg")
    case CacheModeFile
    then obtain fs where fs: "NewFileStore (TrimSpace (ic_CacheFileRoot cfg)) (fst_disk (fw_files w0)) = Inr fs"
      and s: "ie_store e = Some file_image_store" "w = w0\<lparr>fw_files := fs\<rparr>"
      using e(2) builtin by (auto simp: choose_store_def Let_def split: if_splits sum.splits)
    have "fst_ix fs = newMemoryIndex" using fs by (auto simp: NewFileStore_def split: if_splits)
    then have "file_holds ?m w" using env
      by (simp add: s file_holds_def store_inv_def store_view_def index_inv_new) (simp add: newMemoryIndex_def)
    then show ?thesis using that(3) s(1) by simp
  qed (use that e(2) builtin in \<open>auto simp: choose_store_def index_holds_def NewIndexHTTPStore_def\<close>)
  then show ?thesis
  proof cases
    case none
    have "good_image ?m g" if "fst (fetchRemoteImageOnce e u v) = Inr g" for u v g
      using that fetch_http_image [of e] none e(1) by (simp add: fetchRemoteImageOnce_def)
    with run image show ?thesis using fetch_run_keeps [of "\<lambda>v. True" e ?m w us rs w'] by blast
  next
    case indexed
    have "index_holds ?m (snd (fetchRemoteImageOnce e u v)) \<and> (\<forall>g. fst (fetchRemoteImageOnce e u v) = Inr g \<longrightarrow> good_image ?m g)"
      if "index_holds ?m v" for u v
      using index_cache.fetch_once_good [OF that _ indexed(1), of u] e(1) by auto
    from index_cache.fetch_run_good [OF this indexed(2) run] image show ?thesis by blast
  next
    case on_disk
    have "file_holds ?m (snd (fetchRemoteImageOnce e u v)) \<and> (\<forall>g. fst (fetchRemoteImageOnce e u v) = Inr g \<longrightarrow> good_image ?m g)"
      if "file_holds ?m v" for u v
      using file_cache.fetch_once_good [OF that _ on_disk(1), of u] e(1) by auto
    from file_cache.fetch_run_good [OF this on_disk(2) run] image show ?thesis by blast
  qed
qed

text \<open>C32: No image over the limit gets through. Whichever store the configuration selects and however
  the network and the disk behave, every image the engine hands out is, once its Base64 is decoded,
  within the configured size, its counted size is its real one, and its media type is an image type;
  this includes images that come from the cache after any number of earlier fetches.\<close>

theorem fetched_images_respect_limit:
  fixes w0 :: "'n fetch_world"
  assumes new: "NewImageURLFetchEngine compile sha get cfg w0 = Inr (e, w)" and builtin: "ic_Cache cfg = None"
    and env: "\<And>n. fault_free_names (fw_env w0 n)"
    and run: "run_ops (fetchRemoteImage e) us w = (rs, w')" and image: "Inr f \<in> set rs"
  shows "good_image (ic_MaxBytesPerURL cfg) f"
  using assms by (rule engine_images_good)

definition demo_get :: "unit http_get" where
  "demo_get u n = (Inr \<lparr>ir_status = 200, ir_length = 2, ir_header = [(''Content-Type'', [''image/png''])], ir_body = (''ab'', None)\<rparr>, n)"

definition demo_image_config :: "unit image_config" where
  "demo_image_config = \<lparr>ic_RetryCount = 1, ic_Timeout = 0, ic_MaxBytesPerURL = 2, ic_MaxBytesPerRequest = 3, ic_Notifier = True,
     ic_Cache = None, ic_CacheMode = CacheModeFile, ic_CacheFileRoot = ''c'', ic_CacheKeyRules = []\<rparr>"

definition image_world :: "unit fetch_world" where
  "image_world = \<lparr>fw_net = (), fw_files = empty_store, fw_index = NewIndexHTTPStore 0 0, fw_env = (\<lambda>n. calm_env (60 * int n)), fw_calls = 0, fw_events = []\<rparr>"

definition demo_engine :: "unit image_engine" where
  "demo_engine = \<lparr>ie_http = demo_get, ie_sha256 = id, ie_retryCount = 1, ie_timeout = 10 * second, ie_maxBytesPerURL = 2,
     ie_maxBytesPerRequest = 3, ie_notifier = True, ie_store = Some file_image_store, ie_cacheKeyRules = []\<rparr>"

lemma demo_image_engine: "NewImageURLFetchEngine (\<lambda>p. Inl (Plain '''')) id demo_get demo_image_config image_world = Inr (demo_engine, image_world)"
proof -
  have "TrimSpace ''c'' = ''c''" by (simp add: TrimSpace_def is_space_def)
  then show ?thesis
    by (simp add: NewImageURLFetchEngine_def choose_store_def demo_image_config_def image_world_def demo_engine_def empty_store_def NewFileStore_def)
qed

lemma demo_fetches:
  "fst (run_ops (fetchRemoteImage demo_engine) [''u'', ''u''] image_world) =
     [Inr \<lparr>fe_mediaType = ''image/png'', fe_rawBase64 = ''YWI='', fe_decodedBytes = 2, fe_fromCache = False\<rparr>,
      Inr \<lparr>fe_mediaType = ''image/png'', fe_rawBase64 = ''YWI='', fe_decodedBytes = 2, fe_fromCache = True\<rparr>]"
  by code_simp

theorem fetched_images_respect_limit_witness:
  "good_image 2 \<lparr>fe_mediaType = ''image/png'', fe_rawBase64 = ''YWI='', fe_decodedBytes = 2, fe_fromCache = True\<rparr>"
proof -
  obtain rs w' where run: "run_ops (fetchRemoteImage demo_engine) [''u'', ''u''] image_world = (rs, w')"
    by (cases "run_ops (fetchRemoteImage demo_engine) [''u'', ''u''] image_world")
  have env: "fault_free_names (fw_env image_world n)" for n by (simp add: image_world_def fault_free_names_def calm_env_def)
  have "ic_Cache demo_image_config = None" by (simp add: demo_image_config_def)
  from fetched_images_respect_limit [OF demo_image_engine this env run] show ?thesis
    using demo_fetches run by (simp add: demo_image_config_def)
qed

text \<open>One rejected image notifies as often as it is tried, not once per rejection.\<close>

lemma oversized_image_notified_per_attempt:
  assumes "\<And>n. ie_http e u n = (Inr r, n)" and "ir_status r = 200" and "0 < ie_maxBytesPerURL e" and "ie_maxBytesPerURL e < ir_length r"
    and "ie_store e = None" and "ie_notifier e" and "0 \<le> ie_retryCount e"
  shows "snd (fetchRemoteImage e u w) =
    w\<lparr>fw_events := fw_events w @ replicate (Suc (nat (ie_retryCount e))) (PerURL u (ie_maxBytesPerURL e) (ir_length r))\<rparr>"
proof -
  let ?ev = "PerURL u (ie_maxBytesPerURL e) (ir_length r)"
  have once: "fetchRemoteImageOnce e u v =
      (Inl (Wrap ''Content-Length exceeds limit'' [ErrImageDownload, Sentinel ''ErrPerImageSizeExceeded'']), v\<lparr>fw_events := fw_events v @ [?ev]\<rparr>)" for v
    using assms by (simp add: fetchRemoteImageOnce_def fetch_http_def accept_reply_def Let_def ParseContentLength_def notifyLimit_def)
  have "snd (fetch_attempts e u n er v) = v\<lparr>fw_events := fw_events v @ replicate n ?ev\<rparr>" for n er v
    by (induction n arbitrary: er v) (simp_all add: once)
  moreover have "nat (ie_retryCount e + 1) = Suc (nat (ie_retryCount e))" using assms(7) by simp
  ultimately show ?thesis using assms(7) by (simp add: fetchRemoteImage_def Let_def del: fetch_attempts.simps)
qed

end
