(* ===== verification/ImageInline.thy ===== *)
theory ImageInline
  imports ImageFetch ChatTypes ShardStore "HOL-Library.Sublist"
begin

text \<open>
  \<open>image_url_fetch.go\<close>, \<open>extract.go\<close> and \<open>replace_job.go\<close>: which images of a request are replaced, by what and
  where, and \<open>Process\<close>. The editor of JSON texts (\<open>jsonparser.Set\<close>) is a parameter. The theorem says that a
  request is either refused with an image error or handed on with every remote image inlined.
\<close>

section \<open>Jobs\<close>

text \<open>One image to replace: an OpenAI part by message, field, position, URL and whether the URL was in an
  object; a Claude source by message and the positions in nested contents.\<close>

datatype image_job = OpenAIJob nat string nat string bool | ClaudeJob nat "nat list" string

definition path_index :: "nat \<Rightarrow> string" where
  "path_index n = ''['' @ dec_nat n @ '']''"

fun job_path :: "image_job \<Rightarrow> string list" where
  "job_path (OpenAIJob m field k u obj) =
     [''messages'', path_index m, field, path_index k] @ (if obj then [''image_url'', ''url''] else [''image_url''])"
| "job_path (ClaudeJob m ks u) = [''messages'', path_index m] @ concat (map (\<lambda>k. [''content'', path_index k]) ks) @ [''source'']"

fun remoteURL :: "image_job \<Rightarrow> string" where
  "remoteURL (OpenAIJob m field k u obj) = TrimSpace u"
| "remoteURL (ClaudeJob m ks u) = TrimSpace u"

fun json_fields :: "(string \<times> string) list \<Rightarrow> string" where
  "json_fields [] = ''''"
| "json_fields [(k, v)] = json_field k (json_string v)"
| "json_fields ((k, v) # fs) = json_field k (json_string v) @ '','' @ json_fields fs"

definition json_object :: "(string \<times> string) list \<Rightarrow> string" where
  "json_object fs = ''{'' @ json_fields fs @ ''}''"

text \<open>The new value; the keys of an object come in order.\<close>

fun inlineReplacement :: "image_job \<Rightarrow> string \<Rightarrow> string \<Rightarrow> string" where
  "inlineReplacement (OpenAIJob m field k u obj) mediaType rawBase64 =
     (let dataURL = ''data:'' @ mediaType @ '';base64,'' @ rawBase64
      in if obj then json_string dataURL else json_object [(''url'', dataURL)])"
| "inlineReplacement (ClaudeJob m ks u) mediaType rawBase64 =
     json_object [(''data'', rawBase64), (''media_type'', mediaType), (''type'', ''base64'')]"

text \<open>An image that is inline already is put into object form.\<close>

fun normalizeExistingURL :: "image_job \<Rightarrow> string option" where
  "normalizeExistingURL (OpenAIJob m field k u obj) =
     (if obj \<or> TrimSpace u = '''' then None else Some (json_object [(''url'', TrimSpace u)]))"
| "normalizeExistingURL (ClaudeJob m ks u) = None"

definition isDataURL :: "string \<Rightarrow> bool" where
  "isDataURL u \<longleftrightarrow> take 5 (map to_lower u) = ''data:''"

section \<open>Finding the images\<close>

definition openai_item_job :: "nat \<Rightarrow> string \<Rightarrow> nat \<times> oa_item option \<Rightarrow> image_job list" where
  "openai_item_job m field x =
     (case x of
        (i, Some it) \<Rightarrow>
          (case it_ImageURL it of
             None \<Rightarrow> []
           | Some iu \<Rightarrow>
               if it_Type it \<noteq> '''' \<and> it_Type it \<noteq> ''image_url'' then []
               else if GetImageUrl iu = '''' then []
               else [OpenAIJob m field i (GetImageUrl iu) (case iu of ImageURLObject a b \<Rightarrow> True | ImageURLString a \<Rightarrow> False)])
      | (i, None) \<Rightarrow> [])"

definition collectFromOpenAIMessageContent :: "nat \<Rightarrow> string \<Rightarrow> oa_content option \<Rightarrow> image_job list" where
  "collectFromOpenAIMessageContent m field c =
     (case c of Some (OaArray arr) \<Rightarrow> concat (map (openai_item_job m field) (List.enumerate 0 arr)) | _ \<Rightarrow> [])"

definition collectOpenAIImageReplaceJobs :: "oa_message option list \<Rightarrow> image_job list" where
  "collectOpenAIImageReplaceJobs msgs =
     concat (map (\<lambda>(m, msg). case msg of
         None \<Rightarrow> []
       | Some x \<Rightarrow> collectFromOpenAIMessageContent m ''content'' (m_Content x)
            @ collectFromOpenAIMessageContent m ''reasoning_content'' (m_ReasoningContent x)) (List.enumerate 0 msgs))"

definition source_job :: "nat \<Rightarrow> nat list \<Rightarrow> claude_source \<Rightarrow> image_job list" where
  "source_job m ks src =
     (case src of Source ty mt d cs url \<Rightarrow>
        if map to_lower (TrimSpace ty) = ''url''
        then (let u = TrimSpace url in if u \<noteq> '''' \<and> \<not> isDataURL u then [ClaudeJob m ks u] else [])
        else [])"

fun collectFromClaudeContentSlice :: "nat \<Rightarrow> nat list \<Rightarrow> nat \<Rightarrow> claude_block option list \<Rightarrow> image_job list"
and claude_block_jobs :: "nat \<Rightarrow> nat list \<Rightarrow> claude_block \<Rightarrow> image_job list"
and claude_nested_jobs :: "nat \<Rightarrow> nat list \<Rightarrow> claude_content \<Rightarrow> image_job list" where
  "collectFromClaudeContentSlice m pre i [] = []"
| "collectFromClaudeContentSlice m pre i (b # bs) =
     (case b of None \<Rightarrow> [] | Some x \<Rightarrow> claude_block_jobs m (pre @ [i]) x) @ collectFromClaudeContentSlice m pre (Suc i) bs"
| "claude_block_jobs m ks (ImageBlock src) = (case src of None \<Rightarrow> [] | Some s \<Rightarrow> source_job m ks s)"
| "claude_block_jobs m ks (ToolResultBlock tid c) = (case c of None \<Rightarrow> [] | Some x \<Rightarrow> claude_nested_jobs m ks x)"
| "claude_block_jobs m ks b = []"
| "claude_nested_jobs m ks (ContentBlocks bs) = collectFromClaudeContentSlice m ks 0 bs"
| "claude_nested_jobs m ks (ContentString s) = []"

definition collectClaudeImageReplaceJobs :: "claude_message option list \<Rightarrow> image_job list" where
  "collectClaudeImageReplaceJobs msgs =
     concat (map (\<lambda>(m, msg). case msg of
         Some x \<Rightarrow> (case cm_Content x of Some (ContentBlocks arr) \<Rightarrow> collectFromClaudeContentSlice m [] 0 arr | _ \<Rightarrow> [])
       | None \<Rightarrow> []) (List.enumerate 0 msgs))"

text \<open>The parsed body, as far as it is read here.\<close>

datatype image_request = ChatMessages "oa_message option list" | ClaudeMessages "claude_message option list" | OtherRequest

fun extractImageReplaceJobs :: "image_request \<Rightarrow> image_job list" where
  "extractImageReplaceJobs (ChatMessages msgs) = collectOpenAIImageReplaceJobs msgs"
| "extractImageReplaceJobs (ClaudeMessages msgs) = collectClaudeImageReplaceJobs msgs"
| "extractImageReplaceJobs OtherRequest = []"

section \<open>No two jobs write to the same place\<close>

definition apart :: "string list \<Rightarrow> string list \<Rightarrow> bool" where
  "apart p q \<longleftrightarrow> \<not> prefix p q \<and> \<not> prefix q p"

text \<open>What tells the jobs of a request apart.\<close>

fun job_key :: "image_job \<Rightarrow> nat \<times> string \<times> nat list" where
  "job_key (OpenAIJob m field k u obj) = (m, field, [k])"
| "job_key (ClaudeJob m ks u) = (m, '''', ks)"

fun is_claude :: "image_job \<Rightarrow> bool" where
  "is_claude (OpenAIJob m field k u obj) = False"
| "is_claude (ClaudeJob m ks u) = True"

lemma path_index_inject [simp]: "path_index m = path_index n \<longleftrightarrow> m = n"
  by (simp add: path_index_def dec_nat_inject)

lemma prefix_same_length: "prefix (a @ s) (b @ t) \<Longrightarrow> length a = length b \<Longrightarrow> a = b"
  by (auto simp: prefix_def)

lemma nested_prefix:
  "prefix (concat (map (\<lambda>k. [''content'', path_index k]) ks) @ [''source'']) (concat (map (\<lambda>k. [''content'', path_index k]) ls) @ [''source''])
    \<Longrightarrow> ks = ls"
proof (induction ks arbitrary: ls)
  case Nil
  then show ?case by (cases ls) auto
next
  case (Cons k ks)
  then show ?case by (cases ls) auto
qed

lemma jobs_apart:
  assumes "job_key a \<noteq> job_key b" "is_claude a = is_claude b"
  shows "apart (job_path a) (job_path b)"
proof (cases a)
  case (OpenAIJob m f k u obj)
  then obtain m' f' k' u' obj' where b: "b = OpenAIJob m' f' k' u' obj'" using assms(2) by (cases b) auto
  have "\<not> prefix (job_path (OpenAIJob m f k u obj)) (job_path (OpenAIJob m' f' k' u' obj'))"
    if "(m, f, k) \<noteq> (m', f', k')" for m f k u obj m' f' k' u' obj'
    using that prefix_same_length [of "[''messages'', path_index m, f, path_index k]" _ "[''messages'', path_index m', f', path_index k']"]
    by auto
  then show ?thesis using assms(1) OpenAIJob b by (simp add: apart_def del: job_path.simps) (metis prod.inject)
next
  case (ClaudeJob m ks u)
  then obtain m' ks' u' where b: "b = ClaudeJob m' ks' u'" using assms(2) by (cases b) auto
  then show ?thesis using assms(1) ClaudeJob nested_prefix by (auto simp: apart_def)
qed

lemma distinct_map_append:
  "distinct (map f (xs @ ys)) \<longleftrightarrow>
     distinct (map f xs) \<and> distinct (map f ys) \<and> (\<forall>x\<in>set xs. \<forall>y\<in>set ys. f x \<noteq> f y)"
  by auto

lemma distinct_tagged:
  assumes "\<And>i x k. k \<in> set (g (i, x)) \<Longrightarrow> tag k = i" "\<And>i x. distinct (map key (g (i, x)))"
    and "\<And>k l. key k = key l \<Longrightarrow> tag k = tag l"
  shows "distinct (map key (concat (map g (List.enumerate n xs))))"
proof (induction xs arbitrary: n)
  case (Cons x xs)
  have "key k \<noteq> key l" if k: "k \<in> set (g (n, x))" and l: "l \<in> set (concat (map g (List.enumerate (Suc n) xs)))" for k l
  proof -
    obtain i y where "(i, y) \<in> set (List.enumerate (Suc n) xs)" "l \<in> set (g (i, y))" using l by auto
    then have "tag l = i" "n < i" using assms(1) by (auto simp: in_set_enumerate_eq)
    then show ?thesis using assms(1) [OF k] assms(3) [of k l] by auto
  qed
  then show ?case using Cons.IH assms(2) by (simp add: distinct_map_append del: map_append map_concat)
qed simp

lemma openai_message_keys:
  "distinct (map job_key (collectFromOpenAIMessageContent m f c))"
  "\<forall>j\<in>set (collectFromOpenAIMessageContent m f c). fst (job_key j) = m \<and> fst (snd (job_key j)) = f \<and> \<not> is_claude j"
proof -
  have item: "\<forall>j\<in>set (openai_item_job m f (i, x)). \<exists>u obj. j = OpenAIJob m f i u obj" "distinct (map job_key (openai_item_job m f (i, x)))" for i x
    by (auto simp: openai_item_job_def split: option.split)
  have "distinct (map job_key (concat (map (openai_item_job m f) (List.enumerate 0 arr))))" for arr
  proof (rule distinct_tagged [where tag = "\<lambda>j. hd (snd (snd (job_key j)))"])
    fix i x k assume "k \<in> set (openai_item_job m f (i, x))"
    then obtain u obj where "k = OpenAIJob m f i u obj" using item(1) by blast
    then show "hd (snd (snd (job_key k))) = i" by simp
  qed (use item(2) in simp_all)
  then show "distinct (map job_key (collectFromOpenAIMessageContent m f c))"
    by (simp add: collectFromOpenAIMessageContent_def split: option.split oa_content.split)
  show "\<forall>j\<in>set (collectFromOpenAIMessageContent m f c). fst (job_key j) = m \<and> fst (snd (job_key j)) = f \<and> \<not> is_claude j"
    using item(1) by (fastforce simp: collectFromOpenAIMessageContent_def split: option.split oa_content.split)
qed

lemma openai_keys:
  "distinct (map job_key (collectOpenAIImageReplaceJobs msgs))" "\<forall>j\<in>set (collectOpenAIImageReplaceJobs msgs). \<not> is_claude j"
proof -
  show "distinct (map job_key (collectOpenAIImageReplaceJobs msgs))"
    unfolding collectOpenAIImageReplaceJobs_def
  proof (rule distinct_tagged [where tag = "\<lambda>j. fst (job_key j)"], goal_cases)
    case (1 i x k)
    then show ?case using openai_message_keys(2) by (cases x) auto
  next
    case (2 i x)
    have "job_key j \<noteq> job_key l" if "j \<in> set (collectFromOpenAIMessageContent i ''content'' c)"
      "l \<in> set (collectFromOpenAIMessageContent i ''reasoning_content'' d)" for c d j l
    proof
      assume "job_key j = job_key l"
      then have "fst (snd (job_key j)) = fst (snd (job_key l))" by simp
      also have "fst (snd (job_key l)) = ''reasoning_content''" using bspec [OF openai_message_keys(2) that(2)] by blast
      finally have "fst (snd (job_key j)) = ''reasoning_content''" .
      moreover have "fst (snd (job_key j)) = ''content''" using bspec [OF openai_message_keys(2) that(1)] by blast
      ultimately show False by simp
    qed
    then show ?case by (cases x) (simp_all add: distinct_map_append openai_message_keys(1) del: map_append)
  qed simp
  show "\<forall>j\<in>set (collectOpenAIImageReplaceJobs msgs). \<not> is_claude j"
    using openai_message_keys(2) by (auto simp: collectOpenAIImageReplaceJobs_def split: option.splits)
qed

text \<open>A nested image lies below the position of its block.\<close>

lemma claude_slice_keys:
  "distinct (map job_key (collectFromClaudeContentSlice m pre i bs)) \<and>
     (\<forall>j\<in>set (collectFromClaudeContentSlice m pre i bs). is_claude j \<and> (\<exists>k ks. i \<le> k \<and> job_key j = (m, '''', pre @ k # ks)))"
  "distinct (map job_key (claude_block_jobs m ks b)) \<and>
     (\<forall>j\<in>set (claude_block_jobs m ks b). is_claude j \<and> (\<exists>ls. job_key j = (m, '''', ks @ ls)))"
  "distinct (map job_key (claude_nested_jobs m ks c)) \<and>
     (\<forall>j\<in>set (claude_nested_jobs m ks c). is_claude j \<and> (\<exists>ls. job_key j = (m, '''', ks @ ls)))"
proof (induction m pre i bs and m ks b and m ks c
    rule: collectFromClaudeContentSlice_claude_block_jobs_claude_nested_jobs.induct)
  case (2 m pre i b bs)
  let ?here = "case b of None \<Rightarrow> [] | Some x \<Rightarrow> claude_block_jobs m (pre @ [i]) x"
  have here: "distinct (map job_key ?here)" "\<And>j. j \<in> set ?here \<Longrightarrow> is_claude j \<and> (\<exists>ls. job_key j = (m, '''', pre @ i # ls))"
    using "2.IH"(1) by (cases b; fastforce)+
  have rest: "distinct (map job_key (collectFromClaudeContentSlice m pre (Suc i) bs))"
    "\<And>j. j \<in> set (collectFromClaudeContentSlice m pre (Suc i) bs) \<Longrightarrow> is_claude j \<and> (\<exists>k ks. Suc i \<le> k \<and> job_key j = (m, '''', pre @ k # ks))"
    using "2.IH"(2) by blast+
  have "job_key j \<noteq> job_key l" if "j \<in> set ?here" "l \<in> set (collectFromClaudeContentSlice m pre (Suc i) bs)" for j l
    using here(2) [OF that(1)] rest(2) [OF that(2)] by auto
  then have "distinct (map job_key (?here @ collectFromClaudeContentSlice m pre (Suc i) bs))"
    unfolding distinct_map_append using here(1) rest(1) by blast
  moreover have "is_claude j \<and> (\<exists>k ks. i \<le> k \<and> job_key j = (m, '''', pre @ k # ks))"
    if "j \<in> set (?here @ collectFromClaudeContentSlice m pre (Suc i) bs)" for j
    using that here(2) [of j] rest(2) [of j] by (auto intro: Suc_leD)
  ultimately show ?case by simp
qed (auto simp: source_job_def Let_def split: option.splits claude_source.splits)

lemma claude_keys:
  "distinct (map job_key (collectClaudeImageReplaceJobs msgs))" "\<forall>j\<in>set (collectClaudeImageReplaceJobs msgs). is_claude j"
proof -
  show "distinct (map job_key (collectClaudeImageReplaceJobs msgs))"
    unfolding collectClaudeImageReplaceJobs_def
  proof (rule distinct_tagged [where tag = "\<lambda>j. fst (job_key j)"], goal_cases)
    case (1 i x k)
    then obtain arr where "k \<in> set (collectFromClaudeContentSlice i [] 0 arr)"
      by (auto split: option.splits claude_content.splits)
    then show ?case using claude_slice_keys(1) [of i "[]" 0 arr] by auto
  next
    case (2 i x)
    show ?case using claude_slice_keys(1) [of i "[]" 0] by (simp split: option.split claude_content.split)
  qed simp
  show "\<forall>j\<in>set (collectClaudeImageReplaceJobs msgs). is_claude j"
    using claude_slice_keys(1) by (auto simp: collectClaudeImageReplaceJobs_def split: option.splits claude_content.splits)
qed

lemma request_jobs_apart:
  assumes "a \<in> set (extractImageReplaceJobs r)" "b \<in> set (extractImageReplaceJobs r)" "job_key a \<noteq> job_key b"
  shows "apart (job_path a) (job_path b)"
  using assms openai_keys(2) claude_keys(2) by (cases r) (auto intro: jobs_apart)

lemma request_keys_distinct: "distinct (map job_key (extractImageReplaceJobs r))"
  by (cases r) (simp_all add: openai_keys claude_keys)

section \<open>Process\<close>

text \<open>The editor puts a value at a path of a JSON text, or fails.\<close>

type_synonym json_setter = "string \<Rightarrow> string \<Rightarrow> string list \<Rightarrow> err + string"

definition image_internal :: "string \<Rightarrow> err \<Rightarrow> err" where
  "image_internal s er = Wrap s [ErrImageInternal, er]"

text \<open>The first loop: images that are inline already are put into object form.\<close>

fun normalize_jobs :: "json_setter \<Rightarrow> image_job list \<Rightarrow> string \<Rightarrow> bool \<Rightarrow> err + string \<times> bool" where
  "normalize_jobs js [] out modified = Inr (out, modified)"
| "normalize_jobs js (j # jobs) out modified =
     (if remoteURL j \<noteq> '''' \<and> isDataURL (remoteURL j)
      then (case normalizeExistingURL j of
              None \<Rightarrow> normalize_jobs js jobs out modified
            | Some v \<Rightarrow>
                (case js out v (job_path j) of
                   Inl er \<Rightarrow> Inl (image_internal ''json normalize'' er)
                 | Inr out' \<Rightarrow> normalize_jobs js jobs out' True))
      else normalize_jobs js jobs out modified)"

definition is_remote :: "image_job \<Rightarrow> bool" where
  "is_remote j \<longleftrightarrow> remoteURL j \<noteq> '''' \<and> \<not> isDataURL (remoteURL j)"

text \<open>The last loop: the remote images.\<close>

fun inline_jobs :: "json_setter \<Rightarrow> (string \<Rightarrow> fetched) \<Rightarrow> image_job list \<Rightarrow> string \<Rightarrow> err + string" where
  "inline_jobs js F [] out = Inr out"
| "inline_jobs js F (j # jobs) out =
     (let fr = F (remoteURL j)
      in if \<not> is_remote j \<or> fe_mediaType fr = '''' \<and> fe_rawBase64 fr = '''' then inline_jobs js F jobs out
         else case js out (inlineReplacement j (fe_mediaType fr) (fe_rawBase64 fr)) (job_path j) of
                Inl er \<Rightarrow> Inl (image_internal ''json replace'' er)
              | Inr out' \<Rightarrow> inline_jobs js F jobs out')"

definition fetch_error :: "err option + fetched \<Rightarrow> err option" where
  "fetch_error r = (case r of Inl er \<Rightarrow> er | Inr f \<Rightarrow> None)"

definition fetch_value :: "err option + fetched \<Rightarrow> fetched" where
  "fetch_value r = (case r of Inl er \<Rightarrow> \<lparr>fe_mediaType = '''', fe_rawBase64 = '''', fe_decodedBytes = 0, fe_fromCache = False\<rparr> | Inr f \<Rightarrow> f)"

text \<open>The URLs are fetched by one goroutine each, in an order the scheduler chooses; here one fetch ends
  before the next begins. The loop over the results meets them in an order of its own.\<close>

record schedule =
  sched_fetch :: "string list \<Rightarrow> string list"
  sched_loop :: "string list \<Rightarrow> string list"

definition fair_schedule :: "schedule \<Rightarrow> bool" where
  "fair_schedule sc \<longleftrightarrow> (\<forall>us. distinct us \<longrightarrow>
     set (sched_fetch sc us) = set us \<and> distinct (sched_fetch sc us) \<and> set (sched_loop sc us) = set us)"

type_synonym ('v, 'n, 'r) image_next = "'v body option \<times> 'n fetch_world \<Rightarrow> 'r go_result outcome \<times> 'v body option \<times> 'n fetch_world"

definition refuse :: "err \<Rightarrow> 'v body option \<times> 'n fetch_world \<Rightarrow> 'r go_result outcome \<times> 'v body option \<times> 'n fetch_world" where
  "refuse er s = (Returned (None, Some er), s)"

definition drop_response :: "'r go_result outcome \<times> 's \<Rightarrow> 'r go_result outcome \<times> 's" where
  "drop_response rs = (case rs of (Returned (x, Some er), s) \<Rightarrow> (Returned (None, Some er), s) | _ \<Rightarrow> rs)"

text \<open>After all URLs have been fetched.\<close>

definition inline_images ::
  "json_setter \<Rightarrow> 'n image_engine \<Rightarrow> schedule \<Rightarrow> ('v, 'n, 'r) image_next \<Rightarrow> image_job list \<Rightarrow> string list
    \<Rightarrow> (string \<Rightarrow> err option + fetched) \<Rightarrow> string \<Rightarrow> 'v body \<Rightarrow> 'n fetch_world \<Rightarrow> 'r go_result outcome \<times> 'v body option \<times> 'n fetch_world" where
  "inline_images js e sc nxt jobs unique result out b w =
     (case find (\<lambda>u. fetch_error (result u) \<noteq> None) (sched_loop sc unique) of
        Some u \<Rightarrow> refuse (Wrap ''fetch image'' [the (fetch_error (result u))]) (Some b, w)
      | None \<Rightarrow>
          let F = (\<lambda>u. fetch_value (result u)); total = sum_list (map (\<lambda>u. fe_decodedBytes (F u)) unique); m = ie_maxBytesPerRequest e
          in if 0 < m \<and> m < total
             then refuse (Wrap ''total image bytes exceeds limit'' [ErrImageDownload, Sentinel ''ErrTotalImageSizeExceeded''])
                    (Some b, notifyLimit e (PerRequest m total) w)
             else case inline_jobs js F jobs out of
                    Inl er \<Rightarrow> refuse er (Some b, w)
                  | Inr out' \<Rightarrow> drop_response (nxt (Some (SetBytes (Some out') b), w)))"

definition image_process ::
  "json_setter \<Rightarrow> ('v \<Rightarrow> image_request) \<Rightarrow> 'n image_engine \<Rightarrow> schedule \<Rightarrow> ('v, 'n, 'r) image_next
    \<Rightarrow> 'v body option \<times> 'n fetch_world \<Rightarrow> 'r go_result outcome \<times> 'v body option \<times> 'n fetch_world" where
  "image_process js view e sc nxt s =
     (case fst s of
        None \<Rightarrow> nxt s
      | Some b \<Rightarrow>
          (case Parsed b of
             (Panicked, b1) \<Rightarrow> (Panicked, Some b1, snd s)
           | (Returned (v, Some er), b1) \<Rightarrow> refuse (Wrap ''parse body'' [ErrImageRequestBody, er]) (Some b1, snd s)
           | (Returned (v, None), b1) \<Rightarrow>
               let jobs = (case v of None \<Rightarrow> [] | Some x \<Rightarrow> extractImageReplaceJobs (view x))
               in if jobs = [] then nxt (Some b1, snd s)
                  else case Bytes b1 of
                         (Panicked, b2) \<Rightarrow> (Panicked, Some b2, snd s)
                       | (Returned (Inl er), b2) \<Rightarrow> refuse (Wrap ''get request body bytes'' [ErrImageRequestBody, er]) (Some b2, snd s)
                       | (Returned (Inr text), b2) \<Rightarrow>
                           (case normalize_jobs js jobs text False of
                              Inl er \<Rightarrow> refuse er (Some b2, snd s)
                            | Inr (out, modified) \<Rightarrow>
                                let unique = firsts [] (map remoteURL (filter is_remote jobs))
                                in if unique = [] then nxt (Some (if modified then SetBytes (Some out) b2 else b2), snd s)
                                   else let (rs, w) = run_ops (fetchRemoteImage e) (sched_fetch sc unique) (snd s);
                                            result = (\<lambda>u. case map_of (zip (sched_fetch sc unique) rs) u of Some r \<Rightarrow> r | None \<Rightarrow> Inl None)
                                        in inline_images js e sc nxt jobs unique result out b2 w)))"

section \<open>Refused or inlined\<close>

text \<open>What the editor promises: the value is found where it was put, and nothing changes at paths that
  neither lead there nor go on from there.\<close>

definition setter_ok :: "json_setter \<Rightarrow> (string \<Rightarrow> string list \<Rightarrow> string option) \<Rightarrow> bool" where
  "setter_ok js get \<longleftrightarrow>
     (\<forall>s v p s'. js s v p = Inr s' \<longrightarrow> get s' p = Some v \<and> (\<forall>q. apart p q \<longrightarrow> get s' q = get s q))"

text \<open>What a job's place holds when the request goes on; a job without URL leaves it alone.\<close>

definition expected :: "(string \<Rightarrow> fetched) \<Rightarrow> image_job \<Rightarrow> string option" where
  "expected F j =
     (if remoteURL j = '''' then None
      else if isDataURL (remoteURL j) then normalizeExistingURL j
      else Some (inlineReplacement j (fe_mediaType (F (remoteURL j))) (fe_rawBase64 (F (remoteURL j)))))"

lemma apart_sym: "apart p q \<longleftrightarrow> apart q p"
  by (auto simp: apart_def)

lemma jobs_pairwise_apart: "sorted_wrt (\<lambda>a b. apart (job_path a) (job_path b)) (extractImageReplaceJobs r)"
proof -
  have "sorted_wrt (\<lambda>a b. apart (job_path a) (job_path b)) jobs"
    if "set jobs \<subseteq> set (extractImageReplaceJobs r)" "distinct (map job_key jobs)" for jobs
    using that
  proof (induction jobs)
    case (Cons j jobs)
    then have "apart (job_path j) (job_path k)" if "k \<in> set jobs" for k
      using that by (intro request_jobs_apart) (auto simp: image_iff)
    with Cons show ?case by simp
  qed simp
  then show ?thesis using request_keys_distinct by blast
qed

lemma normalize_jobs_writes:
  assumes js: "setter_ok js get" and "sorted_wrt (\<lambda>a b. apart (job_path a) (job_path b)) jobs"
    and "normalize_jobs js jobs out m = Inr (out', m')"
  shows "(\<forall>j\<in>set jobs. \<forall>v. isDataURL (remoteURL j) \<and> expected F j = Some v \<longrightarrow> get out' (job_path j) = Some v)
    \<and> (\<forall>q. (\<forall>j\<in>set jobs. apart (job_path j) q) \<longrightarrow> get out' q = get out q) \<and> (m' \<or> out' = out \<and> \<not> m)"
  using assms(2,3)
proof (induction jobs arbitrary: out m)
  case (Cons j jobs)
  show ?case
  proof (cases "remoteURL j \<noteq> '''' \<and> isDataURL (remoteURL j) \<and> normalizeExistingURL j \<noteq> None")
    case False
    then have "normalize_jobs js jobs out m = Inr (out', m')" using Cons.prems(2) by (auto split: if_splits)
    from Cons.IH [OF _ this] Cons.prems(1) False show ?thesis by (auto simp: expected_def)
  next
    case True
    then obtain v o1 where v: "normalizeExistingURL j = Some v" "js out v (job_path j) = Inr o1"
      "normalize_jobs js jobs o1 True = Inr (out', m')"
      using Cons.prems(2) by (auto split: sum.splits)
    note ih = Cons.IH [OF _ v(3)]
    have set: "get o1 (job_path j) = Some v" "\<And>q. apart (job_path j) q \<Longrightarrow> get o1 q = get out q"
      using js v(2) by (auto simp: setter_ok_def)
    have "get out' (job_path j) = Some v" using ih Cons.prems(1) set(1) apart_sym by simp
    then show ?thesis using ih Cons.prems(1) set(2) v(1) True by (auto simp: expected_def)
  qed
qed simp

lemma inline_jobs_writes:
  assumes js: "setter_ok js get" and "sorted_wrt (\<lambda>a b. apart (job_path a) (job_path b)) jobs"
    and "\<And>j. j \<in> set jobs \<Longrightarrow> is_remote j \<Longrightarrow> fe_mediaType (F (remoteURL j)) \<noteq> ''''"
    and "inline_jobs js F jobs out = Inr out'"
  shows "(\<forall>j\<in>set jobs. is_remote j \<longrightarrow> get out' (job_path j) = expected F j)
    \<and> (\<forall>q. (\<forall>j\<in>set jobs. is_remote j \<longrightarrow> apart (job_path j) q) \<longrightarrow> get out' q = get out q)"
  using assms(2-4)
proof (induction jobs arbitrary: out)
  case (Cons j jobs)
  show ?case
  proof (cases "is_remote j")
    case False
    with Cons.prems show ?thesis using Cons.IH [of out] by simp
  next
    case True
    let ?v = "inlineReplacement j (fe_mediaType (F (remoteURL j))) (fe_rawBase64 (F (remoteURL j)))"
    obtain o1 where o1: "js out ?v (job_path j) = Inr o1" "inline_jobs js F jobs o1 = Inr out'"
      using Cons.prems(2,3) True by (auto simp: Let_def split: sum.splits)
    note ih = Cons.IH [OF _ _ o1(2)]
    have set: "get o1 (job_path j) = Some ?v" "\<And>q. apart (job_path j) q \<Longrightarrow> get o1 q = get out q"
      using js o1(1) by (auto simp: setter_ok_def)
    have "get out' (job_path j) = Some ?v" using ih Cons.prems(1,2) set(1) apart_sym by simp
    then show ?thesis using ih Cons.prems(1,2) set(2) True by (auto simp: expected_def is_remote_def)
  qed
qed simp

lemma fetch_once_error: "fst (fetchRemoteImageOnce e u w) = Inl er \<Longrightarrow> errors_is er ''ErrImageURLFetch''"
  by (auto simp: fetchRemoteImageOnce_def fetch_http_def accept_reply_def Let_def split: option.splits sum.splits prod.splits if_splits)

lemma fetch_attempts_error:
  "fst (fetch_attempts e u n er w) = Inl x \<Longrightarrow> (n = 0 \<and> x = er) \<or> (\<exists>y. x = Some y \<and> errors_is y ''ErrImageURLFetch'')"
proof (induction n arbitrary: er w)
  case (Suc n)
  then show ?case using fetch_once_error [of e u w]
    by (cases "fetchRemoteImageOnce e u w"; cases "fst (fetchRemoteImageOnce e u w)") fastforce+
qed simp

lemma fetch_error_kind:
  assumes "fst (fetchRemoteImage e u w) = Inl x"
  shows "\<exists>y. x = Some y \<and> errors_is y ''ErrImageURLFetch''"
proof -
  define n where "n = nat (if ie_retryCount e + 1 < 1 then 1 else ie_retryCount e + 1)"
  have "fst (fetch_attempts e u n None w) = Inl x" using assms by (simp only: fetchRemoteImage_def Let_def n_def)
  moreover have "n \<noteq> 0" by (simp add: n_def)
  ultimately show ?thesis using fetch_attempts_error [of e u n None w x] by blast
qed

lemma normalize_jobs_error: "normalize_jobs js jobs out m = Inl er \<Longrightarrow> errors_is er ''ErrImageURLFetch''"
  by (induction jobs arbitrary: out m) (auto simp: image_internal_def split: if_splits option.splits sum.splits)

lemma inline_jobs_error: "inline_jobs js F jobs out = Inl er \<Longrightarrow> errors_is er ''ErrImageURLFetch''"
  by (induction jobs arbitrary: out) (auto simp: image_internal_def Let_def split: if_splits sum.splits)

text \<open>The results of the fetches, looked up by URL.\<close>

lemma fetched_results:
  assumes run: "run_ops (fetchRemoteImage e) us w = (rs, w')" and u: "u \<in> set us"
    and good: "\<And>f. Inr f \<in> set rs \<Longrightarrow> good_image m f"
  defines "result \<equiv> (case map_of (zip us rs) u of Some r \<Rightarrow> r | None \<Rightarrow> Inl None)"
  shows "fetch_error result = Some er \<Longrightarrow> errors_is er ''ErrImageURLFetch''"
    and "fetch_error result = None \<Longrightarrow> good_image m (fetch_value result)"
proof -
  let ?P = "\<lambda>r. \<forall>x. r = Inl x \<longrightarrow> (\<exists>y. x = Some y \<and> errors_is y ''ErrImageURLFetch'')"
  have kind: "?P (fst (fetchRemoteImage e v s))" for v s using fetch_error_kind by blast
  have out: "length rs = length us" "list_all ?P rs"
    using run_ops_outputs [of ?P "fetchRemoteImage e" us w, OF kind] run by simp_all
  then obtain r where r: "map_of (zip us rs) u = Some r"
    using u by (metis map_of_zip_is_Some)
  then have "r \<in> set rs" by (metis map_of_SomeD set_zip_rightD)
  then have "?P r" "\<And>f. r = Inr f \<Longrightarrow> good_image m f" using out(2) good by (auto simp: list_all_iff)
  then show "fetch_error result = Some er \<Longrightarrow> errors_is er ''ErrImageURLFetch''"
    and "fetch_error result = None \<Longrightarrow> good_image m (fetch_value result)"
    using r by (cases r; fastforce simp: result_def fetch_error_def fetch_value_def)+
qed

definition image_refused :: "'v body \<Rightarrow> 'r go_result outcome \<times> 'v body option \<times> 'n fetch_world \<Rightarrow> bool" where
  "image_refused b r \<longleftrightarrow> (\<exists>er w. r = (Returned (None, Some er), Some b, w) \<and> errors_is er ''ErrImageURLFetch'')"

text \<open>What a request that goes on satisfies: its text, the images in it, and their sizes.\<close>

definition images_inlined ::
  "(string \<Rightarrow> string list \<Rightarrow> string option) \<Rightarrow> int \<Rightarrow> int \<Rightarrow> image_job list \<Rightarrow> (string \<Rightarrow> fetched) \<Rightarrow> string \<Rightarrow> bool" where
  "images_inlined get perURL perRequest jobs F out \<longleftrightarrow>
     (\<forall>j\<in>set jobs. \<forall>v. expected F j = Some v \<longrightarrow> get out (job_path j) = Some v) \<and>
     (\<forall>j\<in>set jobs. is_remote j \<longrightarrow> good_image perURL (F (remoteURL j))) \<and>
     (0 < perRequest \<longrightarrow>
        (\<Sum>u\<in>remoteURL ` {j \<in> set jobs. is_remote j}. int (length (decode64 (fe_rawBase64 (F u))))) \<le> perRequest)"

lemma inline_images_outcome:
  fixes e :: "'n image_engine" and b :: "'v body" and r :: image_request and nxt :: "('v, 'n, 'r) image_next" and w :: "'n fetch_world"
  assumes js: "setter_ok js get" and sc: "fair_schedule sc"
    and norm: "normalize_jobs js (extractImageReplaceJobs r) text False = Inr (out, modified)"
    and unique: "unique = firsts [] (map remoteURL (filter is_remote (extractImageReplaceJobs r)))"
    and err: "\<And>u er. u \<in> set unique \<Longrightarrow> fetch_error (result u) = Some er \<Longrightarrow> errors_is er ''ErrImageURLFetch''"
    and good: "\<And>u. u \<in> set unique \<Longrightarrow> fetch_error (result u) = None \<Longrightarrow> good_image (ie_maxBytesPerURL e) (fetch_value (result u))"
  defines "R \<equiv> inline_images js e sc nxt (extractImageReplaceJobs r) unique result out b w"
  shows "image_refused b R \<or>
    (\<exists>out'. R = drop_response (nxt (Some (SetBytes (Some out') b), w)) \<and>
       images_inlined get (ie_maxBytesPerURL e) (ie_maxBytesPerRequest e) (extractImageReplaceJobs r) (\<lambda>u. fetch_value (result u)) out')"
proof (cases "find (\<lambda>u. fetch_error (result u) \<noteq> None) (sched_loop sc unique)")
  let ?jobs = "extractImageReplaceJobs r" and ?F = "\<lambda>u. fetch_value (result u)"
  have dist: "distinct unique" by (simp add: unique distinct_firsts)
  have urls: "set unique = remoteURL ` {j \<in> set ?jobs. is_remote j}" by (auto simp: unique set_firsts)
  have loop: "set (sched_loop sc unique) = set unique" using sc dist by (simp add: fair_schedule_def)
  {
    case (Some u)
    then have "u \<in> set unique" "fetch_error (result u) \<noteq> None" using loop by (auto simp: find_Some_iff set_conv_nth)
    then show ?thesis using Some err by (auto simp: R_def inline_images_def image_refused_def refuse_def)
  next
    case None
    then have ok: "good_image (ie_maxBytesPerURL e) (?F u)" if "u \<in> set unique" for u
      using that loop good by (auto simp: find_None_iff)
    let ?total = "sum_list (map (\<lambda>u. fe_decodedBytes (?F u)) unique)" and ?m = "ie_maxBytesPerRequest e"
    show ?thesis
    proof (cases "0 < ?m \<and> ?m < ?total")
      case True
      then show ?thesis using None by (simp add: R_def inline_images_def image_refused_def refuse_def Let_def)
    next
      case False
      show ?thesis
      proof (cases "inline_jobs js ?F ?jobs out")
        case (Inl er)
        then show ?thesis using None False inline_jobs_error [OF Inl]
          by (simp add: R_def inline_images_def image_refused_def refuse_def Let_def)
      next
        case (Inr out')
        have remote: "is_remote j \<Longrightarrow> j \<in> set ?jobs \<Longrightarrow> good_image (ie_maxBytesPerURL e) (?F (remoteURL j))" for j
          using ok urls by auto
        then have "fe_mediaType (?F (remoteURL j)) \<noteq> ''''" if "is_remote j" "j \<in> set ?jobs" for j
          using that by (force simp: good_image_def)
        note inl = inline_jobs_writes [OF js jobs_pairwise_apart this Inr]
        note nrm = normalize_jobs_writes [OF js jobs_pairwise_apart norm]
        have "get out' (job_path j) = Some v" if j: "j \<in> set ?jobs" and v: "expected ?F j = Some v" for j v
        proof (cases "is_remote j")
          case False
          then have data: "isDataURL (remoteURL j)" using v by (auto simp: expected_def is_remote_def split: if_splits)
          have "apart (job_path i) (job_path j)" if "i \<in> set ?jobs" "is_remote i" for i
          proof (rule request_jobs_apart [OF that(1) j])
            show "job_key i \<noteq> job_key j"
              using that j False request_keys_distinct [of r] by (metis distinct_map inj_onD)
          qed
          then have "get out' (job_path j) = get out (job_path j)" using inl by blast
          then show ?thesis using nrm j v data by auto
        qed (use inl j v in auto)
        moreover have "(\<Sum>u\<in>set unique. int (length (decode64 (fe_rawBase64 (?F u))))) = ?total"
          using ok dist by (simp add: sum_list_distinct_conv_sum_set good_image_def)
        ultimately have "images_inlined get (ie_maxBytesPerURL e) ?m ?jobs ?F out'"
          using remote False by (auto simp: images_inlined_def urls [symmetric])
        then show ?thesis using None False Inr by (auto simp: R_def inline_images_def Let_def)
      qed
    qed
  }
qed

text \<open>C33: All or nothing. Let an engine with one of the built-in caches have fetched any images before. A
  request that it can read is either refused with an error of the image engine, its body left as it was,
  or goes on with every remote image of its messages inlined at its place, images that were inline
  before in object form, every image within the limit per URL, and the images of distinct URLs
  together within the limit per request.\<close>

theorem images_inlined_or_refused:
  fixes w0 :: "'n fetch_world" and b :: "'v body" and nxt :: "('v, 'n, 'r) image_next"
  assumes new: "NewImageURLFetchEngine compile sha get_http cfg w0 = Inr (e, w1)" and builtin: "ic_Cache cfg = None"
    and env: "\<And>n. fault_free_names (fw_env w0 n)" and before: "run_ops (fetchRemoteImage e) us w1 = (rs, w)"
    and js: "setter_ok js get" and sc: "fair_schedule sc"
    and parsed: "Parsed b = (Returned (Some x, None), b1)" and bytes: "Bytes b1 = (Returned (Inr text), b2)"
  shows "(\<exists>b'. b' \<in> {b1, b2} \<and> image_refused b' (image_process js view e sc nxt (Some b, w))) \<or>
    (\<exists>F out b' w'. image_process js view e sc nxt (Some b, w) \<in> {nxt (Some b', w'), drop_response (nxt (Some b', w'))} \<and>
       fst (Bytes b') = Returned (Inr out) \<and>
       images_inlined get (ic_MaxBytesPerURL cfg) (ic_MaxBytesPerRequest cfg) (extractImageReplaceJobs (view x)) F out)"
proof -
  let ?jobs = "extractImageReplaceJobs (view x)"
  have e: "ie_maxBytesPerURL e = ic_MaxBytesPerURL cfg" "ie_maxBytesPerRequest e = ic_MaxBytesPerRequest cfg"
    using new by (auto simp: NewImageURLFetchEngine_def split: sum.splits)
  show ?thesis
  proof (cases "?jobs = []")
    case True
    then have "image_process js view e sc nxt (Some b, w) = nxt (Some b1, w)" using parsed by (simp add: image_process_def)
    moreover have "images_inlined get (ic_MaxBytesPerURL cfg) (ic_MaxBytesPerRequest cfg) ?jobs F text" for F
      using True by (simp add: images_inlined_def)
    ultimately show ?thesis using bytes by fastforce
  next
    case jobs: False
    show ?thesis
    proof (cases "normalize_jobs js ?jobs text False")
      case (Inl er)
      then have "image_refused b2 (image_process js view e sc nxt (Some b, w))"
        using jobs parsed bytes normalize_jobs_error [OF Inl] by (simp add: image_process_def refuse_def image_refused_def)
      then show ?thesis by blast
    next
      case (Inr om)
      obtain out modified where om: "om = (out, modified)" by (cases om)
      note norm = Inr [unfolded om]
      define unique where "unique = firsts [] (map remoteURL (filter is_remote ?jobs))"
      show ?thesis
      proof (cases "unique = []")
        case True
        let ?b = "if modified then SetBytes (Some out) b2 else b2"
        have none: "\<not> is_remote j" if "j \<in> set ?jobs" for j
          using True that set_firsts [of "[]" "map remoteURL (filter is_remote ?jobs)"] by (auto simp: unique_def)
        have "image_process js view e sc nxt (Some b, w) = nxt (Some ?b, w)"
          using jobs parsed bytes norm True by (simp add: image_process_def unique_def)
        moreover have "fst (Bytes ?b) = Returned (Inr out)"
          using normalize_jobs_writes [OF js jobs_pairwise_apart norm] Bytes_again [OF bytes] by (auto simp: Bytes_SetBytes)
        moreover have "images_inlined get (ic_MaxBytesPerURL cfg) (ic_MaxBytesPerRequest cfg) ?jobs F out" for F
        proof -
          have none': "{j \<in> set ?jobs. is_remote j} = {}" using none by auto
          have "isDataURL (remoteURL j)" if "j \<in> set ?jobs" "expected F j = Some v" for j v
            using none [OF that(1)] that(2) by (auto simp: is_remote_def expected_def split: if_splits)
          then show ?thesis
            using normalize_jobs_writes [OF js jobs_pairwise_apart norm, of F] none unfolding images_inlined_def none' by auto
        qed
        ultimately show ?thesis by blast
      next
        case False
        let ?us = "sched_fetch sc unique"
        obtain qs w' where run: "run_ops (fetchRemoteImage e) ?us w = (qs, w')" by (cases "run_ops (fetchRemoteImage e) ?us w")
        let ?res = "\<lambda>u. case map_of (zip ?us qs) u of Some r \<Rightarrow> r | None \<Rightarrow> Inl None"
        have all: "run_ops (fetchRemoteImage e) (us @ ?us) w1 = (rs @ qs, w')" using before run by (simp add: run_ops_append)
        have good: "good_image (ie_maxBytesPerURL e) f" if "Inr f \<in> set qs" for f
          using engine_images_good [OF new builtin env all] that e(1) by simp
        have us: "set ?us = set unique" using sc distinct_firsts by (auto simp: fair_schedule_def unique_def)
        have proc: "image_process js view e sc nxt (Some b, w) = inline_images js e sc nxt ?jobs unique ?res out b2 w'"
          using jobs parsed bytes norm False run by (simp add: image_process_def unique_def Let_def)
        have "errors_is er ''ErrImageURLFetch''" if "u \<in> set unique" "fetch_error (?res u) = Some er" for u er
          using fetched_results(1) [OF run _ good, of u er] that us by simp
        moreover have "good_image (ie_maxBytesPerURL e) (fetch_value (?res u))" if "u \<in> set unique" "fetch_error (?res u) = None" for u
          using fetched_results(2) [OF run _ good, of u] that us by simp
        ultimately consider "image_refused b2 (image_process js view e sc nxt (Some b, w))"
          | out' where "image_process js view e sc nxt (Some b, w) = drop_response (nxt (Some (SetBytes (Some out') b2), w'))"
            "images_inlined get (ie_maxBytesPerURL e) (ie_maxBytesPerRequest e) ?jobs (\<lambda>u. fetch_value (?res u)) out'"
          using inline_images_outcome [OF js sc norm unique_def, of ?res e b2 nxt w'] unfolding proc by blast
        then show ?thesis
        proof cases
          case 2
          moreover have "fst (Bytes (SetBytes (Some out') b2)) = Returned (Inr out')" by (simp add: Bytes_SetBytes)
          ultimately show ?thesis unfolding e by blast
        qed blast
      qed
    qed
  qed
qed

definition demo_place :: "string list" where
  "demo_place = [''messages'', ''[0]'', ''content'', ''[0]'', ''image_url'']"

text \<open>A text whose only place is the image.\<close>

definition demo_setter :: json_setter where
  "demo_setter s v p = (if p = demo_place then Inr v else Inl (Plain ''no such path''))"

definition demo_getter :: "string \<Rightarrow> string list \<Rightarrow> string option" where
  "demo_getter s p = (if p = demo_place then Some s else None)"

definition demo_view :: "string \<Rightarrow> image_request" where
  "demo_view s = ChatMessages [Some \<lparr>m_Role = ''user'', m_Content = Some (OaArray [Some \<lparr>it_Type = ''image_url'', it_Text = '''',
     it_ImageURL = Some (ImageURLString s), it_FileURI = None\<rparr>]), m_ReasoningContent = None, m_Name = '''', m_ToolCalls = [], m_ToolCallID = ''''\<rparr>]"

definition demo_body :: "string body" where
  "demo_body = NewBodyFromBytes (Some ''u'') (Some text_parser)"

definition demo_next :: "(string, unit, string) image_next" where
  "demo_next s =
     (Returned (case fst s of None \<Rightarrow> None | Some b \<Rightarrow> (case fst (Bytes b) of Returned (Inr t) \<Rightarrow> Some t | _ \<Rightarrow> None), None), s)"

definition demo_schedule :: schedule where
  "demo_schedule = \<lparr>sched_fetch = id, sched_loop = rev\<rparr>"

lemma demo_inlined:
  "fst (image_process demo_setter demo_view demo_engine demo_schedule demo_next (Some demo_body, image_world)) =
     Returned (Some (json_object [(''url'', ''data:image/png;base64,YWI='')]), None)"
  by code_simp

theorem images_inlined_or_refused_witness:
  "\<exists>F out b' w'. image_process demo_setter demo_view demo_engine demo_schedule demo_next (Some demo_body, image_world)
      \<in> {demo_next (Some b', w'), drop_response (demo_next (Some b', w'))} \<and>
    fst (Bytes b') = Returned (Inr out) \<and> images_inlined demo_getter 2 3 [OpenAIJob 0 ''content'' 0 ''u'' False] F out"
proof -
  have env: "fault_free_names (fw_env image_world n)" for n by (simp add: image_world_def fault_free_names_def calm_env_def)
  have cfg: "ic_Cache demo_image_config = None" "ic_MaxBytesPerURL demo_image_config = 2" "ic_MaxBytesPerRequest demo_image_config = 3"
    by (simp_all add: demo_image_config_def)
  have js: "setter_ok demo_setter demo_getter" by (auto simp: setter_ok_def demo_setter_def demo_getter_def apart_def)
  have sc: "fair_schedule demo_schedule" by (simp add: fair_schedule_def demo_schedule_def)
  obtain b1 where b1: "Parsed demo_body = (Returned (Some ''u'', None), b1)" "Bytes b1 = (Returned (Inr ''u''), b1)"
    by (simp add: demo_body_def NewBodyFromBytes_def Parsed_def read_all_def text_parser_def Bytes_def)
  have jobs: "extractImageReplaceJobs (demo_view ''u'') = [OpenAIJob 0 ''content'' 0 ''u'' False]" by code_simp
  have start: "run_ops (fetchRemoteImage demo_engine) [] image_world = ([], image_world)" by simp
  have "\<not> image_refused b' (image_process demo_setter demo_view demo_engine demo_schedule demo_next (Some demo_body, image_world))" for b'
    using demo_inlined by (auto simp: image_refused_def)
  then show ?thesis
    using images_inlined_or_refused [OF demo_image_engine cfg(1) env start js sc b1, of demo_view demo_next] unfolding cfg jobs by blast
qed

end
