(* ===== verification/Runes.thy ===== *)
theory Runes
  imports Prelude
begin

text \<open>
  Go's conversions between strings and runes, as the moderators, the repeat detector and the features of
  the rule engine use them: \<open>[]rune(s)\<close> decodes UTF-8, \<open>string(rs)\<close> encodes it. A string is its bytes.
\<close>

text \<open>\<open>[]rune(s)\<close>: decoding of UTF-8, where a byte that starts no valid sequence becomes U+FFFD.\<close>

definition cont :: "nat \<Rightarrow> bool" where
  "cont b \<longleftrightarrow> 128 \<le> b \<and> b < 192"

function decode_runes :: "nat list \<Rightarrow> nat list" where
  "decode_runes [] = []"
| "decode_runes (a # bs) =
     (if a < 128 then a # decode_runes bs
      else if 194 \<le> a \<and> a < 224 \<and> 1 \<le> length bs \<and> cont (bs ! 0)
      then ((a - 192) * 64 + (bs ! 0 - 128)) # decode_runes (drop 1 bs)
      else if 224 \<le> a \<and> a < 240 \<and> 2 \<le> length bs \<and> cont (bs ! 0) \<and> cont (bs ! 1) \<and>
          (a = 224 \<longrightarrow> 160 \<le> bs ! 0) \<and> (a = 237 \<longrightarrow> bs ! 0 < 160)
      then ((a - 224) * 4096 + (bs ! 0 - 128) * 64 + (bs ! 1 - 128)) # decode_runes (drop 2 bs)
      else if 240 \<le> a \<and> a < 245 \<and> 3 \<le> length bs \<and> cont (bs ! 0) \<and> cont (bs ! 1) \<and> cont (bs ! 2) \<and>
          (a = 240 \<longrightarrow> 144 \<le> bs ! 0) \<and> (a = 244 \<longrightarrow> bs ! 0 < 144)
      then ((a - 240) * 262144 + (bs ! 0 - 128) * 4096 + (bs ! 1 - 128) * 64 + (bs ! 2 - 128)) # decode_runes (drop 3 bs)
      else 65533 # decode_runes bs)"
  by pat_completeness auto
termination by (relation "measure length") auto

definition runes :: "string \<Rightarrow> nat list" where
  "runes s = decode_runes (map of_char s)"

text \<open>\<open>unicode.IsSpace\<close>.\<close>

definition IsSpace :: "nat \<Rightarrow> bool" where
  "IsSpace r \<longleftrightarrow> r \<in> {9, 10, 11, 12, 13, 32, 133, 160, 5760, 8232, 8233, 8239, 8287, 12288} \<or> (8192 \<le> r \<and> r \<le> 8202)"

definition trimRune :: "nat list \<Rightarrow> nat list" where
  "trimRune t = rev (dropWhile IsSpace (rev (dropWhile IsSpace t)))"

text \<open>\<open>string(rs)\<close>; surrogates and numbers beyond U+10FFFF are encoded as U+FFFD.\<close>

definition encode_rune :: "nat \<Rightarrow> nat list" where
  "encode_rune r =
     (let c = (if 55296 \<le> r \<and> r < 57344 \<or> 1114111 < r then 65533 else r)
      in if c < 128 then [c]
         else if c < 2048 then [192 + c div 64, 128 + c mod 64]
         else if c < 65536 then [224 + c div 4096, 128 + c div 64 mod 64, 128 + c mod 64]
         else [240 + c div 262144, 128 + c div 4096 mod 64, 128 + c div 64 mod 64, 128 + c mod 64])"

definition encode_runes :: "nat list \<Rightarrow> string" where
  "encode_runes rs = map char_of (concat (map encode_rune rs))"

definition scalar :: "nat \<Rightarrow> bool" where
  "scalar r \<longleftrightarrow> r < 55296 \<or> 57344 \<le> r \<and> r < 1114112"

lemma decode_two: "2 \<le> a \<Longrightarrow> a < 32 \<Longrightarrow> b < 64 \<Longrightarrow>
    decode_runes ((192 + a) # (128 + b) # bs) = (a * 64 + b) # decode_runes bs"
  by (simp add: cont_def)

lemma decode_three: "a < 16 \<Longrightarrow> b < 64 \<Longrightarrow> c < 64 \<Longrightarrow> (a = 0 \<longrightarrow> 32 \<le> b) \<Longrightarrow> (a = 13 \<longrightarrow> b < 32) \<Longrightarrow>
    decode_runes ((224 + a) # (128 + b) # (128 + c) # bs) = (a * 4096 + b * 64 + c) # decode_runes bs"
  by (simp add: cont_def)

lemma decode_four: "a < 5 \<Longrightarrow> b < 64 \<Longrightarrow> c < 64 \<Longrightarrow> d < 64 \<Longrightarrow> (a = 0 \<longrightarrow> 16 \<le> b) \<Longrightarrow> (a = 4 \<longrightarrow> b < 16) \<Longrightarrow>
    decode_runes ((240 + a) # (128 + b) # (128 + c) # (128 + d) # bs) = (a * 262144 + b * 4096 + c * 64 + d) # decode_runes bs"
  by (simp add: cont_def)

lemma sextets: "(r :: nat) div 64 = 64 * (r div 4096) + r div 64 mod 64" "r div 4096 = 64 * (r div 262144) + r div 4096 mod 64"
  by (simp_all add: div_mult2_eq [of r 64 64, simplified] div_mult2_eq [of r 4096 64, simplified])

lemma decode_encode_rune:
  assumes "scalar r"
  shows "decode_runes (encode_rune r @ bs) = r # decode_runes bs"
proof -
  have r: "r = 64 * (r div 64) + r mod 64" by simp
  consider "r < 128" | "128 \<le> r" "r < 2048" | "2048 \<le> r" "r < 65536" | "65536 \<le> r" by linarith
  then show ?thesis
  proof cases
    case 2
    then have "2 \<le> r div 64" "r div 64 < 32" by auto
    with 2 r show ?thesis
      using decode_two [of "r div 64" "r mod 64"] by (simp add: encode_rune_def)
  next
    case 3
    then have a: "r div 4096 < 16" by auto
    have b: "r div 4096 = 0 \<longrightarrow> 32 \<le> r div 64 mod 64" using 3 sextets(1) [of r] r by linarith
    have c: "r div 4096 = 13 \<longrightarrow> r div 64 mod 64 < 32" using 3 assms sextets(1) [of r] r unfolding scalar_def by linarith
    have e: "encode_rune r = [224 + r div 4096, 128 + r div 64 mod 64, 128 + r mod 64]"
      using 3 assms by (auto simp: encode_rune_def scalar_def)
    have "r = r div 4096 * 4096 + r div 64 mod 64 * 64 + r mod 64" using sextets(1) [of r] r by linarith
    then show ?thesis using decode_three [OF a _ _ b c, of "r mod 64" bs] by (simp add: e del: decode_runes.simps)
  next
    case 4
    then have a: "r div 262144 < 5" using assms by (auto simp: scalar_def)
    have b: "r div 262144 = 0 \<longrightarrow> 16 \<le> r div 4096 mod 64" using 4 sextets [of r] r by linarith
    have c: "r div 262144 = 4 \<longrightarrow> r div 4096 mod 64 < 16" using assms sextets [of r] r unfolding scalar_def by linarith
    have e: "encode_rune r = [240 + r div 262144, 128 + r div 4096 mod 64, 128 + r div 64 mod 64, 128 + r mod 64]"
      using 4 assms by (auto simp: encode_rune_def scalar_def)
    have "r = r div 262144 * 262144 + r div 4096 mod 64 * 4096 + r div 64 mod 64 * 64 + r mod 64" using sextets [of r] r by linarith
    then show ?thesis
      using decode_four [OF a _ _ _ b c, of "r div 64 mod 64" "r mod 64" bs] by (simp add: e del: decode_runes.simps)
  qed (simp add: encode_rune_def)
qed

lemma encode_rune_bound: "scalar r \<Longrightarrow> list_all (\<lambda>b. b < 256) (encode_rune r)"
  by (auto simp: encode_rune_def Let_def scalar_def)

text \<open>Encoding loses nothing.\<close>

lemma runes_encode_runes: "list_all scalar rs \<Longrightarrow> runes (encode_runes rs) = rs"
proof -
  have bound: "list_all scalar rs \<Longrightarrow> list_all (\<lambda>b. b < 256) (concat (map encode_rune rs))"
    by (induction rs) (simp_all add: encode_rune_bound)
  have "list_all scalar rs \<Longrightarrow> decode_runes (concat (map encode_rune rs)) = rs"
    by (induction rs) (simp_all add: decode_encode_rune)
  moreover have "list_all (\<lambda>b. b < 256) bs \<Longrightarrow> map (of_char \<circ> (char_of :: nat \<Rightarrow> char)) bs = bs" for bs :: "nat list"
    by (induction bs) simp_all
  ultimately show "list_all scalar rs \<Longrightarrow> runes (encode_runes rs) = rs"
    using bound by (simp add: runes_def encode_runes_def)
qed

end
