(* ===== verification/Moderator.thy ===== *)
theory Moderator
  imports StreamMerge Runes
begin

text \<open>
  \<open>pkg/engines/moderator/moderator.go\<close>: an engine that has the text of requests and responses allowed by
  a moderation service, with the adapters for OpenAI and Claude bodies (\<open>openai_adapter.go\<close>,
  \<open>claude_adapter.go\<close>). Streams are held back
  in blocks until their text has been allowed. The service, the random draws of the sampling and the
  fate of each send to the consumer are arguments.
\<close>

section \<open>The OpenAI adapter\<close>

text \<open>The last \<open>n\<close> runes of a text that may be longer.\<close>

definition last_runes :: "nat \<Rightarrow> nat list \<Rightarrow> nat list" where
  "last_runes n t = (if n < length t then drop (length t - n) t else t)"

record 'v text_adapter =
  ExtractTextFromBody :: "'v body \<Rightarrow> (err + nat list) outcome"
  GetReplacementBody :: "'v body \<Rightarrow> 'v body option outcome"

record openai_adapter =
  oad_streaming :: string
  oad_nonStreaming :: string
  oad_finishReason :: string

fun tool_arguments_text :: "tool_call option list \<Rightarrow> nat list outcome" where
  "tool_arguments_text [] = Returned []"
| "tool_arguments_text (None # ts) = Panicked"
| "tool_arguments_text (Some t # ts) =
     (case tool_arguments_text ts of
        Panicked \<Rightarrow> Panicked
      | Returned r \<Rightarrow> Returned ((case tc_Function t of Some f \<Rightarrow> runes (fn_Arguments f) | None \<Rightarrow> []) @ r))"

definition extractTextFromMessage :: "oa_message option \<Rightarrow> nat list outcome" where
  "extractTextFromMessage msg =
     (case msg of
        None \<Rightarrow> Returned []
      | Some m \<Rightarrow>
          (case tool_arguments_text (m_ToolCalls m) of
             Panicked \<Rightarrow> Panicked
           | Returned r \<Rightarrow> Returned (runes (content_string (m_Content m)) @ runes (content_string (m_ReasoningContent m)) @ r)))"

fun messages_text :: "oa_message list \<Rightarrow> nat list outcome" where
  "messages_text [] = Returned []"
| "messages_text (m # ms) =
     (case (extractTextFromMessage (Some m), messages_text ms) of
        (Returned a, Returned b) \<Rightarrow> Returned (a @ b) | _ \<Rightarrow> Panicked)"

definition message_text :: "oa_message option \<Rightarrow> (err + nat list) outcome" where
  "message_text m = (case extractTextFromMessage m of Panicked \<Rightarrow> Panicked | Returned t \<Rightarrow> Returned (Inr t))"

definition openai_extract :: "llm_value body \<Rightarrow> (err + nat list) outcome" where
  "openai_extract b =
     (case fst (Parsed b) of
        Panicked \<Rightarrow> Panicked
      | Returned (v, Some e) \<Rightarrow> Returned (Inl (Wrap ''parse body error'' [e]))
      | Returned (v, None) \<Rightarrow>
          (case v of
             Some (ChatRequestV q) \<Rightarrow> (case messages_text (q_Messages q) of Panicked \<Rightarrow> Panicked | Returned t \<Rightarrow> Returned (Inr t))
           | Some (ChatResponseV r) \<Rightarrow>
               (case cr_Choices r of
                  [] \<Rightarrow> Returned (Inl (Plain ''non-stream response has no choices''))
                | [None] \<Rightarrow> Panicked
                | [Some c] \<Rightarrow> message_text (cc_Message c)
                | _ \<Rightarrow> Returned (Inl (Plain ''only support 1 choice'')))
           | Some (ChatChunkV ck) \<Rightarrow>
               (case ck_Choices ck of
                  [] \<Rightarrow> Returned (Inr [])
                | [None] \<Rightarrow> Panicked
                | [Some c] \<Rightarrow> message_text (sch_Delta c)
                | _ \<Rightarrow> Returned (Inl (Plain ''only support 1 choice'')))
           | _ \<Rightarrow> Returned (Inl (Plain ''unsupported body type''))))"

text \<open>The replacement is written into the body itself, which is returned.\<close>

definition openai_replacement :: "openai_adapter \<Rightarrow> llm_value body \<Rightarrow> llm_value body option outcome" where
  "openai_replacement a b =
     (case Parsed b of
        (Panicked, b1) \<Rightarrow> Panicked
      | (Returned (v, Some e), b1) \<Rightarrow> Returned None
      | (Returned (v, None), b1) \<Rightarrow>
          (case v of
             Some (ChatResponseV r) \<Rightarrow>
               (case cr_Choices r of
                  [] \<Rightarrow> Returned None
                | None # _ \<Rightarrow> Panicked
                | Some c # _ \<Rightarrow>
                    Returned (if cc_Message c \<noteq> None \<and> oad_nonStreaming a \<noteq> ''''
                      then Some (SetParsed (Some (ChatResponseV (r\<lparr>cr_Choices :=
                             [Some \<lparr>cc_FinishReason = oad_finishReason a, cc_Index = cc_Index c,
                                cc_Message = Some (oa_msg ''assistant'' (Some (OaString (oad_nonStreaming a))))\<rparr>]\<rparr>))) b1)
                      else None))
           | Some (ChatChunkV ck) \<Rightarrow>
               (case ck_Choices ck of
                  [] \<Rightarrow> Returned None
                | None # _ \<Rightarrow> Panicked
                | Some c # _ \<Rightarrow>
                    Returned (if sch_Delta c \<noteq> None \<and> oad_streaming a \<noteq> ''''
                      then Some (SetParsed (Some (ChatChunkV (ck\<lparr>ck_Choices :=
                             [Some \<lparr>sch_FinishReason = oad_finishReason a, sch_Index = sch_Index c,
                                sch_Delta = Some (oa_msg ''assistant'' (Some (OaString (oad_streaming a))))\<rparr>],
                             ck_Usage := None\<rparr>))) b1)
                      else None))
           | _ \<Rightarrow> Returned None))"

definition OpenAIAdapter :: "openai_adapter \<Rightarrow> llm_value text_adapter" where
  "OpenAIAdapter a = \<lparr>ExtractTextFromBody = openai_extract, GetReplacementBody = openai_replacement a\<rparr>"

section \<open>The Claude adapter\<close>

record claude_adapter =
  cad_streaming :: string
  cad_nonStreaming :: string
  cad_stopReason :: string

definition claude_request_text :: "claude_request \<Rightarrow> nat list" where
  "claude_request_text q =
     (case rq_System q of
        Some (SystemString s) \<Rightarrow> runes s
      | Some (SystemBlocks bs) \<Rightarrow> concat (map runes bs)
      | None \<Rightarrow> []) @
     concat (map (\<lambda>m. case m of
         None \<Rightarrow> []
       | Some msg \<Rightarrow> (case cm_Content msg of None \<Rightarrow> [] | Some c \<Rightarrow> runes (content_text c))) (rq_Messages q))"

definition claude_blocks_text :: "claude_block option list \<Rightarrow> nat list" where
  "claude_blocks_text bs = concat (map (\<lambda>b. case b of None \<Rightarrow> [] | Some x \<Rightarrow> runes (block_text x)) bs)"

definition optional_text :: "string option \<Rightarrow> nat list" where
  "optional_text s = (case s of None \<Rightarrow> [] | Some x \<Rightarrow> runes x)"

definition claude_event_text :: "claude_event \<Rightarrow> err + nat list" where
  "claude_event_text ev =
     (if ev_Type ev = ''content_block_delta'' \<and> ev_Delta ev = None then Inl (Plain ''content_block_delta: delta is nil'')
      else Inr
        ((if ev_Type ev = ''content_block_delta''
          then (case ev_Delta ev of
                  None \<Rightarrow> []
                | Some d \<Rightarrow> optional_text (d_Text d) @ optional_text (d_Thinking d) @ optional_text (d_PartialJSON d))
          else []) @
         (if ev_Type ev = ''message_start''
          then (case ev_Message ev of None \<Rightarrow> [] | Some r \<Rightarrow> claude_blocks_text (cl_Content r))
          else []) @
         (if ev_Type ev = ''content_block_start''
          then (case ev_ContentBlock ev of None \<Rightarrow> [] | Some b \<Rightarrow> runes (block_text b))
          else [])))"

definition claude_extract :: "llm_value body \<Rightarrow> (err + nat list) outcome" where
  "claude_extract b =
     (case fst (Parsed b) of
        Panicked \<Rightarrow> Panicked
      | Returned (v, Some e) \<Rightarrow> Returned (Inl (Wrap ''parse body error'' [e]))
      | Returned (v, None) \<Rightarrow>
          (case v of
             Some (ClaudeRequestV q) \<Rightarrow> Returned (Inr (claude_request_text q))
           | Some (ClaudeResponseV r) \<Rightarrow> Returned (Inr (claude_blocks_text (cl_Content r)))
           | Some (ClaudeEventV ev) \<Rightarrow> Returned (claude_event_text ev)
           | _ \<Rightarrow> Returned (Inl (Plain ''unsupported body type''))))"

definition claude_replacement :: "claude_adapter \<Rightarrow> llm_value body \<Rightarrow> llm_value body option outcome" where
  "claude_replacement a b =
     (case Parsed b of
        (Panicked, b1) \<Rightarrow> Panicked
      | (Returned (v, Some e), b1) \<Rightarrow> Returned None
      | (Returned (v, None), b1) \<Rightarrow>
          Returned (case v of
             Some (ClaudeResponseV r) \<Rightarrow>
               if cad_nonStreaming a = '''' then None
               else Some (SetParsed (Some (ClaudeResponseV \<lparr>cl_ID = cl_ID r, cl_Type = cl_Type r, cl_Role = ''assistant'',
                      cl_Content = [Some (TextBlock (cad_nonStreaming a))], cl_Model = cl_Model r, cl_StopReason = cad_stopReason a,
                      cl_StopSequence = None, cl_Usage = cl_Usage r\<rparr>)) b1)
           | Some (ClaudeEventV ev) \<Rightarrow>
               if ev_Type ev \<noteq> ''content_block_delta'' \<or> cad_streaming a = '''' then None
               else Some (SetParsed (Some (ClaudeEventV \<lparr>ev_Type = ''content_block_delta'', ev_Message = None, ev_Index = ev_Index ev,
                      ev_ContentBlock = None,
                      ev_Delta = Some \<lparr>d_Type = ''text_delta'', d_Text = Some (cad_streaming a), d_PartialJSON = None,
                        d_Thinking = None, d_Signature = None, d_StopReason = None, d_StopSequence = None\<rparr>,
                      ev_Usage = None\<rparr>)) b1)
           | _ \<Rightarrow> None))"

definition ClaudeAdapter :: "claude_adapter \<Rightarrow> llm_value text_adapter" where
  "ClaudeAdapter a = \<lparr>ExtractTextFromBody = claude_extract, GetReplacementBody = claude_replacement a\<rparr>"

section \<open>The engine\<close>
text \<open>The texts that are not empty are counted: \<open>mo_Rand n\<close> is the draw for the \<open>n\<close>-th of them, and
  \<open>mo_Allow n\<close> the answer of the service when it is asked about it.\<close>

record 'v moderator =
  mo_Allow :: "nat \<Rightarrow> nat list \<Rightarrow> err option"
  mo_MaxRuneLen :: nat
  mo_Rand :: "nat \<Rightarrow> rat"
  mo_Adapter :: "'v text_adapter"
  mo_ModerateInput :: bool
  mo_ModerateOutput :: bool
  mo_StreamEvery :: int
  mo_InputRate :: "rat option"
  mo_OutputRate :: "rat option"

definition moderationSampleHit :: "rat option \<Rightarrow> rat \<Rightarrow> bool" where
  "moderationSampleHit rate x =
     (case rate of None \<Rightarrow> True | Some r \<Rightarrow> if r \<le> 0 then False else if 1 \<le> r then True else x < r)"

text \<open>A text goes to the service unless it is empty or the sampling skips it. The result is the
  service's verdict and whether it was asked.\<close>

definition ask :: "'v moderator \<Rightarrow> rat option \<Rightarrow> nat \<Rightarrow> nat list \<Rightarrow> err option \<times> bool" where
  "ask m rate n t =
     (if t \<noteq> [] \<and> moderationSampleHit rate (mo_Rand m n) then (mo_Allow m n t, True) else (None, False))"

abbreviation ErrInputNotAllowed :: err where "ErrInputNotAllowed \<equiv> Sentinel ''ErrInputNotAllowed''"
abbreviation ErrOutputNotAllowed :: err where "ErrOutputNotAllowed \<equiv> Sentinel ''ErrOutputNotAllowed''"
abbreviation ErrModeratorInternalError :: err where "ErrModeratorInternalError \<equiv> Sentinel ''ErrModeratorInternalError''"

text \<open>The variables of the stream goroutine, with the chunks sent on and the texts asked about and
  allowed.\<close>

record 'v mod_state =
  ms_text :: "nat list"
  ms_chunks :: "'v stream_chunk list"
  ms_count :: nat
  ms_rolls :: nat
  ms_failed :: "err option"
  ms_out :: "'v stream_chunk list"
  ms_allowed :: "nat list list"

definition mod_init :: "'v mod_state" where
  "mod_init = \<lparr>ms_text = [], ms_chunks = [], ms_count = 0, ms_rolls = 0, ms_failed = None, ms_out = [], ms_allowed = []\<rparr>"

text \<open>Sending a block: the first send that finds the context done ends the goroutine (\<open>False\<close>).\<close>

fun release :: "(nat \<Rightarrow> bool) \<Rightarrow> 'v stream_chunk list \<Rightarrow> 'v stream_chunk list \<Rightarrow> bool \<times> 'v stream_chunk list" where
  "release ok [] out = (True, out)"
| "release ok (c # cs) out = (if ok (length out) then release ok cs (out @ [c]) else (False, out))"

text \<open>Asking about the text so far, and releasing the block when it is allowed; \<open>None\<close> when the
  goroutine ended.\<close>

definition vet_block :: "'v moderator \<Rightarrow> (nat \<Rightarrow> bool) \<Rightarrow> 'v mod_state \<Rightarrow> bool \<times> 'v mod_state" where
  "vet_block m ok s =
     (let t = trimRune (ms_text s);
          (verdict, asked) = ask m (mo_OutputRate m) (ms_rolls s) t;
          s1 = s\<lparr>ms_rolls := ms_rolls s + (if t \<noteq> [] then 1 else 0)\<rparr>
      in case verdict of
           Some e \<Rightarrow> (True, s1\<lparr>ms_failed := Some (Wrap '''' [ErrOutputNotAllowed, e])\<rparr>)
         | None \<Rightarrow>
             let s2 = (if asked then s1\<lparr>ms_allowed := ms_allowed s1 @ [t]\<rparr> else s1);
                 (alive, out) = release ok (ms_chunks s2) (ms_out s2)
             in (alive, s2\<lparr>ms_out := out, ms_chunks := [], ms_count := 0\<rparr>))"

definition moderate_every :: "'v moderator \<Rightarrow> nat" where
  "moderate_every m = (if mo_StreamEvery m \<le> 0 then 10 else nat (mo_StreamEvery m))"

text \<open>The loop over the upstream's chunks. The result tells how it ended: the stream was read (or
  moderation failed), the goroutine returned, or it panicked.\<close>

datatype loop_end = Drained | Gone | Died

fun mod_loop :: "'v moderator \<Rightarrow> (nat \<Rightarrow> bool) \<Rightarrow> 'v stream_chunk list \<Rightarrow> 'v mod_state \<Rightarrow> loop_end \<times> 'v mod_state" where
  "mod_loop m ok [] s = (Drained, s)"
| "mod_loop m ok (c # cs) s =
     (case ExtractTextFromBody (mo_Adapter m) (ch_Body c) of
        Panicked \<Rightarrow> (Died, s)
      | Returned (Inl e) \<Rightarrow>
          if errors_is e ''ErrStreamDone'' then (Drained, s\<lparr>ms_chunks := ms_chunks s @ [c]\<rparr>)
          else (Drained, s\<lparr>ms_failed := Some (Wrap '''' [ErrModeratorInternalError, e])\<rparr>)
      | Returned (Inr t) \<Rightarrow>
          let s1 = s\<lparr>ms_text := last_runes (mo_MaxRuneLen m) (ms_text s @ t), ms_chunks := ms_chunks s @ [c], ms_count := Suc (ms_count s)\<rparr>
          in if moderate_every m \<le> ms_count s1
             then (case vet_block m ok s1 of
                     (False, s2) \<Rightarrow> (Gone, s2)
                   | (True, s2) \<Rightarrow> if ms_failed s2 \<noteq> None then (Drained, s2) else mod_loop m ok cs s2)
             else mod_loop m ok cs s1)"

text \<open>After the loop: the rest of the chunks, or the replacement of the first one that was held back.\<close>

definition mod_finish :: "'v moderator \<Rightarrow> (nat \<Rightarrow> bool) \<Rightarrow> 'v mod_state \<Rightarrow> 'v mod_state" where
  "mod_finish m ok s =
     (let (alive, s1) = (if ms_failed s = None \<and> ms_chunks s \<noteq> [] then vet_block m ok s else (True, s))
      in if \<not> alive \<or> ms_failed s1 = None then s1
         else case ms_chunks s1 of
                [] \<Rightarrow> s1
              | c # _ \<Rightarrow>
                  (case GetReplacementBody (mo_Adapter m) (ch_Body c) of
                     Returned (Some b) \<Rightarrow> s1\<lparr>ms_out := snd (release ok [\<lparr>ch_Metadata = [], ch_Body = b\<rparr>] (ms_out s1))\<rparr>
                   | _ \<Rightarrow> s1))"

definition moderate_stream :: "'v moderator \<Rightarrow> (nat \<Rightarrow> bool) \<Rightarrow> nat \<Rightarrow> 'v stream_chunk list \<Rightarrow> 'v mod_state" where
  "moderate_stream m ok rolls cs =
     (case mod_loop m ok cs (mod_init\<lparr>ms_rolls := rolls\<rparr>) of
        (Drained, s) \<Rightarrow> mod_finish m ok s
      | (_, s) \<Rightarrow> s)"


text \<open>\<open>Process\<close>: the result, whether the request was marked as spam, and the close callbacks that ran. A
  response with neither body nor stream makes the goroutine panic, which leaves an empty stream.\<close>

definition truncated :: "'v moderator \<Rightarrow> nat list \<Rightarrow> nat list" where
  "truncated m t = last_runes (mo_MaxRuneLen m) t"

definition moderate_input :: "'v moderator \<Rightarrow> 'v body \<Rightarrow> (err option \<times> nat) outcome" where
  "moderate_input m b =
     (if \<not> mo_ModerateInput m then Returned (None, 0)
      else case ExtractTextFromBody (mo_Adapter m) b of
             Panicked \<Rightarrow> Panicked
           | Returned (Inl e) \<Rightarrow> Returned (Some (Wrap '''' [ErrModeratorInternalError, e]), 0)
           | Returned (Inr txt) \<Rightarrow>
               let t = truncated m (trimRune txt)
               in Returned (map_option (\<lambda>e. Wrap '''' [ErrInputNotAllowed, e]) (fst (ask m (mo_InputRate m) 0 t)), if t \<noteq> [] then 1 else 0))"

definition moderate_body :: "'v moderator \<Rightarrow> nat \<Rightarrow> 'v body \<Rightarrow> (err + 'v body) outcome \<times> bool" where
  "moderate_body m n b =
     (case ExtractTextFromBody (mo_Adapter m) b of
        Panicked \<Rightarrow> (Panicked, False)
      | Returned (Inl e) \<Rightarrow> (Returned (Inl (Wrap '''' [ErrModeratorInternalError, e])), False)
      | Returned (Inr txt) \<Rightarrow>
          (case fst (ask m (mo_OutputRate m) n (trimRune (truncated m txt))) of
             None \<Rightarrow> (Returned (Inr b), False)
           | Some e \<Rightarrow>
               (case GetReplacementBody (mo_Adapter m) b of
                  Panicked \<Rightarrow> (Panicked, False)
                | Returned (Some b') \<Rightarrow> (Returned (Inr b'), True)
                | Returned None \<Rightarrow> (Returned (Inl (Wrap '''' [ErrOutputNotAllowed, e])), True))))"

definition moderator_process ::
  "'v moderator \<Rightarrow> (nat \<Rightarrow> bool) \<Rightarrow> ('v body \<Rightarrow> 'v http_response go_result) \<Rightarrow> 'v body
    \<Rightarrow> ('v http_response go_result \<times> bool \<times> close_action list) outcome" where
  "moderator_process m ok nxt b =
     (case moderate_input m b of
        Panicked \<Rightarrow> Panicked
      | Returned (Some e, n) \<Rightarrow> Returned ((None, Some e), False, [])
      | Returned (None, n) \<Rightarrow>
          (case nxt b of
             (resp, Some e) \<Rightarrow> Returned ((None, Some e), False, [])
           | (resp, None) \<Rightarrow>
               if \<not> mo_ModerateOutput m then Returned ((resp, None), False, [])
               else case resp of
                      None \<Rightarrow> Panicked
                    | Some r \<Rightarrow>
                        (case hr_Body r of
                           Some rb \<Rightarrow>
                             (case moderate_body m n rb of
                                (Panicked, spam) \<Rightarrow> Panicked
                              | (Returned (Inl e), spam) \<Rightarrow> Returned ((None, Some e), spam, fst (CloseBody rb))
                              | (Returned (Inr rb'), spam) \<Rightarrow> Returned ((Some (r\<lparr>hr_Body := Some rb'\<rparr>), None), spam, []))
                         | None \<Rightarrow>
                             let st = (case hr_Stream r of Some st \<Rightarrow> st | None \<Rightarrow> \<lparr>st_chunks = [], st_close = []\<rparr>);
                                 s = moderate_stream m ok n (st_chunks st)
                             in Returned ((Some (r\<lparr>hr_Stream := Some \<lparr>st_chunks = ms_out s, st_close = st_close st @ [OtherClose ''cancel'']\<rparr>\<rparr>), None),
                                  ms_failed s \<noteq> None, []))))"

section \<open>Only vetted text is released\<close>

definition chunk_text :: "'v moderator \<Rightarrow> 'v stream_chunk \<Rightarrow> nat list" where
  "chunk_text m c = (case ExtractTextFromBody (mo_Adapter m) (ch_Body c) of Returned (Inr t) \<Rightarrow> t | _ \<Rightarrow> [])"

definition stream_text :: "'v moderator \<Rightarrow> 'v stream_chunk list \<Rightarrow> nat list" where
  "stream_text m cs = concat (map (chunk_text m) cs)"

text \<open>What the service sees of the text of some chunks, and that it was allowed or empty.\<close>

definition vetted :: "'v moderator \<Rightarrow> nat list list \<Rightarrow> 'v stream_chunk list \<Rightarrow> bool" where
  "vetted m allowed cs \<longleftrightarrow>
     (let t = trimRune (last_runes (mo_MaxRuneLen m) (stream_text m cs)) in t = [] \<or> t \<in> set allowed)"

definition covered :: "'v moderator \<Rightarrow> nat list list \<Rightarrow> 'v stream_chunk list \<Rightarrow> nat \<Rightarrow> bool" where
  "covered m allowed cs n \<longleftrightarrow>
     list_all (\<lambda>j. \<exists>k. j < k \<and> k \<le> j + moderate_every m \<and> k \<le> length cs \<and> vetted m allowed (take k cs)) [0..<n]"

lemma last_runes_append: "last_runes n (last_runes n xs @ ys) = last_runes n (xs @ ys)"
  by (auto simp: last_runes_def add.commute)

lemma every_pos: "0 < moderate_every m"
  by (simp add: moderate_every_def)

lemma release_prefix:
  assumes "release ok cs out = (alive, out1)"
  obtains n where "n \<le> length cs" "out1 = out @ take n cs" "alive \<longrightarrow> n = length cs"
  using assms
proof (induction cs arbitrary: out thesis)
  case Nil
  then show ?case by auto
next
  case (Cons c cs)
  show ?case
  proof (cases "ok (length out)")
    case True
    with Cons.prems(2) have "release ok cs (out @ [c]) = (alive, out1)" by simp
    from Cons.IH [OF _ this] obtain n where "n \<le> length cs" "out1 = (out @ [c]) @ take n cs" "alive \<longrightarrow> n = length cs" by blast
    then show ?thesis by (intro Cons.prems(1) [of "Suc n"]) auto
  next
    case False
    with Cons.prems(2) show ?thesis by (intro Cons.prems(1) [of 0]) auto
  qed
qed

lemma take_append_short: "k \<le> length xs \<Longrightarrow> take k (xs @ ys) = take k xs"
  by simp

lemma vetted_mono: "vetted m allowed cs \<Longrightarrow> set allowed \<subseteq> set allowed1 \<Longrightarrow> vetted m allowed1 cs"
  by (auto simp: vetted_def Let_def)

lemma covered_mono:
  assumes "covered m allowed cs n" and "set allowed \<subseteq> set allowed1"
  shows "covered m allowed1 (cs @ rest) n"
  unfolding covered_def list_all_iff
proof (intro ballI)
  fix j assume "j \<in> set [0..<n]"
  with assms(1) have "\<exists>k>j. k \<le> j + moderate_every m \<and> k \<le> length cs \<and> vetted m allowed (take k cs)"
    by (auto simp: covered_def list_all_iff)
  then obtain k where "j < k" "k \<le> j + moderate_every m" "k \<le> length cs" "vetted m allowed (take k cs)"
    by blast
  then show "\<exists>k>j. k \<le> j + moderate_every m \<and> k \<le> length (cs @ rest) \<and> vetted m allowed1 (take k (cs @ rest))"
    using vetted_mono [OF _ assms(2)] by (intro exI [of _ k]) auto
qed

lemma covered_block:
  assumes "covered m allowed cs n" and "length cs \<le> n + moderate_every m" and "vetted m allowed cs" and "k \<le> length cs"
  shows "covered m allowed cs k"
  unfolding covered_def list_all_iff
proof (intro ballI)
  fix j assume "j \<in> set [0..<k]"
  then show "\<exists>k>j. k \<le> j + moderate_every m \<and> k \<le> length cs \<and> vetted m allowed (take k cs)"
    using assms by (cases "j < n") (auto simp: covered_def list_all_iff intro!: exI [of _ "length cs"])
qed

text \<open>The texts recorded as allowed are those the service did not object to.\<close>

definition really_allowed :: "'v moderator \<Rightarrow> nat list list \<Rightarrow> bool" where
  "really_allowed m = list_all (\<lambda>t. \<exists>n. mo_Allow m n t = None)"

text \<open>A state of the goroutine after the chunks \<open>seen\<close>: what is sent is covered, the rest is held back.\<close>

definition holding :: "'v moderator \<Rightarrow> 'v stream_chunk list \<Rightarrow> 'v mod_state \<Rightarrow> bool" where
  "holding m seen s \<longleftrightarrow> ms_out s @ ms_chunks s = seen \<and> ms_text s = last_runes (mo_MaxRuneLen m) (stream_text m seen) \<and>
     covered m (ms_allowed s) seen (length (ms_out s)) \<and> really_allowed m (ms_allowed s)"

definition sent_covered :: "'v moderator \<Rightarrow> 'v stream_chunk list \<Rightarrow> 'v mod_state \<Rightarrow> bool" where
  "sent_covered m seen s \<longleftrightarrow>
     (\<exists>n. ms_out s = take n seen \<and> n \<le> length seen \<and> covered m (ms_allowed s) seen n) \<and> really_allowed m (ms_allowed s)"

lemma holding_sent: "holding m seen s \<Longrightarrow> sent_covered m seen s"
  by (auto simp: holding_def sent_covered_def intro!: exI [of _ "length (ms_out s)"])

lemma sent_covered_more:
  assumes "sent_covered m seen s"
  shows "sent_covered m (seen @ rest) s"
proof -
  from assms obtain n where "ms_out s = take n seen" "n \<le> length seen" "covered m (ms_allowed s) seen n"
    by (auto simp: sent_covered_def)
  then show ?thesis
    using assms covered_mono [of m "ms_allowed s" seen n "ms_allowed s" rest]
    by (auto simp: sent_covered_def intro!: exI [of _ n])
qed

lemma holding_snoc:
  assumes "holding m seen s"
  shows "holding m (seen @ [c]) (s\<lparr>ms_text := last_runes (mo_MaxRuneLen m) (ms_text s @ chunk_text m c),
           ms_chunks := ms_chunks s @ [c], ms_count := n\<rparr>)"
  using assms covered_mono [of m "ms_allowed s" seen "length (ms_out s)" "ms_allowed s" "[c]"]
  by (auto simp: holding_def stream_text_def last_runes_append)

lemma holding_snoc_silent:
  assumes "holding m seen s" and "chunk_text m c = []"
  shows "holding m (seen @ [c]) (s\<lparr>ms_chunks := ms_chunks s @ [c]\<rparr>)"
  using assms covered_mono [of m "ms_allowed s" seen "length (ms_out s)" "ms_allowed s" "[c]"]
  by (auto simp: holding_def stream_text_def)

text \<open>A block that is passed on has been vetted; one that is not stays where it is.\<close>

lemma vet_block_holding:
  assumes "vet_block m ok s = (alive, s1)" and "holding m seen s" and "mo_OutputRate m = None"
    and "length (ms_chunks s) \<le> moderate_every m" and "ms_failed s = None"
  shows "sent_covered m seen s1"
    and "alive \<Longrightarrow> holding m seen s1"
    and "alive \<Longrightarrow> length (ms_chunks s1) \<le> moderate_every m"
    and "ms_failed s1 = None \<Longrightarrow> alive \<Longrightarrow> ms_chunks s1 = [] \<and> ms_count s1 = 0"
proof -
  define t where "t = trimRune (ms_text s)"
  obtain verdict asked where ask: "ask m (mo_OutputRate m) (ms_rolls s) t = (verdict, asked)" by fastforce
  define s2 where "s2 = s\<lparr>ms_rolls := ms_rolls s + (if t \<noteq> [] then 1 else 0), ms_allowed := (if asked then ms_allowed s @ [t] else ms_allowed s)\<rparr>"
  obtain alive1 out where rel: "release ok (ms_chunks s) (ms_out s) = (alive1, out)" by fastforce
  have all: "sent_covered m seen s1 \<and> (alive \<longrightarrow> holding m seen s1 \<and> length (ms_chunks s1) \<le> moderate_every m \<and>
      (ms_failed s1 = None \<longrightarrow> ms_chunks s1 = [] \<and> ms_count s1 = 0))"
  proof (cases verdict)
    case (Some e)
    then have s1: "s1 = s\<lparr>ms_rolls := ms_rolls s + (if t \<noteq> [] then 1 else 0), ms_failed := Some (Wrap '''' [ErrOutputNotAllowed, e])\<rparr>"
      using assms(1) ask by (auto simp: vet_block_def Let_def t_def)
    then have "holding m seen s1" using assms(2) by (simp add: holding_def)
    with s1 assms(4) show ?thesis by (auto intro: holding_sent)
  next
    case None
    have s1: "s1 = s2\<lparr>ms_out := out, ms_chunks := [], ms_count := 0\<rparr>" "alive = alive1"
      using assms(1) ask rel None by (auto simp: vet_block_def Let_def t_def s2_def split: if_splits)
    have more: "set (ms_allowed s) \<subseteq> set (ms_allowed s1)" by (auto simp: s1 s2_def)
    have seen: "seen = ms_out s @ ms_chunks s" and txt_eq: "t = trimRune (last_runes (mo_MaxRuneLen m) (stream_text m seen))"
      and really: "really_allowed m (ms_allowed s)" and cov0: "covered m (ms_allowed s) seen (length (ms_out s))"
      using assms(2) by (auto simp: holding_def t_def)
    have vet: "vetted m (ms_allowed s1) seen" and really1: "really_allowed m (ms_allowed s1)"
      using ask None assms(3) really
      by (auto simp: vetted_def Let_def s1 s2_def ask_def moderationSampleHit_def really_allowed_def txt_eq [symmetric] split: if_splits)
    have cov: "covered m (ms_allowed s1) seen k" if "k \<le> length seen" for k
      using covered_block [OF _ _ vet that] covered_mono [OF cov0 more, of "[]"] assms(4) seen by simp
    obtain n where "n \<le> length (ms_chunks s)" "out = ms_out s @ take n (ms_chunks s)" "alive1 \<longrightarrow> n = length (ms_chunks s)"
      using release_prefix [OF rel] by blast
    then have out: "out = take (length (ms_out s) + n) seen" "length (ms_out s) + n \<le> length seen"
        "alive1 \<longrightarrow> length (ms_out s) + n = length seen"
      by (auto simp: seen)
    then have sent: "sent_covered m seen s1"
      using cov [OF out(2)] really1 by (auto simp: sent_covered_def s1 intro!: exI [of _ "length (ms_out s) + n"])
    moreover have "holding m seen s1" if "alive"
      using that out cov [of "length seen"] really1 assms(2) by (auto simp: holding_def s1 s2_def)
    ultimately show ?thesis by (simp add: s1)
  qed
  then show "sent_covered m seen s1" "alive \<Longrightarrow> holding m seen s1" "alive \<Longrightarrow> length (ms_chunks s1) \<le> moderate_every m"
    "ms_failed s1 = None \<Longrightarrow> alive \<Longrightarrow> ms_chunks s1 = [] \<and> ms_count s1 = 0" by simp_all
qed

lemma mod_loop_holding:
  assumes "mod_loop m ok cs s = (r, s1)" and "holding m seen s" and "mo_OutputRate m = None"
    and "ms_count s = length (ms_chunks s)" and "length (ms_chunks s) < moderate_every m" and "ms_failed s = None"
  shows "\<exists>k\<le>length cs. (if r = Drained then holding m (seen @ take k cs) s1 \<and> length (ms_chunks s1) \<le> moderate_every m
           else sent_covered m (seen @ take k cs) s1)"
  using assms
proof (induction cs arbitrary: s seen)
  case Nil
  then show ?case by auto
next
  case (Cons c cs)
  show ?case
  proof (cases "ExtractTextFromBody (mo_Adapter m) (ch_Body c)")
    case Panicked
    with Cons.prems show ?thesis by (auto intro!: exI [of _ 0] holding_sent)
  next
    case (Returned x)
    show ?thesis
    proof (cases x)
      case (Inl e)
      have silent: "chunk_text m c = []" using Returned Inl by (simp add: chunk_text_def)
      show ?thesis
      proof (cases "errors_is e ''ErrStreamDone''")
        case True
        then show ?thesis
          using Cons.prems Returned Inl holding_snoc_silent [OF Cons.prems(2) silent]
          by (auto intro!: exI [of _ 1])
      next
        case False
        then show ?thesis
          using Cons.prems Returned Inl by (auto simp: holding_def intro!: exI [of _ 0])
      qed
    next
      case (Inr t)
      define s2 where "s2 = s\<lparr>ms_text := last_runes (mo_MaxRuneLen m) (ms_text s @ t), ms_chunks := ms_chunks s @ [c],
          ms_count := Suc (ms_count s)\<rparr>"
      have t: "chunk_text m c = t" using Returned Inr by (simp add: chunk_text_def)
      have hold: "holding m (seen @ [c]) s2"
        using holding_snoc [OF Cons.prems(2), of c "Suc (ms_count s)"] by (simp add: s2_def t)
      have count: "ms_count s2 = length (ms_chunks s2)" "length (ms_chunks s2) \<le> moderate_every m" "ms_failed s2 = None"
        using Cons.prems by (auto simp: s2_def)
      have step: "mod_loop m ok (c # cs) s =
          (if moderate_every m \<le> ms_count s2
           then (case vet_block m ok s2 of (False, s3) \<Rightarrow> (Gone, s3)
                   | (True, s3) \<Rightarrow> if ms_failed s3 \<noteq> None then (Drained, s3) else mod_loop m ok cs s3)
           else mod_loop m ok cs s2)"
        using Returned Inr by (simp add: s2_def Let_def)
      have later: ?thesis if "mod_loop m ok cs s3 = (r, s1)" "holding m (seen @ [c]) s3" "ms_count s3 = length (ms_chunks s3)"
          "length (ms_chunks s3) < moderate_every m" "ms_failed s3 = None" for s3
      proof -
        from Cons.IH [OF that(1,2) Cons.prems(3) that(3-5)] obtain k where "k \<le> length cs"
          "if r = Drained then holding m ((seen @ [c]) @ take k cs) s1 \<and> length (ms_chunks s1) \<le> moderate_every m
           else sent_covered m ((seen @ [c]) @ take k cs) s1" by blast
        then show ?thesis by (auto intro!: exI [of _ "Suc k"])
      qed
      show ?thesis
      proof (cases "moderate_every m \<le> ms_count s2")
        case True
        obtain alive s3 where vet: "vet_block m ok s2 = (alive, s3)" by fastforce
        note v = vet_block_holding [OF vet hold Cons.prems(3) count(2,3)]
        show ?thesis
        proof (cases "alive \<and> ms_failed s3 = None")
          case True
          with v step vet Cons.prems(1) \<open>moderate_every m \<le> ms_count s2\<close> show ?thesis
            by (intro later [of s3]) (auto simp: every_pos)
        next
          case False
          with v step vet Cons.prems(1) \<open>moderate_every m \<le> ms_count s2\<close> show ?thesis
            by (cases alive) (auto intro!: exI [of _ 1])
        qed
      next
        case False
        with step Cons.prems(1) hold count show ?thesis by (intro later [of s2]) auto
      qed
    qed
  qed
qed

definition replacement_of :: "'v moderator \<Rightarrow> 'v stream_chunk list \<Rightarrow> bool" where
  "replacement_of m r \<longleftrightarrow>
     r = [] \<or> (\<exists>b b'. GetReplacementBody (mo_Adapter m) b = Returned (Some b') \<and> r = [\<lparr>ch_Metadata = [], ch_Body = b'\<rparr>])"

lemma replacement_length: "replacement_of m r \<Longrightarrow> length r \<le> 1"
  by (auto simp: replacement_of_def)

definition released :: "'v moderator \<Rightarrow> 'v stream_chunk list \<Rightarrow> 'v mod_state \<Rightarrow> bool" where
  "released m cs s \<longleftrightarrow>
     (\<exists>n r. ms_out s = take n cs @ r \<and> replacement_of m r \<and> (r \<noteq> [] \<longrightarrow> ms_failed s \<noteq> None) \<and> n \<le> length cs \<and>
        covered m (ms_allowed s) cs n) \<and> really_allowed m (ms_allowed s)"

lemma sent_released: "sent_covered m cs s \<Longrightarrow> released m cs s"
  unfolding sent_covered_def released_def replacement_of_def by (metis append_Nil2)

lemma release_one: "snd (release ok [c] out) = out \<or> snd (release ok [c] out) = out @ [c]"
  by simp

lemma released_replacement:
  assumes "sent_covered m cs s" and "ms_failed s \<noteq> None" and "replacement_of m [c]"
  shows "released m cs (s\<lparr>ms_out := snd (release ok [c] (ms_out s))\<rparr>)"
proof -
  from assms(1) obtain n where n: "ms_out s = take n cs" "n \<le> length cs" "covered m (ms_allowed s) cs n"
    and "really_allowed m (ms_allowed s)" by (auto simp: sent_covered_def)
  then show ?thesis
    using assms(2,3) replacement_of_def [of m "[]"]
    by (auto simp: released_def intro: exI [of _ n] exI [of _ "[]"] exI [of _ "[c]"])
qed

lemma mod_finish_released:
  assumes "holding m cs s" and "length (ms_chunks s) \<le> moderate_every m" and "mo_OutputRate m = None"
  shows "released m cs (mod_finish m ok s)"
proof -
  obtain alive s1 where step: "(if ms_failed s = None \<and> ms_chunks s \<noteq> [] then vet_block m ok s else (True, s)) = (alive, s1)"
    by fastforce
  then have sent: "sent_covered m cs s1"
    using vet_block_holding(1) [OF _ assms(1,3,2)] holding_sent [OF assms(1)] by (auto split: if_splits)
  show ?thesis
  proof (cases "\<not> alive \<or> ms_failed s1 = None \<or> ms_chunks s1 = []")
    case True
    then have "mod_finish m ok s = s1" using step by (auto simp: mod_finish_def split: list.splits)
    with sent show ?thesis by (simp add: sent_released)
  next
    case False
    then obtain c held where "ms_chunks s1 = c # held" by (cases "ms_chunks s1") auto
    then have "mod_finish m ok s = (case GetReplacementBody (mo_Adapter m) (ch_Body c) of
        Returned (Some b) \<Rightarrow> s1\<lparr>ms_out := snd (release ok [\<lparr>ch_Metadata = [], ch_Body = b\<rparr>] (ms_out s1))\<rparr> | _ \<Rightarrow> s1)"
      using step False unfolding mod_finish_def by (auto simp del: release.simps)
    with False sent show ?thesis
      by (auto simp: sent_released replacement_of_def intro!: released_replacement split: outcome.splits option.splits simp del: release.simps)
  qed
qed

lemma released_more:
  assumes "released m cs s"
  shows "released m (cs @ rest) s"
proof -
  from assms obtain n r where "ms_out s = take n cs @ r" "replacement_of m r" "r \<noteq> [] \<longrightarrow> ms_failed s \<noteq> None" "n \<le> length cs"
    "covered m (ms_allowed s) cs n" by (auto simp: released_def)
  then show ?thesis
    using assms covered_mono [of m "ms_allowed s" cs n "ms_allowed s" rest]
    by (auto simp: released_def intro!: exI [of _ n] exI [of _ r])
qed

lemma moderate_stream_released:
  fixes m :: "'a moderator"
  assumes "mo_OutputRate m = None" and "moderate_stream m ok rolls cs = s"
  shows "released m cs s"
proof -
  define s0 :: "'a mod_state" where "s0 = mod_init\<lparr>ms_rolls := rolls\<rparr>"
  obtain e s1 where loop: "mod_loop m ok cs s0 = (e, s1)" by fastforce
  have "holding m [] s0" "ms_count s0 = length (ms_chunks s0)" "length (ms_chunks s0) < moderate_every m" "ms_failed s0 = None"
    by (auto simp: s0_def mod_init_def holding_def stream_text_def last_runes_def covered_def really_allowed_def every_pos)
  from mod_loop_holding [OF loop this(1) assms(1) this(2-4), unfolded append_Nil] obtain k where
    k: "if e = Drained then holding m (take k cs) s1 \<and> length (ms_chunks s1) \<le> moderate_every m else sent_covered m (take k cs) s1"
    by blast
  show "released m cs s"
  proof (cases e)
    case Drained
    with k have h: "holding m (take k cs) s1" "length (ms_chunks s1) \<le> moderate_every m" by auto
    have s: "s = mod_finish m ok s1" using assms(2) loop Drained by (simp add: moderate_stream_def s0_def)
    show ?thesis using released_more [OF mod_finish_released [OF h assms(1)], of "drop k cs"] by (simp add: s)
  qed (use k assms(2) loop sent_covered_more [of m "take k cs" s1 "drop k cs"] sent_released [of m cs s1]
       in \<open>auto simp: moderate_stream_def s0_def\<close>)
qed

text \<open>Whatever the moderation service answers, however long the consumer stays and however the stream ends:
  with moderation of every text, the chunks that reach the consumer are the first chunks of the upstream's
  stream, unchanged and in order, possibly followed by one replacement from the adapter after moderation failed. Every
  chunk passed on lies in a beginning of the stream, at most a block longer, whose text, cut to its last
  \<open>MaxRuneLen\<close> runes and trimmed, was empty or allowed by the service.\<close>

theorem only_vetted_text_is_released:
  fixes m :: "'a moderator"
  assumes "mo_OutputRate m = None" and "moderate_stream m ok rolls cs = s"
  shows "\<exists>n r. ms_out s = take n cs @ r \<and> replacement_of m r \<and> (r \<noteq> [] \<longrightarrow> ms_failed s \<noteq> None) \<and> n \<le> length cs \<and>
    covered m (ms_allowed s) cs n \<and> really_allowed m (ms_allowed s)"
proof -
  have "released m cs s" by (rule moderate_stream_released [OF assms])
  then show ?thesis by (auto simp: released_def)
qed

definition demo_moderator :: "llm_value moderator" where
  "demo_moderator = \<lparr>mo_Allow = (\<lambda>n t. if length t < 5 then None else Some (Plain ''blocked'')), mo_MaxRuneLen = 100, mo_Rand = (\<lambda>n. 0),
     mo_Adapter = OpenAIAdapter \<lparr>oad_streaming = ''...'', oad_nonStreaming = ''...'', oad_finishReason = ''content_filter''\<rparr>,
     mo_ModerateInput = True, mo_ModerateOutput = True, mo_StreamEvery = 2, mo_InputRate = None, mo_OutputRate = None\<rparr>"

definition demo_talk :: "llm_value stream_chunk list" where
  "demo_talk = map (\<lambda>s. carrier (delta_chunk ''c1'' ''m'' '''' (say s))) [''ab'', ''cd'', ''ef'', ''gh'', ''ij'']"

theorem only_vetted_text_is_released_witness:
  "\<exists>n r. ms_out (moderate_stream demo_moderator (\<lambda>i. True) 0 demo_talk) = take n demo_talk @ r \<and> length r \<le> 1 \<and>
     covered demo_moderator (ms_allowed (moderate_stream demo_moderator (\<lambda>i. True) 0 demo_talk)) demo_talk n \<and>
     ms_allowed (moderate_stream demo_moderator (\<lambda>i. True) 0 demo_talk) = [[97, 98, 99, 100]]"
proof -
  let ?s = "moderate_stream demo_moderator (\<lambda>i. True) 0 demo_talk"
  have "ms_allowed ?s = [[97, 98, 99, 100]]"
    by (simp add: moderate_stream_def mod_init_def demo_moderator_def demo_talk_def moderate_every_def OpenAIAdapter_def openai_extract_def
      carrier_def Parsed_def NewBodyFromParsed_def delta_chunk_def say_def oa_msg_def message_text_def extractTextFromMessage_def
      content_string_def runes_def vet_block_def ask_def Let_def trimRune_def IsSpace_def last_runes_def moderationSampleHit_def
      mod_finish_def openai_replacement_def)
  then show ?thesis
    using only_vetted_text_is_released [of demo_moderator "\<lambda>i. True" 0 demo_talk ?s] replacement_length
    by (auto simp: demo_moderator_def)
qed

section \<open>Allowed text passes\<close>

definition readable :: "'v moderator \<Rightarrow> 'v stream_chunk \<Rightarrow> bool" where
  "readable m c \<longleftrightarrow> (\<exists>t. ExtractTextFromBody (mo_Adapter m) (ch_Body c) = Returned (Inr t))"

lemma release_all: "release (\<lambda>i. True) cs out = (True, out @ cs)"
  by (induction cs arbitrary: out) auto

lemma vet_block_allowed:
  assumes "\<forall>n t. mo_Allow m n t = None" and "vet_block m (\<lambda>i. True) s = (alive, s1)" and "ms_failed s = None"
  shows "alive \<and> ms_failed s1 = None \<and> ms_out s1 = ms_out s @ ms_chunks s \<and> ms_chunks s1 = []"
  using assms(2,3) by (auto simp: vet_block_def ask_def Let_def assms(1) release_all split: if_splits)

lemma mod_loop_allowed:
  assumes "\<forall>n t. mo_Allow m n t = None" and "list_all (readable m) cs" and "mod_loop m (\<lambda>i. True) cs s = (r, s1)"
    and "ms_failed s = None"
  shows "r = Drained \<and> ms_failed s1 = None \<and> ms_out s1 @ ms_chunks s1 = ms_out s @ ms_chunks s @ cs"
  using assms(2-)
proof (induction cs arbitrary: s)
  case (Cons c cs)
  from Cons.prems obtain t where t: "ExtractTextFromBody (mo_Adapter m) (ch_Body c) = Returned (Inr t)" by (auto simp: readable_def)
  define s2 where "s2 = s\<lparr>ms_text := last_runes (mo_MaxRuneLen m) (ms_text s @ t), ms_chunks := ms_chunks s @ [c], ms_count := Suc (ms_count s)\<rparr>"
  obtain alive s3 where vet: "vet_block m (\<lambda>i. True) s2 = (alive, s3)" by fastforce
  have "ms_failed s2 = None" using Cons.prems by (simp add: s2_def)
  note v = vet_block_allowed [OF assms(1) vet this]
  have "mod_loop m (\<lambda>i. True) (c # cs) s = mod_loop m (\<lambda>i. True) cs (if moderate_every m \<le> ms_count s2 then s3 else s2)"
    using t vet v by (simp add: s2_def Let_def)
  then show ?case
    using Cons.IH [of "if moderate_every m \<le> ms_count s2 then s3 else s2"] Cons.prems v by (auto simp: s2_def split: if_splits)
qed simp

text \<open>A service that objects to nothing changes nothing, whatever the block size and the sampling: the
  consumer that stays gets every chunk, in order.\<close>

theorem allowed_stream_passes:
  fixes m :: "'a moderator"
  assumes "\<forall>n t. mo_Allow m n t = None" and "list_all (readable m) cs"
  shows "ms_out (moderate_stream m (\<lambda>i. True) rolls cs) = cs \<and> ms_failed (moderate_stream m (\<lambda>i. True) rolls cs) = None"
proof -
  define s0 :: "'a mod_state" where "s0 = mod_init\<lparr>ms_rolls := rolls\<rparr>"
  obtain e s1 where loop: "mod_loop m (\<lambda>i. True) cs s0 = (e, s1)" by fastforce
  from mod_loop_allowed [OF assms loop] have s1: "e = Drained" "ms_failed s1 = None" "ms_out s1 @ ms_chunks s1 = cs"
    by (auto simp: s0_def mod_init_def)
  obtain alive s2 where vet: "vet_block m (\<lambda>i. True) s1 = (alive, s2)" by fastforce
  from vet_block_allowed [OF assms(1) vet s1(2)] s1 vet loop show ?thesis
    by (cases "ms_chunks s1 = []") (auto simp: moderate_stream_def mod_finish_def s0_def)
qed

end
