(* ===== verification/RepeatDetector.thy ===== *)
theory RepeatDetector
  imports Runes "HOL-Library.Sublist" "HOL-Library.Signed_Division"
begin

text \<open>
  \<open>pkg/engines/moderator/repeat_detector\<close>: a moderation service that objects to a text whose end
  repeats a pattern. The theorem says what the suffix comparison finds, against the definition of a
  repetition. Lengths and thresholds are integers; their products are assumed not to overflow.
\<close>

section \<open>The detector\<close>

text \<open>\<open>runes[k:]\<close> panics outside of the slice.\<close>

definition slice_from :: "int \<Rightarrow> 'a list \<Rightarrow> 'a list option" where
  "slice_from k xs = (if 0 \<le> k \<and> k \<le> int (length xs) then Some (drop (nat k) xs) else None)"

definition slice_to :: "int \<Rightarrow> 'a list \<Rightarrow> 'a list option" where
  "slice_to k xs = (if 0 \<le> k \<and> k \<le> int (length xs) then Some (take (nat k) xs) else None)"

fun runeSliceEqual :: "nat list \<Rightarrow> nat list \<Rightarrow> bool" where
  "runeSliceEqual [] [] \<longleftrightarrow> True"
| "runeSliceEqual (x # xs) (y # ys) \<longleftrightarrow> x = y \<and> runeSliceEqual xs ys"
| "runeSliceEqual _ _ \<longleftrightarrow> False"

text \<open>One round of the loop: whether the pattern length \<open>p\<close> is taken.\<close>

definition tail_repeats :: "nat list \<Rightarrow> int \<Rightarrow> int \<Rightarrow> bool outcome" where
  "tail_repeats rs thr p =
     (let n = int (length rs); total = thr * p
      in if n < total then Returned False
         else case slice_from (n - total) rs of
                None \<Rightarrow> Panicked
              | Some ending \<Rightarrow>
                  (case (slice_from p ending, slice_to (int (length ending) - p) ending) of
                     (Some a, Some b) \<Rightarrow> Returned (runeSliceEqual a b)
                   | _ \<Rightarrow> Panicked))"

function repeat_scan :: "nat list \<Rightarrow> int \<Rightarrow> int \<Rightarrow> int \<Rightarrow> nat list option outcome" where
  "repeat_scan rs thr most p =
     (if most < p then Returned None
      else case tail_repeats rs thr p of
             Panicked \<Rightarrow> Panicked
           | Returned True \<Rightarrow>
               (case slice_from (int (length rs) - p) rs of None \<Rightarrow> Panicked | Some w \<Rightarrow> Returned (Some w))
           | Returned False \<Rightarrow> repeat_scan rs thr most (p + 1))"
  by pat_completeness auto
termination by (relation "measure (\<lambda>(rs, thr, most, p). nat (most + 1 - p))") auto

declare repeat_scan.simps [simp del]

definition extractRepeatPattern :: "nat list \<Rightarrow> int \<Rightarrow> int \<Rightarrow> int \<Rightarrow> (nat list \<times> int \<times> bool) outcome" where
  "extractRepeatPattern rs minLen maxLen thr =
     (let n = int (length rs)
      in if n < minLen * thr then Returned ([], 0, False)
         else if thr = 0 then Panicked
         else
           let bound = n sdiv thr;
               most = (if 0 < maxLen \<and> maxLen < bound then maxLen else bound)
           in case repeat_scan rs thr most minLen of
                Panicked \<Rightarrow> Panicked
              | Returned None \<Rightarrow> Returned ([], 0, False)
              | Returned (Some w) \<Rightarrow> Returned (w, thr, True))"

text \<open>\<open>ExtractRepeatPattern\<close> on the runes of the text.\<close>

definition ExtractRepeatPattern :: "nat list \<Rightarrow> int \<Rightarrow> int \<Rightarrow> int \<Rightarrow> (nat list \<times> int \<times> bool) outcome" where
  "ExtractRepeatPattern txt minLen maxLen thr =
     (let rs = trimRune txt
      in if int (length rs) < minLen * thr then Returned ([], 0, False)
         else extractRepeatPattern rs minLen maxLen thr)"

section \<open>The service\<close>

record repeat_config =
  MinRepeatLen :: int
  MaxRepeatLen :: int
  RepeatThreshold :: int
  BlockOnDetect :: bool

definition DefaultRepeatDetectorConfig :: repeat_config where
  "DefaultRepeatDetectorConfig = \<lparr>MinRepeatLen = 1, MaxRepeatLen = 5, RepeatThreshold = 50, BlockOnDetect = False\<rparr>"

definition NewRepeatDetectorService :: "repeat_config option \<Rightarrow> repeat_config" where
  "NewRepeatDetectorService c = (case c of None \<Rightarrow> DefaultRepeatDetectorConfig | Some x \<Rightarrow> x)"

abbreviation ErrModerationBlocked :: err where "ErrModerationBlocked \<equiv> Sentinel ''ErrModerationBlocked''"

definition repeat_Allow :: "repeat_config \<Rightarrow> nat list \<Rightarrow> err option outcome" where
  "repeat_Allow c txt =
     (case ExtractRepeatPattern txt (MinRepeatLen c) (MaxRepeatLen c) (RepeatThreshold c) of
        Panicked \<Rightarrow> Panicked
      | Returned (pat, cnt, found) \<Rightarrow>
          Returned (if found \<and> BlockOnDetect c then Some (Wrap ''repeat pattern'' [ErrModerationBlocked]) else None))"

definition repeat_MaxRuneLen :: nat where
  "repeat_MaxRuneLen = 2000"

section \<open>What is found\<close>

lemma runeSliceEqual_eq: "runeSliceEqual xs ys \<longleftrightarrow> xs = ys"
  by (induction xs ys rule: runeSliceEqual.induct) auto

text \<open>A list that equals itself shifted by \<open>p\<close> is a power of its last \<open>p\<close> elements.\<close>

lemma shifted_power:
  assumes "length xs = t * p" and "drop p xs = take (length xs - p) xs" and "0 < t"
  shows "xs = concat (replicate t (drop (length xs - p) xs))"
  using assms
proof (induction t arbitrary: xs)
  case (Suc t)
  show ?case
  proof (cases t)
    case 0
    with Suc.prems show ?thesis by simp
  next
    case (Suc t')
    define w ys where "w = take p xs" and "ys = drop p xs"
    have len: "length ys = t * p" "length w = p" using Suc.prems(1) Suc by (simp_all add: w_def ys_def)
    have xs: "xs = w @ ys" by (simp add: w_def ys_def)
    have shift: "ys = take (t * p) (w @ ys)" using Suc.prems(1,2) by (simp add: xs len)
    have ys0: "take p ys = w"
    proof -
      have "take p ys = take p (take (t * p) (w @ ys))" using shift by simp
      also have "\<dots> = w" using Suc len by (simp add: min_def)
      finally show ?thesis .
    qed
    have "drop p ys = drop p (take (t * p) (w @ ys))" using shift by simp
    also have "\<dots> = take (t * p - p) (drop p (w @ ys))" by (rule drop_take)
    also have "\<dots> = take (length ys - p) ys" using len by simp
    finally have "ys = concat (replicate t (drop (length ys - p) ys))"
      using Suc.IH [of ys] len Suc by simp
    moreover define v where "v = drop (length ys - p) ys"
    ultimately have ys: "ys = concat (replicate t v)" by simp
    have lv: "length v = p" using len Suc by (simp add: v_def)
    have "w = v" using ys0 ys Suc lv by simp
    moreover have "drop (length xs - p) xs = v" using len Suc by (simp add: xs v_def)
    ultimately show ?thesis using ys by (simp add: xs)
  qed
qed simp

lemma power_shifted:
  assumes "xs = concat (replicate t w)"
  shows "drop (length w) xs = take (length xs - length w) xs"
proof (cases t)
  case (Suc t')
  have "w @ concat (replicate t' w) = concat (replicate t' w) @ w"
    by (induction t') simp_all
  then have xs: "xs = w @ concat (replicate t' w)" "xs = concat (replicate t' w) @ w" using assms Suc by simp_all
  have "drop (length w) xs = concat (replicate t' w)" unfolding xs(1) by simp
  moreover have "take (length xs - length w) xs = concat (replicate t' w)" unfolding xs(2) by simp
  ultimately show ?thesis by simp
qed (use assms in simp)

lemma length_power: "length (concat (replicate t w)) = t * length w"
  by (induction t) auto

text \<open>The end of a list is a power of its last \<open>p\<close> elements.\<close>

definition repeats :: "nat list \<Rightarrow> nat \<Rightarrow> nat \<Rightarrow> bool" where
  "repeats rs t p \<longleftrightarrow> t * p \<le> length rs \<and> drop (length rs - t * p) rs = concat (replicate t (drop (length rs - p) rs))"

lemma tail_repeats_iff:
  assumes "0 < t"
  shows "tail_repeats rs (int t) (int p) = Returned (repeats rs t p)"
proof (cases "t * p \<le> length rs")
  case True
  define ending where "ending = drop (length rs - t * p) rs"
  have len: "length ending = t * p" using True by (simp add: ending_def)
  have p: "p \<le> t * p" using assms by simp
  have last: "drop (length ending - p) ending = drop (length rs - p) rs"
    using True p by (simp add: ending_def)
  have "int (length rs) - int t * int p = int (length rs - t * p)" using True by (simp add: of_nat_diff)
  then have 1: "slice_from (int (length rs) - int t * int p) rs = Some ending" by (simp add: slice_from_def ending_def)
  have p_len: "p \<le> length ending" using p len by simp
  have 2: "slice_from (int p) ending = Some (drop p ending)" "slice_to (int (length ending) - int p) ending = Some (take (length ending - p) ending)"
    using p_len by (simp_all add: slice_from_def slice_to_def nat_diff_distrib)
  have "tail_repeats rs (int t) (int p) = Returned (drop p ending = take (length ending - p) ending)"
    using True by (simp add: tail_repeats_def Let_def 1 [folded of_nat_mult] 2 runeSliceEqual_eq flip: of_nat_mult)
  also have "(drop p ending = take (length ending - p) ending) \<longleftrightarrow> ending = concat (replicate t (drop (length ending - p) ending))"
    using shifted_power [of ending t p] power_shifted [of ending t "drop (length ending - p) ending"] assms len p by auto
  finally show ?thesis unfolding last repeats_def ending_def [symmetric] using True by simp
next
  case False
  then show ?thesis by (simp add: tail_repeats_def repeats_def Let_def flip: of_nat_mult)
qed

lemma repeats_suffix:
  assumes "0 < t" and "0 < p"
  shows "repeats rs t p \<longleftrightarrow> (\<exists>w. length w = p \<and> suffix (concat (replicate t w)) rs)"
proof
  assume r: "repeats rs t p"
  have "p \<le> t * p" using assms by simp
  also have "\<dots> \<le> length rs" using r by (simp add: repeats_def)
  finally have "length (drop (length rs - p) rs) = p" by simp
  with r show "\<exists>w. length w = p \<and> suffix (concat (replicate t w)) rs"
    by (metis repeats_def suffix_drop)
next
  assume "\<exists>w. length w = p \<and> suffix (concat (replicate t w)) rs"
  then obtain w ys where w: "length w = p" "rs = ys @ concat (replicate t w)" by (auto simp: suffix_def)
  obtain t' where t: "t = Suc t'" using assms by (cases t) auto
  have "concat (replicate t w) = concat (replicate t' w) @ w" unfolding t by (induction t') auto
  with w show "repeats rs t p" by (simp add: repeats_def length_power t)
qed

lemma suffix_power_last:
  assumes "0 < t" and "suffix (concat (replicate t w)) rs"
  shows "drop (length rs - length w) rs = w"
proof -
  obtain t' where t: "t = Suc t'" using assms by (cases t) auto
  have "concat (replicate t w) = concat (replicate t' w) @ w" unfolding t by (induction t') auto
  with assms(2) show ?thesis by (auto simp: suffix_def)
qed

text \<open>The scan takes the first length that repeats.\<close>

lemma repeat_scan_spec:
  assumes "0 < t" and "0 < p"
  shows "(\<exists>q\<ge>p. int q \<le> most \<and> repeats rs t q \<and> (\<forall>q'. p \<le> q' \<longrightarrow> q' < q \<longrightarrow> \<not> repeats rs t q') \<and>
            repeat_scan rs (int t) most (int p) = Returned (Some (drop (length rs - q) rs))) \<or>
         (\<forall>q. p \<le> q \<longrightarrow> int q \<le> most \<longrightarrow> \<not> repeats rs t q) \<and> repeat_scan rs (int t) most (int p) = Returned None"
  using assms(2)
proof (induction "nat (most + 1 - int p)" arbitrary: p rule: less_induct)
  case less
  show ?case
  proof (cases "most < int p")
    case True
    then have "repeat_scan rs (int t) most (int p) = Returned None" by (subst repeat_scan.simps) simp
    then show ?thesis using True by (auto intro!: disjI2)
  next
    case False
    show ?thesis
    proof (cases "repeats rs t p")
      case True
      have "p \<le> length rs" using True assms(1) by (auto simp: repeats_def intro: le_trans [of p "t * p"])
      then have "slice_from (int (length rs) - int p) rs = Some (drop (length rs - p) rs)"
        by (simp add: slice_from_def nat_diff_distrib)
      then have "repeat_scan rs (int t) most (int p) = Returned (Some (drop (length rs - p) rs))"
        using False True tail_repeats_iff [OF assms(1)] by (subst repeat_scan.simps) simp
      then show ?thesis using False True by (intro disjI1 exI [of _ p]) auto
    next
      case no: False
      then have step: "repeat_scan rs (int t) most (int p) = repeat_scan rs (int t) most (int (Suc p))"
        using False tail_repeats_iff [OF assms(1)] by (subst repeat_scan.simps) (simp add: add.commute)
      from less.hyps [of "Suc p"] False
      have "(\<exists>q\<ge>Suc p. int q \<le> most \<and> repeats rs t q \<and> (\<forall>q'. Suc p \<le> q' \<longrightarrow> q' < q \<longrightarrow> \<not> repeats rs t q') \<and>
            repeat_scan rs (int t) most (int (Suc p)) = Returned (Some (drop (length rs - q) rs))) \<or>
         (\<forall>q. Suc p \<le> q \<longrightarrow> int q \<le> most \<longrightarrow> \<not> repeats rs t q) \<and> repeat_scan rs (int t) most (int (Suc p)) = Returned None"
        by simp
      then show ?thesis unfolding step using no by (metis Suc_leD Suc_leI le_neq_implies_less)
    qed
  qed
qed

text \<open>A text repeats \<open>w\<close> when it ends with \<open>w\<close> written \<open>thr\<close> times, and \<open>w\<close> has an admissible length.\<close>

definition repetition :: "nat list \<Rightarrow> int \<Rightarrow> int \<Rightarrow> int \<Rightarrow> nat list \<Rightarrow> bool" where
  "repetition rs minLen maxLen thr w \<longleftrightarrow>
     minLen \<le> int (length w) \<and> (0 < maxLen \<longrightarrow> int (length w) \<le> maxLen) \<and> suffix (concat (replicate (nat thr) w)) rs"

definition pattern_length :: "nat list \<Rightarrow> int \<Rightarrow> nat \<Rightarrow> nat \<Rightarrow> nat \<Rightarrow> bool" where
  "pattern_length rs maxLen t q0 q \<longleftrightarrow> q0 \<le> q \<and> (0 < maxLen \<longrightarrow> int q \<le> maxLen) \<and> repeats rs t q"

lemma repetition_repeats:
  assumes "0 < t" and "0 < q"
  shows "(\<exists>w. length w = q \<and> repetition rs (int q0) maxLen (int t) w) \<longleftrightarrow>
    pattern_length rs maxLen t q0 q"
  unfolding pattern_length_def repeats_suffix [OF assms] by (auto simp: repetition_def)

lemma repeats_bound:
  assumes "0 < t" and "repeats rs t q"
  shows "int q \<le> int (length rs) sdiv int t"
proof -
  have "q * t \<le> length rs" using assms(2) by (simp add: repeats_def mult.commute)
  then have "q \<le> length rs div t" using assms(1) by (simp add: less_eq_div_iff_mult_less_eq)
  then show ?thesis using assms(1) by (cases "rs = []") (simp_all add: signed_divide_int_def sgn_if zdiv_int [symmetric])
qed

lemma extract_spec:
  assumes "0 < t" and "0 < q0"
  shows "(\<exists>q. pattern_length rs maxLen t q0 q \<and> (\<forall>q'. pattern_length rs maxLen t q0 q' \<longrightarrow> q \<le> q') \<and>
            extractRepeatPattern rs (int q0) maxLen (int t) = Returned (drop (length rs - q) rs, int t, True)) \<or>
         (\<forall>q. \<not> pattern_length rs maxLen t q0 q) \<and> extractRepeatPattern rs (int q0) maxLen (int t) = Returned ([], 0, False)"
proof (cases "int (length rs) < int q0 * int t")
  case True
  have "\<not> pattern_length rs maxLen t q0 q" for q
  proof
    assume "pattern_length rs maxLen t q0 q"
    then have "t * q \<le> length rs" "q0 * t \<le> q * t" by (auto simp: pattern_length_def repeats_def)
    with True show False by (simp add: mult.commute flip: of_nat_mult)
  qed
  with True show ?thesis by (simp add: extractRepeatPattern_def)
next
  case False
  define bound most where "bound = int (length rs) sdiv int t" and "most = (if 0 < maxLen \<and> maxLen < bound then maxLen else bound)"
  have found: "pattern_length rs maxLen t q0 q \<longleftrightarrow> q0 \<le> q \<and> int q \<le> most \<and> repeats rs t q" for q
    using repeats_bound [OF assms(1), of rs q] by (auto simp: pattern_length_def most_def bound_def)
  have ex: "extractRepeatPattern rs (int q0) maxLen (int t) =
      (case repeat_scan rs (int t) most (int q0) of Panicked \<Rightarrow> Panicked
        | Returned None \<Rightarrow> Returned ([], 0, False) | Returned (Some w) \<Rightarrow> Returned (w, int t, True))"
    using False assms(1) by (simp add: extractRepeatPattern_def Let_def most_def bound_def)
  from repeat_scan_spec [OF assms(1,2), of most rs] show ?thesis
    unfolding ex found by (elim disjE exE conjE) (force simp: not_le, simp)
qed

text \<open>C23: For admissible parameters the detector never panics, and it reports exactly the shortest
  repetition at the end of the trimmed text: a pattern whose length lies between \<open>MinRepeatLen\<close> and
  \<open>MaxRepeatLen\<close> (unless that is not positive), written \<open>RepeatThreshold\<close> times in a row. The comparison of the
  end of the text with itself, shifted by one pattern, finds every such repetition and nothing else.\<close>

theorem repetition_is_found:
  assumes "0 < minLen" and "0 < thr"
  shows "if \<exists>v. repetition (trimRune txt) minLen maxLen thr v
    then \<exists>w. ExtractRepeatPattern txt minLen maxLen thr = Returned (w, thr, True) \<and> repetition (trimRune txt) minLen maxLen thr w \<and>
      (\<forall>v. repetition (trimRune txt) minLen maxLen thr v \<longrightarrow> length w \<le> length v)
    else ExtractRepeatPattern txt minLen maxLen thr = Returned ([], 0, False)"
proof -
  define rs t q0 where "rs = trimRune txt" and "t = nat thr" and "q0 = nat minLen"
  have eq: "thr = int t" "minLen = int q0" and pos: "0 < t" "0 < q0" using assms by (simp_all add: t_def q0_def)
  have run: "ExtractRepeatPattern txt minLen maxLen thr = extractRepeatPattern rs (int q0) maxLen (int t)"
    by (simp add: ExtractRepeatPattern_def extractRepeatPattern_def rs_def eq Let_def)
  have rep: "(\<exists>w. length w = q \<and> repetition rs minLen maxLen thr w) \<longleftrightarrow> pattern_length rs maxLen t q0 q" if "q0 \<le> q" for q
    unfolding eq using repetition_repeats [OF pos(1)] pos(2) that by auto
  have long: "q0 \<le> length v" if "repetition rs minLen maxLen thr v" for v
    using that by (simp add: repetition_def eq)
  from extract_spec [OF pos, where rs = rs and maxLen = maxLen] show ?thesis
  proof (elim disjE exE conjE)
    fix q assume q: "pattern_length rs maxLen t q0 q" "\<forall>q'. pattern_length rs maxLen t q0 q' \<longrightarrow> q \<le> q'"
      and ex: "extractRepeatPattern rs (int q0) maxLen (int t) = Returned (drop (length rs - q) rs, int t, True)"
    obtain w where w: "length w = q" "repetition rs minLen maxLen thr w" using rep q(1) by (auto simp: pattern_length_def)
    have "drop (length rs - q) rs = w"
      using suffix_power_last [OF pos(1), of w rs] w by (simp add: repetition_def eq)
    moreover have "length w \<le> length v" if "repetition rs minLen maxLen thr v" for v
      using rep [OF long [OF that]] that q(2) w(1) by auto
    ultimately show ?thesis using w ex by (auto simp: run rs_def [symmetric] eq [symmetric])
  next
    assume "\<forall>q. \<not> pattern_length rs maxLen t q0 q" "extractRepeatPattern rs (int q0) maxLen (int t) = Returned ([], 0, False)"
    then show ?thesis using rep long by (auto simp: run rs_def [symmetric] eq [symmetric])
  qed
qed

theorem repetition_is_found_witness:
  "\<exists>w. ExtractRepeatPattern (runes ''well haha '') 1 5 2 = Returned (w, 2, True) \<and> length w \<le> 2 \<and>
     repetition (runes ''well haha'') 1 5 2 w"
proof -
  have t: "trimRune (runes ''well haha '') = runes ''well haha''"
    by (simp add: runes_def trimRune_def IsSpace_def)
  have "repetition (runes ''well haha'') 1 5 2 (runes ''ha'')"
    by (simp add: repetition_def runes_def suffix_def numeral_2_eq_2)
  moreover have "length (runes ''ha'') = 2" by (simp add: runes_def)
  ultimately show ?thesis
    using repetition_is_found [of 1 2 "runes ''well haha ''" 5] unfolding t by (metis zero_less_numeral zero_less_one)
qed

text \<open>Without a minimal length there is no text that the detector lets pass: the empty pattern repeats at
  its end.\<close>

lemma empty_pattern_repeats:
  assumes "0 < thr"
  shows "ExtractRepeatPattern txt 0 maxLen thr = Returned ([], thr, True)"
proof -
  define rs where "rs = trimRune txt"
  obtain t where t: "thr = int t" "0 < t" using assms by (cases thr) auto
  have "0 \<le> int (length rs) sdiv thr" using assms by (simp add: signed_divide_int_def sgn_if pos_imp_zdiv_nonneg_iff)
  moreover have "repeats rs t 0" by (simp add: repeats_def)
  ultimately have "repeat_scan rs thr (if 0 < maxLen \<and> maxLen < int (length rs) sdiv thr then maxLen else int (length rs) sdiv thr) 0
      = Returned (Some [])"
    using tail_repeats_iff [OF t(2), of rs 0] t(1) by (subst repeat_scan.simps) (simp add: slice_from_def)
  then show ?thesis using assms by (simp add: ExtractRepeatPattern_def extractRepeatPattern_def rs_def [symmetric] Let_def)
qed

lemma zero_threshold_panics: "ExtractRepeatPattern txt minLen maxLen 0 = Panicked"
  by (simp add: ExtractRepeatPattern_def extractRepeatPattern_def)

end
