(* ===== verification/Features.thy ===== *)
theory Features
  imports Converter Runes "HOL-Library.Word" "HOL-Library.Sublist"
begin

text \<open>
  \<open>pkg/engines/rule-engine/simple_features.go\<close>: what rules and shard keys may ask about the messages of a
  request. The hashes of the first five messages identify a conversation; the theorems say that they
  grow with it and when they survive the conversion between protocols.
\<close>

section \<open>FNV-1a\<close>

definition fnv_init :: "32 word" where
  "fnv_init = 2166136261"

definition fnv_byte :: "char \<Rightarrow> 32 word \<Rightarrow> 32 word" where
  "fnv_byte c h = xor h (word_of_nat (of_char c)) * 16777619"

definition fnv_write :: "string \<Rightarrow> 32 word \<Rightarrow> 32 word" where
  "fnv_write s h = fold fnv_byte s h"

text \<open>\<open>%08x\<close>.\<close>

definition hex8 :: "32 word \<Rightarrow> string" where
  "hex8 w = map (\<lambda>i. hex_digit (unat w div 16 ^ i mod 16)) [7, 6, 5, 4, 3, 2, 1, 0]"

section \<open>Texts of messages\<close>

text \<open>\<open>strings.TrimSpace(s) == ""\<close>.\<close>

definition blank :: "string \<Rightarrow> bool" where
  "blank s \<longleftrightarrow> trimRune (runes s) = []"

definition combinedTextForChatCompletionsMessage :: "oa_message \<Rightarrow> string" where
  "combinedTextForChatCompletionsMessage m = content_string (m_Content m)"

definition combinedTextForAnthropicMessage :: "claude_message \<Rightarrow> string" where
  "combinedTextForAnthropicMessage m = (case cm_Content m of None \<Rightarrow> '''' | Some c \<Rightarrow> content_text c)"

definition checkIsAnthropicBillingHead :: "string \<Rightarrow> bool" where
  "checkIsAnthropicBillingHead s \<longleftrightarrow> take (length billing_header) s = billing_header"

definition anthropicSystemText :: "claude_system option \<Rightarrow> string list" where
  "anthropicSystemText sys =
     (case sys of
        None \<Rightarrow> []
      | Some (SystemString s) \<Rightarrow> [s]
      | Some (SystemBlocks bs) \<Rightarrow> (case bs of b # rest \<Rightarrow> if checkIsAnthropicBillingHead b then rest else bs | [] \<Rightarrow> []))"

text \<open>The runes of the first message, trimmed. A nil first message panics.\<close>

definition anthropicFirstMessageText :: "claude_request \<Rightarrow> nat list outcome" where
  "anthropicFirstMessageText q =
     (let sysTxt = trimRune (runes (concat (anthropicSystemText (rq_System q))))
      in if sysTxt \<noteq> [] then Returned sysTxt
         else case rq_Messages q of
                [] \<Rightarrow> Returned []
              | None # _ \<Rightarrow> Panicked
              | Some m # _ \<Rightarrow> Returned (trimRune (runes (combinedTextForAnthropicMessage m))))"

fun first_tool_input :: "claude_block option list \<Rightarrow> string" where
  "first_tool_input [] = ''''"
| "first_tool_input (b # bs) = (case b of Some (ToolUseBlock i n inp) \<Rightarrow> inp | _ \<Rightarrow> first_tool_input bs)"

definition anthropicMessageTextForHash :: "claude_message \<Rightarrow> string" where
  "anthropicMessageTextForHash m =
     (let txt = combinedTextForAnthropicMessage m
      in if \<not> blank txt then txt
         else case cm_Content m of Some (ContentBlocks bs) \<Rightarrow> first_tool_input bs | _ \<Rightarrow> '''')"

definition messageTextForHash :: "oa_message \<Rightarrow> string" where
  "messageTextForHash m =
     (let txt = combinedTextForChatCompletionsMessage m
      in if \<not> blank txt then txt
         else case m_ToolCalls m of
                Some t # _ \<Rightarrow> (case tc_Function t of Some f \<Rightarrow> fn_Arguments f | None \<Rightarrow> '''')
              | _ \<Rightarrow> '''')"

section \<open>Hashes of the first five messages\<close>

text \<open>The state of the hasher and the hashes so far.\<close>

definition hash_text :: "string \<Rightarrow> 32 word \<times> string list \<Rightarrow> 32 word \<times> string list" where
  "hash_text txt s = (let h = fnv_write (take 100 txt) (fst s) in (h, snd s @ [hex8 h]))"

fun message_hashes :: "oa_message option list \<Rightarrow> 32 word \<times> string list \<Rightarrow> 32 word \<times> string list" where
  "message_hashes [] s = s"
| "message_hashes (m # ms) s =
     (if 5 \<le> length (snd s) then s
      else case m of
             None \<Rightarrow> message_hashes ms s
           | Some x \<Rightarrow>
               let txt = messageTextForHash x
               in if txt = '''' then message_hashes ms s else message_hashes ms (hash_text txt s))"

definition computeMessage5Hashes :: "oa_message option list \<Rightarrow> string list" where
  "computeMessage5Hashes ms = snd (message_hashes ms (fnv_init, []))"

definition hashOne :: "string \<Rightarrow> 32 word \<times> string list \<Rightarrow> 32 word \<times> string list" where
  "hashOne txt s = (if 5 \<le> length (snd s) \<or> blank txt then s else hash_text txt s)"

fun anthropic_hashes :: "claude_message option list \<Rightarrow> 32 word \<times> string list \<Rightarrow> 32 word \<times> string list" where
  "anthropic_hashes [] s = s"
| "anthropic_hashes (m # ms) s =
     (if 5 \<le> length (snd s) then s
      else case m of
             None \<Rightarrow> anthropic_hashes ms s
           | Some x \<Rightarrow> anthropic_hashes ms (hashOne (anthropicMessageTextForHash x) s))"

definition computeAnthropicMessage5Hashes :: "claude_system option \<Rightarrow> claude_message option list \<Rightarrow> string list" where
  "computeAnthropicMessage5Hashes sys ms = snd (anthropic_hashes ms (fold hashOne (anthropicSystemText sys) (fnv_init, [])))"

section \<open>Extractors\<close>

datatype extractor = PromptTextLenExtractor | PrefixHashExtractor int | SuffixHashExtractor int
  | Message5HashExtractor | Message5HashArrayExtractor

datatype feature = FeatureInt nat | FeatureString string | FeatureStrings "string list"

fun join_with :: "string \<Rightarrow> string list \<Rightarrow> string" where
  "join_with sep [] = ''''"
| "join_with sep [x] = x"
| "join_with sep (x # xs) = x @ sep @ join_with sep xs"

text \<open>\<open>prefix[:l]\<close> and \<open>suffix[len(suffix)-l:]\<close> of longer texts; a negative length panics.\<close>

definition prefix_runes :: "int \<Rightarrow> nat list \<Rightarrow> nat list outcome" where
  "prefix_runes l rs = (if l < int (length rs) then if l < 0 then Panicked else Returned (take (nat l) rs) else Returned rs)"

definition suffix_runes :: "int \<Rightarrow> nat list \<Rightarrow> nat list outcome" where
  "suffix_runes l rs = (if l < int (length rs) then if l < 0 then Panicked else Returned (drop (length rs - nat l) rs) else Returned rs)"

definition model_hash :: "string \<Rightarrow> nat list outcome \<Rightarrow> (err + feature) outcome" where
  "model_hash model part =
     (case part of
        Panicked \<Rightarrow> Panicked
      | Returned rs \<Rightarrow> Returned (Inr (FeatureString (hex8 (fnv_write (encode_runes rs) (fnv_write model fnv_init))))))"

definition affix_hash :: "(nat list \<Rightarrow> nat list outcome) \<Rightarrow> llm_value \<Rightarrow> (err + feature) outcome" where
  "affix_hash part v =
     (case v of
        ChatRequestV q \<Rightarrow>
          (case q_Messages q of
             [] \<Rightarrow> Returned (Inr (FeatureString ''''))
           | m # _ \<Rightarrow> model_hash (q_Model q) (part (trimRune (runes (combinedTextForChatCompletionsMessage m)))))
      | ClaudeRequestV q \<Rightarrow>
          (case anthropicFirstMessageText q of
             Panicked \<Rightarrow> Panicked
           | Returned [] \<Rightarrow> Returned (Inr (FeatureString ''''))
           | Returned rs \<Rightarrow> model_hash (rq_Model q) (part rs))
      | _ \<Rightarrow> Returned (Inl (Plain ''unsupported request body type'')))"

fun claude_text_len :: "claude_message option list \<Rightarrow> nat outcome" where
  "claude_text_len [] = Returned 0"
| "claude_text_len (None # ms) = Panicked"
| "claude_text_len (Some m # ms) =
     (case claude_text_len ms of
        Panicked \<Rightarrow> Panicked
      | Returned n \<Rightarrow> Returned (length (runes (combinedTextForAnthropicMessage m)) + n))"

definition text_len :: "llm_value \<Rightarrow> (err + feature) outcome" where
  "text_len v =
     (case v of
        ChatRequestV q \<Rightarrow>
          Returned (Inr (FeatureInt (sum_list (map (\<lambda>m. length (runes (combinedTextForChatCompletionsMessage m))) (q_Messages q)))))
      | ClaudeRequestV q \<Rightarrow>
          (case claude_text_len (rq_Messages q) of
             Panicked \<Rightarrow> Panicked
           | Returned n \<Rightarrow> Returned (Inr (FeatureInt (sum_list (map (\<lambda>s. length (runes s)) (anthropicSystemText (rq_System q))) + n))))
      | _ \<Rightarrow> Returned (Inl (Plain ''unsupported request body type'')))"

definition five_hashes :: "(string list \<Rightarrow> feature) \<Rightarrow> llm_value \<Rightarrow> (err + feature) outcome" where
  "five_hashes mk v =
     (case v of
        ChatRequestV q \<Rightarrow> Returned (Inr (mk (computeMessage5Hashes (map Some (q_Messages q)))))
      | ClaudeRequestV q \<Rightarrow> Returned (Inr (mk (computeAnthropicMessage5Hashes (rq_System q) (rq_Messages q))))
      | _ \<Rightarrow> Returned (Inl (Plain ''unsupported request body type'')))"

fun extract_value :: "extractor \<Rightarrow> llm_value \<Rightarrow> (err + feature) outcome" where
  "extract_value PromptTextLenExtractor v = text_len v"
| "extract_value (PrefixHashExtractor l) v = affix_hash (prefix_runes l) v"
| "extract_value (SuffixHashExtractor l) v = affix_hash (suffix_runes l) v"
| "extract_value Message5HashExtractor v = five_hashes (\<lambda>hs. FeatureString (join_with ''-'' hs)) v"
| "extract_value Message5HashArrayExtractor v = five_hashes FeatureStrings v"

definition Features :: "extractor \<Rightarrow> llm_value body \<Rightarrow> (err + feature) outcome \<times> llm_value body" where
  "Features x b =
     (case Parsed b of
        (Panicked, b1) \<Rightarrow> (Panicked, b1)
      | (Returned (v, Some e), b1) \<Rightarrow> (Returned (Inl (Wrap ''parse request body failed'' [e])), b1)
      | (Returned (None, None), b1) \<Rightarrow> (Returned (Inl (Plain ''unsupported request body type'')), b1)
      | (Returned (Some v, None), b1) \<Rightarrow> (extract_value x v, b1))"

section \<open>Hashes as a function of the texts\<close>

fun cumulative :: "32 word \<Rightarrow> string list \<Rightarrow> string list" where
  "cumulative h [] = []"
| "cumulative h (t # ts) = (let h1 = fnv_write (take 100 t) h in hex8 h1 # cumulative h1 ts)"

definition somes :: "'a option list \<Rightarrow> 'a list" where
  "somes xs = concat (map (\<lambda>x. case x of None \<Rightarrow> [] | Some y \<Rightarrow> [y]) xs)"

lemma somes_simps [simp]: "somes [] = []" "somes (None # xs) = somes xs" "somes (Some x # xs) = x # somes xs"
  "somes (xs @ ys) = somes xs @ somes ys" "somes (map Some zs) = zs"
  by (simp_all add: somes_def comp_def)

definition openai_texts :: "oa_message list \<Rightarrow> string list" where
  "openai_texts ms = filter (\<lambda>t. t \<noteq> '''') (map messageTextForHash ms)"

definition claude_texts :: "claude_system option \<Rightarrow> claude_message list \<Rightarrow> string list" where
  "claude_texts sys ms = filter (\<lambda>t. \<not> blank t) (anthropicSystemText sys @ map anthropicMessageTextForHash ms)"

lemma length_cumulative [simp]: "length (cumulative h ts) = length ts"
  by (induction h ts rule: cumulative.induct) (simp_all add: Let_def)

lemma prefix_cumulative: "prefix xs ys \<Longrightarrow> prefix (cumulative h xs) (cumulative h ys)"
proof (induction h xs arbitrary: ys rule: cumulative.induct)
  case (2 h t ts)
  then show ?case by (cases ys) (auto simp: Let_def)
qed simp

lemma prefix_take_filter: "prefix (take n (filter P xs)) (take n (filter P (xs @ ys)))"
  by simp

lemma hex8_length: "h \<in> set (cumulative w ts) \<Longrightarrow> length h = 8"
  by (induction w ts rule: cumulative.induct) (auto simp: Let_def hex8_def)

text \<open>Hashing a list of texts, with the guard on the number of hashes.\<close>

definition hash_some :: "string list \<Rightarrow> 32 word \<times> string list \<Rightarrow> 32 word \<times> string list" where
  "hash_some ts s = fold hash_text (take (5 - length (snd s)) ts) s"

lemma hash_some_simps [simp]:
  "hash_some [] s = s" "5 \<le> length (snd s) \<Longrightarrow> hash_some ts s = s"
  "length (snd s) < 5 \<Longrightarrow> hash_some (t # ts) s = hash_some ts (hash_text t s)"
  by (simp_all add: hash_some_def hash_text_def Let_def take_Cons' Suc_diff_Suc)

lemma hash_some_append: "hash_some (xs @ ys) s = hash_some ys (hash_some xs s)"
proof (induction xs arbitrary: s)
  case (Cons x xs)
  then show ?case by (cases "length (snd s) < 5") simp_all
qed simp

lemma snd_hash_some: "length hs \<le> 5 \<Longrightarrow> snd (hash_some ts (h, hs)) = hs @ cumulative h (take (5 - length hs) ts)"
proof (induction ts arbitrary: h hs)
  case (Cons t ts)
  show ?case
  proof (cases "length hs < 5")
    case True
    with Cons show ?thesis by (simp add: hash_text_def Let_def take_Cons' Suc_diff_Suc)
  qed (use Cons.prems in simp)
qed simp

lemma message_hashes_some: "message_hashes ms s = hash_some (openai_texts (somes ms)) s"
proof (induction ms s rule: message_hashes.induct)
  case (2 m ms s)
  then show ?case
    by (cases "length (snd s) < 5"; cases m) (auto simp: openai_texts_def Let_def not_less)
qed (simp add: openai_texts_def)

lemma hashOne_some: "hashOne t s = hash_some (filter (\<lambda>t. \<not> blank t) [t]) s"
  by (cases "length (snd s) < 5") (auto simp: hashOne_def)

lemma fold_hashOne_some: "fold hashOne ts s = hash_some (filter (\<lambda>t. \<not> blank t) ts) s"
proof (induction ts arbitrary: s)
  case (Cons t ts)
  have step: "hash_some (t # filter (\<lambda>t. \<not> blank t) ts) s = hash_some (filter (\<lambda>t. \<not> blank t) ts) (hash_some [t] s)"
    using hash_some_append [of "[t]" "filter (\<lambda>t. \<not> blank t) ts" s] by simp
  have one: "hashOne t s = (if blank t then s else hash_some [t] s)" by (simp add: hashOne_some)
  show ?case by (cases "blank t") (simp_all add: step Cons.IH one)
qed simp

lemma anthropic_hashes_some: "anthropic_hashes ms s = hash_some (claude_texts None (somes ms)) s"
proof (induction ms s rule: anthropic_hashes.induct)
  case (2 m ms s)
  show ?case
  proof (cases "length (snd s) < 5")
    case True
    show ?thesis
    proof (cases m)
      case (Some x)
      then show ?thesis
        using 2(2) [of x] True hash_some_append [of "filter (\<lambda>t. \<not> blank t) [anthropicMessageTextForHash x]" "claude_texts None (somes ms)" s]
        by (simp add: hashOne_some claude_texts_def anthropicSystemText_def)
    qed (use 2(1) True in simp)
  qed (use 2 in simp)
qed (simp add: claude_texts_def anthropicSystemText_def)

lemma message5_texts: "computeMessage5Hashes ms = cumulative fnv_init (take 5 (openai_texts (somes ms)))"
  by (simp add: computeMessage5Hashes_def message_hashes_some snd_hash_some)

lemma anthropic5_texts: "computeAnthropicMessage5Hashes sys ms = cumulative fnv_init (take 5 (claude_texts sys (somes ms)))"
proof -
  have "claude_texts sys (somes ms) = filter (\<lambda>t. \<not> blank t) (anthropicSystemText sys) @ claude_texts None (somes ms)"
    by (simp add: claude_texts_def anthropicSystemText_def)
  then show ?thesis
    by (simp add: computeAnthropicMessage5Hashes_def fold_hashOne_some anthropic_hashes_some flip: hash_some_append)
      (simp add: snd_hash_some)
qed

text \<open>The hashes of a conversation grow with it: they are at most five, of eight characters each, and those
  of a longer conversation begin with those of the shorter one, so that what was remembered under
  them is found again in the next turn.\<close>

theorem hashes_grow_with_conversation:
  "prefix (computeMessage5Hashes ms) (computeMessage5Hashes (ms @ later)) \<and>
   prefix (computeAnthropicMessage5Hashes sys cms) (computeAnthropicMessage5Hashes sys (cms @ clater)) \<and>
   length (computeMessage5Hashes ms) \<le> 5 \<and> length (computeAnthropicMessage5Hashes sys cms) \<le> 5 \<and>
   list_all (\<lambda>h. length h = 8) (computeMessage5Hashes ms @ computeAnthropicMessage5Hashes sys cms)"
proof -
  have "prefix (take 5 (openai_texts (somes ms))) (take 5 (openai_texts (somes (ms @ later))))"
    by (simp add: openai_texts_def)
  moreover have "prefix (take 5 (claude_texts sys (somes cms))) (take 5 (claude_texts sys (somes (cms @ clater))))"
    by (simp add: claude_texts_def)
  ultimately show ?thesis
    unfolding message5_texts anthropic5_texts by (auto simp: prefix_cumulative list_all_iff dest: hex8_length)
qed

section \<open>Hashes of converted conversations\<close>

text \<open>Turns whose texts are the same on both sides: plain text, a single tool call without text whose input
  is compact, a single tool result.\<close>

definition text_block :: "claude_block option \<Rightarrow> bool" where
  "text_block b = (case b of None \<Rightarrow> True | Some (TextBlock s) \<Rightarrow> True | _ \<Rightarrow> False)"

fun plain_exchange :: "json_lib \<Rightarrow> string \<Rightarrow> claude_block option list \<Rightarrow> bool" where
  "plain_exchange J role [Some (ToolUseBlock i n inp)] \<longleftrightarrow> role = ''assistant'' \<and> Compact J inp = Inr inp \<and> \<not> blank inp"
| "plain_exchange J role [Some (ToolResultBlock i c)] \<longleftrightarrow> role = ''user'' \<and> i \<noteq> ''''"
| "plain_exchange J role bs \<longleftrightarrow> False"

fun_cases plain_exchangeE: "plain_exchange J role bs"

definition plain_turn :: "json_lib \<Rightarrow> claude_message option \<Rightarrow> bool" where
  "plain_turn J msg =
     (case msg of
        None \<Rightarrow> False
      | Some m \<Rightarrow>
          (cm_Role m = ''user'' \<or> cm_Role m = ''assistant'') \<and>
          (case cm_Content m of
             Some (ContentBlocks bs) \<Rightarrow>
               list_all text_block bs \<or> plain_exchange J (cm_Role m) bs
           | _ \<Rightarrow> True))"

lemma blank_Nil [simp]: "blank ''''"
  by (simp add: blank_def runes_def trimRune_def)

definition texts_of :: "claude_block option list \<Rightarrow> string list" where
  "texts_of bs = concat (map (\<lambda>b. case b of Some (TextBlock s) \<Rightarrow> [s] | _ \<Rightarrow> []) bs)"

lemma text_blocks:
  assumes "list_all text_block bs"
  shows "user_blocks J bs = (map text_item (texts_of bs), [])"
    and "assistant_blocks J i bs = Inr (map text_item (texts_of bs), [])"
    and "blocks_text bs = concat (texts_of bs)"
    and "first_tool_input bs = ''''"
  using assms by (induction bs) (auto simp: text_block_def texts_of_def split: option.splits claude_block.splits)

lemma array_content_text [simp]: "content_string (array_content (map text_item ss)) = concat ss"
  by (cases ss) (auto simp: content_string_def array_content_def item_text_def text_item_def comp_def)

lemma openai_texts_simps [simp]:
  "openai_texts [] = []" "openai_texts (xs @ ys) = openai_texts xs @ openai_texts ys"
  "m_ToolCalls m = [] \<Longrightarrow> openai_texts [m] =
     (if blank (content_string (m_Content m)) then [] else [content_string (m_Content m)])"
  by (auto simp: openai_texts_def messageTextForHash_def combinedTextForChatCompletionsMessage_def Let_def)

lemma user_message_texts [simp]:
  "openai_texts (user_message (map text_item ss)) = (if blank (concat ss) then [] else [concat ss])"
  by (cases ss) (auto simp: user_message_def oa_msg_def simp del: array_content_text
      simp: array_content_text [of "_ # _", simplified])

definition claude_text :: "claude_message \<Rightarrow> string list" where
  "claude_text m = filter (\<lambda>t. \<not> blank t) [anthropicMessageTextForHash m]"

lemma convert_message_texts:
  assumes "plain_turn J (Some m)" and "convert_message J m = Inr xs"
  shows "openai_texts xs = claude_text m"
proof (cases "cm_Content m")
  case None
  with assms show ?thesis
    by (auto simp: plain_turn_def convert_message_def claude_text_def anthropicMessageTextForHash_def
      combinedTextForAnthropicMessage_def oa_msg_def content_string_def)
next
  case (Some c)
  show ?thesis
  proof (cases c)
    case (ContentString s)
    have "openai_texts (user_message [text_item s]) = (if blank s then [] else [s])"
      using user_message_texts [of "[s]"] by simp
    moreover have "content_string (array_content [text_item s]) = s" using array_content_text [of "[s]"] by simp
    ultimately show ?thesis
      using assms Some ContentString
      by (auto simp: plain_turn_def convert_message_def claude_text_def anthropicMessageTextForHash_def
        combinedTextForAnthropicMessage_def oa_msg_def Let_def)
  next
    case (ContentBlocks bs)
    show ?thesis
    proof (cases "list_all text_block bs")
      case True
      note tb = text_blocks [OF True]
      show ?thesis
        using assms Some ContentBlocks
        by (auto simp: plain_turn_def convert_message_def claude_text_def anthropicMessageTextForHash_def
          combinedTextForAnthropicMessage_def oa_msg_def Let_def tb)
    next
      case False
      with assms(1) Some ContentBlocks consider
          (call) i n inp where "bs = [Some (ToolUseBlock i n inp)]" "cm_Role m = ''assistant''" "Compact J inp = Inr inp" "\<not> blank inp"
        | (answer) i r where "bs = [Some (ToolResultBlock i r)]" "cm_Role m = ''user''" "i \<noteq> ''''"
        by (auto simp: plain_turn_def elim: plain_exchangeE)
      then show ?thesis
      proof cases
        case call
        then have "inp \<noteq> ''''" by auto
        with call assms(2) Some ContentBlocks show ?thesis
          by (auto simp: convert_message_def claude_text_def anthropicMessageTextForHash_def combinedTextForAnthropicMessage_def
            oa_msg_def Let_def array_content_def openai_texts_def messageTextForHash_def combinedTextForChatCompletionsMessage_def content_string_def)
      next
        case answer
        with assms(2) Some ContentBlocks show ?thesis
          by (auto simp: convert_message_def claude_text_def anthropicMessageTextForHash_def combinedTextForAnthropicMessage_def
            oa_msg_def Let_def user_message_def content_string_def split: option.splits)
      qed
    qed
  qed
qed

lemma convert_messages_texts:
  assumes "list_all (plain_turn J) ms" and "convert_messages J ms = Returned (Inr xs)"
  shows "openai_texts xs = concat (map claude_text (somes ms))"
  using assms
proof (induction ms arbitrary: xs)
  case (Cons m ms)
  then obtain x where m: "m = Some x" by (cases m) (auto simp: plain_turn_def)
  with Cons.prems(2) obtain ys zs where "convert_message J x = Inr ys" "convert_messages J ms = Returned (Inr zs)" "xs = ys @ zs"
    by (auto split: sum.splits outcome.splits)
  with Cons.IH Cons.prems(1) convert_message_texts [of J x ys] m show ?case by simp
qed simp

lemma system_messages_texts: "openai_texts (system_messages sys) = filter (\<lambda>t. \<not> blank t) (anthropicSystemText sys)"
proof -
  have one: "openai_texts [oa_msg ''system'' (Some (OaString s))] = filter (\<lambda>t. \<not> blank t) [s]" for s
    by (simp add: oa_msg_def content_string_def)
  have "openai_texts (map (\<lambda>s. oa_msg ''system'' (Some (OaString s))) ss) = filter (\<lambda>t. \<not> blank t) ss" for ss
  proof (induction ss)
    case (Cons s ss)
    then show ?case using one [of s] openai_texts_simps(2) [of "[oa_msg ''system'' (Some (OaString s))]"] by simp
  qed simp
  then show ?thesis
    by (auto simp: system_messages_def anthropicSystemText_def checkIsAnthropicBillingHead_def one split: option.splits claude_system.splits list.splits)
qed

text \<open>C24: For conversations of plain turns the hashes do not depend on the side of the converter on which they
  are taken: the features of a Claude request are those of the chat completions request it is
  converted to.\<close>

theorem hashes_survive_conversion:
  assumes "list_all (plain_turn J) (rq_Messages q)" and "convert_request J q = Returned (Inr c)"
  shows "extract_value Message5HashExtractor (ClaudeRequestV q) = extract_value Message5HashExtractor (ChatRequestV c)"
proof -
  obtain msgs where m: "convert_messages J (rq_Messages q) = Returned (Inr msgs)" "q_Messages c = system_messages (rq_System q) @ msgs"
    using assms(2) by (auto simp: convert_request_def split: outcome.splits sum.splits)
  have "claude_texts (rq_System q) ms = filter (\<lambda>t. \<not> blank t) (anthropicSystemText (rq_System q)) @ concat (map claude_text ms)" for ms
    by (induction ms) (simp_all add: claude_texts_def claude_text_def)
  then have "openai_texts (q_Messages c) = claude_texts (rq_System q) (somes (rq_Messages q))"
    using convert_messages_texts [OF assms(1) m(1)] by (simp add: m(2) system_messages_texts)
  then show ?thesis by (simp add: five_hashes_def message5_texts anthropic5_texts)
qed

definition agent_request :: "claude_message option list \<Rightarrow> claude_request" where
  "agent_request ms = \<lparr>rq_MaxTokens = 100, rq_Messages = ms, rq_Model = ''m'', rq_System = Some (SystemBlocks [''Be brief.'', '' '']),
     rq_Temperature = None, rq_TopK = None, rq_TopP = None, rq_StopSequences = [], rq_Stream = None, rq_Thinking = None, rq_Tools = [],
     rq_ToolChoice = None\<rparr>"

definition turn :: "string \<Rightarrow> claude_block list \<Rightarrow> claude_message option" where
  "turn role bs = Some \<lparr>cm_Role = role, cm_Content = Some (ContentBlocks (map Some bs))\<rparr>"

definition agent_turns :: "claude_message option list" where
  "agent_turns = [turn ''user'' [TextBlock ''time?''], turn ''assistant'' [ToolUseBlock ''t1'' ''clock'' ''{}''],
     turn ''user'' [ToolResultBlock ''t1'' (Some (ContentString ''noon''))]]"

theorem hashes_survive_conversion_witness:
  "\<exists>c. convert_request demo_json (agent_request agent_turns) = Returned (Inr c) \<and>
     extract_value Message5HashExtractor (ClaudeRequestV (agent_request agent_turns)) = extract_value Message5HashExtractor (ChatRequestV c)"
proof -
  obtain c where c: "convert_request demo_json (agent_request agent_turns) = Returned (Inr c)"
    by (simp add: agent_turns_def agent_request_def turn_def convert_request_def convert_message_def demo_json_def)
  have "\<not> blank ''{}''" by (simp add: blank_def runes_def trimRune_def IsSpace_def)
  then have "list_all (plain_turn demo_json) (rq_Messages (agent_request agent_turns))"
    by (simp add: agent_turns_def agent_request_def turn_def plain_turn_def text_block_def demo_json_def)
  from hashes_survive_conversion [OF this c] c show ?thesis by blast
qed

text \<open>A turn with text and a tool call is no plain turn: the hash of the Claude request covers the input
  of the call too.\<close>

lemma mixed_turn_hashes_differ:
  "anthropicMessageTextForHash \<lparr>cm_Role = ''assistant'', cm_Content = Some (ContentBlocks [Some (TextBlock ''ok''), Some (ToolUseBlock i n ''{}'')])\<rparr> = ''ok{}''"
  "convert_message demo_json \<lparr>cm_Role = ''assistant'', cm_Content = Some (ContentBlocks [Some (TextBlock ''ok''), Some (ToolUseBlock i n ''{}'')])\<rparr> = Inr [m]
     \<Longrightarrow> messageTextForHash m = ''ok''"
  "hex8 (fnv_write ''ok{}'' fnv_init) \<noteq> hex8 (fnv_write ''ok'' fnv_init)"
proof -
  have b: "\<not> blank ''ok''" "\<not> blank ''ok{}''" by (simp_all add: blank_def runes_def trimRune_def IsSpace_def)
  show "anthropicMessageTextForHash \<lparr>cm_Role = ''assistant'', cm_Content = Some (ContentBlocks [Some (TextBlock ''ok''), Some (ToolUseBlock i n ''{}'')])\<rparr> = ''ok{}''"
    using b by (simp add: anthropicMessageTextForHash_def combinedTextForAnthropicMessage_def)
  show "convert_message demo_json \<lparr>cm_Role = ''assistant'', cm_Content = Some (ContentBlocks [Some (TextBlock ''ok''), Some (ToolUseBlock i n ''{}'')])\<rparr> = Inr [m]
     \<Longrightarrow> messageTextForHash m = ''ok''"
    using b by (auto simp: convert_message_def demo_json_def messageTextForHash_def combinedTextForChatCompletionsMessage_def content_string_def
      array_content_def oa_msg_def text_item_def item_text_def)
  show "hex8 (fnv_write ''ok{}'' fnv_init) \<noteq> hex8 (fnv_write ''ok'' fnv_init)"
    by (simp add: hex8_def fnv_write_def fnv_byte_def fnv_init_def hex_digit_def)
qed

text \<open>A published test vector of the hash.\<close>

lemma fnv_vector: "hex8 (fnv_write ''a'' fnv_init) = ''e40c292c''"
  by (simp add: hex8_def fnv_write_def fnv_byte_def fnv_init_def hex_digit_def) code_simp

end
