(* ===== verification/RuleEngine.thy ===== *)
theory RuleEngine
  imports Body ErrorMiddleware
begin

text \<open>
  \<open>pkg/engines/rule-engine/engine.go\<close>, \<open>errors.go\<close>, \<open>fixed_matcher.go\<close>, \<open>expr_matcher.go\<close> and
  \<open>pkg/engines/deny.go\<close>: a chain of rules, of which the first that matches handles the request. The
  expression library is a parameter.
\<close>

section \<open>Matchers\<close>

text \<open>What an expression may return; a float that is not finite counts as one that is not 0.\<close>

datatype expr_value = ExprBool bool | ExprInt int | ExprFloat rat | ExprOther

record 'q expr_lib =
  xl_Compile :: "string \<Rightarrow> bool"
  xl_Run :: "string \<Rightarrow> 'q \<Rightarrow> err + expr_value"

datatype matcher = FixedMatcher bool | ExprMatcher string

definition AlwaysTrueMatcher :: matcher where "AlwaysTrueMatcher = FixedMatcher True"

definition expr_Match :: "'q expr_lib \<Rightarrow> string \<Rightarrow> 'q \<Rightarrow> bool" where
  "expr_Match L code q =
     (if \<not> xl_Compile L code then False
      else case xl_Run L code q of
             Inl e \<Rightarrow> False
           | Inr (ExprBool b) \<Rightarrow> b
           | Inr (ExprInt n) \<Rightarrow> n \<noteq> 0
           | Inr (ExprFloat x) \<Rightarrow> x \<noteq> 0
           | Inr ExprOther \<Rightarrow> False)"

fun Match :: "'q expr_lib \<Rightarrow> matcher \<Rightarrow> 'q \<Rightarrow> bool" where
  "Match L (FixedMatcher b) q = b"
| "Match L (ExprMatcher code) q = expr_Match L code q"

lemma Match_always [simp]: "Match L AlwaysTrueMatcher q"
  by (simp add: AlwaysTrueMatcher_def)

section \<open>Denial\<close>

record deny_engine =
  ReasonText :: string
  HTTPStatusCode :: int
  deny_Type :: string
  deny_Code :: string

definition deny_error :: "deny_engine \<Rightarrow> err" where
  "deny_error d = Handler (Some (Sentinel ''ErrRequestDenied'')) (if HTTPStatusCode d = 0 then 400 else HTTPStatusCode d)
     (ReasonText d) (deny_Type d) None (deny_Code d) []"

definition deny_process :: "deny_engine \<Rightarrow> 'rs go_result" where
  "deny_process d = (None, Some (deny_error d))"

section \<open>The rule engine\<close>

text \<open>A nil engine of a rule is \<open>None\<close>.\<close>

record 'e rule =
  rule_Name :: string
  rule_Matcher :: matcher
  rule_Engine :: "'e option"

record meta_world =
  mw_meta :: metadata

definition matchedRuleName :: string where "matchedRuleName = ''matched_rule_name''"

definition GetMatchedRuleName :: "metadata \<Rightarrow> string option" where
  "GetMatchedRuleName md = (case GetMetadataValue md matchedRuleName of Some (MetaStr s) \<Rightarrow> Some s | _ \<Rightarrow> None)"

definition as_action :: "err \<Rightarrow> string option" where
  "as_action e = (case e of WithAction a er \<Rightarrow> Some a | _ \<Rightarrow> None)"

definition RuleEngineActionContinue :: string where "RuleEngineActionContinue = ''continue''"

text \<open>The loop over the rules of a chain; \<open>exec\<close> runs an engine.\<close>

fun run_rules ::
  "'q expr_lib \<Rightarrow> ('e \<Rightarrow> 'q \<Rightarrow> 'z meta_world_scheme \<Rightarrow> 'rs go_result outcome \<times> 'z meta_world_scheme) \<Rightarrow> 'q \<Rightarrow> 'e rule list
    \<Rightarrow> 'z meta_world_scheme \<Rightarrow> 'rs go_result outcome \<times> 'z meta_world_scheme" where
  "run_rules L exec q [] w = (Returned (None, Some (Sentinel ''ErrNoRuleMatched'')), w)"
| "run_rules L exec q (r # rs) w =
     (if \<not> Match L (rule_Matcher r) q then run_rules L exec q rs w
      else let w1 = w\<lparr>mw_meta := SetMetadataValue (mw_meta w) matchedRuleName (MetaStr (rule_Name r))\<rparr>
           in case rule_Engine r of
                None \<Rightarrow> (Panicked, w1)
              | Some e \<Rightarrow>
                  (case exec e q w1 of
                     (Panicked, w2) \<Rightarrow> (Panicked, w2)
                   | (Returned (resp, None), w2) \<Rightarrow> (Returned (resp, None), w2)
                   | (Returned (resp, Some er), w2) \<Rightarrow>
                       if errors_as as_action er = Some RuleEngineActionContinue then run_rules L exec q rs w2
                       else (Returned (None, Some (Wrap '''' [Sentinel ''ErrRuleActionError'', er])), w2)))"

definition rules_process ::
  "'q expr_lib \<Rightarrow> ('e \<Rightarrow> 'q \<Rightarrow> 'z meta_world_scheme \<Rightarrow> 'rs go_result outcome \<times> 'z meta_world_scheme) \<Rightarrow> (string \<rightharpoonup> 'e rule list) \<Rightarrow> 'q
    \<Rightarrow> 'z meta_world_scheme \<Rightarrow> 'rs go_result outcome \<times> 'z meta_world_scheme" where
  "rules_process L exec engineChains q w =
     (case engineChains ''default'' of
        Some rs \<Rightarrow> run_rules L exec q rs w
      | None \<Rightarrow>
          (case engineChains '''' of
             Some rs \<Rightarrow> run_rules L exec q rs w
           | None \<Rightarrow> (Returned (None, Some (Sentinel ''ErrNoRuleChain'')), w)))"

section \<open>The first match\<close>

lemma run_rules_skip:
  "\<forall>r\<in>set rs. \<not> Match L (rule_Matcher r) q \<Longrightarrow> run_rules L exec q (rs @ rs') w = run_rules L exec q rs' w"
  by (induction rs) auto

text \<open>What happens when a rule is reached that matches, and its engine does not ask to continue.\<close>

definition decided ::
  "('e \<Rightarrow> 'q \<Rightarrow> 'z meta_world_scheme \<Rightarrow> 'rs go_result outcome \<times> 'z meta_world_scheme) \<Rightarrow> 'q \<Rightarrow> 'e rule
    \<Rightarrow> 'z meta_world_scheme \<Rightarrow> 'rs go_result outcome \<times> 'z meta_world_scheme" where
  "decided exec q r w =
     (let w1 = w\<lparr>mw_meta := SetMetadataValue (mw_meta w) matchedRuleName (MetaStr (rule_Name r))\<rparr>
      in case rule_Engine r of
           None \<Rightarrow> (Panicked, w1)
         | Some e \<Rightarrow>
             (case exec e q w1 of
                (Returned (resp, Some er), w2) \<Rightarrow> (Returned (None, Some (Wrap '''' [Sentinel ''ErrRuleActionError'', er])), w2)
              | x \<Rightarrow> x))"

definition wants_next ::
  "('e \<Rightarrow> 'q \<Rightarrow> 'z meta_world_scheme \<Rightarrow> 'rs go_result outcome \<times> 'z meta_world_scheme) \<Rightarrow> 'q \<Rightarrow> 'e rule \<Rightarrow> 'z meta_world_scheme \<Rightarrow> bool" where
  "wants_next exec q r w \<longleftrightarrow>
     (case rule_Engine r of
        None \<Rightarrow> False
      | Some e \<Rightarrow>
          (case fst (exec e q (w\<lparr>mw_meta := SetMetadataValue (mw_meta w) matchedRuleName (MetaStr (rule_Name r))\<rparr>)) of
             Returned (resp, Some er) \<Rightarrow> errors_as as_action er = Some RuleEngineActionContinue
           | _ \<Rightarrow> False))"

lemma first_match_decides:
  assumes "\<forall>r\<in>set rs. \<not> Match L (rule_Matcher r) q" and "Match L (rule_Matcher r) q" and "\<not> wants_next exec q r w"
  shows "run_rules L exec q (rs @ r # rs') w = decided exec q r w"
  using assms(2,3)
  by (auto simp: run_rules_skip [OF assms(1)] decided_def wants_next_def Let_def simp del: errors_as.simps
      split: option.splits prod.splits outcome.splits)

text \<open>A rule that can never match may be left out.\<close>

lemma unmatched_rule_is_redundant:
  "\<not> Match L (rule_Matcher r) q \<Longrightarrow> run_rules L exec q (rs @ r # rs') w = run_rules L exec q (rs @ rs') w"
  by (induction rs arbitrary: w) (auto simp: Let_def simp del: errors_as.simps split: option.splits prod.splits outcome.splits)

lemma deny_status [simp]:
  "errors_as as_handler_error (Wrap '''' [Sentinel s, deny_error d]) =
     Some \<lparr>he_Err = Some (Sentinel ''ErrRequestDenied''), he_StatusCode = (if HTTPStatusCode d = 0 then 400 else HTTPStatusCode d),
       he_Message = ReasonText d, he_Type = deny_Type d, he_Param = None, he_Code = deny_Code d, he_Header = []\<rparr>"
  by (simp add: as_handler_error_def deny_error_def)

end
