(* ===== verification/Rewrite.thy ===== *)
theory Rewrite
  imports HttpHandler LoadBalancer "HOL-Library.AList"
begin

text \<open>
  \<open>pkg/engines/rewrite.go\<close>: an engine that edits the JSON of requests, responses and stream chunks by
  policies. The editing of JSON (sjson) and the expressions (expr) are parameters. The theorems say what
  becomes of the request body when the next engine fails, which another backend may then be given.
\<close>

section \<open>Policies\<close>

text \<open>A Go map is its list of entries in the order in which a loop happens to visit them; the keys are
  distinct.\<close>

record 'v rewrite_policy =
  SetKeys :: "(string \<times> 'v) list"
  SetKeysByExpr :: "(string \<times> string) list"
  RemoveKeys :: "string list"

definition merge_entries :: "(string \<times> 'b) list \<Rightarrow> (string \<times> 'b) list \<Rightarrow> (string \<times> 'b) list" where
  "merge_entries xs ys = fold (\<lambda>(k, v). AList.update k v) ys (fold (\<lambda>(k, v). AList.update k v) xs [])"

fun policy_Merge :: "'v rewrite_policy option \<Rightarrow> 'v rewrite_policy option \<Rightarrow> 'v rewrite_policy option" where
  "policy_Merge p None = p"
| "policy_Merge None (Some q) = Some q"
| "policy_Merge (Some p) (Some q) =
     Some \<lparr>SetKeys = merge_entries (SetKeys p) (SetKeys q), SetKeysByExpr = merge_entries (SetKeysByExpr p) (SetKeysByExpr q),
       RemoveKeys = RemoveKeys p @ RemoveKeys q\<rparr>"

section \<open>Rewriting\<close>

text \<open>The libraries: each edit returns the new text and an error, and the new text is used either way.
  An expression may fail to compile, fail, or yield nil.\<close>

record ('v, 'env) rewrite_lib =
  js_Delete :: "string \<Rightarrow> string \<Rightarrow> string \<times> err option"
  js_Set :: "string \<Rightarrow> string \<Rightarrow> 'v \<Rightarrow> string \<times> err option"
  ex_Compile :: "string \<Rightarrow> bool"
  ex_Run :: "string \<Rightarrow> 'env option \<Rightarrow> err + 'v option"

definition remove_key :: "('v, 'env) rewrite_lib \<Rightarrow> string \<Rightarrow> string \<Rightarrow> string" where
  "remove_key L k s = fst (js_Delete L s k)"

definition set_key :: "('v, 'env) rewrite_lib \<Rightarrow> string \<times> 'v \<Rightarrow> string \<Rightarrow> string" where
  "set_key L kv s = fst (js_Set L s (fst kv) (snd kv))"

definition set_key_by_expr :: "('v, 'env) rewrite_lib \<Rightarrow> 'env option \<Rightarrow> string \<times> string \<Rightarrow> string \<Rightarrow> string" where
  "set_key_by_expr L env kc s =
     (if \<not> ex_Compile L (snd kc) then s
      else case ex_Run L (snd kc) env of
             Inl e \<Rightarrow> s
           | Inr None \<Rightarrow> s
           | Inr (Some v) \<Rightarrow> fst (js_Set L s (fst kc) v))"

definition RewriteJSON :: "('v, 'env) rewrite_lib \<Rightarrow> 'env option \<Rightarrow> 'v rewrite_policy option \<Rightarrow> string \<Rightarrow> string" where
  "RewriteJSON L env pol s =
     (case pol of
        None \<Rightarrow> s
      | Some p \<Rightarrow> fold (set_key_by_expr L env) (SetKeysByExpr p) (fold (set_key L) (SetKeys p) (fold (remove_key L) (RemoveKeys p) s)))"

section \<open>The engine\<close>

record 'v rewrite_engine =
  RequestRewrite :: "'v rewrite_policy option"
  NonstreamResponseRewrite :: "'v rewrite_policy option"
  StreamChunkRewrite :: "'v rewrite_policy option"

text \<open>The goroutine that rewrites a stream: an unreadable chunk is skipped; it ends when the consumer is
  gone. The \<open>n\<close>-th send succeeds when \<open>ok n\<close>.\<close>

fun rewrite_chunks ::
  "('v, 'env) rewrite_lib \<Rightarrow> 'v rewrite_policy option \<Rightarrow> (nat \<Rightarrow> bool) \<Rightarrow> nat \<Rightarrow> 'b stream_chunk list \<Rightarrow> 'b stream_chunk list" where
  "rewrite_chunks L pol ok n [] = []"
| "rewrite_chunks L pol ok n (c # cs) =
     (case Bytes (ch_Body c) of
        (Panicked, b) \<Rightarrow> []
      | (Returned (Inl e), b) \<Rightarrow> rewrite_chunks L pol ok n cs
      | (Returned (Inr s), b) \<Rightarrow>
          if ok n then c\<lparr>ch_Body := SetBytes (Some (RewriteJSON L None pol s)) b\<rparr> # rewrite_chunks L pol ok (Suc n) cs else [])"

text \<open>What is done with the response of the next engine, with the close callbacks that run. A response
  with neither stream nor body makes the engine panic when it has a policy for it.\<close>

definition rewrite_response ::
  "('v, 'env) rewrite_lib \<Rightarrow> 'v rewrite_engine \<Rightarrow> (nat \<Rightarrow> bool) \<Rightarrow> 'b http_response \<Rightarrow> ('b http_response go_result \<times> close_action list) outcome" where
  "rewrite_response L e ok r =
     (case hr_Stream r of
        Some st \<Rightarrow>
          (case StreamChunkRewrite e of
             None \<Rightarrow> Returned ((Some r, None), [])
           | Some p \<Rightarrow> Returned ((Some (r\<lparr>hr_Stream := Some \<lparr>st_chunks = rewrite_chunks L (Some p) ok 0 (st_chunks st),
                 st_close = st_close st @ [OtherClose ''cancel'']\<rparr>\<rparr>), None), []))
      | None \<Rightarrow>
          (case NonstreamResponseRewrite e of
             None \<Rightarrow> Returned ((Some r, None), [])
           | Some p \<Rightarrow>
               (case hr_Body r of
                  None \<Rightarrow> Panicked
                | Some b \<Rightarrow>
                    (case Bytes b of
                       (Panicked, b1) \<Rightarrow> Panicked
                     | (Returned (Inl er), b1) \<Rightarrow> Returned ((None, Some (Wrap ''read response body error'' [er])), fst (CloseBody b1))
                     | (Returned (Inr s), b1) \<Rightarrow>
                         Returned ((Some (r\<lparr>hr_Body := Some (SetBytes (Some (RewriteJSON L None (Some p) s)) b1)\<rparr>), None), [])))))"

text \<open>Running the next engine on the body, and what it leaves of it; a nil engine is an error.\<close>

type_synonym ('x, 'b) body_engine = "'x body \<Rightarrow> 'b http_response go_result outcome \<times> 'x body"

definition run_next :: "('x, 'b) body_engine option \<Rightarrow> 'x body \<Rightarrow> 'b http_response go_result outcome \<times> 'x body" where
  "run_next nxt b =
     (case nxt of
        None \<Rightarrow> (Returned (None, Some (Plain ''next engine is nil'')), b)
      | Some f \<Rightarrow>
          (case f b of
             (Returned (r, Some er), b1) \<Rightarrow> (Returned (None, Some (Wrap ''underlying engine run error'' [er])), b1)
           | x \<Rightarrow> x))"

definition failed :: "'b http_response go_result outcome \<Rightarrow> bool" where
  "failed r = (case r of Panicked \<Rightarrow> True | Returned (x, e) \<Rightarrow> e \<noteq> None)"

definition finish_response ::
  "('v, 'env) rewrite_lib \<Rightarrow> 'v rewrite_engine \<Rightarrow> (nat \<Rightarrow> bool) \<Rightarrow> 'b http_response go_result outcome
    \<Rightarrow> ('b http_response go_result \<times> close_action list) outcome" where
  "finish_response L e ok r =
     (case r of
        Panicked \<Rightarrow> Panicked
      | Returned (x, Some er) \<Rightarrow> Returned ((None, Some er), [])
      | Returned (None, None) \<Rightarrow> Panicked
      | Returned (Some resp, None) \<Rightarrow> rewrite_response L e ok resp)"

text \<open>\<open>Process\<close>. The deferred function puts the request back when the next engine failed or panicked; a failure
  after that does not.\<close>

definition rewrite_process ::
  "('v, 'env) rewrite_lib \<Rightarrow> 'v rewrite_engine \<Rightarrow> 'env \<Rightarrow> (nat \<Rightarrow> bool) \<Rightarrow> ('x, 'b) body_engine option \<Rightarrow> 'x body
    \<Rightarrow> ('b http_response go_result \<times> close_action list) outcome \<times> 'x body" where
  "rewrite_process L e env ok nxt b =
     (case RequestRewrite e of
        None \<Rightarrow> (let (r, b1) = run_next nxt b in (finish_response L e ok r, b1))
      | Some p \<Rightarrow>
          (case Bytes b of
             (Panicked, b1) \<Rightarrow> (Panicked, b1)
           | (Returned (Inl er), b1) \<Rightarrow> (Returned ((None, Some (Wrap ''get request body bytes error'' [er])), []), b1)
           | (Returned (Inr s), b1) \<Rightarrow>
               (let (r, b2) = run_next nxt (SetBytes (Some (RewriteJSON L (Some env) (Some p) s)) b1)
                in (finish_response L e ok r, if failed r then SetBytes (Some s) b2 else b2))))"

section \<open>Failover\<close>

text \<open>A backend of a load balancer that rewrites the request for its upstream, which answers the bytes it
  is sent. The body of the request is shared by the attempts. A panic ends the attempts.\<close>

type_synonym 'b upstream = "string \<Rightarrow> 'b http_response go_result"

definition call_upstream :: "'b upstream \<Rightarrow> ('x, 'b) body_engine" where
  "call_upstream up b =
     (case Bytes b of
        (Returned (Inr s), b1) \<Rightarrow> (Returned (up s), b1)
      | (_, b1) \<Rightarrow> (Panicked, b1))"

definition result_of :: "('b http_response go_result \<times> close_action list) outcome \<Rightarrow> 'b http_response go_result" where
  "result_of r = (case r of Panicked \<Rightarrow> (None, None) | Returned (x, cls) \<Rightarrow> x)"

definition attempt ::
  "('v, 'env) rewrite_lib \<Rightarrow> 'env \<Rightarrow> (nat \<Rightarrow> bool) \<Rightarrow> 'v rewrite_engine \<times> 'b upstream
    \<Rightarrow> (('v rewrite_engine \<times> 'b upstream, 'x body) lb_world, 'u, 'b http_response) engine" where
  "attempt L x ok eng u w =
     (let (r, b1) = rewrite_process L (fst eng) x ok (Some (call_upstream (snd eng))) (lw_rest w)
      in (result_of r, w\<lparr>lw_rest := b1\<rparr>))"

text \<open>What the backend answers when it is the only one.\<close>

definition alone :: "('v, 'env) rewrite_lib \<Rightarrow> 'env \<Rightarrow> (nat \<Rightarrow> bool) \<Rightarrow> 'v rewrite_engine \<times> 'b upstream \<Rightarrow> string \<Rightarrow> 'b http_response go_result" where
  "alone L x ok eng s =
     result_of (finish_response L (fst eng) ok
       (case snd eng (RewriteJSON L (Some x) (RequestRewrite (fst eng)) s) of
          (r, Some er) \<Rightarrow> Returned (None, Some (Wrap ''underlying engine run error'' [er]))
        | y \<Rightarrow> Returned y))"

declare Bytes_SetBytes [simp]

lemma finish_error:
  assumes "NonstreamResponseRewrite e = None" and "result_of (finish_response L e ok r) = (x, Some er)"
  shows "failed r"
proof (cases r)
  case (Returned y)
  with assms show ?thesis
    by (cases y; cases "fst y"; cases "snd y")
      (auto simp: failed_def finish_response_def result_of_def rewrite_response_def split: option.splits)
qed (simp add: failed_def)

lemma attempt_alone:
  fixes w :: "('v rewrite_engine \<times> 'b upstream, 'x body) lb_world"
  assumes "Bytes (lw_rest w) = (Returned (Inr s), b0)" and "NonstreamResponseRewrite (fst eng) = None"
  shows "fst (attempt L x ok eng u w) = alone L x ok eng s"
    and "snd (fst (attempt L x ok eng u w)) \<noteq> None \<Longrightarrow> \<exists>b. snd (attempt L x ok eng u w) = w\<lparr>lw_rest := b\<rparr> \<and> fst (Bytes b) = Returned (Inr s)"
proof -
  define sent where "sent = RewriteJSON L (Some x) (RequestRewrite (fst eng)) s"
  define r where "r = (case snd eng sent of (y, Some er) \<Rightarrow> Returned (None, Some (Wrap ''underlying engine run error'' [er])) | y \<Rightarrow> Returned y)"
  have run: "run_next (Some (call_upstream (snd eng))) b = (r, b1)" if "Bytes b = (Returned (Inr sent), b1)" for b b1 :: "'x body"
    using that by (cases "snd eng sent"; cases "snd (snd eng sent)") (auto simp: run_next_def call_upstream_def r_def)
  have "\<exists>b1. rewrite_process L (fst eng) x ok (Some (call_upstream (snd eng))) (lw_rest w) = (finish_response L (fst eng) ok r, b1) \<and>
      (failed r \<longrightarrow> fst (Bytes b1) = Returned (Inr s))"
  proof (cases "RequestRewrite (fst eng)")
    case None
    then have "sent = s" by (simp add: sent_def RewriteJSON_def)
    with run assms(1) Bytes_again [OF assms(1)] None show ?thesis by (auto simp: rewrite_process_def)
  next
    case (Some p)
    then show ?thesis
      using run [of "SetBytes (Some sent) b0"] assms(1) by (auto simp: rewrite_process_def sent_def Let_def)
  qed
  then obtain b1 where b1: "attempt L x ok eng u w = (result_of (finish_response L (fst eng) ok r), w\<lparr>lw_rest := b1\<rparr>)"
    "failed r \<longrightarrow> fst (Bytes b1) = Returned (Inr s)"
    by (auto simp: attempt_def)
  show "fst (attempt L x ok eng u w) = alone L x ok eng s"
    by (simp add: b1(1) alone_def r_def sent_def)
  show "snd (fst (attempt L x ok eng u w)) \<noteq> None \<Longrightarrow> \<exists>b. snd (attempt L x ok eng u w) = w\<lparr>lw_rest := b\<rparr> \<and> fst (Bytes b) = Returned (Inr s)"
    using b1 finish_error [OF assms(2), of L ok r "fst (fst (attempt L x ok eng u w))"]
    by (cases "result_of (finish_response L (fst eng) ok r)") auto
qed

definition named_engines :: "'e wrr_backend list \<Rightarrow> (string \<times> 'e) list" where
  "named_engines bs = map (\<lambda>b. (wb_name b, wb_engine b)) bs"

lemma GetNextEngine_named: "GetNextEngine bs = (r, bs') \<Longrightarrow> named_engines bs' = named_engines bs"
  by (auto simp: GetNextEngine_def Let_def named_engines_def map_update_same comp_def split: option.splits)

lemma wrr_loop_alone:
  fixes w :: "('v rewrite_engine \<times> 'b upstream, 'x body) lb_world"
  assumes "wrr_loop l env (attempt L x ok) u c w = ((tried, out), w')"
    and "fst (Bytes (lw_rest w)) = Returned (Inr s)"
    and "list_all (\<lambda>(n, eng). NonstreamResponseRewrite (fst eng) = None) E" and "named_engines (lw_backends w) = E"
  shows "list_all (\<lambda>(n, answer). list_ex (\<lambda>(m, eng). m = n \<and> alone L x ok eng s = answer) E) tried"
  using assms(1,2,4)
proof (induction "nat (lb_retryMaxCount l - c)" arbitrary: c w tried out w' rule: less_induct)
  case less
  show ?case
  proof (cases "fst (GetNextEngine (lw_backends w))")
    case None
    then have "tried = []" using less.prems(1) by (subst (asm) wrr_loop.simps) (auto split: prod.splits)
    then show ?thesis by simp
  next
    case (Some i)
    let ?b = "lw_backends w ! i"
    obtain bs where g: "GetNextEngine (lw_backends w) = (Some i, bs)" using Some by (metis prod.collapse)
    then have i: "i < length (lw_backends w)" using lb.pick_turn [of "lw_backends w" "Some i" bs] by simp
    define wa where "wa = w\<lparr>lw_backends := bs, lw_meta := SetMetadataValue (lw_meta w) backendName (MetaStr (wb_name ?b))\<rparr>"
    obtain resp er wb where x: "attempt L x ok (wb_engine ?b) u wa = ((resp, er), wb)" by (metis surj_pair)
    have mem: "(wb_name ?b, wb_engine ?b) \<in> set E" using i less.prems(3) by (auto simp: named_engines_def)
    have "lw_rest wa = lw_rest w" by (simp add: wa_def)
    then obtain b0 where b0: "Bytes (lw_rest wa) = (Returned (Inr s), b0)"
      using less.prems(2) by (cases "Bytes (lw_rest w)") auto
    have none: "NonstreamResponseRewrite (fst (wb_engine ?b)) = None" using mem assms(3) by (auto simp: list_all_iff)
    note at = attempt_alone [OF b0 none, of L x ok u, unfolded x]
    have this_one: "list_ex (\<lambda>(m, eng). m = wb_name ?b \<and> alone L x ok eng s = (resp, er)) E"
      using mem at(1) unfolding list_ex_iff by (intro bexI [OF _ mem]) simp
    note loop = wrr_loop_step [where exec = "attempt L x ok" and req = u and w = w and l = l and env = env and c = c, OF g x [unfolded wa_def]]
    show ?thesis
    proof (cases "tried = [(wb_name ?b, resp, er)]")
      case True
      with this_one show ?thesis by simp
    next
      case False
      then obtain e tried' out' where rec: "er = Some e" "wrr_loop l env (attempt L x ok) u (c + 1) wb = ((tried', out'), w')"
        "tried = (wb_name ?b, resp, er) # tried'" "\<not> lb_retryMaxCount l \<le> c + 1"
        using less.prems(1) unfolding loop Let_def by (auto split: option.splits if_splits prod.splits)
      obtain b1 where b1: "wb = wa\<lparr>lw_rest := b1\<rparr>" "fst (Bytes b1) = Returned (Inr s)" using at(2) rec(1) by auto
      have "nat (lb_retryMaxCount l - (c + 1)) < nat (lb_retryMaxCount l - c)" using rec(4) by simp
      from less.hyps [OF this rec(2)] b1 GetNextEngine_named [OF g] less.prems(3) this_one show ?thesis
        by (simp add: rec(3) wa_def)
    qed
  qed
qed

text \<open>C25: Failover over rewriting backends gives every upstream the request the client sent, rewritten by that
  backend's own policy only: an attempt that fails leaves no trace in the body, so that every answer the
  balancer collects is the one the backend gives when it is asked alone. This holds for backends that
  do not rewrite responses.\<close>

theorem failover_rewrites_the_original:
  assumes "wrr_process l env (attempt L x ok) None u w = ((tried, out), w')"
    and "fst (Bytes (lw_rest w)) = Returned (Inr s)"
    and "list_all (\<lambda>(n, eng). NonstreamResponseRewrite (fst eng) = None) (named_engines (lw_backends w))"
  shows "list_all (\<lambda>(n, answer). list_ex (\<lambda>(m, eng). m = n \<and> alone L x ok eng s = answer) (named_engines (lw_backends w))) tried"
  using wrr_loop_alone [OF _ assms(2,3) refl] assms(1) by (simp add: wrr_process_def)

text \<open>When the upstream answers but the body of the answer cannot be read for the response policy, the
  error comes after the point where the request would be put back: the next backend of a failover is
  given the request as this one rewrote it.\<close>

theorem read_error_leaves_rewritten_request:
  assumes "RequestRewrite e = Some p" and "NonstreamResponseRewrite e = Some q"
    and "Bytes b = (Returned (Inr s), b0)"
    and "up (RewriteJSON L (Some x) (Some p) s) = (Some r, None)" and "hr_Stream r = None" and "hr_Body r = Some rb"
    and "Bytes rb = (Returned (Inl er), rb1)"
  shows "rewrite_process L e x ok (Some (call_upstream up)) b =
      (Returned ((None, Some (Wrap ''read response body error'' [er])), fst (CloseBody rb1)),
       SetBytes (Some (RewriteJSON L (Some x) (Some p) s)) b0)"
  using assms by (simp add: rewrite_process_def run_next_def call_upstream_def finish_response_def rewrite_response_def failed_def)

definition demo_lib :: "(string, unit) rewrite_lib" where
  "demo_lib = \<lparr>js_Delete = (\<lambda>s k. (s, None)), js_Set = (\<lambda>s k v. (s @ k @ ''='' @ v @ '';'', None)), ex_Compile = (\<lambda>c. False),
     ex_Run = (\<lambda>c e. Inr None)\<rparr>"

definition model_rewrite :: "string \<Rightarrow> string rewrite_engine" where
  "model_rewrite m = \<lparr>RequestRewrite = Some \<lparr>SetKeys = [(''model'', m)], SetKeysByExpr = [], RemoveKeys = []\<rparr>,
     NonstreamResponseRewrite = None, StreamChunkRewrite = None\<rparr>"

definition demo_answer :: "string body \<Rightarrow> string http_response" where
  "demo_answer b = \<lparr>hr_StatusCode = 200, hr_Header = [], hr_Body = Some b, hr_Stream = None\<rparr>"

definition demo_world :: "(string rewrite_engine \<times> string upstream, string body) lb_world" where
  "demo_world = \<lparr>lw_backends =
      [\<lparr>wb_name = ''a'', wb_weight = 2, wb_engine = (model_rewrite ''big'', \<lambda>s. (None, Some (Plain ''down''))), wb_currentWeight = 0\<rparr>,
       \<lparr>wb_name = ''b'', wb_weight = 1, wb_engine = (model_rewrite ''small'', \<lambda>s. (Some (demo_answer (NewBodyFromBytes (Some s) None)), None)),
        wb_currentWeight = 0\<rparr>],
     lw_meta = None, lw_rest = NewBodyFromBytes (Some ''hi;'') None\<rparr>"

theorem failover_rewrites_the_original_witness:
  "list_all (\<lambda>(n, answer). list_ex (\<lambda>(m, eng). m = n \<and> alone demo_lib () (\<lambda>i. True) eng ''hi;'' = answer) (named_engines (lw_backends demo_world)))
    (fst (fst (wrr_process \<lparr>lb_backends = [], lb_retryTimeout = 30, lb_retryMaxCount = 3\<rparr> \<lparr>elapsed = (\<lambda>n. n), cancelled = (\<lambda>n. False)\<rparr>
       (attempt demo_lib () (\<lambda>i. True)) None () demo_world)))"
proof -
  obtain tried out w' where run: "wrr_process \<lparr>lb_backends = [], lb_retryTimeout = 30, lb_retryMaxCount = 3\<rparr> \<lparr>elapsed = (\<lambda>n. n), cancelled = (\<lambda>n. False)\<rparr>
       (attempt demo_lib () (\<lambda>i. True)) None () demo_world = ((tried, out), w')" by (metis prod.collapse)
  have "fst (Bytes (lw_rest demo_world)) = Returned (Inr ''hi;'')"
    by (simp add: demo_world_def Bytes_def NewBodyFromBytes_def)
  moreover have "list_all (\<lambda>(n, eng). NonstreamResponseRewrite (fst eng) = None) (named_engines (lw_backends demo_world))"
    by (simp add: demo_world_def named_engines_def model_rewrite_def)
  ultimately show ?thesis using failover_rewrites_the_original [OF run] by (simp add: run)
qed

theorem read_error_leaves_rewritten_request_witness:
  "\<exists>er cls. rewrite_process demo_lib ((model_rewrite ''big'')\<lparr>NonstreamResponseRewrite := Some \<lparr>SetKeys = [], SetKeysByExpr = [], RemoveKeys = []\<rparr>\<rparr>) ()
       (\<lambda>i. True) (Some (call_upstream (\<lambda>s. (Some (demo_answer (NewBodyFromReader \<lparr>ReadAll = Inl (Plain ''reset''), closing = None\<rparr> None)), None))))
       (NewBodyFromBytes (Some ''hi;'') None :: unit body) =
     (Returned ((None, Some er), cls), SetBytes (Some ''hi;model=big;'') (NewBodyFromBytes (Some ''hi;'') None))"
proof -
  let ?rb = "NewBodyFromReader \<lparr>ReadAll = Inl (Plain ''reset''), closing = None\<rparr> None :: string body"
  let ?b = "NewBodyFromBytes (Some ''hi;'') None :: unit body"
  have b: "Bytes ?b = (Returned (Inr ''hi;''), ?b)" by (simp add: Bytes_def NewBodyFromBytes_def)
  have rb: "Bytes ?rb = (Returned (Inl (Wrap ''read body error'' [Plain ''reset''])), ?rb)"
    by (simp add: Bytes_def NewBodyFromReader_def read_all_def)
  have j: "RewriteJSON demo_lib (Some ()) (Some \<lparr>SetKeys = [(''model'', ''big'')], SetKeysByExpr = [], RemoveKeys = []\<rparr>) ''hi;'' = ''hi;model=big;''"
    by (simp add: RewriteJSON_def set_key_def demo_lib_def)
  show ?thesis
    by (rule exI, rule exI,
        rule read_error_leaves_rewritten_request [where e = "(model_rewrite ''big'')\<lparr>NonstreamResponseRewrite := Some \<lparr>SetKeys = [], SetKeysByExpr = [], RemoveKeys = []\<rparr>\<rparr>"
          and L = demo_lib and b = ?b and rb = ?rb and r = "demo_answer ?rb" and s = "''hi;''" and x = "()" and p = "\<lparr>SetKeys = [(''model'', ''big'')], SetKeysByExpr = [], RemoveKeys = []\<rparr>",
          unfolded j, OF _ _ b _ _ _ rb])
      (simp_all add: model_rewrite_def demo_answer_def)
qed

end
