(* ===== verification/Endpoint.thy ===== *)
theory Endpoint
  imports SseClient HttpHandler
begin

text \<open>
  \<open>pkg/engines/client/general.go\<close>: the endpoint that serves several API formats of one upstream. Its
  configuration decides which formats it accepts, the URL they go to, the header that carries the key
  and the compression of the body. Also the two endpoints of a single format. The compressors and the environment variable are parameters.
\<close>

section \<open>Formats and configuration\<close>

definition APIFormatChatCompletions :: string where "APIFormatChatCompletions = ''chat/completions''"
definition APIFormatCompletions :: string where "APIFormatCompletions = ''completions''"
definition APIFormatClaudeMessages :: string where "APIFormatClaudeMessages = ''messages''"
definition APIFormatGoogleGenerateContent :: string where "APIFormatGoogleGenerateContent = ''generateContent''"
definition APIFormatEmbeddings :: string where "APIFormatEmbeddings = ''embeddings''"
definition APIFormatRerank :: string where "APIFormatRerank = ''rerank''"
definition APIFormatResponses :: string where "APIFormatResponses = ''responses''"

lemmas format_defs = APIFormatChatCompletions_def APIFormatCompletions_def APIFormatClaudeMessages_def
  APIFormatGoogleGenerateContent_def APIFormatEmbeddings_def APIFormatRerank_def APIFormatResponses_def

text \<open>A request as the endpoint sees it.\<close>

record api_request = request +
  ar_Format :: string
  ar_Bytes :: "err + string"

record general_conf =
  gc_BaseURL :: string
  gc_Endpoints :: "string \<rightharpoonup> string"
  gc_APIKey :: string
  gc_AnthropicAPIKeyAsBearer :: bool
  gc_GoogleAPIKeyAsBearer :: bool
  gc_RequestCompression :: string

section \<open>URLs\<close>

definition default_path :: "string \<Rightarrow> string option" where
  "default_path f =
     (if f = APIFormatClaudeMessages then Some ''/v1/messages''
      else if f = APIFormatChatCompletions then Some ''/v1/chat/completions''
      else if f = APIFormatCompletions then Some ''/v1/completions''
      else if f = APIFormatGoogleGenerateContent then Some ''/v1beta/models/{modelNameWithAction}''
      else if f = APIFormatEmbeddings then Some ''/v1/embeddings''
      else if f = APIFormatRerank then Some ''/v1/rerank''
      else if f = APIFormatResponses then Some ''/v1/responses''
      else None)"

text \<open>\<open>strings.ReplaceAll\<close> of a pattern that is not empty.\<close>

function replace_all :: "string \<Rightarrow> string \<Rightarrow> string \<Rightarrow> string" where
  "replace_all old new [] = []"
| "replace_all old new (c # cs) =
     (if old \<noteq> [] \<and> take (length old) (c # cs) = old then new @ replace_all old new (drop (length old) (c # cs))
      else c # replace_all old new cs)"
  by pat_completeness auto
termination by (relation "measure (\<lambda>(old, new, s). length s)") (auto, linarith?)

definition buildVertexEndpoint :: "string \<Rightarrow> ctx \<Rightarrow> err + string" where
  "buildVertexEndpoint endpoint c =
     (case c ContextKeyModelName of
        Some (CtxStr modelName) \<Rightarrow>
          if modelName = '''' then Inl (Plain ''model name not found in Vertex AI request context'')
          else
            let action = (case c ContextKeyAction of Some (CtxStr a) \<Rightarrow> a | _ \<Rightarrow> '''');
                e1 = replace_all ''{modelNameWithAction}'' (if action \<noteq> '''' then modelName @ '':'' @ action else modelName) endpoint;
                e2 = (if action \<noteq> '''' then replace_all ''{action}'' action e1 else e1)
            in Inr (if c ContextKeyIsSSE = Some (CtxBool True) then e2 @ ''?alt=sse'' else e2)
      | _ \<Rightarrow> Inl (Plain ''model name not found in Vertex AI request context''))"

definition general_getURL :: "general_conf \<Rightarrow> api_request \<Rightarrow> err + string" where
  "general_getURL conf req =
     (case gc_Endpoints conf (ar_Format req) of
        None \<Rightarrow> Inl (Plain ''invalid format'')
      | Some path \<Rightarrow>
          (case (if path \<noteq> '''' then Some path else default_path (ar_Format req)) of
             None \<Rightarrow> Inl (Plain ''invalid format'')
           | Some endpoint \<Rightarrow>
               (case req_ctx req ContextKeyModelName of
                  Some (CtxStr m) \<Rightarrow>
                    (case buildVertexEndpoint endpoint (req_ctx req) of
                       Inl e \<Rightarrow> Inl (Wrap ''failed to build Vertex AI endpoint'' [e])
                     | Inr e \<Rightarrow> Inr (gc_BaseURL conf @ e))
                | _ \<Rightarrow> Inr (gc_BaseURL conf @ endpoint))))"

section \<open>Headers and compression\<close>

text \<open>Header names in their canonical form.\<close>

definition key_header :: "general_conf \<Rightarrow> string \<Rightarrow> api_request \<Rightarrow> http_header \<Rightarrow> http_header" where
  "key_header conf apiKey req h =
     (if ar_Format req = APIFormatClaudeMessages \<and> \<not> gc_AnthropicAPIKeyAsBearer conf then set_header ''X-Api-Key'' apiKey h
      else if ar_Format req = APIFormatGoogleGenerateContent \<and> \<not> gc_GoogleAPIKeyAsBearer conf then set_header ''X-Goog-Api-Key'' apiKey h
      else set_header ''Authorization'' (''Bearer '' @ apiKey) h)"

text \<open>The body that is sent: a modifier that cannot read the body leaves it.\<close>

definition compress :: "(string \<Rightarrow> string) \<Rightarrow> string \<Rightarrow> api_request \<Rightarrow> http_header \<times> string \<Rightarrow> http_header \<times> string" where
  "compress encode name req hb =
     (case ar_Bytes req of
        Inl e \<Rightarrow> hb
      | Inr b \<Rightarrow> (set_header ''Content-Encoding'' name (fst hb), encode b))"

definition general_modify ::
  "(string \<Rightarrow> string) \<Rightarrow> (string \<Rightarrow> string) \<Rightarrow> string \<Rightarrow> general_conf \<Rightarrow> api_request \<Rightarrow> http_header \<times> string \<Rightarrow> http_header \<times> string" where
  "general_modify gzip zstd envKey conf req hb =
     (let apiKey = (if gc_APIKey conf = '''' then envKey else gc_APIKey conf);
          hb1 = (if apiKey \<noteq> '''' then (key_header conf apiKey req (fst hb), snd hb) else hb)
      in if gc_RequestCompression conf = ''gzip'' then compress gzip ''gzip'' req hb1
         else if gc_RequestCompression conf = ''zstd'' then compress zstd ''zstd'' req hb1
         else hb1)"

text \<open>The parsers of replies: the type whose JSON they read, and the framing of a stream.\<close>

definition reply_type :: "string \<Rightarrow> string" where
  "reply_type f =
     (if f = APIFormatChatCompletions then ''openai.ChatCompletionResponse''
      else if f = APIFormatClaudeMessages then ''anthropic.ClaudeMessagesResponse''
      else if f = APIFormatCompletions then ''openai.CompletionResponse''
      else if f = APIFormatGoogleGenerateContent then ''vertex.GenerateContentResponse''
      else if f = APIFormatEmbeddings then ''openai.EmbeddingResponse''
      else if f = APIFormatRerank then ''rerank.RerankResponse''
      else if f = APIFormatResponses then ''openai.ResponsesResponse''
      else ''json.RawMessage'')"

definition chunk_type :: "string \<Rightarrow> string" where
  "chunk_type f =
     (if f = APIFormatChatCompletions then ''openai.ChatCompletionStreamChunk''
      else if f = APIFormatCompletions then ''openai.CompletionStreamChunk''
      else if f = APIFormatClaudeMessages then ''anthropic.ClaudeMessagesStreamEvent''
      else if f = APIFormatGoogleGenerateContent then ''vertex.StreamGenerateContentResponse''
      else if f = APIFormatResponses then ''openai.ResponseStreamChunk''
      else ''json.RawMessage'')"

definition stream_framing :: "api_request \<Rightarrow> string" where
  "stream_framing req =
     (if ar_Format req = APIFormatGoogleGenerateContent \<and> req_ctx req ContextKeyIsSSE \<noteq> Some (CtxBool True) then ''json'' else ''sse'')"

text \<open>\<open>JSONParser\<close> of a type is a parameter.\<close>

definition NewGeneralEndpoint :: "(string \<Rightarrow> 'v parser) \<Rightarrow> string \<Rightarrow> general_conf \<Rightarrow> (api_request, 'v) http_endpoint" where
  "NewGeneralEndpoint JSONParser envKey conf =
     \<lparr>ep_getURL = Some (general_getURL conf),
      ep_reqModifiers =
        (let apiKey = (if gc_APIKey conf = '''' then envKey else gc_APIKey conf)
         in if apiKey \<noteq> '''' then [key_header conf apiKey] else []),
      ep_nonstreamParser = (\<lambda>req. JSONParser (reply_type (ar_Format req))),
      ep_streamParser = (\<lambda>req. (JSONParser (chunk_type (ar_Format req)), stream_framing req))\<rparr>"

section \<open>Endpoints of one format\<close>

text \<open>\<open>openai.go\<close> and \<open>claude.go\<close>. The Claude endpoint parses replies into the types of Anthropic's SDK, not into
  those of \<open>pkg/types/anthropic\<close>.\<close>

definition APIFormatUnknown :: string where "APIFormatUnknown = ''''"

definition single_format_endpoint ::
  "(string \<Rightarrow> 'v parser) \<Rightarrow> string \<Rightarrow> string \<Rightarrow> string \<Rightarrow> string \<Rightarrow> string \<Rightarrow> string \<Rightarrow> string \<Rightarrow> (api_request, 'v) http_endpoint" where
  "single_format_endpoint JSONParser envKey format replyType chunkType baseAddr endpoint apiKey =
     \<lparr>ep_getURL = Some (\<lambda>req. if ar_Format req \<noteq> format \<and> ar_Format req \<noteq> APIFormatUnknown then Inl (Plain ''invalid format'')
                            else Inr (baseAddr @ endpoint)),
      ep_reqModifiers = [\<lambda>req. set_header ''Authorization'' (''Bearer '' @ (if apiKey = '''' then envKey else apiKey))],
      ep_nonstreamParser = (\<lambda>req. JSONParser replyType),
      ep_streamParser = (\<lambda>req. (JSONParser chunkType, ''sse''))\<rparr>"

definition NewOpenAIChatCompletionsEndpoint ::
  "(string \<Rightarrow> 'v parser) \<Rightarrow> string \<Rightarrow> string \<Rightarrow> string \<Rightarrow> string \<Rightarrow> (api_request, 'v) http_endpoint" where
  "NewOpenAIChatCompletionsEndpoint JSONParser envKey =
     single_format_endpoint JSONParser envKey APIFormatChatCompletions ''openai.ChatCompletionResponse'' ''openai.ChatCompletionStreamChunk''"

definition NewClaudeMessagesEndpoint ::
  "(string \<Rightarrow> 'v parser) \<Rightarrow> string \<Rightarrow> string \<Rightarrow> string \<Rightarrow> string \<Rightarrow> (api_request, 'v) http_endpoint" where
  "NewClaudeMessagesEndpoint JSONParser envKey =
     single_format_endpoint JSONParser envKey APIFormatClaudeMessages ''sdk.Message'' ''sdk.BetaRawMessageStreamEventUnion''"


section \<open>Parsers\<close>

text \<open>\<open>json_parser.go\<close>: the marker that ends a stream is not JSON. Unmarshalling, by the library or a generated
  lexer, is a parameter, and so is the test that a value has the parser's type.\<close>

definition JSONParser :: "(string \<Rightarrow> err + 'v) \<Rightarrow> ('v \<Rightarrow> bool) \<Rightarrow> ('v \<Rightarrow> err + string) \<Rightarrow> 'v parser" where
  "JSONParser unmarshal is_T marshal =
     \<lparr>Parse = (\<lambda>data. if TrimSpace data = ''[DONE]'' then (None, Some (Wrap '''' [Sentinel ''ErrStreamDone'']))
                      else case unmarshal data of Inl er \<Rightarrow> (None, Some er) | Inr v \<Rightarrow> (Some v, None)),
      Serialize = (\<lambda>v. if is_T v then marshal v else Inl (Plain ''value is not a pointer to T''))\<rparr>"

text \<open>What the parser made of a text it can write back reads as the same value.\<close>

lemma JSONParser_roundtrip:
  assumes "Serialize (JSONParser unmarshal is_T marshal) v = Inr s" and "unmarshal s = Inr v" and "TrimSpace s \<noteq> ''[DONE]''"
  shows "Parse (JSONParser unmarshal is_T marshal) s = (Some v, None)"
  using assms by (simp add: JSONParser_def)

lemma JSONParser_done: "TrimSpace s = ''[DONE]'' \<Longrightarrow> \<exists>e. Parse (JSONParser unmarshal is_T marshal) s = (None, Some e) \<and> errors_is e ''ErrStreamDone''"
  by (simp add: JSONParser_def)

section \<open>Clients per proxy\<close>

text \<open>\<open>pkg/composer/proxy_client_manager.go\<close>. Parsing a URL and making a client, with a proxy or without one of its
  own, are parameters.\<close>

record 'c proxy_clients =
  pm_cliMap :: "string \<rightharpoonup> 'c"
  pm_defaultClient :: 'c

definition NewProxyClientManager :: "('u option \<Rightarrow> 'c) \<Rightarrow> 'c proxy_clients" where
  "NewProxyClientManager newClient = \<lparr>pm_cliMap = Map.empty, pm_defaultClient = newClient None\<rparr>"

definition GetClient :: "(string \<Rightarrow> err + 'u) \<Rightarrow> ('u option \<Rightarrow> 'c) \<Rightarrow> string \<Rightarrow> 'c proxy_clients \<Rightarrow> 'c \<times> 'c proxy_clients" where
  "GetClient parse newClient proxyURL pcm =
     (if proxyURL = '''' then (pm_defaultClient pcm, pcm)
      else case parse proxyURL of
             Inl er \<Rightarrow> (pm_defaultClient pcm, pcm)
           | Inr u \<Rightarrow>
               (case pm_cliMap pcm proxyURL of
                  Some cli \<Rightarrow> (cli, pcm)
                | None \<Rightarrow> (newClient (Some u), pcm\<lparr>pm_cliMap := (pm_cliMap pcm)(proxyURL \<mapsto> newClient (Some u))\<rparr>)))"

text \<open>The clients kept are those of their URLs, so that the cache cannot be told from making a client each time.\<close>

definition proxy_inv :: "(string \<Rightarrow> err + 'u) \<Rightarrow> ('u option \<Rightarrow> 'c) \<Rightarrow> 'c proxy_clients \<Rightarrow> bool" where
  "proxy_inv parse newClient pcm \<longleftrightarrow> pm_defaultClient pcm = newClient None \<and>
     (\<forall>p cli. pm_cliMap pcm p = Some cli \<longrightarrow> (\<exists>u. parse p = Inr u \<and> cli = newClient (Some u)))"

lemma NewProxyClientManager_inv: "proxy_inv parse newClient (NewProxyClientManager newClient)"
  by (simp add: proxy_inv_def NewProxyClientManager_def)

lemma GetClient_inv:
  assumes "proxy_inv parse newClient pcm"
  shows "proxy_inv parse newClient (snd (GetClient parse newClient p pcm))"
    and "fst (GetClient parse newClient p pcm) = newClient (if p = '''' then None else case parse p of Inl er \<Rightarrow> None | Inr u \<Rightarrow> Some u)"
proof -
  have kept: "cli = newClient (Some u)" if "pm_cliMap pcm p = Some cli" "parse p = Inr u" for p cli u
    using assms that unfolding proxy_inv_def by fastforce
  show "proxy_inv parse newClient (snd (GetClient parse newClient p pcm))"
    using assms by (auto simp: proxy_inv_def GetClient_def split: sum.split option.split)
  show "fst (GetClient parse newClient p pcm) = newClient (if p = '''' then None else case parse p of Inl er \<Rightarrow> None | Inr u \<Rightarrow> Some u)"
    using assms kept by (auto simp: proxy_inv_def GetClient_def split: sum.split option.split)
qed

end
