(* ===== verification/ModelRepo.thy ===== *)
theory ModelRepo
  imports Rewrite Endpoint
begin

text \<open>
  \<open>pkg/composer/model_repo.go\<close> with the backend part of \<open>config_file.go\<close>: backends of models, completed from
  the global backends they refer to, and the chain of engines built for each. A chain is kept as data.
  The maps of extra headers are shared by reference, so they live in an explicit heap.
\<close>

section \<open>Configuration\<close>

text \<open>The address of a map in the heap; \<open>None\<close> is the nil map. A map is the list of its entries.\<close>

type_synonym addr = nat
type_synonym headers = "(string \<times> string) list"
type_synonym header_heap = "headers list"

record 'v backend_conf =
  Use :: string
  BaseURL :: string
  HTTPProxy :: "string option"
  APIKey :: "string option"
  AnthropicAPIKeyAsBearer :: "bool option"
  GoogleAPIKeyAsBearer :: "bool option"
  ExtraHeaders :: "addr option"
  ExtraHeadersByExpr :: "addr option"
  PassThroughHeaders :: "string list option"
  URLPathChat :: "string option"
  URLPathCompletions :: "string option"
  URLPathMessages :: "string option"
  URLPathVertex :: "string option"
  URLPathEmbedding :: "string option"
  URLPathRerank :: "string option"
  URLPathResponses :: "string option"
  RequestCompression :: string
  ConvertToChat :: string
  ConvertToMessages :: string
  ConvertToVertex :: string
  RequestRewrites :: "'v rewrite_policy option"
  ResponseRewrites :: "'v rewrite_policy option"
  StreamChunkRewrites :: "'v rewrite_policy option"
  PostRequestRewrites :: "'v rewrite_policy option"

definition zero_backend :: "'v backend_conf" where
  "zero_backend = \<lparr>Use = '''', BaseURL = '''', HTTPProxy = None, APIKey = None, AnthropicAPIKeyAsBearer = None,
     GoogleAPIKeyAsBearer = None, ExtraHeaders = None, ExtraHeadersByExpr = None, PassThroughHeaders = None, URLPathChat = None,
     URLPathCompletions = None, URLPathMessages = None, URLPathVertex = None, URLPathEmbedding = None, URLPathRerank = None,
     URLPathResponses = None, RequestCompression = '''', ConvertToChat = '''', ConvertToMessages = '''', ConvertToVertex = '''',
     RequestRewrites = None, ResponseRewrites = None, StreamChunkRewrites = None, PostRequestRewrites = None\<rparr>"

section \<open>Merging\<close>

definition set_string :: "string \<Rightarrow> string \<Rightarrow> string" where
  "set_string own old = (if own \<noteq> '''' then own else old)"

definition set_pointer :: "'b option \<Rightarrow> 'b option \<Rightarrow> 'b option" where
  "set_pointer own old = (if own \<noteq> None then own else old)"

text \<open>Entries are written into the map the backend has; a new map is made only when it has none.\<close>

definition write_entries :: "headers \<Rightarrow> headers \<Rightarrow> headers" where
  "write_entries own old = fold (\<lambda>(k, v). AList.update k v) own old"

definition add_headers :: "addr option \<Rightarrow> addr option \<Rightarrow> header_heap \<Rightarrow> addr option \<times> header_heap" where
  "add_headers own old h =
     (case own of
        None \<Rightarrow> (old, h)
      | Some a \<Rightarrow>
          (case old of
             None \<Rightarrow> (Some (length h), h @ [write_entries (h ! a) []])
           | Some g \<Rightarrow> (Some g, h[g := write_entries (h ! a) (h ! g)])))"

definition merge_backend ::
  "(string \<rightharpoonup> 'v backend_conf) \<Rightarrow> 'v backend_conf \<Rightarrow> header_heap \<Rightarrow> 'v backend_conf \<times> header_heap" where
  "merge_backend globals b h =
     (let f = (if Use b \<noteq> '''' then (case globals (Use b) of Some g \<Rightarrow> g | None \<Rightarrow> zero_backend) else zero_backend);
          (headers, h1) = add_headers (ExtraHeaders b) (ExtraHeaders f) h;
          (exprs, h2) = add_headers (ExtraHeadersByExpr b) (ExtraHeadersByExpr f) h1
      in (f\<lparr>BaseURL := set_string (BaseURL b) (BaseURL f),
            HTTPProxy := set_pointer (HTTPProxy b) (HTTPProxy f),
            APIKey := set_pointer (APIKey b) (APIKey f),
            AnthropicAPIKeyAsBearer := set_pointer (AnthropicAPIKeyAsBearer b) (AnthropicAPIKeyAsBearer f),
            GoogleAPIKeyAsBearer := set_pointer (GoogleAPIKeyAsBearer b) (GoogleAPIKeyAsBearer f),
            ExtraHeaders := headers, ExtraHeadersByExpr := exprs,
            PassThroughHeaders := set_pointer (PassThroughHeaders b) (PassThroughHeaders f),
            URLPathChat := set_pointer (URLPathChat b) (URLPathChat f),
            URLPathCompletions := set_pointer (URLPathCompletions b) (URLPathCompletions f),
            URLPathMessages := set_pointer (URLPathMessages b) (URLPathMessages f),
            URLPathVertex := set_pointer (URLPathVertex b) (URLPathVertex f),
            URLPathEmbedding := set_pointer (URLPathEmbedding b) (URLPathEmbedding f),
            URLPathRerank := set_pointer (URLPathRerank b) (URLPathRerank f),
            URLPathResponses := set_pointer (URLPathResponses b) (URLPathResponses f),
            RequestCompression := set_string (RequestCompression b) (RequestCompression f),
            ConvertToChat := set_string (ConvertToChat b) (ConvertToChat f),
            ConvertToMessages := set_string (ConvertToMessages b) (ConvertToMessages f),
            ConvertToVertex := set_string (ConvertToVertex b) (ConvertToVertex f),
            RequestRewrites := policy_Merge (RequestRewrites f) (RequestRewrites b),
            ResponseRewrites := policy_Merge (ResponseRewrites f) (ResponseRewrites b),
            StreamChunkRewrites := policy_Merge (StreamChunkRewrites f) (StreamChunkRewrites b),
            PostRequestRewrites := policy_Merge (PostRequestRewrites f) (PostRequestRewrites b)\<rparr>, h2))"

text \<open>The models and their backends in the order in which the loops visit them.\<close>

type_synonym 'v model_backends = "(string \<times> (string \<times> 'v backend_conf) list) list"

fun merge_backends ::
  "(string \<rightharpoonup> 'v backend_conf) \<Rightarrow> (string \<times> 'v backend_conf) list \<Rightarrow> header_heap \<Rightarrow> (string \<times> 'v backend_conf) list \<times> header_heap" where
  "merge_backends globals [] h = ([], h)"
| "merge_backends globals ((n, b) # bs) h =
     (let (f, h1) = merge_backend globals b h; (fs, h2) = merge_backends globals bs h1 in ((n, f) # fs, h2))"

fun merge_models ::
  "(string \<rightharpoonup> 'v backend_conf) \<Rightarrow> 'v model_backends \<Rightarrow> header_heap \<Rightarrow> 'v model_backends \<times> header_heap" where
  "merge_models globals [] h = ([], h)"
| "merge_models globals ((m, bs) # ms) h =
     (let (fs, h1) = merge_backends globals bs h; (ns, h2) = merge_models globals ms h1 in ((m, fs) # ns, h2))"

section \<open>Chains of engines\<close>

text \<open>The engines of a backend, innermost last. \<open>AddHeaderEngine\<close> keeps the map it is given, the expressions
  are compiled when the engine is built.\<close>

datatype 'v chain =
    GeneralEndpoint general_conf string
  | RewriteEngine "'v rewrite_engine" "'v chain"
  | AddHeaderEngine "string list" "addr option" "'v chain"
  | AddHeaderByExprEngine headers "'v chain"
  | ConvertClaudeRequests "'v chain"

record 'v model_repo =
  modelBackendConfig :: "'v model_backends"
  modelBackendEngine :: "string \<times> string \<rightharpoonup> 'v chain"
  repoHeap :: header_heap

definition NewModelRepoFileBased :: "header_heap \<Rightarrow> 'v model_repo" where
  "NewModelRepoFileBased h = \<lparr>modelBackendConfig = [], modelBackendEngine = Map.empty, repoHeap = h\<rparr>"

definition repo_UpdateFromConfig :: "(string \<rightharpoonup> 'v backend_conf) \<Rightarrow> 'v model_backends \<Rightarrow> 'v model_repo \<Rightarrow> 'v model_repo" where
  "repo_UpdateFromConfig globals models r =
     (let (newBackends, h) = merge_models globals models (repoHeap r)
      in \<lparr>modelBackendConfig = newBackends, modelBackendEngine = Map.empty, repoHeap = h\<rparr>)"

definition GetBackendNamesByModel :: "'v model_repo \<Rightarrow> string \<Rightarrow> string list" where
  "GetBackendNamesByModel r m = (case map_of (modelBackendConfig r) m of None \<Rightarrow> [] | Some bs \<Rightarrow> map fst bs)"

text \<open>A path that is configured as empty switches the format off; one that is not configured is the
  default.\<close>

definition add_endpoint :: "string \<Rightarrow> string option \<Rightarrow> (string \<rightharpoonup> string) \<Rightarrow> (string \<rightharpoonup> string)" where
  "add_endpoint f path m =
     (case path of
        Some p \<Rightarrow> if p \<noteq> '''' then m(f \<mapsto> p) else m
      | None \<Rightarrow> m(f \<mapsto> ''''))"

definition endpoints_of :: "'v backend_conf \<Rightarrow> (string \<rightharpoonup> string)" where
  "endpoints_of b =
     add_endpoint APIFormatGoogleGenerateContent (URLPathVertex b)
       (add_endpoint APIFormatResponses (URLPathResponses b)
         (add_endpoint APIFormatRerank (URLPathRerank b)
           (add_endpoint APIFormatEmbeddings (URLPathEmbedding b)
             (add_endpoint APIFormatClaudeMessages (URLPathMessages b)
               (add_endpoint APIFormatCompletions (URLPathCompletions b)
                 (add_endpoint APIFormatChatCompletions (URLPathChat b) Map.empty))))))"

definition general_conf_of :: "'v backend_conf \<Rightarrow> general_conf" where
  "general_conf_of b =
     \<lparr>gc_BaseURL = BaseURL b, gc_Endpoints = endpoints_of b,
      gc_APIKey = (case APIKey b of Some k \<Rightarrow> k | None \<Rightarrow> ''''),
      gc_AnthropicAPIKeyAsBearer = (AnthropicAPIKeyAsBearer b = Some True),
      gc_GoogleAPIKeyAsBearer = (GoogleAPIKeyAsBearer b = Some True),
      gc_RequestCompression = RequestCompression b\<rparr>"

definition map_at :: "header_heap \<Rightarrow> addr option \<Rightarrow> headers" where
  "map_at h a = (case a of None \<Rightarrow> [] | Some i \<Rightarrow> h ! i)"

text \<open>The layers that \<open>BuildEngineByBackend\<close> puts around the endpoint; \<open>compiles\<close> is \<open>expr.Compile\<close>.\<close>

definition post_rewrite_layer :: "'v backend_conf \<Rightarrow> 'v chain \<Rightarrow> 'v chain" where
  "post_rewrite_layer b c =
     (if PostRequestRewrites b \<noteq> None
      then RewriteEngine \<lparr>RequestRewrite = PostRequestRewrites b, NonstreamResponseRewrite = None, StreamChunkRewrite = None\<rparr> c
      else c)"

definition header_layer :: "header_heap \<Rightarrow> 'v backend_conf \<Rightarrow> 'v chain \<Rightarrow> 'v chain" where
  "header_layer h b c =
     (let pass = (case PassThroughHeaders b of Some ks \<Rightarrow> ks | None \<Rightarrow> [])
      in if map_at h (ExtraHeaders b) \<noteq> [] \<or> pass \<noteq> [] then AddHeaderEngine pass (ExtraHeaders b) c else c)"

definition expr_layer :: "(string \<Rightarrow> bool) \<Rightarrow> headers \<Rightarrow> 'v chain \<Rightarrow> err + 'v chain" where
  "expr_layer compiles exprs c =
     (if exprs = [] then Inr c
      else if list_ex (\<lambda>(k, code). \<not> compiles code) exprs
      then Inl (Wrap ''failed to create AddHeaderByExprEngine'' [Plain ''failed to compile expression''])
      else Inr (AddHeaderByExprEngine exprs c))"

definition converter_layer :: "'v backend_conf \<Rightarrow> 'v chain \<Rightarrow> 'v chain" where
  "converter_layer b c = (if ConvertToMessages b = ''from_chat'' then ConvertClaudeRequests c else c)"

definition rewrite_layer :: "'v backend_conf \<Rightarrow> 'v chain \<Rightarrow> 'v chain" where
  "rewrite_layer b c =
     (if RequestRewrites b \<noteq> None \<or> ResponseRewrites b \<noteq> None \<or> StreamChunkRewrites b \<noteq> None
      then RewriteEngine \<lparr>RequestRewrite = RequestRewrites b, NonstreamResponseRewrite = ResponseRewrites b,
             StreamChunkRewrite = StreamChunkRewrites b\<rparr> c
      else c)"

definition BuildEngineByBackend :: "(string \<Rightarrow> bool) \<Rightarrow> header_heap \<Rightarrow> 'v backend_conf \<Rightarrow> err + 'v chain" where
  "BuildEngineByBackend compiles h b =
     (if list_all (\<lambda>f. endpoints_of b f = None) [APIFormatChatCompletions, APIFormatCompletions, APIFormatClaudeMessages,
           APIFormatEmbeddings, APIFormatRerank, APIFormatResponses, APIFormatGoogleGenerateContent]
      then Inl (Plain ''backend must specify at least one URL path'')
      else case expr_layer compiles (map_at h (ExtraHeadersByExpr b))
                  (header_layer h b (post_rewrite_layer b
                    (GeneralEndpoint (general_conf_of b) (case HTTPProxy b of Some p \<Rightarrow> p | None \<Rightarrow> '''')))) of
             Inl e \<Rightarrow> Inl e
           | Inr c \<Rightarrow> Inr (rewrite_layer b (converter_layer b c)))"

definition repo_GetEngine ::
  "(string \<Rightarrow> bool) \<Rightarrow> string \<Rightarrow> string \<Rightarrow> 'v model_repo \<Rightarrow> (err + 'v chain) \<times> 'v model_repo" where
  "repo_GetEngine compiles m n r =
     (case modelBackendEngine r (m, n) of
        Some e \<Rightarrow> (Inr e, r)
      | None \<Rightarrow>
          (case map_of (modelBackendConfig r) m of
             None \<Rightarrow> (Inl (Plain ''model backend not found''), r)
           | Some bs \<Rightarrow>
               (case map_of bs n of
                  None \<Rightarrow> (Inl (Plain ''model backend not found''), r)
                | Some b \<Rightarrow>
                    (case BuildEngineByBackend compiles (repoHeap r) b of
                       Inl e \<Rightarrow> (Inl (Wrap ''new engine error'' [e]), r)
                     | Inr e \<Rightarrow> (Inr e, r\<lparr>modelBackendEngine := (modelBackendEngine r)((m, n) \<mapsto> e)\<rparr>)))))"

section \<open>Headers\<close>

text \<open>The headers that the engines of a chain set on a request, with the heap as it is when the request
  comes.\<close>

fun chain_headers :: "header_heap \<Rightarrow> 'v chain \<Rightarrow> (string \<rightharpoonup> string)" where
  "chain_headers h (GeneralEndpoint c p) = Map.empty"
| "chain_headers h (RewriteEngine e c) = chain_headers h c"
| "chain_headers h (AddHeaderEngine pass a c) = chain_headers h c ++ map_of (map_at h a)"
| "chain_headers h (AddHeaderByExprEngine a c) = chain_headers h c"
| "chain_headers h (ConvertClaudeRequests c) = chain_headers h c"

fun chain_endpoint :: "'v chain \<Rightarrow> general_conf" where
  "chain_endpoint (GeneralEndpoint c p) = c"
| "chain_endpoint (RewriteEngine e c) = chain_endpoint c"
| "chain_endpoint (AddHeaderEngine pass a c) = chain_endpoint c"
| "chain_endpoint (AddHeaderByExprEngine a c) = chain_endpoint c"
| "chain_endpoint (ConvertClaudeRequests c) = chain_endpoint c"

section \<open>Shared maps\<close>

definition header_keys :: "headers \<Rightarrow> string set" where
  "header_keys hs = fst ` set hs"

definition grows :: "header_heap \<Rightarrow> header_heap \<Rightarrow> bool" where
  "grows h h' \<longleftrightarrow> length h \<le> length h' \<and> (\<forall>i<length h. header_keys (h ! i) \<subseteq> header_keys (h' ! i))"

lemma grows_refl [simp]: "grows h h"
  by (simp add: grows_def)

lemma grows_trans: "grows h h1 \<Longrightarrow> grows h1 h2 \<Longrightarrow> grows h h2"
  unfolding grows_def by (meson dual_order.strict_trans1 order_trans)

lemma write_entries_keys [simp]: "header_keys (write_entries own old) = header_keys old \<union> header_keys own"
  unfolding write_entries_def
proof (induction own arbitrary: old)
  case (Cons kv own)
  have "header_keys (AList.update k v xs) = insert k (header_keys xs)" for k v xs
    by (simp add: header_keys_def dom_update)
  with Cons show ?case by (cases kv) (auto simp: header_keys_def)
qed (simp add: header_keys_def)

lemma update_grows: "header_keys (h ! i) \<subseteq> header_keys (h[g := write_entries own (h ! g)] ! i)"
  by (cases "g < length h"; cases "i = g") (auto simp: list_update_beyond)

lemma add_headers_grows: "grows h (snd (add_headers own old h))"
  using update_grows
  by (auto simp: add_headers_def grows_def nth_append split: option.splits)

lemma add_headers_shared:
  assumes "add_headers own (Some g) h = (a, h1)"
  shows "a = Some g" and "own = Some i \<Longrightarrow> g < length h \<Longrightarrow> header_keys (h ! i) \<subseteq> header_keys (h1 ! g)"
  using assms by (auto simp: add_headers_def split: option.splits)

lemma merge_backend_grows: "grows h (snd (merge_backend globals b h))"
proof -
  define f where "f = (if Use b \<noteq> '''' then (case globals (Use b) of Some g \<Rightarrow> g | None \<Rightarrow> zero_backend) else zero_backend)"
  obtain hd1 h1 where 1: "add_headers (ExtraHeaders b) (ExtraHeaders f) h = (hd1, h1)" by fastforce
  obtain hd2 h2 where 2: "add_headers (ExtraHeadersByExpr b) (ExtraHeadersByExpr f) h1 = (hd2, h2)" by fastforce
  have "snd (merge_backend globals b h) = h2" by (simp add: merge_backend_def f_def [symmetric] 1 2)
  then show ?thesis using grows_trans add_headers_grows [of h] add_headers_grows [of h1] 1 2 by (metis snd_conv)
qed

text \<open>A backend that refers to a global one with extra headers gets the map of the global one, and what it
  adds is in that map.\<close>

lemma merge_backend_shared:
  assumes "merge_backend globals b h = (f, h')" and "globals (Use b) = Some g" and "Use b \<noteq> ''''" and "ExtraHeaders g = Some a"
  shows "ExtraHeaders f = Some a"
    and "ExtraHeaders b = Some i \<Longrightarrow> a < length h \<Longrightarrow> header_keys (h ! i) \<subseteq> header_keys (h' ! a)"
proof -
  obtain hd1 h1 where 1: "add_headers (ExtraHeaders b) (ExtraHeaders g) h = (hd1, h1)" by fastforce
  obtain hd2 h2 where 2: "add_headers (ExtraHeadersByExpr b) (ExtraHeadersByExpr g) h1 = (hd2, h2)" by fastforce
  have f: "ExtraHeaders f = hd1" "h' = h2" using assms(1-3) by (auto simp: merge_backend_def 1 2)
  note s = add_headers_shared [OF 1 [unfolded assms(4)]]
  show "ExtraHeaders f = Some a" by (simp add: f s(1))
  have "grows h1 h2" "grows h h1" using add_headers_grows 1 2 by (metis snd_conv)+
  then show "ExtraHeaders b = Some i \<Longrightarrow> a < length h \<Longrightarrow> header_keys (h ! i) \<subseteq> header_keys (h' ! a)"
    using s(2) unfolding f(2) grows_def by (meson order_less_le_trans order_trans)
qed

lemma merge_backends_grows: "grows h (snd (merge_backends globals bs h))"
proof (induction globals bs h rule: merge_backends.induct)
  case (2 globals n b bs h)
  obtain f h1 where f: "merge_backend globals b h = (f, h1)" by fastforce
  obtain fs h2 where fs: "merge_backends globals bs h1 = (fs, h2)" by fastforce
  have "grows h h1" using merge_backend_grows [of h globals b] f by simp
  moreover have "grows h1 h2" using 2 [OF f [symmetric] refl] fs by simp
  ultimately show ?case using grows_trans by (simp add: f fs)
qed simp

lemma merge_models_grows: "grows h (snd (merge_models globals ms h))"
proof (induction globals ms h rule: merge_models.induct)
  case (2 globals m bs ms h)
  obtain fs h1 where fs: "merge_backends globals bs h = (fs, h1)" by fastforce
  obtain ns h2 where ns: "merge_models globals ms h1 = (ns, h2)" by fastforce
  have "grows h h1" using merge_backends_grows [of h globals bs] fs by simp
  moreover have "grows h1 h2" using 2 [OF fs [symmetric] refl] ns by simp
  ultimately show ?case using grows_trans by (simp add: fs ns)
qed simp

lemma merge_backends_result:
  assumes "(n, b) \<in> set bs" and "distinct (map fst bs)"
  shows "\<exists>h0. grows h h0 \<and> map_of (fst (merge_backends globals bs h)) n = Some (fst (merge_backend globals b h0)) \<and>
    grows (snd (merge_backend globals b h0)) (snd (merge_backends globals bs h))"
  using assms
proof (induction globals bs h rule: merge_backends.induct)
  case (2 globals n' b' bs h)
  show ?case
  proof (cases "n = n'")
    case True
    with 2(2,3) have "b = b'" by (auto simp: image_iff)
    with True show ?thesis using merge_backends_grows by (auto simp: split_beta intro!: exI [of _ h])
  next
    case False
    obtain f h1 where f: "merge_backend globals b' h = (f, h1)" by fastforce
    obtain fs h2 where fs: "merge_backends globals bs h1 = (fs, h2)" by fastforce
    from 2(1) [OF f [symmetric] refl] False 2(2,3) obtain h0 where
      "grows h1 h0" "map_of fs n = Some (fst (merge_backend globals b h0))" "grows (snd (merge_backend globals b h0)) h2"
      by (auto simp: fs)
    moreover have "grows h h1" using merge_backend_grows [of h globals b'] f by simp
    ultimately show ?thesis using False grows_trans by (auto simp: f fs)
  qed
qed simp

lemma merge_models_result:
  assumes "(m, bs) \<in> set ms" and "(n, b) \<in> set bs" and "distinct (map fst ms)" and "distinct (map fst bs)"
  shows "\<exists>h0 fs. grows h h0 \<and> map_of (fst (merge_models globals ms h)) m = Some fs \<and> map_of fs n = Some (fst (merge_backend globals b h0)) \<and>
    grows (snd (merge_backend globals b h0)) (snd (merge_models globals ms h))"
  using assms
proof (induction globals ms h rule: merge_models.induct)
  case (2 globals m' bs' ms h)
  obtain fs h1 where fs: "merge_backends globals bs' h = (fs, h1)" by fastforce
  obtain ns h2 where ns: "merge_models globals ms h1 = (ns, h2)" by fastforce
  show ?case
  proof (cases "m = m'")
    case True
    with 2(2,4) have "bs = bs'" by (auto simp: image_iff)
    with merge_backends_result [OF 2(3,5), of h globals] fs obtain h0 where
      "grows h h0" "map_of fs n = Some (fst (merge_backend globals b h0))" "grows (snd (merge_backend globals b h0)) h1" by auto
    moreover have "grows h1 h2" using merge_models_grows [of h1 globals ms] ns by simp
    ultimately show ?thesis using True grows_trans by (auto simp: fs ns intro!: exI [of _ h0])
  next
    case False
    from 2(1) [OF fs [symmetric] refl] False 2(2-5) obtain h0 fs' where
      "grows h1 h0" "map_of ns m = Some fs'" "map_of fs' n = Some (fst (merge_backend globals b h0))" "grows (snd (merge_backend globals b h0)) h2"
      by (auto simp: ns)
    moreover have "grows h h1" using merge_backends_grows [of h globals bs'] fs by simp
    ultimately show ?thesis using False grows_trans by (auto simp: fs ns)
  qed
qed simp

lemma layer_simps [simp]:
  "chain_headers h (rewrite_layer b c) = chain_headers h c" "chain_headers h (converter_layer b c) = chain_headers h c"
  "chain_headers h (post_rewrite_layer b c) = chain_headers h c"
  "map_at h' (ExtraHeaders b) \<noteq> [] \<Longrightarrow> chain_headers h (header_layer h' b c) = chain_headers h c ++ map_of (map_at h (ExtraHeaders b))"
  "chain_endpoint (rewrite_layer b c) = chain_endpoint c" "chain_endpoint (converter_layer b c) = chain_endpoint c"
  "chain_endpoint (post_rewrite_layer b c) = chain_endpoint c" "chain_endpoint (header_layer h' b c) = chain_endpoint c"
  by (auto simp: rewrite_layer_def converter_layer_def post_rewrite_layer_def header_layer_def split: option.splits)

lemma build_headers:
  assumes "BuildEngineByBackend compiles h b = Inr c" and "ExtraHeaders b = Some a" and "k \<in> header_keys (h ! a)"
  shows "chain_headers h c k \<noteq> None"
proof -
  have "h ! a \<noteq> []" "map_of (h ! a) k \<noteq> None" using assms(3) by (auto simp: header_keys_def map_of_eq_None_iff)
  then show ?thesis
    using assms(1,2) by (auto simp: BuildEngineByBackend_def expr_layer_def map_at_def split: if_splits)
qed

text \<open>C26: Extra headers leak between backends. A backend that refers to a global backend with extra headers writes
  its own headers into the map of the global one: in whatever order the configuration is read, the
  engine built for any other backend, of any model, that refers to the same global backend sends them
  too.\<close>

theorem extra_headers_leak:
  assumes "globals u = Some g" and "u \<noteq> ''''" and "ExtraHeaders g = Some a" and "a < length (repoHeap r)"
    and "(m1, bs1) \<in> set models" and "(n1, b1) \<in> set bs1" and "Use b1 = u" and "ExtraHeaders b1 = Some i"
    and "k \<in> header_keys (repoHeap r ! i)" and "i < length (repoHeap r)"
    and "(m2, bs2) \<in> set models" and "(n2, b2) \<in> set bs2" and "Use b2 = u"
    and "distinct (map fst models)" and "distinct (map fst bs1)" and "distinct (map fst bs2)"
    and "repo_UpdateFromConfig globals models r = r1" and "repo_GetEngine compiles m2 n2 r1 = (Inr c, r2)"
  shows "chain_headers (repoHeap r1) c k \<noteq> None"
proof -
  define h where "h = repoHeap r"
  obtain ns h' where merged: "merge_models globals models h = (ns, h')" by fastforce
  have r1: "r1 = \<lparr>modelBackendConfig = ns, modelBackendEngine = Map.empty, repoHeap = h'\<rparr>"
    using assms(17) by (simp add: repo_UpdateFromConfig_def h_def [symmetric] merged)
  from merge_models_result [OF assms(5,6,14,15), of h globals] merged obtain h1 where
    h1: "grows h h1" "grows (snd (merge_backend globals b1 h1)) h'" by auto
  have "k \<in> header_keys (h1 ! i)" "a < length h1" using h1(1) assms(4,9,10) by (auto simp: grows_def h_def)
  then have "k \<in> header_keys (snd (merge_backend globals b1 h1) ! a)"
    using merge_backend_shared(2) [OF surjective_pairing, of globals b1 g a i h1] assms(1,2,3,7,8) by blast
  moreover have "a < length (snd (merge_backend globals b1 h1))"
    using merge_backend_grows [of h1 globals b1] \<open>a < length h1\<close> by (simp add: grows_def)
  ultimately have k: "k \<in> header_keys (h' ! a)" using h1(2) by (auto simp: grows_def)
  from merge_models_result [OF assms(11,12,14,16), of h globals] merged obtain h2 fs where
    h2: "map_of ns m2 = Some fs" "map_of fs n2 = Some (fst (merge_backend globals b2 h2))" by auto
  have e: "ExtraHeaders (fst (merge_backend globals b2 h2)) = Some a"
    using merge_backend_shared(1) [OF surjective_pairing, of globals b2 g a h2] assms(1,2,3,13) by simp
  have "BuildEngineByBackend compiles h' (fst (merge_backend globals b2 h2)) = Inr c"
    using assms(18) h2 by (auto simp: repo_GetEngine_def r1 split: sum.splits)
  from build_headers [OF this e k] show ?thesis by (simp add: r1)
qed

definition shared_globals :: "string \<rightharpoonup> unit backend_conf" where
  "shared_globals = [''up'' \<mapsto> zero_backend\<lparr>BaseURL := ''https://up'', ExtraHeaders := Some 0\<rparr>]"

definition two_models :: "unit model_backends" where
  "two_models = [(''m1'', [(''default:1'', zero_backend\<lparr>Use := ''up'', ExtraHeaders := Some 1\<rparr>)]),
                 (''m2'', [(''default:1'', zero_backend\<lparr>Use := ''up''\<rparr>)])]"

definition two_models_repo :: "unit model_repo" where
  "two_models_repo = repo_UpdateFromConfig shared_globals two_models
     (NewModelRepoFileBased [[(''X-Team'', ''all'')], [(''X-Token'', ''secret of m1'')]])"

lemma build_plain: "URLPathChat b = None \<Longrightarrow> ExtraHeadersByExpr b = None \<Longrightarrow> \<exists>c. BuildEngineByBackend compiles h b = Inr c"
  by (auto simp: BuildEngineByBackend_def expr_layer_def map_at_def endpoints_of_def add_endpoint_def split: option.splits)

theorem extra_headers_leak_witness:
  "\<exists>c r2. repo_GetEngine (\<lambda>code. True) ''m2'' ''default:1'' two_models_repo = (Inr c, r2) \<and>
     chain_headers (repoHeap two_models_repo) c ''X-Token'' \<noteq> None"
proof -
  let ?b1 = "zero_backend\<lparr>Use := ''up'', ExtraHeaders := Some 1\<rparr> :: unit backend_conf"
  let ?b2 = "zero_backend\<lparr>Use := ''up''\<rparr> :: unit backend_conf"
  let ?g = "zero_backend\<lparr>BaseURL := ''https://up'', ExtraHeaders := Some 0\<rparr> :: unit backend_conf"
  let ?r = "NewModelRepoFileBased [[(''X-Team'', ''all'')], [(''X-Token'', ''secret of m1'')]] :: unit model_repo"
  define f h where "f = fst (merge_backend shared_globals ?b2 (snd (merge_backend shared_globals ?b1 (repoHeap ?r))))"
    and "h = repoHeap two_models_repo"
  have "URLPathChat f = None" "ExtraHeadersByExpr f = None"
    by (simp_all add: f_def merge_backend_def shared_globals_def zero_backend_def add_headers_def set_pointer_def)
  then obtain c where c: "BuildEngineByBackend (\<lambda>code. True) h f = Inr c" using build_plain by blast
  have conf: "modelBackendConfig two_models_repo = [(''m1'', [(''default:1'', fst (merge_backend shared_globals ?b1 (repoHeap ?r)))]), (''m2'', [(''default:1'', f)])]"
    and cache: "modelBackendEngine two_models_repo = Map.empty"
    by (simp_all add: two_models_repo_def repo_UpdateFromConfig_def two_models_def f_def split_beta)
  have get: "repo_GetEngine (\<lambda>code. True) ''m2'' ''default:1'' two_models_repo =
      (Inr c, two_models_repo\<lparr>modelBackendEngine := [(''m2'', ''default:1'') \<mapsto> c]\<rparr>)"
    by (simp add: repo_GetEngine_def conf cache c h_def [symmetric])
  have "chain_headers (repoHeap two_models_repo) c ''X-Token'' \<noteq> None"
    by (rule extra_headers_leak [of shared_globals "''up''" ?g 0 ?r "''m1''" "[(''default:1'', ?b1)]" two_models "''default:1''" ?b1 1 "''X-Token''"
        "''m2''" "[(''default:1'', ?b2)]" "''default:1''" ?b2 _ _ c, OF _ _ _ _ _ _ _ _ _ _ _ _ _ _ _ _ _ get])
      (simp_all add: shared_globals_def two_models_def NewModelRepoFileBased_def header_keys_def two_models_repo_def zero_backend_def)
  with get show ?thesis by blast
qed

section \<open>Formats\<close>

text \<open>The path configured for a format; an unknown format has none.\<close>

definition url_path :: "'v backend_conf \<Rightarrow> string \<Rightarrow> string option" where
  "url_path b f =
     (let configured = (if f = APIFormatChatCompletions then Some (URLPathChat b)
          else if f = APIFormatCompletions then Some (URLPathCompletions b)
          else if f = APIFormatClaudeMessages then Some (URLPathMessages b)
          else if f = APIFormatEmbeddings then Some (URLPathEmbedding b)
          else if f = APIFormatRerank then Some (URLPathRerank b)
          else if f = APIFormatResponses then Some (URLPathResponses b)
          else if f = APIFormatGoogleGenerateContent then Some (URLPathVertex b) else None)
      in case configured of
           None \<Rightarrow> None
         | Some None \<Rightarrow> default_path f
         | Some (Some p) \<Rightarrow> if p = '''' then None else Some p)"

lemma build_endpoint: "BuildEngineByBackend compiles h b = Inr c \<Longrightarrow> chain_endpoint c = general_conf_of b"
  by (auto simp: BuildEngineByBackend_def expr_layer_def split: if_splits)

lemma add_endpoint_simps [simp]:
  "g \<noteq> f \<Longrightarrow> add_endpoint g p m f = m f"
  "add_endpoint f None m f = Some ''''" "add_endpoint f (Some q) m f = (if q = '''' then m f else Some q)"
  by (auto simp: add_endpoint_def split: option.splits)

lemma endpoints_of_path:
  "(case endpoints_of b f of None \<Rightarrow> None | Some q \<Rightarrow> if q \<noteq> '''' then Some q else default_path f) = url_path b f"
proof -
  note defs = endpoints_of_def url_path_def format_defs default_path_def
  consider "f = APIFormatChatCompletions" | "f = APIFormatCompletions" | "f = APIFormatClaudeMessages" | "f = APIFormatEmbeddings"
    | "f = APIFormatRerank" | "f = APIFormatResponses" | "f = APIFormatGoogleGenerateContent"
    | "f \<notin> {APIFormatChatCompletions, APIFormatCompletions, APIFormatClaudeMessages, APIFormatEmbeddings, APIFormatRerank,
          APIFormatResponses, APIFormatGoogleGenerateContent}" by blast
  then show ?thesis
  proof cases
    case 1 then show ?thesis by (cases "URLPathChat b") (simp_all add: defs)
  next
    case 2 then show ?thesis by (cases "URLPathCompletions b") (simp_all add: defs)
  next
    case 3 then show ?thesis by (cases "URLPathMessages b") (simp_all add: defs)
  next
    case 4 then show ?thesis by (cases "URLPathEmbedding b") (simp_all add: defs)
  next
    case 5 then show ?thesis by (cases "URLPathRerank b") (simp_all add: defs)
  next
    case 6 then show ?thesis by (cases "URLPathResponses b") (simp_all add: defs)
  next
    case 7 then show ?thesis by (cases "URLPathVertex b") (simp_all add: defs)
  next
    case 8 then show ?thesis by (auto simp: endpoints_of_def url_path_def)
  qed
qed

text \<open>The engine of a backend serves exactly the formats whose path is not switched off, at the base URL
  followed by the configured or the default path.\<close>

lemma configured_paths_are_served:
  fixes b :: "'v backend_conf"
  assumes "BuildEngineByBackend compiles h b = Inr c" and "req_ctx req ContextKeyModelName = None"
  shows "general_getURL (chain_endpoint c) req =
    (case url_path b (ar_Format req) of None \<Rightarrow> Inl (Plain ''invalid format'') | Some q \<Rightarrow> Inr (BaseURL b @ q))"
  using assms(2)
  by (auto simp: general_getURL_def build_endpoint [OF assms(1)] general_conf_of_def endpoints_of_path [symmetric]
    split: option.splits if_splits)

end
