(* ===== verification/Composer.thy ===== *)
theory Composer
  imports RuleEngine ModelRepo
begin

text \<open>
  \<open>pkg/composer/rule_composer.go\<close> with the rest of \<open>config_file.go\<close>: which engine an organisation gets
  for a model. A composed engine is a load balancer over the model's backends, or a chain of rules that
  deny or balance. Balancers are shared by the rules of an engine, so they live in the composer's state
  and are named by their address. Pointers of the configuration are not nil, except where
  \<open>option\<close> says so; the limits and tags of the configuration, which no code reads, are left out.
\<close>

section \<open>Configuration\<close>

record rule_conf =
  rc_Name :: string
  MatchExpr :: string
  Deny :: "deny_engine option"
  ForwardWeights :: "(string \<times> int) list"

record 'v model_conf =
  Access :: string
  Backends :: "(string \<times> 'v backend_conf) list"
  DefaultRules :: "rule_conf list"

text \<open>The keys of an organisation by user, and its settings by model; an entry without a value is a nil
  pointer.\<close>

record user_org =
  APIKeys :: "(string \<times> string) list"
  OrgModels :: "(string \<times> rule_conf list option) list"

record 'v config_file =
  GlobalBackends :: "string \<rightharpoonup> 'v backend_conf"
  Models :: "(string \<times> 'v model_conf) list"
  Users :: "(string \<times> user_org) list"

definition ModelAccessInternal :: string where "ModelAccessInternal = ''internal''"
definition ModelAccessPrivate :: string where "ModelAccessPrivate = ''private''"

section \<open>Engines\<close>

datatype target = DenyTarget deny_engine | BalanceTarget nat

text \<open>The rules are the chain \<open>default\<close> of a rule engine.\<close>

datatype composed = BalancedEngine nat | RulesEngine "target rule list"

record 'v rule_composer =
  co_modelRepo :: "'v model_repo"
  co_conf :: "'v config_file option"
  co_lbRetryTimeout :: int
  co_lbRetryCount :: int
  co_orgModelEngine :: "string \<times> string \<rightharpoonup> composed"
  co_balancers :: "'v chain wrr list"

definition NewRuleRepoFileBased :: "'v model_repo \<Rightarrow> int \<Rightarrow> int \<Rightarrow> 'v rule_composer" where
  "NewRuleRepoFileBased r timeout count = \<lparr>co_modelRepo = r, co_conf = None, co_lbRetryTimeout = timeout, co_lbRetryCount = count,
     co_orgModelEngine = Map.empty, co_balancers = []\<rparr>"

definition composer_UpdateFromConfig :: "'v config_file \<Rightarrow> 'v rule_composer \<Rightarrow> 'v rule_composer" where
  "composer_UpdateFromConfig conf st = st\<lparr>co_conf := Some conf\<rparr>"

section \<open>Backends for a load balancer\<close>

text \<open>\<open>get\<close> is \<open>GetEngine\<close> of the repository; a backend whose engine cannot be built is skipped.\<close>

fun lb_items ::
  "(string \<Rightarrow> 'r \<Rightarrow> (err + 'e) \<times> 'r) \<Rightarrow> (string \<times> int) list \<Rightarrow> 'r \<Rightarrow> ('e, unit) backend_item list \<times> 'r" where
  "lb_items get [] r = ([], r)"
| "lb_items get ((n, w) # ns) r =
     (case get n r of
        (Inl e, r1) \<Rightarrow> lb_items get ns r1
      | (Inr e, r1) \<Rightarrow>
          let (items, r2) = lb_items get ns r1
          in (\<lparr>bi_Name = n, bi_Weight = w, bi_Engine = e, bi_MaxConcurrencyFn = None, bi_CacheMissMaxUtilization = 0\<rparr> # items, r2))"

definition is_default :: "string \<Rightarrow> bool" where
  "is_default n \<longleftrightarrow> take 8 n = ''default:''"

text \<open>A new balancer over some backends, and its address. \<open>rnd a\<close> are the draws of the balancer at
  address \<open>a\<close>.\<close>

definition new_balancer ::
  "(nat \<Rightarrow> rand) \<Rightarrow> ('v chain, unit) backend_item list \<Rightarrow> 'v rule_composer \<Rightarrow> (err + nat) \<times> 'v rule_composer" where
  "new_balancer rnd items st =
     (case NewWeightedRoundRobin (rnd (length (co_balancers st))) items (co_lbRetryTimeout st) (co_lbRetryCount st) of
        Inl e \<Rightarrow> (Inl (Wrap ''failed to build weighted round robin load balancer'' [e]), st)
      | Inr l \<Rightarrow> (Inr (length (co_balancers st)), st\<lparr>co_balancers := co_balancers st @ [l]\<rparr>))"

definition repo_items ::
  "(string \<Rightarrow> bool) \<Rightarrow> string \<Rightarrow> (string \<times> int) list \<Rightarrow> 'v rule_composer
    \<Rightarrow> ('v chain, unit) backend_item list \<times> 'v rule_composer" where
  "repo_items compiles m ws st =
     (let (items, r) = lb_items (repo_GetEngine compiles m) ws (co_modelRepo st) in (items, st\<lparr>co_modelRepo := r\<rparr>))"

definition buildDefaultEngine ::
  "(string \<Rightarrow> bool) \<Rightarrow> (nat \<Rightarrow> rand) \<Rightarrow> string \<Rightarrow> 'v rule_composer \<Rightarrow> (err + nat) \<times> 'v rule_composer" where
  "buildDefaultEngine compiles rnd m st =
     (let backendNames = GetBackendNamesByModel (co_modelRepo st) m
      in if backendNames = [] then (Inl (Plain ''no backend found for model''), st)
         else let (items, st1) = repo_items compiles m (map (\<lambda>n. (n, 100)) (filter is_default backendNames)) st
              in if items = [] then (Inl (Plain ''no default backend found for model''), st1)
                 else new_balancer rnd items st1)"

definition rule_matcher :: "rule_conf \<Rightarrow> matcher" where
  "rule_matcher rc = (if MatchExpr rc = '''' then AlwaysTrueMatcher else ExprMatcher (MatchExpr rc))"

text \<open>The default engine is nil when it could not be built.\<close>

definition buildRuleEngineRuleByConfig ::
  "(string \<Rightarrow> bool) \<Rightarrow> (nat \<Rightarrow> rand) \<Rightarrow> string \<Rightarrow> target option \<Rightarrow> rule_conf \<Rightarrow> 'v rule_composer
    \<Rightarrow> (err + target rule) \<times> 'v rule_composer" where
  "buildRuleEngineRuleByConfig compiles rnd m defaultEngine rc st =
     (let mk = (\<lambda>e. \<lparr>rule_Name = rc_Name rc, rule_Matcher = rule_matcher rc, rule_Engine = e\<rparr>)
      in case Deny rc of
           Some d \<Rightarrow> (Inr (mk (Some (DenyTarget d))), st)
         | None \<Rightarrow>
             (let (items, st1) = repo_items compiles m (ForwardWeights rc) st
              in if items = [] then (Inr (mk defaultEngine), st1)
                 else (case new_balancer rnd items st1 of
                         (Inl e, st2) \<Rightarrow> (Inl e, st2)
                       | (Inr a, st2) \<Rightarrow> (Inr (mk (Some (BalanceTarget a))), st2))))"

fun build_rules ::
  "(string \<Rightarrow> bool) \<Rightarrow> (nat \<Rightarrow> rand) \<Rightarrow> string \<Rightarrow> target option \<Rightarrow> rule_conf list \<Rightarrow> 'v rule_composer
    \<Rightarrow> (err + target rule list) \<times> 'v rule_composer" where
  "build_rules compiles rnd m defaultEngine [] st = (Inr [], st)"
| "build_rules compiles rnd m defaultEngine (rc # rcs) st =
     (case buildRuleEngineRuleByConfig compiles rnd m defaultEngine rc st of
        (Inl e, st1) \<Rightarrow> (Inl (Wrap ''failed to build rule engine rule by config'' [e]), st1)
      | (Inr r, st1) \<Rightarrow>
          (case build_rules compiles rnd m defaultEngine rcs st1 of
             (Inl e, st2) \<Rightarrow> (Inl e, st2)
           | (Inr rs, st2) \<Rightarrow> (Inr (r # rs), st2)))"

definition fallback_rule :: "target option \<Rightarrow> target rule" where
  "fallback_rule defaultEngine = \<lparr>rule_Name = ''fallback'', rule_Matcher = AlwaysTrueMatcher, rule_Engine = defaultEngine\<rparr>"

definition buildEngineByRuleList ::
  "(string \<Rightarrow> bool) \<Rightarrow> (nat \<Rightarrow> rand) \<Rightarrow> rule_conf list \<Rightarrow> string \<Rightarrow> target option \<Rightarrow> 'v rule_composer
    \<Rightarrow> (err + composed) \<times> 'v rule_composer" where
  "buildEngineByRuleList compiles rnd rcs m defaultEngine st =
     (case build_rules compiles rnd m defaultEngine rcs st of
        (Inl e, st1) \<Rightarrow> (Inl e, st1)
      | (Inr rs, st1) \<Rightarrow> (Inr (RulesEngine (rs @ [fallback_rule defaultEngine])), st1))"

section \<open>Access\<close>

text \<open>The entry of an organisation for a model; \<open>Some None\<close> is an entry that is nil.\<close>

definition org_model :: "'v config_file \<Rightarrow> string \<Rightarrow> string \<Rightarrow> rule_conf list option option" where
  "org_model conf org m =
     (if org = '''' then None
      else case map_of (Users conf) org of None \<Rightarrow> None | Some u \<Rightarrow> map_of (OrgModels u) m)"

definition not_found_error :: err where
  "not_found_error = Handler (Some (Plain ''model not found'')) 404 ''Model Not Found'' ''not_found_error'' None ''model_not_found'' []"

definition unauthorized :: "string \<Rightarrow> string \<Rightarrow> err" where
  "unauthorized reason code = Handler (Some (Plain reason)) 401 ''Unauthorized'' ''authentication_error'' None code []"

definition access_error :: "'v config_file \<Rightarrow> string \<Rightarrow> string \<Rightarrow> 'v model_conf \<Rightarrow> err option" where
  "access_error conf org m mc =
     (if Access mc = ModelAccessInternal
      then if org = '''' then Some (unauthorized ''org name is required for internal model'' ''authentication_required'') else None
      else if Access mc = ModelAccessPrivate
      then if org_model conf org m = None then Some (unauthorized ''org has no access to model'' ''model_access_denied'') else None
      else None)"

definition final_rules :: "'v config_file \<Rightarrow> string \<Rightarrow> string \<Rightarrow> 'v model_conf \<Rightarrow> rule_conf list" where
  "final_rules conf org m mc =
     (case org_model conf org m of Some (Some rules) \<Rightarrow> rules @ DefaultRules mc | _ \<Rightarrow> DefaultRules mc)"

text \<open>Building the engine for an organisation and a model it has access to.\<close>

definition build_engine ::
  "(string \<Rightarrow> bool) \<Rightarrow> (nat \<Rightarrow> rand) \<Rightarrow> rule_conf list \<Rightarrow> string \<Rightarrow> 'v rule_composer \<Rightarrow> (err + composed) \<times> 'v rule_composer" where
  "build_engine compiles rnd rules m st =
     (let (dflt, st1) = buildDefaultEngine compiles rnd m st
      in if rules = []
         then (case dflt of
                 Inl e \<Rightarrow> (Inl (Wrap ''failed to build default engine'' [e]), st1)
               | Inr a \<Rightarrow> (Inr (BalancedEngine a), st1))
         else (case buildEngineByRuleList compiles rnd rules m (case dflt of Inl e \<Rightarrow> None | Inr a \<Rightarrow> Some (BalanceTarget a)) st1 of
                 (Inl e, st2) \<Rightarrow> (Inl (Wrap ''failed to build engine by rule list'' [e]), st2)
               | (Inr e, st2) \<Rightarrow> (Inr e, st2)))"

definition composer_getEngine ::
  "(string \<Rightarrow> bool) \<Rightarrow> (nat \<Rightarrow> rand) \<Rightarrow> string \<Rightarrow> string \<Rightarrow> 'v rule_composer \<Rightarrow> (err + composed) outcome \<times> 'v rule_composer" where
  "composer_getEngine compiles rnd org m st =
     (case co_orgModelEngine st (org, m) of
        Some e \<Rightarrow> (Returned (Inr e), st)
      | None \<Rightarrow>
          (case co_conf st of
             None \<Rightarrow> (Panicked, st)
           | Some conf \<Rightarrow>
               (case map_of (Models conf) m of
                  None \<Rightarrow> (Returned (Inl not_found_error), st)
                | Some mc \<Rightarrow>
                    (case access_error conf org m mc of
                       Some e \<Rightarrow> (Returned (Inl e), st)
                     | None \<Rightarrow>
                         (case build_engine compiles rnd (final_rules conf org m mc) m st of
                            (Inl e, st1) \<Rightarrow> (Returned (Inl e), st1)
                          | (Inr e, st1) \<Rightarrow>
                              (Returned (Inr e), st1\<lparr>co_orgModelEngine := (co_orgModelEngine st1)((org, m) \<mapsto> e)\<rparr>))))))"

section \<open>What building keeps\<close>

text \<open>The parts of the state that building an engine does not touch, and the balancers it only adds to.\<close>

definition model_chains :: "(string \<Rightarrow> bool) \<Rightarrow> 'v model_repo \<Rightarrow> string \<Rightarrow> 'v chain set" where
  "model_chains compiles r m = {c. \<exists>bs n b. map_of (modelBackendConfig r) m = Some bs \<and> map_of bs n = Some b \<and>
     BuildEngineByBackend compiles (repoHeap r) b = Inr c}"

definition repo_inv :: "(string \<Rightarrow> bool) \<Rightarrow> 'v model_repo \<Rightarrow> bool" where
  "repo_inv compiles r \<longleftrightarrow> (\<forall>m n c. modelBackendEngine r (m, n) = Some c \<longrightarrow> c \<in> model_chains compiles r m)"

definition extends_composer :: "(string \<Rightarrow> bool) \<Rightarrow> 'v rule_composer \<Rightarrow> 'v rule_composer \<Rightarrow> bool" where
  "extends_composer compiles st st' \<longleftrightarrow> co_conf st' = co_conf st \<and> co_orgModelEngine st' = co_orgModelEngine st \<and>
     (repo_inv compiles (co_modelRepo st) \<longrightarrow> repo_inv compiles (co_modelRepo st')) \<and>
     (\<exists>ls. co_balancers st' = co_balancers st @ ls) \<and> modelBackendConfig (co_modelRepo st') = modelBackendConfig (co_modelRepo st) \<and>
     repoHeap (co_modelRepo st') = repoHeap (co_modelRepo st) \<and>
     modelBackendEngine (co_modelRepo st) \<subseteq>\<^sub>m modelBackendEngine (co_modelRepo st')"

lemma extends_refl [simp]: "extends_composer compiles st st"
  by (simp add: extends_composer_def)

lemma extends_trans [trans]: "extends_composer compiles st st1 \<Longrightarrow> extends_composer compiles st1 st2 \<Longrightarrow> extends_composer compiles st st2"
  by (auto simp: extends_composer_def intro: map_le_trans)

section \<open>The repository as an interface\<close>

text \<open>What the composer relies on: an engine that was built stays, the backends of a model do not
  change, and a backend that is served is one of the model's.\<close>

locale backend_repo =
  fixes names :: "'r \<Rightarrow> string \<Rightarrow> string list"
    and get :: "string \<Rightarrow> string \<Rightarrow> 'r \<Rightarrow> (err + 'e) \<times> 'r"
    and built :: "'r \<Rightarrow> string \<times> string \<rightharpoonup> 'e"
  assumes get_names: "names (snd (get m n r)) = names r"
    and get_built: "get m n r = (Inr e, r1) \<Longrightarrow> built r1 (m, n) = Some e"
    and built_kept: "built r \<subseteq>\<^sub>m built (snd (get m n r))"
    and built_served: "built r (m, n) = Some e \<Longrightarrow> get m n r = (Inr e, r)"
begin

lemma items_keep: "names (snd (lb_items (get m) ns r)) = names r \<and> built r \<subseteq>\<^sub>m built (snd (lb_items (get m) ns r))"
proof (induction "get m" ns r rule: lb_items.induct)
  case (2 n w ns r)
  show ?case
    using 2 get_names [of m n r] built_kept [of r m n]
    by (auto split: sum.splits prod.splits intro: map_le_trans)
qed simp

lemma items_built:
  "it \<in> set (fst (lb_items (get m) ns r)) \<Longrightarrow> built (snd (lb_items (get m) ns r)) (m, bi_Name it) = Some (bi_Engine it)"
proof (induction "get m" ns r rule: lb_items.induct)
  case (2 n w ns r)
  obtain x r1 where g: "get m n r = (x, r1)" by fastforce
  show ?case
  proof (cases x)
    case (Inl e)
    with 2 g show ?thesis by simp
  next
    case (Inr e)
    have "built (snd (lb_items (get m) ns r1)) (m, n) = Some e"
      using get_built [of m n r e r1] items_keep [of m ns r1] g Inr by (metis domI map_le_def)
    then show ?thesis
      using 2(2) [OF g [symmetric], of e] 2(3) g Inr by (auto simp: case_prod_beta Let_def)
  qed
qed simp

text \<open>Items built earlier are still current later, so balancers of one model share the engines.\<close>

lemma items_again:
  assumes "it \<in> set (fst (lb_items (get m) ns r))" and "built (snd (lb_items (get m) ns r)) \<subseteq>\<^sub>m built r'"
  shows "get m (bi_Name it) r' = (Inr (bi_Engine it), r')"
  using items_built [OF assms(1)] assms(2) built_served by (metis domI map_le_def)

lemma items_names: "bi_Name ` set (fst (lb_items (get m) ns r)) \<subseteq> fst ` set ns"
proof (induction "get m" ns r rule: lb_items.induct)
  case (2 n w ns r)
  obtain x r1 where g: "get m n r = (x, r1)" by fastforce
  show ?case
    using 2(1) [OF g [symmetric]] 2(2) [OF g [symmetric]] g by (cases x) (auto simp: case_prod_beta Let_def)
qed simp

end

lemma repo_get_simps:
  "modelBackendConfig (snd (repo_GetEngine compiles m n r)) = modelBackendConfig r"
  "repoHeap (snd (repo_GetEngine compiles m n r)) = repoHeap r"
  "modelBackendEngine r \<subseteq>\<^sub>m modelBackendEngine (snd (repo_GetEngine compiles m n r))"
  by (auto simp: repo_GetEngine_def map_le_def split: option.splits sum.splits)

interpretation repo: backend_repo GetBackendNamesByModel "repo_GetEngine compiles" modelBackendEngine
proof
  show "GetBackendNamesByModel (snd (repo_GetEngine compiles m n r)) = GetBackendNamesByModel r" for m n and r :: "'a model_repo"
    by (rule ext) (simp add: GetBackendNamesByModel_def repo_get_simps)
  show "modelBackendEngine r \<subseteq>\<^sub>m modelBackendEngine (snd (repo_GetEngine compiles m n r))" for m n and r :: "'a model_repo"
    by (rule repo_get_simps)
qed (auto simp: repo_GetEngine_def split: option.splits sum.splits)

section \<open>Which backends a balancer has\<close>

text \<open>A balancer for a model: its backends are engines that the repository built for this model.\<close>

definition serves_model :: "string \<Rightarrow> 'v rule_composer \<Rightarrow> nat \<Rightarrow> bool" where
  "serves_model m st a \<longleftrightarrow> a < length (co_balancers st) \<and>
     (\<forall>b\<in>set (lb_backends (co_balancers st ! a)). modelBackendEngine (co_modelRepo st) (m, wb_name b) = Some (wb_engine b))"

lemma serves_model_extends: "serves_model m st a \<Longrightarrow> extends_composer compiles st st' \<Longrightarrow> serves_model m st' a"
  by (fastforce simp: serves_model_def extends_composer_def nth_append map_le_def dom_def)

lemma wrr_backends_items:
  assumes "NewWeightedRoundRobin rnd items timeout count = Inr l" and "b \<in> set (lb_backends l)"
  shows "\<exists>it\<in>set items. wb_name b = bi_Name it \<and> wb_engine b = bi_Engine it"
  using assms by (auto simp: NewWeightedRoundRobin_def wrr_backends_def Let_def in_set_enumerate_eq split: sum.splits if_splits) auto

lemma lb_items_config:
  "modelBackendConfig (snd (lb_items (repo_GetEngine compiles m) ws r)) = modelBackendConfig r \<and>
   repoHeap (snd (lb_items (repo_GetEngine compiles m) ws r)) = repoHeap r"
proof (induction ws arbitrary: r)
  case (Cons nw ns)
  obtain n w where nw: "nw = (n, w)" by fastforce
  obtain x r1 where g: "repo_GetEngine compiles m n r = (x, r1)" by fastforce
  then show ?case
    using Cons.IH [of r1] repo_get_simps(1,2) [of compiles m n r]
    by (cases x) (auto simp: nw case_prod_beta Let_def)
qed simp

lemma repo_inv_get:
  assumes "repo_inv compiles r"
  shows "repo_inv compiles (snd (repo_GetEngine compiles m n r))"
proof -
  have "model_chains compiles (snd (repo_GetEngine compiles m n r)) = model_chains compiles r"
    by (rule ext) (simp add: model_chains_def repo_get_simps)
  then show ?thesis
    using assms by (auto simp: repo_inv_def repo_GetEngine_def model_chains_def split: option.splits sum.splits if_splits)
qed

lemma lb_items_inv: "repo_inv compiles r \<Longrightarrow> repo_inv compiles (snd (lb_items (repo_GetEngine compiles m) ws r))"
proof (induction ws arbitrary: r)
  case (Cons nw ns)
  obtain n w where nw: "nw = (n, w)" by fastforce
  obtain x r1 where g: "repo_GetEngine compiles m n r = (x, r1)" by fastforce
  then show ?case
    using Cons.IH [of r1] repo_inv_get [OF Cons.prems, of m n]
    by (cases x) (auto simp: nw case_prod_beta Let_def)
qed simp

lemma repo_items_built:
  assumes "repo_items compiles m ws st = (items, st1)"
  shows "extends_composer compiles st st1" and "it \<in> set items \<Longrightarrow> modelBackendEngine (co_modelRepo st1) (m, bi_Name it) = Some (bi_Engine it)"
    and "bi_Name ` set items \<subseteq> fst ` set ws"
proof -
  obtain r where r: "lb_items (repo_GetEngine compiles m) ws (co_modelRepo st) = (items, r)" "st1 = st\<lparr>co_modelRepo := r\<rparr>"
    using assms by (auto simp: repo_items_def split: prod.splits)
  show "extends_composer compiles st st1"
    using lb_items_config [of compiles m ws "co_modelRepo st"] repo.items_keep [of compiles m ws "co_modelRepo st"] r
    by (simp add: extends_composer_def) (metis lb_items_inv snd_conv)
  show "it \<in> set items \<Longrightarrow> modelBackendEngine (co_modelRepo st1) (m, bi_Name it) = Some (bi_Engine it)"
    using repo.items_built [of it compiles m ws "co_modelRepo st"] r by simp
  show "bi_Name ` set items \<subseteq> fst ` set ws"
    using repo.items_names [of compiles m ws "co_modelRepo st"] r by simp
qed

lemma new_balancer_serves:
  assumes "new_balancer rnd items st = (r, st1)"
    and "\<And>it. it \<in> set items \<Longrightarrow> modelBackendEngine (co_modelRepo st) (m, bi_Name it) = Some (bi_Engine it)"
  shows "extends_composer compiles st st1" and "r = Inr a \<Longrightarrow> serves_model m st1 a"
proof -
  show "extends_composer compiles st st1"
    using assms(1) by (auto simp: new_balancer_def extends_composer_def split: sum.splits)
  assume "r = Inr a"
  then obtain l where l: "NewWeightedRoundRobin (rnd a) items (co_lbRetryTimeout st) (co_lbRetryCount st) = Inr l"
    "a = length (co_balancers st)" "st1 = st\<lparr>co_balancers := co_balancers st @ [l]\<rparr>"
    using assms(1) by (auto simp: new_balancer_def split: sum.splits)
  have "modelBackendEngine (co_modelRepo st) (m, wb_name b) = Some (wb_engine b)" if "b \<in> set (lb_backends l)" for b
    using wrr_backends_items [OF l(1) that] assms(2) by auto
  with l(2,3) show "serves_model m st1 a" by (simp add: serves_model_def)
qed

lemma buildDefaultEngine_serves:
  assumes "buildDefaultEngine compiles rnd m st = (r, st1)"
  shows "extends_composer compiles st st1" and "r = Inr a \<Longrightarrow> serves_model m st1 a"
proof -
  let ?ws = "map (\<lambda>n. (n, 100)) (filter is_default (GetBackendNamesByModel (co_modelRepo st) m))"
  obtain items st2 where i: "repo_items compiles m ?ws st = (items, st2)" by fastforce
  note b = repo_items_built [OF i]
  show "extends_composer compiles st st1"
    using assms b(1) new_balancer_serves(1) [OF _ b(2)] extends_trans
    by (fastforce simp: buildDefaultEngine_def i Let_def split: if_splits)
  show "r = Inr a \<Longrightarrow> serves_model m st1 a"
    using assms new_balancer_serves(2) [OF _ b(2)]
    by (fastforce simp: buildDefaultEngine_def i Let_def split: if_splits)
qed

lemma build_rule_serves:
  assumes "buildRuleEngineRuleByConfig compiles rnd m dflt rc st = (r, st1)" and "\<And>a. dflt = Some (BalanceTarget a) \<Longrightarrow> serves_model m st a"
  shows "extends_composer compiles st st1"
    and "r = Inr x \<Longrightarrow> rule_Engine x = Some (BalanceTarget a) \<Longrightarrow> serves_model m st1 a"
    and "r = Inr x \<Longrightarrow> rule_Name x = rc_Name rc \<and> rule_Matcher x = rule_matcher rc \<and>
      (\<forall>d. Deny rc = Some d \<longrightarrow> rule_Engine x = Some (DenyTarget d))"
proof -
  obtain items st2 where i: "repo_items compiles m (ForwardWeights rc) st = (items, st2)" by fastforce
  note b = repo_items_built [OF i]
  note n = new_balancer_serves [OF _ b(2)]
  show "extends_composer compiles st st1"
    using assms(1) b(1) n(1) extends_trans [OF b(1)]
    by (auto simp: buildRuleEngineRuleByConfig_def i Let_def split: option.splits if_splits sum.splits prod.splits)
  show "r = Inr x \<Longrightarrow> rule_Engine x = Some (BalanceTarget a) \<Longrightarrow> serves_model m st1 a"
    using assms n(2) serves_model_extends [OF _ b(1)]
    by (auto simp: buildRuleEngineRuleByConfig_def i Let_def split: option.splits if_splits sum.splits prod.splits)
  show "r = Inr x \<Longrightarrow> rule_Name x = rc_Name rc \<and> rule_Matcher x = rule_matcher rc \<and>
      (\<forall>d. Deny rc = Some d \<longrightarrow> rule_Engine x = Some (DenyTarget d))"
    using assms(1) by (auto simp: buildRuleEngineRuleByConfig_def i Let_def split: option.splits if_splits sum.splits prod.splits)
qed

text \<open>How a rule corresponds to its configuration.\<close>

definition rule_for :: "rule_conf \<Rightarrow> target rule \<Rightarrow> bool" where
  "rule_for rc x \<longleftrightarrow> rule_Name x = rc_Name rc \<and> rule_Matcher x = rule_matcher rc \<and>
     (\<forall>d. Deny rc = Some d \<longrightarrow> rule_Engine x = Some (DenyTarget d))"

lemma build_rules_serve:
  assumes "build_rules compiles rnd m dflt rcs st = (r, st1)" and "\<And>a. dflt = Some (BalanceTarget a) \<Longrightarrow> serves_model m st a"
  shows "extends_composer compiles st st1 \<and>
    (\<forall>xs. r = Inr xs \<longrightarrow> list_all2 rule_for rcs xs \<and>
      (\<forall>x\<in>set xs. \<forall>a. rule_Engine x = Some (BalanceTarget a) \<longrightarrow> serves_model m st1 a))"
  using assms
proof (induction compiles rnd m dflt rcs st arbitrary: r st1 rule: build_rules.induct)
  case (2 compiles rnd m dflt rc rcs st)
  obtain x st2 where x: "buildRuleEngineRuleByConfig compiles rnd m dflt rc st = (x, st2)" by fastforce
  note b = build_rule_serves [OF x 2(3)]
  show ?case
  proof (cases x)
    case (Inl e)
    with 2(2) x b(1) show ?thesis by auto
  next
    case (Inr y)
    obtain q st3 where q: "build_rules compiles rnd m dflt rcs st2 = (q, st3)" by fastforce
    have IH: "extends_composer compiles st2 st3 \<and>
        (\<forall>xs. q = Inr xs \<longrightarrow> list_all2 rule_for rcs xs \<and>
          (\<forall>x\<in>set xs. \<forall>a. rule_Engine x = Some (BalanceTarget a) \<longrightarrow> serves_model m st3 a))"
      using 2(1) [OF x [symmetric] Inr q] 2(3) serves_model_extends b(1) by blast
    have st: "st1 = st3" using 2(2) by (auto simp: x Inr q split: sum.splits)
    have e: "extends_composer compiles st st3" using IH b(1) extends_trans by blast
    show ?thesis
    proof (cases q)
      case (Inl er)
      with 2(2) e show ?thesis by (auto simp: x q \<open>x = Inr y\<close>)
    next
      case (Inr ys)
      then have r: "r = Inr (y # ys)" using 2(2) by (simp add: x q \<open>x = Inr y\<close>)
      have y: "rule_for rc y" using b(3) [OF _ \<open>x = Inr y\<close>] by (simp add: rule_for_def)
      have a: "serves_model m st3 a" if "rule_Engine y = Some (BalanceTarget a)" for a
        using b(2) [OF _ \<open>x = Inr y\<close> that] IH serves_model_extends by blast
      show ?thesis using e r y a IH Inr st by simp
    qed
  qed
qed simp

text \<open>The balancers an engine may use.\<close>

fun addresses :: "composed \<Rightarrow> nat set" where
  "addresses (BalancedEngine a) = {a}"
| "addresses (RulesEngine rs) = {a. \<exists>r\<in>set rs. rule_Engine r = Some (BalanceTarget a)}"

lemma extends_names: "extends_composer compiles st st' \<Longrightarrow> GetBackendNamesByModel (co_modelRepo st') m = GetBackendNamesByModel (co_modelRepo st) m"
  by (simp add: extends_composer_def GetBackendNamesByModel_def)

lemma repo_items_none: "repo_items compiles m [] st = ([], st)"
  by (simp add: repo_items_def)

lemma build_engine_serves:
  assumes "build_engine compiles rnd rules m st = (r, st1)"
  shows "extends_composer compiles st st1" and "r = Inr e \<Longrightarrow> a \<in> addresses e \<Longrightarrow> serves_model m st1 a"
    and "r = Inr e \<Longrightarrow> rules \<noteq> [] \<Longrightarrow> \<exists>xs d. e = RulesEngine (xs @ [fallback_rule d]) \<and> list_all2 rule_for rules xs \<and>
      (filter is_default (GetBackendNamesByModel (co_modelRepo st1) m) = [] \<longrightarrow> d = None)"
proof -
  obtain d st2 where d: "buildDefaultEngine compiles rnd m st = (d, st2)" by fastforce
  note b = buildDefaultEngine_serves [OF d]
  let ?t = "case d of Inl e \<Rightarrow> None | Inr a \<Rightarrow> Some (BalanceTarget a)"
  obtain q st3 where q: "build_rules compiles rnd m ?t rules st2 = (q, st3)" by fastforce
  have s: "serves_model m st2 a" if "?t = Some (BalanceTarget a)" for a
    using that b(2) by (auto split: sum.splits)
  note rs = build_rules_serve [OF q s]
  show "extends_composer compiles st st1"
    using assms b(1) rs extends_trans [OF b(1)]
    by (auto simp: build_engine_def d Let_def buildEngineByRuleList_def q split: if_splits sum.splits)
  show "r = Inr e \<Longrightarrow> a \<in> addresses e \<Longrightarrow> serves_model m st1 a"
    using assms b(2) rs s serves_model_extends [of m st2 a compiles st3]
    by (auto simp: build_engine_def d Let_def buildEngineByRuleList_def q fallback_rule_def split: if_splits sum.splits)
  show "r = Inr e \<Longrightarrow> rules \<noteq> [] \<Longrightarrow> \<exists>xs d. e = RulesEngine (xs @ [fallback_rule d]) \<and> list_all2 rule_for rules xs \<and>
      (filter is_default (GetBackendNamesByModel (co_modelRepo st1) m) = [] \<longrightarrow> d = None)"
  proof -
    assume "r = Inr e" "rules \<noteq> []"
    then obtain xs where xs: "q = Inr xs" "e = RulesEngine (xs @ [fallback_rule ?t])" "st1 = st3"
      using assms by (auto simp: build_engine_def d Let_def buildEngineByRuleList_def q split: sum.splits)
    have "GetBackendNamesByModel (co_modelRepo st1) m = GetBackendNamesByModel (co_modelRepo st) m"
      using rs xs(3) by (intro extends_names [OF extends_trans [OF b(1)]]) simp
    then have "filter is_default (GetBackendNamesByModel (co_modelRepo st1) m) = [] \<longrightarrow> ?t = None"
      using d by (auto simp: buildDefaultEngine_def Let_def repo_items_none split: if_splits)
    with xs rs show "\<exists>xs d. e = RulesEngine (xs @ [fallback_rule d]) \<and> list_all2 rule_for rules xs \<and>
      (filter is_default (GetBackendNamesByModel (co_modelRepo st1) m) = [] \<longrightarrow> d = None)" by blast
  qed
qed

section \<open>The invariant of the composer\<close>

text \<open>Who may use a model.\<close>

definition allowed :: "'v config_file \<Rightarrow> string \<Rightarrow> string \<Rightarrow> bool" where
  "allowed conf org m \<longleftrightarrow>
     (case map_of (Models conf) m of
        None \<Rightarrow> False
      | Some mc \<Rightarrow>
          (Access mc = ModelAccessInternal \<longrightarrow> org \<noteq> '''') \<and>
          (Access mc = ModelAccessPrivate \<longrightarrow> org \<noteq> '''' \<and>
             (\<exists>u v. map_of (Users conf) org = Some u \<and> map_of (OrgModels u) m = Some v)))"

lemma access_modes [simp]: "ModelAccessInternal \<noteq> ModelAccessPrivate" "ModelAccessPrivate \<noteq> ModelAccessInternal"
  by (simp_all add: ModelAccessInternal_def ModelAccessPrivate_def)

lemma allowed_iff: "allowed conf org m \<longleftrightarrow> (\<exists>mc. map_of (Models conf) m = Some mc \<and> access_error conf org m mc = None)"
  by (auto simp: allowed_def access_error_def org_model_def split: option.splits)

text \<open>What an engine that was composed for an organisation and a model looks like.\<close>

definition engine_for :: "'v config_file \<Rightarrow> string \<Rightarrow> string \<Rightarrow> 'v rule_composer \<Rightarrow> composed \<Rightarrow> bool" where
  "engine_for conf org m st e \<longleftrightarrow> allowed conf org m \<and> (\<forall>a\<in>addresses e. serves_model m st a) \<and>
     (\<forall>mc. map_of (Models conf) m = Some mc \<longrightarrow>
        (if final_rules conf org m mc = [] then \<exists>a. e = BalancedEngine a
         else \<exists>xs d. e = RulesEngine (xs @ [fallback_rule d]) \<and> list_all2 rule_for (final_rules conf org m mc) xs \<and>
           (filter is_default (GetBackendNamesByModel (co_modelRepo st) m) = [] \<longrightarrow> d = None)))"

definition composer_inv :: "(string \<Rightarrow> bool) \<Rightarrow> 'v config_file \<Rightarrow> 'v rule_composer \<Rightarrow> bool" where
  "composer_inv compiles conf st \<longleftrightarrow> co_conf st = Some conf \<and> repo_inv compiles (co_modelRepo st) \<and>
     (\<forall>org m e. co_orgModelEngine st (org, m) = Some e \<longrightarrow> engine_for conf org m st e)"

lemma engine_for_extends: "engine_for conf org m st e \<Longrightarrow> extends_composer compiles st st' \<Longrightarrow> engine_for conf org m st' e"
  using serves_model_extends [of m st _ compiles st'] extends_names [of compiles st st' m] by (simp add: engine_for_def)

lemma composer_inv_extends: "composer_inv compiles conf st \<Longrightarrow> extends_composer compiles st st' \<Longrightarrow> composer_inv compiles conf st'"
  using engine_for_extends [of conf _ _ st _ compiles st'] by (auto simp: composer_inv_def extends_composer_def)

lemma build_engine_BalancedEngine:
  "build_engine compiles rnd [] m st = (Inr e, st1) \<Longrightarrow> \<exists>a. e = BalancedEngine a"
  by (auto simp: build_engine_def Let_def split: sum.splits prod.splits)

lemma engine_for_upd [simp]: "engine_for conf org m (st\<lparr>co_orgModelEngine := x\<rparr>) e = engine_for conf org m st e"
  by (simp add: engine_for_def serves_model_def)

lemma getEngine_inv:
  assumes "composer_inv compiles conf st" and "composer_getEngine compiles rnd org m st = (r, st1)"
  shows "composer_inv compiles conf st1" and "r = Returned (Inr e) \<Longrightarrow> co_orgModelEngine st1 (org, m) = Some e \<and> engine_for conf org m st1 e"
    and "r \<noteq> Panicked"
    and "\<not> allowed conf org m \<Longrightarrow> st1 = st \<and> (\<exists>reason code. r = Returned (Inl not_found_error) \<and> m \<notin> dom (map_of (Models conf)) \<or>
      r = Returned (Inl (unauthorized reason code)) \<and> m \<in> dom (map_of (Models conf)))"
proof -
  have conf: "co_conf st = Some conf" and inv: "\<And>org m e. co_orgModelEngine st (org, m) = Some e \<Longrightarrow> engine_for conf org m st e"
    using assms(1) by (auto simp: composer_inv_def)
  have built: "composer_inv compiles conf st1 \<and> (\<forall>e. r = Returned (Inr e) \<longrightarrow> co_orgModelEngine st1 (org, m) = Some e \<and> engine_for conf org m st1 e) \<and> r \<noteq> Panicked"
  proof (cases "co_orgModelEngine st (org, m)")
    case (Some e)
    with assms inv show ?thesis by (auto simp: composer_getEngine_def)
  next
    case None
    show ?thesis
    proof (cases "allowed conf org m")
      case False
      with assms None conf show ?thesis
        by (auto simp: composer_getEngine_def allowed_iff split: option.splits)
    next
      case True
      then obtain mc where mc: "map_of (Models conf) m = Some mc" "access_error conf org m mc = None" by (auto simp: allowed_iff)
      obtain x st2 where x: "build_engine compiles rnd (final_rules conf org m mc) m st = (x, st2)" by fastforce
      note b = build_engine_serves [OF x]
      have i: "composer_inv compiles conf st2" by (rule composer_inv_extends [OF assms(1) b(1)])
      have e: "engine_for conf org m st2 e" if "x = Inr e" for e
        using b(2,3) [OF that] True mc(1) build_engine_BalancedEngine x that by (auto simp: engine_for_def)
      show ?thesis
        using assms(2) i e by (auto simp: composer_getEngine_def None conf mc x composer_inv_def split: sum.splits if_splits)
    qed
  qed
  then show "composer_inv compiles conf st1" "r \<noteq> Panicked"
    "r = Returned (Inr e) \<Longrightarrow> co_orgModelEngine st1 (org, m) = Some e \<and> engine_for conf org m st1 e" by auto
  assume "\<not> allowed conf org m"
  then show "st1 = st \<and> (\<exists>reason code. r = Returned (Inl not_found_error) \<and> m \<notin> dom (map_of (Models conf)) \<or>
      r = Returned (Inl (unauthorized reason code)) \<and> m \<in> dom (map_of (Models conf)))"
    using assms(2) conf inv [of org m]
    by (fastforce simp: composer_getEngine_def engine_for_def allowed_iff access_error_def split: option.splits if_splits)
qed

end
