(* ===== verification/Gateway.thy ===== *)
theory Gateway
  imports Composer HttpHandler
begin

text \<open>
  \<open>RuleComposerEngine\<close> of \<open>pkg/composer/rule_composer.go\<close> and the server around it
  (\<open>cmd/octollm-server/authn.go\<close>, \<open>server.go\<close>): from the key in the header of a request to the backend
  that serves it. Running the chain of a backend is a parameter.
\<close>

section \<open>Authentication\<close>

record user_with_org =
  uo_User :: string
  uo_Org :: string

text \<open>The maps are visited in the order of their lists.\<close>

fun add_keys :: "string \<Rightarrow> (string \<times> string) list \<Rightarrow> (string \<rightharpoonup> user_with_org) \<Rightarrow> err + (string \<rightharpoonup> user_with_org)" where
  "add_keys org [] ks = Inr ks"
| "add_keys org ((user, apiKey) # rest) ks =
     (if ks apiKey \<noteq> None then Inl (Plain ''duplicate api key'')
      else add_keys org rest (ks(apiKey \<mapsto> \<lparr>uo_User = user, uo_Org = org\<rparr>)))"

fun add_orgs :: "(string \<times> user_org) list \<Rightarrow> (string \<rightharpoonup> user_with_org) \<Rightarrow> err + (string \<rightharpoonup> user_with_org)" where
  "add_orgs [] ks = Inr ks"
| "add_orgs ((org, u) # rest) ks = (case add_keys org (APIKeys u) ks of Inl e \<Rightarrow> Inl e | Inr ks1 \<Rightarrow> add_orgs rest ks1)"

definition auth_UpdateFromConfig :: "'v config_file \<Rightarrow> err + (string \<rightharpoonup> user_with_org)" where
  "auth_UpdateFromConfig conf = add_orgs (Users conf) Map.empty"

text \<open>The user and the organisation that \<open>Handle\<close> puts into the context.\<close>

definition auth_Handle :: "(string \<rightharpoonup> user_with_org) \<Rightarrow> string \<Rightarrow> user_with_org" where
  "auth_Handle apiKeys authHeader =
     (let nobody = \<lparr>uo_User = '''', uo_Org = ''''\<rparr>
      in if authHeader = '''' then nobody
         else if map to_lower (take 7 authHeader) \<noteq> ''bearer '' then nobody
         else let apiKey = drop 7 authHeader
              in if apiKey = '''' then nobody
                 else (case apiKeys apiKey of None \<Rightarrow> nobody | Some u \<Rightarrow> u))"

section \<open>Running an engine\<close>

text \<open>The rest of a parsed request: its model, and for the types that \<open>detectIsStream\<close> does not tell
  apart which one it is.\<close>

datatype other_kind = EmbeddingRequest | RerankRequest | GenerateContentRequest | UnknownRequest

record wire_rest =
  wr_Model :: string
  wr_Kind :: other_kind

type_synonym wire_request = "wire_rest stream_request"

text \<open>The world of a request: the composer with its balancers, the metadata of the request, the rest.\<close>

record ('v, 'w) gateway = meta_world +
  gw_composer :: "'v rule_composer"
  gw_rest :: 'w

text \<open>What the environment decides: what a backend's chain does, the clock, expressions and draws.\<close>

record ('v, 'w, 'rs) gateway_env =
  ge_exec :: "'v chain \<Rightarrow> (('v chain, 'w) lb_world, wire_request, 'rs) engine"
  ge_time :: attempt_env
  ge_expr :: "wire_request expr_lib"
  ge_rand :: "nat \<Rightarrow> rand"

definition body_error :: "wire_request \<Rightarrow> err option" where
  "body_error u =
     (case rq_body u of
        None \<Rightarrow> None
      | Some b \<Rightarrow> (case fst (Bytes b) of Returned (Inl e) \<Rightarrow> Some e | _ \<Rightarrow> None))"

definition run_balancer ::
  "('v, 'w, 'rs) gateway_env \<Rightarrow> nat \<Rightarrow> wire_request \<Rightarrow> ('v, 'w) gateway \<Rightarrow> 'rs go_result outcome \<times> ('v, 'w) gateway" where
  "run_balancer G a u w =
     (let l = co_balancers (gw_composer w) ! a;
          ((tried, out), lw) = wrr_process l (ge_time G) (ge_exec G) (body_error u) u
            \<lparr>lw_backends = lb_backends l, lw_meta = mw_meta w, lw_rest = gw_rest w\<rparr>
      in (out, w\<lparr>mw_meta := lw_meta lw,
                 gw_composer := (gw_composer w)\<lparr>co_balancers := (co_balancers (gw_composer w))[a := l\<lparr>lb_backends := lw_backends lw\<rparr>]\<rparr>,
                 gw_rest := lw_rest lw\<rparr>))"

fun run_target ::
  "('v, 'w, 'rs) gateway_env \<Rightarrow> target \<Rightarrow> wire_request \<Rightarrow> ('v, 'w) gateway \<Rightarrow> 'rs go_result outcome \<times> ('v, 'w) gateway" where
  "run_target G (DenyTarget d) u w = (Returned (deny_process d), w)"
| "run_target G (BalanceTarget a) u w = run_balancer G a u w"

fun run_composed ::
  "('v, 'w, 'rs) gateway_env \<Rightarrow> composed \<Rightarrow> wire_request \<Rightarrow> ('v, 'w) gateway \<Rightarrow> 'rs go_result outcome \<times> ('v, 'w) gateway" where
  "run_composed G (BalancedEngine a) u w = run_balancer G a u w"
| "run_composed G (RulesEngine rs) u w = rules_process (ge_expr G) (run_target G) [''default'' \<mapsto> rs] u w"

section \<open>The engine of the server\<close>

record composer_engine =
  ce_Model :: string
  ce_OrgName :: string

text \<open>\<open>GetEngine\<close> of the composer; the user is not used.\<close>

definition composer_engine_for :: "string \<Rightarrow> string \<Rightarrow> string \<Rightarrow> composer_engine" where
  "composer_engine_for userName orgName modelName = \<lparr>ce_Model = modelName, ce_OrgName = orgName\<rparr>"

definition body_model :: "wire_rest request_value option \<Rightarrow> err + string" where
  "body_model v =
     (case v of
        Some (ChatCompletionRequest f x) \<Rightarrow> Inr (wr_Model x)
      | Some (CompletionRequest f x) \<Rightarrow> Inr (wr_Model x)
      | Some (ResponsesRequest f x) \<Rightarrow> Inr (wr_Model x)
      | Some (ClaudeMessagesRequest f x) \<Rightarrow> Inr (wr_Model x)
      | Some (OtherRequest x) \<Rightarrow>
          (case wr_Kind x of
             EmbeddingRequest \<Rightarrow> Inr (wr_Model x)
           | RerankRequest \<Rightarrow> Inr (wr_Model x)
           | GenerateContentRequest \<Rightarrow> Inl (Plain ''vertex AI model should be pre-set or extracted from URL/context, but is missing'')
           | UnknownRequest \<Rightarrow> Inl (Plain ''unsupported model request type''))
      | None \<Rightarrow> Inl (Plain ''unsupported model request type''))"

text \<open>The model of a request: what was found before, the one of the URL, or the one of the body.\<close>

definition resolve_model :: "composer_engine \<Rightarrow> wire_request \<Rightarrow> (err + composer_engine) outcome \<times> wire_request" where
  "resolve_model e u =
     (if ce_Model e \<noteq> '''' then (Returned (Inr e), u)
      else let urlModel = (case req_ctx u ContextKeyModelName of Some (CtxStr m) \<Rightarrow> m | _ \<Rightarrow> '''')
           in if urlModel \<noteq> '''' then (Returned (Inr (e\<lparr>ce_Model := urlModel\<rparr>)), u)
              else case rq_body u of
                     None \<Rightarrow> (Panicked, u)
                   | Some b \<Rightarrow>
                       (case Parsed b of
                          (Panicked, b1) \<Rightarrow> (Panicked, u\<lparr>rq_body := Some b1\<rparr>)
                        | (Returned (v, Some er), b1) \<Rightarrow>
                            (Returned (Inl (Wrap ''failed to parse request body'' [er])), u\<lparr>rq_body := Some b1\<rparr>)
                        | (Returned (v, None), b1) \<Rightarrow>
                            (case body_model v of
                               Inl er \<Rightarrow> (Returned (Inl er), u\<lparr>rq_body := Some b1\<rparr>)
                             | Inr m \<Rightarrow> (Returned (Inr (e\<lparr>ce_Model := m\<rparr>)),
                                 u\<lparr>rq_body := Some b1, req_ctx := with_value (req_ctx u) ContextKeyModelName (CtxStr m)\<rparr>))))"

text \<open>The handlers leave a function in the context that is told whether the response is a stream.\<close>

definition signal_stream :: "wire_request \<Rightarrow> (err + bool option) outcome \<times> wire_request" where
  "signal_stream u =
     (if req_ctx u ContextKeyStreamSignaler \<noteq> Some CtxOther then (Returned (Inr None), u)
      else case IsStream u of
             (Panicked, u1) \<Rightarrow> (Panicked, u1)
           | (Returned (v, Some er), u1) \<Rightarrow> (Returned (Inl (Wrap ''failed to check if request is stream'' [er])), u1)
           | (Returned (v, None), u1) \<Rightarrow> (Returned (Inr (Some v)), u1))"

text \<open>The last part of \<open>Process\<close>: the engine of the organisation and the model runs the request.\<close>

definition dispatch ::
  "('v, 'w, 'rs) gateway_env \<Rightarrow> composer_engine \<Rightarrow> wire_request \<Rightarrow> ('v, 'w) gateway \<Rightarrow> 'rs go_result outcome \<times> ('v, 'w) gateway" where
  "dispatch G e u w =
     (case composer_getEngine (xl_Compile (ge_expr G)) (ge_rand G) (ce_OrgName e) (ce_Model e) (gw_composer w) of
        (Panicked, st) \<Rightarrow> (Panicked, w\<lparr>gw_composer := st\<rparr>)
      | (Returned (Inl er), st) \<Rightarrow> (Returned (None, Some (Wrap ''failed to get engine'' [er])), w\<lparr>gw_composer := st\<rparr>)
      | (Returned (Inr c), st) \<Rightarrow> run_composed G c u (w\<lparr>gw_composer := st\<rparr>))"

text \<open>\<open>Process\<close>: the result, what was signalled, and the engine, which keeps the model it found.\<close>

definition composer_process ::
  "('v, 'w, 'rs) gateway_env \<Rightarrow> composer_engine \<Rightarrow> wire_request \<Rightarrow> ('v, 'w) gateway
    \<Rightarrow> ('rs go_result outcome \<times> bool option) \<times> composer_engine \<times> ('v, 'w) gateway" where
  "composer_process G e u w =
     (case resolve_model e u of
        (Panicked, u1) \<Rightarrow> ((Panicked, None), e, w)
      | (Returned (Inl er), u1) \<Rightarrow> ((Returned (None, Some er), None), e, w)
      | (Returned (Inr e1), u1) \<Rightarrow>
          (case signal_stream u1 of
             (Panicked, u2) \<Rightarrow> ((Panicked, None), e1, w)
           | (Returned (Inl er), u2) \<Rightarrow> ((Returned (None, Some er), None), e1, w)
           | (Returned (Inr signal), u2) \<Rightarrow> (let (r, w1) = dispatch G e1 u2 w in ((r, signal), e1, w1))))"

text \<open>A new engine serves each request of the server. A panic leaves no response, on which the handler
  panics as well.\<close>

definition server_engine ::
  "('v, 'w, 'b http_response) gateway_env \<Rightarrow> (string \<rightharpoonup> user_with_org) \<Rightarrow> string \<Rightarrow> ('v, 'w) gateway \<Rightarrow> (wire_rest, 'b) http_engine" where
  "server_engine G apiKeys authHeader w u =
     (let who = auth_Handle apiKeys authHeader
      in case fst (composer_process G (composer_engine_for (uo_User who) (uo_Org who) '''') u w) of
           (Returned r, signal) \<Rightarrow> (r, signal)
         | (Panicked, signal) \<Rightarrow> ((None, None), signal))"

text \<open>\<open>NewServer\<close>, with the heap of the maps that the configuration file holds.\<close>

definition NewServer :: "header_heap \<Rightarrow> 'v config_file \<Rightarrow> 'v rule_composer" where
  "NewServer h conf =
     composer_UpdateFromConfig conf
       (NewRuleRepoFileBased
         (repo_UpdateFromConfig (GlobalBackends conf) (map (\<lambda>(m, c). (m, Backends c)) (Models conf)) (NewModelRepoFileBased h))
         (10 * second) 10)"

section \<open>Reachable gateways\<close>

text \<open>Other requests take turns of a balancer while a backend runs; nothing else changes its backends.\<close>

definition same_backends :: "'e wrr_backend list \<Rightarrow> 'e wrr_backend list \<Rightarrow> bool" where
  "same_backends bs bs' \<longleftrightarrow> map (\<lambda>b. (wb_name b, wb_engine b)) bs' = map (\<lambda>b. (wb_name b, wb_engine b)) bs"

definition keeps_backends :: "('v, 'w, 'rs) gateway_env \<Rightarrow> bool" where
  "keeps_backends G \<longleftrightarrow> (\<forall>c u lw. same_backends (lw_backends lw) (lw_backends (snd (ge_exec G c u lw))))"

text \<open>The gateway after some requests; each has metadata of its own, and the rest of the world may change
  between them.\<close>

inductive reachable :: "('v, 'w, 'rs) gateway_env \<Rightarrow> header_heap \<Rightarrow> 'v config_file \<Rightarrow> ('v, 'w) gateway \<Rightarrow> bool"
  for G h conf where
  started: "gw_composer w = NewServer h conf \<Longrightarrow> reachable G h conf w"
| served: "reachable G h conf w \<Longrightarrow> composer_process G e u w = (x, e1, w1) \<Longrightarrow> reachable G h conf (w1\<lparr>mw_meta := md, gw_rest := r\<rparr>)"

inductive_cases reachableE: "reachable G h conf w"

lemma same_backends_refl [simp]: "same_backends bs bs"
  by (simp add: same_backends_def)

lemma same_backends_trans: "same_backends a b \<Longrightarrow> same_backends b c \<Longrightarrow> same_backends a c"
  by (simp add: same_backends_def)

lemma GetNextEngine_same: "same_backends bs (snd (GetNextEngine bs))"
  by (auto simp: GetNextEngine_def same_backends_def Let_def map_update_same comp_def split: option.splits)

lemma same_backends_set:
  "same_backends bs bs' \<Longrightarrow> b \<in> set bs' \<Longrightarrow> \<exists>b0\<in>set bs. wb_name b0 = wb_name b \<and> wb_engine b0 = wb_engine b"
  unfolding same_backends_def
  by (metis (mono_tags, lifting) Pair_inject imageE image_eqI list.set_map)

lemma picked_backend: "GetNextEngine bs = (Some i, bs') \<Longrightarrow> i < length bs"
  using lb.pick_turn [of bs "Some i" bs'] by simp

text \<open>Running a balancer whose backends have engines in \<open>C\<close>: the backends stay, and only the engines of \<open>C\<close>
  matter.\<close>

lemma wrr_loop_backends:
  fixes w :: "('e, 'w) lb_world"
  assumes "\<And>c u lw. same_backends (lw_backends lw) (lw_backends (snd (exec c u lw)))" and "\<And>c. c \<in> C \<Longrightarrow> exec' c = exec c"
    and "wb_engine ` set (lw_backends w) \<subseteq> C"
  shows "same_backends (lw_backends w) (lw_backends (snd (wrr_loop l env exec req n w))) \<and>
    wrr_loop l env exec' req n w = wrr_loop l env exec req n w"
proof (rule wrr_loop_agrees)
  fix x :: "('e, 'w) lb_world" and i bs
  assume x: "same_backends (lw_backends w) (lw_backends x)" and g: "GetNextEngine (lw_backends x) = (Some i, bs)"
  let ?x1 = "x\<lparr>lw_backends := bs, lw_meta := SetMetadataValue (lw_meta x) backendName (MetaStr (wb_name (lw_backends x ! i)))\<rparr>"
  have "same_backends (lw_backends w) (lw_backends (snd (exec (wb_engine (lw_backends x ! i)) req ?x1)))"
    using same_backends_trans [OF x] GetNextEngine_same [of "lw_backends x"] g assms(1) [of ?x1] same_backends_trans by fastforce
  moreover have "wb_engine (lw_backends x ! i) \<in> C"
    using same_backends_set [OF x, of "lw_backends x ! i"] picked_backend [OF g] assms(3) by fastforce
  ultimately show "same_backends (lw_backends w) (lw_backends (snd (exec (wb_engine (lw_backends x ! i)) req ?x1))) \<and>
      exec' (wb_engine (lw_backends x ! i)) = exec (wb_engine (lw_backends x ! i))"
    using assms(2) by simp
next
  fix x :: "('e, 'w) lb_world" and bs
  assume "same_backends (lw_backends w) (lw_backends x)" and "GetNextEngine (lw_backends x) = (None, bs)"
  then show "same_backends (lw_backends w) (lw_backends (x\<lparr>lw_backends := bs\<rparr>))"
    using GetNextEngine_same [of "lw_backends x"] same_backends_trans by fastforce
qed simp

lemma run_balancer_composer:
  assumes "keeps_backends G" and "run_balancer G a u w = (r, w1)"
  shows "\<exists>l. same_backends (lb_backends (co_balancers (gw_composer w) ! a)) (lb_backends l) \<and>
    gw_composer w1 = (gw_composer w)\<lparr>co_balancers := (co_balancers (gw_composer w))[a := l]\<rparr>"
proof -
  let ?l = "co_balancers (gw_composer w) ! a"
  let ?lw = "\<lparr>lw_backends = lb_backends ?l, lw_meta = mw_meta w, lw_rest = gw_rest w\<rparr>"
  define y where "y = snd (wrr_process ?l (ge_time G) (ge_exec G) (body_error u) u ?lw)"
  have "same_backends (lw_backends ?lw) (lw_backends y)"
    unfolding y_def wrr_process_def using assms(1) [unfolded keeps_backends_def] wrr_loop_backends [of "ge_exec G" UNIV "ge_exec G" ?lw]
    by (auto split: option.splits)
  moreover have "gw_composer w1 = (gw_composer w)\<lparr>co_balancers := (co_balancers (gw_composer w))[a := ?l\<lparr>lb_backends := lw_backends y\<rparr>]\<rparr>"
    using assms(2) by (auto simp: run_balancer_def y_def Let_def split: prod.splits)
  ultimately show ?thesis by (intro exI [of _ "?l\<lparr>lb_backends := lw_backends y\<rparr>"]) simp
qed

lemma nth_list_update_if: "i < length xs \<Longrightarrow> xs[a := x] ! i = (if i = a then x else xs ! i)"
  by simp

text \<open>What running an engine may change of the composer: the turns of its balancers.\<close>

definition turns_only :: "'v rule_composer \<Rightarrow> 'v rule_composer \<Rightarrow> bool" where
  "turns_only st st' \<longleftrightarrow> (\<exists>ls. st' = st\<lparr>co_balancers := ls\<rparr> \<and>
     list_all2 (\<lambda>l l'. same_backends (lb_backends l) (lb_backends l')) (co_balancers st) ls)"

lemma turns_only_refl [simp]: "turns_only st st"
  unfolding turns_only_def by (rule exI [of _ "co_balancers st"]) (simp add: list_all2_same)

lemma turns_only_trans: "turns_only st st1 \<Longrightarrow> turns_only st1 st2 \<Longrightarrow> turns_only st st2"
  unfolding turns_only_def
proof (elim exE conjE)
  fix ls ls'
  assume 1: "st1 = st\<lparr>co_balancers := ls\<rparr>" "list_all2 (\<lambda>l l'. same_backends (lb_backends l) (lb_backends l')) (co_balancers st) ls"
    and 2: "st2 = st1\<lparr>co_balancers := ls'\<rparr>" "list_all2 (\<lambda>l l'. same_backends (lb_backends l) (lb_backends l')) (co_balancers st1) ls'"
  have "list_all2 (\<lambda>l l'. same_backends (lb_backends l) (lb_backends l')) ls ls'" using 1(1) 2(2) by simp
  with 1(2) have "list_all2 (\<lambda>l l'. same_backends (lb_backends l) (lb_backends l')) (co_balancers st) ls'"
    by (rule list_all2_trans [rotated]) (rule same_backends_trans)
  with 1(1) 2(1) show "\<exists>ls. st2 = st\<lparr>co_balancers := ls\<rparr> \<and>
      list_all2 (\<lambda>l l'. same_backends (lb_backends l) (lb_backends l')) (co_balancers st) ls"
    by (intro exI [of _ ls']) simp
qed

lemma run_balancer_turns:
  assumes "keeps_backends G" and "run_balancer G a u w = (r, w1)"
  shows "turns_only (gw_composer w) (gw_composer w1)"
proof -
  obtain l where l: "same_backends (lb_backends (co_balancers (gw_composer w) ! a)) (lb_backends l)"
    "gw_composer w1 = (gw_composer w)\<lparr>co_balancers := (co_balancers (gw_composer w))[a := l]\<rparr>"
    using run_balancer_composer [OF assms] by blast
  have "list_all2 (\<lambda>l l'. same_backends (lb_backends l) (lb_backends l')) (co_balancers (gw_composer w)) ((co_balancers (gw_composer w))[a := l])"
    using l(1) by (auto simp: list_all2_conv_all_nth nth_list_update_if)
  with l(2) show ?thesis unfolding turns_only_def by blast
qed

lemma run_target_turns:
  assumes "keeps_backends G" and "run_target G t u w = (r, w1)"
  shows "turns_only (gw_composer w) (gw_composer w1)"
  using assms by (cases t) (auto intro: run_balancer_turns)

lemma run_rules_turns:
  assumes "keeps_backends G" and "run_rules L (run_target G) u rs w = (r, w1)"
  shows "turns_only (gw_composer w) (gw_composer w1)"
  using assms(2)
proof (induction rs arbitrary: w)
  case (Cons x rs)
  show ?case
  proof (cases "Match L (rule_Matcher x) u")
    case False
    with Cons show ?thesis by simp
  next
    case True
    let ?w1 = "w\<lparr>mw_meta := SetMetadataValue (mw_meta w) matchedRuleName (MetaStr (rule_Name x))\<rparr>"
    show ?thesis
    proof (cases "rule_Engine x")
      case None
      with True Cons.prems show ?thesis by auto
    next
      case (Some t)
      obtain q w2 where q: "run_target G t u ?w1 = (q, w2)" by fastforce
      have w2: "turns_only (gw_composer w) (gw_composer w2)" using run_target_turns [OF assms(1) q] by simp
      show ?thesis
        using Cons.prems True Some q w2 Cons.IH [of w2] turns_only_trans [OF w2]
        by (auto simp: Let_def simp del: errors_as.simps split: outcome.splits prod.splits option.splits if_splits)
    qed
  qed
qed simp

lemma run_composed_turns:
  assumes "keeps_backends G" and "run_composed G c u w = (r, w1)"
  shows "turns_only (gw_composer w) (gw_composer w1)"
  using assms by (cases c) (auto simp: rules_process_def intro: run_balancer_turns run_rules_turns)

lemma serves_model_turns: "serves_model m st a \<Longrightarrow> turns_only st st' \<Longrightarrow> serves_model m st' a"
  unfolding serves_model_def turns_only_def
  by (fastforce simp: list_all2_conv_all_nth dest!: same_backends_set)

lemma turns_only_repo: "turns_only st st' \<Longrightarrow> co_modelRepo st' = co_modelRepo st"
  by (auto simp: turns_only_def)

lemma engine_for_turns: "engine_for conf org m st e \<Longrightarrow> turns_only st st' \<Longrightarrow> engine_for conf org m st' e"
  using serves_model_turns [of m st _ st'] turns_only_repo [of st st'] unfolding engine_for_def by simp

lemma composer_inv_turns: "composer_inv compiles conf st \<Longrightarrow> turns_only st st' \<Longrightarrow> composer_inv compiles conf st'"
  using engine_for_turns [of conf _ _ st _ st'] by (auto simp: composer_inv_def turns_only_def)

lemma dispatch_inv:
  assumes "keeps_backends G" and "composer_inv (xl_Compile (ge_expr G)) conf (gw_composer w)" and "dispatch G e u w = (r, w1)"
  shows "composer_inv (xl_Compile (ge_expr G)) conf (gw_composer w1)"
proof -
  obtain x st where x: "composer_getEngine (xl_Compile (ge_expr G)) (ge_rand G) (ce_OrgName e) (ce_Model e) (gw_composer w) = (x, st)"
    by fastforce
  have st: "composer_inv (xl_Compile (ge_expr G)) conf st" by (rule getEngine_inv(1) [OF assms(2) x])
  show ?thesis
  proof (cases "\<exists>c. x = Returned (Inr c)")
    case True
    then obtain c where c: "x = Returned (Inr c)" by blast
    have "run_composed G c u (w\<lparr>gw_composer := st\<rparr>) = (r, w1)" using assms(3) by (simp add: dispatch_def x c)
    from composer_inv_turns [OF _ run_composed_turns [OF assms(1) this]] st show ?thesis by simp
  next
    case False
    with assms(3) st show ?thesis by (auto simp: dispatch_def x split: outcome.splits sum.splits)
  qed
qed

lemma process_inv:
  assumes "keeps_backends G" and "composer_inv (xl_Compile (ge_expr G)) conf (gw_composer w)" and "composer_process G e u w = (x, e1, w1)"
  shows "composer_inv (xl_Compile (ge_expr G)) conf (gw_composer w1)"
  using assms(2,3) dispatch_inv [OF assms(1,2)]
  by (auto simp: composer_process_def split: outcome.splits sum.splits prod.splits)

lemma NewServer_inv: "composer_inv compiles conf (NewServer h conf)"
  by (simp add: composer_inv_def NewServer_def composer_UpdateFromConfig_def NewRuleRepoFileBased_def repo_inv_def
      repo_UpdateFromConfig_def split_beta)

lemma gateway_inv:
  assumes "reachable G h conf w" and "keeps_backends G"
  shows "composer_inv (xl_Compile (ge_expr G)) conf (gw_composer w)"
  using assms(1)
proof induction
  case (started w)
  then show ?case by (simp add: NewServer_inv)
next
  case (served w e u x e1 w1 md r)
  then show ?case using process_inv [OF assms(2)] by simp
qed

section \<open>Chat requests\<close>

text \<open>A request of the chat handler: its context comes from the HTTP server, its body can be read and
  parsed and names a model.\<close>

definition chat_request :: "wire_rest request_value parser \<Rightarrow> ctx \<Rightarrow> reader \<Rightarrow> string \<Rightarrow> bool" where
  "chat_request p c r m \<longleftrightarrow> c ContextKeyModelName = None \<and> c ContextKeyAction = None \<and> c ContextKeyIsStream = None \<and>
     (\<exists>s v. ReadAll r = Inr s \<and> Parse p s = (Some v, None) \<and> body_model (Some v) = Inr m)"

text \<open>The request as the rules and the backends see it.\<close>

definition seen_request :: "wire_rest request_value parser \<Rightarrow> ctx \<Rightarrow> reader \<Rightarrow> wire_request" where
  "seen_request p c r = snd (signal_stream (snd (resolve_model (composer_engine_for '''' '''' '''') (handler_request p c r))))"

lemma chat_request_process:
  assumes "chat_request p c r m"
  shows "\<exists>flag. composer_process G (composer_engine_for user org '''') (handler_request p c r) w =
    (let (x, w1) = dispatch G \<lparr>ce_Model = m, ce_OrgName = org\<rparr> (seen_request p c r) w
     in ((x, Some flag), \<lparr>ce_Model = m, ce_OrgName = org\<rparr>, w1))"
proof -
  from assms obtain s v where v: "ReadAll r = Inr s" "Parse p s = (Some v, None)" "body_model (Some v) = Inr m"
    "c ContextKeyModelName = None" "c ContextKeyAction = None" "c ContextKeyIsStream = None"
    by (auto simp: chat_request_def)
  note keys = ContextKeyModelName_def ContextKeyAction_def ContextKeyIsStream_def ContextKeyReceivedHeader_def ContextKeyStreamSignaler_def
  have body: "rq_body (handler_request p c r) = Some (SetParser (Some p) (NewBodyFromReader r None))"
    by (simp add: handler_request_def with_parser_def NewRequest_def)
  define b1 where "b1 = snd (Parsed (SetParser (Some p) (NewBodyFromReader r None)))"
  have b: "Parsed (SetParser (Some p) (NewBodyFromReader r None)) = (Returned (Some v, None), b1)" "Parsed b1 = (Returned (Some v, None), b1)"
    by (simp_all add: b1_def Parsed_def SetParser_def NewBodyFromReader_def read_all_def v)
  define u1 where "u1 = (handler_request p c r)\<lparr>rq_body := Some b1, req_ctx := with_value (req_ctx (handler_request p c r)) ContextKeyModelName (CtxStr m)\<rparr>"
  have none: "req_ctx (handler_request p c r) ContextKeyModelName = None"
    using v(4) by (simp add: handler_request_def with_parser_def NewRequest_def with_value_def keys)
  have r1: "resolve_model (composer_engine_for user org '''') (handler_request p c r) = (Returned (Inr \<lparr>ce_Model = m, ce_OrgName = org\<rparr>), u1)" for user org
    by (simp add: resolve_model_def composer_engine_for_def none body b v(3) u1_def)
  have "req_ctx u1 ContextKeyStreamSignaler = Some CtxOther" "req_ctx u1 ContextKeyIsStream = None" "req_ctx u1 ContextKeyAction = None"
    using v(5,6) by (simp_all add: u1_def handler_request_def with_parser_def NewRequest_def with_value_def keys)
  then have "\<exists>flag u2. signal_stream u1 = (Returned (Inr (Some flag)), u2)"
    by (simp add: signal_stream_def IsStream_def detectIsStream_def u1_def b)
  then obtain flag u2 where s: "signal_stream u1 = (Returned (Inr (Some flag)), u2)" by blast
  then have "seen_request p c r = u2" by (simp add: seen_request_def r1)
  then show ?thesis
    by (intro exI [of _ flag]) (simp add: composer_process_def r1 s)
qed

text \<open>What the client of the chat handler gets of an engine's error before any byte was sent.\<close>

definition client_sees :: "(writer \<times> close_action list) outcome \<Rightarrow> int \<Rightarrow> string \<Rightarrow> bool" where
  "client_sees x status body \<longleftrightarrow> (\<exists>wr h. x = Returned (wr, []) \<and> rw_sent wr = Some (status, h) \<and> rw_body wr = body)"

lemma handler_error_seen:
  assumes "engine (handler_request p c r) = ((resp, Some e), signal)" and "ticks env = 0"
    and "errors_as as_upstream e = None" and "errors_as as_handler_error e = Some he"
  shows "client_sees (ChatCompletionsHandler env engine p c r new_writer) (normalizeErrorStatus (he_StatusCode he))
    (openai_body (normalizeErrorMessage (he_Message he) (normalizeErrorStatus (he_StatusCode he)))
      (default_to (he_Type he) (openAIErrorType (normalizeErrorStatus (he_StatusCode he)))) (he_Param he)
      (default_to (he_Code he) (openAIErrorCode (normalizeErrorStatus (he_StatusCode he)))))"
  using assms
  by (simp add: client_sees_def ChatCompletionsHandler_def httpSSEHandler_def keep_alive_def engine_error_def after_def
      OpenAIErrorMiddleware_def Let_def writeHandlerError_def new_writer_def del: errors_as.simps)

lemma unauthorized_seen [simp]:
  "errors_as as_upstream (Wrap s [unauthorized reason code]) = None" "errors_as as_upstream (Wrap s [not_found_error]) = None"
  "errors_as as_handler_error (Wrap s [unauthorized reason code]) = as_handler_error (unauthorized reason code)"
  "errors_as as_handler_error (Wrap s [not_found_error]) = as_handler_error not_found_error"
  by (simp_all add: unauthorized_def not_found_error_def as_upstream_def as_handler_error_def)

lemma seen_unauthorized:
  assumes "engine (handler_request p c r) = ((resp, Some (Wrap s [unauthorized reason code])), signal)" and "ticks env = 0"
    and "default_to code (openAIErrorCode 401) = code"
  shows "client_sees (ChatCompletionsHandler env engine p c r new_writer) 401 (openai_body ''Unauthorized'' ''authentication_error'' None code)"
proof -
  have he: "errors_as as_handler_error (Wrap s [unauthorized reason code]) =
      Some \<lparr>he_Err = Some (Plain reason), he_StatusCode = 401, he_Message = ''Unauthorized'', he_Type = ''authentication_error'',
        he_Param = None, he_Code = code, he_Header = []\<rparr>"
    unfolding unauthorized_seen by (simp add: unauthorized_def as_handler_error_def)
  have n: "normalizeErrorStatus 401 = 401" "normalizeErrorMessage ''Unauthorized'' 401 = ''Unauthorized''"
    "default_to ''authentication_error'' (openAIErrorType 401) = ''authentication_error''"
    by (simp_all add: normalizeErrorStatus_def normalizeErrorMessage_def default_to_def TrimSpace_def is_space_def)
  from handler_error_seen [where engine = engine, OF assms(1,2) unauthorized_seen(1) he]
  show ?thesis by (simp add: n assms(3))
qed

section \<open>Access\<close>

lemma add_keys_from:
  assumes "add_keys org xs ks = Inr ks'" and "ks' key = Some who"
  shows "ks key = Some who \<or> (\<exists>user. (user, key) \<in> set xs \<and> who = \<lparr>uo_User = user, uo_Org = org\<rparr>)"
  using assms by (induction org xs ks rule: add_keys.induct) (auto split: if_splits)

lemma add_orgs_from:
  assumes "add_orgs us ks = Inr ks'" and "ks' key = Some who"
  shows "ks key = Some who \<or> (\<exists>org u user. (org, u) \<in> set us \<and> (user, key) \<in> set (APIKeys u) \<and> who = \<lparr>uo_User = user, uo_Org = org\<rparr>)"
  using assms
proof (induction us ks rule: add_orgs.induct)
  case (2 org u rest ks)
  then show ?case by (fastforce split: sum.splits dest: add_keys_from)
qed simp

text \<open>The organisation of a request with a header is none, or one of the configuration that owns the key.\<close>

lemma auth_org:
  assumes "auth_UpdateFromConfig conf = Inr keys" and "uo_Org (auth_Handle keys header) \<noteq> ''''"
  shows "\<exists>u user. (uo_Org (auth_Handle keys header), u) \<in> set (Users conf) \<and> (user, drop 7 header) \<in> set (APIKeys u) \<and>
    map to_lower (take 7 header) = ''bearer ''"
  using assms add_orgs_from [of "Users conf" Map.empty keys "drop 7 header"]
  by (fastforce simp: auth_UpdateFromConfig_def auth_Handle_def Let_def split: if_splits option.splits)

text \<open>Some organisation of the configuration owns the key of the header and has an entry for the model.\<close>

definition key_grants :: "'v config_file \<Rightarrow> string \<Rightarrow> string \<Rightarrow> bool" where
  "key_grants conf authHeader m \<longleftrightarrow>
     (\<exists>org u user. (org, u) \<in> set (Users conf) \<and> (user, drop 7 authHeader) \<in> set (APIKeys u) \<and>
        map to_lower (take 7 authHeader) = ''bearer '' \<and> m \<in> fst ` set (OrgModels u))"

text \<open>C27: A private model is served to nobody without a granted key. On a server that has run any
  requests since it was started with a configuration, a chat request for a private model whose
  \<open>Authorization\<close> header does not carry a key of an organisation with an entry for this model gets 401;
  no backend is called and nothing on the server changes.\<close>

theorem ungranted_request_is_refused:
  fixes conf :: "'v config_file" and w :: "('v, 'w) gateway"
  assumes "reachable G h conf w" and "keeps_backends G" and "auth_UpdateFromConfig conf = Inr keys"
    and "distinct (map fst (Users conf))" and "map_of (Models conf) m = Some mc" and "Access mc = ModelAccessPrivate"
    and "chat_request p c r m" and "\<not> key_grants conf authHeader m" and "ticks env = 0"
  shows "client_sees (ChatCompletionsHandler env (server_engine G keys authHeader w) p c r new_writer) 401
      (openai_body ''Unauthorized'' ''authentication_error'' None ''model_access_denied'') \<and>
    snd (snd (composer_process G (composer_engine_for user (uo_Org (auth_Handle keys authHeader)) '''') (handler_request p c r) w)) = w"
proof -
  define org where "org = uo_Org (auth_Handle keys authHeader)"
  have inv: "composer_inv (xl_Compile (ge_expr G)) conf (gw_composer w)" by (rule gateway_inv [OF assms(1,2)])
  have no: "org_model conf org m = None"
  proof (rule ccontr)
    assume "org_model conf org m \<noteq> None"
    then obtain u v where u: "org \<noteq> ''''" "map_of (Users conf) org = Some u" "map_of (OrgModels u) m = Some v"
      by (auto simp: org_model_def split: if_splits option.splits)
    from auth_org [OF assms(3)] u(1) obtain u' user where u': "(org, u') \<in> set (Users conf)" "(user, drop 7 authHeader) \<in> set (APIKeys u')"
      "map to_lower (take 7 authHeader) = ''bearer ''" unfolding org_def by blast
    have "u' = u" using u'(1) u(2) assms(4) by simp
    with u' u(3) assms(8) show False by (force simp: key_grants_def dest: map_of_SomeD)
  qed
  then have err: "access_error conf org m mc = Some (unauthorized ''org has no access to model'' ''model_access_denied'')"
    using assms(6) by (simp add: access_error_def)
  then have "\<not> allowed conf org m" using assms(5) by (simp add: allowed_iff)
  then have "co_orgModelEngine (gw_composer w) (org, m) = None"
    using inv by (cases "co_orgModelEngine (gw_composer w) (org, m)") (auto simp: composer_inv_def engine_for_def)
  then have "composer_getEngine (xl_Compile (ge_expr G)) (ge_rand G) org m (gw_composer w) =
      (Returned (Inl (unauthorized ''org has no access to model'' ''model_access_denied'')), gw_composer w)"
    using inv assms(5) err by (simp add: composer_getEngine_def composer_inv_def)
  then have d: "dispatch G \<lparr>ce_Model = m, ce_OrgName = org\<rparr> u w =
      (Returned (None, Some (Wrap ''failed to get engine'' [unauthorized ''org has no access to model'' ''model_access_denied''])), w)" for u
    by (simp add: dispatch_def)
  obtain flag where pr: "composer_process G (composer_engine_for user org '''') (handler_request p c r) w =
      ((Returned (None, Some (Wrap ''failed to get engine'' [unauthorized ''org has no access to model'' ''model_access_denied''])), Some flag),
        \<lparr>ce_Model = m, ce_OrgName = org\<rparr>, w)" for user
    using chat_request_process [OF assms(7), of G _ org w] by (simp add: d) (metis composer_engine_for_def)
  have e: "server_engine G keys authHeader w (handler_request p c r) =
      ((None, Some (Wrap ''failed to get engine'' [unauthorized ''org has no access to model'' ''model_access_denied''])), Some flag)"
    by (simp add: server_engine_def Let_def org_def [symmetric] pr)
  have "default_to ''model_access_denied'' (openAIErrorCode 401) = ''model_access_denied''"
    by (simp add: default_to_def TrimSpace_def is_space_def)
  from seen_unauthorized [where engine = "server_engine G keys authHeader w", OF e assms(9) this] pr
  show ?thesis by (simp add: org_def)
qed

text \<open>A small server: one private model that one of two organisations may use.\<close>

definition acme_conf :: "unit config_file" where
  "acme_conf = \<lparr>GlobalBackends = Map.empty,
     Models = [(''m'', \<lparr>Access = ''private'', Backends = [(''default:1'', zero_backend\<lparr>BaseURL := ''https://up''\<rparr>)], DefaultRules = []\<rparr>)],
     Users = [(''acme'', \<lparr>APIKeys = [(''ann'', ''k1'')], OrgModels = [(''m'', None)]\<rparr>), (''other'', \<lparr>APIKeys = [(''bob'', ''k2'')], OrgModels = []\<rparr>)]\<rparr>"

definition demo_gateway_env :: "(unit, unit, string http_response) gateway_env" where
  "demo_gateway_env = \<lparr>ge_exec = (\<lambda>c u lw. ((None, Some (Plain ''down'')), lw)),
     ge_time = \<lparr>elapsed = (\<lambda>n. 0), cancelled = (\<lambda>n. False)\<rparr>,
     ge_expr = \<lparr>xl_Compile = (\<lambda>code. True), xl_Run = (\<lambda>code u. Inr (ExprBool True))\<rparr>, ge_rand = (\<lambda>a i n. 0)\<rparr>"

definition demo_gateway :: "'v config_file \<Rightarrow> ('v, unit) gateway" where
  "demo_gateway conf = \<lparr>mw_meta = None, gw_composer = NewServer [] conf, gw_rest = ()\<rparr>"

definition chat_parser :: "wire_rest request_value parser" where
  "chat_parser = \<lparr>Parse = (\<lambda>s. (Some (ChatCompletionRequest None \<lparr>wr_Model = s, wr_Kind = UnknownRequest\<rparr>), None)), Serialize = (\<lambda>v. Inr '''')\<rparr>"

lemma demo_gateway_reachable: "reachable G [] conf (demo_gateway conf)"
  by (rule reachable.started) (simp add: demo_gateway_def)

lemma demo_keeps [simp]: "keeps_backends demo_gateway_env"
  by (simp add: keeps_backends_def demo_gateway_env_def)

lemma demo_chat_request: "chat_request chat_parser Map.empty \<lparr>ReadAll = Inr m, closing = None\<rparr> m"
  by (simp add: chat_request_def chat_parser_def body_model_def)

theorem ungranted_request_is_refused_witness:
  "client_sees (ChatCompletionsHandler \<lparr>is_flusher = True, heartbeat_env = None, ticks = 0, json_valid = (\<lambda>s. True)\<rparr>
       (server_engine demo_gateway_env [''k1'' \<mapsto> \<lparr>uo_User = ''ann'', uo_Org = ''acme''\<rparr>, ''k2'' \<mapsto> \<lparr>uo_User = ''bob'', uo_Org = ''other''\<rparr>]
         ''Bearer k2'' (demo_gateway acme_conf)) chat_parser Map.empty \<lparr>ReadAll = Inr ''m'', closing = None\<rparr> new_writer)
     401 (openai_body ''Unauthorized'' ''authentication_error'' None ''model_access_denied'')"
proof -
  let ?keys = "[''k1'' \<mapsto> \<lparr>uo_User = ''ann'', uo_Org = ''acme''\<rparr>, ''k2'' \<mapsto> \<lparr>uo_User = ''bob'', uo_Org = ''other''\<rparr>]"
  let ?env = "\<lparr>is_flusher = True, heartbeat_env = None, ticks = 0, json_valid = (\<lambda>s. True)\<rparr>"
  let ?mc = "\<lparr>Access = ''private'', Backends = [(''default:1'', zero_backend\<lparr>BaseURL := ''https://up''\<rparr>)], DefaultRules = []\<rparr> :: unit model_conf"
  have h: "auth_UpdateFromConfig acme_conf = Inr ?keys" "distinct (map fst (Users acme_conf))"
    "map_of (Models acme_conf) ''m'' = Some ?mc" "Access ?mc = ModelAccessPrivate" "\<not> key_grants acme_conf ''Bearer k2'' ''m''" "ticks ?env = 0"
    by (auto simp: auth_UpdateFromConfig_def acme_conf_def ModelAccessPrivate_def key_grants_def)
  from ungranted_request_is_refused [OF demo_gateway_reachable demo_keeps h(1-4) demo_chat_request h(5,6)] show ?thesis by blast
qed

section \<open>Denial\<close>

lemma run_rules_prefix:
  assumes "list_all2 rule_for rcs xs" and "\<forall>rc\<in>set rcs. \<not> Match L (rule_matcher rc) u"
  shows "\<forall>x\<in>set xs. \<not> Match L (rule_Matcher x) u"
  using assms by (induction rule: list_all2_induct) (auto simp: rule_for_def)

lemma matched_name [simp]: "GetMatchedRuleName (SetMetadataValue md matchedRuleName (MetaStr s)) = Some s"
  by (simp add: GetMatchedRuleName_def)

text \<open>A denied request reaches no backend. If the first rule that matches a chat request, among the
  rules of the client's organisation and then the default rules of the model, is configured to deny,
  the client gets the configured status (400 when none is set) with the configured reason, no backend is
  called, and the rule is recorded.\<close>

theorem denied_request_reaches_client:
  fixes conf :: "'v config_file" and w :: "('v, 'w) gateway" and keys :: "string \<rightharpoonup> user_with_org" and authHeader :: string
    and p :: "wire_rest request_value parser" and c :: ctx and r :: reader and d :: deny_engine
  defines "org \<equiv> uo_Org (auth_Handle keys authHeader)" and "u \<equiv> seen_request p c r"
    and "status \<equiv> normalizeErrorStatus (if HTTPStatusCode d = 0 then 400 else HTTPStatusCode d)"
  assumes "reachable G h conf w" and "keeps_backends G" and "chat_request p c r m" and "ticks env = 0"
    and "map_of (Models conf) m = Some mc" and "final_rules conf org m mc = before @ rc # rest" and "Deny rc = Some d"
    and "\<forall>rc'\<in>set before. \<not> Match (ge_expr G) (rule_matcher rc') u" and "Match (ge_expr G) (rule_matcher rc) u"
    and "fst (composer_getEngine (xl_Compile (ge_expr G)) (ge_rand G) org m (gw_composer w)) = Returned (Inr e)"
    and "w1 = snd (snd (composer_process G (composer_engine_for user org '''') (handler_request p c r) w))"
  shows "client_sees (ChatCompletionsHandler env (server_engine G keys authHeader w) p c r new_writer) status
      (openai_body (normalizeErrorMessage (ReasonText d) status) (default_to (deny_Type d) (openAIErrorType status)) None
        (default_to (deny_Code d) (openAIErrorCode status))) \<and>
    gw_rest w1 = gw_rest w \<and> GetMatchedRuleName (mw_meta w1) = Some (rc_Name rc)"
proof -
  note inv = gateway_inv [OF assms(4,5)]
  obtain st where g: "composer_getEngine (xl_Compile (ge_expr G)) (ge_rand G) org m (gw_composer w) = (Returned (Inr e), st)"
    using assms(13) by (metis prod.collapse)
  have "engine_for conf org m st e" using getEngine_inv(2) [OF inv g] by simp
  then obtain xs dflt where xs: "e = RulesEngine (xs @ [fallback_rule dflt])" "list_all2 rule_for (before @ rc # rest) xs"
    using assms(8,9) by (auto simp: engine_for_def)
  obtain ys x zs where x: "xs = ys @ x # zs" "list_all2 rule_for before ys" "rule_for rc x"
    using xs(2) by (auto simp: list_all2_append1 list_all2_Cons1)
  have rule: "rule_Name x = rc_Name rc" "rule_Engine x = Some (DenyTarget d)" "Match (ge_expr G) (rule_Matcher x) u"
    using x(3) assms(10,12) by (simp_all add: rule_for_def)
  define w2 where "w2 = w\<lparr>gw_composer := st, mw_meta := SetMetadataValue (mw_meta w) matchedRuleName (MetaStr (rc_Name rc))\<rparr>"
  let ?e = "Wrap '''' [Sentinel ''ErrRuleActionError'', deny_error d]"
  have "\<not> wants_next (run_target G) u x (w\<lparr>gw_composer := st\<rparr>)"
    by (simp add: wants_next_def rule deny_process_def deny_error_def as_action_def)
  from first_match_decides [OF run_rules_prefix [OF x(2) assms(11)] rule(3) this]
  have "run_composed G e u (w\<lparr>gw_composer := st\<rparr>) = (Returned (None, Some ?e), w2)"
    by (simp add: xs(1) x(1) rules_process_def decided_def rule deny_process_def w2_def)
  then have d: "dispatch G \<lparr>ce_Model = m, ce_OrgName = org\<rparr> u w = (Returned (None, Some ?e), w2)"
    by (simp add: dispatch_def g)
  have pr: "\<exists>flag. composer_process G (composer_engine_for user org '''') (handler_request p c r) w =
      ((Returned (None, Some ?e), Some flag), \<lparr>ce_Model = m, ce_OrgName = org\<rparr>, w2)" for user
    using chat_request_process [OF assms(6), of G user org w] by (simp add: d u_def [symmetric])
  obtain flag where "server_engine G keys authHeader w (handler_request p c r) = ((None, Some ?e), Some flag)"
    using pr [of "uo_User (auth_Handle keys authHeader)"] by (auto simp: server_engine_def Let_def org_def)
  from handler_error_seen [where engine = "server_engine G keys authHeader w", OF this assms(7) _ deny_status]
  have "client_sees (ChatCompletionsHandler env (server_engine G keys authHeader w) p c r new_writer) status
      (openai_body (normalizeErrorMessage (ReasonText d) status) (default_to (deny_Type d) (openAIErrorType status)) None
        (default_to (deny_Code d) (openAIErrorCode status)))"
    by (simp add: status_def as_upstream_def deny_error_def)
  moreover have "w1 = w2" using pr [of user] assms(14) by auto
  ultimately show ?thesis by (simp add: w2_def)
qed

text \<open>A public model that refuses streams, as in the configuration guide.\<close>

definition no_streams :: rule_conf where
  "no_streams = \<lparr>rc_Name = ''deny_streaming'', MatchExpr = ''req.RawReq().stream == true'',
     Deny = Some \<lparr>ReasonText = ''Streaming denied'', HTTPStatusCode = 403, deny_Type = '''', deny_Code = ''''\<rparr>, ForwardWeights = []\<rparr>"

definition guide_conf :: "unit config_file" where
  "guide_conf = \<lparr>GlobalBackends = Map.empty,
     Models = [(''m'', \<lparr>Access = ''public'', Backends = [], DefaultRules = [no_streams]\<rparr>)], Users = []\<rparr>"

theorem denied_request_reaches_client_witness:
  "client_sees (ChatCompletionsHandler \<lparr>is_flusher = True, heartbeat_env = None, ticks = 0, json_valid = (\<lambda>s. True)\<rparr>
       (server_engine demo_gateway_env Map.empty '''' (demo_gateway guide_conf)) chat_parser Map.empty \<lparr>ReadAll = Inr ''m'', closing = None\<rparr> new_writer)
     403 (openai_body ''Streaming denied'' (openAIErrorType 403) None (openAIErrorCode 403))"
proof -
  let ?env = "\<lparr>is_flusher = True, heartbeat_env = None, ticks = 0, json_valid = (\<lambda>s. True)\<rparr>"
  let ?mc = "\<lparr>Access = ''public'', Backends = [], DefaultRules = [no_streams]\<rparr> :: unit model_conf"
  let ?d = "\<lparr>ReasonText = ''Streaming denied'', HTTPStatusCode = 403, deny_Type = '''', deny_Code = ''''\<rparr>"
  let ?e = "RulesEngine [\<lparr>rule_Name = ''deny_streaming'', rule_Matcher = ExprMatcher ''req.RawReq().stream == true'', rule_Engine = Some (DenyTarget ?d)\<rparr>,
      fallback_rule None]"
  let ?r = "\<lparr>ReadAll = Inr ''m'', closing = None\<rparr>"
  have org: "uo_Org (auth_Handle Map.empty '''') = ''''" by (simp add: auth_Handle_def)
  have h: "ticks ?env = 0" "map_of (Models guide_conf) ''m'' = Some ?mc"
    "final_rules guide_conf (uo_Org (auth_Handle Map.empty '''')) ''m'' ?mc = [] @ no_streams # []"
    "Deny no_streams = Some ?d" "\<forall>rc'\<in>set []. \<not> Match (ge_expr demo_gateway_env) (rule_matcher rc') (seen_request chat_parser Map.empty ?r)"
    "Match (ge_expr demo_gateway_env) (rule_matcher no_streams) (seen_request chat_parser Map.empty ?r)"
    by (simp_all add: guide_conf_def final_rules_def org_model_def no_streams_def rule_matcher_def expr_Match_def demo_gateway_env_def org)
  have "modelBackendConfig (co_modelRepo (gw_composer (demo_gateway guide_conf))) = [(''m'', [])]" "co_orgModelEngine (gw_composer (demo_gateway guide_conf)) = Map.empty"
    "co_conf (gw_composer (demo_gateway guide_conf)) = Some guide_conf"
    by (simp_all add: demo_gateway_def NewServer_def composer_UpdateFromConfig_def NewRuleRepoFileBased_def repo_UpdateFromConfig_def guide_conf_def
        NewModelRepoFileBased_def)
  then have g: "fst (composer_getEngine (xl_Compile (ge_expr demo_gateway_env)) (ge_rand demo_gateway_env) (uo_Org (auth_Handle Map.empty '''')) ''m''
      (gw_composer (demo_gateway guide_conf))) = Returned (Inr ?e)"
    by (simp add: composer_getEngine_def org h(2) access_error_def ModelAccessInternal_def ModelAccessPrivate_def build_engine_def
        buildDefaultEngine_def GetBackendNamesByModel_def final_rules_def org_model_def buildEngineByRuleList_def buildRuleEngineRuleByConfig_def
        no_streams_def rule_matcher_def)
  have n: "normalizeErrorStatus (if HTTPStatusCode ?d = 0 then 400 else HTTPStatusCode ?d) = 403" "normalizeErrorMessage (ReasonText ?d) 403 = ''Streaming denied''"
    "default_to (deny_Type ?d) x = x" "default_to (deny_Code ?d) x = x" for x
    by (simp_all add: normalizeErrorStatus_def normalizeErrorMessage_def default_to_def TrimSpace_def is_space_def)
  note t = denied_request_reaches_client [where keys = Map.empty and authHeader = "''''" and conf = guide_conf and w = "demo_gateway guide_conf"
      and before = "[]" and rest = "[]" and G = demo_gateway_env and env = ?env and h = "[]" and p = chat_parser and c = Map.empty and r = ?r and m = "''m''"
      and rc = no_streams and d = ?d and mc = ?mc and e = ?e]
  have "client_sees (ChatCompletionsHandler ?env (server_engine demo_gateway_env Map.empty '''' (demo_gateway guide_conf)) chat_parser Map.empty ?r new_writer)
      (normalizeErrorStatus (if HTTPStatusCode ?d = 0 then 400 else HTTPStatusCode ?d))
      (openai_body (normalizeErrorMessage (ReasonText ?d) (normalizeErrorStatus (if HTTPStatusCode ?d = 0 then 400 else HTTPStatusCode ?d)))
        (default_to (deny_Type ?d) (openAIErrorType (normalizeErrorStatus (if HTTPStatusCode ?d = 0 then 400 else HTTPStatusCode ?d)))) None
        (default_to (deny_Code ?d) (openAIErrorCode (normalizeErrorStatus (if HTTPStatusCode ?d = 0 then 400 else HTTPStatusCode ?d)))))"
    by (rule t [OF demo_gateway_reachable demo_keeps demo_chat_request h g refl, THEN conjunct1])
  then show ?thesis unfolding n .
qed

section \<open>Isolation of models\<close>


text \<open>All a request for \<open>m\<close> may use of the backends: those that the repository builds for \<open>m\<close>.\<close>

definition agrees_on :: "'v chain set \<Rightarrow> ('v, 'w, 'rs) gateway_env \<Rightarrow> ('v chain \<Rightarrow> (('v chain, 'w) lb_world, wire_request, 'rs) engine) \<Rightarrow> bool" where
  "agrees_on C G f \<longleftrightarrow> (\<forall>c\<in>C. f c = ge_exec G c)"

lemma run_balancer_agrees:
  assumes "keeps_backends G" and "agrees_on C G f" and "repo_inv compiles (co_modelRepo (gw_composer w))"
    and "serves_model m (gw_composer w) a" and "model_chains compiles (co_modelRepo (gw_composer w)) m \<subseteq> C"
  shows "run_balancer (G\<lparr>ge_exec := f\<rparr>) a u w = run_balancer G a u w"
proof -
  let ?l = "co_balancers (gw_composer w) ! a"
  have "wb_engine ` set (lb_backends ?l) \<subseteq> C"
    using assms(3-5) by (fastforce simp: serves_model_def repo_inv_def)
  with wrr_loop_backends [of "ge_exec G" C f "\<lparr>lw_backends = lb_backends ?l, lw_meta = mw_meta w, lw_rest = gw_rest w\<rparr>" ?l "ge_time G" u 0] assms(1,2)
  have "wrr_loop ?l (ge_time G) f u 0 \<lparr>lw_backends = lb_backends ?l, lw_meta = mw_meta w, lw_rest = gw_rest w\<rparr> =
      wrr_loop ?l (ge_time G) (ge_exec G) u 0 \<lparr>lw_backends = lb_backends ?l, lw_meta = mw_meta w, lw_rest = gw_rest w\<rparr>"
    by (simp add: keeps_backends_def agrees_on_def)
  then show ?thesis by (simp add: run_balancer_def wrr_process_def Let_def split: option.split)
qed

text \<open>The invariant that running the rules keeps.\<close>

definition confined :: "(string \<Rightarrow> bool) \<Rightarrow> 'v chain set \<Rightarrow> string \<Rightarrow> 'v rule_composer \<Rightarrow> nat set \<Rightarrow> bool" where
  "confined compiles C m st A \<longleftrightarrow> repo_inv compiles (co_modelRepo st) \<and> model_chains compiles (co_modelRepo st) m \<subseteq> C \<and> (\<forall>a\<in>A. serves_model m st a)"

lemma confined_turns: "confined compiles C m st A \<Longrightarrow> turns_only st st' \<Longrightarrow> confined compiles C m st' A"
  using serves_model_turns [of m st _ st'] by (auto simp: confined_def turns_only_def)

lemma run_rules_agrees:
  assumes "keeps_backends G" and "agrees_on C G f"
    and "confined compiles C m (gw_composer w) {a. \<exists>x\<in>set rs. rule_Engine x = Some (BalanceTarget a)}"
  shows "run_rules L (run_target (G\<lparr>ge_exec := f\<rparr>)) u rs w = run_rules L (run_target G) u rs w"
  using assms(3)
proof (induction rs arbitrary: w)
  case (Cons x rs)
  have rest: "confined compiles C m (gw_composer w') {a. \<exists>x\<in>set rs. rule_Engine x = Some (BalanceTarget a)}"
    if "turns_only (gw_composer w) (gw_composer w')" for w' :: "('a, 'b) gateway"
  proof (rule confined_turns [OF _ that])
    show "confined compiles C m (gw_composer w) {a. \<exists>x\<in>set rs. rule_Engine x = Some (BalanceTarget a)}"
      using Cons.prems by (auto simp: confined_def)
  qed
  let ?w1 = "w\<lparr>mw_meta := SetMetadataValue (mw_meta w) matchedRuleName (MetaStr (rule_Name x))\<rparr>"
  have t: "run_target (G\<lparr>ge_exec := f\<rparr>) t u ?w1 = run_target G t u ?w1" if "rule_Engine x = Some t" for t
    using that Cons.prems run_balancer_agrees [OF assms(1,2), of compiles ?w1 m] by (cases t) (auto simp: confined_def)
  have "turns_only (gw_composer w) (gw_composer w2)" if "run_target G t u ?w1 = (q, w2)" for t q w2
    using run_target_turns [OF assms(1) that] by simp
  then show ?case
    using Cons.IH [OF rest] t by (auto simp: Let_def simp del: errors_as.simps split: outcome.splits prod.splits option.splits)
qed simp

lemma run_composed_agrees:
  assumes "keeps_backends G" and "agrees_on C G f" and "confined compiles C m (gw_composer w) (addresses c)"
  shows "run_composed (G\<lparr>ge_exec := f\<rparr>) c u w = run_composed G c u w"
proof (cases c)
  case (BalancedEngine a)
  with assms(3) run_balancer_agrees [OF assms(1,2), of compiles w m a u] show ?thesis by (simp add: confined_def)
next
  case (RulesEngine rs)
  with assms(3) run_rules_agrees [OF assms(1,2), of compiles m w rs] show ?thesis by (simp add: rules_process_def)
qed

lemma getEngine_repo:
  assumes "composer_getEngine compiles rnd org m st = (r, st1)"
  shows "modelBackendConfig (co_modelRepo st1) = modelBackendConfig (co_modelRepo st) \<and> repoHeap (co_modelRepo st1) = repoHeap (co_modelRepo st)"
proof -
  have "extends_composer compiles st st2" if "build_engine compiles rnd rules m st = (x, st2)" for rules x st2
    by (rule build_engine_serves(1) [OF that])
  then show ?thesis
    using assms by (fastforce simp: composer_getEngine_def extends_composer_def split: option.splits sum.splits prod.splits)
qed

lemma dispatch_repo:
  assumes "keeps_backends G" and "dispatch G e u w = (r, w1)"
  shows "modelBackendConfig (co_modelRepo (gw_composer w1)) = modelBackendConfig (co_modelRepo (gw_composer w)) \<and>
    repoHeap (co_modelRepo (gw_composer w1)) = repoHeap (co_modelRepo (gw_composer w))"
proof -
  obtain x st where x: "composer_getEngine (xl_Compile (ge_expr G)) (ge_rand G) (ce_OrgName e) (ce_Model e) (gw_composer w) = (x, st)"
    by fastforce
  have "co_modelRepo (gw_composer w1) = co_modelRepo st"
    using assms(2) turns_only_repo [OF run_composed_turns [OF assms(1)]] by (fastforce simp: dispatch_def x split: outcome.splits sum.splits)
  with getEngine_repo [OF x] show ?thesis by simp
qed

text \<open>The backends that the configuration gives a model.\<close>

definition configured_chains :: "(string \<Rightarrow> bool) \<Rightarrow> header_heap \<Rightarrow> 'v config_file \<Rightarrow> string \<Rightarrow> 'v chain set" where
  "configured_chains compiles h conf m = model_chains compiles (co_modelRepo (NewServer h conf)) m"

lemma reachable_repo:
  assumes "reachable G h conf w" and "keeps_backends G"
  shows "model_chains compiles (co_modelRepo (gw_composer w)) m = configured_chains compiles h conf m"
proof -
  have "modelBackendConfig (co_modelRepo (gw_composer w)) = modelBackendConfig (co_modelRepo (NewServer h conf)) \<and>
      repoHeap (co_modelRepo (gw_composer w)) = repoHeap (co_modelRepo (NewServer h conf))"
    using assms(1)
  proof induction
    case (served w e u x e1 w1 md r)
    then show ?case
      using dispatch_repo [OF assms(2)] by (fastforce simp: composer_process_def split: outcome.splits sum.splits prod.splits)
  qed simp
  then show ?thesis by (simp add: configured_chains_def model_chains_def)
qed

text \<open>C28: Models do not interfere. Whatever happens on a server after its start, a request for a model
  depends only on the backends that the configuration gives to this model: if the engines of all other
  backends behaved differently, the result of the request and everything it changes would be the same.\<close>

theorem other_models_do_not_interfere:
  fixes conf :: "'v config_file" and w :: "('v, 'w) gateway"
  assumes "reachable G h conf w" and "keeps_backends G" and "fst (resolve_model e u) = Returned (Inr e1)"
    and "agrees_on (configured_chains (xl_Compile (ge_expr G)) h conf (ce_Model e1)) G f"
  shows "composer_process (G\<lparr>ge_exec := f\<rparr>) e u w = composer_process G e u w"
proof -
  let ?compiles = "xl_Compile (ge_expr G)" and ?m = "ce_Model e1"
  obtain u1 where u1: "resolve_model e u = (Returned (Inr e1), u1)" using assms(3) by (metis prod.collapse)
  have "dispatch (G\<lparr>ge_exec := f\<rparr>) e1 u2 w = dispatch G e1 u2 w" for u2
  proof -
    obtain x st where x: "composer_getEngine ?compiles (ge_rand G) (ce_OrgName e1) ?m (gw_composer w) = (x, st)" by fastforce
    have inv: "composer_inv ?compiles conf st" by (rule getEngine_inv(1) [OF gateway_inv [OF assms(1,2)] x])
    have "model_chains ?compiles (co_modelRepo st) ?m = configured_chains ?compiles h conf ?m"
      using getEngine_repo [OF x] reachable_repo [OF assms(1,2), of ?compiles ?m] by (simp add: model_chains_def)
    then have "run_composed (G\<lparr>ge_exec := f\<rparr>) c u2 (w\<lparr>gw_composer := st\<rparr>) = run_composed G c u2 (w\<lparr>gw_composer := st\<rparr>)" if "x = Returned (Inr c)" for c
      using getEngine_inv(2) [OF gateway_inv [OF assms(1,2)] x that] inv
      by (intro run_composed_agrees [OF assms(2,4)]) (auto simp: confined_def composer_inv_def engine_for_def)
    then show ?thesis by (auto simp: dispatch_def x split: outcome.splits sum.splits)
  qed
  then show ?thesis by (simp add: composer_process_def u1 split: outcome.split sum.split prod.split)
qed

text \<open>Backends of a model that is not the one asked for, whose engines behave in another way.\<close>

theorem other_models_do_not_interfere_witness:
  "\<exists>f. f \<noteq> ge_exec demo_gateway_env \<and>
     composer_process (demo_gateway_env\<lparr>ge_exec := f\<rparr>) \<lparr>ce_Model = ''m'', ce_OrgName = ''acme''\<rparr> \<lparr>req_ctx = Map.empty, rq_body = None\<rparr> (demo_gateway acme_conf) =
     composer_process demo_gateway_env \<lparr>ce_Model = ''m'', ce_OrgName = ''acme''\<rparr> \<lparr>req_ctx = Map.empty, rq_body = None\<rparr> (demo_gateway acme_conf)"
proof -
  let ?other = "GeneralEndpoint (general_conf_of (zero_backend\<lparr>BaseURL := ''https://other''\<rparr> :: unit backend_conf)) '''' :: unit chain"
  let ?f = "(ge_exec demo_gateway_env)(?other := (\<lambda>u lw. ((None, None), lw)))"
  have other: "BaseURL b \<noteq> ''https://other'' \<Longrightarrow> BuildEngineByBackend compiles h b \<noteq> Inr ?other" for compiles h and b :: "unit backend_conf"
    using build_endpoint [of compiles h b ?other] by (auto simp: general_conf_of_def)
  have conf: "modelBackendConfig (co_modelRepo (NewServer [] acme_conf)) = [(''m'', [(''default:1'', zero_backend\<lparr>BaseURL := ''https://up''\<rparr>)])]"
    by (simp add: NewServer_def composer_UpdateFromConfig_def NewRuleRepoFileBased_def repo_UpdateFromConfig_def acme_conf_def
        NewModelRepoFileBased_def merge_backend_def zero_backend_def add_headers_def set_string_def set_pointer_def)
  have "?other \<notin> configured_chains compiles [] acme_conf ''m''" for compiles
    using other by (auto simp: configured_chains_def model_chains_def conf split: if_splits)
  then have agrees: "agrees_on (configured_chains (xl_Compile (ge_expr demo_gateway_env)) [] acme_conf (ce_Model \<lparr>ce_Model = ''m'', ce_OrgName = ''acme''\<rparr>)) demo_gateway_env ?f"
    by (auto simp: agrees_on_def)
  have "fst (resolve_model \<lparr>ce_Model = ''m'', ce_OrgName = ''acme''\<rparr> \<lparr>req_ctx = Map.empty, rq_body = None\<rparr>) = Returned (Inr \<lparr>ce_Model = ''m'', ce_OrgName = ''acme''\<rparr>)"
    by (simp add: resolve_model_def)
  note t = other_models_do_not_interfere [OF demo_gateway_reachable demo_keeps this agrees]
  have "?f \<noteq> ge_exec demo_gateway_env"
  proof
    assume "?f = ge_exec demo_gateway_env"
    from fun_cong [OF fun_cong [OF this, of ?other], of undefined] have "(None, None) = (None, Some (Plain ''down''))"
      by (simp add: demo_gateway_env_def fun_eq_iff)
    then show False by simp
  qed
  with t show ?thesis by blast
qed

section \<open>Rules without a default backend\<close>

text \<open>C29: Rules without a default backend. If a model has rules but no backend whose name starts with
  \<open>default:\<close>, a request that no rule matches runs into the fallback rule, whose engine is nil: the
  handler panics and the client gets no error of the protocol.\<close>

theorem unmatched_request_panics:
  fixes conf :: "'v config_file" and w :: "('v, 'w) gateway" and keys :: "string \<rightharpoonup> user_with_org" and authHeader :: string
  defines "org \<equiv> uo_Org (auth_Handle keys authHeader)"
  assumes "reachable G h conf w" and "keeps_backends G" and "chat_request p c r m"
    and "map_of (Models conf) m = Some mc" and "final_rules conf org m mc \<noteq> []"
    and "\<forall>rc\<in>set (final_rules conf org m mc). \<not> Match (ge_expr G) (rule_matcher rc) (seen_request p c r)"
    and "filter is_default (GetBackendNamesByModel (co_modelRepo (gw_composer w)) m) = []"
    and "fst (composer_getEngine (xl_Compile (ge_expr G)) (ge_rand G) org m (gw_composer w)) = Returned (Inr e)"
  shows "ChatCompletionsHandler env (server_engine G keys authHeader w) p c r new_writer = Panicked"
proof -
  note inv = gateway_inv [OF assms(2,3)]
  obtain st where g: "composer_getEngine (xl_Compile (ge_expr G)) (ge_rand G) org m (gw_composer w) = (Returned (Inr e), st)"
    using assms(9) by (metis prod.collapse)
  have "filter is_default (GetBackendNamesByModel (co_modelRepo st) m) = []"
    using getEngine_repo [OF g] assms(8) by (simp add: GetBackendNamesByModel_def)
  with getEngine_inv(2) [OF inv g] assms(5,6)
  obtain xs where xs: "e = RulesEngine (xs @ [fallback_rule None])" "list_all2 rule_for (final_rules conf org m mc) xs"
    by (auto simp: engine_for_def)
  have "run_rules (ge_expr G) (run_target G) (seen_request p c r) (xs @ [fallback_rule None]) w2 =
      (Panicked, w2\<lparr>mw_meta := SetMetadataValue (mw_meta w2) matchedRuleName (MetaStr ''fallback'')\<rparr>)" for w2
    by (subst run_rules_skip [OF run_rules_prefix [OF xs(2) assms(7)]]) (simp add: fallback_rule_def)
  then have "fst (dispatch G \<lparr>ce_Model = m, ce_OrgName = org\<rparr> (seen_request p c r) w) = Panicked"
    by (simp add: dispatch_def g xs(1) rules_process_def)
  then obtain w3 where "dispatch G \<lparr>ce_Model = m, ce_OrgName = org\<rparr> (seen_request p c r) w = (Panicked, w3)"
    by (metis prod.collapse)
  then obtain flag where "fst (composer_process G (composer_engine_for (uo_User (auth_Handle keys authHeader)) org '''') (handler_request p c r) w) =
      (Panicked, Some flag)"
    using chat_request_process [OF assms(4), of G "uo_User (auth_Handle keys authHeader)" org w] by auto
  then have "server_engine G keys authHeader w (handler_request p c r) = ((None, None), Some flag)"
    by (simp add: server_engine_def Let_def org_def)
  then show ?thesis by (simp add: ChatCompletionsHandler_def httpSSEHandler_def after_def)
qed

text \<open>Rules for one half of the requests, and the backend the guide's naming scheme does not make a default.\<close>

definition half_conf :: "unit config_file" where
  "half_conf = \<lparr>GlobalBackends = Map.empty,
     Models = [(''m'', \<lparr>Access = ''public'', Backends = [(''main'', zero_backend\<lparr>BaseURL := ''https://up''\<rparr>)],
       DefaultRules = [\<lparr>rc_Name = ''half'', MatchExpr = ''false'', Deny = None, ForwardWeights = [(''main'', 1)]\<rparr>]\<rparr>)], Users = []\<rparr>"

definition never_env :: "(unit, unit, string http_response) gateway_env" where
  "never_env = demo_gateway_env\<lparr>ge_expr := \<lparr>xl_Compile = (\<lambda>code. True), xl_Run = (\<lambda>code u. Inr (ExprBool False))\<rparr>\<rparr>"

theorem unmatched_request_panics_witness:
  "ChatCompletionsHandler \<lparr>is_flusher = True, heartbeat_env = None, ticks = 0, json_valid = (\<lambda>s. True)\<rparr>
     (server_engine never_env Map.empty '''' (demo_gateway half_conf)) chat_parser Map.empty \<lparr>ReadAll = Inr ''m'', closing = None\<rparr> new_writer = Panicked"
proof -
  let ?rc = "\<lparr>rc_Name = ''half'', MatchExpr = ''false'', Deny = None, ForwardWeights = [(''main'', 1)]\<rparr>"
  let ?mc = "\<lparr>Access = ''public'', Backends = [(''main'', zero_backend\<lparr>BaseURL := ''https://up''\<rparr>)], DefaultRules = [?rc]\<rparr> :: unit model_conf"
  let ?r = "\<lparr>ReadAll = Inr ''m'', closing = None\<rparr>" and ?b = "zero_backend\<lparr>BaseURL := ''https://up''\<rparr> :: unit backend_conf"
  have org: "uo_Org (auth_Handle Map.empty '''') = ''''" by (simp add: auth_Handle_def)
  have keeps: "keeps_backends never_env" by (simp add: keeps_backends_def never_env_def demo_gateway_env_def)
  have rules: "map_of (Models half_conf) ''m'' = Some ?mc" "final_rules half_conf (uo_Org (auth_Handle Map.empty '''')) ''m'' ?mc = [?rc]"
    by (simp_all add: half_conf_def final_rules_def org_model_def org)
  then have h: "final_rules half_conf (uo_Org (auth_Handle Map.empty '''')) ''m'' ?mc \<noteq> []"
    "\<forall>rc\<in>set (final_rules half_conf (uo_Org (auth_Handle Map.empty '''')) ''m'' ?mc).
       \<not> Match (ge_expr never_env) (rule_matcher rc) (seen_request chat_parser Map.empty ?r)"
    by (simp_all add: rule_matcher_def expr_Match_def never_env_def)
  have repo: "modelBackendConfig (co_modelRepo (gw_composer (demo_gateway half_conf))) = [(''m'', [(''main'', ?b)])]"
    "modelBackendEngine (co_modelRepo (gw_composer (demo_gateway half_conf))) = Map.empty"
    "co_orgModelEngine (gw_composer (demo_gateway half_conf)) = Map.empty" "co_conf (gw_composer (demo_gateway half_conf)) = Some half_conf"
    "co_balancers (gw_composer (demo_gateway half_conf)) = []"
    by (simp_all add: demo_gateway_def NewServer_def composer_UpdateFromConfig_def NewRuleRepoFileBased_def repo_UpdateFromConfig_def half_conf_def
        NewModelRepoFileBased_def merge_backend_def zero_backend_def add_headers_def set_string_def set_pointer_def)
  then have names: "GetBackendNamesByModel (co_modelRepo (gw_composer (demo_gateway half_conf))) ''m'' = [''main'']"
    by (simp add: GetBackendNamesByModel_def)
  have "URLPathChat ?b = None" "ExtraHeadersByExpr ?b = None" by (simp_all add: zero_backend_def)
  then obtain x where x: "BuildEngineByBackend (\<lambda>code. True) (repoHeap (co_modelRepo (gw_composer (demo_gateway half_conf)))) ?b = Inr x"
    using build_plain by blast
  have g: "\<exists>e. fst (composer_getEngine (xl_Compile (ge_expr never_env)) (ge_rand never_env) (uo_Org (auth_Handle Map.empty '''')) ''m''
      (gw_composer (demo_gateway half_conf))) = Returned (Inr e)"
    using rules(2) by (simp add: composer_getEngine_def org repo rules(1) access_error_def ModelAccessInternal_def ModelAccessPrivate_def build_engine_def
        buildDefaultEngine_def names is_default_def repo_items_def buildEngineByRuleList_def buildRuleEngineRuleByConfig_def Let_def
        repo_GetEngine_def never_env_def x new_balancer_def NewWeightedRoundRobin_def wrr_backends_def)
  then obtain e where g: "fst (composer_getEngine (xl_Compile (ge_expr never_env)) (ge_rand never_env) (uo_Org (auth_Handle Map.empty '''')) ''m''
      (gw_composer (demo_gateway half_conf))) = Returned (Inr e)" ..
  have nd: "filter is_default (GetBackendNamesByModel (co_modelRepo (gw_composer (demo_gateway half_conf))) ''m'') = []"
    by (simp add: names is_default_def)
  show ?thesis
    by (rule unmatched_request_panics [OF demo_gateway_reachable keeps demo_chat_request rules(1) h nd g])
qed

section \<open>Configuration updates\<close>

text \<open>Updating the composer keeps the engines it has built, so an organisation keeps its access, and the
  rules and backends of the old configuration, for every model it has asked for before.\<close>

lemma update_keeps_old_engines:
  assumes "composer_getEngine compiles rnd org m st = (Returned (Inr e), st1)"
  shows "composer_getEngine compiles rnd org m ((composer_UpdateFromConfig conf st1)\<lparr>co_modelRepo := r\<rparr>) =
    (Returned (Inr e), (composer_UpdateFromConfig conf st1)\<lparr>co_modelRepo := r\<rparr>)"
  using assms by (auto simp: composer_getEngine_def composer_UpdateFromConfig_def split: option.splits sum.splits prod.splits)

end
