(* ===== verification/ForceStream.thy ===== *)
theory ForceStream
  imports StreamMerge Endpoint
begin

text \<open>
  \<open>pkg/engines/non_stream_to_stream.go\<close>: an engine that asks for a stream where the client wants a plain
  answer, and merges it. It composes the body and the stream detection of requests with the mergers.
\<close>

section \<open>The forced request\<close>

text \<open>A request with its format. The body is behind a pointer: what the engine does to the body of the request
  it was given is seen by the outer engines, so the request is returned.\<close>

record 'x format_request =
  fq_Request :: "'x stream_request"
  fq_Format :: string

text \<open>No formats: every format that has a merger.\<close>

definition WithEnabledFormats :: "string list \<Rightarrow> string list" where
  "WithEnabledFormats formats = remdups formats"

definition enabledFor :: "string list \<Rightarrow> string \<Rightarrow> bool" where
  "enabledFor enabled format \<longleftrightarrow> enabled = [] \<or> format \<in> set enabled"

text \<open>The edit of the JSON text (\<open>sjson\<close>) is a parameter; the new body is independent of the old one.\<close>

definition bodyStreamRequest ::
  "(string \<Rightarrow> err + string) \<Rightarrow> 'x format_request \<Rightarrow> (err + 'x format_request) outcome \<times> 'x format_request" where
  "bodyStreamRequest set_stream q =
     (let u = fq_Request q
      in case rq_body u of
           None \<Rightarrow> (Panicked, q)
         | Some b \<Rightarrow>
             (case Bytes b of
                (Panicked, b1) \<Rightarrow> (Panicked, q\<lparr>fq_Request := u\<lparr>rq_body := Some b1\<rparr>\<rparr>)
              | (Returned (Inl er), b1) \<Rightarrow>
                  (Returned (Inl (Wrap ''read request body'' [er])), q\<lparr>fq_Request := u\<lparr>rq_body := Some b1\<rparr>\<rparr>)
              | (Returned (Inr s), b1) \<Rightarrow>
                  (let q1 = q\<lparr>fq_Request := u\<lparr>rq_body := Some b1\<rparr>\<rparr>
                   in case set_stream s of
                        Inl er \<Rightarrow> (Returned (Inl (Wrap ''set stream flag'' [er])), q1)
                      | Inr s' \<Rightarrow>
                          (Returned (Inr (q1\<lparr>fq_Request := (fq_Request q1)
                             \<lparr>req_ctx := with_value (req_ctx u) ContextKeyIsStream (CtxBool True),
                              rq_body := Some (NewBodyFromBytes (Some s') (b_parser b1))\<rparr>\<rparr>)), q1))))"

definition vertexStreamRequest :: "'x format_request \<Rightarrow> 'x format_request" where
  "vertexStreamRequest q =
     (let c = with_value (with_value (with_value (req_ctx (fq_Request q)) ContextKeyIsStream (CtxBool True))
                ContextKeyAction (CtxStr ''streamGenerateContent'')) ContextKeyIsSSE (CtxBool True)
      in q\<lparr>fq_Request := WithContext (fq_Request q) c\<rparr>)"

definition toStreamRequest ::
  "(string \<Rightarrow> err + string) \<Rightarrow> 'x format_request \<Rightarrow> (err + 'x format_request) outcome \<times> 'x format_request" where
  "toStreamRequest set_stream q =
     (if fq_Format q \<in> {APIFormatChatCompletions, APIFormatCompletions, APIFormatResponses, APIFormatClaudeMessages}
      then bodyStreamRequest set_stream q
      else if fq_Format q = APIFormatGoogleGenerateContent then (Returned (Inr (vertexStreamRequest q)), q)
      else (Returned (Inl (Plain ''force-stream not supported for format'')), q))"

section \<open>Merging the answer\<close>

definition Merge :: "llm_value stream_chunk \<Rightarrow> merger \<Rightarrow> err option outcome \<times> merger" where
  "Merge c g =
     (case g of
        ChatMerger m \<Rightarrow> map_prod id ChatMerger (chat_Merge c m)
      | ClaudeMerger m \<Rightarrow> map_prod id ClaudeMerger (claude_Merge c m))"

definition Merged :: "llm_value parser \<Rightarrow> merger \<Rightarrow> llm_value body" where
  "Merged p g = (case g of ChatMerger m \<Rightarrow> fst (chat_Merged p m) | ClaudeMerger m \<Rightarrow> fst (claude_Merged p m))"

fun merge_stream :: "llm_value stream_chunk list \<Rightarrow> merger \<Rightarrow> (err + merger) outcome" where
  "merge_stream [] g = Returned (Inr g)"
| "merge_stream (c # cs) g =
     (case Merge c g of
        (Panicked, g1) \<Rightarrow> Panicked
      | (Returned (Some er), g1) \<Rightarrow> Returned (Inl (Wrap ''merge stream chunk'' [er]))
      | (Returned None, g1) \<Rightarrow> merge_stream cs g1)"

text \<open>Headers that described the stream are dropped.\<close>

definition plain_header :: "http_header \<Rightarrow> http_header" where
  "plain_header h =
     fold AList.delete [''Content-Length'', ''Content-Encoding'', ''Transfer-Encoding''] (set_header ''Content-Type'' ''application/json'' h)"

text \<open>The next engine, with what it leaves of its request. The result comes with the close callbacks that
  ran.\<close>

type_synonym 'x format_engine = "'x format_request \<Rightarrow> llm_value http_response go_result outcome \<times> 'x format_request"

definition answer_plain ::
  "llm_value parser \<Rightarrow> merger \<Rightarrow> llm_value http_response go_result outcome \<Rightarrow> llm_value http_response go_result outcome \<times> close_action list" where
  "answer_plain p g r =
     (case r of
        Panicked \<Rightarrow> (Panicked, [])
      | Returned (x, Some er) \<Rightarrow> (Returned (None, Some er), [])
      | Returned (None, None) \<Rightarrow> (Panicked, [])
      | Returned (Some resp, None) \<Rightarrow>
          (case hr_Stream resp of
             None \<Rightarrow> (Returned (Some resp, None), [])
           | Some src \<Rightarrow>
               (case merge_stream (st_chunks src) g of
                  Panicked \<Rightarrow> (Panicked, st_close src)
                | Returned (Inl er) \<Rightarrow> (Returned (None, Some er), st_close src)
                | Returned (Inr g1) \<Rightarrow>
                    (Returned (Some \<lparr>hr_StatusCode = 200, hr_Header = plain_header (hr_Header resp), hr_Body = Some (Merged p g1), hr_Stream = None\<rparr>, None),
                     st_close src))))"

definition force_process ::
  "(string \<Rightarrow> err + string) \<Rightarrow> llm_value parser \<Rightarrow> string list \<Rightarrow> 'x format_engine \<Rightarrow> 'x format_request
    \<Rightarrow> (llm_value http_response go_result outcome \<times> close_action list) \<times> 'x format_request" where
  "force_process set_stream p enabled nxt q =
     (let through = (\<lambda>q. let (r, q1) = nxt q in ((r, []), q1))
      in if \<not> enabledFor enabled (fq_Format q) then through q
         else case IsStream (fq_Request q) of
                (Panicked, u) \<Rightarrow> ((Panicked, []), q\<lparr>fq_Request := u\<rparr>)
              | (Returned (True, er), u) \<Rightarrow> through (q\<lparr>fq_Request := u\<rparr>)
              | (Returned (False, er), u) \<Rightarrow>
                  (let q0 = q\<lparr>fq_Request := u\<rparr>
                   in case merger_for (fq_Format q) of
                        Inl er' \<Rightarrow> through q0
                      | Inr g \<Rightarrow>
                          (case toStreamRequest set_stream q0 of
                             (Panicked, q1) \<Rightarrow> ((Panicked, []), q1)
                           | (Returned (Inl er'), q1) \<Rightarrow> ((Returned (None, Some (Wrap ''convert request to stream'' [er'])), []), q1)
                           | (Returned (Inr fq), q1) \<Rightarrow> (answer_plain p g (fst (nxt fq)), q1))))"

section \<open>The merged answer\<close>

lemma merge_stream_append:
  "merge_stream (cs @ ds) g = (case merge_stream cs g of Returned (Inr g1) \<Rightarrow> merge_stream ds g1 | r \<Rightarrow> r)"
  by (induction cs arbitrary: g) (auto split: prod.splits outcome.splits option.splits)

lemma merge_stream_chunks:
  "list_all2 delivers cs cks \<Longrightarrow> merge_stream cs (ChatMerger m) = Returned (Inr (ChatMerger (fold merge_chunk cks m)))"
  by (induction cs cks arbitrary: m rule: list_all2_induct) (simp_all add: Merge_def chat_Merge_def delivers_def)

lemma merge_stream_terminator: "terminates d \<Longrightarrow> merge_stream [d] (ChatMerger m) = Returned (Inr (ChatMerger m))"
  by (auto simp: Merge_def chat_Merge_def terminates_def split: outcome.splits option.splits prod.splits)
lemma plain_header_simps:
  "map_of (plain_header h) ''Content-Type'' = Some [''application/json'']"
  "k \<in> {''Content-Length'', ''Content-Encoding'', ''Transfer-Encoding''} \<Longrightarrow> map_of (plain_header h) k = None"
  by (auto simp: plain_header_def set_header_def delete_conv' update_conv')

lemma forced_body:
  assumes "rq_body (fq_Request q) = Some b" "Bytes b = (Returned (Inr s), b1)" "set_stream s = Inr s'"
    and "fq_Format q \<in> {APIFormatChatCompletions, APIFormatClaudeMessages}"
  obtains fq where
    "toStreamRequest set_stream q = (Returned (Inr fq), q\<lparr>fq_Request := (fq_Request q)\<lparr>rq_body := Some b1\<rparr>\<rparr>)"
    "fst (IsStream (fq_Request fq)) = Returned (True, None)"
    "\<exists>fb. rq_body (fq_Request fq) = Some fb \<and> fst (Bytes fb) = Returned (Inr s')" "fq_Format fq = fq_Format q"
proof (rule that)
  let ?fq = "q\<lparr>fq_Request := (fq_Request q)\<lparr>req_ctx := with_value (req_ctx (fq_Request q)) ContextKeyIsStream (CtxBool True),
      rq_body := Some (NewBodyFromBytes (Some s') (b_parser b1))\<rparr>\<rparr>"
  show "toStreamRequest set_stream q = (Returned (Inr ?fq), q\<lparr>fq_Request := (fq_Request q)\<lparr>rq_body := Some b1\<rparr>\<rparr>)"
    using assms by (auto simp: toStreamRequest_def bodyStreamRequest_def Let_def)
  show "fst (IsStream (fq_Request ?fq)) = Returned (True, None)"
    by (simp add: IsStream_def with_value_def)
  show "\<exists>fb. rq_body (fq_Request ?fq) = Some fb \<and> fst (Bytes fb) = Returned (Inr s')"
    by (simp add: NewBodyFromBytes_def Bytes_def)
qed simp

section \<open>Converted streams\<close>

text \<open>What \<open>encoding/json\<close> promises of an event: marshalled, it parses to itself.\<close>

definition event_roundtrip :: "json_lib \<Rightarrow> claude_event \<Rightarrow> bool" where
  "event_roundtrip J ev \<longleftrightarrow> Parse (ClaudeEventParser J) (MarshalEvent J ev) = (Some (ClaudeEventV ev), None)"

lemma merge_stream_events:
  assumes "\<And>ev. ev \<in> set evs \<Longrightarrow> event_roundtrip J ev" "merge_events evs m = Some g"
  shows "merge_stream (map (event_chunk J) evs) (ClaudeMerger m) = Returned (Inr (ClaudeMerger g))"
  using assms
proof (induction evs arbitrary: m)
  case (Cons ev evs)
  then obtain m1 where m1: "merge_event ev m = (Returned None, m1)" "merge_events evs m1 = Some g"
    by (auto split: prod.splits outcome.splits option.splits)
  have "fst (Parsed (ch_Body (event_chunk J ev))) = Returned (Some (ClaudeEventV ev), None)"
    using Cons.prems(1) [of ev] by (simp add: event_roundtrip_def event_chunk_def Parsed_def NewBodyFromBytes_def read_all_def split_beta)
  then have "Merge (event_chunk J ev) (ClaudeMerger m) = (Returned None, ClaudeMerger m1)"
    using m1(1) by (simp add: Merge_def claude_Merge_def)
  then show ?case using Cons.IH [OF _ m1(2)] Cons.prems(1) by simp
qed simp

text \<open>C34: A plain Claude answer over a streaming chat upstream. The client asks for a plain answer; the
  engine forces a stream and the next engines convert the upstream's chunks to Claude events. The next
  engine is given a request that reads as streaming, in its body and in its context, while the client's
  own request keeps its body; and the client gets one response with status 200, no header of the
  stream's framing and exactly the message of the reply: its reasoning, text, tool calls, stop reason
  and usage. The stream is closed.\<close>

theorem plain_answer_over_forced_stream:
  fixes q :: "'x format_request"
  assumes enabled: "enabledFor enabled (fq_Format q)" and claude: "fq_Format q = APIFormatClaudeMessages"
    and plain: "IsStream (fq_Request q) = (Returned (False, e0), u)"
    and body: "rq_body u = Some b" "Bytes b = (Returned (Inr s), b1)" "set_stream s = Inr s'"
    and answer: "\<And>fq. fst (IsStream (fq_Request fq)) = Returned (True, None) \<Longrightarrow>
      \<exists>fb. rq_body (fq_Request fq) = Some fb \<and> fst (Bytes fb) = Returned (Inr s') \<Longrightarrow>
      fst (nxt fq) = Returned (Some \<lparr>hr_StatusCode = code, hr_Header = h, hr_Body = None,
        hr_Stream = Some (convertStreamResponse J \<lparr>send_ok = all_sent, ctx_done = (\<lambda>_. False)\<rparr> src)\<rparr>, None)"
    and json: "\<And>ev. event_chunk J ev \<in> set (st_chunks (convertStreamResponse J \<lparr>send_ok = all_sent, ctx_done = (\<lambda>_. False)\<rparr> src)) \<Longrightarrow>
      event_roundtrip J ev"
    and chunks: "st_chunks src = cs @ d # rest" "list_all2 delivers cs (reply_chunks i m rs ts calls fr us)" "terminates d"
    and reply: "list_all (\<lambda>x. x \<noteq> '''') rs" "list_all (\<lambda>x. x \<noteq> '''') ts" "calls \<noteq> [] \<longrightarrow> rs = [] \<or> ts \<noteq> []" "fr \<noteq> ''''"
      "list_all (\<lambda>(k, nm, args). concat args \<noteq> '''') calls"
  shows "\<exists>rb. force_process set_stream p enabled nxt q =
      ((Returned (Some \<lparr>hr_StatusCode = 200, hr_Header = plain_header h, hr_Body = Some rb, hr_Stream = None\<rparr>, None),
        st_close (convertStreamResponse J \<lparr>send_ok = all_sent, ctx_done = (\<lambda>_. False)\<rparr> src)), q\<lparr>fq_Request := u\<lparr>rq_body := Some b1\<rparr>\<rparr>)
    \<and> fst (Parsed rb) = Returned (Some (ClaudeResponseV (reply_response i m (concat rs) (concat ts) (joined calls) fr us)), None)
    \<and> fst (Bytes b1) = Returned (Inr s)"
proof -
  let ?src = "convertStreamResponse J \<lparr>send_ok = all_sent, ctx_done = (\<lambda>_. False)\<rparr> src"
  obtain s1 where s1: "convert_all (reply_chunks i m rs ts calls fr us) conv_init = Some s1"
    "merge_events (cv_out (snd (finish_stream all_sent s1))) NewClaudeMessagesMerger =
      Some \<lparr>cmg_response = (start_response i m)\<lparr>cl_StopReason := mapFinishReason fr, cl_Usage := Some (convert_usage us)\<rparr>,
        cmg_blocks = map Some (blocks_of (concat rs) (concat ts) (joined calls)), cmg_finalized = False\<rparr>" (is "_ = Some ?g")
    using converted_reply_merges [OF reply(1-4)] by blast
  have merged: "merge_stream (st_chunks ?src) (ClaudeMerger NewClaudeMessagesMerger) = Returned (Inr (ClaudeMerger ?g))"
    using merge_stream_events [OF json s1(2)] converted_events [OF chunks s1(1), of J] by simp
  have "list_all (\<lambda>(k, nm, args). args \<noteq> '''') (joined calls)" using reply(5) by (auto simp: joined_def list_all_iff)
  then have final: "cmg_response (claude_finalize ?g) = reply_response i m (concat rs) (concat ts) (joined calls) fr us"
    by (simp add: claude_finalize_def build_blocks reply_response_def start_response_def claude_message_response_def)
  let ?q0 = "q\<lparr>fq_Request := u\<rparr>"
  have q0: "rq_body (fq_Request ?q0) = Some b" "fq_Format ?q0 \<in> {APIFormatChatCompletions, APIFormatClaudeMessages}"
    using body(1) claude by simp_all
  obtain fq where fq: "toStreamRequest set_stream ?q0 = (Returned (Inr fq), ?q0\<lparr>fq_Request := (fq_Request ?q0)\<lparr>rq_body := Some b1\<rparr>\<rparr>)"
    "fst (nxt fq) = Returned (Some \<lparr>hr_StatusCode = code, hr_Header = h, hr_Body = None, hr_Stream = Some ?src\<rparr>, None)"
    using forced_body [where q = "?q0" and set_stream = set_stream, OF q0(1) body(2,3) q0(2)] answer by metis
  have mg: "merger_for (fq_Format q) = Inr (ClaudeMerger NewClaudeMessagesMerger)"
    by (simp add: claude APIFormatClaudeMessages_def merger_for_def)
  have "force_process set_stream p enabled nxt q =
      ((Returned (Some \<lparr>hr_StatusCode = 200, hr_Header = plain_header h, hr_Body = Some (Merged p (ClaudeMerger ?g)), hr_Stream = None\<rparr>, None),
        st_close ?src), q\<lparr>fq_Request := u\<lparr>rq_body := Some b1\<rparr>\<rparr>)"
    using enabled plain mg fq merged by (simp add: force_process_def answer_plain_def Let_def)
  moreover have "fst (Parsed (Merged p (ClaudeMerger ?g))) =
      Returned (Some (ClaudeResponseV (reply_response i m (concat rs) (concat ts) (joined calls) fr us)), None)"
    using final by (simp add: Merged_def claude_Merged_def Let_def NewBodyFromParsed_def Parsed_def)
  moreover have "fst (Bytes b1) = Returned (Inr s)" using Bytes_again [OF body(2)] by simp
  ultimately show ?thesis by blast
qed

text \<open>A library whose marshalled events are their positions in a stream.\<close>

definition demo_event_list :: "claude_event list" where
  "demo_event_list = cv_out (snd (finish_stream all_sent (the (convert_all (demo_reply [''on it'']) conv_init))))"

definition position :: "claude_event \<Rightarrow> nat" where
  "position ev = length (takeWhile (\<lambda>e. e \<noteq> ev) demo_event_list)"

definition event_json :: json_lib where
  "event_json = demo_json\<lparr>MarshalEvent := (\<lambda>ev. replicate (position ev) CHR ''.''),
     ClaudeEventParser := \<lparr>Parse = (\<lambda>s. (Some (ClaudeEventV (demo_event_list ! length s)), None)), Serialize = (\<lambda>v. Inr '''')\<rparr>\<rparr>"

lemma position_less: "ev \<in> set demo_event_list \<longleftrightarrow> position ev < length demo_event_list"
proof -
  have "x \<in> set xs \<longleftrightarrow> length (takeWhile (\<lambda>e. e \<noteq> x) xs) < length xs" for x :: claude_event and xs
    by (induction xs) auto
  then show ?thesis by (simp add: position_def)
qed

lemma position_nth: "ev \<in> set demo_event_list \<Longrightarrow> demo_event_list ! position ev = ev"
  unfolding position_less using nth_length_takeWhile [of "\<lambda>e. e \<noteq> ev" demo_event_list] by (simp add: position_def)

lemma event_json_roundtrip: "event_chunk event_json ev \<in> event_chunk event_json ` set demo_event_list \<Longrightarrow> event_roundtrip event_json ev"
proof -
  assume "event_chunk event_json ev \<in> event_chunk event_json ` set demo_event_list"
  then obtain e where "e \<in> set demo_event_list" "position ev = position e"
    by (auto simp: event_chunk_def event_json_def NewBodyFromBytes_def)
  then have "ev \<in> set demo_event_list" by (simp add: position_less)
  then show ?thesis by (simp add: event_roundtrip_def event_json_def position_nth)
qed

definition demo_source :: "llm_value stream_chan" where
  "demo_source = \<lparr>st_chunks = map carrier (demo_reply [''on it'']) @ [done_chunk], st_close = [OtherClose ''upstream'']\<rparr>"

definition demo_plain_request :: "unit format_request" where
  "demo_plain_request = \<lparr>fq_Request = \<lparr>req_ctx = (\<lambda>k. None), rq_body = Some (NewBodyFromBytes (Some ''{}'')
     (Some \<lparr>Parse = (\<lambda>s. (Some (ClaudeMessagesRequest None ()), None)), Serialize = (\<lambda>v. Inr '''')\<rparr>))\<rparr>, fq_Format = APIFormatClaudeMessages\<rparr>"

definition demo_converting :: "unit format_engine" where
  "demo_converting fq = (Returned (Some \<lparr>hr_StatusCode = 200, hr_Header = [(''Content-Type'', [''text/event-stream''])], hr_Body = None,
     hr_Stream = Some (convertStreamResponse event_json \<lparr>send_ok = all_sent, ctx_done = (\<lambda>_. False)\<rparr> demo_source)\<rparr>, None), fq)"

theorem plain_answer_over_forced_stream_witness:
  "\<exists>rb cls q1. force_process (\<lambda>s. Inr ''{stream}'') (ClaudeResponseParser demo_json) [] demo_converting demo_plain_request =
      ((Returned (Some \<lparr>hr_StatusCode = 200, hr_Header = plain_header [(''Content-Type'', [''text/event-stream''])], hr_Body = Some rb, hr_Stream = None\<rparr>, None),
        cls), q1)
    \<and> fst (Parsed rb) = Returned (Some (ClaudeResponseV (reply_response ''c1'' ''m'' (concat [''hm'', ''!'']) (concat [''on it''])
        (joined [(''t1'', ''f'', [''{'', ''}''])]) ''tool_calls'' demo_usage)), None)"
proof -
  have plain: "\<exists>u b. IsStream (fq_Request demo_plain_request) = (Returned (False, None), u) \<and> rq_body u = Some b \<and> Bytes b = (Returned (Inr ''{}''), b)"
    by (simp add: demo_plain_request_def IsStream_def detectIsStream_def ContextKeyAction_def NewBodyFromBytes_def Parsed_def read_all_def stream_flag_def Bytes_def)
  then obtain u b where u: "IsStream (fq_Request demo_plain_request) = (Returned (False, None), u)" "rq_body u = Some b" "Bytes b = (Returned (Inr ''{}''), b)"
    by blast
  let ?cs = "map carrier (demo_reply [''on it''])"
  have src: "st_chunks demo_source = ?cs @ done_chunk # []" by (simp add: demo_source_def)
  have "\<exists>s1. convert_all (demo_reply [''on it'']) conv_init = Some s1"
    unfolding demo_reply_def using converted_reply_merges [of "[''hm'', ''!'']" "[''on it'']" "[(''t1'', ''f'', [''{'', ''}''])]" "''tool_calls''" "''c1''" "''m''" demo_usage] by auto
  then have "st_chunks (convertStreamResponse event_json \<lparr>send_ok = all_sent, ctx_done = (\<lambda>_. False)\<rparr> demo_source) = map (event_chunk event_json) demo_event_list"
    using converted_events [OF src carriers_deliver done_chunk_terminates] by (auto simp: demo_event_list_def)
  then have json: "event_chunk event_json ev \<in> set (st_chunks (convertStreamResponse event_json \<lparr>send_ok = all_sent, ctx_done = (\<lambda>_. False)\<rparr> demo_source)) \<Longrightarrow>
      event_roundtrip event_json ev" for ev
    using event_json_roundtrip by simp
  show ?thesis
    using plain_answer_over_forced_stream [where enabled = "[]" and q = demo_plain_request and nxt = demo_converting and set_stream = "\<lambda>s. Inr ''{stream}''"
        and J = event_json and src = demo_source and s' = "''{stream}''" and code = 200 and h = "[(''Content-Type'', [''text/event-stream''])]" and p = "ClaudeResponseParser demo_json"
        and i = "''c1''" and m = "''m''" and rs = "[''hm'', ''!'']" and ts = "[''on it'']" and calls = "[(''t1'', ''f'', [''{'', ''}''])]" and fr = "''tool_calls''" and us = demo_usage,
        OF _ _ u(1-3) _ _ json src [unfolded demo_reply_def] carriers_deliver done_chunk_terminates]
    by (auto simp: demo_plain_request_def enabledFor_def demo_converting_def)
qed

end
