(* ===== verification/HeaderEngines.thy ===== *)
theory HeaderEngines
  imports ModelRepo
begin

text \<open>
  \<open>addheader.go\<close> and \<open>add_header_by_expr.go\<close>: engines that set headers of the request for the backend behind
  them. The header map belongs to the request, and the load balancer gives the same request to every
  backend it tries: the theorem says what the later ones receive.
\<close>

section \<open>The engines\<close>

text \<open>\<open>http.Header\<close> puts names into their canonical form, unless they hold a byte that no name may hold.\<close>

definition token_char :: "char \<Rightarrow> bool" where
  "token_char c \<longleftrightarrow> (let n = (of_char c :: nat) in
     48 \<le> n \<and> n \<le> 57 \<or> 65 \<le> n \<and> n \<le> 90 \<or> 97 \<le> n \<and> n \<le> 122 \<or> c \<in> set ''!#$%&*+-.^_|~'' \<or> n = 39 \<or> n = 96)"

definition to_upper :: "char \<Rightarrow> char" where
  "to_upper c = (if (97 :: nat) \<le> of_char c \<and> of_char c \<le> (122 :: nat) then char_of (of_char c - 32 :: nat) else c)"

fun canonical_from :: "bool \<Rightarrow> string \<Rightarrow> string" where
  "canonical_from up [] = []"
| "canonical_from up (c # cs) = (if up then to_upper c else to_lower c) # canonical_from (c = CHR ''-'') cs"

definition CanonicalHeaderKey :: "string \<Rightarrow> string" where
  "CanonicalHeaderKey k = (if list_all token_char k then canonical_from True k else k)"

definition header_Set :: "string \<Rightarrow> string \<Rightarrow> http_header \<Rightarrow> http_header" where
  "header_Set k v h = set_header (CanonicalHeaderKey k) v h"

definition header_Get :: "string \<Rightarrow> http_header \<Rightarrow> string" where
  "header_Get k h = header_get (CanonicalHeaderKey k) h"

record add_header_engine =
  ah_PassThroughHeaders :: "string list"
  ah_SetHeaders :: headers

text \<open>The headers of the client's request are in the context, if a handler put them there.\<close>

definition add_header_process :: "add_header_engine \<Rightarrow> http_header option \<Rightarrow> http_header \<Rightarrow> http_header" where
  "add_header_process e received h =
     (let h1 = (case received of
                  None \<Rightarrow> h
                | Some rh \<Rightarrow> fold (\<lambda>k h. let v = header_Get k rh in if v \<noteq> '''' then header_Set k v h else h) (ah_PassThroughHeaders e) h)
      in fold (\<lambda>(k, v) h. header_Set k v h) (ah_SetHeaders e) h1)"

text \<open>A program of the expression library, with the environment of the request, yields a value or fails; \<open>show\<close>
  is the \<open>%v\<close> verb.\<close>

record ('p, 'env, 'v) header_lib =
  hl_Compile :: "string \<Rightarrow> err + 'p"
  hl_Run :: "'p \<Rightarrow> 'env \<Rightarrow> err + 'v"
  hl_Show :: "'v \<Rightarrow> string"

fun compile_headers :: "('p, 'env, 'v) header_lib \<Rightarrow> (string \<times> string) list \<Rightarrow> err + (string \<times> 'p) list" where
  "compile_headers L [] = Inr []"
| "compile_headers L ((k, s) # rest) =
     (case hl_Compile L s of
        Inl er \<Rightarrow> Inl (Wrap ''failed to compile expression for header'' [er])
      | Inr p \<Rightarrow> (case compile_headers L rest of Inl er \<Rightarrow> Inl er | Inr ps \<Rightarrow> Inr ((k, p) # ps)))"

definition NewAddHeaderByExprEngine :: "('p, 'env, 'v) header_lib \<Rightarrow> (string \<times> string) list \<Rightarrow> err + (string \<times> 'p) list" where
  "NewAddHeaderByExprEngine L exprMap = (if exprMap = [] then Inr [] else compile_headers L exprMap)"

definition add_header_by_expr_process :: "('p, 'env, 'v) header_lib \<Rightarrow> 'env \<Rightarrow> (string \<times> 'p) list \<Rightarrow> http_header \<Rightarrow> http_header" where
  "add_header_by_expr_process L env exprs h =
     fold (\<lambda>(k, p) h. case hl_Run L p env of Inl er \<Rightarrow> h | Inr v \<Rightarrow> header_Set k (hl_Show L v) h) exprs h"

section \<open>What they set\<close>

text \<open>The assignments an engine makes, in their order.\<close>

definition assignments :: "add_header_engine \<Rightarrow> http_header option \<Rightarrow> headers" where
  "assignments e received =
     (case received of
        None \<Rightarrow> []
      | Some rh \<Rightarrow> filter (\<lambda>(k, v). v \<noteq> '''') (map (\<lambda>k. (k, header_Get k rh)) (ah_PassThroughHeaders e))) @ ah_SetHeaders e"

definition expr_assignments :: "('p, 'env, 'v) header_lib \<Rightarrow> 'env \<Rightarrow> (string \<times> 'p) list \<Rightarrow> headers" where
  "expr_assignments L env exprs =
     List.map_filter (\<lambda>(k, p). case hl_Run L p env of Inl er \<Rightarrow> None | Inr v \<Rightarrow> Some (k, hl_Show L v)) exprs"

definition assign :: "headers \<Rightarrow> http_header \<Rightarrow> http_header" where
  "assign kvs h = fold (\<lambda>(k, v) h. header_Set k v h) kvs h"

lemma assign_Nil [simp]: "assign [] h = h"
  by (simp add: assign_def)

lemma assign_append: "assign (xs @ ys) h = assign ys (assign xs h)"
  by (simp add: assign_def)

lemma add_header_assigns: "add_header_process e received h = assign (assignments e received) h"
proof (cases received)
  case (Some rh)
  have "fold (\<lambda>k h. let v = header_Get k rh in if v \<noteq> '''' then header_Set k v h else h) ks h =
      assign (filter (\<lambda>(k, v). v \<noteq> '''') (map (\<lambda>k. (k, header_Get k rh)) ks)) h" for ks h
    by (induction ks arbitrary: h) (simp_all add: assign_def Let_def)
  then show ?thesis using Some by (simp add: add_header_process_def assignments_def Let_def assign_append) (simp add: assign_def)
qed (simp add: add_header_process_def assignments_def assign_def)

lemma expr_header_assigns: "add_header_by_expr_process L env exprs h = assign (expr_assignments L env exprs) h"
  by (induction exprs arbitrary: h)
    (auto simp: add_header_by_expr_process_def expr_assignments_def assign_def List.map_filter_def split: sum.split)

text \<open>The value a list of assignments leaves under a name.\<close>

definition assigned :: "headers \<Rightarrow> string \<Rightarrow> string option" where
  "assigned kvs k = map_of (rev (map (\<lambda>(n, v). (CanonicalHeaderKey n, v)) kvs)) k"

lemma map_of_assign: "map_of (assign kvs h) k = (case assigned kvs k of Some v \<Rightarrow> Some [v] | None \<Rightarrow> map_of h k)"
proof (induction kvs arbitrary: h)
  case (Cons kv kvs)
  obtain n v where kv: "kv = (n, v)" by (cases kv)
  have "map_of (assign (kv # kvs) h) k = map_of (assign kvs (header_Set n v h)) k" by (simp add: assign_def kv)
  then show ?case using Cons.IH [of "header_Set n v h"]
    by (simp add: kv assigned_def header_Set_def set_header_def update_conv' map_of_append map_add_def split: option.split)
qed (simp add: assign_def assigned_def)

lemma assigned_append: "assigned (xs @ ys) k = (case assigned ys k of Some v \<Rightarrow> Some v | None \<Rightarrow> assigned xs k)"
  by (simp add: assigned_def map_add_def split: option.split)


section \<open>Header engines behind a load balancer\<close>

text \<open>A backend is a header engine and what follows it. The header map is the request's: the log holds what each
  attempt passed on.\<close>

record 'b header_world =
  hw_header :: http_header
  hw_sent :: "(add_header_engine \<times> 'b \<times> http_header) list"

definition header_backend ::
  "http_header option \<Rightarrow> ('b \<Rightarrow> 'rq \<Rightarrow> http_header \<Rightarrow> 'rs go_result) \<Rightarrow> add_header_engine \<times> 'b
    \<Rightarrow> ((add_header_engine \<times> 'b, 'b header_world) lb_world, 'rq, 'rs) engine" where
  "header_backend received nxt e req w =
     (let h = add_header_process (fst e) received (hw_header (lw_rest w))
      in (nxt (snd e) req h, w\<lparr>lw_rest := \<lparr>hw_header = h, hw_sent = hw_sent (lw_rest w) @ [(fst e, snd e, h)]\<rparr>\<rparr>))"

abbreviation attempt_assigns :: "http_header option \<Rightarrow> add_header_engine \<times> 'b \<times> http_header \<Rightarrow> headers" where
  "attempt_assigns received a \<equiv> assignments (fst a) received"

definition accumulated :: "http_header option \<Rightarrow> http_header \<Rightarrow> 'b header_world \<Rightarrow> bool" where
  "accumulated received h0 hw \<longleftrightarrow>
     hw_header hw = assign (concat (map (attempt_assigns received) (hw_sent hw))) h0 \<and>
     (\<forall>j<length (hw_sent hw). snd (snd (hw_sent hw ! j)) = assign (concat (map (attempt_assigns received) (take (Suc j) (hw_sent hw)))) h0)"

lemma accumulated_step:
  assumes "accumulated received h0 hw" and "h = add_header_process e received (hw_header hw)"
  shows "accumulated received h0 \<lparr>hw_header = h, hw_sent = hw_sent hw @ [(e, b, h)]\<rparr>"
  using assms by (simp add: accumulated_def add_header_assigns assign_append nth_append less_Suc_eq)

lemma assigned_concat_None: "\<forall>xs\<in>set xss. assigned xs k = None \<Longrightarrow> assigned (concat xss) k = None"
  by (induction xss) (simp_all add: assigned_append, simp add: assigned_def)

lemma assigned_concat_last:
  assumes "i < length xss" and "assigned (xss ! i) k = Some v"
    and "\<And>m. i < m \<Longrightarrow> m < length xss \<Longrightarrow> assigned (xss ! m) k = None"
  shows "assigned (concat xss) k = Some v"
proof -
  have "\<forall>xs\<in>set (drop (Suc i) xss). assigned xs k = None"
    using assms(3) by (auto simp: in_set_conv_nth)
  then have "assigned (concat (drop (Suc i) xss)) k = None" by (rule assigned_concat_None)
  moreover have "concat xss = concat (take i xss) @ xss ! i @ concat (drop (Suc i) xss)"
    using id_take_nth_drop [OF assms(1)] by (metis concat.simps(2) concat_append)
  ultimately show ?thesis using assms(2) by (simp add: assigned_append)
qed

lemma balancer_accumulates:
  assumes "accumulated received h0 (lw_rest w)"
  shows "accumulated received h0 (lw_rest (snd (wrr_loop l env (header_backend received nxt) req c w)))"
proof -
  have step: "accumulated received h0 (lw_rest (snd (header_backend received nxt e req x)))"
    if "accumulated received h0 (lw_rest x)" for e x
    using accumulated_step [OF that refl, of "fst e" "snd e"] by (simp add: header_backend_def Let_def)
  show ?thesis
    using wrr_loop_agrees [where P = "\<lambda>w. accumulated received h0 (lw_rest w)" and exec = "header_backend received nxt" and
        exec' = "header_backend received nxt" and w = w and l = l and env = env and req = req and c = c]
    by (simp add: assms step)
qed

section \<open>Property\<close>

text \<open>C35: Header engines behind a failing-over balancer. What an attempt sends on carries, besides the headers of
  the client, every header that an earlier attempt's engine assigned and none since has assigned again: the headers
  meant for one backend, credentials included, reach the backends tried after it.\<close>

theorem failover_leaks_headers:
  assumes "wrr_process l env (header_backend received nxt) None req
      (w\<lparr>lw_rest := \<lparr>hw_header = h0, hw_sent = []\<rparr>\<rparr>) = (r, w')"
    and "i \<le> j" and "j < length (hw_sent (lw_rest w'))"
    and "assigned (assignments (fst (hw_sent (lw_rest w') ! i)) received) k = Some v"
    and "\<And>m. i < m \<Longrightarrow> m \<le> j \<Longrightarrow> assigned (assignments (fst (hw_sent (lw_rest w') ! m)) received) k = None"
  shows "map_of (snd (snd (hw_sent (lw_rest w') ! j))) k = Some [v]"
proof -
  let ?log = "hw_sent (lw_rest w')"
  let ?xss = "map (attempt_assigns received) (take (Suc j) ?log)"
  have "accumulated received h0 (lw_rest w')"
    using balancer_accumulates [of received h0 "w\<lparr>lw_rest := \<lparr>hw_header = h0, hw_sent = []\<rparr>\<rparr>" l env nxt req 0] assms(1)
    by (simp add: accumulated_def assign_def wrr_process_def)
  then have j: "snd (snd (?log ! j)) = assign (concat ?xss) h0" using assms(3) by (simp add: accumulated_def)
  have "assigned (concat ?xss) k = Some v"
    by (rule assigned_concat_last [of i]) (use assms(2-5) in auto)
  then show ?thesis by (simp add: j map_of_assign)
qed

definition demo_backends :: "((add_header_engine \<times> nat), unit) backend_item list" where
  "demo_backends =
     [\<lparr>bi_Name = ''a'', bi_Weight = 2, bi_Engine = (\<lparr>ah_PassThroughHeaders = [], ah_SetHeaders = [(''x-api-key'', ''secret-of-a'')]\<rparr>, 0),
       bi_MaxConcurrencyFn = None, bi_CacheMissMaxUtilization = 0\<rparr>,
      \<lparr>bi_Name = ''b'', bi_Weight = 1, bi_Engine = (\<lparr>ah_PassThroughHeaders = [], ah_SetHeaders = []\<rparr>, 1),
       bi_MaxConcurrencyFn = None, bi_CacheMissMaxUtilization = 0\<rparr>]"

definition demo_upstreams :: "nat \<Rightarrow> unit \<Rightarrow> http_header \<Rightarrow> int go_result" where
  "demo_upstreams b req h = (if b = 0 then (None, Some (UpstreamResp 500 [] ''error'')) else (Some 200, None))"

definition demo_balancer :: "(add_header_engine \<times> nat) wrr" where
  "demo_balancer = \<lparr>lb_backends = map (\<lambda>b. \<lparr>wb_name = bi_Name b, wb_weight = bi_Weight b, wb_engine = bi_Engine b, wb_currentWeight = 0\<rparr>) demo_backends,
     lb_retryTimeout = 30 * second, lb_retryMaxCount = 3\<rparr>"

lemma canonical_api_key: "CanonicalHeaderKey ''x-api-key'' = ''X-Api-Key''"
  by code_simp

text \<open>Backend \<open>a\<close> answers 500; \<open>b\<close>, tried next, is sent the key of \<open>a\<close>.\<close>

theorem failover_leaks_headers_witness:
  "\<exists>h. hw_sent (lw_rest (snd (wrr_process demo_balancer \<lparr>elapsed = (\<lambda>_. 0), cancelled = (\<lambda>_. False)\<rparr>
       (header_backend None demo_upstreams) None ()
       \<lparr>lw_backends = lb_backends demo_balancer, lw_meta = None, lw_rest = \<lparr>hw_header = [], hw_sent = []\<rparr>\<rparr>))) ! 1
     = (\<lparr>ah_PassThroughHeaders = [], ah_SetHeaders = []\<rparr>, 1, h) \<and> map_of h ''X-Api-Key'' = Some [''secret-of-a'']"
proof -
  let ?env = "\<lparr>elapsed = (\<lambda>_. 0), cancelled = (\<lambda>_. False)\<rparr>"
  let ?w = "\<lparr>lw_backends = lb_backends demo_balancer, lw_meta = None, lw_rest = \<lparr>hw_header = [], hw_sent = []\<rparr>\<rparr>"
  define p where "p = wrr_process demo_balancer ?env (header_backend None demo_upstreams) None () ?w"
  have p: "map (\<lambda>a. (fst a, fst (snd a))) (hw_sent (lw_rest (snd p))) =
      [(\<lparr>ah_PassThroughHeaders = [], ah_SetHeaders = [(''x-api-key'', ''secret-of-a'')]\<rparr>, 0), (\<lparr>ah_PassThroughHeaders = [], ah_SetHeaders = []\<rparr>, 1)]"
    by (simp add: p_def wrr_process_def wrr_loop.simps GetNextEngine_def demo_balancer_def demo_backends_def
        header_backend_def demo_upstreams_def isNotRetriableError_def upstream_status_def Let_def)
  have len: "length (hw_sent (lw_rest (snd p))) = 2" using arg_cong [OF p, of length] by simp
  have e: "(fst (hw_sent (lw_rest (snd p)) ! i), fst (snd (hw_sent (lw_rest (snd p)) ! i))) = map (\<lambda>a. (fst a, fst (snd a))) (hw_sent (lw_rest (snd p))) ! i"
    if "i < 2" for i using that len by simp
  have "map_of (snd (snd (hw_sent (lw_rest (snd p)) ! 1))) ''X-Api-Key'' = Some [''secret-of-a'']"
    by (rule failover_leaks_headers [where w = ?w and w' = "snd p" and i = 0 and r = "fst p" and l = demo_balancer and env = ?env
        and nxt = demo_upstreams and req = "()" and received = None and ?h0.0 = "[]"])
      (use e [of 0] e [of 1] len in \<open>auto simp: p p_def [symmetric] assignments_def assigned_def canonical_api_key le_Suc_eq\<close>)
  moreover have "hw_sent (lw_rest (snd p)) ! 1 = (\<lparr>ah_PassThroughHeaders = [], ah_SetHeaders = []\<rparr>, 1, snd (snd (hw_sent (lw_rest (snd p)) ! 1)))"
    using e [of 1] by (simp add: p prod_eq_iff)
  ultimately show ?thesis by (auto simp: p_def)
qed

end
