(* ===== verification/TrafficReplication.thy ===== *)
theory TrafficReplication
  imports HttpHandler
begin

text \<open>
  \<open>pkg/engines/traffic-replication/traffic_replication.go\<close>: an engine that sends copies of a request to other
  engines in the background. The URL, the query, the header, the body and the metadata of a request are behind
  references, so they live in a store; the copies in flight are a pool that a step relation moves, in any order.
\<close>

section \<open>Requests and their objects\<close>

datatype 'v object = UrlObj string | ValuesObj http_header | BodyObj "'v body" | MetaObj "string \<rightharpoonup> meta_val"

text \<open>The store, with the next free address.\<close>

record 'v store =
  so_at :: "nat \<rightharpoonup> 'v object"
  so_next :: nat

definition new_object :: "'v object \<Rightarrow> 'v store \<Rightarrow> nat \<times> 'v store" where
  "new_object ob h = (so_next h, h\<lparr>so_at := (so_at h)(so_next h \<mapsto> ob), so_next := Suc (so_next h)\<rparr>)"

definition put_object :: "nat \<Rightarrow> 'v object \<Rightarrow> 'v store \<Rightarrow> 'v store" where
  "put_object a ob h = h\<lparr>so_at := (so_at h)(a \<mapsto> ob)\<rparr>"

text \<open>\<open>None\<close> is the nil reference, map or body. The deadline is that of the context, if it has one of its own and
  not the cancellation of the client's request.\<close>

record live_request =
  lr_Method :: string
  lr_Format :: string
  lr_URL :: "nat option"
  lr_Query :: "nat option"
  lr_Header :: "nat option"
  lr_Body :: "nat option"
  lr_metadata :: "nat option"
  lr_ctx :: ctx
  lr_deadline :: "int option"

definition reach :: "live_request \<Rightarrow> nat set" where
  "reach q = set_option (lr_URL q) \<union> set_option (lr_Query q) \<union> set_option (lr_Header q) \<union> set_option (lr_Body q) \<union>
     set_option (lr_metadata q)"

abbreviation IsTrafficReplication :: string where
  "IsTrafficReplication \<equiv> ''is_traffic_replication''"

definition IsDuplicateRequest :: ctx_key where
  "IsDuplicateRequest = CoreKey ''is_duplicate_request''"

definition DefaultReplicationExpiration :: int where
  "DefaultReplicationExpiration = 600 * second"

definition stored_metadata :: "'v store \<Rightarrow> live_request \<Rightarrow> string \<rightharpoonup> meta_val" where
  "stored_metadata h q = (case lr_metadata q of None \<Rightarrow> Map.empty
     | Some a \<Rightarrow> (case so_at h a of Some (MetaObj m) \<Rightarrow> m | _ \<Rightarrow> Map.empty))"

definition replicated :: "'v store \<Rightarrow> live_request \<Rightarrow> bool" where
  "replicated h q \<longleftrightarrow> stored_metadata h q IsTrafficReplication \<noteq> None"

text \<open>\<open>SetMetadataValue\<close> makes the map when there is none.\<close>

definition mark_replicated :: "live_request \<Rightarrow> 'v store \<Rightarrow> live_request \<times> 'v store" where
  "mark_replicated q h =
     (case lr_metadata q of
        None \<Rightarrow> (let (a, h1) = new_object (MetaObj [IsTrafficReplication \<mapsto> MetaBool True]) h in (q\<lparr>lr_metadata := Some a\<rparr>, h1))
      | Some a \<Rightarrow> (q, put_object a (MetaObj ((stored_metadata h q)(IsTrafficReplication \<mapsto> MetaBool True))) h))"

section \<open>Copies\<close>

definition copy_object :: "('v object \<Rightarrow> 'v object option) \<Rightarrow> nat option \<Rightarrow> 'v store \<Rightarrow> nat option \<times> 'v store" where
  "copy_object f p h =
     (case Option.bind p (so_at h) of
        None \<Rightarrow> (None, h)
      | Some ob \<Rightarrow> (case f ob of None \<Rightarrow> (None, h) | Some ob' \<Rightarrow> (let (a, h1) = new_object ob' h in (Some a, h1))))"

text \<open>Printing and parsing a URL is a parameter; reading the body may panic, and caches what it read.\<close>

definition copy_body :: "live_request \<Rightarrow> 'v store \<Rightarrow> nat option outcome \<times> 'v store" where
  "copy_body q h =
     (case lr_Body q of
        None \<Rightarrow> (Returned None, h)
      | Some a \<Rightarrow>
          (case so_at h a of
             Some (BodyObj b) \<Rightarrow>
               (case Bytes b of
                  (Panicked, b1) \<Rightarrow> (Panicked, put_object a (BodyObj b1) h)
                | (Returned (Inl er), b1) \<Rightarrow> (Returned None, put_object a (BodyObj b1) h)
                | (Returned (Inr s), b1) \<Rightarrow>
                    (let (c, h1) = new_object (BodyObj (NewBodyFromBytes (Some s) (b_parser b1))) (put_object a (BodyObj b1) h)
                     in (Returned (Some c), h1)))
           | _ \<Rightarrow> (Panicked, h)))"

definition copy_url :: "(string \<Rightarrow> string option) \<Rightarrow> 'v object \<Rightarrow> 'v object option" where
  "copy_url reparse ob = (case ob of UrlObj u \<Rightarrow> map_option UrlObj (reparse u) | _ \<Rightarrow> None)"

definition CloneForReplication ::
  "(string \<Rightarrow> string option) \<Rightarrow> int \<Rightarrow> int \<Rightarrow> live_request \<Rightarrow> 'v store \<Rightarrow> live_request outcome \<times> 'v store" where
  "CloneForReplication reparse now expiration q h =
     (let e = (if expiration \<le> 0 then DefaultReplicationExpiration else expiration);
          (m, h1) = new_object (MetaObj [IsTrafficReplication \<mapsto> MetaBool True]) h;
          (u, h2) = copy_object (copy_url reparse) (lr_URL q) h1;
          (v, h3) = copy_object Some (lr_Query q) h2;
          (d, h4) = copy_object Some (lr_Header q) h3
      in case copy_body q h4 of
           (Panicked, h5) \<Rightarrow> (Panicked, h5)
         | (Returned b, h5) \<Rightarrow>
             (Returned \<lparr>lr_Method = lr_Method q, lr_Format = lr_Format q, lr_URL = u, lr_Query = v, lr_Header = d, lr_Body = b,
                lr_metadata = Some m, lr_ctx = with_value (lr_ctx q) IsDuplicateRequest (CtxBool True),
                lr_deadline = Some (now + e)\<rparr>, h5))"

section \<open>The engine\<close>

record replication_target =
  rt_TrafficReplicationEngine :: nat
  rt_Ratio :: rat
  rt_ExpirationTime :: int

text \<open>The copies that are started, each with its engine, and whether the loop ended without a panic;
  \<open>draw n\<close> is the random number for the \<open>n\<close>-th target.\<close>

fun fan_out ::
  "(string \<Rightarrow> string option) \<Rightarrow> (nat \<Rightarrow> rat) \<Rightarrow> int \<Rightarrow> live_request \<Rightarrow> replication_target list \<Rightarrow> nat \<Rightarrow> 'v store
    \<Rightarrow> ((nat \<times> live_request) list \<times> bool) \<times> 'v store" where
  "fan_out reparse draw now q [] n h = (([], True), h)"
| "fan_out reparse draw now q (t # ts) n h =
     (if rt_Ratio t < draw n then fan_out reparse draw now q ts (Suc n) h
      else case CloneForReplication reparse now (rt_ExpirationTime t) q h of
             (Panicked, h1) \<Rightarrow> (([], False), h1)
           | (Returned c, h1) \<Rightarrow>
               (let ((cs, ok), h2) = fan_out reparse draw now q ts (Suc n) h1
                in (((rt_TrafficReplicationEngine t, c) # cs, ok), h2)))"

text \<open>The request that goes on to the next engine; \<open>None\<close> after a panic.\<close>

definition replication_process ::
  "(string \<Rightarrow> string option) \<Rightarrow> (nat \<Rightarrow> rat) \<Rightarrow> int \<Rightarrow> replication_target list \<Rightarrow> live_request \<Rightarrow> 'v store
    \<Rightarrow> ((nat \<times> live_request) list \<times> live_request option) \<times> 'v store" where
  "replication_process reparse draw now ts q h =
     (let ((cs, ok), h1) = (if \<not> replicated h q then fan_out reparse draw now q ts 0 h else (([], True), h))
      in if ok then (let (q1, h2) = mark_replicated q h1 in ((cs, Some q1), h2)) else ((cs, None), h1))"

text \<open>The goroutine of a copy, once the engine has answered: what it closes. \<open>SafeGo\<close> keeps a panic in it.\<close>

definition release_copy :: "'v http_response go_result outcome \<Rightarrow> close_action list" where
  "release_copy r =
     (case r of
        Returned (Some resp, None) \<Rightarrow>
          (case hr_Stream resp of
             Some s \<Rightarrow> concat (map (\<lambda>c. fst (CloseBody (ch_Body c))) (st_chunks s)) @ st_close s
           | None \<Rightarrow> (case hr_Body resp of Some b \<Rightarrow> fst (CloseBody b) | None \<Rightarrow> []))
      | _ \<Rightarrow> [])"

section \<open>Copies share nothing\<close>

text \<open>What an operation on a request does to the store: it may change the objects of the request and add new ones.\<close>

definition store_grows :: "nat set \<Rightarrow> 'v store \<Rightarrow> 'v store \<Rightarrow> bool" where
  "store_grows own h h' \<longleftrightarrow> so_next h \<le> so_next h' \<and> (\<forall>a<so_next h. a \<notin> own \<longrightarrow> so_at h' a = so_at h a)"

lemma store_grows_refl [simp]: "store_grows own h h"
  by (simp add: store_grows_def)

lemma store_grows_trans: "store_grows own h h1 \<Longrightarrow> store_grows own h1 h2 \<Longrightarrow> store_grows own h h2"
  by (auto simp: store_grows_def)

lemma new_object_simps [simp]:
  "fst (new_object ob h) = so_next h" "so_next (snd (new_object ob h)) = Suc (so_next h)"
  "so_at (snd (new_object ob h)) c = (if c = so_next h then Some ob else so_at h c)"
  by (simp_all add: new_object_def)

lemma put_object_simps [simp]:
  "so_next (put_object a ob h) = so_next h" "so_at (put_object a ob h) c = (if c = a then Some ob else so_at h c)"
  by (simp_all add: put_object_def)

lemma copy_object_alt:
  "copy_object f p h =
     (case Option.bind (Option.bind p (so_at h)) f of None \<Rightarrow> (None, h) | Some ob \<Rightarrow> (Some (so_next h), snd (new_object ob h)))"
  by (cases p) (simp_all add: copy_object_def new_object_def split: option.split)

lemma copy_object_new:
  assumes "copy_object f p h = (r, h')"
  shows "store_grows {} h h'" "set_option r \<subseteq> {so_next h..<so_next h'}"
    "Option.bind r (so_at h') = Option.bind (Option.bind p (so_at h)) f"
  using assms by (auto simp: copy_object_alt store_grows_def split: option.splits)

lemma copy_body_alt:
  assumes "lr_Body q = Some a" and "so_at h a = Some (BodyObj b)" and "Bytes b = (r, b1)"
  shows "copy_body q h =
     (case r of
        Panicked \<Rightarrow> (Panicked, put_object a (BodyObj b1) h)
      | Returned (Inl er) \<Rightarrow> (Returned None, put_object a (BodyObj b1) h)
      | Returned (Inr s) \<Rightarrow>
          (Returned (Some (so_next h)), snd (new_object (BodyObj (NewBodyFromBytes (Some s) (b_parser b1))) (put_object a (BodyObj b1) h))))"
  using assms by (simp add: copy_body_def new_object_def put_object_def split: outcome.split sum.split)

lemma copy_body_nil: "lr_Body q = None \<Longrightarrow> copy_body q h = (Returned None, h)"
  by (simp add: copy_body_def)

lemma copy_body_other: "lr_Body q = Some a \<Longrightarrow> \<nexists>b. so_at h a = Some (BodyObj b) \<Longrightarrow> copy_body q h = (Panicked, h)"
  by (auto simp: copy_body_def split: option.split object.split)

lemma copy_body_new:
  assumes "copy_body q h = (r, h')"
  shows "store_grows (set_option (lr_Body q)) h h' \<and> (\<forall>b. r = Returned b \<longrightarrow> set_option b \<subseteq> {so_next h..<so_next h'})"
proof (cases "lr_Body q")
  case None
  with assms show ?thesis by (auto simp: copy_body_nil)
next
  case a: (Some a)
  show ?thesis
  proof (cases "\<exists>b. so_at h a = Some (BodyObj b)")
    case False
    with assms a show ?thesis by (auto simp: copy_body_other)
  next
    case True
    then obtain b r' b1 where "so_at h a = Some (BodyObj b)" "Bytes b = (r', b1)" by (metis surj_pair)
    from copy_body_alt [OF a this] assms a show ?thesis
      by (auto simp: store_grows_def split: outcome.splits sum.splits)
  qed
qed


definition owned :: "'v store \<Rightarrow> live_request \<Rightarrow> bool" where
  "owned h q \<longleftrightarrow> reach q \<subseteq> {..<so_next h}"

text \<open>A copy, and the objects it is made of.\<close>

lemma clone_cases:
  assumes "CloneForReplication reparse now expiration q h = (r, h')"
  obtains h1 u h2 v h3 d h4 b where
    "h1 = snd (new_object (MetaObj [IsTrafficReplication \<mapsto> MetaBool True]) h)"
    "copy_object (copy_url reparse) (lr_URL q) h1 = (u, h2)" "copy_object Some (lr_Query q) h2 = (v, h3)"
    "copy_object Some (lr_Header q) h3 = (d, h4)" "copy_body q h4 = (b, h')"
    "r = (case b of Panicked \<Rightarrow> Panicked | Returned b' \<Rightarrow> Returned
       \<lparr>lr_Method = lr_Method q, lr_Format = lr_Format q, lr_URL = u, lr_Query = v, lr_Header = d, lr_Body = b',
        lr_metadata = Some (so_next h), lr_ctx = with_value (lr_ctx q) IsDuplicateRequest (CtxBool True),
        lr_deadline = Some (now + (if expiration \<le> 0 then DefaultReplicationExpiration else expiration))\<rparr>)"
proof -
  obtain m h1 where n: "new_object (MetaObj [IsTrafficReplication \<mapsto> MetaBool True]) h = (m, h1)" by fastforce
  have m: "m = so_next h" "h1 = snd (new_object (MetaObj [IsTrafficReplication \<mapsto> MetaBool True]) h)"
    using n new_object_simps(1) [of "MetaObj [IsTrafficReplication \<mapsto> MetaBool True]" h] by simp_all
  obtain u h2 where u: "copy_object (copy_url reparse) (lr_URL q) h1 = (u, h2)" by fastforce
  obtain v h3 where v: "copy_object Some (lr_Query q) h2 = (v, h3)" by fastforce
  obtain d h4 where d: "copy_object Some (lr_Header q) h3 = (d, h4)" by fastforce
  obtain b h5 where b: "copy_body q h4 = (b, h5)" by fastforce
  have x: "CloneForReplication reparse now expiration q h =
     (case b of Panicked \<Rightarrow> Panicked | Returned b' \<Rightarrow> Returned
       \<lparr>lr_Method = lr_Method q, lr_Format = lr_Format q, lr_URL = u, lr_Query = v, lr_Header = d, lr_Body = b',
        lr_metadata = Some (so_next h), lr_ctx = with_value (lr_ctx q) IsDuplicateRequest (CtxBool True),
        lr_deadline = Some (now + (if expiration \<le> 0 then DefaultReplicationExpiration else expiration))\<rparr>, h5)"
    unfolding CloneForReplication_def Let_def n prod.case u v d b m(1) by (simp split: outcome.split)
  show ?thesis
    by (rule that [OF m(2) u v d, of b]) (use assms b x in simp_all)
qed

lemma clone_new:
  assumes "CloneForReplication reparse now expiration q h = (r, h')" and "owned h q"
  shows "store_grows (set_option (lr_Body q)) h h'"
    and "r = Returned c \<Longrightarrow> reach c \<subseteq> {so_next h..<so_next h'} \<and> stored_metadata h' c = [IsTrafficReplication \<mapsto> MetaBool True]"
proof -
  from assms(1) obtain h1 u h2 v h3 d h4 b where
    h1: "h1 = snd (new_object (MetaObj [IsTrafficReplication \<mapsto> MetaBool True]) h)"
    and c: "copy_object (copy_url reparse) (lr_URL q) h1 = (u, h2)" "copy_object Some (lr_Query q) h2 = (v, h3)"
      "copy_object Some (lr_Header q) h3 = (d, h4)" "copy_body q h4 = (b, h')"
    and r: "r = (case b of Panicked \<Rightarrow> Panicked | Returned b' \<Rightarrow> Returned
       \<lparr>lr_Method = lr_Method q, lr_Format = lr_Format q, lr_URL = u, lr_Query = v, lr_Header = d, lr_Body = b',
        lr_metadata = Some (so_next h), lr_ctx = with_value (lr_ctx q) IsDuplicateRequest (CtxBool True),
        lr_deadline = Some (now + (if expiration \<le> 0 then DefaultReplicationExpiration else expiration))\<rparr>)"
    by (rule clone_cases)
  note o = copy_object_new(1,2) [OF c(1)] copy_object_new(1,2) [OF c(2)] copy_object_new(1,2) [OF c(3)] copy_body_new [OF c(4)]
  have h1': "so_next h1 = Suc (so_next h)" "so_at h1 (so_next h) = Some (MetaObj [IsTrafficReplication \<mapsto> MetaBool True])"
    "store_grows (set_option (lr_Body q)) h h1"
    by (simp_all add: h1 store_grows_def)
  have e: "store_grows (set_option (lr_Body q)) h1 h4"
    using o(1,3,5) by (auto simp: store_grows_def)
  have e': "store_grows (set_option (lr_Body q)) h1 h'"
    using store_grows_trans [OF e] o(7) by simp
  from h1'(3) e' show "store_grows (set_option (lr_Body q)) h h'" by (rule store_grows_trans)
  have "so_next h \<notin> set_option (lr_Body q)" using assms(2) by (auto simp: owned_def reach_def)
  then have m: "so_at h' (so_next h) = Some (MetaObj [IsTrafficReplication \<mapsto> MetaBool True])"
    using e' h1'(1,2) by (simp add: store_grows_def)
  assume "r = Returned c"
  then obtain b' where b': "b = Returned b'" "set_option (lr_URL c) = set_option u" "set_option (lr_Query c) = set_option v"
    "set_option (lr_Header c) = set_option d" "set_option (lr_Body c) = set_option b'" "lr_metadata c = Some (so_next h)"
    using r by (auto split: outcome.splits)
  have le: "so_next h1 \<le> so_next h2" "so_next h2 \<le> so_next h3" "so_next h3 \<le> so_next h4" "so_next h4 \<le> so_next h'"
    using o(1,3,5,7) by (simp_all add: store_grows_def)
  have "reach c \<subseteq> {so_next h..<so_next h'}"
    using o(2,4,6,7) b' le h1'(1) unfolding reach_def by fastforce
  moreover have "stored_metadata h' c = [IsTrafficReplication \<mapsto> MetaBool True]"
    by (simp add: stored_metadata_def b'(6) m)
  ultimately show "reach c \<subseteq> {so_next h..<so_next h'} \<and> stored_metadata h' c = [IsTrafficReplication \<mapsto> MetaBool True]" ..
qed


abbreviation apart :: "live_request list \<Rightarrow> bool" where
  "apart qs \<equiv> sorted_wrt (\<lambda>p q. reach p \<inter> reach q = {}) qs"

lemma stored_metadata_frame:
  assumes "store_grows own h h'" "owned h q" "reach q \<inter> own = {}"
  shows "stored_metadata h' q = stored_metadata h q"
proof (cases "lr_metadata q")
  case (Some a)
  then have "a \<in> reach q" by (simp add: reach_def)
  then have "so_at h' a = so_at h a" using assms by (auto simp: store_grows_def owned_def)
  with Some show ?thesis by (simp add: stored_metadata_def)
qed (simp add: stored_metadata_def)

lemma owned_grows: "owned h q \<Longrightarrow> store_grows own h h' \<Longrightarrow> owned h' q"
  by (auto simp: owned_def store_grows_def)

lemma fresh_owned: "reach c \<subseteq> {n..<so_next h} \<Longrightarrow> owned h c"
  by (auto simp: owned_def)

lemma ranges_apart: "A \<subseteq> {..<b} \<or> A \<subseteq> {a..<b} \<Longrightarrow> B \<subseteq> {b..<c} \<Longrightarrow> A \<inter> B = {}" for a :: nat
  by fastforce

lemma fan_out_new:
  assumes "fan_out reparse draw now q ts n h = ((cs, ok), h')" and "owned h q"
  shows "store_grows (set_option (lr_Body q)) h h' \<and> length cs \<le> length ts \<and> apart (map snd cs) \<and>
    (\<forall>c\<in>snd ` set cs. reach c \<subseteq> {so_next h..<so_next h'} \<and> stored_metadata h' c = [IsTrafficReplication \<mapsto> MetaBool True])"
  using assms
proof (induction ts arbitrary: n h cs ok h')
  case Nil
  then show ?case by simp
next
  case (Cons t ts)
  show ?case
  proof (cases "rt_Ratio t < draw n")
    case True
    then show ?thesis using Cons.IH [OF _ Cons.prems(2)] Cons.prems(1) by fastforce
  next
    case sampled: False
    obtain r h1 where c1: "CloneForReplication reparse now (rt_ExpirationTime t) q h = (r, h1)" by fastforce
    note new = clone_new [OF c1 Cons.prems(2)]
    show ?thesis
    proof (cases r)
      case Panicked
      then show ?thesis using Cons.prems(1) c1 sampled new(1) by simp
    next
      case (Returned c)
      obtain cs' ok' h2 where rec: "fan_out reparse draw now q ts (Suc n) h1 = ((cs', ok'), h2)" by (metis surj_pair)
      have res: "cs = (rt_TrafficReplicationEngine t, c) # cs'" "h' = h2"
        using Cons.prems(1) c1 sampled Returned rec by simp_all
      note o1 = owned_grows [OF Cons.prems(2) new(1)]
      note ih = Cons.IH [OF rec o1]
      note c = new(2) [OF Returned]
      have "reach c \<inter> set_option (lr_Body q) = {}"
        using c Cons.prems(2) by (auto simp: owned_def reach_def)
      then have m: "stored_metadata h2 c = [IsTrafficReplication \<mapsto> MetaBool True]"
        using stored_metadata_frame [OF ih [THEN conjunct1] fresh_owned] c by auto
      have le: "so_next h \<le> so_next h1" "so_next h1 \<le> so_next h2"
        using new(1) ih by (simp_all add: store_grows_def)
      have dis: "reach c \<inter> reach c' = {}" if "c' \<in> snd ` set cs'" for c'
      proof -
        have "reach c' \<subseteq> {so_next h1..<so_next h2}" using ih that by blast
        with c show ?thesis using ranges_apart [of "reach c" "so_next h1" "so_next h"] by simp
      qed
      have sub: "reach c' \<subseteq> {so_next h..<so_next h2} \<and> stored_metadata h2 c' = [IsTrafficReplication \<mapsto> MetaBool True]"
        if "c' \<in> snd ` set cs'" for c'
      proof -
        have "reach c' \<subseteq> {so_next h1..<so_next h2} \<and> stored_metadata h2 c' = [IsTrafficReplication \<mapsto> MetaBool True]"
          using ih that by blast
        then show ?thesis using le by auto
      qed
      have "reach c \<subseteq> {so_next h..<so_next h2}" using c le by auto
      then show ?thesis
        using store_grows_trans [OF new(1)] ih m dis sub by (auto simp: res)
    qed
  qed
qed

lemma mark_replicated_new:
  assumes "mark_replicated q h = (q', h')"
  shows "store_grows (set_option (lr_metadata q)) h h'" "replicated h' q'"
    "reach q' \<subseteq> reach q \<union> {so_next h..<so_next h'}"
  using assms
  by (auto simp: mark_replicated_def new_object_def put_object_def store_grows_def replicated_def stored_metadata_def reach_def
      split: option.splits)


text \<open>One pass through the engine: no copies of a request that is one or has been copied, and copies that share
  nothing with it or with each other.\<close>

lemma replication_process_new:
  assumes "replication_process reparse draw now ts q h = ((cs, r), h')" and "owned h q"
  shows "store_grows (reach q) h h'" "length cs \<le> length ts" "apart (map snd cs)" "replicated h q \<longrightarrow> cs = []"
    "\<forall>c\<in>snd ` set cs. reach c \<subseteq> {so_next h..<so_next h'} \<and> replicated h' c"
    "r = Some q' \<Longrightarrow> replicated h' q' \<and> reach q' \<subseteq> reach q \<union> {so_next h..<so_next h'} \<and> (\<forall>c\<in>snd ` set cs. reach q' \<inter> reach c = {})"
proof -
  obtain ok h1 where f: "(if \<not> replicated h q then fan_out reparse draw now q ts 0 h else (([], True), h)) = ((cs, ok), h1)"
    and res: "(if ok then (let (q1, h2) = mark_replicated q h1 in (Some q1, h2)) else (None, h1)) = (r, h')"
    using assms(1) by (auto simp: replication_process_def Let_def split: prod.splits if_splits)
  have new: "store_grows (set_option (lr_Body q)) h h1 \<and> length cs \<le> length ts \<and> apart (map snd cs) \<and>
    (\<forall>c\<in>snd ` set cs. reach c \<subseteq> {so_next h..<so_next h1} \<and> stored_metadata h1 c = [IsTrafficReplication \<mapsto> MetaBool True])"
    using fan_out_new [of reparse draw now q ts 0 h cs ok h1] f assms(2) by (simp split: if_splits)
  show "length cs \<le> length ts" "apart (map snd cs)" using new by simp_all
  show "replicated h q \<longrightarrow> cs = []" using f by auto
  have g1: "store_grows (reach q) h h1" using new by (auto simp: store_grows_def reach_def)
  note o1 = owned_grows [OF assms(2) g1]
  have g2: "store_grows (set_option (lr_metadata q)) h1 h'"
    and m: "r = Some q' \<Longrightarrow> replicated h' q' \<and> reach q' \<subseteq> reach q \<union> {so_next h1..<so_next h'}" for q'
    using mark_replicated_new [of q h1] res by (auto split: if_splits prod.splits)
  have g3: "store_grows (reach q) h1 h'" using g2 by (auto simp: store_grows_def reach_def)
  show "store_grows (reach q) h h'" by (rule store_grows_trans [OF g1 g3])
  have le: "so_next h \<le> so_next h1" "so_next h1 \<le> so_next h'" using g1 g3 by (simp_all add: store_grows_def)
  have dis: "reach q \<inter> reach c = {}" if "c \<in> snd ` set cs" for c
  proof (rule ranges_apart [of _ "so_next h" 0])
    show "reach c \<subseteq> {so_next h..<so_next h1}" using new that by blast
  qed (use assms(2) in \<open>simp add: owned_def\<close>)
  show "\<forall>c\<in>snd ` set cs. reach c \<subseteq> {so_next h..<so_next h'} \<and> replicated h' c"
  proof
    fix c
    assume c: "c \<in> snd ` set cs"
    then have "reach c \<subseteq> {so_next h..<so_next h1}" "stored_metadata h1 c = [IsTrafficReplication \<mapsto> MetaBool True]" using new by auto
    then show "reach c \<subseteq> {so_next h..<so_next h'} \<and> replicated h' c"
      using le stored_metadata_frame [OF g3 fresh_owned, of c "so_next h"] dis [OF c] by (auto simp: replicated_def Int_commute)
  qed
  show "r = Some q' \<Longrightarrow> replicated h' q' \<and> reach q' \<subseteq> reach q \<union> {so_next h..<so_next h'} \<and> (\<forall>c\<in>snd ` set cs. reach q' \<inter> reach c = {})"
  proof (intro conjI ballI)
    assume r: "r = Some q'"
    show "replicated h' q'" using m [OF r] by simp
    show "reach q' \<subseteq> reach q \<union> {so_next h..<so_next h'}" using m [OF r] le by auto
    fix c
    assume c: "c \<in> snd ` set cs"
    have "reach c \<inter> {so_next h1..<so_next h'} = {}"
      using new c ranges_apart [of "reach c" "so_next h1" "so_next h"] by auto
    with m [OF r] dis [OF c] show "reach q' \<inter> reach c = {}" by auto
  qed
qed

section \<open>Requests in flight\<close>

text \<open>An engine replicates or does something else; then the request is at another engine, or answered. The other
  engines work on the objects of their own request, and take no mark away.\<close>

datatype engine_node = Replication "replication_target list" nat | OtherEngine

record flight =
  fl_at :: "nat option"
  fl_request :: live_request

record 'v traffic =
  tr_store :: "'v store"
  tr_flights :: "flight list"

definition works_on_own :: "live_request \<Rightarrow> 'v store \<Rightarrow> live_request \<Rightarrow> 'v store \<Rightarrow> bool" where
  "works_on_own q h q' h' \<longleftrightarrow> store_grows (reach q) h h' \<and> reach q' \<subseteq> reach q \<union> {so_next h..<so_next h'} \<and>
     (replicated h q \<longrightarrow> replicated h' q')"

definition copy_flight :: "nat \<times> live_request \<Rightarrow> flight" where
  "copy_flight c = \<lparr>fl_at = Some (fst c), fl_request = snd c\<rparr>"

text \<open>A step of the \<open>i\<close>-th request.\<close>

inductive traffic_step :: "(string \<Rightarrow> string option) \<Rightarrow> (nat \<Rightarrow> engine_node) \<Rightarrow> nat \<Rightarrow> 'v traffic \<Rightarrow> 'v traffic \<Rightarrow> bool"
  for reparse G i s
where
  replicate_step: "i < length (tr_flights s) \<Longrightarrow> fl_at (tr_flights s ! i) = Some e \<Longrightarrow> G e = Replication ts nxt \<Longrightarrow>
     replication_process reparse draw now ts (fl_request (tr_flights s ! i)) (tr_store s) = ((cs, r), h) \<Longrightarrow>
     traffic_step reparse G i s \<lparr>tr_store = h, tr_flights =
       (tr_flights s)[i := (case r of Some q \<Rightarrow> \<lparr>fl_at = Some nxt, fl_request = q\<rparr>
                                    | None \<Rightarrow> \<lparr>fl_at = None, fl_request = fl_request (tr_flights s ! i)\<rparr>)] @ map copy_flight cs\<rparr>"
| other_step: "i < length (tr_flights s) \<Longrightarrow> fl_at (tr_flights s ! i) = Some e \<Longrightarrow> G e = OtherEngine \<Longrightarrow>
     works_on_own (fl_request (tr_flights s ! i)) (tr_store s) q h \<Longrightarrow>
     traffic_step reparse G i s \<lparr>tr_store = h, tr_flights = (tr_flights s)[i := \<lparr>fl_at = target, fl_request = q\<rparr>]\<rparr>"

inductive traffic_run :: "(string \<Rightarrow> string option) \<Rightarrow> (nat \<Rightarrow> engine_node) \<Rightarrow> 'v traffic \<Rightarrow> 'v traffic \<Rightarrow> bool"
  for reparse G s
where
  no_step: "traffic_run reparse G s s"
| next_step: "traffic_run reparse G s s1 \<Longrightarrow> traffic_step reparse G i s1 s2 \<Longrightarrow> traffic_run reparse G s s2"

text \<open>The requests share nothing, all but the first are marked, and the first is marked once there are others,
  whose number satisfies \<open>P\<close>.\<close>

definition traffic_inv :: "(nat \<Rightarrow> bool) \<Rightarrow> 'v traffic \<Rightarrow> bool" where
  "traffic_inv P s \<longleftrightarrow>
     (let qs = map fl_request (tr_flights s)
      in apart qs \<and> (\<forall>q\<in>set qs. owned (tr_store s) q) \<and> (\<forall>q\<in>set (tl qs). replicated (tr_store s) q) \<and>
         (\<exists>fl rest. tr_flights s = fl # rest \<and> P (length rest) \<and>
            (rest = [] \<or> fl_at fl = None \<or> replicated (tr_store s) (fl_request fl))))"

text \<open>A step leaves the others' objects alone.\<close>

lemma sorted_wrt_nth_sym:
  assumes "sorted_wrt P xs" "\<And>x y. P x y \<Longrightarrow> P y x" "i < length xs" "j < length xs" "i \<noteq> j"
  shows "P (xs ! i) (xs ! j)"
  using assms by (metis linorder_neqE_nat sorted_wrt_nth_less)

lemma apart_nth: "apart qs \<Longrightarrow> i < length qs \<Longrightarrow> j < length qs \<Longrightarrow> i \<noteq> j \<Longrightarrow> reach (qs ! i) \<inter> reach (qs ! j) = {}"
  by (rule sorted_wrt_nth_sym) auto

lemma apart_update:
  assumes "apart qs" "i < length qs" "\<And>j. j < length qs \<Longrightarrow> j \<noteq> i \<Longrightarrow> reach q \<inter> reach (qs ! j) = {}"
  shows "apart (qs[i := q])"
  using assms unfolding sorted_wrt_iff_nth_less by (auto simp: nth_list_update Int_commute)

text \<open>A pass through an engine: the request, its copies, and what the others still hold.\<close>

lemma apart_pass:
  assumes "apart qs" "i < length qs" "\<forall>q\<in>set qs. owned h q" "store_grows (reach (qs ! i)) h h'"
    and "reach q' \<subseteq> reach (qs ! i) \<union> {so_next h..<so_next h'}" "apart cs"
    and "\<forall>c\<in>set cs. reach c \<subseteq> {so_next h..<so_next h'} \<and> reach q' \<inter> reach c = {}"
  shows "apart (qs[i := q'] @ cs)" "\<forall>q\<in>set (qs[i := q'] @ cs). owned h' q"
    "j < length qs \<Longrightarrow> j \<noteq> i \<Longrightarrow> a \<in> reach (qs ! j) \<Longrightarrow> so_at h' a = so_at h a"
    "j < length qs \<Longrightarrow> j \<noteq> i \<Longrightarrow> replicated h' (qs ! j) = replicated h (qs ! j)"
proof -
  have own: "owned h (qs ! j)" if "j < length qs" for j using assms(3) that by simp
  have other: "reach q' \<inter> reach (qs ! j) = {}" if "j < length qs" "j \<noteq> i" for j
    using apart_nth [OF assms(1,2) that(1)] that assms(5) own [OF that(1)] by (fastforce simp: owned_def)
  have fresh: "reach (qs ! j) \<inter> reach c = {}" if "j < length qs" "c \<in> set cs" for j c
  proof (rule ranges_apart [of _ "so_next h" 0])
    show "reach c \<subseteq> {so_next h..<so_next h'}" using assms(7) that(2) by blast
  qed (use own [OF that(1)] in \<open>simp add: owned_def\<close>)
  have "reach x \<inter> reach c = {}" if "x \<in> set (qs[i := q'])" "c \<in> set cs" for x c
  proof -
    from that(1) obtain j where j: "j < length qs" "x = qs[i := q'] ! j" by (auto simp: in_set_conv_nth)
    show ?thesis
    proof (cases "j = i")
      case True
      with j that(2) assms(7) show ?thesis by simp
    next
      case False
      with j fresh [OF j(1) that(2)] show ?thesis by simp
    qed
  qed
  then show "apart (qs[i := q'] @ cs)"
    using apart_update [OF assms(1,2), of q'] other assms(6) by (simp add: sorted_wrt_append)
  have le: "so_next h \<le> so_next h'" using assms(4) by (simp add: store_grows_def)
  have "owned h' q'" using assms(5) own [OF assms(2)] le by (fastforce simp: owned_def)
  moreover have "owned h' c" if "c \<in> set cs" for c
    using assms(7) that fresh_owned [of c "so_next h" h'] by blast
  moreover have "owned h' q" if "q \<in> set qs" for q using assms(3) that le by (fastforce simp: owned_def)
  ultimately show "\<forall>q\<in>set (qs[i := q'] @ cs). owned h' q" by (auto dest!: set_update_subset_insert [THEN subsetD])
  show "so_at h' a = so_at h a" if "j < length qs" "j \<noteq> i" "a \<in> reach (qs ! j)"
    using apart_nth [OF assms(1) that(1) assms(2) that(2)] that(3) own [OF that(1)] assms(4) by (auto simp: store_grows_def owned_def)
  show "replicated h' (qs ! j) = replicated h (qs ! j)" if "j < length qs" "j \<noteq> i"
    using stored_metadata_frame [OF assms(4) own [OF that(1)]] apart_nth [OF assms(1) that(1) assms(2) that(2)] by (simp add: replicated_def)
qed


lemma traffic_step_inv:
  assumes "traffic_step reparse G i s s'" and "traffic_inv P s"
    and "\<And>e ts nxt n. G e = Replication ts nxt \<Longrightarrow> n \<le> length ts \<Longrightarrow> P n"
  shows "traffic_inv P s'" and "j < length (tr_flights s) \<Longrightarrow> j \<noteq> i \<Longrightarrow> tr_flights s' ! j = tr_flights s ! j \<and>
      (\<forall>a\<in>reach (fl_request (tr_flights s ! j)). so_at (tr_store s') a = so_at (tr_store s) a)"
proof -
  let ?qs = "map fl_request (tr_flights s)"
  let ?q = "fl_request (tr_flights s ! i)"
  obtain fl rest where fl: "tr_flights s = fl # rest" "P (length rest)"
    and first: "rest = [] \<or> fl_at fl = None \<or> replicated (tr_store s) (fl_request fl)"
    using assms(2) by (auto simp: traffic_inv_def Let_def)
  have inv: "apart ?qs" "\<forall>q\<in>set ?qs. owned (tr_store s) q" "\<forall>q\<in>set (map fl_request rest). replicated (tr_store s) q"
    using assms(2) by (simp_all add: traffic_inv_def Let_def fl)
  text \<open>What both kinds of steps have in common.\<close>
  obtain h q' t cs where i: "i < length (tr_flights s)" "fl_at (tr_flights s ! i) \<noteq> None"
    and s': "s' = \<lparr>tr_store = h, tr_flights = (tr_flights s)[i := \<lparr>fl_at = t, fl_request = q'\<rparr>] @ map copy_flight cs\<rparr>"
    and g: "store_grows (reach ?q) (tr_store s) h" "reach q' \<subseteq> reach ?q \<union> {so_next (tr_store s)..<so_next h}"
    and c: "apart (map snd cs)" "\<forall>c\<in>set (map snd cs). reach c \<subseteq> {so_next (tr_store s)..<so_next h} \<and> reach q' \<inter> reach c = {}"
      "\<forall>c\<in>set (map snd cs). replicated h c" "cs \<noteq> [] \<longrightarrow> P (length cs)" "replicated (tr_store s) ?q \<longrightarrow> cs = []"
    and m: "replicated (tr_store s) ?q \<longrightarrow> replicated h q'" "cs \<noteq> [] \<longrightarrow> t = None \<or> replicated h q'"
  proof (cases rule: traffic_step.cases [OF assms(1), case_names pass other])
    case (pass e ts nxt draw now cs r h)
    have o: "owned (tr_store s) ?q" using inv(2) pass(2) by simp
    note new = replication_process_new(1-5) [OF pass(5) o]
    have len: "P (length cs)" using new(2) assms(3) [OF pass(4)] by simp
    have cs: "\<forall>c\<in>set (map snd cs). reach c \<subseteq> {so_next (tr_store s)..<so_next h}" "\<forall>c\<in>set (map snd cs). replicated h c"
      using new(5) by simp_all
    show thesis
    proof (cases r)
      case (Some q1)
      note q1 = replication_process_new(6) [OF pass(5) o Some]
      show thesis
        by (rule that [of h "Some nxt" q1 cs]) (use pass Some new q1 len cs in \<open>simp_all\<close>)
    next
      case None
      have dis: "\<forall>c\<in>set (map snd cs). reach ?q \<inter> reach c = {}"
        using cs(1) o ranges_apart [of "reach ?q" "so_next (tr_store s)" 0] unfolding owned_def by blast
      have m: "replicated (tr_store s) ?q \<longrightarrow> replicated h ?q"
      proof
        assume r: "replicated (tr_store s) ?q"
        then have "(cs, r) = ([], Some (fst (mark_replicated ?q (tr_store s))))"
          using pass(5) by (simp add: replication_process_def split_beta)
        then show "replicated h ?q" using None by simp
      qed
      show thesis
        by (rule that [of h None ?q cs]) (use pass None new len cs dis m in \<open>simp_all\<close>)
    qed
  next
    case (other e q h t)
    show thesis
      by (rule that [of h t q "[]"]) (use other in \<open>simp_all add: works_on_own_def\<close>)
  qed
  note p = apart_pass [OF inv(1) _ inv(2), of i h q' "map snd cs"]
  have qi: "?qs ! i = ?q" using i by simp
  have p1: "apart (?qs[i := q'] @ map snd cs)" "\<forall>q\<in>set (?qs[i := q'] @ map snd cs). owned h q"
    and p3: "\<And>j a. j < length ?qs \<Longrightarrow> j \<noteq> i \<Longrightarrow> a \<in> reach (?qs ! j) \<Longrightarrow> so_at h a = so_at (tr_store s) a"
    and p4: "\<And>j. j < length ?qs \<Longrightarrow> j \<noteq> i \<Longrightarrow> replicated h (?qs ! j) = replicated (tr_store s) (?qs ! j)"
    using p i(1) g c(1,2) by (simp_all add: qi)
  show "j < length (tr_flights s) \<Longrightarrow> j \<noteq> i \<Longrightarrow> tr_flights s' ! j = tr_flights s ! j \<and>
      (\<forall>a\<in>reach (fl_request (tr_flights s ! j)). so_at (tr_store s') a = so_at (tr_store s) a)"
    using p3 [of j] by (simp add: s' nth_append)
  have req: "map fl_request (tr_flights s') = ?qs[i := q'] @ map snd cs"
    by (simp add: s' map_update comp_def copy_flight_def)
  show "traffic_inv P s'"
  proof (cases i)
    case 0
    have r: "replicated h q" if "q \<in> set (map fl_request rest)" for q
    proof -
      from that obtain j where "j < length rest" "q = fl_request (rest ! j)" by (auto simp: in_set_conv_nth)
      then show ?thesis using p4 [of "Suc j"] inv(3) 0 by (simp add: fl)
    qed
    have one: "cs \<noteq> [] \<longrightarrow> rest = []" using c(5) first i(2) 0 by (auto simp: fl)
    have fls: "tr_flights s' = \<lparr>fl_at = t, fl_request = q'\<rparr> # (rest @ map copy_flight cs)" by (simp add: s' fl 0)
    have P: "P (length (rest @ map copy_flight cs))" using c(4) one fl(2) by (cases "cs = []") simp_all
    have hd: "rest @ map copy_flight cs = [] \<or> t = None \<or> replicated h q'"
      using m first i(2) 0 one by (cases "cs = []") (auto simp: fl)
    have tl: "tl (?qs[i := q'] @ map snd cs) = map fl_request rest @ map snd cs" by (simp add: fl 0)
    have "\<forall>q\<in>set (map fl_request rest @ map snd cs). replicated h q" using r c(3) by auto
    then show ?thesis
      unfolding traffic_inv_def Let_def req tl using p1 fls P hd by (simp add: s' del: set_map set_append map_append)
  next
    case (Suc n)
    then have n: "n < length rest" "tr_flights s ! i = rest ! n" using i(1) by (simp_all add: fl)
    have mq: "replicated (tr_store s) ?q" using inv(3) n by simp
    then have cs: "cs = []" using c(5) by simp
    have r: "replicated h q" if q: "q \<in> set ((map fl_request rest)[n := q'])" for q
    proof -
      from q obtain j where j: "j < length rest" "q = (map fl_request rest)[n := q'] ! j" by (auto simp: in_set_conv_nth)
      show ?thesis
      proof (cases "j = n")
        case True
        with j m(1) mq show ?thesis by simp
      next
        case False
        with j p4 [of "Suc j"] inv(3) Suc show ?thesis by (simp add: fl)
      qed
    qed
    have "replicated h (fl_request fl) = replicated (tr_store s) (fl_request fl)"
      using p4 [of 0] Suc by (simp add: fl)
    then show ?thesis
      unfolding traffic_inv_def Let_def req
      using p1 r cs first fl(2) by (auto simp: s' fl Suc)
  qed
qed


lemma traffic_run_inv:
  assumes "traffic_run reparse G s0 s" and "traffic_inv P s0"
    and "\<And>e ts nxt n. G e = Replication ts nxt \<Longrightarrow> n \<le> length ts \<Longrightarrow> P n"
  shows "traffic_inv P s"
  using assms(1)
proof (induction rule: traffic_run.induct)
  case no_step
  then show ?case by (rule assms(2))
next
  case (next_step s1 i s2)
  from traffic_step_inv(1) [OF next_step.hyps(2) next_step.IH] assms(3) show ?case by blast
qed

lemma traffic_inv_init: "owned h q \<Longrightarrow> P 0 \<Longrightarrow> traffic_inv P \<lparr>tr_store = h, tr_flights = [\<lparr>fl_at = e, fl_request = q\<rparr>]\<rparr>"
  by (simp add: traffic_inv_def)

section \<open>Properties\<close>

text \<open>C36: Replication does not cascade. However the engines are wired, with the targets leading back to replicating
  engines or to the engine that made the copies, and in whatever order the copies and the original are worked
  on, a client's request has at most as many copies as one engine has targets, and every copy is marked.\<close>

theorem replication_never_cascades:
  fixes h :: "'v store"
  assumes "owned h q" and "\<And>e ts nxt. G e = Replication ts nxt \<Longrightarrow> length ts \<le> k"
    and "traffic_run reparse G \<lparr>tr_store = h, tr_flights = [\<lparr>fl_at = e0, fl_request = q\<rparr>]\<rparr> s"
  shows "length (tr_flights s) \<le> Suc k \<and> (\<forall>fl\<in>set (tl (tr_flights s)). replicated (tr_store s) (fl_request fl))"
proof -
  have "traffic_inv (\<lambda>n. n \<le> k) s"
    using traffic_run_inv [OF assms(3) traffic_inv_init [OF assms(1)], where P = "\<lambda>n. n \<le> k"] assms(2) le_trans by blast
  then show ?thesis by (auto simp: traffic_inv_def Let_def)
qed


text \<open>A copy carries the request. When the body can be read, the copy has the method, the format, the values
  of the query and the headers and the bytes of the body; its metadata holds its mark and nothing else, its context
  tells that it is a copy and ends at its own deadline; and reading the original's body still gives the same bytes.\<close>

theorem copy_carries_request:
  fixes h :: "'v store"
  assumes "owned h q" and "lr_Body q = Some a" and "so_at h a = Some (BodyObj b)" and "Bytes b = (Returned (Inr s), b1)"
  shows "\<exists>c h'. CloneForReplication reparse now expiration q h = (Returned c, h') \<and>
     lr_Method c = lr_Method q \<and> lr_Format c = lr_Format q \<and>
     Option.bind (lr_Query c) (so_at h') = Option.bind (lr_Query q) (so_at h) \<and>
     Option.bind (lr_Header c) (so_at h') = Option.bind (lr_Header q) (so_at h) \<and>
     (\<exists>cb. Option.bind (lr_Body c) (so_at h') = Some (BodyObj cb) \<and> fst (Bytes cb) = Returned (Inr s)) \<and>
     stored_metadata h' c = [IsTrafficReplication \<mapsto> MetaBool True] \<and>
     lr_ctx c IsDuplicateRequest = Some (CtxBool True) \<and> lr_deadline c \<noteq> None \<and> now < the (lr_deadline c) \<and>
     (\<exists>b'. so_at h' a = Some (BodyObj b') \<and> fst (Bytes b') = Returned (Inr s))"
proof -
  obtain r h' where r: "CloneForReplication reparse now expiration q h = (r, h')" by fastforce
  from r obtain h1 u h2 v h3 d h4 rb where
    h1: "h1 = snd (new_object (MetaObj [IsTrafficReplication \<mapsto> MetaBool True]) h)"
    and c: "copy_object (copy_url reparse) (lr_URL q) h1 = (u, h2)" "copy_object Some (lr_Query q) h2 = (v, h3)"
      "copy_object Some (lr_Header q) h3 = (d, h4)" "copy_body q h4 = (rb, h')"
    and res: "r = (case rb of Panicked \<Rightarrow> Panicked | Returned b' \<Rightarrow> Returned
       \<lparr>lr_Method = lr_Method q, lr_Format = lr_Format q, lr_URL = u, lr_Query = v, lr_Header = d, lr_Body = b',
        lr_metadata = Some (so_next h), lr_ctx = with_value (lr_ctx q) IsDuplicateRequest (CtxBool True),
        lr_deadline = Some (now + (if expiration \<le> 0 then DefaultReplicationExpiration else expiration))\<rparr>)"
    by (rule clone_cases)
  have g1: "store_grows {} h h1" by (simp add: h1 store_grows_def)
  note g2 = copy_object_new(1) [OF c(1)] and g3 = copy_object_new(1) [OF c(2)] and g4 = copy_object_new(1) [OF c(3)]
  have own: "x < so_next h" if "x \<in> reach q" for x using assms(1) that by (auto simp: owned_def)
  have old: "so_at h3 x = so_at h x" "so_at h2 x = so_at h x" "so_at h4 x = so_at h x" if "x < so_next h" for x
    using that store_grows_trans [OF g1 g2] store_grows_trans [OF store_grows_trans [OF g1 g2] g3]
      store_grows_trans [OF store_grows_trans [OF store_grows_trans [OF g1 g2] g3] g4] by (simp_all add: store_grows_def)
  have le: "so_next h \<le> so_next h4" "so_next h2 \<le> so_next h3" "so_next h3 \<le> so_next h4" "so_next h \<le> so_next h2"
    using store_grows_trans [OF g1 g2] g3 g4 by (simp_all add: store_grows_def)
  have a: "a < so_next h" using own assms(2) by (simp add: reach_def)
  have a4: "so_at h4 a = Some (BodyObj b)" using old(3) [OF a] assms(3) by simp
  let ?cb = "NewBodyFromBytes (Some s) (b_parser b1)"
  have body: "rb = Returned (Some (so_next h4))" "h' = snd (new_object (BodyObj ?cb) (put_object a (BodyObj b1) h4))"
    using copy_body_alt [OF assms(2) a4 assms(4)] c(4) by simp_all
  have kept: "so_at h' x = so_at h4 x" if "x < so_next h4" "x \<noteq> a" for x using that by (simp add: body(2))
  have vals: "Option.bind p (so_at k) = Option.bind p (so_at h)" if "set_option p \<subseteq> reach q" "k \<in> {h2, h3}" for p k
    using that own old by (cases p) auto
  have v: "Option.bind v (so_at h3) = Option.bind (lr_Query q) (so_at h)" "set_option v \<subseteq> {so_next h2..<so_next h3}"
    using copy_object_new(2,3) [OF c(2)] vals [of "lr_Query q" h2] by (auto simp: reach_def)
  have d: "Option.bind d (so_at h4) = Option.bind (lr_Header q) (so_at h)" "set_option d \<subseteq> {so_next h3..<so_next h4}"
    using copy_object_new(2,3) [OF c(3)] vals [of "lr_Header q" h3] by (auto simp: reach_def)
  have "Option.bind v (so_at h') = Option.bind v (so_at h3)"
    using v(2) g4 kept le a by (cases v) (auto simp: store_grows_def)
  moreover have "Option.bind d (so_at h') = Option.bind d (so_at h4)"
    using d(2) kept le a by (cases d) auto
  moreover have "so_at h' (so_next h4) = Some (BodyObj ?cb)" "so_at h' a = Some (BodyObj b1)"
    using a le(1) by (simp_all add: body(2))
  moreover have "fst (Bytes ?cb) = Returned (Inr s)" by (simp add: NewBodyFromBytes_def Bytes_def)
  moreover have "fst (Bytes b1) = Returned (Inr s)" using Bytes_again [OF assms(4)] by simp
  ultimately show ?thesis
    using r res body(1) clone_new(2) [OF r assms(1)] v(1) d(1) by (auto simp: with_value_def DefaultReplicationExpiration_def)
qed


section \<open>A request that comes back to the engine that copied it\<close>

definition demo_targets :: "replication_target list" where
  "demo_targets = [\<lparr>rt_TrafficReplicationEngine = 0, rt_Ratio = 1, rt_ExpirationTime = 0\<rparr>]"

definition demo_graph :: "nat \<Rightarrow> engine_node" where
  "demo_graph e = (if e = 0 then Replication demo_targets 1 else OtherEngine)"

definition demo_live :: live_request where
  "demo_live = \<lparr>lr_Method = ''POST'', lr_Format = ''chat'', lr_URL = None, lr_Query = None, lr_Header = Some 0, lr_Body = Some 1,
     lr_metadata = None, lr_ctx = (\<lambda>_. None), lr_deadline = None\<rparr>"

definition demo_objects :: "unit store" where
  "demo_objects = \<lparr>so_at = [0 \<mapsto> ValuesObj [(''Accept'', [''text''])], 1 \<mapsto> BodyObj (NewBodyFromBytes (Some ''hi'') None)], so_next = 2\<rparr>"

definition demo_traffic :: "unit traffic" where
  "demo_traffic = \<lparr>tr_store = demo_objects, tr_flights = [\<lparr>fl_at = Some 0, fl_request = demo_live\<rparr>]\<rparr>"

definition demo_pass :: "nat \<Rightarrow> unit traffic \<Rightarrow> unit traffic" where
  "demo_pass i s =
     (let ((cs, r), h) = replication_process Some (\<lambda>_. 1 / 2) 0 demo_targets (fl_request (tr_flights s ! i)) (tr_store s)
      in \<lparr>tr_store = h, tr_flights =
           (tr_flights s)[i := (case r of Some q \<Rightarrow> \<lparr>fl_at = Some 1, fl_request = q\<rparr>
                                        | None \<Rightarrow> \<lparr>fl_at = None, fl_request = fl_request (tr_flights s ! i)\<rparr>)] @ map copy_flight cs\<rparr>)"

lemma demo_pass_step:
  assumes "i < length (tr_flights s)" "fl_at (tr_flights s ! i) = Some 0"
  shows "traffic_step Some demo_graph i s (demo_pass i s)"
proof -
  obtain cs r h where "replication_process Some (\<lambda>_. 1 / 2) 0 demo_targets (fl_request (tr_flights s ! i)) (tr_store s) = ((cs, r), h)"
    by (metis surj_pair)
  from replicate_step [OF assms, of demo_graph, OF _ this, of 1] show ?thesis
    by (simp add: demo_pass_def \<open>replication_process _ _ _ _ _ _ = _\<close> demo_graph_def)
qed

lemma demo_owned: "owned demo_objects demo_live"
  by (auto simp: owned_def reach_def demo_live_def demo_objects_def)

lemma demo_pass_flights:
  "length (tr_flights (demo_pass 0 demo_traffic)) = 2" "fl_at (tr_flights (demo_pass 0 demo_traffic) ! Suc 0) = Some 0"
  by (simp_all add: demo_pass_def demo_traffic_def demo_live_def demo_objects_def demo_targets_def replication_process_def replicated_def
      stored_metadata_def CloneForReplication_def copy_object_def copy_body_def new_object_def put_object_def mark_replicated_def
      NewBodyFromBytes_def Bytes_def copy_flight_def)

lemma demo_runs:
  "traffic_run Some demo_graph demo_traffic (demo_pass 0 demo_traffic)"
  "traffic_run Some demo_graph demo_traffic (demo_pass 1 (demo_pass 0 demo_traffic))"
proof -
  show one: "traffic_run Some demo_graph demo_traffic (demo_pass 0 demo_traffic)"
    by (rule next_step [OF no_step demo_pass_step]) (simp_all add: demo_traffic_def)
  show "traffic_run Some demo_graph demo_traffic (demo_pass 1 (demo_pass 0 demo_traffic))"
    by (rule next_step [OF one demo_pass_step]) (simp_all add: demo_pass_flights)
qed

lemma demo_graph_small: "demo_graph e = Replication ts nxt \<Longrightarrow> length ts \<le> 1"
  by (auto simp: demo_graph_def demo_targets_def split: if_splits)

theorem replication_never_cascades_witness:
  "length (tr_flights (demo_pass 1 (demo_pass 0 demo_traffic))) \<le> 2"
proof -
  have "length (tr_flights (demo_pass 1 (demo_pass 0 demo_traffic))) \<le> Suc 1 \<and>
      (\<forall>fl\<in>set (tl (tr_flights (demo_pass 1 (demo_pass 0 demo_traffic)))).
         replicated (tr_store (demo_pass 1 (demo_pass 0 demo_traffic))) (fl_request fl))"
    by (rule replication_never_cascades [OF demo_owned _ demo_runs(2) [unfolded demo_traffic_def], folded demo_traffic_def])
      (rule demo_graph_small)
  then show ?thesis by simp
qed


theorem copy_carries_request_witness:
  "\<exists>c h'. CloneForReplication Some 0 0 demo_live demo_objects = (Returned c, h') \<and>
     Option.bind (lr_Header c) (so_at h') = Some (ValuesObj [(''Accept'', [''text''])]) \<and> lr_deadline c \<noteq> None"
proof -
  have b: "Bytes (NewBodyFromBytes (Some ''hi'') (None :: unit parser option)) = (Returned (Inr ''hi''), NewBodyFromBytes (Some ''hi'') None)"
    by (simp add: NewBodyFromBytes_def Bytes_def)
  have "lr_Body demo_live = Some 1" "so_at demo_objects 1 = Some (BodyObj (NewBodyFromBytes (Some ''hi'') None))"
    "Option.bind (lr_Header demo_live) (so_at demo_objects) = Some (ValuesObj [(''Accept'', [''text''])])"
    by (simp_all add: demo_live_def demo_objects_def)
  with copy_carries_request [OF demo_owned this(1,2) b, of Some 0 0] show ?thesis by auto
qed

end
