(* ===== verification/ModeratorAdapters.thy ===== *)
theory ModeratorAdapters
  imports Moderator
begin

text \<open>
  The adapters of the moderator for the other formats (\<open>openai_response_adapter.go\<close>, \<open>vertex_adapter.go\<close>) and the
  one that chooses between all four (\<open>universal_adapter.go\<close>), composed with the engine of \<open>moderator.go\<close>: what a client
  reads from a moderated stream.
\<close>

section \<open>OpenAI responses\<close>

record responses_adapter =
  rad_streaming :: string
  rad_nonStreaming :: string

definition responses_response_text :: "responses_response \<Rightarrow> nat list" where
  "responses_response_text r = concat (map (\<lambda>i. case i of None \<Rightarrow> [] | Some x \<Rightarrow> runes (output_item_text (Some x))) (pr_Output r))"

definition part_events :: "string set" where
  "part_events = {''response.content_part.added'', ''response.content_part.done''}"

definition item_events :: "string set" where
  "item_events = {''response.output_item.added'', ''response.output_item.done''}"

definition responses_chunk_text :: "responses_chunk \<Rightarrow> nat list" where
  "responses_chunk_text k =
     (if pk_Type k = ''response.output_text.delta'' then runes (pk_Delta k)
      else if pk_Type k = ''response.output_text.done'' then runes (pk_Text k)
      else if pk_Type k \<in> part_events then (case pk_Part k of None \<Rightarrow> [] | Some x \<Rightarrow> runes (output_part_text (Some x)))
      else if pk_Type k \<in> item_events then (case pk_Item k of None \<Rightarrow> [] | Some x \<Rightarrow> runes (output_item_text (Some x)))
      else if pk_Type k = ''response.completed'' then (case pk_Response k of None \<Rightarrow> [] | Some r \<Rightarrow> responses_response_text r)
      else [])"

definition responses_extract :: "llm_value body \<Rightarrow> (err + nat list) outcome" where
  "responses_extract b =
     (case fst (Parsed b) of
        Panicked \<Rightarrow> Panicked
      | Returned (v, Some e) \<Rightarrow> Returned (Inl (Wrap ''parse body error'' [e]))
      | Returned (v, None) \<Rightarrow>
          Returned (case v of
             Some (ResponsesV (ResponsesRequest q)) \<Rightarrow> Inr (case pq_Input q of None \<Rightarrow> [] | Some i \<Rightarrow> runes (responses_input_text i))
           | Some (ResponsesV (ResponsesResponse r)) \<Rightarrow> Inr (responses_response_text r)
           | Some (ResponsesV (ResponseStreamChunk k)) \<Rightarrow> Inr (responses_chunk_text k)
           | _ \<Rightarrow> Inl (Plain ''unsupported body type'')))"

definition notice_part :: "string \<Rightarrow> output_part" where
  "notice_part t = \<lparr>op_Type = ''output_text'', op_Text = t, op_Refusal = ''''\<rparr>"

definition notice_item :: "string \<Rightarrow> output_item" where
  "notice_item t = \<lparr>oi_ID = '''', oi_Type = ''message'', oi_Role = ''assistant'', oi_Content = [Some (notice_part t)]\<rparr>"

definition empty_responses_response :: responses_response where
  "empty_responses_response = \<lparr>pr_Id = '''', pr_Output = [], pr_Usage = None\<rparr>"

definition getReplacementResponsesNonStreamResponse :: "responses_adapter \<Rightarrow> responses_response \<Rightarrow> responses_response option" where
  "getReplacementResponsesNonStreamResponse a r =
     (if rad_nonStreaming a = '''' then None
      else Some \<lparr>pr_Id = pr_Id r, pr_Output = [Some (notice_item (rad_nonStreaming a))], pr_Usage = pr_Usage r\<rparr>)"

definition getReplacementResponsesStreamResponse :: "responses_adapter \<Rightarrow> responses_chunk \<Rightarrow> responses_chunk option" where
  "getReplacementResponsesStreamResponse a k =
     (let t = rad_streaming a
      in if t = '''' then None
         else if pk_Type k = ''response.output_text.delta'' then Some (k\<lparr>pk_Delta := t\<rparr>)
         else if pk_Type k = ''response.output_text.done'' then Some (k\<lparr>pk_Text := t\<rparr>)
         else if pk_Type k \<in> part_events then Some (k\<lparr>pk_Part := Some (notice_part t)\<rparr>)
         else if pk_Type k \<in> item_events then Some (k\<lparr>pk_Item := Some (notice_item t)\<rparr>)
         else if pk_Type k = ''response.completed''
         then Some (k\<lparr>pk_Response := getReplacementResponsesNonStreamResponse a
                (case pk_Response k of None \<Rightarrow> empty_responses_response | Some r \<Rightarrow> r)\<rparr>)
         else None)"

text \<open>All adapters write the replacement into the body they were given.\<close>

definition replace_parsed :: "(llm_value option \<Rightarrow> llm_value option) \<Rightarrow> llm_value body \<Rightarrow> llm_value body option outcome" where
  "replace_parsed f b =
     (case Parsed b of
        (Panicked, b1) \<Rightarrow> Panicked
      | (Returned (v, Some e), b1) \<Rightarrow> Returned None
      | (Returned (v, None), b1) \<Rightarrow> Returned (map_option (\<lambda>x. SetParsed (Some x) b1) (f v)))"

definition responses_replacement :: "responses_adapter \<Rightarrow> llm_value body \<Rightarrow> llm_value body option outcome" where
  "responses_replacement a = replace_parsed (\<lambda>v. case v of
      Some (ResponsesV (ResponsesResponse r)) \<Rightarrow> map_option (ResponsesV \<circ> ResponsesResponse) (getReplacementResponsesNonStreamResponse a r)
    | Some (ResponsesV (ResponseStreamChunk k)) \<Rightarrow> map_option (ResponsesV \<circ> ResponseStreamChunk) (getReplacementResponsesStreamResponse a k)
    | _ \<Rightarrow> None)"

definition OpenAIResponseAdapter :: "responses_adapter \<Rightarrow> llm_value text_adapter" where
  "OpenAIResponseAdapter a = \<lparr>ExtractTextFromBody = responses_extract, GetReplacementBody = responses_replacement a\<rparr>"

section \<open>Vertex\<close>

record vertex_adapter =
  vad_streaming :: string
  vad_nonStreaming :: string
  vad_finishReason :: string

definition extractTextFromParts :: "vertex_part list \<Rightarrow> nat list" where
  "extractTextFromParts parts =
     concat (map (\<lambda>p. runes (vp_Text p) @ (case vp_FunctionCall p of None \<Rightarrow> [] | Some f \<Rightarrow> runes (vf_Args f))) parts)"

definition vertex_request_text :: "vertex_request \<Rightarrow> nat list" where
  "vertex_request_text q =
     (case vq_SystemInstruction q of None \<Rightarrow> [] | Some c \<Rightarrow> extractTextFromParts (vc_Parts c)) @
     concat (map (\<lambda>c. extractTextFromParts (vc_Parts c)) (vq_Contents q))"

definition vertex_response_text :: "vertex_response \<Rightarrow> nat list" where
  "vertex_response_text r =
     concat (map (\<lambda>c. case vd_Content c of None \<Rightarrow> [] | Some x \<Rightarrow> extractTextFromParts (vc_Parts x)) (vr_Candidates r))"

definition vertex_extract :: "llm_value body \<Rightarrow> (err + nat list) outcome" where
  "vertex_extract b =
     (case fst (Parsed b) of
        Panicked \<Rightarrow> Panicked
      | Returned (v, Some e) \<Rightarrow> Returned (Inl (Wrap ''parse body error'' [e]))
      | Returned (v, None) \<Rightarrow>
          Returned (case v of
             Some (VertexV (GenerateContentRequest q)) \<Rightarrow> Inr (vertex_request_text q)
           | Some (VertexV (GenerateContentResponse r)) \<Rightarrow> Inr (vertex_response_text r)
           | Some (VertexV (StreamGenerateContentResponse r)) \<Rightarrow> Inr (vertex_response_text r)
           | _ \<Rightarrow> Inl (Plain ''unsupported body type'')))"

definition notice_candidate :: "vertex_adapter \<Rightarrow> string \<Rightarrow> vertex_candidate" where
  "notice_candidate a t =
     \<lparr>vd_Content = Some \<lparr>vc_Role = ''model'', vc_Parts = [\<lparr>vp_Text = t, vp_FunctionCall = None\<rparr>]\<rparr>,
      vd_FinishReason = (if vad_finishReason a = '''' then ''SAFETY'' else vad_finishReason a)\<rparr>"

definition getReplacementNonStreamResponse :: "vertex_adapter \<Rightarrow> vertex_response \<Rightarrow> vertex_response option" where
  "getReplacementNonStreamResponse a r =
     (if vad_nonStreaming a = '''' then None
      else Some \<lparr>vr_Candidates = [notice_candidate a (vad_nonStreaming a)], vr_UsageMetadata = vr_UsageMetadata r,
        vr_ModelVersion = vr_ModelVersion r, vr_ResponseID = ''''\<rparr>)"

definition getReplacementStreamResponse :: "vertex_adapter \<Rightarrow> vertex_response \<Rightarrow> vertex_response option" where
  "getReplacementStreamResponse a r =
     (if vad_streaming a = '''' then None
      else Some \<lparr>vr_Candidates = [notice_candidate a (vad_streaming a)], vr_UsageMetadata = None,
        vr_ModelVersion = vr_ModelVersion r, vr_ResponseID = ''''\<rparr>)"

definition vertex_replacement :: "vertex_adapter \<Rightarrow> llm_value body \<Rightarrow> llm_value body option outcome" where
  "vertex_replacement a = replace_parsed (\<lambda>v. case v of
      Some (VertexV (GenerateContentResponse r)) \<Rightarrow> map_option (VertexV \<circ> GenerateContentResponse) (getReplacementNonStreamResponse a r)
    | Some (VertexV (StreamGenerateContentResponse r)) \<Rightarrow> map_option (VertexV \<circ> StreamGenerateContentResponse) (getReplacementStreamResponse a r)
    | _ \<Rightarrow> None)"

definition VertexAdapter :: "vertex_adapter \<Rightarrow> llm_value text_adapter" where
  "VertexAdapter a = \<lparr>ExtractTextFromBody = vertex_extract, GetReplacementBody = vertex_replacement a\<rparr>"

section \<open>The universal adapter\<close>

record universal_adapter =
  ua_openaiAdapter :: openai_adapter
  ua_claudeAdapter :: claude_adapter
  ua_openaiResponsesAdapter :: responses_adapter
  ua_vertexAdapter :: vertex_adapter

definition NewUniversalAdapterWithConfig :: "string \<Rightarrow> string \<Rightarrow> string \<Rightarrow> universal_adapter" where
  "NewUniversalAdapterWithConfig streaming nonStreaming reason =
     \<lparr>ua_openaiAdapter = \<lparr>oad_streaming = streaming, oad_nonStreaming = nonStreaming, oad_finishReason = reason\<rparr>,
      ua_claudeAdapter = \<lparr>cad_streaming = streaming, cad_nonStreaming = nonStreaming, cad_stopReason = reason\<rparr>,
      ua_openaiResponsesAdapter = \<lparr>rad_streaming = streaming, rad_nonStreaming = nonStreaming\<rparr>,
      ua_vertexAdapter = \<lparr>vad_streaming = streaming, vad_nonStreaming = nonStreaming, vad_finishReason = reason\<rparr>\<rparr>"

definition NewUniversalAdapter :: universal_adapter where
  "NewUniversalAdapter = NewUniversalAdapterWithConfig '''' '''' ''''"

text \<open>The adapter parses the body, and the chosen one asks for the parsed value again.\<close>

definition universal_extract :: "llm_value body \<Rightarrow> (err + nat list) outcome" where
  "universal_extract b =
     (case Parsed b of
        (Panicked, b1) \<Rightarrow> Panicked
      | (Returned (v, Some e), b1) \<Rightarrow> Returned (Inl (Wrap ''parse body error'' [e]))
      | (Returned (v, None), b1) \<Rightarrow>
          (case v of
             Some (ResponsesV x) \<Rightarrow> responses_extract b1
           | Some (ChatRequestV x) \<Rightarrow> openai_extract b1
           | Some (ChatResponseV x) \<Rightarrow> openai_extract b1
           | Some (ChatChunkV x) \<Rightarrow> openai_extract b1
           | Some (ClaudeRequestV x) \<Rightarrow> claude_extract b1
           | Some (ClaudeResponseV x) \<Rightarrow> claude_extract b1
           | Some (ClaudeEventV x) \<Rightarrow> claude_extract b1
           | Some (VertexV x) \<Rightarrow> vertex_extract b1
           | _ \<Rightarrow> Returned (Inl (Plain ''unsupported body type''))))"

definition universal_replacement :: "universal_adapter \<Rightarrow> llm_value body \<Rightarrow> llm_value body option outcome" where
  "universal_replacement a b =
     (case Parsed b of
        (Panicked, b1) \<Rightarrow> Panicked
      | (Returned (v, Some e), b1) \<Rightarrow> Returned None
      | (Returned (v, None), b1) \<Rightarrow>
          (case v of
             Some (ResponsesV (ResponsesResponse x)) \<Rightarrow> responses_replacement (ua_openaiResponsesAdapter a) b1
           | Some (ResponsesV (ResponseStreamChunk x)) \<Rightarrow> responses_replacement (ua_openaiResponsesAdapter a) b1
           | Some (ChatResponseV x) \<Rightarrow> openai_replacement (ua_openaiAdapter a) b1
           | Some (ChatChunkV x) \<Rightarrow> openai_replacement (ua_openaiAdapter a) b1
           | Some (ClaudeResponseV x) \<Rightarrow> claude_replacement (ua_claudeAdapter a) b1
           | Some (ClaudeEventV x) \<Rightarrow> claude_replacement (ua_claudeAdapter a) b1
           | Some (VertexV (GenerateContentResponse x)) \<Rightarrow> vertex_replacement (ua_vertexAdapter a) b1
           | Some (VertexV (StreamGenerateContentResponse x)) \<Rightarrow> vertex_replacement (ua_vertexAdapter a) b1
           | _ \<Rightarrow> Returned None))"

definition UniversalAdapter :: "universal_adapter \<Rightarrow> llm_value text_adapter" where
  "UniversalAdapter a = \<lparr>ExtractTextFromBody = universal_extract, GetReplacementBody = universal_replacement a\<rparr>"

section \<open>The notice\<close>

lemma Parsed_cached:
  assumes "Parsed b = (Returned (Some v, None), b1)"
  shows "b_parsed b1 = Some v" "b_parseErr b1 = None"
proof -
  have "b_parsed b1 = Some v \<and> b_parseErr b1 = None"
  proof (cases "b_parsed b")
    case None
    then obtain b' where r: "read_all b = Inr b'" using assms by (cases "read_all b") (simp_all add: Parsed_def)
    then obtain p where "b_parser b' = Some p" using assms None by (cases "b_parser b'") (simp_all add: Parsed_def)
    with assms None r show ?thesis by (auto simp: Parsed_def Let_def split: prod.splits)
  qed (use assms in \<open>auto simp: Parsed_def\<close>)
  then show "b_parsed b1 = Some v" "b_parseErr b1 = None" by simp_all
qed

lemma Parsed_again: "Parsed b = (Returned (Some v, None), b1) \<Longrightarrow> Parsed b1 = (Returned (Some v, None), b1)"
  by (frule Parsed_cached(1), drule Parsed_cached(2)) (simp add: Parsed_def)

lemma Parsed_SetParsed: "Parsed b = (Returned (Some v, None), b1) \<Longrightarrow> Parsed (SetParsed (Some x) b1) = (Returned (Some x, None), SetParsed (Some x) b1)"
  by (drule Parsed_cached(2)) (simp add: Parsed_def SetParsed_def)

lemma runes_Nil [simp]: "runes '''' = []"
  by (simp add: runes_def)


text \<open>What each adapter puts in the place of a value, as its text.\<close>

definition notices :: "universal_adapter \<Rightarrow> string set" where
  "notices a = {'''', oad_streaming (ua_openaiAdapter a), oad_nonStreaming (ua_openaiAdapter a),
     cad_streaming (ua_claudeAdapter a), cad_nonStreaming (ua_claudeAdapter a),
     rad_streaming (ua_openaiResponsesAdapter a), rad_nonStreaming (ua_openaiResponsesAdapter a),
     vad_streaming (ua_vertexAdapter a), vad_nonStreaming (ua_vertexAdapter a)}"

lemma replace_parsed_Some:
  assumes "replace_parsed f b = Returned (Some b')" and "Parsed b = (Returned (Some v, None), b1)"
  obtains x where "f (Some v) = Some x" "b' = SetParsed (Some x) b1"
  using assms by (auto simp: replace_parsed_def)

lemma notice_texts [simp]:
  "output_part_text (Some (notice_part t)) = t" "output_item_text (Some (notice_item t)) = t"
  "extractTextFromParts [\<lparr>vp_Text = t, vp_FunctionCall = None\<rparr>] = runes t"
  by (simp_all add: notice_part_def notice_item_def output_part_text_def output_item_text_def extractTextFromParts_def)

lemma responses_notice:
  "getReplacementResponsesNonStreamResponse a r = Some r' \<Longrightarrow> responses_response_text r' = runes (rad_nonStreaming a)"
  by (auto simp: getReplacementResponsesNonStreamResponse_def responses_response_text_def split: if_splits)

lemma responses_chunk_notice:
  assumes "getReplacementResponsesStreamResponse a k = Some k'"
  shows "responses_chunk_text k' \<in> {[], runes (rad_streaming a), runes (rad_nonStreaming a)}"
proof -
  consider "pk_Type k = ''response.output_text.delta''" | "pk_Type k = ''response.output_text.done''"
    | "pk_Type k \<in> part_events" | "pk_Type k \<in> item_events" | "pk_Type k = ''response.completed''"
    using assms by (auto simp: getReplacementResponsesStreamResponse_def Let_def split: if_splits)
  then show ?thesis
  proof cases
    case 5
    with assms have "pk_Type k' = ''response.completed''" "pk_Response k' = getReplacementResponsesNonStreamResponse a
        (case pk_Response k of None \<Rightarrow> empty_responses_response | Some r \<Rightarrow> r)"
      by (auto simp: getReplacementResponsesStreamResponse_def Let_def part_events_def item_events_def split: if_splits)
    then show ?thesis
      by (auto simp: responses_chunk_text_def part_events_def item_events_def split: option.split dest: responses_notice)
  qed (use assms in \<open>auto simp: getReplacementResponsesStreamResponse_def responses_chunk_text_def Let_def part_events_def item_events_def split: if_splits\<close>)
qed

lemma vertex_notice:
  "getReplacementNonStreamResponse a r = Some r' \<Longrightarrow> vertex_response_text r' = runes (vad_nonStreaming a)"
  "getReplacementStreamResponse a r = Some r' \<Longrightarrow> vertex_response_text r' = runes (vad_streaming a)"
  by (auto simp: getReplacementNonStreamResponse_def getReplacementStreamResponse_def vertex_response_text_def notice_candidate_def split: if_splits)


text \<open>A body that holds a value.\<close>

abbreviation holds :: "llm_value body \<Rightarrow> llm_value \<Rightarrow> bool" where
  "holds b v \<equiv> Parsed b = (Returned (Some v, None), b)"

lemma universal_extract_holds:
  "holds b (ResponsesV x) \<Longrightarrow> universal_extract b = responses_extract b"
  "holds b (VertexV y) \<Longrightarrow> universal_extract b = vertex_extract b"
  by (simp_all add: universal_extract_def)

lemma openai_notice:
  assumes "openai_replacement a b = Returned (Some b')" and "Parsed b = (Returned (Some v, None), b1)"
  shows "\<exists>x. (case x of ChatResponseV r \<Rightarrow> True | ChatChunkV k \<Rightarrow> True | _ \<Rightarrow> False) \<and> b' = SetParsed (Some x) b1 \<and>
    (\<forall>c. holds c x \<longrightarrow> openai_extract c \<in> {Returned (Inr (runes (oad_streaming a))), Returned (Inr (runes (oad_nonStreaming a)))})"
proof -
  have one: "extractTextFromMessage (Some (oa_msg ''assistant'' (Some (OaString t)))) = Returned (runes t)" for t
    by (simp add: extractTextFromMessage_def oa_msg_def content_string_def)
  show ?thesis
  proof (cases v)
    case (ChatResponseV r)
    then obtain c cs where c: "cr_Choices r = Some c # cs" using assms
      by (auto simp: openai_replacement_def split: list.splits option.splits)
    show ?thesis
      by (rule exI [of _ "the (b_parsed b')"])
        (use assms c ChatResponseV one in \<open>auto simp: openai_replacement_def openai_extract_def message_text_def SetParsed_def split: if_splits\<close>)
  next
    case (ChatChunkV k)
    then obtain c cs where c: "ck_Choices k = Some c # cs" using assms
      by (auto simp: openai_replacement_def split: list.splits option.splits)
    show ?thesis
      by (rule exI [of _ "the (b_parsed b')"])
        (use assms c ChatChunkV one in \<open>auto simp: openai_replacement_def openai_extract_def message_text_def SetParsed_def split: if_splits\<close>)
  qed (use assms in \<open>auto simp: openai_replacement_def\<close>)
qed

lemma claude_notice:
  assumes "claude_replacement a b = Returned (Some b')" and "Parsed b = (Returned (Some v, None), b1)"
  shows "\<exists>x. (case x of ClaudeResponseV r \<Rightarrow> True | ClaudeEventV k \<Rightarrow> True | _ \<Rightarrow> False) \<and> b' = SetParsed (Some x) b1 \<and>
    (\<forall>c. holds c x \<longrightarrow> claude_extract c \<in> {Returned (Inr (runes (cad_streaming a))), Returned (Inr (runes (cad_nonStreaming a)))})"
proof (cases v)
  case (ClaudeResponseV r)
  show ?thesis
    by (rule exI [of _ "the (b_parsed b')"])
      (use assms ClaudeResponseV in \<open>auto simp: claude_replacement_def claude_extract_def claude_blocks_text_def SetParsed_def split: if_splits\<close>)
next
  case (ClaudeEventV e)
  show ?thesis
    by (rule exI [of _ "the (b_parsed b')"])
      (use assms ClaudeEventV in \<open>auto simp: claude_replacement_def claude_extract_def claude_event_text_def optional_text_def SetParsed_def split: if_splits\<close>)
qed (use assms in \<open>auto simp: claude_replacement_def\<close>)


lemma openai_notice_text:
  assumes "openai_replacement (ua_openaiAdapter a) b = Returned (Some b')" and "holds b v"
  shows "universal_extract b' \<in> (\<lambda>t. Returned (Inr (runes t))) ` notices a"
proof -
  obtain x where x: "case x of ChatResponseV r \<Rightarrow> True | ChatChunkV k \<Rightarrow> True | _ \<Rightarrow> False" "b' = SetParsed (Some x) b"
    and t: "\<forall>c. holds c x \<longrightarrow> openai_extract c \<in> {Returned (Inr (runes (oad_streaming (ua_openaiAdapter a)))),
      Returned (Inr (runes (oad_nonStreaming (ua_openaiAdapter a))))}"
    using openai_notice [OF assms] by blast
  have h: "holds b' x" unfolding x(2) by (rule Parsed_SetParsed [OF assms(2)])
  have "universal_extract b' = openai_extract b'"
    using x(1) h by (cases x) (simp_all add: universal_extract_def)
  with t h show ?thesis by (auto simp: notices_def)
qed

lemma claude_notice_text:
  assumes "claude_replacement (ua_claudeAdapter a) b = Returned (Some b')" and "holds b v"
  shows "universal_extract b' \<in> (\<lambda>t. Returned (Inr (runes t))) ` notices a"
proof -
  obtain x where x: "case x of ClaudeResponseV r \<Rightarrow> True | ClaudeEventV k \<Rightarrow> True | _ \<Rightarrow> False" "b' = SetParsed (Some x) b"
    and t: "\<forall>c. holds c x \<longrightarrow> claude_extract c \<in> {Returned (Inr (runes (cad_streaming (ua_claudeAdapter a)))),
      Returned (Inr (runes (cad_nonStreaming (ua_claudeAdapter a))))}"
    using claude_notice [OF assms] by blast
  have h: "holds b' x" unfolding x(2) by (rule Parsed_SetParsed [OF assms(2)])
  have "universal_extract b' = claude_extract b'"
    using x(1) h by (cases x) (simp_all add: universal_extract_def)
  with t h show ?thesis by (auto simp: notices_def)
qed

text \<open>What the universal adapter puts in the place of a body reads as one of its notices, or as nothing.\<close>

lemma universal_notice:
  assumes "universal_replacement a b = Returned (Some b')"
  shows "universal_extract b' \<in> (\<lambda>t. Returned (Inr (runes t))) ` notices a"
proof -
  obtain v b1 where p: "Parsed b = (Returned (Some v, None), b1)"
    using assms by (auto simp: universal_replacement_def split: prod.splits outcome.splits option.splits)
  note p1 = Parsed_again [OF p]
  have set: "holds (SetParsed (Some x) b1) x" for x by (rule Parsed_SetParsed [OF p])
  show ?thesis
  proof (cases v)
    case (ResponsesV x)
    have r: "responses_replacement (ua_openaiResponsesAdapter a) b1 = Returned (Some b')"
      using assms p ResponsesV by (cases x) (simp_all add: universal_replacement_def)
    obtain y where y: "b' = SetParsed (Some y) b1" "\<exists>z. y = ResponsesV z"
      "responses_extract (SetParsed (Some y) b1) \<in> (\<lambda>t. Returned (Inr (runes t))) ` notices a"
    proof (cases x)
      case (ResponsesResponse q)
      then obtain q' where q': "getReplacementResponsesNonStreamResponse (ua_openaiResponsesAdapter a) q = Some q'"
        "b' = SetParsed (Some (ResponsesV (ResponsesResponse q'))) b1"
        using r p1 ResponsesV by (auto simp: responses_replacement_def replace_parsed_def)
      show thesis
        by (rule that [OF q'(2)]) (auto simp: responses_extract_def set responses_notice [OF q'(1)] notices_def)
    next
      case (ResponseStreamChunk k)
      then obtain k' where k': "getReplacementResponsesStreamResponse (ua_openaiResponsesAdapter a) k = Some k'"
        "b' = SetParsed (Some (ResponsesV (ResponseStreamChunk k'))) b1"
        using r p1 ResponsesV by (auto simp: responses_replacement_def replace_parsed_def)
      show thesis
        by (rule that [OF k'(2)]) (use responses_chunk_notice [OF k'(1)] in \<open>auto simp: responses_extract_def set notices_def image_iff\<close>)
    qed (use r p1 ResponsesV in \<open>simp add: responses_replacement_def replace_parsed_def\<close>)
    then show ?thesis using universal_extract_holds(1) [OF set] by auto
  next
    case (VertexV x)
    have r: "vertex_replacement (ua_vertexAdapter a) b1 = Returned (Some b')"
      using assms p VertexV by (cases x) (simp_all add: universal_replacement_def)
    obtain y where y: "b' = SetParsed (Some y) b1" "\<exists>z. y = VertexV z"
      "vertex_extract (SetParsed (Some y) b1) \<in> (\<lambda>t. Returned (Inr (runes t))) ` notices a"
    proof (cases x)
      case (GenerateContentResponse q)
      then obtain q' where q': "getReplacementNonStreamResponse (ua_vertexAdapter a) q = Some q'"
        "b' = SetParsed (Some (VertexV (GenerateContentResponse q'))) b1"
        using r p1 VertexV by (auto simp: vertex_replacement_def replace_parsed_def)
      show thesis
        by (rule that [OF q'(2)]) (auto simp: vertex_extract_def set vertex_notice(1) [OF q'(1)] notices_def)
    next
      case (StreamGenerateContentResponse q)
      then obtain q' where q': "getReplacementStreamResponse (ua_vertexAdapter a) q = Some q'"
        "b' = SetParsed (Some (VertexV (StreamGenerateContentResponse q'))) b1"
        using r p1 VertexV by (auto simp: vertex_replacement_def replace_parsed_def)
      show thesis
        by (rule that [OF q'(2)]) (auto simp: vertex_extract_def set vertex_notice(2) [OF q'(1)] notices_def)
    qed (use r p1 VertexV in \<open>simp add: vertex_replacement_def replace_parsed_def\<close>)
    then show ?thesis using universal_extract_holds(2) [OF set] by auto
  next
    case (ChatResponseV r)
    then show ?thesis using openai_notice_text [OF _ p1] assms p by (simp add: universal_replacement_def)
  next
    case (ChatChunkV k)
    then show ?thesis using openai_notice_text [OF _ p1] assms p by (simp add: universal_replacement_def)
  next
    case (ClaudeResponseV r)
    then show ?thesis using claude_notice_text [OF _ p1] assms p by (simp add: universal_replacement_def)
  next
    case (ClaudeEventV k)
    then show ?thesis using claude_notice_text [OF _ p1] assms p by (simp add: universal_replacement_def)
  qed (use assms p in \<open>simp_all add: universal_replacement_def\<close>)
qed


section \<open>Blocks\<close>

text \<open>Reading chunks that do not fill a block.\<close>

lemma chunk_text_readable: "readable m c \<Longrightarrow> ExtractTextFromBody (mo_Adapter m) (ch_Body c) = Returned (Inr (chunk_text m c))"
  by (auto simp: readable_def chunk_text_def)

lemma mod_loop_fill:
  assumes "list_all (readable m) xs" and "ms_count s + length xs < moderate_every m"
  shows "mod_loop m ok (xs @ ys) s = mod_loop m ok ys
     (s\<lparr>ms_text := if xs = [] then ms_text s else last_runes (mo_MaxRuneLen m) (ms_text s @ stream_text m xs),
        ms_chunks := ms_chunks s @ xs, ms_count := ms_count s + length xs\<rparr>)"
  using assms
proof (induction xs arbitrary: s)
  case (Cons x xs)
  let ?s1 = "s\<lparr>ms_text := last_runes (mo_MaxRuneLen m) (ms_text s @ chunk_text m x), ms_chunks := ms_chunks s @ [x], ms_count := Suc (ms_count s)\<rparr>"
  have "mod_loop m ok ((x # xs) @ ys) s = mod_loop m ok (xs @ ys) ?s1"
    using Cons.prems chunk_text_readable [of m x] by (simp add: Let_def)
  also have "\<dots> = mod_loop m ok ys
     (?s1\<lparr>ms_text := if xs = [] then ms_text ?s1 else last_runes (mo_MaxRuneLen m) (ms_text ?s1 @ stream_text m xs),
        ms_chunks := ms_chunks ?s1 @ xs, ms_count := ms_count ?s1 + length xs\<rparr>)"
    using Cons.IH [of ?s1] Cons.prems by simp
  finally show ?case by (simp add: stream_text_def last_runes_append)
qed simp

lemma vet_block_refused:
  assumes "ask m (mo_OutputRate m) (ms_rolls s) (trimRune (ms_text s)) = (Some e, asked)"
  shows "\<exists>s1. vet_block m ok s = (True, s1) \<and> ms_failed s1 \<noteq> None \<and> ms_out s1 = ms_out s \<and> ms_chunks s1 = ms_chunks s"
  using assms by (simp add: vet_block_def Let_def)

text \<open>When the text of the first block is refused, the client gets the replacement of the first chunk, if there is
  one, and nothing else.\<close>

lemma first_block_refused:
  assumes "mo_OutputRate m = None" and "list_all (readable m) cs"
    and t: "t = trimRune (last_runes (mo_MaxRuneLen m) (stream_text m (take (moderate_every m) cs)))" "t \<noteq> []" "mo_Allow m rolls t \<noteq> None"
    and none: "GetReplacementBody (mo_Adapter m) (ch_Body (hd cs)) = Returned None"
  shows "ms_out (moderate_stream m ok rolls cs) = [] \<and> ms_failed (moderate_stream m ok rolls cs) \<noteq> None"
proof -
  let ?k = "moderate_every m"
  let ?s0 = "mod_init\<lparr>ms_rolls := rolls\<rparr> :: 'a mod_state"
  have cs: "cs \<noteq> []" using t by (auto simp: stream_text_def last_runes_def trimRune_def)
  from t(3) obtain e where e: "mo_Allow m rolls t = Some e" by blast
  have asked: "ask m (mo_OutputRate m) rolls t = (Some e, True)"
    using t(2) e assms(1) by (simp add: ask_def moderationSampleHit_def)
  have last: "last_runes (mo_MaxRuneLen m) ([] @ xs) = last_runes (mo_MaxRuneLen m) xs" for xs by simp
  have finish: "ms_out (mod_finish m ok s) = [] \<and> ms_failed (mod_finish m ok s) \<noteq> None"
    if "ms_failed s \<noteq> None" "ms_out s = []" "ms_chunks s \<noteq> []" "hd (ms_chunks s) = hd cs" for s
    using that none by (auto simp: mod_finish_def split: list.splits)
  show ?thesis
  proof (cases "length cs < ?k")
    case True
    define s1 where "s1 = ?s0\<lparr>ms_text := last_runes (mo_MaxRuneLen m) (stream_text m cs), ms_chunks := cs, ms_count := length cs\<rparr>"
    have loop: "mod_loop m ok cs ?s0 = (Drained, s1)"
      using mod_loop_fill [of m cs ?s0 ok "[]"] assms(2) True cs by (simp add: s1_def mod_init_def)
    have "trimRune (ms_text s1) = t" using t(1) True by (simp add: s1_def)
    then obtain s2 where s2: "vet_block m ok s1 = (True, s2)" "ms_failed s2 \<noteq> None" "ms_out s2 = []" "ms_chunks s2 = cs"
      using vet_block_refused [of m s1 e True ok] asked by (auto simp: s1_def mod_init_def)
    have "ms_failed s1 = None" "ms_chunks s1 = cs" by (simp_all add: s1_def mod_init_def)
    moreover obtain f where "ms_failed s2 = Some f" using s2(2) by blast
    ultimately have "mod_finish m ok s1 = mod_finish m ok s2" using s2(1,4) cs by (simp add: mod_finish_def)
    then show ?thesis using finish [OF s2(2,3)] s2(4) cs loop by (simp add: moderate_stream_def)
  next
    case False
    define xs x ys where "xs = take (?k - 1) cs" and "x = cs ! (?k - 1)" and "ys = drop ?k cs"
    have k: "0 < ?k" "?k - 1 < length cs" using every_pos [of m] False by auto
    have split: "cs = xs @ x # ys" using id_take_nth_drop [OF k(2)] k(1) by (simp add: xs_def x_def ys_def)
    have take: "take ?k cs = xs @ [x]" using take_Suc_conv_app_nth [OF k(2)] k(1) by (simp add: xs_def x_def)
    have len: "length xs = ?k - 1" using k by (simp add: xs_def)
    define s1 where "s1 = ?s0\<lparr>ms_text := if xs = [] then [] else last_runes (mo_MaxRuneLen m) (stream_text m xs), ms_chunks := xs, ms_count := length xs\<rparr>"
    define s2 where "s2 = s1\<lparr>ms_text := last_runes (mo_MaxRuneLen m) (ms_text s1 @ chunk_text m x), ms_chunks := xs @ [x], ms_count := Suc (length xs)\<rparr>"
    have r: "list_all (readable m) xs" "readable m x" using assms(2) split by auto
    have loop1: "mod_loop m ok cs ?s0 = mod_loop m ok (x # ys) s1"
    proof -
      have z: "?s0\<lparr>ms_text := if xs = [] then ms_text ?s0 else last_runes (mo_MaxRuneLen m) (ms_text ?s0 @ stream_text m xs),
          ms_chunks := ms_chunks ?s0 @ xs, ms_count := ms_count ?s0 + length xs\<rparr> = s1"
        by (simp add: s1_def mod_init_def)
      have "ms_count ?s0 + length xs < ?k" using len k(1) by (simp add: mod_init_def)
      from mod_loop_fill [OF r(1) this, of ok "x # ys", unfolded z] show ?thesis unfolding split [symmetric] .
    qed
    have "ms_text s2 = last_runes (mo_MaxRuneLen m) (stream_text m (xs @ [x]))"
      by (simp add: s2_def s1_def stream_text_def last_runes_append)
    then have "trimRune (ms_text s2) = t" using t(1) take by simp
    moreover have "ms_rolls s2 = rolls" "ms_out s2 = []" "ms_chunks s2 = xs @ [x]" by (simp_all add: s2_def s1_def mod_init_def)
    ultimately obtain s3 where s3: "vet_block m ok s2 = (True, s3)" "ms_failed s3 \<noteq> None" "ms_out s3 = []" "ms_chunks s3 = xs @ [x]"
      using vet_block_refused [of m s2 e True ok] asked by auto
    have "mod_loop m ok (x # ys) s1 = (Drained, s3)"
      using chunk_text_readable [OF r(2)] s3(1,2) len k(1) by (simp add: s2_def [symmetric] s1_def Let_def s2_def)
    moreover have "hd (xs @ [x]) = hd cs" by (cases xs) (simp_all add: split)
    ultimately show ?thesis using finish [OF s3(2,3)] s3(4) loop1 by (simp add: moderate_stream_def)
  qed
qed


section \<open>Properties\<close>

text \<open>C38: What a client of a moderated stream reads, in any of the four formats, however long it stays and however the
  stream ends. With moderation of every text it gets the first chunks of the upstream's stream, unchanged and in
  order, each of them in a beginning of the stream, at most a block longer, whose text the service allowed or that
  had none; then nothing or, after moderation failed, one chunk that reads as one of the configured notices:
  nothing of a refused block shows through the chunk that replaces it.\<close>

theorem moderated_client_reads_vetted_text_or_notice:
  fixes m :: "llm_value moderator"
  assumes "mo_Adapter m = UniversalAdapter a" and "mo_OutputRate m = None" and "moderate_stream m ok rolls cs = s"
  shows "\<exists>n r t. ms_out s = take n cs @ r \<and> length r \<le> 1 \<and> (r \<noteq> [] \<longrightarrow> ms_failed s \<noteq> None) \<and>
     stream_text m r = runes t \<and> t \<in> notices a \<and> n \<le> length cs \<and>
     covered m (ms_allowed s) cs n \<and> really_allowed m (ms_allowed s)"
proof -
  from moderate_stream_released [OF assms(2,3)] obtain n r where n: "ms_out s = take n cs @ r" "replacement_of m r"
    "r \<noteq> [] \<longrightarrow> ms_failed s \<noteq> None" "n \<le> length cs" "covered m (ms_allowed s) cs n" "really_allowed m (ms_allowed s)"
    by (auto simp: released_def)
  obtain t where t: "stream_text m r = runes t" "t \<in> notices a"
  proof (cases "r = []")
    case True
    show thesis by (rule that [of "''''"]) (simp_all add: True stream_text_def notices_def)
  next
    case False
    then obtain b b' where "universal_replacement a b = Returned (Some b')" "r = [\<lparr>ch_Metadata = [], ch_Body = b'\<rparr>]"
      using n(2) assms(1) by (auto simp: replacement_of_def UniversalAdapter_def)
    with universal_notice [of a b b'] False show thesis
      using that by (auto simp: stream_text_def chunk_text_def assms(1) UniversalAdapter_def)
  qed
  show ?thesis
    by (rule exI [of _ n], rule exI [of _ r], rule exI [of _ t]) (use n replacement_length [OF n(2)] t in simp)
qed

text \<open>The values that no adapter replaces: events that carry no text of their own, as those a stream begins with.\<close>

definition opening_event :: "llm_value \<Rightarrow> bool" where
  "opening_event v \<longleftrightarrow>
     (case v of
        ClaudeEventV ev \<Rightarrow> ev_Type ev \<noteq> ''content_block_delta''
      | ResponsesV (ResponseStreamChunk k) \<Rightarrow> pk_Type k \<in> {''response.created'', ''response.in_progress'', ''response.queued''}
      | ChatChunkV k \<Rightarrow> ck_Choices k = []
      | _ \<Rightarrow> False)"

lemma opening_event_stays:
  assumes "opening_event v" and "Parsed b = (Returned (Some v, None), b1)"
  shows "universal_replacement a b = Returned None"
proof -
  note p = assms(2) Parsed_again [OF assms(2)]
  show ?thesis
  proof (cases v)
    case (ResponsesV x)
    with assms(1) obtain k where "x = ResponseStreamChunk k" "pk_Type k \<in> {''response.created'', ''response.in_progress'', ''response.queued''}"
      by (cases x) (auto simp: opening_event_def)
    with p ResponsesV show ?thesis
      by (auto simp: universal_replacement_def responses_replacement_def replace_parsed_def getReplacementResponsesStreamResponse_def
          Let_def part_events_def item_events_def)
  qed (use assms p in \<open>simp_all add: opening_event_def universal_replacement_def claude_replacement_def openai_replacement_def\<close>)
qed

text \<open>C39: A stream that is refused in its first block shows no notice. The replacement is made of the first chunk
  held back; when that is an event that opens the stream, as in every Claude and every responses stream, there is
  no replacement, whatever notices are configured: the client gets an empty stream with status 200.\<close>

theorem refused_opening_shows_no_notice:
  fixes m :: "llm_value moderator"
  assumes "mo_Adapter m = UniversalAdapter a" and "mo_OutputRate m = None" and "list_all (readable m) cs"
    and "Parsed (ch_Body (hd cs)) = (Returned (Some v, None), b1)" and "opening_event v"
    and "t = trimRune (last_runes (mo_MaxRuneLen m) (stream_text m (take (moderate_every m) cs)))" and "t \<noteq> []"
    and "mo_Allow m rolls t \<noteq> None"
  shows "ms_out (moderate_stream m ok rolls cs) = [] \<and> ms_failed (moderate_stream m ok rolls cs) \<noteq> None"
  by (rule first_block_refused [OF assms(2,3,6,7,8)]) (simp add: assms(1) UniversalAdapter_def opening_event_stays [OF assms(5,4)])


definition demo_universal :: universal_adapter where
  "demo_universal = NewUniversalAdapterWithConfig ''[removed]'' ''[removed]'' ''content_filter''"

definition demo_event :: "claude_event \<Rightarrow> llm_value stream_chunk" where
  "demo_event ev = \<lparr>ch_Metadata = [], ch_Body = NewBodyFromParsed (Some (ClaudeEventV ev)) None\<rparr>"

definition demo_claude_talk :: "llm_value stream_chunk list" where
  "demo_claude_talk =
     [demo_event \<lparr>ev_Type = ''message_start'', ev_Message = None, ev_Index = None, ev_ContentBlock = None, ev_Delta = None, ev_Usage = None\<rparr>,
      demo_event \<lparr>ev_Type = ''content_block_delta'', ev_Message = None, ev_Index = Some 0, ev_ContentBlock = None,
        ev_Delta = Some \<lparr>d_Type = ''text_delta'', d_Text = Some ''bad'', d_PartialJSON = None, d_Thinking = None, d_Signature = None,
          d_StopReason = None, d_StopSequence = None\<rparr>, ev_Usage = None\<rparr>]"

definition strict_moderator :: "llm_value moderator" where
  "strict_moderator = demo_moderator\<lparr>mo_Allow := (\<lambda>n t. Some (Plain ''blocked'')), mo_Adapter := UniversalAdapter demo_universal\<rparr>"

lemma demo_event_parsed: "Parsed (ch_Body (demo_event ev)) = (Returned (Some (ClaudeEventV ev), None), ch_Body (demo_event ev))"
  by (simp add: demo_event_def Parsed_def NewBodyFromParsed_def)

lemma demo_event_text: "ExtractTextFromBody (mo_Adapter strict_moderator) (ch_Body (demo_event ev)) = Returned (claude_event_text ev)"
  by (simp add: strict_moderator_def UniversalAdapter_def universal_extract_def claude_extract_def demo_event_parsed)

lemma demo_claude_texts:
  "list_all (readable strict_moderator) demo_claude_talk"
  "stream_text strict_moderator (take 2 demo_claude_talk) = [98, 97, 100]"
  by (simp_all add: demo_claude_talk_def readable_def stream_text_def chunk_text_def demo_event_text claude_event_text_def optional_text_def runes_def)

theorem moderated_client_reads_vetted_text_or_notice_witness:
  "\<exists>n r t. ms_out (moderate_stream strict_moderator (\<lambda>i. True) 0 demo_claude_talk) = take n demo_claude_talk @ r \<and>
     length r \<le> 1 \<and> stream_text strict_moderator r = runes t \<and> t \<in> {'''', ''[removed]''}"
  using moderated_client_reads_vetted_text_or_notice [of strict_moderator demo_universal "\<lambda>i. True" 0 demo_claude_talk, OF _ _ refl]
  by (simp add: strict_moderator_def demo_moderator_def notices_def demo_universal_def NewUniversalAdapterWithConfig_def) blast

theorem refused_opening_shows_no_notice_witness:
  "ms_out (moderate_stream strict_moderator (\<lambda>i. True) 0 demo_claude_talk) = []"
proof -
  have e: "moderate_every strict_moderator = 2" "mo_MaxRuneLen strict_moderator = 100"
    by (simp_all add: moderate_every_def strict_moderator_def demo_moderator_def)
  have t: "trimRune (last_runes 100 [98, 97, 100]) = [98, 97, 100]" by (simp add: trimRune_def last_runes_def IsSpace_def)
  obtain ev where ev: "hd demo_claude_talk = demo_event ev" "ev_Type ev = ''message_start''" by (simp add: demo_claude_talk_def)
  have o: "opening_event (ClaudeEventV ev)" by (simp add: opening_event_def ev(2))
  show ?thesis
    using refused_opening_shows_no_notice [of strict_moderator demo_universal demo_claude_talk "ClaudeEventV ev" "ch_Body (demo_event ev)"
        "[98, 97, 100]" 0 "\<lambda>i. True", OF _ _ demo_claude_texts(1) _ o]
    by (simp add: e t demo_claude_texts(2) ev(1) demo_event_parsed) (simp add: strict_moderator_def demo_moderator_def)
qed

end
