(* ===== verification/ModerationServices.thy ===== *)
theory ModerationServices
  imports RepeatDetector LoadBalancer
begin

text \<open>
  The services that ask a third party about a text: \<open>ali_service.go\<close> with its cache of clients, and
  \<open>netease_service.go\<close>. The vendors' SDKs are parameters; what is modelled is how their clients are made and how
  their answers become the verdicts that the moderator acts on. Metrics and log lines are left out.
\<close>

abbreviation ErrModerationAPIFailed :: err where "ErrModerationAPIFailed \<equiv> Sentinel ''ErrModerationAPIFailed''"

definition IsModerationAPIFailed :: "err \<Rightarrow> bool" where
  "IsModerationAPIFailed e = errors_is e ''ErrModerationAPIFailed''"

definition IsModerationBlocked :: "err \<Rightarrow> bool" where
  "IsModerationBlocked e = errors_is e ''ErrModerationBlocked''"

section \<open>Aliyun: clients\<close>

record ali_client_config =
  ac_AccessKeyId :: string
  ac_AccessKeySecret :: string
  ac_Endpoint :: string
  ac_RegionId :: "string option"
  ac_ConnectTimeout :: "int option"
  ac_ReadTimeout :: "int option"

definition createAliyunClient ::
  "(ali_client_config \<Rightarrow> err + 'c) \<Rightarrow> string \<Rightarrow> string \<Rightarrow> string \<Rightarrow> string \<Rightarrow> int option \<Rightarrow> int option \<Rightarrow> err + 'c" where
  "createAliyunClient NewClient keyId secret endpoint region connectTimeout readTimeout =
     (case NewClient \<lparr>ac_AccessKeyId = keyId, ac_AccessKeySecret = secret, ac_Endpoint = endpoint,
        ac_RegionId = (if region \<noteq> '''' then Some region else None), ac_ConnectTimeout = connectTimeout, ac_ReadTimeout = readTimeout\<rparr> of
        Inl er \<Rightarrow> Inl (Wrap ''failed to create aliyun green client'' [er])
      | Inr c \<Rightarrow> Inr c)"

definition ClientCacheKey :: "string \<Rightarrow> string \<Rightarrow> string \<Rightarrow> string" where
  "ClientCacheKey keyId endpoint region = keyId @ '':'' @ endpoint @ '':'' @ region"

text \<open>The cache is shared by the whole process; the lookup that counts is made under the write lock, so a call is one
  step.\<close>

definition getOrCreateAliyunClient ::
  "(ali_client_config \<Rightarrow> err + 'c) \<Rightarrow> string \<Rightarrow> string \<Rightarrow> string \<Rightarrow> string \<Rightarrow> int option \<Rightarrow> int option
    \<Rightarrow> (string \<rightharpoonup> 'c) \<Rightarrow> (err + 'c) \<times> (string \<rightharpoonup> 'c)" where
  "getOrCreateAliyunClient NewClient keyId secret endpoint region connectTimeout readTimeout cache =
     (let k = ClientCacheKey keyId endpoint region
      in case cache k of
           Some c \<Rightarrow> (Inr c, cache)
         | None \<Rightarrow>
             (case createAliyunClient NewClient keyId secret endpoint region connectTimeout readTimeout of
                Inl er \<Rightarrow> (Inl er, cache)
              | Inr c \<Rightarrow> (Inr c, cache(k \<mapsto> c))))"

record threshold =
  th_Label :: string
  th_Value :: rat

record ali_config =
  al_AccessKeyId :: string
  al_AccessKeySecret :: string
  al_Endpoint :: string
  al_RegionId :: string
  al_ServiceCode :: string
  al_Thresholds :: "(string \<rightharpoonup> threshold) option"
  al_MaxRuneLen :: int
  al_ConnectTimeout :: "int option"
  al_ReadTimeout :: "int option"

definition default_labels :: "string list" where
  "default_labels =
     [''pornographic_adult'', ''sexual_terms'', ''sexual_suggestive'', ''sexual_prompts'', ''political_figure'', ''political_entity'',
      ''political_n'', ''political_p'', ''political_prompts'', ''political_a'', ''violent_extremists'', ''violent_prompts'',
      ''contraband_drug'', ''contraband_gambling'', ''contraband_act'', ''contraband_entity'', ''inappropriate_ethics'',
      ''inappropriate_profanity'', ''religion_b'', ''religion_t'', ''religion_c'', ''religion_i'', ''religion_h'', ''pt_to_sites'',
      ''pt_by_recruitment'', ''pt_to_contact'', ''customized'']"

definition DefaultAliModeratorConfig :: ali_config where
  "DefaultAliModeratorConfig =
     \<lparr>al_AccessKeyId = '''', al_AccessKeySecret = '''', al_Endpoint = '''', al_RegionId = '''', al_ServiceCode = ''llm_response_moderation'',
      al_Thresholds = Some (map_of (map (\<lambda>l. (l, \<lparr>th_Label = l, th_Value = 95\<rparr>)) default_labels)),
      al_MaxRuneLen = 20000, al_ConnectTimeout = None, al_ReadTimeout = None\<rparr>"

record 'c ali_service =
  as_client :: 'c
  as_serviceCode :: string
  as_thresholds :: "string \<rightharpoonup> threshold"
  as_maxRuneLen :: int

definition NewAliModeratorService ::
  "(ali_client_config \<Rightarrow> err + 'c) \<Rightarrow> ali_config option \<Rightarrow> (string \<rightharpoonup> 'c) \<Rightarrow> (err + 'c ali_service) \<times> (string \<rightharpoonup> 'c)" where
  "NewAliModeratorService NewClient config cache =
     (let c = (case config of None \<Rightarrow> DefaultAliModeratorConfig | Some x \<Rightarrow> x)
      in case getOrCreateAliyunClient NewClient (al_AccessKeyId c) (al_AccessKeySecret c) (al_Endpoint c) (al_RegionId c)
                (al_ConnectTimeout c) (al_ReadTimeout c) cache of
           (Inl er, cache1) \<Rightarrow> (Inl (Wrap ''failed to create aliyun client'' [er]), cache1)
         | (Inr client, cache1) \<Rightarrow>
             (Inr \<lparr>as_client = client, as_serviceCode = al_ServiceCode c,
                as_thresholds = (case al_Thresholds c of None \<Rightarrow> the (al_Thresholds DefaultAliModeratorConfig) | Some t \<Rightarrow> t),
                as_maxRuneLen = (if al_MaxRuneLen c \<le> 0 then al_MaxRuneLen DefaultAliModeratorConfig else al_MaxRuneLen c)\<rparr>, cache1))"

section \<open>Aliyun: verdicts\<close>

text \<open>The reply is full of pointers; a nil one makes the service panic.\<close>

record ali_info =
  in_Label :: "string option"
  in_Confidence :: "rat option"

record ali_body =
  ab_Code :: "int option"
  ab_Message :: "string option"
  ab_Data :: "ali_info option list option"

record ali_reply =
  ap_StatusCode :: "int option"
  ap_Body :: "ali_body option"

definition blocked :: "string \<Rightarrow> err" where
  "blocked msg = Wrap msg [ErrModerationBlocked]"

definition api_failed :: "string \<Rightarrow> err" where
  "api_failed msg = Wrap msg [ErrModerationAPIFailed]"

fun ali_verdict :: "(string \<rightharpoonup> threshold) \<Rightarrow> ali_info option list \<Rightarrow> err option outcome" where
  "ali_verdict thr [] = Returned None"
| "ali_verdict thr (None # infos) = Panicked"
| "ali_verdict thr (Some i # infos) =
     (case in_Label i of
        None \<Rightarrow> Panicked
      | Some l \<Rightarrow>
          if l = ''nonLabel'' then ali_verdict thr infos
          else case thr l of
                 None \<Rightarrow> ali_verdict thr infos
               | Some t \<Rightarrow>
                   (case in_Confidence i of
                      None \<Rightarrow> Panicked
                    | Some c \<Rightarrow> if th_Value t < c then Returned (Some (blocked ''Aliyun label'')) else ali_verdict thr infos))"

text \<open>The call of the API with the client, the service code and the parameters.\<close>

definition ali_Allow ::
  "('c \<Rightarrow> string \<Rightarrow> string \<Rightarrow> err + ali_reply) \<Rightarrow> (string \<Rightarrow> err + string) \<Rightarrow> 'c ali_service \<Rightarrow> nat list \<Rightarrow> err option outcome" where
  "ali_Allow api marshalContent s txt =
     (case marshalContent (encode_runes txt) of
        Inl er \<Rightarrow> Returned (Some (api_failed ''marshal service parameters''))
      | Inr params \<Rightarrow>
          (case api (as_client s) (as_serviceCode s) params of
             Inl er \<Rightarrow> Returned (Some (api_failed ''TextModerationPlusWithOptions''))
           | Inr reply \<Rightarrow>
               (case ap_StatusCode reply of
                  None \<Rightarrow> Panicked
                | Some st \<Rightarrow>
                    if st \<noteq> 200 then Returned (Some (api_failed ''aliyun API returned error status''))
                    else case Option.bind (ap_Body reply) ab_Code of
                           None \<Rightarrow> Panicked
                         | Some code \<Rightarrow>
                             if code \<noteq> 200 then Returned (Some (api_failed ''aliyun API returned error code''))
                             else case Option.bind (ap_Body reply) ab_Data of
                                    None \<Rightarrow> Panicked
                                  | Some infos \<Rightarrow> ali_verdict (as_thresholds s) infos)))"

section \<open>Netease\<close>

record netease_config =
  nc_APIKey :: string
  nc_APISecret :: string
  nc_BusinessID :: string
  nc_CheckLabels :: "string list"
  nc_MaxRuneLen :: int

definition DefaultNeteaseModeratorConfig :: netease_config where
  "DefaultNeteaseModeratorConfig =
     \<lparr>nc_APIKey = '''', nc_APISecret = '''', nc_BusinessID = '''', nc_CheckLabels = [], nc_MaxRuneLen = 10000\<rparr>"

text \<open>The service keeps the settings; the length limit has a default.\<close>

definition NewNeteaseModeratorService :: "netease_config option \<Rightarrow> netease_config" where
  "NewNeteaseModeratorService config =
     (let c = (case config of None \<Rightarrow> DefaultNeteaseModeratorConfig | Some x \<Rightarrow> x)
      in if nc_MaxRuneLen c \<le> 0 then c\<lparr>nc_MaxRuneLen := nc_MaxRuneLen DefaultNeteaseModeratorConfig\<rparr> else c)"

text \<open>What a check asks, and what the reply says: the suggestion is missing when a pointer on the way is nil.\<close>

record netease_request =
  nq_BusinessID :: string
  nq_Content :: string
  nq_CheckLabels :: "string option"

record netease_reply =
  np_Code :: int
  np_Suggestion :: "int option"

fun join_comma :: "string list \<Rightarrow> string" where
  "join_comma [] = ''''"
| "join_comma [s] = s"
| "join_comma (s # ss) = s @ '','' @ join_comma ss"

definition netease_Allow ::
  "(string \<Rightarrow> string \<Rightarrow> netease_request \<Rightarrow> err + netease_reply) \<Rightarrow> netease_config \<Rightarrow> nat list \<Rightarrow> err option" where
  "netease_Allow api s txt =
     (case api (nc_APIKey s) (nc_APISecret s)
        \<lparr>nq_BusinessID = nc_BusinessID s, nq_Content = encode_runes txt,
         nq_CheckLabels = (if nc_CheckLabels s = [] then None else Some (join_comma (nc_CheckLabels s)))\<rparr> of
        Inl er \<Rightarrow> Some (api_failed ''SyncCheckText'')
      | Inr reply \<Rightarrow>
          if np_Code reply \<noteq> 200 then Some (api_failed ''netease API returned error code'')
          else if np_Suggestion reply = Some 2 then Some (blocked ''Netease suggestion'') else None)"

section \<open>Verdicts\<close>

lemma verdict_kinds [simp]:
  "IsModerationBlocked (blocked msg)" "\<not> IsModerationAPIFailed (blocked msg)"
  "IsModerationAPIFailed (api_failed msg)" "\<not> IsModerationBlocked (api_failed msg)"
  by (simp_all add: IsModerationBlocked_def IsModerationAPIFailed_def blocked_def api_failed_def)

text \<open>A label that counts against a text.\<close>

definition over_threshold :: "(string \<rightharpoonup> threshold) \<Rightarrow> ali_info \<Rightarrow> bool" where
  "over_threshold thr i \<longleftrightarrow> (\<exists>l t c. in_Label i = Some l \<and> l \<noteq> ''nonLabel'' \<and> thr l = Some t \<and> in_Confidence i = Some c \<and> th_Value t < c)"

definition complete_info :: "ali_info \<Rightarrow> bool" where
  "complete_info i \<longleftrightarrow> in_Label i \<noteq> None \<and> in_Confidence i \<noteq> None"

lemma ali_verdict_complete:
  assumes "list_all complete_info infos"
  shows "ali_verdict thr (map Some infos) = Returned (if list_ex (over_threshold thr) infos then Some (blocked ''Aliyun label'') else None)"
  using assms
proof (induction infos)
  case (Cons i infos)
  then obtain l c where "in_Label i = Some l" "in_Confidence i = Some c" by (auto simp: complete_info_def)
  with Cons show ?case by (cases "thr l") (auto simp: over_threshold_def)
qed simp

text \<open>With a configured service, an answer in full decides by the thresholds alone; everything else the API may do is
  reported as its failure, so that the moderator can tell it from a refusal.\<close>

lemma ali_Allow_verdicts:
  assumes "marshalContent (encode_runes txt) = Inr params" and "api (as_client s) (as_serviceCode s) params = r"
  shows "r = Inl er \<Longrightarrow> \<exists>e. ali_Allow api marshalContent s txt = Returned (Some e) \<and> IsModerationAPIFailed e \<and> \<not> IsModerationBlocked e"
    and "r = Inr \<lparr>ap_StatusCode = Some st, ap_Body = b\<rparr> \<Longrightarrow> st \<noteq> 200 \<Longrightarrow>
      \<exists>e. ali_Allow api marshalContent s txt = Returned (Some e) \<and> IsModerationAPIFailed e \<and> \<not> IsModerationBlocked e"
    and "r = Inr \<lparr>ap_StatusCode = Some 200, ap_Body = Some \<lparr>ab_Code = Some 200, ab_Message = msg, ab_Data = Some (map Some infos)\<rparr>\<rparr> \<Longrightarrow>
      list_all complete_info infos \<Longrightarrow>
      ali_Allow api marshalContent s txt = Returned (if list_ex (over_threshold (as_thresholds s)) infos then Some (blocked ''Aliyun label'') else None)"
  using assms ali_verdict_complete [of infos] by (auto simp: ali_Allow_def)

lemma netease_Allow_verdicts:
  assumes "api (nc_APIKey s) (nc_APISecret s) q = r"
    and "q = \<lparr>nq_BusinessID = nc_BusinessID s, nq_Content = encode_runes txt,
      nq_CheckLabels = (if nc_CheckLabels s = [] then None else Some (join_comma (nc_CheckLabels s)))\<rparr>"
  shows "netease_Allow api s txt = None \<longleftrightarrow> (\<exists>reply. r = Inr reply \<and> np_Code reply = 200 \<and> np_Suggestion reply \<noteq> Some 2)"
  using assms by (auto simp: netease_Allow_def split: sum.splits if_splits)

text \<open>Suspect texts pass: only the suggestion 2 refuses.\<close>

lemma netease_suspect_passes:
  "(\<And>q. api (nc_APIKey s) (nc_APISecret s) q = Inr \<lparr>np_Code = 200, np_Suggestion = Some 1\<rparr>) \<Longrightarrow> netease_Allow api s txt = None"
  by (simp add: netease_Allow_def)

text \<open>C40: The cache of clients ignores the secret. Once a service has been made, another one with the same key id,
  endpoint and region gets the client of the first, made with the first secret and timeouts: a rotated secret or
  a changed timeout has no effect, and a secret that no client can be made with is not noticed.\<close>

theorem rotated_secret_is_ignored:
  assumes "NewAliModeratorService NewClient (Some c) cache = (Inr s, cache1)"
    and "al_AccessKeyId c' = al_AccessKeyId c" "al_Endpoint c' = al_Endpoint c" "al_RegionId c' = al_RegionId c"
  shows "\<exists>s'. NewAliModeratorService NewClient (Some c') cache1 = (Inr s', cache1) \<and> as_client s' = as_client s"
proof -
  let ?k = "ClientCacheKey (al_AccessKeyId c) (al_Endpoint c) (al_RegionId c)"
  have "cache1 ?k = Some (as_client s)"
    using assms(1) by (auto simp: NewAliModeratorService_def getOrCreateAliyunClient_def Let_def split: option.splits sum.splits)
  then show ?thesis using assms(2-4) by (simp add: NewAliModeratorService_def getOrCreateAliyunClient_def Let_def)
qed

definition demo_ali :: "string \<Rightarrow> ali_config" where
  "demo_ali secret = DefaultAliModeratorConfig\<lparr>al_AccessKeyId := ''id'', al_AccessKeySecret := secret\<rparr>"

text \<open>A client that is its secret.\<close>

theorem rotated_secret_is_ignored_witness:
  "\<exists>s'. fst (NewAliModeratorService (\<lambda>c. Inr (ac_AccessKeySecret c)) (Some (demo_ali ''new''))
      (snd (NewAliModeratorService (\<lambda>c. Inr (ac_AccessKeySecret c)) (Some (demo_ali ''old'')) Map.empty))) = Inr s' \<and> as_client s' = ''old''"
proof -
  let ?r = "NewAliModeratorService (\<lambda>c. Inr (ac_AccessKeySecret c)) (Some (demo_ali ''old'')) Map.empty"
  obtain s where s: "?r = (Inr s, snd ?r)" "as_client s = ''old''"
    by (simp add: NewAliModeratorService_def getOrCreateAliyunClient_def createAliyunClient_def demo_ali_def Let_def)
  from rotated_secret_is_ignored [OF s(1), of "demo_ali ''new''"] s(2) show ?thesis
    by (auto simp: demo_ali_def)
qed

text \<open>The key id may hold the separator, so different accounts can share a client.\<close>

lemma client_keys_collide: "ClientCacheKey ''a'' ''b:c'' ''d'' = ClientCacheKey ''a:b'' ''c'' ''d''"
  by (simp add: ClientCacheKey_def)

end
