(* ===== verification/ExprEnv.thy ===== *)
theory ExprEnv
  imports HeaderEngines
begin

text \<open>
  \<open>pkg/exprenv/env.go\<close>: what the expressions of rules, rewrites and header engines see of a request. The feature
  extractors of an environment are behind a reference, and the environments of live requests refer to the one map of
  the process.
\<close>

section \<open>Environments\<close>

record 'v env_request =
  er_Body :: "'v body"
  er_ctx :: ctx
  er_received :: "http_header option"

type_synonym ('v, 'f) extractors = "string \<rightharpoonup> ('v env_request \<Rightarrow> err + 'f)"

datatype ('v, 'f) extractor_map = NilMap | DefaultMap | OwnMap "('v, 'f) extractors"

text \<open>The parsed body is kept once it has been asked for; \<open>None\<close> is the nil map.\<close>

record ('v, 'f, 'j) expr_env =
  ee_req :: "'v env_request"
  ee_featureExtractors :: "('v, 'f) extractor_map"
  ee_rawReq :: "'j option"

definition RegisterDefaultExtractor :: "string \<Rightarrow> ('v env_request \<Rightarrow> err + 'f) \<Rightarrow> ('v, 'f) extractors \<Rightarrow> ('v, 'f) extractors" where
  "RegisterDefaultExtractor name x defaults = defaults(name \<mapsto> x)"

definition UnregisterDefaultExtractor :: "string \<Rightarrow> ('v, 'f) extractors \<Rightarrow> ('v, 'f) extractors" where
  "UnregisterDefaultExtractor name defaults = defaults(name := None)"

definition GetEnv :: "'v env_request \<Rightarrow> ('v, 'f, 'j) expr_env" where
  "GetEnv req = \<lparr>ee_req = req, ee_featureExtractors = DefaultMap, ee_rawReq = None\<rparr>"

text \<open>The environment and the default extractors after the call.\<close>

definition WithFeatureExtractor ::
  "string \<Rightarrow> ('v env_request \<Rightarrow> err + 'f) \<Rightarrow> ('v, 'f, 'j) expr_env \<Rightarrow> ('v, 'f) extractors
    \<Rightarrow> ('v, 'f, 'j) expr_env \<times> ('v, 'f) extractors" where
  "WithFeatureExtractor name x e defaults =
     (case ee_featureExtractors e of
        NilMap \<Rightarrow> (e\<lparr>ee_featureExtractors := OwnMap [name \<mapsto> x]\<rparr>, defaults)
      | DefaultMap \<Rightarrow> (e, defaults(name \<mapsto> x))
      | OwnMap m \<Rightarrow> (e\<lparr>ee_featureExtractors := OwnMap (m(name \<mapsto> x))\<rparr>, defaults))"

text \<open>Unmarshalling yields \<open>None\<close> for the JSON null, which is not kept.\<close>

definition RawReq :: "(string \<Rightarrow> err + 'j option) \<Rightarrow> ('v, 'f, 'j) expr_env \<Rightarrow> 'j option outcome \<times> ('v, 'f, 'j) expr_env" where
  "RawReq unmarshal e =
     (if ee_rawReq e \<noteq> None then (Returned (ee_rawReq e), e)
      else case Bytes (er_Body (ee_req e)) of
             (Panicked, b) \<Rightarrow> (Panicked, e\<lparr>ee_req := (ee_req e)\<lparr>er_Body := b\<rparr>\<rparr>)
           | (Returned (Inl er), b) \<Rightarrow> (Returned None, e\<lparr>ee_req := (ee_req e)\<lparr>er_Body := b\<rparr>\<rparr>)
           | (Returned (Inr s), b) \<Rightarrow>
               (let e1 = e\<lparr>ee_req := (ee_req e)\<lparr>er_Body := b\<rparr>\<rparr>
                in case unmarshal s of
                     Inl er \<Rightarrow> (Returned None, e1)
                   | Inr m \<Rightarrow> (Returned m, e1\<lparr>ee_rawReq := m\<rparr>)))"

definition env_Context :: "ctx_key \<Rightarrow> ('v, 'f, 'j) expr_env \<Rightarrow> ctx_val option" where
  "env_Context key e = er_ctx (ee_req e) key"

definition env_extractors :: "('v, 'f, 'j) expr_env \<Rightarrow> ('v, 'f) extractors \<Rightarrow> ('v, 'f) extractors" where
  "env_extractors e defaults =
     (case ee_featureExtractors e of NilMap \<Rightarrow> Map.empty | DefaultMap \<Rightarrow> defaults | OwnMap m \<Rightarrow> m)"

definition Feature :: "string \<Rightarrow> ('v, 'f, 'j) expr_env \<Rightarrow> ('v, 'f) extractors \<Rightarrow> 'f option" where
  "Feature key e defaults =
     (case env_extractors e defaults key of
        None \<Rightarrow> None
      | Some x \<Rightarrow> (case x (ee_req e) of Inl er \<Rightarrow> None | Inr v \<Rightarrow> Some v))"

definition env_Header :: "string \<Rightarrow> ('v, 'f, 'j) expr_env \<Rightarrow> string" where
  "env_Header key e = (case er_received (ee_req e) of None \<Rightarrow> '''' | Some h \<Rightarrow> header_Get key h)"

section \<open>What the expressions see\<close>

text \<open>The parsed body stays what it was when it was first asked for, whatever happens to the body.\<close>

lemma RawReq_is_kept:
  assumes "RawReq unmarshal e = (Returned (Some m), e1)"
  shows "RawReq unmarshal (e1\<lparr>ee_req := req\<rparr>) = (Returned (Some m), e1\<lparr>ee_req := req\<rparr>)"
proof -
  have "ee_rawReq e1 = Some m"
  proof (cases "ee_rawReq e")
    case None
    obtain o1 b where b: "Bytes (er_Body (ee_req e)) = (o1, b)" by fastforce
    show ?thesis
    proof (cases o1)
      case (Returned r)
      with assms None b show ?thesis by (cases r) (auto simp: RawReq_def Let_def split: sum.splits)
    qed (use assms None b in \<open>simp add: RawReq_def\<close>)
  qed (use assms in \<open>auto simp: RawReq_def\<close>)
  then show ?thesis by (simp add: RawReq_def)
qed

text \<open>An extractor added to the environment of one request answers the expressions of every other.\<close>

lemma added_extractor_is_shared:
  "Feature name (GetEnv other) (snd (WithFeatureExtractor name x (GetEnv req) defaults)) =
     (case x other of Inl er \<Rightarrow> None | Inr v \<Rightarrow> Some v)"
  by (simp add: Feature_def env_extractors_def GetEnv_def WithFeatureExtractor_def)

text \<open>Extractors of the process come and go for all requests at once.\<close>

lemma default_extractor_simps:
  "Feature name (GetEnv req) (RegisterDefaultExtractor name x defaults) = (case x req of Inl er \<Rightarrow> None | Inr v \<Rightarrow> Some v)"
  "Feature name (GetEnv req) (UnregisterDefaultExtractor name defaults) = None"
  by (simp_all add: Feature_def env_extractors_def GetEnv_def RegisterDefaultExtractor_def UnregisterDefaultExtractor_def)

end
