(* ===== verification/Spec2Isabelle.thy ===== *)
theory Spec2Isabelle
  imports ConcurrencyColorMarker RequestColor TokenLimiter ShardKeyRR ShardKeyConcurrency HttpHandler StreamMerge ImageInline Moderator RepeatDetector Features Gateway ForceStream HeaderEngines TrafficReplication ModeratorAdapters ModerationServices ExprEnv
begin

text \<open>
  A verification library for octollm, a gateway that serves the HTTP protocols of language models
  through a chain of engines. An \<^emph>\<open>engine\<close> (\<open>pkg/octollm/engine.go\<close>) maps a request to a response
  or an error; limiters, load balancers, moderators and protocol converters wrap a next engine, the
  HTTP endpoint at the end of the chain calls the upstream, and the HTTP handlers at its start run the
  chain and write the response. The library models the engines' own logic; what they only call (Redis,
  the HTTP client, \<open>encoding/json\<close>, the clock, random numbers) is a parameter.

  \<^bold>\<open>Foundations.\<close> \<open>Prelude\<close>: Go's error values with \<open>errors.Is\<close> and \<open>errors.As\<close>, the result of
  \<open>Process\<close>, panics (\<open>outcome\<close>), named collections, lemmas on finite maps. \<open>Binary64\<close>: float64 as
  rationals rounded to 53 bits, with the monotonicity and exactness the token buckets need. \<open>Core\<close>:
  contexts, request metadata, responses with their close callbacks, durations
  (\<open>pkg/octollm/request.go\<close>). Go's \<open>int\<close> is \<open>int\<close>: no modelled branch depends on wrap-around.

  \<^bold>\<open>Concurrency limits\<close> (\<open>pkg/engines/limiter\<close>). \<open>RedisZset\<close> states the sorted-set commands as a
  record of operations and, in the locale \<open>redis_zset\<close>, what they do to an abstract view (which member
  has which score under which key); it is interpreted on an executable store. \<open>LeasePool\<close> is the
  transition system of leases that acquire, renew, expire and release, with its invariants by rule
  induction. \<open>ConcurrencyLimiter\<close>, \<open>ConcurrencyColorLimiter\<close> and \<open>ConcurrencyColorMarker\<close> translate the
  Go engines and their Lua scripts and show that every interleaving of gateways keeps the limits, that
  higher priorities keep their reservation, and that a lease is released exactly once.
  \<open>ColorPriority\<close> is the codec of priorities and colours (\<open>color_metadata.go\<close>) they share.

  \<^bold>\<open>Rate limits.\<close> \<open>TokenBucket\<close> is the bucket over a hash store (locale \<open>redis_hash\<close>) with expiry;
  \<open>RequestLimiter\<close>, \<open>RequestColor\<close> and \<open>TokenLimiter\<close> translate the engines and bound what they admit in
  any window of time, with lost replies and expiring keys. Time is a list of whole seconds, as in the
  scripts. Three theorems exhibit what the code loses: fractions of tokens, debts that outlive their
  key, and one of two overlapping deductions.

  \<^bold>\<open>Load balancers\<close> (\<open>pkg/engines/load-balancer\<close>, \<open>moderator/weighted_service.go\<close>). \<open>SmoothWRR\<close> is
  the selection arithmetic of smooth weighted round robin with its bounds; \<open>LoadBalancer\<close> the engine
  with its failover loop; \<open>ShardStore\<close> the Redis sets of backends that served a shard key (locale
  \<open>shard_store\<close>), \<open>ShardKeyRR\<close> and \<open>ShardKeyConcurrency\<close> the two engines that prefer them. The failover
  loops are total: their measure is \<open>retryMaxCount\<close> minus the attempts made. Backends, clocks,
  cancellation and random numbers are arguments.

  \<^bold>\<open>Requests, responses and HTTP.\<close> \<open>Body\<close> is \<open>UnifiedBody\<close> with the refinement of its lazy conversions
  to an abstract content. \<open>ErrorMiddleware\<close> (\<open>pkg/errutils\<close>), \<open>SseClient\<close> (\<open>pkg/engines/client\<close>) and
  \<open>HttpHandler\<close> (\<open>pkg/octollm/handler.go\<close>) are the two ends of the gateway: every engine error reaches
  the client as a complete error response, and the events one gateway writes are the events another one
  reads. A stream is the list of its chunks; the keep-alive goroutine is a number of ticks.

  \<^bold>\<open>Protocols.\<close> \<open>ChatTypes\<close> holds the wire types of OpenAI and Claude; \<open>Converter\<close>
  (\<open>pkg/engines/converter\<close>) the conversion of requests, responses and streams, whose goroutine is a
  fold over the upstream's chunks in which any send may fail; \<open>StreamMerge\<close> (\<open>pkg/streammerge\<close>) the
  mergers. The events follow the Claude protocol, tool results stay with their calls, and converting
  commutes with merging. All these functions are structurally recursive, so no fuel is needed.

  \<^bold>\<open>Interfaces.\<close> The locales \<open>redis_zset\<close>, \<open>redis_hash\<close>, \<open>token_store\<close> and \<open>shard_store\<close> state what
  the engines rely on in Redis, \<open>lease_engine\<close> and \<open>bucket_engine\<close> what every concurrency or rate limiter
  guarantees, \<open>smooth_wrr\<close> the laws of a selector and \<open>rounding\<close> those of float64. Sublocales prove the
  engines to be lease or bucket engines; each locale is interpreted on the model's own definitions, and
  the properties are stated over those definitions at the top level. Witnesses apply every property
  with hypotheses at a concrete input.

  \<^bold>\<open>Not modelled.\<close> Metrics and logging (no branch depends on them); the generated lexers and the
  stringers of \<open>pkg/types\<close>; the mock engines, examples, command line programs and test helpers; engines
  that are one call to a library (\<open>expr\<close>, \<open>sjson\<close>, the third-party moderation services). Left for later
  are the moderator engine with its adapters, the rule engine and the composer, forced streaming,
  request rewriting, traffic replication and the image fetcher with its caches.
\<close>

end
